(* ===== verification/Prelude.thy ===== *)
theory Prelude
  imports Complex_Main
begin

text \<open>
  Shared vocabulary of the development: the collections that component proofs feed to the
  simplifier, and generic lemmas on lists and on the order of coordinates that several
  components use.
\<close>

named_theorems rect_defs \<open>definitions of the operations on rectangles\<close>
named_theorems region_simps \<open>point-set equations of the region algebra\<close>
named_theorems chain_simps \<open>list equations of the window chains and stacks\<close>

section \<open>Lists\<close>

text \<open>\<open>removeAll\<close> of a \<open>QList\<close> is HOL's \<open>removeAll\<close>; \<open>insert(i, x)\<close> is \<open>insert_at\<close>.\<close>

definition insert_at :: "nat \<Rightarrow> 'a \<Rightarrow> 'a list \<Rightarrow> 'a list" where
  "insert_at i x xs = take i xs @ x # drop i xs"

text \<open>\<open>QList::indexOf\<close>: the first position of an element, or \<open>-1\<close>.\<close>

fun index_of :: "'a list \<Rightarrow> 'a \<Rightarrow> int" where
  "index_of [] x = -1"
| "index_of (y # ys) x = (if y = x then 0 else (let i = index_of ys x in if i = -1 then -1 else i + 1))"

lemma index_of_ge: "- 1 \<le> index_of xs x"
  by (induction xs) (auto simp: Let_def)

lemma index_of_none: "index_of xs x = -1 \<longleftrightarrow> x \<notin> set xs"
proof (induction xs)
  case (Cons y ys)
  then show ?case using index_of_ge [of ys x] by (auto simp: Let_def)
qed simp

lemma index_of_nonneg: "x \<in> set xs \<Longrightarrow> 0 \<le> index_of xs x"
  using index_of_none [of xs x] index_of_ge [of xs x] by linarith

lemma index_of_append:
  "index_of (xs @ ys) x =
     (if x \<in> set xs then index_of xs x
      else if x \<in> set ys then int (length xs) + index_of ys x else -1)"
proof (induction xs)
  case Nil
  then show ?case by (simp add: index_of_none)
next
  case (Cons y xs)
  then show ?case
    using index_of_none [of xs x] index_of_none [of ys x] index_of_ge [of ys x] by (auto simp: Let_def)
qed

lemma index_of_less: "index_of xs x < int (length xs)"
  by (induction xs) (auto simp: Let_def)

lemma index_of_nth: "x \<in> set xs \<Longrightarrow> xs ! nat (index_of xs x) = x"
proof (induction xs)
  case (Cons y ys)
  show ?case
  proof (cases "y = x")
    case False
    with Cons.prems have mem: "x \<in> set ys" by simp
    then have nn: "0 \<le> index_of ys x" by (rule index_of_nonneg)
    then have "nat (index_of ys x + 1) = Suc (nat (index_of ys x))" by simp
    with False nn Cons.IH [OF mem] show ?thesis by (simp add: Let_def)
  qed simp
qed simp

lemma index_of_split:
  "x \<in> set xs \<Longrightarrow> \<exists>ys zs. xs = ys @ x # zs \<and> x \<notin> set ys \<and> index_of xs x = int (length ys)"
proof -
  assume "x \<in> set xs"
  then obtain ys zs where "xs = ys @ x # zs" "x \<notin> set ys" by (meson split_list_first)
  then show ?thesis by (intro exI [of _ ys] exI [of _ zs]) (simp add: index_of_append)
qed

lemma index_of_distinct: "distinct xs \<Longrightarrow> i < length xs \<Longrightarrow> index_of xs (xs ! i) = int i"
proof (induction xs arbitrary: i)
  case (Cons y ys)
  show ?case
  proof (cases i)
    case (Suc j)
    then have "ys ! j \<in> set ys" "y \<noteq> ys ! j" using Cons.prems by auto
    then show ?thesis using Suc Cons index_of_nonneg [of "ys ! j" ys] by (simp add: Let_def)
  qed simp
qed simp

lemma set_insert_at [simp]: "set (insert_at i x xs) = insert x (set xs)"
proof -
  have "set (take i xs) \<union> set (drop i xs) = set xs"
    by (metis append_take_drop_id set_append)
  then show ?thesis by (auto simp: insert_at_def)
qed

lemma length_insert_at [simp]: "length (insert_at i x xs) = Suc (length xs)"
  by (simp add: insert_at_def)

lemma distinct_insert_at: "x \<notin> set xs \<Longrightarrow> distinct xs \<Longrightarrow> distinct (insert_at i x xs)"
proof -
  assume "x \<notin> set xs" and "distinct xs"
  moreover have "set (take i xs) \<inter> set (drop i xs) = {}"
    using \<open>distinct xs\<close> by (metis append_take_drop_id distinct_append)
  ultimately show ?thesis
    by (auto simp: insert_at_def dest: in_set_takeD in_set_dropD)
qed

lemma insert_at_append [simp]: "insert_at (length xs) x (xs @ ys) = xs @ x # ys"
  by (simp add: insert_at_def)

lemma distinct_removeAll_insert_at:
  "distinct xs \<Longrightarrow> distinct (insert_at i x (removeAll x xs))"
  by (rule distinct_insert_at) (simp_all add: distinct_removeAll)

lemma removeAll_insert_at [simp]: "removeAll x (insert_at i x xs) = removeAll x xs"
  by (metis append_take_drop_id insert_at_def removeAll.simps(2) removeAll_append)

text \<open>The relative order of a list outside a set of elements: the list that is left.\<close>

lemma filter_insert_at:
  "\<not> P x \<Longrightarrow> filter P (insert_at i x xs) = filter P xs"
  by (metis append_take_drop_id filter.simps(2) filter_append insert_at_def)

lemma filter_removeAll: "\<not> P x \<Longrightarrow> filter P (removeAll x xs) = filter P xs"
  by (induction xs) auto

section \<open>Sortedness and adjacent elements\<close>

lemma takeWhile_all: "\<forall>x \<in> set xs. P x \<Longrightarrow> takeWhile P xs = xs"
  by (induction xs) auto

lemma dropWhile_all: "\<forall>x \<in> set xs. P x \<Longrightarrow> dropWhile P xs = []"
  by (induction xs) auto

lemma takeWhile_append_all:
  "\<forall>x \<in> set xs. P x \<Longrightarrow> takeWhile P (xs @ ys) = xs @ takeWhile P ys"
  by (induction xs) auto

lemma dropWhile_append_all:
  "\<forall>x \<in> set xs. P x \<Longrightarrow> dropWhile P (xs @ ys) = dropWhile P ys"
  by (induction xs) auto

lemma takeWhile_none: "ys = [] \<or> \<not> P (hd ys) \<Longrightarrow> takeWhile P ys = []"
  by (cases ys) auto

lemma dropWhile_none: "ys = [] \<or> \<not> P (hd ys) \<Longrightarrow> dropWhile P ys = ys"
  by (cases ys) auto

end
