(* ===== verification/Rect.thy ===== *)
theory Rect
  imports Prelude
begin

text \<open>
  Rectangles, \<open>src/kde-kwin/src/core/rect.h\<close>. \<open>Rect\<close> stores four \<open>int\<close> edges and
  \<open>RectF\<close> four \<open>qreal\<close> edges; the two classes have the same methods with the same bodies,
  so the model is one record over the type of the coordinates, used at \<open>int\<close> for \<open>Rect\<close>
  and at \<open>real\<close> for \<open>RectF\<close>. A rectangle covers the points of the half-open ranges between
  its edges (\<open>rect_pts\<close>), which is what \<open>contains(QPoint)\<close> tests.
\<close>

section \<open>Data\<close>

record 'a rect =
  m_left :: 'a
  m_top :: 'a
  m_right :: 'a
  m_bottom :: 'a

type_synonym Rect = "int rect"
type_synonym RectF = "real rect"

record 'a margins =
  mg_left :: 'a
  mg_top :: 'a
  mg_right :: 'a
  mg_bottom :: 'a

definition Rect_null :: "'a::zero rect" where
  "Rect_null = \<lparr>m_left = 0, m_top = 0, m_right = 0, m_bottom = 0\<rparr>"

definition Rect_make :: "'a::plus \<Rightarrow> 'a \<Rightarrow> 'a \<Rightarrow> 'a \<Rightarrow> 'a rect" where
  "Rect_make x y width height =
     \<lparr>m_left = x, m_top = y, m_right = x + width, m_bottom = y + height\<rparr>"

definition Rect_corners :: "'a \<times> 'a \<Rightarrow> 'a \<times> 'a \<Rightarrow> 'a rect" where
  "Rect_corners topLeft bottomRight =
     \<lparr>m_left = fst topLeft, m_top = snd topLeft, m_right = fst bottomRight, m_bottom = snd bottomRight\<rparr>"

section \<open>Predicates\<close>

definition Rect_isEmpty :: "'a::linorder rect \<Rightarrow> bool" where
  "Rect_isEmpty r \<longleftrightarrow> m_left r \<ge> m_right r \<or> m_top r \<ge> m_bottom r"

definition Rect_contains :: "'a::linorder rect \<Rightarrow> 'a rect \<Rightarrow> bool" where
  "Rect_contains r rect \<longleftrightarrow>
     \<not> Rect_isEmpty r \<and> (m_left r \<le> m_left rect \<and> m_right rect \<le> m_right r) \<and>
     (m_top r \<le> m_top rect \<and> m_bottom rect \<le> m_bottom r)"

definition Rect_containsPoint :: "'a::linorder rect \<Rightarrow> 'a \<times> 'a \<Rightarrow> bool" where
  "Rect_containsPoint r p \<longleftrightarrow>
     (m_left r \<le> fst p \<and> fst p < m_right r) \<and> (m_top r \<le> snd p \<and> snd p < m_bottom r)"

definition Rect_intersects :: "'a::linorder rect \<Rightarrow> 'a rect \<Rightarrow> bool" where
  "Rect_intersects r other \<longleftrightarrow>
     (if Rect_isEmpty r \<or> Rect_isEmpty other then False
      else m_left r < m_right other \<and> m_left other < m_right r \<and>
           m_top r < m_bottom other \<and> m_top other < m_bottom r)"

section \<open>Size and centre\<close>

definition Rect_width :: "'a::minus rect \<Rightarrow> 'a" where
  "Rect_width r = m_right r - m_left r"

definition Rect_height :: "'a::minus rect \<Rightarrow> 'a" where
  "Rect_height r = m_bottom r - m_top r"

text \<open>C++ integer division by 2 truncates towards zero.\<close>

definition half_trunc :: "int \<Rightarrow> int" where
  "half_trunc n = (if 0 \<le> n then n div 2 else - ((- n) div 2))"

definition Rect_horizontalCenter :: "Rect \<Rightarrow> int" where
  "Rect_horizontalCenter r = m_left r + half_trunc (m_right r - m_left r)"

definition Rect_verticalCenter :: "Rect \<Rightarrow> int" where
  "Rect_verticalCenter r = m_top r + half_trunc (m_bottom r - m_top r)"

definition Rect_center :: "Rect \<Rightarrow> int \<times> int" where
  "Rect_center r = (Rect_horizontalCenter r, Rect_verticalCenter r)"

section \<open>Moving and resizing\<close>

definition Rect_setWidth :: "'a::plus \<Rightarrow> 'a rect \<Rightarrow> 'a rect" where
  "Rect_setWidth width r = r\<lparr>m_right := m_left r + width\<rparr>"

definition Rect_setHeight :: "'a::plus \<Rightarrow> 'a rect \<Rightarrow> 'a rect" where
  "Rect_setHeight height r = r\<lparr>m_bottom := m_top r + height\<rparr>"

definition Rect_moveLeft :: "'a::ring \<Rightarrow> 'a rect \<Rightarrow> 'a rect" where
  "Rect_moveLeft left r = (let offset = left - m_left r in r\<lparr>m_left := left, m_right := m_right r + offset\<rparr>)"

definition Rect_moveTop :: "'a::ring \<Rightarrow> 'a rect \<Rightarrow> 'a rect" where
  "Rect_moveTop t r = (let offset = t - m_top r in r\<lparr>m_top := t, m_bottom := m_bottom r + offset\<rparr>)"

definition Rect_moveRight :: "'a::ring \<Rightarrow> 'a rect \<Rightarrow> 'a rect" where
  "Rect_moveRight right r =
     (let offset = right - m_right r in r\<lparr>m_right := right, m_left := m_left r + offset\<rparr>)"

definition Rect_moveBottom :: "'a::ring \<Rightarrow> 'a rect \<Rightarrow> 'a rect" where
  "Rect_moveBottom bottom r =
     (let offset = bottom - m_bottom r in r\<lparr>m_bottom := bottom, m_top := m_top r + offset\<rparr>)"

definition Rect_moveTopLeft :: "'a::ring \<times> 'a \<Rightarrow> 'a rect \<Rightarrow> 'a rect" where
  "Rect_moveTopLeft p r = Rect_moveTop (snd p) (Rect_moveLeft (fst p) r)"

definition Rect_moveBottomRight :: "'a::ring \<times> 'a \<Rightarrow> 'a rect \<Rightarrow> 'a rect" where
  "Rect_moveBottomRight p r = Rect_moveBottom (snd p) (Rect_moveRight (fst p) r)"

definition Rect_moveCenter :: "int \<times> int \<Rightarrow> Rect \<Rightarrow> Rect" where
  "Rect_moveCenter p r =
     (let r1 = Rect_moveLeft (fst p - half_trunc (Rect_width r)) r
      in Rect_moveTop (snd p - half_trunc (Rect_height r1)) r1)"

definition Rect_translate :: "'a::plus \<times> 'a \<Rightarrow> 'a rect \<Rightarrow> 'a rect" where
  "Rect_translate offset r =
     \<lparr>m_left = m_left r + fst offset, m_top = m_top r + snd offset,
      m_right = m_right r + fst offset, m_bottom = m_bottom r + snd offset\<rparr>"

definition Rect_transposed :: "'a::ring rect \<Rightarrow> 'a rect" where
  "Rect_transposed r =
     \<lparr>m_left = m_left r, m_top = m_top r,
      m_right = m_left r + Rect_height r, m_bottom = m_top r + Rect_width r\<rparr>"

definition Rect_setCoords :: "'a::linorder \<Rightarrow> 'a \<Rightarrow> 'a \<Rightarrow> 'a \<Rightarrow> 'a rect" where
  "Rect_setCoords x1 y1 x2 y2 =
     \<lparr>m_left = min x1 x2, m_top = min y1 y2, m_right = max x1 x2, m_bottom = max y1 y2\<rparr>"

definition Rect_adjusted :: "'a::plus \<Rightarrow> 'a \<Rightarrow> 'a \<Rightarrow> 'a \<Rightarrow> 'a rect \<Rightarrow> 'a rect" where
  "Rect_adjusted x1 y1 x2 y2 r =
     Rect_corners (m_left r + x1, m_top r + y1) (m_right r + x2, m_bottom r + y2)"

definition Rect_grownBy :: "'a::ring margins \<Rightarrow> 'a rect \<Rightarrow> 'a rect" where
  "Rect_grownBy margins r =
     Rect_corners (m_left r - mg_left margins, m_top r - mg_top margins)
                  (m_right r + mg_right margins, m_bottom r + mg_bottom margins)"

definition Rect_shrunkBy :: "'a::ring margins \<Rightarrow> 'a rect \<Rightarrow> 'a rect" where
  "Rect_shrunkBy margins r =
     Rect_corners (m_left r + mg_left margins, m_top r + mg_top margins)
                  (m_right r - mg_right margins, m_bottom r - mg_bottom margins)"

section \<open>Combining rectangles\<close>

definition Rect_united :: "'a::linorder rect \<Rightarrow> 'a rect \<Rightarrow> 'a rect" where
  "Rect_united r other =
     (if Rect_isEmpty r then other
      else if Rect_isEmpty other then r
      else Rect_corners (min (m_left r) (m_left other), min (m_top r) (m_top other))
                        (max (m_right r) (m_right other), max (m_bottom r) (m_bottom other)))"

definition Rect_intersected :: "'a::{linorder,zero} rect \<Rightarrow> 'a rect \<Rightarrow> 'a rect" where
  "Rect_intersected r other =
     (if Rect_isEmpty r then Rect_null
      else if Rect_isEmpty other then Rect_null
      else let intersectionLeft = max (m_left r) (m_left other);
               intersectionRight = min (m_right r) (m_right other);
               intersectionTop = max (m_top r) (m_top other);
               intersectionBottom = min (m_bottom r) (m_bottom other)
           in if intersectionLeft \<ge> intersectionRight then Rect_null
              else if intersectionTop \<ge> intersectionBottom then Rect_null
              else Rect_corners (intersectionLeft, intersectionTop) (intersectionRight, intersectionBottom))"

definition Rect_normalized :: "'a::linorder rect \<Rightarrow> 'a rect" where
  "Rect_normalized r =
     Rect_corners (min (m_left r) (m_right r), min (m_top r) (m_bottom r))
                  (max (m_left r) (m_right r), max (m_top r) (m_bottom r))"

definition Rect_span :: "'a::linorder \<times> 'a \<Rightarrow> 'a \<times> 'a \<Rightarrow> 'a rect" where
  "Rect_span point1 point2 = Rect_normalized (Rect_corners point1 point2)"

section \<open>Scaling and rounding of \<open>RectF\<close>\<close>

text \<open>\<open>std::round\<close> rounds halves away from zero.\<close>

definition round_half_away :: "real \<Rightarrow> int" where
  "round_half_away x = (if 0 \<le> x then \<lfloor>x + 1/2\<rfloor> else \<lceil>x - 1/2\<rceil>)"

definition RectF_scaled :: "real \<Rightarrow> real \<Rightarrow> RectF \<Rightarrow> RectF" where
  "RectF_scaled xScale yScale r =
     \<lparr>m_left = m_left r * xScale, m_top = m_top r * yScale,
      m_right = m_right r * xScale, m_bottom = m_bottom r * yScale\<rparr>"

definition RectF_of_Rect :: "Rect \<Rightarrow> RectF" where
  "RectF_of_Rect r =
     \<lparr>m_left = of_int (m_left r), m_top = of_int (m_top r),
      m_right = of_int (m_right r), m_bottom = of_int (m_bottom r)\<rparr>"

definition Rect_scaled :: "real \<Rightarrow> real \<Rightarrow> Rect \<Rightarrow> RectF" where
  "Rect_scaled xScale yScale r = RectF_scaled xScale yScale (RectF_of_Rect r)"

definition RectF_rounded :: "RectF \<Rightarrow> Rect" where
  "RectF_rounded r =
     Rect_corners (round_half_away (m_left r), round_half_away (m_top r))
                  (round_half_away (m_right r), round_half_away (m_bottom r))"

definition RectF_roundedIn :: "RectF \<Rightarrow> Rect" where
  "RectF_roundedIn r =
     Rect_corners (\<lceil>m_left r\<rceil>, \<lceil>m_top r\<rceil>) (\<lfloor>m_right r\<rfloor>, \<lfloor>m_bottom r\<rfloor>)"

definition RectF_roundedOut :: "RectF \<Rightarrow> Rect" where
  "RectF_roundedOut r =
     Rect_corners (\<lfloor>m_left r\<rfloor>, \<lfloor>m_top r\<rfloor>) (\<lceil>m_right r\<rceil>, \<lceil>m_bottom r\<rceil>)"

lemmas Rect_defs =
  Rect_null_def Rect_make_def Rect_corners_def Rect_isEmpty_def Rect_contains_def
  Rect_containsPoint_def Rect_intersects_def Rect_width_def Rect_height_def
  Rect_translate_def Rect_grownBy_def Rect_shrunkBy_def Rect_adjusted_def
  Rect_normalized_def Rect_span_def Rect_setCoords_def

declare Rect_defs [rect_defs]

section \<open>The points of a rectangle\<close>

definition rect_pts :: "'a::linorder rect \<Rightarrow> ('a \<times> 'a) set" where
  "rect_pts r = {(x, y). m_left r \<le> x \<and> x < m_right r \<and> m_top r \<le> y \<and> y < m_bottom r}"

lemma in_rect_pts:
  "(x, y) \<in> rect_pts r \<longleftrightarrow> m_left r \<le> x \<and> x < m_right r \<and> m_top r \<le> y \<and> y < m_bottom r"
  by (simp add: rect_pts_def)

lemma Rect_containsPoint_pts: "Rect_containsPoint r p \<longleftrightarrow> p \<in> rect_pts r"
  by (cases p) (auto simp: rect_defs in_rect_pts)

lemma Rect_isEmpty_pts: "Rect_isEmpty r \<longleftrightarrow> rect_pts r = {}"
proof
  assume "Rect_isEmpty r"
  then show "rect_pts r = {}" by (auto simp: rect_defs rect_pts_def)
next
  assume *: "rect_pts r = {}"
  show "Rect_isEmpty r"
  proof (rule ccontr)
    assume "\<not> Rect_isEmpty r"
    then have "(m_left r, m_top r) \<in> rect_pts r" by (auto simp: rect_defs in_rect_pts)
    with * show False by simp
  qed
qed

lemma Rect_null_pts [simp]: "rect_pts (Rect_null :: 'a::{linorder,zero} rect) = {}"
  by (simp add: rect_pts_def Rect_null_def) (metis less_le_not_le)

lemma Rect_isEmpty_null [simp]: "Rect_isEmpty (Rect_null :: 'a::{linorder,zero} rect)"
  by (simp add: Rect_isEmpty_def Rect_null_def)

lemma rect_pts_nonempty_iff:
  "rect_pts r \<noteq> {} \<longleftrightarrow> m_left r < m_right r \<and> m_top r < m_bottom r"
  using Rect_isEmpty_pts [of r] by (auto simp: Rect_isEmpty_def not_le)

lemma Rect_intersected_pts:
  "rect_pts (Rect_intersected r s) = rect_pts r \<inter> rect_pts s"
proof (cases "Rect_isEmpty r \<or> Rect_isEmpty s")
  case True
  then have "Rect_intersected r s = Rect_null" by (auto simp: Rect_intersected_def)
  then show ?thesis using True by (auto simp: Rect_isEmpty_pts)
next
  case False
  then show ?thesis
    by (auto simp: Rect_intersected_def Let_def rect_pts_def Rect_corners_def Rect_null_def
        min_le_iff_disj le_max_iff_disj)
qed

lemma Rect_intersects_pts:
  "Rect_intersects r s \<longleftrightarrow> rect_pts r \<inter> rect_pts s \<noteq> {}"
proof (cases "Rect_isEmpty r \<or> Rect_isEmpty s")
  case True
  then show ?thesis by (auto simp: Rect_intersects_def Rect_isEmpty_pts)
next
  case False
  show ?thesis
  proof
    assume "Rect_intersects r s"
    with False have "(max (m_left r) (m_left s), max (m_top r) (m_top s)) \<in> rect_pts r \<inter> rect_pts s"
      by (auto simp: rect_defs in_rect_pts)
    then show "rect_pts r \<inter> rect_pts s \<noteq> {}" by blast
  next
    assume "rect_pts r \<inter> rect_pts s \<noteq> {}"
    with False show "Rect_intersects r s" by (auto simp: Rect_intersects_def rect_pts_def)
  qed
qed

lemma Rect_contains_pts:
  assumes "\<not> Rect_isEmpty s"
  shows "Rect_contains r s \<Longrightarrow> rect_pts s \<subseteq> rect_pts r"
  by (auto simp: Rect_contains_def rect_pts_def)

end
