(* ===== verification/RegionRects.thy ===== *)
theory RegionRects
  imports Rect
begin

text \<open>
  What the rectangle list of a region promises, \<open>src/kde-kwin/src/core/region.h\<close>, class
  comment: the rectangles are sorted in the y-x lexicographical order and split into bands;
  a band is a run of rectangles that share their top and bottom edges and neither touch nor
  overlap. \<open>wf_rects\<close> states it, with the further fact that \<open>coalesceBands\<close> keeps: two bands that
  touch never hold the same spans. The specification of a list is the set of points it covers
  (\<open>pts\<close>). The main result is that the representation is canonical: two well-formed lists
  that cover the same points are equal (\<open>wf_rects_unique\<close>).
\<close>

section \<open>Rows\<close>

text \<open>The horizontal spans of a row of rectangles, and the x coordinates they cover.\<close>

definition spans :: "'a rect list \<Rightarrow> ('a \<times> 'a) list" where
  "spans L = map (\<lambda>r. (m_left r, m_right r)) L"

definition row_pts :: "'a::linorder rect list \<Rightarrow> 'a set" where
  "row_pts L = {x. \<exists>r \<in> set L. m_left r \<le> x \<and> x < m_right r}"

definition span_sorted :: "'a::linorder rect list \<Rightarrow> bool" where
  "span_sorted L \<longleftrightarrow>
     sorted_wrt (\<lambda>a b. m_right a < m_left b) L \<and> (\<forall>r \<in> set L. m_left r < m_right r)"

lemma row_pts_simps [simp]:
  "row_pts [] = {}"
  "row_pts (r # L) = {x. m_left r \<le> x \<and> x < m_right r} \<union> row_pts L"
  "row_pts (L @ M) = row_pts L \<union> row_pts M"
  by (auto simp: row_pts_def)

lemma spans_simps [simp]:
  "spans [] = []"
  "spans (r # L) = (m_left r, m_right r) # spans L"
  "spans (L @ M) = spans L @ spans M"
  "length (spans L) = length L"
  by (auto simp: spans_def)

lemma span_sorted_Nil [simp]: "span_sorted []"
  by (simp add: span_sorted_def)

lemma span_sorted_Cons:
  "span_sorted (r # L) \<longleftrightarrow> m_left r < m_right r \<and> (\<forall>q \<in> set L. m_right r < m_left q) \<and> span_sorted L"
  by (auto simp: span_sorted_def)

lemma span_sorted_append:
  "span_sorted (L @ M) \<longleftrightarrow>
     span_sorted L \<and> span_sorted M \<and> (\<forall>a \<in> set L. \<forall>b \<in> set M. m_right a < m_left b)"
  by (auto simp: span_sorted_def sorted_wrt_append)

lemma span_sorted_snoc:
  "span_sorted (L @ [r]) \<longleftrightarrow>
     span_sorted L \<and> m_left r < m_right r \<and> (\<forall>a \<in> set L. m_right a < m_left r)"
  by (auto simp: span_sorted_append span_sorted_Cons)

lemma span_sorted_lr: "span_sorted L \<Longrightarrow> r \<in> set L \<Longrightarrow> m_left r < m_right r"
  by (simp add: span_sorted_def)

lemma row_pts_bound: "x \<in> row_pts L \<Longrightarrow> \<forall>q \<in> set L. a < m_left q \<Longrightarrow> a < x"
  by (auto simp: row_pts_def)

lemma row_pts_spans: "spans L = spans M \<Longrightarrow> row_pts L = row_pts M"
proof -
  have "row_pts K = {x. \<exists>(l, r) \<in> set (spans K). l \<le> x \<and> x < r}" for K :: "'a::linorder rect list"
    by (auto simp: row_pts_def spans_def)
  then show "spans L = spans M \<Longrightarrow> row_pts L = row_pts M" by simp
qed

text \<open>
  A row of separated spans is determined by the coordinates it covers; no density of the
  coordinates is needed, so the result holds for \<open>int\<close> as for \<open>real\<close>.
\<close>

lemma row_first_span:
  assumes A: "span_sorted (a # A)" and B: "span_sorted (b # B)"
    and eq: "row_pts (a # A) = row_pts (b # B)"
  shows "m_left a \<le> m_left b" and "m_right a \<le> m_right b"
proof -
  have a: "m_left a < m_right a" "\<forall>q \<in> set A. m_right a < m_left q"
    and b: "m_left b < m_right b" "\<forall>q \<in> set B. m_right b < m_left q"
    using A B by (simp_all add: span_sorted_Cons)
  have "m_left b \<in> row_pts (a # A)" using b eq by auto
  then show l: "m_left a \<le> m_left b"
    using a row_pts_bound [of "m_left b" A "m_right a"] by auto
  have "m_left a \<in> row_pts (b # B)" using a eq by auto
  then have l2: "m_left b \<le> m_left a"
    using b row_pts_bound [of "m_left a" B "m_right b"] by auto
  show "m_right a \<le> m_right b"
  proof (rule ccontr)
    assume "\<not> m_right a \<le> m_right b"
    then have "m_right b \<in> row_pts (a # A)" using l b(1) by auto
    with eq have "m_right b \<in> row_pts B" by simp
    then show False using row_pts_bound [of "m_right b" B "m_right b"] b(2) by simp
  qed
qed

lemma row_rest:
  assumes "span_sorted (a # A)"
  shows "row_pts A = {x \<in> row_pts (a # A). m_right a < x}"
  using assms row_pts_bound [of _ A "m_right a"] by (auto simp: span_sorted_Cons)

lemma row_unique:
  "span_sorted A \<Longrightarrow> span_sorted B \<Longrightarrow> row_pts A = row_pts B \<Longrightarrow> spans A = spans B"
proof (induction A arbitrary: B)
  case Nil
  then show ?case
  proof (cases B)
    case (Cons b B')
    with Nil show ?thesis by (auto simp: span_sorted_Cons)
  qed simp
next
  case (Cons a A)
  have a: "m_left a \<in> row_pts (a # A)" using Cons.prems(1) by (auto simp: span_sorted_Cons)
  show ?case
  proof (cases B)
    case Nil
    with a Cons.prems(3) show ?thesis by simp
  next
    case (Cons b B')
    note prems = Cons.prems [unfolded Cons]
    have eqs: "m_left a = m_left b" "m_right a = m_right b"
      using row_first_span [OF prems] row_first_span [OF prems(2,1) prems(3) [symmetric]] by auto
    have "row_pts A = {x \<in> row_pts (a # A). m_right a < x}" by (rule row_rest [OF prems(1)])
    also have "\<dots> = {x \<in> row_pts (b # B'). m_right b < x}" by (simp only: prems(3) eqs(2))
    also have "\<dots> = row_pts B'" by (rule row_rest [OF prems(2), symmetric])
    finally have "row_pts A = row_pts B'" .
    then have "spans A = spans B'"
      using Cons.IH prems(1,2) by (simp add: span_sorted_Cons)
    with eqs Cons show ?thesis by simp
  qed
qed

section \<open>Bands\<close>

definition is_band :: "'a::linorder \<Rightarrow> 'a \<Rightarrow> 'a rect list \<Rightarrow> bool" where
  "is_band t b L \<longleftrightarrow>
     t < b \<and> span_sorted L \<and> (\<forall>r \<in> set L. m_top r = t \<and> m_bottom r = b)"

definition btop :: "'a rect list \<Rightarrow> 'a" where
  "btop B = m_top (hd B)"

definition bbottom :: "'a rect list \<Rightarrow> 'a" where
  "bbottom B = m_bottom (hd B)"

definition band_ok :: "'a::linorder rect list \<Rightarrow> bool" where
  "band_ok B \<longleftrightarrow> B \<noteq> [] \<and> is_band (btop B) (bbottom B) B"

text \<open>Consecutive bands do not overlap, and are different where they touch.\<close>

definition band_step :: "'a::linorder rect list \<Rightarrow> 'a rect list \<Rightarrow> bool" where
  "band_step A B \<longleftrightarrow> bbottom A \<le> btop B \<and> \<not> (bbottom A = btop B \<and> spans A = spans B)"

definition wf_bands :: "'a::linorder rect list list \<Rightarrow> bool" where
  "wf_bands Bs \<longleftrightarrow> (\<forall>B \<in> set Bs. band_ok B) \<and> successively band_step Bs"

text \<open>The bands of a list: maximal runs with the same top edge.\<close>

function bands :: "'a rect list \<Rightarrow> 'a rect list list" where
  "bands [] = []"
| "bands (r # rs) =
     (r # takeWhile (\<lambda>q. m_top q = m_top r) rs) # bands (dropWhile (\<lambda>q. m_top q = m_top r) rs)"
  by pat_completeness auto
termination
  by (relation "measure length") (auto simp: less_Suc_eq_le length_dropWhile_le)

definition wf_rects :: "'a::linorder rect list \<Rightarrow> bool" where
  "wf_rects rs \<longleftrightarrow> wf_bands (bands rs)"

definition pts :: "'a::linorder rect list \<Rightarrow> ('a \<times> 'a) set" where
  "pts rs = (\<Union>r \<in> set rs. rect_pts r)"

lemma pts_simps [simp]:
  "pts [] = {}"
  "pts (r # rs) = rect_pts r \<union> pts rs"
  "pts (rs @ qs) = pts rs \<union> pts qs"
  by (auto simp: pts_def)

lemma concat_bands [simp]: "concat (bands rs) = rs"
proof (induction rs rule: bands.induct)
  case (2 r rs)
  then show ?case by simp
qed simp

lemma is_band_Nil [simp]: "is_band t b [] \<longleftrightarrow> t < b"
  by (simp add: is_band_def)

lemma band_okI: "is_band t b B \<Longrightarrow> B \<noteq> [] \<Longrightarrow> band_ok B"
  by (cases B) (auto simp: band_ok_def is_band_def btop_def bbottom_def)

lemma is_band_edges: "is_band t b B \<Longrightarrow> B \<noteq> [] \<Longrightarrow> btop B = t \<and> bbottom B = b"
  by (cases B) (auto simp: is_band_def btop_def bbottom_def)

lemma band_okD:
  assumes "band_ok B"
  shows "B \<noteq> []" and "btop B < bbottom B" and "span_sorted B"
    and "r \<in> set B \<Longrightarrow> m_top r = btop B" and "r \<in> set B \<Longrightarrow> m_bottom r = bbottom B"
  using assms by (auto simp: band_ok_def is_band_def)

lemma pts_is_band:
  "is_band t b B \<Longrightarrow> (x, y) \<in> pts B \<longleftrightarrow> t \<le> y \<and> y < b \<and> x \<in> row_pts B"
  by (auto simp: is_band_def pts_def in_rect_pts row_pts_def)

lemma pts_band_ok:
  "band_ok B \<Longrightarrow> (x, y) \<in> pts B \<longleftrightarrow> btop B \<le> y \<and> y < bbottom B \<and> x \<in> row_pts B"
  by (rule pts_is_band) (simp add: band_ok_def)

lemma pts_concat: "pts (concat Bs) = (\<Union>B \<in> set Bs. pts B)"
  by (auto simp: pts_def)

lemma wf_bands_simps [simp]:
  "wf_bands []"
  "wf_bands [B] \<longleftrightarrow> band_ok B"
  by (auto simp: wf_bands_def)

lemma wf_bands_Cons:
  "wf_bands (B # Bs) \<longleftrightarrow> band_ok B \<and> wf_bands Bs \<and> (Bs \<noteq> [] \<longrightarrow> band_step B (hd Bs))"
  by (cases Bs) (auto simp: wf_bands_def)

lemma wf_bands_append:
  "wf_bands (As @ Bs) \<longleftrightarrow>
     wf_bands As \<and> wf_bands Bs \<and> (As = [] \<or> Bs = [] \<or> band_step (last As) (hd Bs))"
  by (auto simp: wf_bands_def successively_append_iff)

lemma wf_bands_below:
  "wf_bands (B # Bs) \<Longrightarrow> C \<in> set Bs \<Longrightarrow> bbottom B \<le> btop C"
proof (induction Bs arbitrary: B)
  case (Cons A Bs)
  show ?case
  proof (cases "C = A")
    case True
    with Cons.prems show ?thesis by (simp add: wf_bands_Cons band_step_def)
  next
    case False
    with Cons have "bbottom A \<le> btop C" by (simp add: wf_bands_Cons)
    moreover have "bbottom B \<le> btop A" "btop A < bbottom A"
      using Cons.prems(1) by (auto simp: wf_bands_Cons band_step_def band_okD)
    ultimately show ?thesis by order
  qed
qed simp

lemma wf_bands_tops:
  "wf_bands (B # Bs) \<Longrightarrow> r \<in> set (concat Bs) \<Longrightarrow> btop B < m_top r"
proof -
  assume wf: "wf_bands (B # Bs)" and r: "r \<in> set (concat Bs)"
  then obtain C where C: "C \<in> set Bs" "r \<in> set C" by auto
  then have "m_top r = btop C" using wf by (auto simp: wf_bands_def band_okD)
  moreover have "bbottom B \<le> btop C" using wf_bands_below [OF wf C(1)] .
  moreover have "btop B < bbottom B" using wf by (simp add: wf_bands_Cons band_okD)
  ultimately show ?thesis by order
qed

text \<open>Splitting off the first band, as the sweeps do with \<open>leftEnd\<close> and \<open>rightEnd\<close>.\<close>

lemma takeWhile_band:
  assumes "wf_bands (B # Bs)"
  shows "takeWhile (\<lambda>q. btop B = m_top q) (concat (B # Bs)) = B"
proof -
  have tops: "\<forall>q \<in> set B. btop B = m_top q"
    using assms by (auto simp: wf_bands_Cons band_okD)
  have "concat Bs = [] \<or> \<not> btop B = m_top (hd (concat Bs))"
    by (metis assms hd_in_set less_irrefl wf_bands_tops)
  then show ?thesis using tops by (simp add: takeWhile_append_all takeWhile_none)
qed

lemma dropWhile_band:
  assumes "wf_bands (B # Bs)"
  shows "dropWhile (\<lambda>q. btop B = m_top q) (concat (B # Bs)) = concat Bs"
proof -
  have tops: "\<forall>q \<in> set B. btop B = m_top q"
    using assms by (auto simp: wf_bands_Cons band_okD)
  have "concat Bs = [] \<or> \<not> btop B = m_top (hd (concat Bs))"
    by (metis assms hd_in_set less_irrefl wf_bands_tops)
  then show ?thesis using tops by (simp add: dropWhile_append_all dropWhile_none)
qed

lemma hd_concat_band: "wf_bands (B # Bs) \<Longrightarrow> hd (concat (B # Bs)) = hd B \<and> B \<noteq> []"
  by (auto simp: wf_bands_Cons band_okD)

lemma bands_concat: "wf_bands Bs \<Longrightarrow> bands (concat Bs) = Bs"
proof (induction Bs)
  case (Cons B Bs)
  from Cons.prems have "B \<noteq> []" by (simp add: wf_bands_Cons band_okD)
  then obtain r B' where B: "B = r # B'" by (cases B) auto
  have top: "m_top r = btop B" by (simp add: B btop_def)
  have tw: "takeWhile (\<lambda>q. m_top q = m_top r) (B' @ concat Bs) = B'"
    using takeWhile_band [OF Cons.prems] by (simp add: B btop_def eq_commute)
  have dw: "dropWhile (\<lambda>q. m_top q = m_top r) (B' @ concat Bs) = concat Bs"
    using dropWhile_band [OF Cons.prems] by (simp add: B btop_def eq_commute)
  have "bands (concat (B # Bs)) = (r # B') # bands (concat Bs)"
    using tw dw by (simp add: B)
  then show ?case using Cons by (simp add: B wf_bands_Cons)
qed simp

lemma wf_rects_concat: "wf_bands Bs \<Longrightarrow> wf_rects (concat Bs)"
  by (simp add: wf_rects_def bands_concat)

lemma wf_rects_bands: "wf_rects rs \<Longrightarrow> wf_bands (bands rs)"
  by (simp add: wf_rects_def)

lemma wf_rects_Nil [simp]: "wf_rects []"
  by (simp add: wf_rects_def)

lemma wf_rects_nonempty: "wf_rects rs \<Longrightarrow> r \<in> set rs \<Longrightarrow> m_left r < m_right r \<and> m_top r < m_bottom r"
proof -
  assume wf: "wf_rects rs" and r: "r \<in> set rs"
  from r have "r \<in> set (concat (bands rs))" by simp
  then obtain B where B: "B \<in> set (bands rs)" "r \<in> set B" unfolding set_concat by blast
  with wf have ok: "band_ok B" by (simp add: wf_rects_def wf_bands_def)
  then show ?thesis using B(2) band_okD [OF ok] span_sorted_lr [of B r] by simp
qed

lemma wf_rects_single [simp]:
  "wf_rects [r] \<longleftrightarrow> m_left r < m_right r \<and> m_top r < m_bottom r"
  by (auto simp: wf_rects_def band_ok_def is_band_def btop_def bbottom_def span_sorted_def)

section \<open>The representation is canonical\<close>

lemma pts_bands_row:
  assumes "wf_bands (B # Bs)" and "btop B \<le> y" and "y < bbottom B"
  shows "{x. (x, y) \<in> pts (concat (B # Bs))} = row_pts B"
proof -
  have ok: "band_ok B" using assms(1) by (simp add: wf_bands_Cons)
  have "(x, y) \<notin> pts (concat Bs)" for x
  proof
    assume "(x, y) \<in> pts (concat Bs)"
    then obtain C where C: "C \<in> set Bs" "(x, y) \<in> pts C" by (auto simp: pts_concat)
    have "band_ok C" using C(1) assms(1) by (simp add: wf_bands_def)
    then have "btop C \<le> y" using C(2) by (simp add: pts_band_ok)
    then show False using wf_bands_below [OF assms(1) C(1)] assms(3) by simp
  qed
  then show ?thesis using assms(2,3) ok by (auto simp: pts_band_ok)
qed

lemma pts_bands_rest:
  assumes "wf_bands (B # Bs)"
  shows "pts (concat Bs) = {p \<in> pts (concat (B # Bs)). bbottom B \<le> snd p}"
proof -
  have ok: "band_ok B" using assms by (simp add: wf_bands_Cons)
  have "bbottom B \<le> y" if "(x, y) \<in> pts (concat Bs)" for x y
  proof -
    from that obtain C where C: "C \<in> set Bs" "(x, y) \<in> pts C" by (auto simp: pts_concat)
    have "band_ok C" using C(1) assms by (simp add: wf_bands_def)
    then have "btop C \<le> y" using C(2) by (simp add: pts_band_ok)
    then show ?thesis using wf_bands_below [OF assms C(1)] by simp
  qed
  moreover have "y < bbottom B" if "(x, y) \<in> pts B" for x y
    using that by (simp add: pts_band_ok [OF ok])
  ultimately show ?thesis by fastforce
qed

lemma row_pts_nonempty: "band_ok B \<Longrightarrow> row_pts B \<noteq> {}"
  by (cases B) (auto simp: band_ok_def is_band_def span_sorted_Cons)

lemma band_top_pts:
  assumes "wf_bands (B # Bs)"
  shows "\<exists>x. (x, btop B) \<in> pts (concat (B # Bs))"
    and "(x, y) \<in> pts (concat (B # Bs)) \<Longrightarrow> btop B \<le> y"
proof -
  have ok: "band_ok B" using assms by (simp add: wf_bands_Cons)
  have "row_pts B \<noteq> {}" by (rule row_pts_nonempty [OF ok])
  then show "\<exists>x. (x, btop B) \<in> pts (concat (B # Bs))"
    using pts_bands_row [OF assms, of "btop B"] band_okD(2) [OF ok] by blast
  assume xy: "(x, y) \<in> pts (concat (B # Bs))"
  show "btop B \<le> y"
  proof (cases "bbottom B \<le> y")
    case True
    then show ?thesis using band_okD(2) [OF ok] by simp
  next
    case False
    have "pts (concat Bs) \<subseteq> {p. bbottom B \<le> snd p}" by (subst pts_bands_rest [OF assms]) blast
    with False have "(x, y) \<notin> pts (concat Bs)" by auto
    then show ?thesis using xy ok by (simp add: pts_band_ok)
  qed
qed

lemma row_pts_at_bottom:
  assumes A: "wf_bands (A # As)"
  shows "{x. (x, bbottom A) \<in> pts (concat (A # As))} \<noteq> row_pts A"
proof
  assume eq: "{x. (x, bbottom A) \<in> pts (concat (A # As))} = row_pts A"
  have okA: "band_ok A" using A by (simp add: wf_bands_Cons)
  have notA: "(x, bbottom A) \<notin> pts A" for x using okA by (simp add: pts_band_ok)
  have neA: "row_pts A \<noteq> {}" by (rule row_pts_nonempty [OF okA])
  show False
  proof (cases As)
    case Nil
    then show False using eq notA neA by auto
  next
    case (Cons C Cs)
    have wfC: "wf_bands (C # Cs)" and step: "band_step A C"
      using A by (simp_all add: Cons wf_bands_Cons)
    have okC: "band_ok C" using wfC by (simp add: wf_bands_Cons)
    have row: "{x. (x, bbottom A) \<in> pts (concat (C # Cs))} = row_pts A"
      using eq notA by (auto simp: Cons)
    have "btop C \<le> bbottom A"
      using neA row band_top_pts(2) [OF wfC] by blast
    then have touch: "bbottom A = btop C" using step by (simp add: band_step_def)
    have "row_pts C = row_pts A"
      using pts_bands_row [OF wfC, of "btop C"] band_okD(2) [OF okC] row touch by simp
    then have "spans A = spans C"
      using row_unique [of A C] okA okC by (simp add: band_okD)
    with touch step show False by (simp add: band_step_def)
  qed
qed

lemma first_band_unique:
  assumes A: "wf_bands (A # As)" and B: "wf_bands (B # Bs)"
    and eq: "pts (concat (A # As)) = pts (concat (B # Bs))"
  shows "A = B"
proof -
  have okA: "band_ok A" and okB: "band_ok B" using A B by (simp_all add: wf_bands_Cons)
  have "btop A = btop B"
    using band_top_pts [OF A] band_top_pts [OF B] eq by (metis order_antisym)
  have "row_pts A = {x. (x, btop A) \<in> pts (concat (A # As))}"
    using pts_bands_row [OF A, of "btop A"] band_okD(2) [OF okA] by blast
  also have "\<dots> = {x. (x, btop B) \<in> pts (concat (B # Bs))}" by (simp only: eq \<open>btop A = btop B\<close>)
  also have "\<dots> = row_pts B"
    using pts_bands_row [OF B, of "btop B"] band_okD(2) [OF okB] by blast
  finally have rows: "row_pts A = row_pts B" .
  have spans: "spans A = spans B"
    using row_unique [OF band_okD(3) [OF okA] band_okD(3) [OF okB] rows] .
  have "btop B \<le> bbottom A" "btop A \<le> bbottom B"
    using \<open>btop A = btop B\<close> band_okD(2) [OF okA] band_okD(2) [OF okB] by simp_all
  then have "\<not> bbottom A < bbottom B" "\<not> bbottom B < bbottom A"
    using row_pts_at_bottom [OF A] row_pts_at_bottom [OF B] pts_bands_row [OF A, of "bbottom B"]
      pts_bands_row [OF B, of "bbottom A"] by (metis eq rows)+
  then have bot: "bbottom A = bbottom B" by simp
  show "A = B"
  proof (rule nth_equalityI)
    show len: "length A = length B" using spans by (metis spans_simps(4))
    fix i
    assume i: "i < length A"
    with len have iB: "i < length B" by simp
    have "spans A ! i = spans B ! i" using spans by simp
    then have "m_left (A ! i) = m_left (B ! i)" "m_right (A ! i) = m_right (B ! i)"
      using i iB by (simp_all add: spans_def)
    moreover have "m_top (A ! i) = m_top (B ! i)" "m_bottom (A ! i) = m_bottom (B ! i)"
      using okA okB i iB \<open>btop A = btop B\<close> bot by (simp_all add: band_okD)
    ultimately show "A ! i = B ! i" by simp
  qed
qed

lemma wf_bands_unique:
  "wf_bands As \<Longrightarrow> wf_bands Bs \<Longrightarrow> pts (concat As) = pts (concat Bs) \<Longrightarrow> As = Bs"
proof (induction As arbitrary: Bs)
  case Nil
  then show ?case using band_top_pts(1) by (cases Bs) fastforce+
next
  case (Cons A As)
  show ?case
  proof (cases Bs)
    case Nil
    then show ?thesis using Cons.prems band_top_pts(1) [OF Cons.prems(1)] by auto
  next
    case (Cons B Bs')
    note prems = Cons.prems [unfolded Cons]
    have "A = B" by (rule first_band_unique [OF prems])
    moreover have "pts (concat As) = pts (concat Bs')"
      unfolding pts_bands_rest [OF prems(1)] pts_bands_rest [OF prems(2)] prems(3)
      by (simp only: \<open>A = B\<close>)
    ultimately show ?thesis using Cons.IH prems(1,2) Cons by (simp add: wf_bands_Cons)
  qed
qed

lemma wf_rects_unique:
  assumes "wf_rects rs" and "wf_rects qs" and "pts rs = pts qs"
  shows "rs = qs"
proof -
  have "bands rs = bands qs"
    by (rule wf_bands_unique) (use assms in \<open>simp_all add: wf_rects_def\<close>)
  then show ?thesis by (metis concat_bands)
qed

end
