(* ===== verification/RegionBands.thy ===== *)
theory RegionBands
  imports RegionRects
begin

text \<open>
  The band operations of \<open>src/kde-kwin/src/core/region.cpp\<close>. Each appends the rectangles of one
  new band to \<open>m_rects\<close> and then tries to coalesce it with the band before it, which the code
  refers to by a pair of indices (\<open>BandRef\<close>). The scan of one row is a function that returns the
  rectangles it emplaces (\<open>merge_row\<close>, \<open>subtract_row\<close>, \<open>xor_row\<close>, \<open>intersect_row\<close>); in these
  loops the pointer \<open>previousRect\<close> is null until the first rectangle is emplaced and then points to
  the last one, so it is the last element of the row built so far.

  The lemmas show that each row scan computes its set operation on the covered x coordinates and
  returns separated, sorted spans, and what \<open>coalesceBands\<close> does to the list.
\<close>

section \<open>Band references, slicing and coalescing\<close>

record bandref =
  band_start :: nat
  band_end :: nat

definition BandRef_init :: bandref where
  "BandRef_init = \<lparr>band_start = 0, band_end = 0\<rparr>"

definition slicedRect :: "'a \<Rightarrow> 'a \<Rightarrow> 'a rect \<Rightarrow> 'a rect" where
  "slicedRect top' bottom' r =
     \<lparr>m_left = m_left r, m_top = top', m_right = m_right r, m_bottom = bottom'\<rparr>"

fun set_bottoms :: "'a \<Rightarrow> nat \<Rightarrow> nat \<Rightarrow> 'a rect list \<Rightarrow> 'a rect list" where
  "set_bottoms b start 0 rects = rects"
| "set_bottoms b start (Suc n) rects =
     set_bottoms b (Suc start) n (rects[start := (rects ! start)\<lparr>m_bottom := b\<rparr>])"

definition coalesceBands :: "'a rect list \<Rightarrow> bandref \<Rightarrow> bandref \<Rightarrow> 'a rect list \<times> bandref" where
  "coalesceBands rects previous current =
     (let currentCount = band_end current - band_start current;
          previousCount = band_end previous - band_start previous
      in if currentCount = 0 \<or> previousCount \<noteq> currentCount then (rects, current)
         else let previousBottom = m_bottom (rects ! band_start previous);
                  currentTop = m_top (rects ! band_start current)
              in if previousBottom \<noteq> currentTop then (rects, current)
                 else if list_ex (\<lambda>i. let a = rects ! (band_start previous + i);
                                          b = rects ! (band_start current + i)
                                      in m_left a \<noteq> m_left b \<or> m_right a \<noteq> m_right b) [0..<currentCount]
                 then (rects, current)
                 else let currentBottom = m_bottom (rects ! band_start current);
                          rects' = set_bottoms currentBottom (band_start previous) currentCount rects
                      in (take (band_start current) rects' @ drop (band_start current + currentCount) rects',
                          previous))"

text \<open>The common end of the band operations: the new rectangles follow the previous band.\<close>

definition closeBand :: "'a rect list \<Rightarrow> 'a rect list \<Rightarrow> bandref \<Rightarrow> 'a rect list \<times> bandref" where
  "closeBand rects new previousBand =
     (let rects' = rects @ new
      in coalesceBands rects' previousBand
           \<lparr>band_start = band_end previousBand, band_end = length rects'\<rparr>)"

definition sliceBand ::
    "'a rect list \<Rightarrow> 'a rect list \<Rightarrow> 'a \<Rightarrow> 'a \<Rightarrow> bandref \<Rightarrow> 'a rect list \<times> bandref" where
  "sliceBand m_rects rects top' bottom' previousBand =
     closeBand m_rects (map (slicedRect top' bottom') rects) previousBand"

section \<open>The row scans\<close>

text \<open>
  \<open>if (previousRect && rect.left() <= previousRect->right()) \<dots> else emplaceBack\<close>: the body that
  \<open>mergeBands\<close> and \<open>organizeBand\<close> repeat.
\<close>

definition extendRow :: "'a::linorder \<Rightarrow> 'a \<Rightarrow> 'a rect \<Rightarrow> 'a rect list \<Rightarrow> 'a rect list" where
  "extendRow top' bottom' r out =
     (if out \<noteq> [] \<and> m_left r \<le> m_right (last out)
      then if m_right (last out) < m_right r
           then butlast out @ [(last out)\<lparr>m_right := m_right r\<rparr>]
           else out
      else out @ [slicedRect top' bottom' r])"

fun merge_cols ::
    "'a::linorder \<Rightarrow> 'a \<Rightarrow> 'a rect list \<Rightarrow> 'a rect list \<Rightarrow> 'a rect list \<Rightarrow> 'a rect list" where
  "merge_cols top' bottom' [] [] out = out"
| "merge_cols top' bottom' (l # ls) [] out = merge_cols top' bottom' ls [] (extendRow top' bottom' l out)"
| "merge_cols top' bottom' [] (r # rs) out = merge_cols top' bottom' [] rs (extendRow top' bottom' r out)"
| "merge_cols top' bottom' (l # ls) (r # rs) out =
     (if m_left l < m_left r
      then merge_cols top' bottom' ls (r # rs) (extendRow top' bottom' l out)
      else merge_cols top' bottom' (l # ls) rs (extendRow top' bottom' r out))"

definition merge_row :: "'a::linorder \<Rightarrow> 'a \<Rightarrow> 'a rect list \<Rightarrow> 'a rect list \<Rightarrow> 'a rect list" where
  "merge_row top' bottom' left right = merge_cols top' bottom' left right []"

definition mergeBands ::
    "'a::linorder rect list \<Rightarrow> 'a rect list \<Rightarrow> 'a rect list \<Rightarrow> 'a \<Rightarrow> 'a \<Rightarrow> bandref \<Rightarrow> 'a rect list \<times> bandref" where
  "mergeBands m_rects left right top' bottom' previousBand =
     closeBand m_rects (merge_row top' bottom' left right) previousBand"

fun organize_row :: "'a::linorder \<Rightarrow> 'a \<Rightarrow> 'a rect list \<Rightarrow> 'a rect list \<Rightarrow> 'a rect list" where
  "organize_row top' bottom' [] out = out"
| "organize_row top' bottom' (r # rs) out = organize_row top' bottom' rs (extendRow top' bottom' r out)"

definition organizeBand ::
    "'a::linorder rect list \<Rightarrow> 'a rect list \<Rightarrow> 'a \<Rightarrow> 'a \<Rightarrow> bandref \<Rightarrow> 'a rect list \<times> bandref" where
  "organizeBand m_rects rects top' bottom' previousBand =
     closeBand m_rects (organize_row top' bottom' rects []) previousBand"

text \<open>One row of \<open>x1\<close> to \<open>x2\<close>, as \<open>Rect(QPoint(x1, top), QPoint(x2, bottom))\<close>.\<close>

definition rowRect :: "'a \<Rightarrow> 'a \<Rightarrow> 'a \<Rightarrow> 'a \<Rightarrow> 'a rect" where
  "rowRect x1 top' x2 bottom' = Rect_corners (x1, top') (x2, bottom')"

text \<open>
  The scanning loops below may advance the scan line without consuming a rectangle; that
  happens at most once for each pair of heads, in the gap case, which the measure counts.
\<close>

definition gap :: "'a::linorder \<Rightarrow> 'a \<Rightarrow> 'a \<Rightarrow> bool" where
  "gap scanline l r \<longleftrightarrow> (if l \<le> r then max l scanline < r else max r scanline < l)"

function subtract_cols ::
    "'a::linorder \<Rightarrow> 'a \<Rightarrow> 'a \<Rightarrow> 'a rect list \<Rightarrow> 'a rect list \<Rightarrow> 'a rect list \<Rightarrow> 'a rect list" where
  "subtract_cols top' bottom' scanline [] right out = out"
| "subtract_cols top' bottom' scanline (l # ls) [] out =
     out @ rowRect (max (m_left l) scanline) top' (m_right l) bottom'
         # map (\<lambda>q. rowRect (m_left q) top' (m_right q) bottom') ls"
| "subtract_cols top' bottom' scanline (l # ls) (r # rs) out =
     (let (scan, out') =
        (if m_left l \<le> m_left r
         then let x = max (m_left l) scanline
              in if x < m_left r
                 then let s = min (m_right l) (m_left r) in (s, out @ [rowRect x top' s bottom'])
                 else (min (m_right l) (m_right r), out)
         else (min (m_right l) (m_right r), out))
      in subtract_cols top' bottom' scan
           (if m_right l = scan then ls else l # ls)
           (if m_right r = scan then rs else r # rs) out')"
  by pat_completeness auto
termination
  by (relation "measure (\<lambda>(t, b, scan, ls, rs, out).
        2 * (length ls + length rs) +
        (if ls \<noteq> [] \<and> rs \<noteq> [] \<and> m_left (hd ls) \<le> m_left (hd rs) \<and>
            max (m_left (hd ls)) scan < m_left (hd rs) then 1 else 0))")
    (auto simp: Let_def min_def split: if_splits)

definition subtract_row :: "'a::linorder \<Rightarrow> 'a \<Rightarrow> 'a rect list \<Rightarrow> 'a rect list \<Rightarrow> 'a rect list" where
  "subtract_row top' bottom' left right =
     subtract_cols top' bottom' (min (m_left (hd left)) (m_left (hd right))) left right []"

definition subtractBands ::
    "'a::linorder rect list \<Rightarrow> 'a rect list \<Rightarrow> 'a rect list \<Rightarrow> 'a \<Rightarrow> 'a \<Rightarrow> bandref \<Rightarrow> 'a rect list \<times> bandref" where
  "subtractBands m_rects left right top' bottom' previousBand =
     closeBand m_rects (subtract_row top' bottom' left right) previousBand"

text \<open>\<open>if (previousRect && previousRect->right() == x) setRight(scanline) else emplaceBack\<close>.\<close>

definition joinRow :: "'a::linorder \<Rightarrow> 'a \<Rightarrow> 'a \<Rightarrow> 'a \<Rightarrow> 'a rect list \<Rightarrow> 'a rect list" where
  "joinRow top' bottom' x1 x2 out =
     (if out \<noteq> [] \<and> m_right (last out) = x1
      then butlast out @ [(last out)\<lparr>m_right := x2\<rparr>]
      else out @ [rowRect x1 top' x2 bottom'])"

function xor_cols ::
    "'a::linorder \<Rightarrow> 'a \<Rightarrow> 'a \<Rightarrow> 'a rect list \<Rightarrow> 'a rect list \<Rightarrow> 'a rect list \<Rightarrow> 'a rect list" where
  "xor_cols top' bottom' scanline [] [] out = out"
| "xor_cols top' bottom' scanline (l # ls) [] out =
     joinRow top' bottom' (max (m_left l) scanline) (m_right l) out
       @ map (\<lambda>q. rowRect (m_left q) top' (m_right q) bottom') ls"
| "xor_cols top' bottom' scanline [] (r # rs) out =
     joinRow top' bottom' (max (m_left r) scanline) (m_right r) out
       @ map (\<lambda>q. rowRect (m_left q) top' (m_right q) bottom') rs"
| "xor_cols top' bottom' scanline (l # ls) (r # rs) out =
     (let (scan, out') =
        (if m_left l \<le> m_left r
         then let x = max (m_left l) scanline
              in if x < m_left r
                 then let s = min (m_right l) (m_left r) in (s, joinRow top' bottom' x s out)
                 else (min (m_right l) (m_right r), out)
         else let x = max (m_left r) scanline
              in if x < m_left l
                 then let s = min (m_left l) (m_right r) in (s, joinRow top' bottom' x s out)
                 else (min (m_right l) (m_right r), out))
      in xor_cols top' bottom' scan
           (if m_right l = scan then ls else l # ls)
           (if m_right r = scan then rs else r # rs) out')"
  by pat_completeness auto
termination
  by (relation "measure (\<lambda>(t, b, scan, ls, rs, out).
        2 * (length ls + length rs) +
        (if ls \<noteq> [] \<and> rs \<noteq> [] \<and> gap scan (m_left (hd ls)) (m_left (hd rs)) then 1 else 0))")
    (auto simp: Let_def min_def gap_def split: if_splits)

definition xor_row :: "'a::linorder \<Rightarrow> 'a \<Rightarrow> 'a rect list \<Rightarrow> 'a rect list \<Rightarrow> 'a rect list" where
  "xor_row top' bottom' left right =
     xor_cols top' bottom' (min (m_left (hd left)) (m_left (hd right))) left right []"

definition xorBands ::
    "'a::linorder rect list \<Rightarrow> 'a rect list \<Rightarrow> 'a rect list \<Rightarrow> 'a \<Rightarrow> 'a \<Rightarrow> bandref \<Rightarrow> 'a rect list \<times> bandref" where
  "xorBands m_rects left right top' bottom' previousBand =
     closeBand m_rects (xor_row top' bottom' left right) previousBand"

function intersect_cols ::
    "'a::linorder \<Rightarrow> 'a \<Rightarrow> 'a rect list \<Rightarrow> 'a rect list \<Rightarrow> 'a rect list \<Rightarrow> 'a rect list" where
  "intersect_cols top' bottom' [] right out = out"
| "intersect_cols top' bottom' (l # ls) [] out = out"
| "intersect_cols top' bottom' (l # ls) (r # rs) out =
     (let x1 = max (m_left l) (m_left r);
          x2 = min (m_right l) (m_right r)
      in intersect_cols top' bottom'
           (if m_right l = x2 then ls else l # ls)
           (if m_right r = x2 then rs else r # rs)
           (if x1 < x2 then out @ [rowRect x1 top' x2 bottom'] else out))"
  by pat_completeness auto
termination
  by (relation "measure (\<lambda>(t, b, ls, rs, out). length ls + length rs)") (auto simp: min_def)

definition intersect_row :: "'a::linorder \<Rightarrow> 'a \<Rightarrow> 'a rect list \<Rightarrow> 'a rect list \<Rightarrow> 'a rect list" where
  "intersect_row top' bottom' left right = intersect_cols top' bottom' left right []"

definition intersectBands ::
    "'a::linorder rect list \<Rightarrow> 'a rect list \<Rightarrow> 'a rect list \<Rightarrow> 'a \<Rightarrow> 'a \<Rightarrow> bandref \<Rightarrow> 'a rect list \<times> bandref" where
  "intersectBands m_rects left right top' bottom' previousBand =
     closeBand m_rects (intersect_row top' bottom' left right) previousBand"

text \<open>The scanning equations apply to their own right sides; they are unfolded by hand.\<close>

declare subtract_cols.simps(3) [simp del] xor_cols.simps(4) [simp del] intersect_cols.simps(3) [simp del]

section \<open>Rows under construction\<close>

definition row_ok :: "'a::linorder \<Rightarrow> 'a \<Rightarrow> 'a rect list \<Rightarrow> bool" where
  "row_ok t b out \<longleftrightarrow> span_sorted out \<and> (\<forall>r \<in> set out. m_top r = t \<and> m_bottom r = b)"

lemma is_band_row_ok: "is_band t b L \<longleftrightarrow> t < b \<and> row_ok t b L"
  by (simp add: is_band_def row_ok_def)

lemma row_ok_Nil [simp]: "row_ok t b []"
  by (simp add: row_ok_def)

lemma row_ok_snoc:
  "row_ok t b (out @ [r]) \<longleftrightarrow>
     row_ok t b out \<and> m_top r = t \<and> m_bottom r = b \<and> m_left r < m_right r \<and>
     (\<forall>a \<in> set out. m_right a < m_left r)"
  by (auto simp: row_ok_def span_sorted_snoc)

lemma row_ok_append:
  "row_ok t b (out @ new) \<longleftrightarrow>
     row_ok t b out \<and> row_ok t b new \<and> (\<forall>a \<in> set out. \<forall>c \<in> set new. m_right a < m_left c)"
  by (auto simp: row_ok_def span_sorted_append)

lemma row_ok_span_sorted: "row_ok t b out \<Longrightarrow> span_sorted out"
  by (simp add: row_ok_def)

lemma rowRect_simps [simp]:
  "m_left (rowRect x1 t x2 b) = x1" "m_right (rowRect x1 t x2 b) = x2"
  "m_top (rowRect x1 t x2 b) = t" "m_bottom (rowRect x1 t x2 b) = b"
  by (simp_all add: rowRect_def Rect_corners_def)

lemma slicedRect_simps [simp]:
  "m_left (slicedRect t b r) = m_left r" "m_right (slicedRect t b r) = m_right r"
  "m_top (slicedRect t b r) = t" "m_bottom (slicedRect t b r) = b"
  by (simp_all add: slicedRect_def)

lemma map_rowRect: "map (\<lambda>q. rowRect (m_left q) t (m_right q) b) L = map (slicedRect t b) L"
  by (simp add: rowRect_def Rect_corners_def slicedRect_def)

lemma spans_map_sliced [simp]: "spans (map (slicedRect t b) L) = spans L"
  by (simp add: spans_def)

lemma span_sorted_map_sliced [simp]: "span_sorted (map (slicedRect t b) L) = span_sorted L"
  by (simp add: span_sorted_def sorted_wrt_map)

lemma row_ok_map_sliced [simp]: "row_ok t b (map (slicedRect t b) L) \<longleftrightarrow> span_sorted L"
  by (auto simp: row_ok_def)

lemma row_pts_map_sliced [simp]: "row_pts (map (slicedRect t b) L) = row_pts L"
  by (rule row_pts_spans) simp

lemma row_pts_right: "x \<in> row_pts L \<Longrightarrow> \<forall>q \<in> set L. m_right q \<le> a \<Longrightarrow> x < a"
  by (auto simp: row_pts_def)

lemma row_pts_left: "x \<in> row_pts L \<Longrightarrow> \<forall>q \<in> set L. a \<le> m_left q \<Longrightarrow> a \<le> x"
  by (auto simp: row_pts_def)

text \<open>Where the rows are sorted, the last rectangle bounds them all.\<close>

lemma span_sorted_last:
  assumes "span_sorted out" and "q \<in> set out"
  shows "m_right q \<le> m_right (last out)"
proof -
  from assms(2) have "out \<noteq> []" by auto
  then obtain out' z where out: "out = out' @ [z]" by (cases out rule: rev_cases) auto
  then show ?thesis using assms by (fastforce simp: span_sorted_snoc)
qed

section \<open>Merging\<close>

lemma extendRow_correct:
  assumes ok: "row_ok t b out" and r: "m_left r < m_right r"
    and le: "\<forall>q \<in> set out. m_left q \<le> m_left r"
  shows "row_ok t b (extendRow t b r out)"
    and "row_pts (extendRow t b r out) = row_pts out \<union> {x. m_left r \<le> x \<and> x < m_right r}"
    and "\<forall>q \<in> set (extendRow t b r out). m_left q \<le> m_left r"
proof (atomize (full), cases out rule: rev_cases)
  case Nil
  then show "row_ok t b (extendRow t b r out) \<and>
      row_pts (extendRow t b r out) = row_pts out \<union> {x. m_left r \<le> x \<and> x < m_right r} \<and>
      (\<forall>q \<in> set (extendRow t b r out). m_left q \<le> m_left r)"
    using r by (auto simp: extendRow_def row_ok_def span_sorted_Cons)
next
  case (snoc out' z)
  have out': "row_ok t b out'" "m_top z = t" "m_bottom z = b" "m_left z < m_right z"
    "\<forall>a \<in> set out'. m_right a < m_left z"
    using ok by (simp_all add: snoc row_ok_snoc)
  show "row_ok t b (extendRow t b r out) \<and>
      row_pts (extendRow t b r out) = row_pts out \<union> {x. m_left r \<le> x \<and> x < m_right r} \<and>
      (\<forall>q \<in> set (extendRow t b r out). m_left q \<le> m_left r)"
  proof (cases "m_left r \<le> m_right z")
    case True
    then show ?thesis
      using out' r le by (auto simp: extendRow_def snoc row_ok_snoc)
  next
    case False
    then have "\<forall>a \<in> set out. m_right a < m_left r" using out' by (auto simp: snoc)
    moreover have "extendRow t b r out = out @ [slicedRect t b r]"
      using False by (simp add: extendRow_def snoc)
    ultimately show ?thesis using ok r le by (auto simp: row_ok_snoc)
  qed
qed

lemma span_sorted_lefts:
  "span_sorted (r # L) \<Longrightarrow> q \<in> set L \<Longrightarrow> m_left r \<le> m_left q"
  by (fastforce simp: span_sorted_Cons)

lemma organize_row_correct:
  assumes "row_ok t b out" and "sorted (map m_left rs)" and "\<forall>r \<in> set rs. m_left r < m_right r"
    and "\<forall>q \<in> set out. \<forall>r \<in> set rs. m_left q \<le> m_left r"
  shows "row_ok t b (organize_row t b rs out) \<and>
         row_pts (organize_row t b rs out) = row_pts out \<union> row_pts rs"
  using assms
proof (induction rs arbitrary: out)
  case (Cons r rs)
  have r: "m_left r < m_right r" "\<forall>q \<in> set out. m_left q \<le> m_left r" using Cons.prems by auto
  note ext = extendRow_correct [OF Cons.prems(1) r]
  have "\<forall>q \<in> set (extendRow t b r out). \<forall>s \<in> set rs. m_left q \<le> m_left s"
    using ext(3) Cons.prems(2) by fastforce
  then have "row_ok t b (organize_row t b rs (extendRow t b r out)) \<and>
      row_pts (organize_row t b rs (extendRow t b r out)) = row_pts (extendRow t b r out) \<union> row_pts rs"
    using Cons.IH [OF ext(1)] Cons.prems by simp
  then show ?case using ext(2) by auto
qed simp

lemma merge_cols_correct:
  assumes "row_ok t b out" and "span_sorted ls" and "span_sorted rs"
    and "\<forall>q \<in> set out. \<forall>r \<in> set ls \<union> set rs. m_left q \<le> m_left r"
  shows "row_ok t b (merge_cols t b ls rs out) \<and>
         row_pts (merge_cols t b ls rs out) = row_pts out \<union> row_pts ls \<union> row_pts rs"
  using assms
proof (induction t b ls rs out rule: merge_cols.induct)
  case (1 t b out)
  then show ?case by simp
next
  case (2 t b l ls out)
  have l: "m_left l < m_right l" "\<forall>q \<in> set out. m_left q \<le> m_left l"
    using "2.prems" by (auto simp: span_sorted_Cons)
  note ext = extendRow_correct [OF "2.prems"(1) l]
  have "\<forall>q \<in> set (extendRow t b l out). \<forall>r \<in> set ls \<union> set []. m_left q \<le> m_left r"
    using ext(3) span_sorted_lefts [OF "2.prems"(2)] by fastforce
  then show ?case using "2.IH" [OF ext(1)] "2.prems" ext(2) by (auto simp: span_sorted_Cons)
next
  case (3 t b r rs out)
  have r: "m_left r < m_right r" "\<forall>q \<in> set out. m_left q \<le> m_left r"
    using "3.prems" by (auto simp: span_sorted_Cons)
  note ext = extendRow_correct [OF "3.prems"(1) r]
  have "\<forall>q \<in> set (extendRow t b r out). \<forall>s \<in> set [] \<union> set rs. m_left q \<le> m_left s"
    using ext(3) span_sorted_lefts [OF "3.prems"(3)] by fastforce
  then show ?case using "3.IH" [OF ext(1)] "3.prems" ext(2) by (auto simp: span_sorted_Cons)
next
  case (4 t b l ls r rs out)
  have lr: "m_left l < m_right l" "m_left r < m_right r"
    and le: "\<forall>q \<in> set out. m_left q \<le> m_left l" "\<forall>q \<in> set out. m_left q \<le> m_left r"
    and tails: "span_sorted ls" "span_sorted rs"
    using "4.prems" by (auto simp: span_sorted_Cons)
  note extl = extendRow_correct [OF "4.prems"(1) lr(1) le(1)]
  note extr = extendRow_correct [OF "4.prems"(1) lr(2) le(2)]
  note lefts = span_sorted_lefts [OF "4.prems"(2)] span_sorted_lefts [OF "4.prems"(3)]
  show ?case
  proof (cases "m_left l < m_left r")
    case True
    have "\<forall>q \<in> set (extendRow t b l out). \<forall>s \<in> set ls \<union> set (r # rs). m_left q \<le> m_left s"
      using extl(3) lefts True by fastforce
    then show ?thesis using "4.IH"(1) [OF True extl(1)] "4.prems" True tails extl(2) by auto
  next
    case False
    have "\<forall>q \<in> set (extendRow t b r out). \<forall>s \<in> set (l # ls) \<union> set rs. m_left q \<le> m_left s"
      using extr(3) lefts False by fastforce
    then show ?thesis using "4.IH"(2) [OF False extr(1)] "4.prems" False tails extr(2) by auto
  qed
qed

lemma merge_row_correct:
  assumes "span_sorted L" and "span_sorted R"
  shows "row_ok t b (merge_row t b L R)" and "row_pts (merge_row t b L R) = row_pts L \<union> row_pts R"
  using merge_cols_correct [of t b "[]" L R] assms by (simp_all add: merge_row_def)

section \<open>Subtracting\<close>

text \<open>
  The state of a scan: the row built so far lies left of the scan line, and what is left of the two
  inputs ends right of it.
\<close>

definition scan_ok :: "'a::linorder \<Rightarrow> 'a rect list \<Rightarrow> 'a rect list \<Rightarrow> bool" where
  "scan_ok scanline L R \<longleftrightarrow> span_sorted L \<and> span_sorted R \<and>
     (\<forall>q \<in> set L \<union> set R. scanline < m_right q)"

lemma scan_ok_step:
  assumes "scan_ok scanline (l # ls) (r # rs)" and "scan \<le> m_right l" and "scan \<le> m_right r"
  shows "scan_ok scan (if m_right l = scan then ls else l # ls) (if m_right r = scan then rs else r # rs)"
proof -
  have L: "span_sorted (l # ls)" and R: "span_sorted (r # rs)" using assms(1) by (simp_all add: scan_ok_def)
  have mono: "m_right p < m_right q" if "span_sorted (p # ps)" and "q \<in> set ps" for p q :: "'a rect" and ps
    using that span_sorted_lr [of ps q] by (fastforce simp: span_sorted_Cons)
  have l: "\<forall>q \<in> set (if m_right l = scan then ls else l # ls). scan < m_right q"
    using order_le_less_trans [OF assms(2) mono [OF L]] assms(2) by (simp add: order.strict_iff_order)
  have r: "\<forall>q \<in> set (if m_right r = scan then rs else r # rs). scan < m_right q"
    using order_le_less_trans [OF assms(3) mono [OF R]] assms(3) by (simp add: order.strict_iff_order)
  have "span_sorted (if m_right l = scan then ls else l # ls)"
    "span_sorted (if m_right r = scan then rs else r # rs)"
    using L R by (simp_all add: span_sorted_Cons)
  then show ?thesis using l r unfolding scan_ok_def by blast
qed

lemma row_pts_low:
  assumes "span_sorted (l # ls)" and "x < m_right l"
  shows "x \<in> row_pts (l # ls) \<longleftrightarrow> m_left l \<le> x"
  using assms row_pts_bound [of x ls "m_right l"] by (auto simp: span_sorted_Cons)

lemma row_pts_step_subset: "row_pts (if m_right l = scan then ls else l # ls) \<subseteq> row_pts (l # ls)"
  by auto

lemma row_pts_step:
  assumes "scan \<le> m_right l"
  shows "scan \<le> x \<Longrightarrow> x \<in> row_pts (if m_right l = scan then ls else l # ls) \<longleftrightarrow> x \<in> row_pts (l # ls)"
  by auto

text \<open>The last rectangle built may touch the scan line only where the result has a hole.\<close>

lemma subtract_cols_correct:
  assumes "scan_ok scanline L R" and "row_ok t b out"
    and "\<forall>q \<in> set out. m_right q \<le> scanline"
    and "\<forall>q \<in> set out. m_right q = scanline \<longrightarrow> scanline \<notin> row_pts L - row_pts R"
  shows "row_ok t b (subtract_cols t b scanline L R out) \<and>
         row_pts (subtract_cols t b scanline L R out) =
           row_pts out \<union> {x \<in> row_pts L - row_pts R. scanline \<le> x}"
  using assms
proof (induction t b scanline L R out rule: subtract_cols.induct)
  case (1 t b scanline R out)
  then show ?case by simp
next
  case (2 t b scanline l ls out)
  have l: "m_left l < m_right l" "\<forall>q \<in> set ls. m_right l < m_left q" "span_sorted ls"
    "scanline < m_right l"
    using "2.prems"(1) by (auto simp: scan_ok_def span_sorted_Cons)
  let ?x = "max (m_left l) scanline"
  have sep: "\<forall>q \<in> set out. m_right q < ?x"
  proof
    fix q assume q: "q \<in> set out"
    have "m_right q \<noteq> scanline \<or> scanline < m_left l" using "2.prems"(4) q l(4) by auto
    then show "m_right q < ?x" using "2.prems"(3) q by (auto simp: max_def order.strict_iff_order)
  qed
  let ?new = "rowRect ?x t (m_right l) b # map (slicedRect t b) ls"
  have "row_ok t b ?new"
    using l by (auto simp: row_ok_def span_sorted_Cons)
  moreover have "\<forall>c \<in> set ?new. ?x \<le> m_left c" using l by fastforce
  then have "\<forall>a \<in> set out. \<forall>c \<in> set ?new. m_right a < m_left c"
    using sep order_less_le_trans by blast
  ultimately have "row_ok t b (out @ ?new)" using "2.prems"(2) by (simp add: row_ok_append)
  moreover have "row_pts ?new = {x \<in> row_pts (l # ls). scanline \<le> x}"
  proof -
    have "scanline \<le> x" if "x \<in> row_pts ls" for x
      using row_pts_bound [OF that l(2)] l(4) by simp
    then show ?thesis by auto
  qed
  ultimately show ?case by (simp add: map_rowRect)
next
  case (3 t b scanline l ls r rs out)
  have l: "m_left l < m_right l" "\<forall>q \<in> set ls. m_right l < m_left q" "scanline < m_right l"
    and r: "m_left r < m_right r" "\<forall>q \<in> set rs. m_right r < m_left q" "scanline < m_right r"
    using "3.prems"(1) by (auto simp: scan_ok_def span_sorted_Cons)
  have lsb: "x \<in> row_pts ls \<Longrightarrow> m_right l < x" and rsb: "x \<in> row_pts rs \<Longrightarrow> m_right r < x" for x
    using row_pts_bound l(2) r(2) by blast+
  have low: "x \<in> row_pts (l # ls) \<longleftrightarrow> m_left l \<le> x" "x \<in> row_pts (r # rs) \<longleftrightarrow> m_left r \<le> x"
    if "x < m_right l" "x < m_right r" for x
    using row_pts_low [of l ls x] row_pts_low [of r rs x] "3.prems"(1) that
    by (simp_all add: scan_ok_def del: row_pts_simps)
  show ?case
  proof (cases "m_left l \<le> m_left r \<and> max (m_left l) scanline < m_left r")
    case True
    let ?x = "max (m_left l) scanline" and ?s = "min (m_right l) (m_left r)"
    let ?out = "out @ [rowRect ?x t ?s b]"
    have xs: "?x < ?s" "?s \<le> m_right l" "?s \<le> m_right r" "scanline \<le> ?s" "scanline \<le> ?x"
      using True l r by (auto simp: min_le_iff_disj)
    have sep: "\<forall>q \<in> set out. m_right q < ?x"
    proof
      fix q assume q: "q \<in> set out"
      have "scanline \<notin> row_pts (r # rs)" using True rsb [of scanline] r by fastforce
      then have "m_right q \<noteq> scanline \<or> scanline < m_left l" using "3.prems"(4) q l(3) by auto
      then show "m_right q < ?x" using "3.prems"(3) q by (auto simp: max_def order.strict_iff_order)
    qed
    have out: "row_ok t b ?out" using "3.prems"(2) sep xs(1) by (simp add: row_ok_snoc)
    have le: "\<forall>q \<in> set ?out. m_right q \<le> ?s"
      using sep order_less_trans [OF _ xs(1)] by (auto intro: order_less_imp_le simp del: min.bounded_iff)
    let ?L = "if m_right l = ?s then ls else l # ls" and ?R = "if m_right r = ?s then rs else r # rs"
    have ok: "scan_ok ?s ?L ?R" by (rule scan_ok_step [OF "3.prems"(1) xs(2,3)])
    have hole: "?s \<notin> row_pts ?L - row_pts ?R"
    proof (cases "m_right l \<le> m_left r")
      case True
      then show ?thesis using lsb [of "m_right l"] by (auto simp: min_def)
    next
      case False
      then have "?s = m_left r" by simp
      then show ?thesis using r(1) by auto
    qed
    have res: "row_ok t b (subtract_cols t b ?s ?L ?R ?out) \<and>
        row_pts (subtract_cols t b ?s ?L ?R ?out) = row_pts ?out \<union> {x \<in> row_pts ?L - row_pts ?R. ?s \<le> x}"
      by (rule "3.IH" [OF refl _ ok out le]) (use True hole in \<open>simp_all add: Let_def\<close>)
    have "{x \<in> row_pts ?L - row_pts ?R. ?s \<le> x} = {x \<in> row_pts (l # ls) - row_pts (r # rs). ?s \<le> x}"
      using row_pts_step [OF xs(2)] row_pts_step [OF xs(3)] by blast
    moreover have "{x \<in> row_pts (l # ls) - row_pts (r # rs). scanline \<le> x} =
        {x. ?x \<le> x \<and> x < ?s} \<union> {x \<in> row_pts (l # ls) - row_pts (r # rs). ?s \<le> x}" (is "?A = ?B")
    proof (rule set_eqI)
      fix x
      show "x \<in> ?A \<longleftrightarrow> x \<in> ?B"
      proof (cases "x < ?s")
        case True
        then have "x < m_right l" "x < m_right r" "x < m_left r" using xs r(1) by auto
        moreover have "\<not> ?s \<le> x" using True by (simp only: not_le)
        ultimately show ?thesis using low [of x] True by (auto simp del: row_pts_simps min_less_iff_conj)
      next
        case False
        then have "?s \<le> x" by (simp only: not_less)
        moreover from this have "scanline \<le> x" by (rule order_trans [OF xs(4)])
        ultimately show ?thesis using False by (simp only: mem_Collect_eq Un_iff simp_thms)
      qed
    qed
    moreover have "subtract_cols t b scanline (l # ls) (r # rs) out = subtract_cols t b ?s ?L ?R ?out"
      using True by (subst subtract_cols.simps(3)) (simp add: Let_def)
    moreover have "row_pts ?out = row_pts out \<union> {x. ?x \<le> x \<and> x < ?s}" by simp
    ultimately show ?thesis using res by (simp only: Un_assoc)
  next
    case no_gap: False
    let ?s = "min (m_right l) (m_right r)"
    let ?L = "if m_right l = ?s then ls else l # ls" and ?R = "if m_right r = ?s then rs else r # rs"
    have s: "?s \<le> m_right l" "?s \<le> m_right r" "scanline < ?s" using l r by auto
    have ok: "scan_ok ?s ?L ?R" by (rule scan_ok_step [OF "3.prems"(1) s(1,2)])
    have le: "\<forall>q \<in> set out. m_right q < ?s" using "3.prems"(3) s(3) by fastforce
    have le': "\<forall>q \<in> set out. m_right q \<le> ?s" "\<forall>q \<in> set out. m_right q = ?s \<longrightarrow> ?s \<notin> row_pts ?L - row_pts ?R"
      using le by (auto simp: order.strict_iff_order)
    have step: "subtract_cols t b scanline (l # ls) (r # rs) out = subtract_cols t b ?s ?L ?R out"
      using no_gap by (subst subtract_cols.simps(3)) (auto simp: Let_def)
    have res: "row_ok t b (subtract_cols t b ?s ?L ?R out) \<and>
        row_pts (subtract_cols t b ?s ?L ?R out) = row_pts out \<union> {x \<in> row_pts ?L - row_pts ?R. ?s \<le> x}"
      by (rule "3.IH" [OF refl _ ok "3.prems"(2) le'(1,2)]) (use no_gap in \<open>auto simp: Let_def\<close>)
    have "{x \<in> row_pts ?L - row_pts ?R. ?s \<le> x} = {x \<in> row_pts (l # ls) - row_pts (r # rs). ?s \<le> x}"
      using row_pts_step [OF s(1)] row_pts_step [OF s(2)] by blast
    moreover have "{x \<in> row_pts (l # ls) - row_pts (r # rs). scanline \<le> x} =
        {x \<in> row_pts (l # ls) - row_pts (r # rs). ?s \<le> x}" (is "?A = ?B")
    proof (rule set_eqI)
      fix x
      show "x \<in> ?A \<longleftrightarrow> x \<in> ?B"
      proof (cases "x < ?s")
        case True
        then have "x < m_right l" "x < m_right r" by simp_all
        then have rows: "x \<in> row_pts (l # ls) \<longleftrightarrow> m_left l \<le> x" "x \<in> row_pts (r # rs) \<longleftrightarrow> m_left r \<le> x"
          by (simp_all only: low)
        have "m_left l \<le> x \<and> scanline \<le> x \<longrightarrow> m_left r \<le> x"
          using no_gap by (auto simp: le_max_iff_disj not_less)
        moreover have "\<not> ?s \<le> x" using True by (simp only: not_le)
        ultimately show ?thesis using rows by (auto simp del: row_pts_simps)
      next
        case False
        then have "?s \<le> x" by (simp only: not_less)
        moreover from this have "scanline \<le> x"
          by (rule order_trans [OF order_less_imp_le [OF s(3)]])
        ultimately show ?thesis by (simp del: row_pts_simps)
      qed
    qed
    ultimately show ?thesis using res unfolding step by (simp only:)
  qed
qed

lemma scan_ok_start:
  assumes "span_sorted L" and "span_sorted R" and "L \<noteq> []" and "R \<noteq> []"
  shows "scan_ok (min (m_left (hd L)) (m_left (hd R))) L R"
    and "x \<in> row_pts L \<union> row_pts R \<Longrightarrow> min (m_left (hd L)) (m_left (hd R)) \<le> x"
proof -
  have first: "m_left (hd K) \<le> m_left q \<and> m_left (hd K) < m_right q"
    if "span_sorted K" and "q \<in> set K" for q and K :: "'a rect list"
    using that span_sorted_lr [OF that] by (cases K) (auto dest!: span_sorted_lefts)
  show "scan_ok (min (m_left (hd L)) (m_left (hd R))) L R"
    using assms first [of L] first [of R] by (auto simp: scan_ok_def min_less_iff_disj)
  have "m_left (hd K) \<le> x" if "span_sorted K" and "x \<in> row_pts K" for x and K :: "'a rect list"
    using row_pts_left [OF that(2), of "m_left (hd K)"] first [OF that(1)] by blast
  then show "x \<in> row_pts L \<union> row_pts R \<Longrightarrow> min (m_left (hd L)) (m_left (hd R)) \<le> x"
    using assms by (auto simp: min_le_iff_disj)
qed

lemma subtract_row_correct:
  assumes "span_sorted L" and "span_sorted R" and "L \<noteq> []" and "R \<noteq> []"
  shows "row_ok t b (subtract_row t b L R)" and "row_pts (subtract_row t b L R) = row_pts L - row_pts R"
  using subtract_cols_correct [OF scan_ok_start(1) [OF assms], of t b "[]"]
    scan_ok_start(2) [OF assms] by (auto simp: subtract_row_def)

section \<open>Exclusive or\<close>

lemma joinRow_correct:
  assumes ok: "row_ok t b out" and le: "\<forall>q \<in> set out. m_right q \<le> x1" and x: "x1 < x2"
  shows "row_ok t b (joinRow t b x1 x2 out)"
    and "row_pts (joinRow t b x1 x2 out) = row_pts out \<union> {x. x1 \<le> x \<and> x < x2}"
    and "\<forall>q \<in> set (joinRow t b x1 x2 out). m_right q \<le> x2"
proof (atomize (full), cases "out \<noteq> [] \<and> m_right (last out) = x1")
  case True
  then obtain out' z where out: "out = out' @ [z]" by (cases out rule: rev_cases) auto
  have z: "m_right z = x1" using True by (simp add: out)
  have out': "row_ok t b out'" "m_top z = t" "m_bottom z = b" "m_left z < m_right z"
    "\<forall>a \<in> set out'. m_right a < m_left z"
    using ok by (simp_all add: out row_ok_snoc)
  have join: "joinRow t b x1 x2 out = out' @ [z\<lparr>m_right := x2\<rparr>]"
    using True by (simp add: joinRow_def out)
  have "m_left z < x2" using out'(4) z x by simp
  moreover have "\<forall>q \<in> set out'. m_right q \<le> x2" using le x by (fastforce simp: out)
  moreover have "{y. m_left z \<le> y \<and> y < x2} = {y. m_left z \<le> y \<and> y < x1} \<union> {y. x1 \<le> y \<and> y < x2}"
    using out'(4) z x by auto
  ultimately show "row_ok t b (joinRow t b x1 x2 out) \<and>
      row_pts (joinRow t b x1 x2 out) = row_pts out \<union> {x. x1 \<le> x \<and> x < x2} \<and>
      (\<forall>q \<in> set (joinRow t b x1 x2 out). m_right q \<le> x2)"
    using out' z unfolding join by (simp add: out row_ok_snoc Un_assoc)
next
  case False
  have "\<forall>q \<in> set out. m_right q < x1"
    using False le span_sorted_last [OF row_ok_span_sorted [OF ok]]
    by (metis last_in_set empty_iff empty_set order.strict_iff_order order_le_less_trans)
  moreover have "joinRow t b x1 x2 out = out @ [rowRect x1 t x2 b]"
    using False by (auto simp: joinRow_def)
  ultimately show "row_ok t b (joinRow t b x1 x2 out) \<and>
      row_pts (joinRow t b x1 x2 out) = row_pts out \<union> {x. x1 \<le> x \<and> x < x2} \<and>
      (\<forall>q \<in> set (joinRow t b x1 x2 out). m_right q \<le> x2)"
    using ok x by (auto simp: row_ok_snoc)
qed

lemma xor_tail:
  assumes ok: "row_ok t b out" and le: "\<forall>q \<in> set out. m_right q \<le> scanline"
    and L: "scan_ok scanline (l # ls) []"
  shows "row_ok t b (joinRow t b (max (m_left l) scanline) (m_right l) out @ map (slicedRect t b) ls)"
    and "row_pts (joinRow t b (max (m_left l) scanline) (m_right l) out @ map (slicedRect t b) ls) =
           row_pts out \<union> {x \<in> row_pts (l # ls). scanline \<le> x}"
proof -
  have l: "m_left l < m_right l" "\<forall>q \<in> set ls. m_right l < m_left q" "span_sorted ls"
    "scanline < m_right l"
    using L by (auto simp: scan_ok_def span_sorted_Cons)
  have "\<forall>q \<in> set out. m_right q \<le> max (m_left l) scanline" using le by (auto simp: le_max_iff_disj)
  note join = joinRow_correct [OF ok this, of "m_right l"]
  have x: "max (m_left l) scanline < m_right l" using l by simp
  have "\<forall>a \<in> set (joinRow t b (max (m_left l) scanline) (m_right l) out).
      \<forall>c \<in> set (map (slicedRect t b) ls). m_right a < m_left c"
    using join(3) [OF x] l(2) by fastforce
  then show "row_ok t b (joinRow t b (max (m_left l) scanline) (m_right l) out @ map (slicedRect t b) ls)"
    using join(1) [OF x] l(3) by (simp add: row_ok_append)
  have "scanline \<le> x" if "x \<in> row_pts ls" for x
    using row_pts_bound [OF that l(2)] l(4) by simp
  then show "row_pts (joinRow t b (max (m_left l) scanline) (m_right l) out @ map (slicedRect t b) ls) =
           row_pts out \<union> {x \<in> row_pts (l # ls). scanline \<le> x}"
    using join(2) [OF x] by auto
qed

lemma scan_ok_swap: "scan_ok scanline L R = scan_ok scanline R L"
  by (auto simp: scan_ok_def)

lemma xor_cols_correct:
  assumes "scan_ok scanline L R" and "row_ok t b out"
    and "\<forall>q \<in> set out. m_right q \<le> scanline"
  shows "row_ok t b (xor_cols t b scanline L R out) \<and>
         row_pts (xor_cols t b scanline L R out) =
           row_pts out \<union> {x. (x \<in> row_pts L) \<noteq> (x \<in> row_pts R) \<and> scanline \<le> x}"
  using assms
proof (induction t b scanline L R out rule: xor_cols.induct)
  case (1 t b scanline out)
  then show ?case by simp
next
  case (2 t b scanline l ls out)
  then show ?case using xor_tail [OF "2.prems"(2,3,1)] by (auto simp: map_rowRect)
next
  case (3 t b scanline r rs out)
  then show ?case
    using xor_tail [OF "3.prems"(2,3) "3.prems"(1) [unfolded scan_ok_swap [of _ "[]"]]]
    by (auto simp: map_rowRect)
next
  case (4 t b scanline l ls r rs out)
  have l: "m_left l < m_right l" "\<forall>q \<in> set ls. m_right l < m_left q" "scanline < m_right l"
    and r: "m_left r < m_right r" "\<forall>q \<in> set rs. m_right r < m_left q" "scanline < m_right r"
    using "4.prems"(1) by (auto simp: scan_ok_def span_sorted_Cons)
  have lsb: "x \<in> row_pts ls \<Longrightarrow> m_right l < x" and rsb: "x \<in> row_pts rs \<Longrightarrow> m_right r < x" for x
    using row_pts_bound l(2) r(2) by blast+
  define x where "x = (if m_left l \<le> m_left r then max (m_left l) scanline else max (m_left r) scanline)"
  define s where "s = (if gap scanline (m_left l) (m_left r)
      then if m_left l \<le> m_left r then min (m_right l) (m_left r) else min (m_left l) (m_right r)
      else min (m_right l) (m_right r))"
  define out' where "out' = (if gap scanline (m_left l) (m_left r) then joinRow t b x s out else out)"
  let ?L = "if m_right l = s then ls else l # ls" and ?R = "if m_right r = s then rs else r # rs"
  have step: "xor_cols t b scanline (l # ls) (r # rs) out = xor_cols t b s ?L ?R out'"
    by (subst xor_cols.simps(4)) (auto simp: Let_def gap_def x_def s_def out'_def)
  have s: "s \<le> m_right l" "s \<le> m_right r" "scanline \<le> s"
    using l r by (auto simp: s_def gap_def min_le_iff_disj)
  have xs: "gap scanline (m_left l) (m_left r) \<Longrightarrow> x < s \<and> scanline \<le> x"
    using l r by (auto simp: x_def s_def gap_def)
  have lex: "\<forall>q \<in> set out. m_right q \<le> x" if "gap scanline (m_left l) (m_left r)"
    using "4.prems"(3) xs [OF that] by fastforce
  have out': "row_ok t b out'" "\<forall>q \<in> set out'. m_right q \<le> s"
    "row_pts out' = row_pts out \<union> (if gap scanline (m_left l) (m_left r) then {y. x \<le> y \<and> y < s} else {})"
    using joinRow_correct [OF "4.prems"(2) lex] "4.prems"(2,3) xs s(3) by (auto simp: out'_def)
  have ok: "scan_ok s ?L ?R" by (rule scan_ok_step [OF "4.prems"(1) s(1,2)])
  have res: "row_ok t b (xor_cols t b s ?L ?R out') \<and>
      row_pts (xor_cols t b s ?L ?R out') = row_pts out' \<union> {y. (y \<in> row_pts ?L) \<noteq> (y \<in> row_pts ?R) \<and> s \<le> y}"
    by (rule "4.IH" [OF refl _ ok out'(1,2)]) (simp add: Let_def gap_def x_def s_def out'_def)
  have "{y. (y \<in> row_pts ?L) \<noteq> (y \<in> row_pts ?R) \<and> s \<le> y} =
      {y. (y \<in> row_pts (l # ls)) \<noteq> (y \<in> row_pts (r # rs)) \<and> s \<le> y}"
    using row_pts_step [OF s(1)] row_pts_step [OF s(2)] by blast
  moreover have "{y. (y \<in> row_pts (l # ls)) \<noteq> (y \<in> row_pts (r # rs)) \<and> scanline \<le> y} =
      (if gap scanline (m_left l) (m_left r) then {y. x \<le> y \<and> y < s} else {}) \<union>
      {y. (y \<in> row_pts (l # ls)) \<noteq> (y \<in> row_pts (r # rs)) \<and> s \<le> y}"
  proof -
    have low: "y \<in> row_pts (l # ls) \<longleftrightarrow> m_left l \<le> y" "y \<in> row_pts (r # rs) \<longleftrightarrow> m_left r \<le> y" if "y < s" for y
      using row_pts_low [of l ls y] row_pts_low [of r rs y] "4.prems"(1) that s
      by (simp_all add: scan_ok_def del: row_pts_simps)
    have "(m_left l \<le> y) \<noteq> (m_left r \<le> y) \<and> scanline \<le> y \<longleftrightarrow>
        gap scanline (m_left l) (m_left r) \<and> x \<le> y" if "y < s" for y
      using that l r by (auto simp: x_def s_def gap_def)
    then have below: "((y \<in> row_pts (l # ls)) \<noteq> (y \<in> row_pts (r # rs)) \<and> scanline \<le> y) =
        (gap scanline (m_left l) (m_left r) \<and> x \<le> y)" if "y < s" for y
      using low that by simp
    show ?thesis
    proof (rule set_eqI)
      fix y
      show "y \<in> {y. (y \<in> row_pts (l # ls)) \<noteq> (y \<in> row_pts (r # rs)) \<and> scanline \<le> y} \<longleftrightarrow>
          y \<in> (if gap scanline (m_left l) (m_left r) then {y. x \<le> y \<and> y < s} else {}) \<union>
            {y. (y \<in> row_pts (l # ls)) \<noteq> (y \<in> row_pts (r # rs)) \<and> s \<le> y}"
      proof (cases "y < s")
        case True
        then have "\<not> s \<le> y" by simp
        then show ?thesis using below [OF True] True by auto
      next
        case False
        then show ?thesis using s(3) by (auto simp del: row_pts_simps)
      qed
    qed
  qed
  ultimately show ?case using res out'(3) unfolding step by auto
qed

lemma xor_row_correct:
  assumes "span_sorted L" and "span_sorted R" and "L \<noteq> []" and "R \<noteq> []"
  shows "row_ok t b (xor_row t b L R)"
    and "x \<in> row_pts (xor_row t b L R) \<longleftrightarrow> (x \<in> row_pts L) \<noteq> (x \<in> row_pts R)"
  using xor_cols_correct [OF scan_ok_start(1) [OF assms], of t b "[]"]
    scan_ok_start(2) [OF assms, of x] by (auto simp: xor_row_def)

section \<open>Intersecting\<close>

lemma intersect_cols_correct:
  assumes "span_sorted L" and "span_sorted R" and "row_ok t b out"
    and "L \<noteq> [] \<Longrightarrow> R \<noteq> [] \<Longrightarrow> \<forall>q \<in> set out. m_right q < max (m_left (hd L)) (m_left (hd R))"
  shows "row_ok t b (intersect_cols t b L R out) \<and>
         row_pts (intersect_cols t b L R out) = row_pts out \<union> (row_pts L \<inter> row_pts R)"
  using assms
proof (induction t b L R out rule: intersect_cols.induct)
  case (3 t b l ls r rs out)
  define x1 where "x1 = max (m_left l) (m_left r)"
  define x2 where "x2 = min (m_right l) (m_right r)"
  define out' where "out' = (if x1 < x2 then out @ [rowRect x1 t x2 b] else out)"
  let ?L = "if m_right l = x2 then ls else l # ls" and ?R = "if m_right r = x2 then rs else r # rs"
  have l: "m_left l < m_right l" "\<forall>q \<in> set ls. m_right l < m_left q"
    and r: "m_left r < m_right r" "\<forall>q \<in> set rs. m_right r < m_left q"
    and sorted: "span_sorted ?L" "span_sorted ?R"
    using "3.prems"(1,2) by (auto simp: span_sorted_Cons)
  have lsb: "x \<in> row_pts ls \<Longrightarrow> m_right l < x" and rsb: "x \<in> row_pts rs \<Longrightarrow> m_right r < x" for x
    using row_pts_bound l(2) r(2) by blast+
  have before: "\<forall>q \<in> set out. m_right q < x1" using "3.prems"(4) by (simp add: x1_def)
  have ok: "row_ok t b out'" using "3.prems"(3) before by (auto simp: out'_def row_ok_snoc)
  have next_x: "\<forall>q \<in> set out'. m_right q < max (m_left (hd ?L)) (m_left (hd ?R))"
    if ne: "?L \<noteq> []" "?R \<noteq> []"
  proof -
    have lower: "x1 \<le> max (m_left (hd ?L)) (m_left (hd ?R)) \<and> x2 < max (m_left (hd ?L)) (m_left (hd ?R))"
    proof (cases "m_right l \<le> m_right r")
      case True
      then have x2: "x2 = m_right l" by (simp add: x2_def)
      then have "?L = ls" by simp
      with ne obtain q qs where q: "ls = q # qs" by (cases ls) auto
      have "m_right l < m_left q" using l(2) q by simp
      moreover have "m_left r \<le> m_left (hd ?R)"
        using ne(2) r by (cases rs) (auto dest: order_less_trans order_less_imp_le)
      ultimately show ?thesis using \<open>?L = ls\<close> q x2 l(1)
        by (auto simp: x1_def le_max_iff_disj less_max_iff_disj)
    next
      case False
      then have x2: "x2 = m_right r" by (simp add: x2_def)
      then have "?R = rs" by simp
      with ne obtain q qs where q: "rs = q # qs" by (cases rs) auto
      have "m_right r < m_left q" using r(2) q by simp
      moreover have "?L = l # ls" using False x2 by auto
      ultimately show ?thesis using \<open>?R = rs\<close> q x2 r(1)
        by (auto simp: x1_def le_max_iff_disj less_max_iff_disj)
    qed
    show ?thesis
    proof
      fix q assume "q \<in> set out'"
      then have "m_right q < x1 \<or> m_right q = x2" using before by (auto simp: out'_def split: if_splits)
      then show "m_right q < max (m_left (hd ?L)) (m_left (hd ?R))" using lower by auto
    qed
  qed
  have step: "intersect_cols t b (l # ls) (r # rs) out = intersect_cols t b ?L ?R out'"
    by (subst intersect_cols.simps(3)) (simp only: Let_def x1_def x2_def out'_def)
  have res: "row_ok t b (intersect_cols t b ?L ?R out') \<and>
      row_pts (intersect_cols t b ?L ?R out') = row_pts out' \<union> (row_pts ?L \<inter> row_pts ?R)"
    by (rule "3.IH" [OF refl refl, folded x1_def x2_def, folded out'_def, OF sorted ok next_x])
  have "row_pts (l # ls) \<inter> row_pts (r # rs) =
      (if x1 < x2 then {x. x1 \<le> x \<and> x < x2} else {}) \<union> (row_pts ?L \<inter> row_pts ?R)"
  proof -
    have high: "x \<in> row_pts ?L \<longleftrightarrow> x \<in> row_pts (l # ls)" "x \<in> row_pts ?R \<longleftrightarrow> x \<in> row_pts (r # rs)"
      if "x2 \<le> x" for x
      using row_pts_step [of x2 l x ls] row_pts_step [of x2 r x rs] that by (simp_all add: x2_def)
    have low: "x \<in> row_pts (l # ls) \<and> x \<in> row_pts (r # rs) \<longleftrightarrow> x1 \<le> x" if "x < x2" for x
      using row_pts_low [OF "3.prems"(1), of x] row_pts_low [OF "3.prems"(2), of x] that
      by (simp add: x1_def x2_def del: row_pts_simps)
    note subset = row_pts_step_subset [of l x2 ls] row_pts_step_subset [of r x2 rs]
    have pt: "x \<in> row_pts (l # ls) \<and> x \<in> row_pts (r # rs) \<longleftrightarrow>
        x1 \<le> x \<and> x < x2 \<or> x \<in> row_pts ?L \<and> x \<in> row_pts ?R" for x
    proof (cases "x < x2")
      case True
      then show ?thesis using low [OF True] subset by blast
    next
      case False
      then show ?thesis using high [of x] by (auto simp del: row_pts_simps)
    qed
    show ?thesis
    proof (rule set_eqI)
      fix x
      have "x \<in> (if x1 < x2 then {x. x1 \<le> x \<and> x < x2} else {}) \<longleftrightarrow> x1 \<le> x \<and> x < x2" by auto
      then show "x \<in> row_pts (l # ls) \<inter> row_pts (r # rs) \<longleftrightarrow>
          x \<in> (if x1 < x2 then {x. x1 \<le> x \<and> x < x2} else {}) \<union> (row_pts ?L \<inter> row_pts ?R)"
        using pt [of x] by (simp only: Int_iff Un_iff)
    qed
  qed
  moreover have "row_pts out' = row_pts out \<union> (if x1 < x2 then {x. x1 \<le> x \<and> x < x2} else {})"
    by (simp add: out'_def)
  ultimately show ?case using res unfolding step by (simp only: Un_assoc)
qed simp_all

lemma intersect_row_correct:
  assumes "span_sorted L" and "span_sorted R"
  shows "row_ok t b (intersect_row t b L R)" and "row_pts (intersect_row t b L R) = row_pts L \<inter> row_pts R"
  using intersect_cols_correct [OF assms, of t b "[]"] by (simp_all add: intersect_row_def)

end
