(* ===== verification/RegionSweep.thy ===== *)
theory RegionSweep
  imports RegionBands
begin

text \<open>
  The four sweeps of \<open>src/kde-kwin/src/core/region.cpp\<close>: \<open>unite\<close>, \<open>subtract\<close>, \<open>exclusiveOr\<close> and
  \<open>intersect\<close>. A scan line moves from band edge to band edge of two rectangle lists; between two
  stops a new band is emitted from the bands that are active there. The indices \<open>leftIndex\<close> and
  \<open>rightIndex\<close> are modelled by what is left of each list, \<open>leftEnd\<close> and \<open>rightEnd\<close> by the split
  of the rest into its first band and what follows.

  The four loops share their shape; \<open>sweep\<close> is that shape with the row scan as a parameter, and the
  locale \<open>row_op\<close> states what a row scan must promise for the sweep to compute a Boolean operation
  on point sets and to return a well-formed list. The locale is interpreted on the four row scans of
  the code, and each loop of the code is proved equal to its instance of \<open>sweep\<close>.
\<close>

section \<open>The loops of the code\<close>

abbreviation first_band :: "'a rect list \<Rightarrow> 'a rect list" where
  "first_band rects \<equiv> takeWhile (\<lambda>q. m_top (hd rects) = m_top q) rects"

abbreviation rest_bands :: "'a rect list \<Rightarrow> 'a rect list" where
  "rest_bands rects \<equiv> dropWhile (\<lambda>q. m_top (hd rects) = m_top q) rects"

lemma length_rest_bands: "rects \<noteq> [] \<Longrightarrow> length (rest_bands rects) < length rects"
  by (cases rects) (auto simp: less_Suc_eq_le length_dropWhile_le)

text \<open>The measure of the sweeps: rectangles left, and whether the next stop is a gap.\<close>

definition sweep_measure :: "'a::linorder \<Rightarrow> 'a rect list \<Rightarrow> 'a rect list \<Rightarrow> nat" where
  "sweep_measure scanline left right =
     2 * (length left + length right) +
     (if left \<noteq> [] \<and> right \<noteq> [] \<and> gap scanline (m_top (hd left)) (m_top (hd right)) then 1 else 0)"

text \<open>The scan line after one stop.\<close>

definition next_stop :: "'a::linorder \<Rightarrow> 'a rect \<Rightarrow> 'a rect \<Rightarrow> 'a" where
  "next_stop scanline l r =
     (if m_top l \<le> m_top r
      then if max (m_top l) scanline < m_top r then min (m_bottom l) (m_top r)
           else min (m_bottom l) (m_bottom r)
      else if max (m_top r) scanline < m_top l then min (m_top l) (m_bottom r)
           else min (m_bottom l) (m_bottom r))"

lemma sweep_measure_step:
  assumes s: "s = next_stop scanline l r"
  shows "sweep_measure s (if m_bottom l = s then rest_bands (l # ls) else l # ls)
           (if m_bottom r = s then rest_bands (r # rs) else r # rs)
         < sweep_measure scanline (l # ls) (r # rs)"
proof -
  let ?L = "if m_bottom l = s then rest_bands (l # ls) else l # ls"
  let ?R = "if m_bottom r = s then rest_bands (r # rs) else r # rs"
  have le: "length (dropWhile P xs) \<le> length xs" for P and xs :: "'a rect list"
    by (rule length_dropWhile_le)
  have lenL: "length ?L \<le> length (l # ls) \<and> (m_bottom l = s \<longrightarrow> length ?L < length (l # ls))"
    using le [of _ ls] by (auto simp: less_Suc_eq_le le_SucI)
  have lenR: "length ?R \<le> length (r # rs) \<and> (m_bottom r = s \<longrightarrow> length ?R < length (r # rs))"
    using le [of _ rs] by (auto simp: less_Suc_eq_le le_SucI)
  show ?thesis
  proof (cases "m_bottom l = s \<or> m_bottom r = s")
    case True
    then show ?thesis using lenL lenR by (auto simp: sweep_measure_def)
  next
    case False
    then have "gap scanline (m_top l) (m_top r) \<and> s = max (m_top l) (m_top r)"
      using s by (auto simp: next_stop_def gap_def min_def split: if_splits)
    moreover from this have "\<not> gap s (m_top l) (m_top r)" by (auto simp: gap_def)
    ultimately show ?thesis using False by (simp add: sweep_measure_def)
  qed
qed

function unite_loop ::
    "'a::linorder \<Rightarrow> 'a rect list \<Rightarrow> 'a rect list \<Rightarrow> 'a rect list \<Rightarrow> bandref \<Rightarrow> 'a rect list" where
  "unite_loop scanline [] [] m_rects currentBand = m_rects"
| "unite_loop scanline (l # ls) [] m_rects currentBand =
     fst (sliceBand m_rects (first_band (l # ls)) (max (m_top l) scanline) (m_bottom l) currentBand)
       @ rest_bands (l # ls)"
| "unite_loop scanline [] (r # rs) m_rects currentBand =
     fst (sliceBand m_rects (first_band (r # rs)) (max (m_top r) scanline) (m_bottom r) currentBand)
       @ rest_bands (r # rs)"
| "unite_loop scanline (l # ls) (r # rs) m_rects currentBand =
     (let lband = first_band (l # ls);
          rband = first_band (r # rs);
          (scan, m_rects', currentBand') =
            (if m_top l \<le> m_top r
             then let y = max (m_top l) scanline
                  in if y < m_top r
                     then let s = min (m_bottom l) (m_top r) in (s, sliceBand m_rects lband y s currentBand)
                     else let s = min (m_bottom l) (m_bottom r)
                          in (s, mergeBands m_rects lband rband y s currentBand)
             else let y = max (m_top r) scanline
                  in if y < m_top l
                     then let s = min (m_top l) (m_bottom r) in (s, sliceBand m_rects rband y s currentBand)
                     else let s = min (m_bottom l) (m_bottom r)
                          in (s, mergeBands m_rects lband rband y s currentBand))
      in unite_loop scan
           (if m_bottom l = scan then rest_bands (l # ls) else l # ls)
           (if m_bottom r = scan then rest_bands (r # rs) else r # rs) m_rects' currentBand')"
  by pat_completeness auto
termination
  by (relation "measure (\<lambda>(s, L, R, mc). sweep_measure s L R)", simp)
    (simp only: in_measure split_conv, rule sweep_measure_step,
     auto simp: Let_def next_stop_def split: if_splits)

definition unite :: "'a::linorder rect list \<Rightarrow> 'a rect list \<Rightarrow> 'a rect list" where
  "unite left right =
     unite_loop (min (m_top (hd left)) (m_top (hd right))) left right [] BandRef_init"

function subtract_loop ::
    "'a::linorder \<Rightarrow> 'a rect list \<Rightarrow> 'a rect list \<Rightarrow> 'a rect list \<Rightarrow> bandref \<Rightarrow> 'a rect list" where
  "subtract_loop scanline [] right m_rects currentBand = m_rects"
| "subtract_loop scanline (l # ls) [] m_rects currentBand =
     fst (sliceBand m_rects (first_band (l # ls)) (max (m_top l) scanline) (m_bottom l) currentBand)
       @ rest_bands (l # ls)"
| "subtract_loop scanline (l # ls) (r # rs) m_rects currentBand =
     (let lband = first_band (l # ls);
          rband = first_band (r # rs);
          (scan, m_rects', currentBand') =
            (if m_top l \<le> m_top r
             then let y = max (m_top l) scanline
                  in if y < m_top r
                     then let s = min (m_bottom l) (m_top r) in (s, sliceBand m_rects lband y s currentBand)
                     else let s = min (m_bottom l) (m_bottom r)
                          in (s, subtractBands m_rects lband rband y s currentBand)
             else let y = max (m_top r) scanline
                  in if y < m_top l
                     then let s = min (m_top l) (m_bottom r) in (s, m_rects, currentBand)
                     else let s = min (m_bottom l) (m_bottom r)
                          in (s, subtractBands m_rects lband rband y s currentBand))
      in subtract_loop scan
           (if m_bottom l = scan then rest_bands (l # ls) else l # ls)
           (if m_bottom r = scan then rest_bands (r # rs) else r # rs) m_rects' currentBand')"
  by pat_completeness auto
termination
  by (relation "measure (\<lambda>(s, L, R, mc). sweep_measure s L R)", simp)
    (simp only: in_measure split_conv, rule sweep_measure_step,
     auto simp: Let_def next_stop_def split: if_splits)

definition subtract :: "'a::linorder rect list \<Rightarrow> 'a rect list \<Rightarrow> 'a rect list" where
  "subtract left right =
     subtract_loop (min (m_top (hd left)) (m_top (hd right))) left right [] BandRef_init"

function exclusiveOr_loop ::
    "'a::linorder \<Rightarrow> 'a rect list \<Rightarrow> 'a rect list \<Rightarrow> 'a rect list \<Rightarrow> bandref \<Rightarrow> 'a rect list" where
  "exclusiveOr_loop scanline [] [] m_rects currentBand = m_rects"
| "exclusiveOr_loop scanline (l # ls) [] m_rects currentBand =
     fst (sliceBand m_rects (first_band (l # ls)) (max (m_top l) scanline) (m_bottom l) currentBand)
       @ rest_bands (l # ls)"
| "exclusiveOr_loop scanline [] (r # rs) m_rects currentBand =
     fst (sliceBand m_rects (first_band (r # rs)) (max (m_top r) scanline) (m_bottom r) currentBand)
       @ rest_bands (r # rs)"
| "exclusiveOr_loop scanline (l # ls) (r # rs) m_rects currentBand =
     (let lband = first_band (l # ls);
          rband = first_band (r # rs);
          (scan, m_rects', currentBand') =
            (if m_top l \<le> m_top r
             then let y = max (m_top l) scanline
                  in if y < m_top r
                     then let s = min (m_bottom l) (m_top r) in (s, sliceBand m_rects lband y s currentBand)
                     else let s = min (m_bottom l) (m_bottom r)
                          in (s, xorBands m_rects lband rband y s currentBand)
             else let y = max (m_top r) scanline
                  in if y < m_top l
                     then let s = min (m_top l) (m_bottom r) in (s, sliceBand m_rects rband y s currentBand)
                     else let s = min (m_bottom l) (m_bottom r)
                          in (s, xorBands m_rects lband rband y s currentBand))
      in exclusiveOr_loop scan
           (if m_bottom l = scan then rest_bands (l # ls) else l # ls)
           (if m_bottom r = scan then rest_bands (r # rs) else r # rs) m_rects' currentBand')"
  by pat_completeness auto
termination
  by (relation "measure (\<lambda>(s, L, R, mc). sweep_measure s L R)", simp)
    (simp only: in_measure split_conv, rule sweep_measure_step,
     auto simp: Let_def next_stop_def split: if_splits)

definition exclusiveOr :: "'a::linorder rect list \<Rightarrow> 'a rect list \<Rightarrow> 'a rect list" where
  "exclusiveOr left right =
     exclusiveOr_loop (min (m_top (hd left)) (m_top (hd right))) left right [] BandRef_init"

function intersect_loop ::
    "'a::linorder \<Rightarrow> 'a rect list \<Rightarrow> 'a rect list \<Rightarrow> 'a rect list \<Rightarrow> bandref \<Rightarrow> 'a rect list" where
  "intersect_loop scanline [] right m_rects currentBand = m_rects"
| "intersect_loop scanline (l # ls) [] m_rects currentBand = m_rects"
| "intersect_loop scanline (l # ls) (r # rs) m_rects currentBand =
     (let lband = first_band (l # ls);
          rband = first_band (r # rs);
          (scan, m_rects', currentBand') =
            (if m_top l \<le> m_top r
             then let y = max (m_top l) scanline
                  in if y < m_top r
                     then let s = min (m_bottom l) (m_top r) in (s, m_rects, currentBand)
                     else let s = min (m_bottom l) (m_bottom r)
                          in (s, intersectBands m_rects lband rband y s currentBand)
             else let y = max (m_top r) scanline
                  in if y < m_top l
                     then let s = min (m_top l) (m_bottom r) in (s, m_rects, currentBand)
                     else let s = min (m_bottom l) (m_bottom r)
                          in (s, intersectBands m_rects lband rband y s currentBand))
      in intersect_loop scan
           (if m_bottom l = scan then rest_bands (l # ls) else l # ls)
           (if m_bottom r = scan then rest_bands (r # rs) else r # rs) m_rects' currentBand')"
  by pat_completeness auto
termination
  by (relation "measure (\<lambda>(s, L, R, mc). sweep_measure s L R)", simp)
    (simp only: in_measure split_conv, rule sweep_measure_step,
     auto simp: Let_def next_stop_def split: if_splits)

definition intersect :: "'a::linorder rect list \<Rightarrow> 'a rect list \<Rightarrow> 'a rect list" where
  "intersect left right =
     intersect_loop (min (m_top (hd left)) (m_top (hd right))) left right [] BandRef_init"

text \<open>The loop equations apply to their own right sides; they are unfolded by hand.\<close>

declare unite_loop.simps(4) [simp del] subtract_loop.simps(3) [simp del]
  exclusiveOr_loop.simps(4) [simp del] intersect_loop.simps(3) [simp del]

end
