(* ===== verification/RegionAlgebra.thy ===== *)
theory RegionAlgebra
  imports RegionSweep
begin

text \<open>
  Correctness of the sweeps. First what closing a band does to a well-formed list
  (\<open>closeBand_inv\<close>), then the generic sweep and its contract (locale \<open>row_op\<close>), then the four
  interpretations. The results are \<open>unite_correct\<close>, \<open>subtract_correct\<close>, \<open>exclusiveOr_correct\<close> and
  \<open>intersect_correct\<close>: on well-formed non-empty inputs each loop returns a well-formed list that
  covers exactly the points of the Boolean combination.
\<close>

section \<open>Closing a band\<close>

lemma set_bottoms_append:
  "set_bottoms b (length pre) (length pb) (pre @ pb @ rest) =
     pre @ map (\<lambda>r. r\<lparr>m_bottom := b\<rparr>) pb @ rest"
proof (induction pb arbitrary: pre)
  case (Cons p pb)
  show ?case using Cons.IH [of "pre @ [p\<lparr>m_bottom := b\<rparr>]"] by simp
qed simp

lemma spans_differ:
  assumes "length pb = length new"
  shows "list_ex (\<lambda>i. let a = (pre @ pb @ new) ! (length pre + i);
                          b = (pre @ pb @ new) ! (length pre + length pb + i)
                      in m_left a \<noteq> m_left b \<or> m_right a \<noteq> m_right b) [0..<length new]
         \<longleftrightarrow> spans pb \<noteq> spans new"
proof -
  have "spans pb = spans new \<longleftrightarrow>
      (\<forall>i < length new. m_left (pb ! i) = m_left (new ! i) \<and> m_right (pb ! i) = m_right (new ! i))"
    using assms by (auto simp: list_eq_iff_nth_eq spans_def)
  then show ?thesis
    using assms by (auto simp: list_ex_iff Let_def nth_append)
qed

lemma closeBand_spec:
  "closeBand (pre @ pb) new \<lparr>band_start = length pre, band_end = length (pre @ pb)\<rparr> =
     (if new \<noteq> [] \<and> m_bottom (hd pb) = m_top (hd new) \<and> spans pb = spans new
      then (pre @ map (\<lambda>r. r\<lparr>m_bottom := m_bottom (hd new)\<rparr>) pb,
            \<lparr>band_start = length pre, band_end = length (pre @ pb)\<rparr>)
      else (pre @ pb @ new, \<lparr>band_start = length (pre @ pb), band_end = length (pre @ pb @ new)\<rparr>))"
proof (cases "new \<noteq> [] \<and> length pb = length new")
  case False
  then have "\<not> (new \<noteq> [] \<and> spans pb = spans new)" by (metis spans_simps(4))
  then show ?thesis using False by (auto simp: closeBand_def coalesceBands_def Let_def)
next
  case True
  then obtain p pb' n new' where cons: "pb = p # pb'" "new = n # new'"
    by (cases pb; cases new) auto
  have heads: "(pre @ pb @ new) ! length pre = hd pb" "(pre @ pb @ new) ! (length pre + length pb) = hd new"
    by (simp_all add: cons nth_append)
  have heads': "(pb @ new) ! 0 = hd pb" "(pb @ new) ! length new = hd new"
    using True cons by (auto simp: nth_append)
  show ?thesis
    using True spans_differ [of pb new pre] set_bottoms_append [of "m_bottom (hd new)" pre pb new]
    by (simp add: closeBand_def coalesceBands_def Let_def heads heads' add.assoc)
qed

section \<open>The invariant of a sweep\<close>

text \<open>
  The list built so far is the concatenation of well-formed bands above the scan line, and
  \<open>currentBand\<close> refers to its last band, or to an empty band at its end when the last stop emitted
  nothing; in that case nothing touches the scan line.
\<close>

definition sweep_inv :: "'a::linorder rect list list \<Rightarrow> bandref \<Rightarrow> 'a \<Rightarrow> bool" where
  "sweep_inv Bs cur s \<longleftrightarrow>
     wf_bands Bs \<and> (\<forall>B \<in> set Bs. bbottom B \<le> s) \<and>
     (Bs \<noteq> [] \<and> cur = \<lparr>band_start = length (concat (butlast Bs)), band_end = length (concat Bs)\<rparr> \<or>
      cur = \<lparr>band_start = length (concat Bs), band_end = length (concat Bs)\<rparr> \<and>
      (\<forall>B \<in> set Bs. bbottom B < s))"

lemma sweep_inv_init: "sweep_inv [] BandRef_init s"
  by (simp add: sweep_inv_def BandRef_init_def)

lemma sweep_inv_mono: "sweep_inv Bs cur s \<Longrightarrow> s \<le> s' \<Longrightarrow> sweep_inv Bs cur s'"
  unfolding sweep_inv_def by (meson order_trans order_less_le_trans)

lemma set_bottom_band:
  assumes B: "band_ok B" and b: "btop B < b" "b' = bbottom B"
  shows "band_ok (map (\<lambda>r. r\<lparr>m_bottom := b\<rparr>) B)"
    and "btop (map (\<lambda>r. r\<lparr>m_bottom := b\<rparr>) B) = btop B"
    and "bbottom (map (\<lambda>r. r\<lparr>m_bottom := b\<rparr>) B) = b"
    and "spans (map (\<lambda>r. r\<lparr>m_bottom := b\<rparr>) B) = spans B"
proof -
  let ?B = "map (\<lambda>r. r\<lparr>m_bottom := b\<rparr>) B"
  have ne: "B \<noteq> []" using B by (rule band_okD)
  have "span_sorted ?B" using band_okD(3) [OF B] by (simp add: span_sorted_def sorted_wrt_map)
  moreover have "m_top r = btop B \<and> m_bottom r = b" if "r \<in> set ?B" for r
    using that band_okD(4) [OF B] by auto
  ultimately have band: "is_band (btop B) b ?B" unfolding is_band_def using b(1) by blast
  have ne': "?B \<noteq> []" using ne by simp
  show "band_ok ?B" by (rule band_okI [OF band ne'])
  show "btop ?B = btop B" "bbottom ?B = b" using is_band_edges [OF band ne'] by blast+
  show "spans ?B = spans B" by (simp add: spans_def)
qed

text \<open>A band that is appended, and a band that is merged into the last one.\<close>

lemma sweep_inv_append:
  assumes wf: "wf_bands Bs" and below: "\<forall>B \<in> set Bs. bbottom B \<le> y"
    and new: "is_band y s' new" "new \<noteq> []"
    and differ: "Bs \<noteq> [] \<Longrightarrow> \<not> (bbottom (last Bs) = y \<and> spans (last Bs) = spans new)"
  shows "wf_bands (Bs @ [new])" and "\<forall>B \<in> set (Bs @ [new]). bbottom B \<le> s'"
proof -
  have e: "btop new = y" "bbottom new = s'" "y < s'"
    using is_band_edges [OF new] new by (auto simp: is_band_def)
  have "Bs = [] \<or> band_step (last Bs) new"
    using below differ e(1) by (auto simp: band_step_def)
  then show "wf_bands (Bs @ [new])" using wf band_okI [OF new] by (auto simp: wf_bands_append)
  show "\<forall>B \<in> set (Bs @ [new]). bbottom B \<le> s'" using below e by fastforce
qed

lemma sweep_inv_merge:
  assumes wf: "wf_bands (Bs @ [B])" and "bbottom B = y" "y < s'"
  shows "wf_bands (Bs @ [map (\<lambda>r. r\<lparr>m_bottom := s'\<rparr>) B])"
    and "pts (map (\<lambda>r. r\<lparr>m_bottom := s'\<rparr>) B) = pts B \<union> {(x, z). y \<le> z \<and> z < s' \<and> x \<in> row_pts B}"
proof -
  have ok: "band_ok B" using wf by (simp add: wf_bands_append)
  have "btop B < s'" using band_okD(2) [OF ok] assms(2,3) by simp
  note up = set_bottom_band [OF ok this refl]
  show "wf_bands (Bs @ [map (\<lambda>r. r\<lparr>m_bottom := s'\<rparr>) B])"
    using wf up by (auto simp: wf_bands_append band_step_def)
  have "row_pts (map (\<lambda>r. r\<lparr>m_bottom := s'\<rparr>) B) = row_pts B" by (rule row_pts_spans [OF up(4)])
  then show "pts (map (\<lambda>r. r\<lparr>m_bottom := s'\<rparr>) B) = pts B \<union> {(x, z). y \<le> z \<and> z < s' \<and> x \<in> row_pts B}"
    using up assms(2,3) band_okD(2) [OF ok] pts_band_ok [OF ok] pts_band_ok [OF up(1)] by auto
qed

lemma closeBand_inv:
  assumes inv: "sweep_inv Bs cur s" and sy: "s \<le> y" "y < s'" and new: "is_band y s' new"
  obtains Bs' cur' where "closeBand (concat Bs) new cur = (concat Bs', cur')" "sweep_inv Bs' cur' s'"
    "pts (concat Bs') = pts (concat Bs) \<union> pts new"
    "new \<noteq> [] \<Longrightarrow> Bs' \<noteq> [] \<and> bbottom (last Bs') = s' \<and> spans (last Bs') = spans new"
proof -
  note obt = that
  show ?thesis
proof (cases "new = []")
  case True
  have "closeBand (concat Bs) new cur = (concat Bs, \<lparr>band_start = length (concat Bs), band_end = length (concat Bs)\<rparr>)"
    using inv by (auto simp: sweep_inv_def True closeBand_def coalesceBands_def Let_def)
  moreover have "\<forall>B \<in> set Bs. bbottom B < s'" using inv sy by (fastforce simp: sweep_inv_def)
  ultimately show ?thesis using inv obt [of Bs] True by (auto simp: sweep_inv_def order.strict_implies_order)
next
  case ne: False
  have e: "btop new = y" "bbottom new = s'" using is_band_edges [OF new ne] by simp_all
  have wf: "wf_bands Bs" and below: "\<forall>B \<in> set Bs. bbottom B \<le> y"
    using inv sy(1) by (auto simp: sweep_inv_def)
  have append: thesis
    if close: "closeBand (concat Bs) new cur =
        (concat Bs @ new, \<lparr>band_start = length (concat Bs), band_end = length (concat Bs @ new)\<rparr>)"
      and differ: "Bs \<noteq> [] \<Longrightarrow> \<not> (bbottom (last Bs) = y \<and> spans (last Bs) = spans new)"
  proof (rule obt [of "Bs @ [new]" "\<lparr>band_start = length (concat Bs), band_end = length (concat Bs @ new)\<rparr>"])
    show "sweep_inv (Bs @ [new]) \<lparr>band_start = length (concat Bs), band_end = length (concat Bs @ new)\<rparr> s'"
      using sweep_inv_append [OF wf below new ne differ] by (auto simp: sweep_inv_def)
  qed (use close e in auto)
  show ?thesis
  proof (cases "Bs \<noteq> [] \<and> cur = \<lparr>band_start = length (concat (butlast Bs)), band_end = length (concat Bs)\<rparr>")
    case True
    then obtain Cs B where Bs: "Bs = Cs @ [B]" by (cases Bs rule: rev_cases) auto
    have cur: "cur = \<lparr>band_start = length (concat Cs), band_end = length (concat Cs @ B)\<rparr>"
      using True by (simp add: Bs)
    have "m_bottom (hd B) = bbottom B" by (simp add: bbottom_def)
    then have spec: "closeBand (concat Bs) new cur =
        (if bbottom B = y \<and> spans B = spans new
         then (concat Cs @ map (\<lambda>r. r\<lparr>m_bottom := s'\<rparr>) B, cur)
         else (concat Bs @ new, \<lparr>band_start = length (concat Bs), band_end = length (concat Bs @ new)\<rparr>))"
      using closeBand_spec [of "concat Cs" B new] ne e
      by (simp add: Bs cur btop_def [symmetric] bbottom_def [symmetric])
    show ?thesis
    proof (cases "bbottom B = y \<and> spans B = spans new")
      case True
      let ?B = "map (\<lambda>r. r\<lparr>m_bottom := s'\<rparr>) B"
      have wf': "wf_bands (Cs @ [B])" using wf by (simp add: Bs)
      note merge = sweep_inv_merge [OF wf' conjunct1 [OF True] sy(2)]
      have ok: "band_ok B" using wf' by (simp add: wf_bands_append)
      have "bbottom ?B = s'" "spans ?B = spans B"
        using set_bottom_band [OF ok _ refl, of s'] band_okD(2) [OF ok] True sy(2) by simp_all
      moreover have "\<forall>C \<in> set Cs. bbottom C \<le> s'" using below sy(2) by (fastforce simp: Bs)
      ultimately have "sweep_inv (Cs @ [?B]) cur s'"
        using merge(1) by (auto simp: sweep_inv_def cur)
      moreover have "pts new = {(x, z). y \<le> z \<and> z < s' \<and> x \<in> row_pts B}"
        using pts_is_band [OF new] row_pts_spans [of B new] True by auto
      ultimately show ?thesis
        using obt [of "Cs @ [?B]" cur] spec merge(2) True \<open>bbottom ?B = s'\<close> \<open>spans ?B = spans B\<close>
        by (simp add: Bs Un_assoc)
    next
      case False
      show ?thesis by (rule append) (use spec False in \<open>auto simp: Bs\<close>)
    qed
  next
    case False
    then have cur: "cur = \<lparr>band_start = length (concat Bs), band_end = length (concat Bs @ [])\<rparr>"
      and lt: "\<forall>B \<in> set Bs. bbottom B < s" using inv by (auto simp: sweep_inv_def)
    have "closeBand (concat Bs) new cur =
        (concat Bs @ new, \<lparr>band_start = length (concat Bs), band_end = length (concat Bs @ new)\<rparr>)"
      using closeBand_spec [of "concat Bs" "[]" new] ne
      by (cases new) (auto simp: cur)
    moreover have "Bs \<noteq> [] \<Longrightarrow> \<not> (bbottom (last Bs) = y \<and> spans (last Bs) = spans new)"
      using lt sy(1) by (metis last_in_set leD)
    ultimately show ?thesis by (rule append)
  qed
qed
qed

section \<open>The generic sweep and its contract\<close>

function sweep ::
    "bool \<Rightarrow> bool \<Rightarrow> ('a::linorder \<Rightarrow> 'a \<Rightarrow> 'a rect list \<Rightarrow> 'a rect list \<Rightarrow> 'a rect list) \<Rightarrow>
     'a \<Rightarrow> 'a rect list \<Rightarrow> 'a rect list \<Rightarrow> 'a rect list \<Rightarrow> bandref \<Rightarrow> 'a rect list" where
  "sweep keepL keepR row scanline [] [] m cur = m"
| "sweep keepL keepR row scanline (l # ls) [] m cur =
     (if keepL
      then fst (sliceBand m (first_band (l # ls)) (max (m_top l) scanline) (m_bottom l) cur)
             @ rest_bands (l # ls)
      else m)"
| "sweep keepL keepR row scanline [] (r # rs) m cur =
     (if keepR
      then fst (sliceBand m (first_band (r # rs)) (max (m_top r) scanline) (m_bottom r) cur)
             @ rest_bands (r # rs)
      else m)"
| "sweep keepL keepR row scanline (l # ls) (r # rs) m cur =
     (let s = next_stop scanline l r;
          (m', cur') =
            (if m_top l \<le> m_top r
             then let y = max (m_top l) scanline
                  in if y < m_top r
                     then if keepL then sliceBand m (first_band (l # ls)) y s cur else (m, cur)
                     else closeBand m (row y s (first_band (l # ls)) (first_band (r # rs))) cur
             else let y = max (m_top r) scanline
                  in if y < m_top l
                     then if keepR then sliceBand m (first_band (r # rs)) y s cur else (m, cur)
                     else closeBand m (row y s (first_band (l # ls)) (first_band (r # rs))) cur)
      in sweep keepL keepR row s
           (if m_bottom l = s then rest_bands (l # ls) else l # ls)
           (if m_bottom r = s then rest_bands (r # rs) else r # rs) m' cur')"
  by pat_completeness auto
termination
  by (relation "measure (\<lambda>(kl, kr, row, s, L, R, mc). sweep_measure s L R)", simp)
    (simp only: in_measure split_conv, rule sweep_measure_step, simp)

declare sweep.simps(4) [simp del]

lemma unite_loop_sweep: "unite_loop s L R m cur = sweep True True merge_row s L R m cur"
proof (induction s L R m cur rule: unite_loop.induct)
  case (4 scanline l ls r rs m_rects currentBand)
  let ?A = "first_band (l # ls)" and ?B = "first_band (r # rs)"
  obtain s m' c' where eq: "(if m_top l \<le> m_top r
       then let y = max (m_top l) scanline
            in if y < m_top r
               then let s = min (m_bottom l) (m_top r) in (s, sliceBand m_rects ?A y s currentBand)
               else let s = min (m_bottom l) (m_bottom r) in (s, mergeBands m_rects ?A ?B y s currentBand)
       else let y = max (m_top r) scanline
            in if y < m_top l
               then let s = min (m_top l) (m_bottom r) in (s, sliceBand m_rects ?B y s currentBand)
               else let s = min (m_bottom l) (m_bottom r) in (s, mergeBands m_rects ?A ?B y s currentBand))
      = (s, m', c')" (is "?E = _") by (rule prod_cases3)
  have s: "s = next_stop scanline l r"
    using arg_cong [OF eq, of fst] by (simp add: next_stop_def Let_def if_distrib [of fst] cong: if_cong)
  let ?L = "if m_bottom l = s then rest_bands (l # ls) else l # ls"
    and ?R = "if m_bottom r = s then rest_bands (r # rs) else r # rs"
  have "unite_loop scanline (l # ls) (r # rs) m_rects currentBand = unite_loop s ?L ?R m' c'"
    unfolding unite_loop.simps(4) Let_def eq [unfolded Let_def] prod.case ..
  moreover have "sweep True True merge_row scanline (l # ls) (r # rs) m_rects currentBand =
      sweep True True merge_row s ?L ?R m' c'"
    by (subst sweep.simps(4), cases "m_top l \<le> m_top r"; cases "max (m_top l) scanline < m_top r";
        cases "max (m_top r) scanline < m_top l")
      (use eq s [symmetric] in \<open>auto simp only: Let_def mergeBands_def if_True if_False prod.case prod.inject\<close>)
  ultimately show ?case using "4.IH" [OF refl refl refl eq [symmetric] refl] by (simp only:)
qed simp_all

lemma subtract_loop_sweep: "subtract_loop s L R m cur = sweep True False subtract_row s L R m cur"
proof (induction s L R m cur rule: subtract_loop.induct)
  case (1 scanline right m_rects currentBand)
  then show ?case by (cases right) simp_all
next
  case (3 scanline l ls r rs m_rects currentBand)
  let ?A = "first_band (l # ls)" and ?B = "first_band (r # rs)"
  obtain s m' c' where eq: "(if m_top l \<le> m_top r
       then let y = max (m_top l) scanline
            in if y < m_top r
               then let s = min (m_bottom l) (m_top r) in (s, sliceBand m_rects ?A y s currentBand)
               else let s = min (m_bottom l) (m_bottom r) in (s, subtractBands m_rects ?A ?B y s currentBand)
       else let y = max (m_top r) scanline
            in if y < m_top l
               then let s = min (m_top l) (m_bottom r) in (s, (m_rects, currentBand))
               else let s = min (m_bottom l) (m_bottom r) in (s, subtractBands m_rects ?A ?B y s currentBand))
      = (s, m', c')" (is "?E = _") by (rule prod_cases3)
  have s: "s = next_stop scanline l r"
    using arg_cong [OF eq, of fst] by (simp add: next_stop_def Let_def if_distrib [of fst] cong: if_cong)
  let ?L = "if m_bottom l = s then rest_bands (l # ls) else l # ls"
    and ?R = "if m_bottom r = s then rest_bands (r # rs) else r # rs"
  have "subtract_loop scanline (l # ls) (r # rs) m_rects currentBand = subtract_loop s ?L ?R m' c'"
    unfolding subtract_loop.simps(3) Let_def eq [unfolded Let_def] prod.case ..
  moreover have "sweep True False subtract_row scanline (l # ls) (r # rs) m_rects currentBand =
      sweep True False subtract_row s ?L ?R m' c'"
    by (subst sweep.simps(4), cases "m_top l \<le> m_top r"; cases "max (m_top l) scanline < m_top r";
        cases "max (m_top r) scanline < m_top l")
      (use eq s [symmetric] in \<open>auto simp only: Let_def subtractBands_def if_True if_False prod.case prod.inject\<close>)
  ultimately show ?case using "3.IH" [OF refl refl refl eq [symmetric] refl] by (simp only:)
qed simp_all

lemma exclusiveOr_loop_sweep: "exclusiveOr_loop s L R m cur = sweep True True xor_row s L R m cur"
proof (induction s L R m cur rule: exclusiveOr_loop.induct)
  case (4 scanline l ls r rs m_rects currentBand)
  let ?A = "first_band (l # ls)" and ?B = "first_band (r # rs)"
  obtain s m' c' where eq: "(if m_top l \<le> m_top r
       then let y = max (m_top l) scanline
            in if y < m_top r
               then let s = min (m_bottom l) (m_top r) in (s, sliceBand m_rects ?A y s currentBand)
               else let s = min (m_bottom l) (m_bottom r) in (s, xorBands m_rects ?A ?B y s currentBand)
       else let y = max (m_top r) scanline
            in if y < m_top l
               then let s = min (m_top l) (m_bottom r) in (s, sliceBand m_rects ?B y s currentBand)
               else let s = min (m_bottom l) (m_bottom r) in (s, xorBands m_rects ?A ?B y s currentBand))
      = (s, m', c')" (is "?E = _") by (rule prod_cases3)
  have s: "s = next_stop scanline l r"
    using arg_cong [OF eq, of fst] by (simp add: next_stop_def Let_def if_distrib [of fst] cong: if_cong)
  let ?L = "if m_bottom l = s then rest_bands (l # ls) else l # ls"
    and ?R = "if m_bottom r = s then rest_bands (r # rs) else r # rs"
  have "exclusiveOr_loop scanline (l # ls) (r # rs) m_rects currentBand = exclusiveOr_loop s ?L ?R m' c'"
    unfolding exclusiveOr_loop.simps(4) Let_def eq [unfolded Let_def] prod.case ..
  moreover have "sweep True True xor_row scanline (l # ls) (r # rs) m_rects currentBand =
      sweep True True xor_row s ?L ?R m' c'"
    by (subst sweep.simps(4), cases "m_top l \<le> m_top r"; cases "max (m_top l) scanline < m_top r";
        cases "max (m_top r) scanline < m_top l")
      (use eq s [symmetric] in \<open>auto simp only: Let_def xorBands_def if_True if_False prod.case prod.inject\<close>)
  ultimately show ?case using "4.IH" [OF refl refl refl eq [symmetric] refl] by (simp only:)
qed simp_all

lemma intersect_loop_sweep: "intersect_loop s L R m cur = sweep False False intersect_row s L R m cur"
proof (induction s L R m cur rule: intersect_loop.induct)
  case (1 scanline right m_rects currentBand)
  then show ?case by (cases right) simp_all
next
  case (3 scanline l ls r rs m_rects currentBand)
  let ?A = "first_band (l # ls)" and ?B = "first_band (r # rs)"
  obtain s m' c' where eq: "(if m_top l \<le> m_top r
       then let y = max (m_top l) scanline
            in if y < m_top r
               then let s = min (m_bottom l) (m_top r) in (s, (m_rects, currentBand))
               else let s = min (m_bottom l) (m_bottom r) in (s, intersectBands m_rects ?A ?B y s currentBand)
       else let y = max (m_top r) scanline
            in if y < m_top l
               then let s = min (m_top l) (m_bottom r) in (s, (m_rects, currentBand))
               else let s = min (m_bottom l) (m_bottom r) in (s, intersectBands m_rects ?A ?B y s currentBand))
      = (s, m', c')" (is "?E = _") by (rule prod_cases3)
  have s: "s = next_stop scanline l r"
    using arg_cong [OF eq, of fst] by (simp add: next_stop_def Let_def if_distrib [of fst] cong: if_cong)
  let ?L = "if m_bottom l = s then rest_bands (l # ls) else l # ls"
    and ?R = "if m_bottom r = s then rest_bands (r # rs) else r # rs"
  have "intersect_loop scanline (l # ls) (r # rs) m_rects currentBand = intersect_loop s ?L ?R m' c'"
    unfolding intersect_loop.simps(3) Let_def eq [unfolded Let_def] prod.case ..
  moreover have "sweep False False intersect_row scanline (l # ls) (r # rs) m_rects currentBand =
      sweep False False intersect_row s ?L ?R m' c'"
    by (subst sweep.simps(4), cases "m_top l \<le> m_top r"; cases "max (m_top l) scanline < m_top r";
        cases "max (m_top r) scanline < m_top l")
      (use eq s [symmetric] in \<open>auto simp only: Let_def intersectBands_def if_True if_False prod.case prod.inject\<close>)
  ultimately show ?case using "3.IH" [OF refl refl refl eq [symmetric] refl] by (simp only:)
qed simp_all

text \<open>
  The contract of a row scan: it computes a Boolean operation on the covered coordinates and returns
  one well-formed row. The operation must be false where both inputs are.
\<close>

locale row_op =
  fixes bop :: "bool \<Rightarrow> bool \<Rightarrow> bool"
    and row :: "'a::linorder \<Rightarrow> 'a \<Rightarrow> 'a rect list \<Rightarrow> 'a rect list \<Rightarrow> 'a rect list"
  assumes bop_FF: "\<not> bop False False"
    and row_row_ok: "span_sorted L \<Longrightarrow> span_sorted R \<Longrightarrow> L \<noteq> [] \<Longrightarrow> R \<noteq> [] \<Longrightarrow> row_ok t b (row t b L R)"
    and row_row_pts: "span_sorted L \<Longrightarrow> span_sorted R \<Longrightarrow> L \<noteq> [] \<Longrightarrow> R \<noteq> [] \<Longrightarrow>
      x \<in> row_pts (row t b L R) \<longleftrightarrow> bop (x \<in> row_pts L) (x \<in> row_pts R)"

text \<open>What is left of a list when the scan line stands at or above the bottom of its first band.\<close>

lemma pts_above_stop:
  assumes wf: "wf_bands (A # As)" and y: "y < s" and s: "s \<le> bbottom A"
  shows "(x, y) \<in> pts (concat (A # As)) \<longleftrightarrow> btop A \<le> y \<and> x \<in> row_pts A"
proof (cases "btop A \<le> y")
  case True
  have "y < bbottom A" using y s by (rule order_less_le_trans)
  from pts_bands_row [OF wf True this] show ?thesis using True by blast
next
  case False
  then show ?thesis using band_top_pts(2) [OF wf] by blast
qed

lemma pts_below_stop:
  assumes wf: "wf_bands (A # As)" and y: "s \<le> y"
  shows "(x, y) \<in> pts (concat (if bbottom A = s then As else A # As)) \<longleftrightarrow> (x, y) \<in> pts (concat (A # As))"
proof (cases "bbottom A = s")
  case True
  then have "(x, y) \<in> pts (concat As) \<longleftrightarrow> (x, y) \<in> pts (concat (A # As))"
    using y unfolding pts_bands_rest [OF wf] by simp
  then show ?thesis by (simp only: True if_True refl)
qed simp

lemma bottoms_after_stop:
  assumes wf: "wf_bands (A # As)" and s: "s \<le> bbottom A"
  shows "\<forall>C \<in> set (if bbottom A = s then As else A # As). s < bbottom C"
proof
  fix C
  assume C: "C \<in> set (if bbottom A = s then As else A # As)"
  show "s < bbottom C"
  proof (cases "C \<in> set As")
    case True
    then have "band_ok C" using wf by (auto simp: wf_bands_def)
    then have "bbottom A < bbottom C"
      using wf_bands_below [OF wf True] band_okD(2) order_le_less_trans by blast
    with s show ?thesis by (rule order_le_less_trans)
  next
    case False
    then have "C = A" "bbottom A \<noteq> s" using C by (auto split: if_splits)
    then show ?thesis using s by simp
  qed
qed

lemma bottoms_from_top:
  assumes wf: "wf_bands (A # As)"
  shows "\<forall>C \<in> set (A # As). btop A < bbottom C"
proof
  fix C
  assume C: "C \<in> set (A # As)"
  have ok: "band_ok C" "band_ok A" using C wf by (auto simp: wf_bands_def)
  show "btop A < bbottom C"
  proof (cases "C = A")
    case False
    then have "bbottom A \<le> btop C" using C wf_bands_below [OF wf] by simp
    then show ?thesis using band_okD(2) [OF ok(1)] band_okD(2) [OF ok(2)] by order
  qed (use ok band_okD in blast)
qed

lemma wf_bands_after: "wf_bands (A # As) \<Longrightarrow> wf_bands (if b then As else A # As)"
  by (simp add: wf_bands_Cons)

lemma split_concat:
  assumes "wf_bands (A # As)"
  obtains l ls where "concat (A # As) = l # ls" "first_band (l # ls) = A" "rest_bands (l # ls) = concat As"
    "m_top l = btop A" "m_bottom l = bbottom A"
proof -
  note hdA = hd_concat_band [OF assms]
  obtain l ls where eq: "concat (A # As) = l # ls"
    using hdA by (cases A) auto
  then have l: "hd A = l" using hdA by (metis list.sel(1))
  then have edges: "m_top l = btop A" "m_bottom l = bbottom A" unfolding btop_def bbottom_def by blast+
  have "first_band (l # ls) = A" "rest_bands (l # ls) = concat As"
    using takeWhile_band [OF assms] dropWhile_band [OF assms]
    by (simp_all only: eq list.sel(1) edges)
  with edges eq that show ?thesis by blast
qed

lemma slice_is_band: "band_ok A \<Longrightarrow> y < s \<Longrightarrow> is_band y s (map (slicedRect y s) A)"
  by (auto simp: is_band_def slicedRect_def span_sorted_def sorted_wrt_map dest: band_okD(3))

lemma row_pts_sliced [simp]: "row_pts (map (slicedRect y s) A) = row_pts A"
  by (auto simp: row_pts_def slicedRect_def)

lemma spans_sliced [simp]: "spans (map (slicedRect y s) A) = spans A"
  by (simp add: spans_def slicedRect_def)

lemma pts_slice:
  "band_ok A \<Longrightarrow> y < s \<Longrightarrow> (x, z) \<in> pts (map (slicedRect y s) A) \<longleftrightarrow> y \<le> z \<and> z < s \<and> x \<in> row_pts A"
  using pts_is_band [OF slice_is_band] by simp

text \<open>The tails: the rest of one list, sliced at the scan line, is appended.\<close>

lemma sweep_tail:
  assumes inv: "sweep_inv Bs cur scan" and wf: "wf_bands (A # As)" and bot: "scan < bbottom A"
  obtains Bs' where
    "fst (sliceBand (concat Bs) A (max (btop A) scan) (bbottom A) cur) @ concat As = concat Bs'"
    "wf_bands Bs'"
    "\<And>x y. (x, y) \<in> pts (concat Bs') \<longleftrightarrow>
       (x, y) \<in> pts (concat Bs) \<or> scan \<le> y \<and> (x, y) \<in> pts (concat (A # As))"
proof -
  have ok: "band_ok A" using wf by (simp add: wf_bands_Cons)
  let ?y = "max (btop A) scan"
  have y: "?y < bbottom A" "scan \<le> ?y" using bot band_okD(2) [OF ok] by auto
  let ?S = "map (slicedRect ?y (bbottom A)) A"
  obtain Bs1 cur1 where close: "closeBand (concat Bs) ?S cur = (concat Bs1, cur1)"
    and inv1: "sweep_inv Bs1 cur1 (bbottom A)"
    and pts1: "pts (concat Bs1) = pts (concat Bs) \<union> pts ?S"
    and last: "?S \<noteq> [] \<Longrightarrow> Bs1 \<noteq> [] \<and> bbottom (last Bs1) = bbottom A \<and> spans (last Bs1) = spans ?S"
    using closeBand_inv [OF inv y(2,1) slice_is_band [OF ok y(1)]] by metis
  have "?S \<noteq> []" using band_okD(1) [OF ok] by simp
  from last [OF this] have wf1: "wf_bands (Bs1 @ As)"
    using wf inv1 by (auto simp: wf_bands_append wf_bands_Cons sweep_inv_def band_step_def)
  have "(x, z) \<in> pts (concat (Bs1 @ As)) \<longleftrightarrow>
      (x, z) \<in> pts (concat Bs) \<or> scan \<le> z \<and> (x, z) \<in> pts (concat (A # As))" for x z
  proof -
    have rest: "(x, z) \<in> pts (concat As) \<Longrightarrow> bbottom A \<le> z"
      unfolding pts_bands_rest [OF wf] by simp
    have "(x, z) \<in> pts (concat (A # As)) \<longleftrightarrow> (btop A \<le> z \<and> z < bbottom A \<and> x \<in> row_pts A) \<or> (x, z) \<in> pts (concat As)"
      using pts_band_ok [OF ok] by simp
    then show ?thesis using rest pts_slice [OF ok y(1)] bot pts1 by auto
  qed
  then show ?thesis
    using that [of "Bs1 @ As"] wf1 close by (simp add: sliceBand_def)
qed

text \<open>One stop of the sweep, over bands instead of heads of lists.\<close>

definition band_stop :: "'a::linorder \<Rightarrow> 'a rect list \<Rightarrow> 'a rect list \<Rightarrow> 'a" where
  "band_stop scan A B =
     (if btop A \<le> btop B
      then if max (btop A) scan < btop B then min (bbottom A) (btop B) else min (bbottom A) (bbottom B)
      else if max (btop B) scan < btop A then min (btop A) (bbottom B) else min (bbottom A) (bbottom B))"

definition band_emit ::
    "bool \<Rightarrow> bool \<Rightarrow> ('a::linorder \<Rightarrow> 'a \<Rightarrow> 'a rect list \<Rightarrow> 'a rect list \<Rightarrow> 'a rect list) \<Rightarrow>
     'a \<Rightarrow> 'a rect list \<Rightarrow> 'a rect list \<Rightarrow> 'a rect list \<Rightarrow> bandref \<Rightarrow> 'a rect list \<times> bandref" where
  "band_emit keepL keepR row scan A B m cur =
     (let s = band_stop scan A B in
      if btop A \<le> btop B
      then let y = max (btop A) scan
           in if y < btop B then if keepL then sliceBand m A y s cur else (m, cur)
              else closeBand m (row y s A B) cur
      else let y = max (btop B) scan
           in if y < btop A then if keepR then sliceBand m B y s cur else (m, cur)
              else closeBand m (row y s A B) cur)"

lemma sweep_bands:
  assumes A: "wf_bands (A # As)" and B: "wf_bands (B # Bs)"
    and emit: "band_emit keepL keepR row scan A B m cur = (m', cur')"
    and s: "s = band_stop scan A B"
  shows "sweep keepL keepR row scan (concat (A # As)) (concat (B # Bs)) m cur =
      sweep keepL keepR row s (concat (if bbottom A = s then As else A # As))
        (concat (if bbottom B = s then Bs else B # Bs)) m' cur'" (is "?sw")
    and "sweep_measure s (concat (if bbottom A = s then As else A # As))
        (concat (if bbottom B = s then Bs else B # Bs))
      < sweep_measure scan (concat (A # As)) (concat (B # Bs))" (is "?less")
proof -
  obtain l ls where l: "concat (A # As) = l # ls" "first_band (l # ls) = A" "rest_bands (l # ls) = concat As"
    "m_top l = btop A" "m_bottom l = bbottom A" by (rule split_concat [OF A])
  obtain r rs where r: "concat (B # Bs) = r # rs" "first_band (r # rs) = B" "rest_bands (r # rs) = concat Bs"
    "m_top r = btop B" "m_bottom r = bbottom B" by (rule split_concat [OF B])
  have stop: "next_stop scan l r = s"
    by (simp only: s next_stop_def band_stop_def l(4,5) r(4,5))
  have L: "concat (if bbottom A = s then As else A # As) = (if m_bottom l = s then rest_bands (l # ls) else l # ls)"
    by (cases "bbottom A = s") (simp_all only: if_True if_False refl l)
  have R: "concat (if bbottom B = s then Bs else B # Bs) = (if m_bottom r = s then rest_bands (r # rs) else r # rs)"
    by (cases "bbottom B = s") (simp_all only: if_True if_False refl r)
  have E: "(if m_top l \<le> m_top r
       then if max (m_top l) scan < m_top r
            then if keepL then sliceBand m (first_band (l # ls)) (max (m_top l) scan) s cur else (m, cur)
            else closeBand m (row (max (m_top l) scan) s (first_band (l # ls)) (first_band (r # rs))) cur
       else if max (m_top r) scan < m_top l
            then if keepR then sliceBand m (first_band (r # rs)) (max (m_top r) scan) s cur else (m, cur)
            else closeBand m (row (max (m_top r) scan) s (first_band (l # ls)) (first_band (r # rs))) cur)
      = (m', cur')"
    using emit unfolding l(2,4) r(2,4) by (simp only: band_emit_def Let_def s)
  show ?sw
    unfolding L R unfolding l(1) r(1) sweep.simps(4) Let_def stop E prod.case ..
  show ?less unfolding L R unfolding l(1) r(1) by (rule sweep_measure_step [OF stop [symmetric]])
qed

lemma band_stop_bounds:
  assumes "band_ok A" "band_ok B" "scan < bbottom A" "scan < bbottom B"
  shows "scan < band_stop scan A B" "band_stop scan A B \<le> bbottom A" "band_stop scan A B \<le> bbottom B"
  using assms band_okD(2) [of A] band_okD(2) [of B] by (auto simp: band_stop_def min_def)

context row_op
begin

text \<open>What one stop adds: the rows from the scan line to the next stop.\<close>

lemma band_emit_correct:
  assumes inv: "sweep_inv Cs cur scan" and ok: "band_ok A" "band_ok B"
    and bot: "scan < bbottom A" "scan < bbottom B" and s: "s = band_stop scan A B"
  obtains Cs' cur' where
    "band_emit (bop True False) (bop False True) row scan A B (concat Cs) cur = (concat Cs', cur')"
    "sweep_inv Cs' cur' s"
    "\<And>x z. (x, z) \<in> pts (concat Cs') \<longleftrightarrow> (x, z) \<in> pts (concat Cs) \<or>
       scan \<le> z \<and> z < s \<and> bop (btop A \<le> z \<and> x \<in> row_pts A) (btop B \<le> z \<and> x \<in> row_pts B)"
proof -
  note obt = that
  note FF = bop_FF
  note edges = band_okD(2) [OF ok(1)] band_okD(2) [OF ok(2)]
  have scan_s: "scan < s" using band_stop_bounds [OF ok bot] s by simp
  have close: thesis
    if emit: "band_emit (bop True False) (bop False True) row scan A B (concat Cs) cur = closeBand (concat Cs) new cur"
      and y: "scan \<le> y" "y < s" and new: "is_band y s new"
      and P: "\<And>x z. scan \<le> z \<Longrightarrow> z < s \<Longrightarrow> y \<le> z \<and> x \<in> row_pts new \<longleftrightarrow>
        bop (btop A \<le> z \<and> x \<in> row_pts A) (btop B \<le> z \<and> x \<in> row_pts B)" for y new
  proof -
    obtain Cs' cur' where "closeBand (concat Cs) new cur = (concat Cs', cur')" "sweep_inv Cs' cur' s"
      "pts (concat Cs') = pts (concat Cs) \<union> pts new"
      using closeBand_inv [OF inv y new] by metis
    moreover have "(x, z) \<in> pts new \<longleftrightarrow> scan \<le> z \<and> z < s \<and>
        bop (btop A \<le> z \<and> x \<in> row_pts A) (btop B \<le> z \<and> x \<in> row_pts B)" for x z
      using pts_is_band [OF new, of x z] P [of z x] y(1) by auto
    ultimately show thesis using emit by (intro obt) auto
  qed
  have leave: thesis
    if "band_emit (bop True False) (bop False True) row scan A B (concat Cs) cur = (concat Cs, cur)"
      and "\<And>x z. scan \<le> z \<Longrightarrow> z < s \<Longrightarrow>
        \<not> bop (btop A \<le> z \<and> x \<in> row_pts A) (btop B \<le> z \<and> x \<in> row_pts B)"
    using obt [OF that(1) sweep_inv_mono [OF inv order.strict_implies_order [OF scan_s]]] that(2) by blast
  have both: thesis
    if emit: "band_emit (bop True False) (bop False True) row scan A B (concat Cs) cur =
        closeBand (concat Cs) (row y s A B) cur"
      and y: "y = max (max (btop A) (btop B)) scan" "y < s" "y = scan \<or> y = btop A \<and> y = btop B" for y
  proof (rule close [OF emit])
    have sorted: "span_sorted A" "span_sorted B" "A \<noteq> []" "B \<noteq> []" using ok by (simp_all add: band_okD)
    show "is_band y s (row y s A B)"
      using row_row_ok [OF sorted] y(2) by (simp add: is_band_row_ok)
    fix x z
    assume z: "scan \<le> z" "z < s"
    show "y \<le> z \<and> x \<in> row_pts (row y s A B) \<longleftrightarrow>
        bop (btop A \<le> z \<and> x \<in> row_pts A) (btop B \<le> z \<and> x \<in> row_pts B)"
    proof (cases "y \<le> z")
      case True
      moreover have "btop A \<le> y" "btop B \<le> y" using y(1) by (simp_all add: le_max_iff_disj)
      ultimately have "btop A \<le> z" "btop B \<le> z" by order+
      then show ?thesis using True row_row_pts [OF sorted, of x y s] by simp
    next
      case False
      then have "\<not> btop A \<le> z" "\<not> btop B \<le> z" using y(3) z(1) by auto
      then show ?thesis using False FF by simp
    qed
  qed (use y in auto)
  show thesis
  proof (cases "btop A \<le> btop B")
    case le: True
    let ?y = "max (btop A) scan"
    show thesis
    proof (cases "?y < btop B")
      case gap: True
      have s': "s = min (bbottom A) (btop B)" using le gap by (auto simp: s band_stop_def)
      have y: "?y < s" using gap bot edges le by (auto simp: s')
      have not: "z < s \<Longrightarrow> \<not> btop B \<le> z" for z by (auto simp: s')
      show thesis
      proof (cases "bop True False")
        case True
        then have op: "bop P False \<longleftrightarrow> P" for P using FF by (cases P) auto
        show thesis
          by (rule close [of "map (slicedRect ?y s) A" ?y, OF _ _ y slice_is_band [OF ok(1) y]])
            (use le gap True s in \<open>auto simp: band_emit_def sliceBand_def Let_def not op\<close>)
      next
        case False
        then have op: "\<not> bop P False" for P using FF by (cases P) auto
        show thesis
          by (rule leave) (use le gap False s in \<open>auto simp: band_emit_def Let_def not op\<close>)
      qed
    next
      case False
      have s': "s = min (bbottom A) (bbottom B)" using le False by (auto simp: s band_stop_def)
      show thesis
      proof (rule both [of ?y])
        show "band_emit (bop True False) (bop False True) row scan A B (concat Cs) cur =
            closeBand (concat Cs) (row ?y s A B) cur"
          using le False by (auto simp: band_emit_def Let_def s)
        show "?y = max (max (btop A) (btop B)) scan" using le False by (auto simp: max_def split: if_splits)
        show "?y < s" unfolding s' using le False bot edges by auto
        show "?y = scan \<or> ?y = btop A \<and> ?y = btop B"
          using le False by (auto simp: max_def split: if_splits)
      qed
    qed
  next
    case gt: False
    let ?y = "max (btop B) scan"
    show thesis
    proof (cases "?y < btop A")
      case gap: True
      have s': "s = min (btop A) (bbottom B)" using gt gap by (auto simp: s band_stop_def)
      have y: "?y < s" using gap bot edges gt by (auto simp: s')
      have not: "z < s \<Longrightarrow> \<not> btop A \<le> z" for z by (auto simp: s')
      show thesis
      proof (cases "bop False True")
        case True
        then have op: "bop False P \<longleftrightarrow> P" for P using FF by (cases P) auto
        show thesis
          by (rule close [of "map (slicedRect ?y s) B" ?y, OF _ _ y slice_is_band [OF ok(2) y]])
            (use gt gap True s in \<open>auto simp: band_emit_def sliceBand_def Let_def not op\<close>)
      next
        case False
        then have op: "\<not> bop False P" for P using FF by (cases P) auto
        show thesis
          by (rule leave) (use gt gap False s in \<open>auto simp: band_emit_def Let_def not op\<close>)
      qed
    next
      case False
      have s': "s = min (bbottom A) (bbottom B)" using gt False by (auto simp: s band_stop_def)
      show thesis
      proof (rule both [of ?y])
        show "band_emit (bop True False) (bop False True) row scan A B (concat Cs) cur =
            closeBand (concat Cs) (row ?y s A B) cur"
          using gt False by (auto simp: band_emit_def Let_def s)
        show "?y = max (max (btop A) (btop B)) scan" using gt False by (auto simp: max_def split: if_splits)
        show "?y < s" unfolding s' using gt False bot edges by auto
        show "?y = scan \<or> ?y = btop A \<and> ?y = btop B"
          using gt False by (auto simp: max_def split: if_splits)
      qed
    qed
  qed
qed

text \<open>The sweep returns a well-formed list that covers the combination of the two rests.\<close>

lemma sweep_correct:
  assumes "sweep_inv Cs cur scan" and "wf_bands As" "wf_bands Bs"
    and "\<forall>A \<in> set As. scan < bbottom A" "\<forall>B \<in> set Bs. scan < bbottom B"
  shows "\<exists>Cs'. sweep (bop True False) (bop False True) row scan (concat As) (concat Bs) (concat Cs) cur = concat Cs' \<and>
           wf_bands Cs' \<and>
           (\<forall>x y. (x, y) \<in> pts (concat Cs') \<longleftrightarrow> (x, y) \<in> pts (concat Cs) \<or>
              scan \<le> y \<and> bop ((x, y) \<in> pts (concat As)) ((x, y) \<in> pts (concat Bs)))"
  using assms
proof (induction "sweep_measure scan (concat As) (concat Bs)" arbitrary: As Bs Cs cur scan rule: less_induct)
  case less
  note inv = less.prems(1)
  have wfC: "wf_bands Cs" using inv by (simp add: sweep_inv_def)
  show ?case
  proof (cases As)
    case NilA: Nil
    show ?thesis
    proof (cases Bs)
      case Nil
      show ?thesis by (rule exI [of _ Cs]) (simp add: NilA Nil wfC bop_FF)
    next
      case (Cons B Bs')
      have wf: "wf_bands (B # Bs')" and bot: "scan < bbottom B" using less.prems(3,5) by (simp_all add: Cons)
      obtain r rs where r: "concat (B # Bs') = r # rs" "first_band (r # rs) = B"
        "rest_bands (r # rs) = concat Bs'" "m_top r = btop B" "m_bottom r = bbottom B"
        by (rule split_concat [OF wf])
      have eq: "sweep (bop True False) (bop False True) row scan (concat As) (concat Bs) (concat Cs) cur =
          (if bop False True
           then fst (sliceBand (concat Cs) B (max (btop B) scan) (bbottom B) cur) @ concat Bs' else concat Cs)"
        unfolding NilA Cons r(1) concat.simps(1) sweep.simps(3) r(2-5) ..
      obtain Cs' where tail:
        "fst (sliceBand (concat Cs) B (max (btop B) scan) (bbottom B) cur) @ concat Bs' = concat Cs'" "wf_bands Cs'"
        "\<And>x y. (x, y) \<in> pts (concat Cs') \<longleftrightarrow> (x, y) \<in> pts (concat Cs) \<or> scan \<le> y \<and> (x, y) \<in> pts (concat (B # Bs'))"
        using sweep_tail [OF inv wf bot] by metis
      show ?thesis
      proof (cases "bop False True")
        case True
        then have "bop False P \<longleftrightarrow> P" for P using bop_FF by (cases P) auto
        then show ?thesis using eq tail by (intro exI [of _ Cs']) (simp add: NilA Cons del: concat.simps(2))
      next
        case False
        then have "\<not> bop False P" for P using bop_FF by (cases P) auto
        then show ?thesis using eq False wfC by (intro exI [of _ Cs]) (simp add: NilA Cons del: concat.simps(2))
      qed
    qed
  next
    case ConsA: (Cons A As')
    have wfA: "wf_bands (A # As')" and botA: "scan < bbottom A" using less.prems(2,4) by (simp_all add: ConsA)
    show ?thesis
    proof (cases Bs)
      case Nil
      obtain l ls where l: "concat (A # As') = l # ls" "first_band (l # ls) = A"
        "rest_bands (l # ls) = concat As'" "m_top l = btop A" "m_bottom l = bbottom A"
        by (rule split_concat [OF wfA])
      have eq: "sweep (bop True False) (bop False True) row scan (concat As) (concat Bs) (concat Cs) cur =
          (if bop True False
           then fst (sliceBand (concat Cs) A (max (btop A) scan) (bbottom A) cur) @ concat As' else concat Cs)"
        unfolding Nil ConsA l(1) concat.simps(1) sweep.simps(2) l(2-5) ..
      obtain Cs' where tail:
        "fst (sliceBand (concat Cs) A (max (btop A) scan) (bbottom A) cur) @ concat As' = concat Cs'" "wf_bands Cs'"
        "\<And>x y. (x, y) \<in> pts (concat Cs') \<longleftrightarrow> (x, y) \<in> pts (concat Cs) \<or> scan \<le> y \<and> (x, y) \<in> pts (concat (A # As'))"
        using sweep_tail [OF inv wfA botA] by metis
      show ?thesis
      proof (cases "bop True False")
        case True
        then have "bop P False \<longleftrightarrow> P" for P using bop_FF by (cases P) auto
        then show ?thesis using eq tail by (intro exI [of _ Cs']) (simp add: Nil ConsA del: concat.simps(2))
      next
        case False
        then have "\<not> bop P False" for P using bop_FF by (cases P) auto
        then show ?thesis using eq False wfC by (intro exI [of _ Cs]) (simp add: Nil ConsA del: concat.simps(2))
      qed
    next
      case ConsB: (Cons B Bs')
      have wfB: "wf_bands (B # Bs')" and botB: "scan < bbottom B" using less.prems(3,5) by (simp_all add: ConsB)
      have ok: "band_ok A" "band_ok B" using wfA wfB by (simp_all add: wf_bands_Cons)
      define s where "s = band_stop scan A B"
      have bounds: "scan < s" "s \<le> bbottom A" "s \<le> bbottom B"
        using band_stop_bounds [OF ok botA botB] by (simp_all add: s_def)
      let ?As = "if bbottom A = s then As' else A # As'" and ?Bs = "if bbottom B = s then Bs' else B # Bs'"
      obtain Cs1 cur1 where
        emit: "band_emit (bop True False) (bop False True) row scan A B (concat Cs) cur = (concat Cs1, cur1)"
        and inv1: "sweep_inv Cs1 cur1 s"
        and pts1: "\<And>x z. (x, z) \<in> pts (concat Cs1) \<longleftrightarrow> (x, z) \<in> pts (concat Cs) \<or>
          scan \<le> z \<and> z < s \<and> bop (btop A \<le> z \<and> x \<in> row_pts A) (btop B \<le> z \<and> x \<in> row_pts B)"
        using band_emit_correct [OF inv ok botA botB s_def] by metis
      note step = sweep_bands [OF wfA wfB emit s_def]
      obtain Cs2 where
        res: "sweep (bop True False) (bop False True) row s (concat ?As) (concat ?Bs) (concat Cs1) cur1 = concat Cs2"
          "wf_bands Cs2"
        and pts2: "\<And>x y. (x, y) \<in> pts (concat Cs2) \<longleftrightarrow> (x, y) \<in> pts (concat Cs1) \<or>
          s \<le> y \<and> bop ((x, y) \<in> pts (concat ?As)) ((x, y) \<in> pts (concat ?Bs))"
        using less.hyps [of s ?As ?Bs, OF _ inv1 wf_bands_after [OF wfA] wf_bands_after [OF wfB]
            bottoms_after_stop [OF wfA bounds(2)] bottoms_after_stop [OF wfB bounds(3)]]
          step(2) unfolding ConsA ConsB by metis
      have "(x, y) \<in> pts (concat Cs2) \<longleftrightarrow> (x, y) \<in> pts (concat Cs) \<or>
          scan \<le> y \<and> bop ((x, y) \<in> pts (concat As)) ((x, y) \<in> pts (concat Bs))" for x y
      proof (cases "y < s")
        case True
        then show ?thesis
          unfolding pts2 pts1 ConsA ConsB pts_above_stop [OF wfA True bounds(2)]
            pts_above_stop [OF wfB True bounds(3)] by auto
      next
        case False
        then have y: "s \<le> y" by simp
        show ?thesis
          unfolding pts2 pts1 ConsA ConsB pts_below_stop [OF wfA y] pts_below_stop [OF wfB y]
          using y bounds(1) by auto
      qed
      then show ?thesis using step(1) res unfolding ConsA ConsB by metis
    qed
  qed
qed

lemma sweep_region:
  assumes wf: "wf_rects L" "wf_rects R" and ne: "L \<noteq> []" "R \<noteq> []"
  defines "res \<equiv> sweep (bop True False) (bop False True) row (min (m_top (hd L)) (m_top (hd R))) L R [] BandRef_init"
  shows "wf_rects res" and "p \<in> pts res \<longleftrightarrow> bop (p \<in> pts L) (p \<in> pts R)"
proof -
  let ?s = "min (m_top (hd L)) (m_top (hd R))"
  obtain A As where A: "bands L = A # As" by (cases L) (use ne in auto)
  obtain B Bs where B: "bands R = B # Bs" by (cases R) (use ne in auto)
  have wfA: "wf_bands (A # As)" and wfB: "wf_bands (B # Bs)"
    using wf_rects_bands [OF wf(1)] wf_rects_bands [OF wf(2)] by (simp_all add: A B)
  have L: "L = concat (A # As)" and R: "R = concat (B # Bs)" using A B concat_bands by metis+
  have tops: "m_top (hd L) = btop A" "m_top (hd R) = btop B"
    using hd_concat_band [OF wfA] hd_concat_band [OF wfB] by (auto simp: L R btop_def)
  have bot: "\<forall>C \<in> set (A # As). ?s < bbottom C" "\<forall>C \<in> set (B # Bs). ?s < bbottom C"
    using bottoms_from_top [OF wfA] bottoms_from_top [OF wfB] unfolding tops
    by (meson min.cobounded1 min.cobounded2 order_le_less_trans)+
  obtain Cs where Cs: "res = concat Cs" "wf_bands Cs"
    "\<And>x y. (x, y) \<in> pts (concat Cs) \<longleftrightarrow> ?s \<le> y \<and> bop ((x, y) \<in> pts L) ((x, y) \<in> pts R)"
    using sweep_correct [OF sweep_inv_init wfA wfB bot] unfolding res_def L R by auto
  show "wf_rects res" using Cs by (simp add: wf_rects_concat)
  obtain x y where p: "p = (x, y)" by (cases p)
  have "?s \<le> y" if "bop ((x, y) \<in> pts L) ((x, y) \<in> pts R)"
  proof -
    have "(x, y) \<in> pts L \<or> (x, y) \<in> pts R" using that bop_FF by (metis (full_types))
    then show ?thesis
      using band_top_pts(2) [OF wfA] band_top_pts(2) [OF wfB] unfolding L [symmetric] R [symmetric] tops
      by (meson min.coboundedI1 min.coboundedI2)
  qed
  then show "p \<in> pts res \<longleftrightarrow> bop (p \<in> pts L) (p \<in> pts R)" unfolding p Cs(1) Cs(3) by blast
qed

end

section \<open>The four set operations\<close>

interpretation merge_op: row_op "(\<or>)" merge_row
  by unfold_locales (auto simp: merge_row_correct)

interpretation subtract_op: row_op "\<lambda>a b. a \<and> \<not> b" subtract_row
  by unfold_locales (auto simp: subtract_row_correct)

interpretation xor_op: row_op "\<lambda>a b. a \<noteq> b" xor_row
  by unfold_locales (auto simp: xor_row_correct)

interpretation intersect_op: row_op "(\<and>)" intersect_row
  by unfold_locales (auto simp: intersect_row_correct)

lemma unite_correct:
  assumes "wf_rects L" "wf_rects R" "L \<noteq> []" "R \<noteq> []"
  shows "wf_rects (unite L R)" and "pts (unite L R) = pts L \<union> pts R"
  using merge_op.sweep_region [OF assms] by (auto simp: unite_def unite_loop_sweep)

lemma subtract_correct:
  assumes "wf_rects L" "wf_rects R" "L \<noteq> []" "R \<noteq> []"
  shows "wf_rects (subtract L R)" and "pts (subtract L R) = pts L - pts R"
  using subtract_op.sweep_region [OF assms] by (auto simp: subtract_def subtract_loop_sweep)

lemma exclusiveOr_correct:
  assumes "wf_rects L" "wf_rects R" "L \<noteq> []" "R \<noteq> []"
  shows "wf_rects (exclusiveOr L R)" and "pts (exclusiveOr L R) = (pts L - pts R) \<union> (pts R - pts L)"
  using xor_op.sweep_region [OF assms] by (auto simp: exclusiveOr_def exclusiveOr_loop_sweep)

lemma intersect_correct:
  assumes "wf_rects L" "wf_rects R" "L \<noteq> []" "R \<noteq> []"
  shows "wf_rects (intersect L R)" and "pts (intersect L R) = pts L \<inter> pts R"
  using intersect_op.sweep_region [OF assms] by (auto simp: intersect_def intersect_loop_sweep)

end
