(* ===== verification/Region.thy ===== *)
theory Region
  imports RegionAlgebra
begin

text \<open>
  The class \<open>Region\<close> of \<open>src/kde-kwin/src/core/region.h\<close> and \<open>region.cpp\<close>, and at the type \<open>real\<close>
  the class \<open>RegionF\<close>, whose methods have the same bodies. A region keeps the list of its rectangles
  and its bounds; the list is empty when the region is one rectangle, which is then \<open>m_bounds\<close>.

  The specification is the set of covered points, \<open>region_pts\<close>; \<open>wf_region\<close> is the class invariant.
  Each operation is proved to keep the invariant and to compute its set operation or its test on the
  covered points, and two regions are equal as objects exactly when they cover the same points.
\<close>

section \<open>Data and simple members\<close>

record 'a region =
  m_rects :: "'a rect list"
  m_bounds :: "'a rect"

definition Region_new :: "'a::zero region" where
  "Region_new = \<lparr>m_rects = [], m_bounds = Rect_null\<rparr>"

definition Region_of_Rect :: "'a rect \<Rightarrow> 'a region" where
  "Region_of_Rect rect = \<lparr>m_rects = [], m_bounds = rect\<rparr>"

definition Region_make :: "'a::plus \<Rightarrow> 'a \<Rightarrow> 'a \<Rightarrow> 'a \<Rightarrow> 'a region" where
  "Region_make x y width height = Region_of_Rect (Rect_make x y width height)"

text \<open>\<open>std::numeric_limits<int>::min() / 2\<close> and \<open>max()\<close>.\<close>

definition Region_infinite :: "int region" where
  "Region_infinite =
     Region_make (half_trunc (- (2 ^ 31))) (half_trunc (- (2 ^ 31))) (2 ^ 31 - 1) (2 ^ 31 - 1)"

definition Region_boundingRect :: "'a region \<Rightarrow> 'a rect" where
  "Region_boundingRect r = m_bounds r"

definition Region_isEmpty :: "'a::linorder region \<Rightarrow> bool" where
  "Region_isEmpty r \<longleftrightarrow> Rect_isEmpty (m_bounds r)"

definition Region_rects :: "'a::linorder region \<Rightarrow> 'a rect list" where
  "Region_rects r =
     (if Region_isEmpty r then []
      else if m_rects r = [] then [m_bounds r]
      else m_rects r)"

definition Region_eq :: "'a region \<Rightarrow> 'a region \<Rightarrow> bool" where
  "Region_eq a b \<longleftrightarrow> m_bounds a = m_bounds b \<and> m_rects a = m_rects b"

text \<open>The move constructor leaves the source with an empty list and null bounds.\<close>

definition Region_move :: "'a::zero region \<Rightarrow> 'a region \<times> 'a region" where
  "Region_move other =
     (\<lparr>m_rects = m_rects other, m_bounds = m_bounds other\<rparr>,
      other\<lparr>m_rects := [], m_bounds := Rect_null\<rparr>)"

section \<open>Tests\<close>

fun bandByY :: "'a::linorder \<Rightarrow> 'a rect list \<Rightarrow> nat" where
  "bandByY y [] = 0"
| "bandByY y (r # rs) = (if y < m_bottom r then 0 else Suc (bandByY y rs))"

fun contains_loop :: "'a::linorder rect \<Rightarrow> 'a \<Rightarrow> 'a rect list \<Rightarrow> bool" where
  "contains_loop rect scanline [] = False"
| "contains_loop rect scanline (q # qs) =
     (if m_bottom q \<le> scanline then contains_loop rect scanline qs
      else if scanline < m_top q then False
      else if m_right q \<le> m_left rect then contains_loop rect scanline qs
      else if m_left q \<le> m_left rect \<and> m_right rect \<le> m_right q
      then if m_bottom rect \<le> m_bottom q then True else contains_loop rect (m_bottom q) qs
      else False)"

definition Region_contains :: "'a::linorder region \<Rightarrow> 'a rect \<Rightarrow> bool" where
  "Region_contains r rect =
     (if Region_isEmpty r then False
      else if Rect_isEmpty rect then False
      else if m_rects r = [] then Rect_contains (m_bounds r) rect
      else if \<not> Rect_intersects (m_bounds r) rect then False
      else contains_loop rect (m_top rect) (drop (bandByY (m_top rect) (m_rects r)) (m_rects r)))"

fun containsPoint_loop :: "'a::linorder \<times> 'a \<Rightarrow> 'a rect list \<Rightarrow> bool" where
  "containsPoint_loop point [] = False"
| "containsPoint_loop point (q # qs) =
     (if snd point < m_top q then False
      else if m_right q \<le> fst point then containsPoint_loop point qs
      else if m_left q \<le> fst point then True
      else if m_left q > fst point then False
      else containsPoint_loop point qs)"

definition Region_containsPoint :: "'a::linorder region \<Rightarrow> 'a \<times> 'a \<Rightarrow> bool" where
  "Region_containsPoint r point =
     (if Region_isEmpty r then False
      else if m_rects r = [] then Rect_containsPoint (m_bounds r) point
      else containsPoint_loop point (drop (bandByY (snd point) (m_rects r)) (m_rects r)))"

fun intersects_loop :: "'a::linorder rect \<Rightarrow> 'a \<Rightarrow> 'a rect list \<Rightarrow> bool" where
  "intersects_loop rect scanline [] = False"
| "intersects_loop rect scanline (q # qs) =
     (if m_bottom q \<le> scanline then intersects_loop rect scanline qs
      else if m_bottom rect \<le> m_top q then False
      else if m_right q \<le> m_left rect then intersects_loop rect scanline qs
      else if m_right rect \<le> m_left q
      then if m_bottom rect \<le> m_bottom q then False else intersects_loop rect (m_bottom q) qs
      else True)"

definition Region_intersectsRect :: "'a::linorder region \<Rightarrow> 'a rect \<Rightarrow> bool" where
  "Region_intersectsRect r rect =
     (if Region_isEmpty r then False
      else if Rect_isEmpty rect then False
      else if m_rects r = [] then Rect_intersects (m_bounds r) rect
      else if \<not> Rect_intersects (m_bounds r) rect then False
      else intersects_loop rect (m_top rect) (drop (bandByY (m_top rect) (m_rects r)) (m_rects r)))"

definition Region_intersects :: "'a::{linorder,zero} region \<Rightarrow> 'a region \<Rightarrow> bool" where
  "Region_intersects r other =
     (if Region_isEmpty r then False
      else if Region_isEmpty other then False
      else if Rect_isEmpty (Rect_intersected (m_bounds r) (m_bounds other)) then False
      else if m_rects r = [] \<and> m_rects other = [] then True
      else list_ex (Region_intersectsRect r) (Region_rects other))"

section \<open>Set operations\<close>

definition computeBounds :: "'a::linorder region \<Rightarrow> 'a region" where
  "computeBounds r =
     (if length (m_rects r) = 1 then r\<lparr>m_bounds := hd (m_rects r), m_rects := []\<rparr>
      else r\<lparr>m_bounds := foldl Rect_united (m_bounds r) (m_rects r)\<rparr>)"

definition Region_united :: "'a::{linorder,zero} region \<Rightarrow> 'a region \<Rightarrow> 'a region" where
  "Region_united r other =
     (if Region_isEmpty r then other
      else if Region_isEmpty other then r
      else if m_rects r = [] \<and> Region_contains other (m_bounds r) then other
      else if m_rects other = [] \<and> Region_contains r (m_bounds other) then r
      else if Region_eq r other then r
      else let result = Region_new\<lparr>m_rects := unite (Region_rects r) (Region_rects other)\<rparr>
           in if length (m_rects result) = 1
              then result\<lparr>m_bounds := hd (m_rects result), m_rects := []\<rparr>
              else result\<lparr>m_bounds := Rect_united (m_bounds r) (m_bounds other)\<rparr>)"

definition Region_subtracted :: "'a::{linorder,zero} region \<Rightarrow> 'a region \<Rightarrow> 'a region" where
  "Region_subtracted r other =
     (if Region_isEmpty r then Region_new
      else if Region_isEmpty other then r
      else if \<not> Rect_intersects (m_bounds r) (m_bounds other) then r
      else if Region_eq r other then Region_new
      else computeBounds (Region_new\<lparr>m_rects := subtract (Region_rects r) (Region_rects other)\<rparr>))"

definition Region_xored :: "'a::{linorder,zero} region \<Rightarrow> 'a region \<Rightarrow> 'a region" where
  "Region_xored r other =
     (if Region_isEmpty r then other
      else if Region_isEmpty other then r
      else if Region_eq r other then Region_new
      else computeBounds (Region_new\<lparr>m_rects := exclusiveOr (Region_rects r) (Region_rects other)\<rparr>))"

definition Region_intersected :: "'a::{linorder,zero} region \<Rightarrow> 'a region \<Rightarrow> 'a region" where
  "Region_intersected r other =
     (if Region_isEmpty r then Region_new
      else if Region_isEmpty other then Region_new
      else let intersectedBounds = Rect_intersected (m_bounds r) (m_bounds other)
           in if Rect_isEmpty intersectedBounds then Region_new
              else if m_rects r = [] \<and> m_rects other = [] then Region_of_Rect intersectedBounds
              else if m_rects r = [] \<and> Rect_contains (m_bounds r) (m_bounds other) then other
              else if m_rects other = [] \<and> Rect_contains (m_bounds other) (m_bounds r) then r
              else computeBounds (Region_new\<lparr>m_rects := intersect (Region_rects r) (Region_rects other)\<rparr>))"

text \<open>The overloads with a rectangle.\<close>

definition Region_unitedRect :: "'a::{linorder,zero} region \<Rightarrow> 'a rect \<Rightarrow> 'a region" where
  "Region_unitedRect r other = Region_united r (Region_of_Rect other)"

definition Region_subtractedRect :: "'a::{linorder,zero} region \<Rightarrow> 'a rect \<Rightarrow> 'a region" where
  "Region_subtractedRect r other = Region_subtracted r (Region_of_Rect other)"

definition Region_xoredRect :: "'a::{linorder,zero} region \<Rightarrow> 'a rect \<Rightarrow> 'a region" where
  "Region_xoredRect r other = Region_xored r (Region_of_Rect other)"

definition Region_intersectedRect :: "'a::{linorder,zero} region \<Rightarrow> 'a rect \<Rightarrow> 'a region" where
  "Region_intersectedRect r other = Region_intersected r (Region_of_Rect other)"

section \<open>Translation\<close>

text \<open>
  \<open>infinite_region\<close> is a parameter: \<open>Region_infinite\<close> for \<open>Region\<close> and the infinite region of \<open>RegionF\<close> there.
\<close>

definition translate_from :: "'a::linordered_idom region \<Rightarrow> 'a \<times> 'a \<Rightarrow> 'a region \<Rightarrow> 'a region" where
  "translate_from infinite_region offset r =
     (if Region_eq r infinite_region then r
      else if Region_isEmpty r then r
      else r\<lparr>m_bounds := Rect_translate offset (m_bounds r),
             m_rects := map (Rect_translate offset) (m_rects r)\<rparr>)"

definition Region_translate :: "int \<times> int \<Rightarrow> int region \<Rightarrow> int region" where
  "Region_translate offset r = translate_from Region_infinite offset r"

definition Region_translated :: "int \<times> int \<Rightarrow> int region \<Rightarrow> int region" where
  "Region_translated offset r =
     (if Region_eq r Region_infinite then r else Region_translate offset r)"

end
