(* ===== verification/RegionSpec.thy ===== *)
theory RegionSpec
  imports Region
begin

text \<open>
  The invariant and the specification of \<open>Region\<close>, and the correctness of its loops. \<open>wf_region\<close> is
  executable: the list is empty, or it has two or more well-formed rectangles and \<open>m_bounds\<close> is what
  \<open>computeBounds\<close> computes for them, which is the least rectangle around the region.
\<close>

definition wf_region :: "'a::{linorder,zero} region \<Rightarrow> bool" where
  "wf_region r \<longleftrightarrow> m_rects r = [] \<or>
     2 \<le> length (m_rects r) \<and> wf_rects (m_rects r) \<and>
     m_bounds r = foldl Rect_united Rect_null (m_rects r)"

definition region_pts :: "'a::linorder region \<Rightarrow> ('a \<times> 'a) set" where
  "region_pts r = (if m_rects r = [] then rect_pts (m_bounds r) else pts (m_rects r))"

section \<open>Least rectangles\<close>

definition least_rect :: "'a::linorder rect \<Rightarrow> ('a \<times> 'a) set \<Rightarrow> bool" where
  "least_rect b P \<longleftrightarrow> P \<noteq> {} \<and> P \<subseteq> rect_pts b \<and> (\<forall>c. P \<subseteq> rect_pts c \<longrightarrow> rect_pts b \<subseteq> rect_pts c)"

lemma rect_pts_subset:
  assumes "\<not> Rect_isEmpty a"
  shows "rect_pts a \<subseteq> rect_pts b \<longleftrightarrow>
    m_left b \<le> m_left a \<and> m_right a \<le> m_right b \<and> m_top b \<le> m_top a \<and> m_bottom a \<le> m_bottom b"
proof
  have a: "m_left a < m_right a" "m_top a < m_bottom a" using assms by (auto simp: Rect_isEmpty_def)
  assume sub: "rect_pts a \<subseteq> rect_pts b"
  have "(m_left a, m_top a) \<in> rect_pts a" using a by (simp add: in_rect_pts)
  then have "(m_left a, m_top a) \<in> rect_pts b" using sub by blast
  then have l: "m_left b \<le> m_left a" "m_top b \<le> m_top a" "m_left a < m_right b" "m_top a < m_bottom b"
    by (simp_all add: in_rect_pts)
  have "\<not> m_right b < m_right a"
  proof
    assume "m_right b < m_right a"
    then have "(m_right b, m_top a) \<in> rect_pts a" using a l by (auto simp: in_rect_pts)
    with sub have "(m_right b, m_top a) \<in> rect_pts b" by blast
    then show False by (simp add: in_rect_pts)
  qed
  moreover have "\<not> m_bottom b < m_bottom a"
  proof
    assume "m_bottom b < m_bottom a"
    then have "(m_left a, m_bottom b) \<in> rect_pts a" using a l by (auto simp: in_rect_pts)
    with sub have "(m_left a, m_bottom b) \<in> rect_pts b" by blast
    then show False by (simp add: in_rect_pts)
  qed
  ultimately show "m_left b \<le> m_left a \<and> m_right a \<le> m_right b \<and> m_top b \<le> m_top a \<and> m_bottom a \<le> m_bottom b"
    using l by (simp add: not_less)
qed (auto simp: rect_pts_def)

lemma rect_pts_inject: "\<not> Rect_isEmpty a \<Longrightarrow> rect_pts a = rect_pts b \<Longrightarrow> a = b"
  using rect_pts_subset [of a b] rect_pts_subset [of b a]
  by (intro rect.equality) (auto simp: Rect_isEmpty_pts intro: order_antisym)

lemma Rect_contains_iff:
  "\<not> Rect_isEmpty s \<Longrightarrow> Rect_contains r s \<longleftrightarrow> rect_pts s \<subseteq> rect_pts r"
  using rect_pts_subset [of s r] by (auto simp: Rect_contains_def Rect_isEmpty_def)

lemma least_rect_unique: "least_rect a P \<Longrightarrow> least_rect b P \<Longrightarrow> a = b"
  unfolding least_rect_def using rect_pts_inject [of a b] Rect_isEmpty_pts [of a]
  by (metis subset_antisym subset_empty)

lemma least_rect_single: "\<not> Rect_isEmpty r \<Longrightarrow> least_rect r (rect_pts r)"
  by (simp add: least_rect_def Rect_isEmpty_pts)

lemma least_rect_nonempty: "least_rect b P \<Longrightarrow> \<not> Rect_isEmpty b"
  by (auto simp: least_rect_def Rect_isEmpty_pts)

lemma Rect_united_least:
  assumes "\<not> Rect_isEmpty a" "\<not> Rect_isEmpty b"
  shows "rect_pts a \<union> rect_pts b \<subseteq> rect_pts (Rect_united a b)"
    and "rect_pts a \<subseteq> rect_pts c \<Longrightarrow> rect_pts b \<subseteq> rect_pts c \<Longrightarrow> rect_pts (Rect_united a b) \<subseteq> rect_pts c"
proof -
  have "\<not> Rect_isEmpty (Rect_united a b)"
    using assms by (auto simp: Rect_united_def Rect_isEmpty_def Rect_corners_def not_le min_less_iff_disj less_max_iff_disj)
  then show "rect_pts a \<subseteq> rect_pts c \<Longrightarrow> rect_pts b \<subseteq> rect_pts c \<Longrightarrow> rect_pts (Rect_united a b) \<subseteq> rect_pts c"
    unfolding rect_pts_subset [OF assms(1)] rect_pts_subset [OF assms(2)]
    using assms by (simp add: rect_pts_subset) (simp add: Rect_united_def Rect_corners_def)
  show "rect_pts a \<union> rect_pts b \<subseteq> rect_pts (Rect_united a b)"
    unfolding Un_subset_iff rect_pts_subset [OF assms(1)] rect_pts_subset [OF assms(2)]
    using assms by (simp add: Rect_united_def Rect_corners_def)
qed

lemma least_rect_union:
  assumes a: "least_rect a P" and b: "least_rect b Q"
  shows "least_rect (Rect_united a b) (P \<union> Q)"
proof -
  note lub = Rect_united_least [OF least_rect_nonempty [OF a] least_rect_nonempty [OF b]]
  show ?thesis
    unfolding least_rect_def
  proof (intro conjI allI impI)
    show "P \<union> Q \<noteq> {}" "P \<union> Q \<subseteq> rect_pts (Rect_united a b)"
      using a b lub(1) by (auto simp: least_rect_def)
    fix c
    assume "P \<union> Q \<subseteq> rect_pts c"
    then show "rect_pts (Rect_united a b) \<subseteq> rect_pts c"
      using a b by (intro lub(2)) (auto simp: least_rect_def)
  qed
qed

lemma least_rect_foldl:
  "least_rect b P \<Longrightarrow> \<forall>r \<in> set rs. \<not> Rect_isEmpty r \<Longrightarrow> least_rect (foldl Rect_united b rs) (P \<union> pts rs)"
proof (induction rs arbitrary: b P)
  case (Cons r rs)
  have "least_rect (Rect_united b r) (P \<union> rect_pts r)"
    using Cons.prems by (intro least_rect_union least_rect_single) auto
  from Cons.IH [OF this] Cons.prems(2) show ?case by (simp add: Un_assoc)
qed simp

lemma wf_rects_isEmpty: "wf_rects rs \<Longrightarrow> r \<in> set rs \<Longrightarrow> \<not> Rect_isEmpty r"
  using wf_rects_nonempty [of rs r] by (auto simp: Rect_isEmpty_def)

lemma least_rect_bounds:
  assumes "rs \<noteq> []" and "wf_rects rs"
  shows "least_rect (foldl Rect_united Rect_null rs) (pts rs)"
proof -
  have ne: "\<forall>r \<in> set rs. \<not> Rect_isEmpty r"
    using wf_rects_nonempty [OF assms(2)] by (fastforce simp: Rect_isEmpty_def)
  obtain r qs where rs: "rs = r # qs" using assms(1) by (cases rs) auto
  have "Rect_united Rect_null r = r" by (simp add: Rect_united_def)
  then show ?thesis
    using least_rect_foldl [of r "rect_pts r" qs] least_rect_single [of r] ne by (simp add: rs)
qed

section \<open>The rectangles of a well-formed region\<close>

lemma region_least:
  assumes "wf_region r" and "\<not> Region_isEmpty r"
  shows "least_rect (m_bounds r) (region_pts r)"
proof (cases "m_rects r = []")
  case True
  then show ?thesis using assms(2) by (simp add: region_pts_def Region_isEmpty_def least_rect_single)
next
  case False
  then show ?thesis using assms(1) least_rect_bounds [OF False] by (simp add: region_pts_def wf_region_def)
qed

lemma region_least_list: "wf_region r \<Longrightarrow> m_rects r \<noteq> [] \<Longrightarrow> least_rect (m_bounds r) (pts (m_rects r))"
  using least_rect_bounds by (auto simp: wf_region_def)

lemma Region_isEmpty_iff: "wf_region r \<Longrightarrow> Region_isEmpty r \<longleftrightarrow> region_pts r = {}"
proof (cases "m_rects r = []")
  case False
  assume "wf_region r"
  then have "least_rect (m_bounds r) (pts (m_rects r))" using False by (rule region_least_list)
  then show ?thesis
    using False least_rect_nonempty by (auto simp: region_pts_def Region_isEmpty_def least_rect_def)
qed (simp add: region_pts_def Region_isEmpty_def Rect_isEmpty_pts)

lemma Region_rects_wf:
  assumes "wf_region r" and "\<not> Region_isEmpty r"
  shows "wf_rects (Region_rects r)" and "Region_rects r \<noteq> []" and "pts (Region_rects r) = region_pts r"
  using assms by (auto simp: Region_rects_def region_pts_def wf_region_def Region_isEmpty_def Rect_isEmpty_def)

lemma region_pts_subset_bounds: "wf_region r \<Longrightarrow> region_pts r \<subseteq> rect_pts (m_bounds r)"
  using region_least [of r] Region_isEmpty_iff [of r] by (auto simp: least_rect_def)

lemma region_pts_single [simp]: "region_pts (Region_of_Rect rect) = rect_pts rect"
  by (simp add: region_pts_def Region_of_Rect_def)

lemma region_pts_new [simp]: "region_pts (Region_new :: 'a::{linorder,zero} region) = {}"
  by (simp add: region_pts_def Region_new_def)

lemma wf_region_single [simp]: "wf_region (Region_of_Rect rect)" "wf_region Region_new"
  by (simp_all add: wf_region_def Region_of_Rect_def Region_new_def)

lemma computeBounds_wf:
  assumes "wf_rects rs"
  shows "wf_region (computeBounds (Region_new\<lparr>m_rects := rs\<rparr>))"
    and "region_pts (computeBounds (Region_new\<lparr>m_rects := rs\<rparr>)) = pts rs"
proof -
  consider "rs = []" | r where "rs = [r]" | "2 \<le> length rs" "rs \<noteq> []"
    by (metis One_nat_def Suc_leI le_SucE length_0_conv length_Suc_conv neq0_conv not_less_eq_eq numeral_2_eq_2)
  then have "wf_region (computeBounds (Region_new\<lparr>m_rects := rs\<rparr>)) \<and>
      region_pts (computeBounds (Region_new\<lparr>m_rects := rs\<rparr>)) = pts rs"
    by cases (use assms in \<open>simp_all add: computeBounds_def wf_region_def region_pts_def Region_new_def\<close>)
  then show "wf_region (computeBounds (Region_new\<lparr>m_rects := rs\<rparr>))"
    "region_pts (computeBounds (Region_new\<lparr>m_rects := rs\<rparr>)) = pts rs" by simp_all
qed

text \<open>Equality of regions as objects is equality of what they cover.\<close>

lemma Region_eq_iff: "Region_eq a b \<longleftrightarrow> a = b"
  by (auto simp: Region_eq_def)

lemma region_eq_pts:
  assumes "wf_region a" and "wf_region b" and "\<not> Region_isEmpty a"
  shows "Region_eq a b \<longleftrightarrow> region_pts a = region_pts b"
proof
  assume eq: "region_pts a = region_pts b"
  then have b: "\<not> Region_isEmpty b" using assms Region_isEmpty_iff by metis
  note A = Region_rects_wf [OF assms(1,3)] and B = Region_rects_wf [OF assms(2) b]
  have rects: "Region_rects a = Region_rects b"
    by (rule wf_rects_unique [OF A(1) B(1)]) (simp only: A(3) B(3) eq)
  have "m_bounds a = m_bounds b"
    using region_least [OF assms(1,3)] region_least [OF assms(2) b] eq by (metis least_rect_unique)
  moreover have "m_rects a = m_rects b"
    using rects assms b by (auto simp: Region_rects_def wf_region_def eq_commute [of "[_]"] split: if_splits)
  ultimately show "Region_eq a b" by (simp add: Region_eq_def)
qed (auto simp: Region_eq_def region_pts_def)

end
