(* ===== verification/RegionTests.thy ===== *)
theory RegionTests
  imports RegionSpec
begin

text \<open>
  The scanning loops of \<open>Region::contains\<close> and \<open>Region::intersects\<close>. Each scan is analysed band by
  band: one lemma says what a scan does with the rectangles of one band, and an induction over the
  bands gives the test on point sets.
\<close>

section \<open>Starting at a band\<close>

lemma contains_loop_bandByY:
  "contains_loop rect y (drop (bandByY y rs) rs) = contains_loop rect y rs"
  by (induction rs) auto

lemma intersects_loop_bandByY:
  "intersects_loop rect y (drop (bandByY y rs) rs) = intersects_loop rect y rs"
  by (induction rs) auto

lemma bandByY_skip:
  "\<forall>r \<in> set pre. m_bottom r \<le> y \<Longrightarrow> rs = [] \<or> y < m_bottom (hd rs) \<Longrightarrow>
   drop (bandByY y (pre @ rs)) (pre @ rs) = rs"
proof (induction pre)
  case Nil
  then show ?case by (cases rs) auto
qed auto

section \<open>Spans and intervals\<close>

definition xrange :: "'a::linorder rect \<Rightarrow> 'a set" where
  "xrange r = {x. m_left r \<le> x \<and> x < m_right r}"

definition yrange_from :: "'a::linorder \<Rightarrow> 'a rect \<Rightarrow> 'a set" where
  "yrange_from y r = {z. y \<le> z \<and> z < m_bottom r}"

lemma span_sorted_separated:
  "span_sorted B \<Longrightarrow> p \<in> set B \<Longrightarrow> q \<in> set B \<Longrightarrow> p \<noteq> q \<Longrightarrow>
   m_right p < m_left q \<or> m_right q < m_left p"
  by (induction B) (auto simp: span_sorted_Cons)

text \<open>An interval is inside a row of separated spans when it is inside one of them.\<close>

lemma interval_in_row:
  assumes "span_sorted B" and "m_left r < m_right r"
  shows "xrange r \<subseteq> row_pts B \<longleftrightarrow> (\<exists>q \<in> set B. m_left q \<le> m_left r \<and> m_right r \<le> m_right q)"
proof
  assume sub: "xrange r \<subseteq> row_pts B"
  have "m_left r \<in> row_pts B" using sub assms(2) by (auto simp: xrange_def)
  then obtain q where q: "q \<in> set B" "m_left q \<le> m_left r" "m_left r < m_right q"
    by (auto simp: row_pts_def)
  have "m_right r \<le> m_right q"
  proof (rule ccontr)
    assume "\<not> m_right r \<le> m_right q"
    then have "m_right q \<in> xrange r" using q(3) by (auto simp: xrange_def)
    then obtain p where p: "p \<in> set B" "m_left p \<le> m_right q" "m_right q < m_right p"
      using sub by (auto simp: row_pts_def)
    have "p \<noteq> q" using p(3) by auto
    then have "m_right p < m_left q \<or> m_right q < m_left p"
      using assms(1) p(1) q(1) by (metis span_sorted_separated)
    moreover have "m_left q < m_right q" using q(2,3) by (rule order_le_less_trans)
    ultimately show False using p(2,3) by - (elim disjE; order)
  qed
  with q show "\<exists>q \<in> set B. m_left q \<le> m_left r \<and> m_right r \<le> m_right q" by blast
qed (auto simp: xrange_def row_pts_def, meson order_trans order_less_le_trans)

lemma pts_rest_iff:
  assumes "wf_bands (B # Bs)"
  shows "(x, y) \<in> pts (concat Bs) \<longleftrightarrow> bbottom B \<le> y \<and> (x, y) \<in> pts (concat (B # Bs))"
  unfolding pts_bands_rest [OF assms] by auto

lemma pts_first_iff:
  assumes "wf_bands (B # Bs)" and "btop B \<le> y" and "y < bbottom B"
  shows "(x, y) \<in> pts (concat (B # Bs)) \<longleftrightarrow> x \<in> row_pts B"
  using pts_bands_row [OF assms] by blast

section \<open>\<open>contains\<close>\<close>

lemma contains_loop_skip:
  "\<forall>q \<in> set B. m_bottom q \<le> scan \<Longrightarrow> contains_loop rect scan (B @ rest) = contains_loop rect scan rest"
  by (induction B) auto

lemma contains_loop_band:
  assumes "\<forall>q \<in> set B. m_top q \<le> scan \<and> m_bottom q = b" and "scan < b" and "span_sorted B"
    and "m_left rect < m_right rect"
  shows "contains_loop rect scan (B @ rest) =
    (if \<exists>q \<in> set B. m_left q \<le> m_left rect \<and> m_right rect \<le> m_right q
     then m_bottom rect \<le> b \<or> contains_loop rect b rest
     else (\<forall>q \<in> set B. m_right q \<le> m_left rect) \<and> contains_loop rect scan rest)"
  using assms
proof (induction B)
  case (Cons q B)
  have IH: "contains_loop rect scan (B @ rest) =
    (if \<exists>q \<in> set B. m_left q \<le> m_left rect \<and> m_right rect \<le> m_right q
     then m_bottom rect \<le> b \<or> contains_loop rect b rest
     else (\<forall>q \<in> set B. m_right q \<le> m_left rect) \<and> contains_loop rect scan rest)"
    using Cons by (simp add: span_sorted_Cons)
  have q: "m_top q \<le> scan" "m_bottom q = b" "m_left q < m_right q" and sep: "\<forall>p \<in> set B. m_right q < m_left p"
    using Cons.prems by (auto simp: span_sorted_Cons)
  then have nb: "\<not> b \<le> scan" "\<not> scan < m_top q" using Cons.prems(2) by auto
  show ?case
  proof (cases "m_right q \<le> m_left rect")
    case True
    then have "\<not> (m_left q \<le> m_left rect \<and> m_right rect \<le> m_right q)" using Cons.prems(4) by auto
    moreover have "contains_loop rect scan ((q # B) @ rest) = contains_loop rect scan (B @ rest)"
      using q(2) nb True by simp
    ultimately show ?thesis unfolding IH using True by auto
  next
    case False
    then have no: "\<not> (\<exists>p \<in> set B. m_left p \<le> m_left rect \<and> m_right rect \<le> m_right p)"
      using sep by (meson le_less_trans less_le_trans not_less order_less_imp_le)
    have "contains_loop rect b (B @ rest) = contains_loop rect b rest"
      using Cons.prems(1) by (intro contains_loop_skip) auto
    then have "contains_loop rect scan ((q # B) @ rest) \<longleftrightarrow>
        m_left q \<le> m_left rect \<and> m_right rect \<le> m_right q \<and> (m_bottom rect \<le> b \<or> contains_loop rect b rest)"
      using q(2) nb False by auto
    then show ?thesis using no False by auto
  qed
qed simp

lemma contains_loop_correct:
  "wf_bands Bs \<Longrightarrow> m_left rect < m_right rect \<Longrightarrow> scan < m_bottom rect \<Longrightarrow>
   contains_loop rect scan (concat Bs) \<longleftrightarrow> xrange rect \<times> yrange_from scan rect \<subseteq> pts (concat Bs)"
proof (induction Bs arbitrary: scan)
  case Nil
  then have "(m_left rect, scan) \<in> xrange rect \<times> yrange_from scan rect"
    by (simp add: xrange_def yrange_from_def)
  then show ?case by auto
next
  case (Cons B Bs)
  note wf = Cons.prems(1)
  have ok: "band_ok B" and wf': "wf_bands Bs" using wf by (simp_all add: wf_bands_Cons)
  note IH = Cons.IH [OF wf' Cons.prems(2)]
  have corner: "(m_left rect, scan) \<in> xrange rect \<times> yrange_from scan rect"
    using Cons.prems by (simp add: xrange_def yrange_from_def)
  consider "bbottom B \<le> scan" | "scan < btop B" | "btop B \<le> scan" "scan < bbottom B" by force
  then show ?case
  proof cases
    case 1
    have "contains_loop rect scan (concat (B # Bs)) = contains_loop rect scan (concat Bs)"
      unfolding concat.simps by (rule contains_loop_skip) (use 1 band_okD [OF ok] in auto)
    moreover have "xrange rect \<times> yrange_from scan rect \<subseteq> pts (concat Bs) \<longleftrightarrow>
        xrange rect \<times> yrange_from scan rect \<subseteq> pts (concat (B # Bs))"
      using 1 by (auto simp: subset_iff pts_rest_iff [OF wf] yrange_from_def simp del: concat.simps)
    ultimately show ?thesis using IH [OF Cons.prems(3)] by blast
  next
    case 2
    obtain q B' where B: "B = q # B'" using band_okD(1) [OF ok] by (cases B) auto
    have "m_top q = btop B" "m_bottom q = bbottom B" using band_okD(4,5) [OF ok, of q] by (simp_all add: B)
    moreover have "\<not> bbottom B \<le> scan" using 2 band_okD(2) [OF ok] by order
    ultimately have "\<not> contains_loop rect scan (concat (B # Bs))"
      using 2 by (simp add: B)
    moreover have "(m_left rect, scan) \<notin> pts (concat (B # Bs))"
      using 2 band_top_pts(2) [OF wf] by (meson leD)
    ultimately show ?thesis using corner by blast
  next
    case 3
    have band: "contains_loop rect scan (concat (B # Bs)) =
        (if \<exists>q \<in> set B. m_left q \<le> m_left rect \<and> m_right rect \<le> m_right q
         then m_bottom rect \<le> bbottom B \<or> contains_loop rect (bbottom B) (concat Bs)
         else (\<forall>q \<in> set B. m_right q \<le> m_left rect) \<and> contains_loop rect scan (concat Bs))"
      unfolding concat.simps
      by (rule contains_loop_band) (use 3 band_okD [OF ok] Cons.prems(2) in auto)
    note cover = interval_in_row [OF band_okD(3) [OF ok] Cons.prems(2)]
    note row = pts_first_iff [OF wf] and rest = pts_rest_iff [OF wf]
    show ?thesis
    proof (cases "xrange rect \<subseteq> row_pts B")
      case True
      have "xrange rect \<times> yrange_from scan rect \<subseteq> pts (concat (B # Bs)) \<longleftrightarrow>
          xrange rect \<times> yrange_from (bbottom B) rect \<subseteq> pts (concat Bs)" (is "?l \<longleftrightarrow> ?r")
      proof
        assume l: ?l
        show ?r using l 3(2) by (fastforce simp: rest yrange_from_def simp del: concat.simps)
      next
        assume r: ?r
        show ?l
        proof (clarify)
          fix x y
          assume x: "x \<in> xrange rect" and y: "y \<in> yrange_from scan rect"
          show "(x, y) \<in> pts (concat (B # Bs))"
          proof (cases "y < bbottom B")
            case True
            then show ?thesis using x y 3(1) \<open>xrange rect \<subseteq> row_pts B\<close> row [of y x]
              by (auto simp: yrange_from_def simp del: concat.simps)
          next
            case False
            then have "(x, y) \<in> pts (concat Bs)" using x y r by (auto simp: yrange_from_def)
            then show ?thesis by (simp add: rest del: concat.simps)
          qed
        qed
      qed
      moreover have "contains_loop rect scan (concat (B # Bs)) \<longleftrightarrow>
          m_bottom rect \<le> bbottom B \<or> contains_loop rect (bbottom B) (concat Bs)"
        using band True cover by simp
      moreover have "m_bottom rect \<le> bbottom B \<Longrightarrow> yrange_from (bbottom B) rect = {}"
        by (auto simp: yrange_from_def)
      ultimately show ?thesis using IH [of "bbottom B"] by (metis Sigma_empty2 empty_subsetI not_less)
    next
      case False
      then obtain x where x: "x \<in> xrange rect" "x \<notin> row_pts B" by blast
      then have "(x, scan) \<notin> pts (concat (B # Bs))" using row [OF 3] by simp
      moreover have "(x, scan) \<in> xrange rect \<times> yrange_from scan rect"
        using x Cons.prems by (simp add: yrange_from_def)
      moreover have "\<not> contains_loop rect scan (concat Bs)"
        unfolding IH [OF Cons.prems(3)] using corner 3(2) rest [of "m_left rect" scan] by auto
      ultimately show ?thesis using band False cover by auto
    qed
  qed
qed

section \<open>\<open>contains\<close> of a point\<close>

lemma containsPoint_loop_band:
  assumes "\<forall>q \<in> set B. m_top q \<le> snd p" and "span_sorted B" and "\<forall>q \<in> set rest. snd p < m_top q"
  shows "containsPoint_loop p (B @ rest) \<longleftrightarrow> fst p \<in> row_pts B"
  using assms
proof (induction B)
  case Nil
  then show ?case by (cases rest) auto
next
  case (Cons q B)
  have IH: "containsPoint_loop p (B @ rest) \<longleftrightarrow> fst p \<in> row_pts B"
    using Cons by (simp add: span_sorted_Cons)
  have q: "\<not> snd p < m_top q" and sep: "\<forall>r \<in> set B. m_right q < m_left r"
    using Cons.prems by (auto simp: span_sorted_Cons)
  show ?case
  proof (cases "m_right q \<le> fst p")
    case True
    then show ?thesis using q IH by auto
  next
    case False
    then have "fst p \<notin> row_pts B" using row_pts_bound [of "fst p" B "m_right q"] sep by auto
    then show ?thesis using q False by auto
  qed
qed

lemma containsPoint_loop_correct:
  assumes wf: "wf_bands Bs"
  shows "containsPoint_loop p (drop (bandByY (snd p) (concat Bs)) (concat Bs)) \<longleftrightarrow> p \<in> pts (concat Bs)"
  using wf
proof (induction Bs)
  case (Cons B Bs)
  note wf = Cons.prems
  have ok: "band_ok B" and wf': "wf_bands Bs" using wf by (simp_all add: wf_bands_Cons)
  obtain x y where p: "p = (x, y)" by (cases p)
  show ?case
  proof (cases "bbottom B \<le> y")
    case True
    have drop: "drop (bandByY y (A @ L)) (A @ L) = drop (bandByY y L) L"
      if "\<forall>r \<in> set A. m_bottom r \<le> y" for A L :: "'a rect list"
      using that by (induction A) auto
    have "(x, y) \<in> pts (concat (B # Bs)) \<longleftrightarrow> (x, y) \<in> pts (concat Bs)"
      using True pts_rest_iff [OF wf] by blast
    moreover have "drop (bandByY y (concat (B # Bs))) (concat (B # Bs)) = drop (bandByY y (concat Bs)) (concat Bs)"
      unfolding concat.simps by (rule drop) (use True band_okD(5) [OF ok] in simp)
    ultimately show ?thesis using Cons.IH [OF wf'] by (simp only: p snd_conv)
  next
    case False
    then have "drop (bandByY y (concat (B # Bs))) (concat (B # Bs)) = B @ concat Bs"
      using bandByY_skip [of "[]" y "concat (B # Bs)"] hd_concat_band [OF wf] by (simp add: bbottom_def)
    moreover have below: "\<forall>q \<in> set (concat Bs). y < m_top q"
    proof
      fix q assume "q \<in> set (concat Bs)"
      then obtain C where C: "C \<in> set Bs" "q \<in> set C" by auto
      then have "bbottom B \<le> m_top q" using wf_bands_below [OF wf C(1)] wf by (auto simp: wf_bands_def band_okD)
      then show "y < m_top q" using False by simp
    qed
    moreover have "containsPoint_loop (x, y) (B @ concat Bs) \<longleftrightarrow> (x, y) \<in> pts (concat (B # Bs))"
    proof (cases "btop B \<le> y")
      case True
      then show ?thesis
        using containsPoint_loop_band [of B "(x, y)" "concat Bs"] below band_okD [OF ok]
          pts_first_iff [OF wf True, of x] False by simp
    next
      case False
      then have "(x, y) \<notin> pts (concat (B # Bs))" using band_top_pts(2) [OF wf] by blast
      moreover have "\<not> containsPoint_loop (x, y) (B @ concat Bs)"
        using False band_okD(1,4) [OF ok] by (cases B) auto
      ultimately show ?thesis by blast
    qed
    ultimately show ?thesis by (simp add: p)
  qed
qed simp

section \<open>\<open>intersects\<close>\<close>

lemma intersects_loop_skip:
  "\<forall>q \<in> set B. m_bottom q \<le> scan \<Longrightarrow> intersects_loop rect scan (B @ rest) = intersects_loop rect scan rest"
  by (induction B) auto

text \<open>A scan line at or below the scan line of the loop, but above the next bands, is the same.\<close>

lemma intersects_loop_scan:
  "\<forall>q \<in> set rs. s < m_bottom q \<and> s' < m_bottom q \<Longrightarrow>
   intersects_loop rect s rs = intersects_loop rect s' rs"
proof (induction rs)
  case (Cons q rs)
  then have "\<not> m_bottom q \<le> s" "\<not> m_bottom q \<le> s'" by auto
  then show ?case using Cons by simp
qed simp

lemma intersects_loop_band:
  assumes "\<forall>q \<in> set B. m_top q < m_bottom rect \<and> m_bottom q = b" and "scan < b" and "span_sorted B"
    and "m_left rect < m_right rect"
    and rest: "\<forall>q \<in> set rest. b < m_bottom q" "m_bottom rect \<le> b \<Longrightarrow> \<forall>q \<in> set rest. m_bottom rect \<le> m_top q"
  shows "intersects_loop rect scan (B @ rest) \<longleftrightarrow>
    xrange rect \<inter> row_pts B \<noteq> {} \<or> intersects_loop rect scan rest"
  using assms(1-4)
proof (induction B)
  case (Cons q B)
  have IH: "intersects_loop rect scan (B @ rest) \<longleftrightarrow>
    xrange rect \<inter> row_pts B \<noteq> {} \<or> intersects_loop rect scan rest"
    using Cons by (simp add: span_sorted_Cons)
  have q: "m_top q < m_bottom rect" "m_bottom q = b" "m_left q < m_right q"
    and sep: "\<forall>p \<in> set B. m_right q < m_left p"
    using Cons.prems by (auto simp: span_sorted_Cons)
  have nb: "\<not> b \<le> scan" "\<not> m_bottom rect \<le> m_top q" using q Cons.prems(2) by auto
  have hit: "xrange rect \<inter> {x. m_left q \<le> x \<and> x < m_right q} \<noteq> {} \<longleftrightarrow>
      \<not> m_right q \<le> m_left rect \<and> \<not> m_right rect \<le> m_left q" (is "?h \<longleftrightarrow> _")
  proof
    assume "\<not> m_right q \<le> m_left rect \<and> \<not> m_right rect \<le> m_left q"
    then have "max (m_left q) (m_left rect) \<in> xrange rect \<inter> {x. m_left q \<le> x \<and> x < m_right q}"
      using q(3) Cons.prems(4) by (auto simp: xrange_def)
    then show ?h by blast
  qed (auto simp: xrange_def)
  show ?case
  proof (cases "m_right q \<le> m_left rect")
    case True
    then have "xrange rect \<inter> row_pts (q # B) = xrange rect \<inter> row_pts B"
      using hit by auto
    then show ?thesis using IH q nb True by simp
  next
    case left: False
    show ?thesis
    proof (cases "m_right rect \<le> m_left q")
      case False
      then show ?thesis using q nb left hit by auto
    next
      case True
      have "xrange rect \<inter> row_pts (q # B) = {}"
      proof -
        have "m_right rect < x" if "x \<in> row_pts B" for x
        proof -
          have "m_right q < x" using row_pts_bound [OF that] sep by blast
          then show ?thesis using True q(3) by order
        qed
        then show ?thesis using hit True by (fastforce simp: xrange_def)
      qed
      moreover have "intersects_loop rect b (B @ rest) = intersects_loop rect b rest"
        using Cons.prems(1) by (intro intersects_loop_skip) auto
      moreover have "intersects_loop rect b rest = intersects_loop rect scan rest"
        using rest(1) Cons.prems(2) by (intro intersects_loop_scan) force
      moreover have "\<not> intersects_loop rect scan rest" if "m_bottom rect \<le> b"
      proof (cases rest)
        case (Cons r rs)
        then have "\<not> m_bottom r \<le> scan" using rest(1) \<open>scan < b\<close> by auto
        then show ?thesis using rest(2) [OF that] Cons by simp
      qed simp
      ultimately show ?thesis using q nb left True by auto
    qed
  qed
qed simp

lemma wf_bands_later:
  assumes "wf_bands (B # Bs)" and "q \<in> set (concat Bs)"
  shows "bbottom B \<le> m_top q" and "bbottom B < m_bottom q"
proof -
  obtain C where C: "C \<in> set Bs" "q \<in> set C" using assms(2) by auto
  have ok: "band_ok C" using C(1) assms(1) by (auto simp: wf_bands_def)
  show "bbottom B \<le> m_top q" using wf_bands_below [OF assms(1) C(1)] band_okD(4) [OF ok C(2)] by simp
  then show "bbottom B < m_bottom q" using band_okD(2) [OF ok] band_okD(4,5) [OF ok C(2)] by simp
qed

lemma intersects_loop_correct:
  "wf_bands Bs \<Longrightarrow> m_left rect < m_right rect \<Longrightarrow> scan < m_bottom rect \<Longrightarrow>
   intersects_loop rect scan (concat Bs) \<longleftrightarrow> (xrange rect \<times> yrange_from scan rect) \<inter> pts (concat Bs) \<noteq> {}"
proof (induction Bs)
  case (Cons B Bs)
  note wf = Cons.prems(1)
  have ok: "band_ok B" and wf': "wf_bands Bs" using wf by (simp_all add: wf_bands_Cons)
  note IH = Cons.IH [OF wf' Cons.prems(2,3)]
  let ?R = "xrange rect \<times> yrange_from scan rect"
  have split: "?R \<inter> pts (concat (B # Bs)) \<noteq> {} \<longleftrightarrow> ?R \<inter> pts B \<noteq> {} \<or> ?R \<inter> pts (concat Bs) \<noteq> {}"
    by auto
  consider "bbottom B \<le> scan" | "scan < bbottom B" "m_bottom rect \<le> btop B"
    | "scan < bbottom B" "btop B < m_bottom rect" by force
  then show ?case
  proof cases
    case 1
    have "intersects_loop rect scan (concat (B # Bs)) = intersects_loop rect scan (concat Bs)"
      unfolding concat.simps by (rule intersects_loop_skip) (use 1 band_okD [OF ok] in auto)
    moreover have "?R \<inter> pts B = {}" using 1 by (auto simp: pts_band_ok [OF ok] yrange_from_def)
    ultimately show ?thesis using IH split by blast
  next
    case 2
    obtain q B' where B: "B = q # B'" using band_okD(1) [OF ok] by (cases B) auto
    have q: "m_top q = btop B" "m_bottom q = bbottom B" using band_okD(4,5) [OF ok, of q] by (simp_all add: B)
    moreover have "\<not> bbottom B \<le> scan" using 2(1) by order
    ultimately have "\<not> intersects_loop rect scan (concat (B # Bs))"
      using 2(2) by (simp add: B)
    moreover have "?R \<inter> pts (concat (B # Bs)) = {}"
    proof -
      have "btop B \<le> y" if "(x, y) \<in> pts (concat (B # Bs))" for x y
        using that by (rule band_top_pts(2) [OF wf])
      then show ?thesis using 2(2) by (fastforce simp: yrange_from_def simp del: concat.simps)
    qed
    ultimately show ?thesis by blast
  next
    case 3
    have "intersects_loop rect scan (concat (B # Bs)) \<longleftrightarrow>
        xrange rect \<inter> row_pts B \<noteq> {} \<or> intersects_loop rect scan (concat Bs)"
      unfolding concat.simps
    proof (rule intersects_loop_band)
      show "m_bottom rect \<le> bbottom B \<Longrightarrow> \<forall>q \<in> set (concat Bs). m_bottom rect \<le> m_top q"
        using wf_bands_later(1) [OF wf] order_trans by blast
    qed (use 3 band_okD [OF ok] Cons.prems(2) wf_bands_later(2) [OF wf] in auto)
    moreover have "?R \<inter> pts B \<noteq> {} \<longleftrightarrow> xrange rect \<inter> row_pts B \<noteq> {}"
    proof
      assume "xrange rect \<inter> row_pts B \<noteq> {}"
      then obtain x where "x \<in> xrange rect" "x \<in> row_pts B" by blast
      moreover have "max (btop B) scan < bbottom B" "max (btop B) scan < m_bottom rect"
        using 3 Cons.prems(3) band_okD(2) [OF ok] by auto
      ultimately have "(x, max (btop B) scan) \<in> ?R \<inter> pts B"
        by (auto simp: pts_band_ok [OF ok] yrange_from_def)
      then show "?R \<inter> pts B \<noteq> {}" by blast
    qed (auto simp: pts_band_ok [OF ok])
    ultimately show ?thesis using IH split by blast
  qed
qed simp

section \<open>The tests of a region\<close>

lemma rect_pts_ranges: "rect_pts r = xrange r \<times> yrange_from (m_top r) r"
  by (auto simp: rect_pts_def xrange_def yrange_from_def)

lemma region_contains_iff:
  assumes wf: "wf_region r"
  shows "Region_contains r rect \<longleftrightarrow> \<not> Rect_isEmpty rect \<and> rect_pts rect \<subseteq> region_pts r"
proof (cases "Region_isEmpty r \<or> Rect_isEmpty rect \<or> m_rects r = []")
  case True
  then show ?thesis
    using Region_isEmpty_iff [OF wf]
    by (auto simp: Region_contains_def Rect_isEmpty_pts Rect_contains_iff region_pts_def split: if_splits)
next
  case False
  then have ne: "m_rects r \<noteq> []" "\<not> Rect_isEmpty rect" and "wf_bands (bands (m_rects r))"
    using wf by (auto simp: wf_region_def wf_rects_def)
  then have loop: "contains_loop rect (m_top rect) (m_rects r) \<longleftrightarrow> rect_pts rect \<subseteq> pts (m_rects r)"
    using contains_loop_correct [of "bands (m_rects r)" rect "m_top rect"]
    by (simp add: rect_pts_ranges Rect_isEmpty_def not_le)
  have "rect_pts rect \<subseteq> pts (m_rects r) \<Longrightarrow> Rect_intersects (m_bounds r) rect"
    using region_pts_subset_bounds [OF wf] ne by (auto simp: Rect_intersects_pts Rect_isEmpty_pts region_pts_def)
  then show ?thesis
    using False loop by (auto simp: Region_contains_def contains_loop_bandByY region_pts_def)
qed

lemma region_containsPoint_iff:
  assumes wf: "wf_region r"
  shows "Region_containsPoint r p \<longleftrightarrow> p \<in> region_pts r"
proof (cases "Region_isEmpty r \<or> m_rects r = []")
  case True
  then show ?thesis
    using Region_isEmpty_iff [OF wf]
    by (auto simp: Region_containsPoint_def Rect_containsPoint_pts region_pts_def split: if_splits)
next
  case False
  then have "wf_bands (bands (m_rects r))" using wf by (auto simp: wf_region_def wf_rects_def)
  then show ?thesis
    using False containsPoint_loop_correct [of "bands (m_rects r)" p]
    by (simp add: Region_containsPoint_def region_pts_def)
qed

lemma region_intersectsRect_iff:
  assumes wf: "wf_region r"
  shows "Region_intersectsRect r rect \<longleftrightarrow> region_pts r \<inter> rect_pts rect \<noteq> {}"
proof (cases "Region_isEmpty r \<or> Rect_isEmpty rect \<or> m_rects r = []")
  case True
  then show ?thesis
    using Region_isEmpty_iff [OF wf]
    by (auto simp: Region_intersectsRect_def Rect_isEmpty_pts Rect_intersects_pts region_pts_def split: if_splits)
next
  case False
  then have ne: "m_rects r \<noteq> []" "\<not> Rect_isEmpty rect" and "wf_bands (bands (m_rects r))"
    using wf by (auto simp: wf_region_def wf_rects_def)
  then have loop: "intersects_loop rect (m_top rect) (m_rects r) \<longleftrightarrow> rect_pts rect \<inter> pts (m_rects r) \<noteq> {}"
    using intersects_loop_correct [of "bands (m_rects r)" rect "m_top rect"]
    by (simp add: rect_pts_ranges Rect_isEmpty_def not_le)
  have "rect_pts rect \<inter> pts (m_rects r) \<noteq> {} \<Longrightarrow> Rect_intersects (m_bounds r) rect"
    using region_pts_subset_bounds [OF wf] ne by (auto simp: Rect_intersects_pts region_pts_def)
  then show ?thesis
    using False loop by (auto simp: Region_intersectsRect_def intersects_loop_bandByY region_pts_def)
qed

lemma region_intersects_iff:
  assumes wf: "wf_region r" "wf_region s"
  shows "Region_intersects r s \<longleftrightarrow> region_pts r \<inter> region_pts s \<noteq> {}"
proof (cases "Region_isEmpty r \<or> Region_isEmpty s")
  case True
  then show ?thesis using wf by (auto simp: Region_intersects_def Region_isEmpty_iff)
next
  case False
  then have "list_ex (Region_intersectsRect r) (Region_rects s) \<longleftrightarrow> region_pts r \<inter> region_pts s \<noteq> {}"
    using wf Region_rects_wf(3) [OF wf(2)]
    by (auto simp: list_ex_iff region_intersectsRect_iff pts_def)
  moreover have "Rect_isEmpty (Rect_intersected (m_bounds r) (m_bounds s)) \<Longrightarrow> region_pts r \<inter> region_pts s = {}"
    using region_pts_subset_bounds [OF wf(1)] region_pts_subset_bounds [OF wf(2)]
    by (auto simp: Rect_isEmpty_pts Rect_intersected_pts)
  ultimately show ?thesis
    using False by (auto simp: Region_intersects_def region_pts_def Rect_isEmpty_pts Rect_intersected_pts split: if_splits)
qed

end
