(* ===== verification/RegionOps.thy ===== *)
theory RegionOps
  imports RegionTests
begin

text \<open>
  The set operations of \<open>Region\<close>, with their fast paths, keep the invariant and compute the set
  operation of their name. The locale \<open>point_algebra\<close> is what a client of \<open>Region\<close> relies on: four
  operations and a test of equality over an abstract set of points; it derives the laws of the
  algebra as equalities of objects, and is interpreted on \<open>Region\<close>.
\<close>

lemma region_united_pts:
  assumes wf: "wf_region r" "wf_region s"
  shows "wf_region (Region_united r s)" and "region_pts (Region_united r s) = region_pts r \<union> region_pts s"
proof -
  let ?rs = "unite (Region_rects r) (Region_rects s)"
  consider "Region_isEmpty r \<or> Region_isEmpty s"
    | "\<not> Region_isEmpty r" "\<not> Region_isEmpty s" "m_rects r = [] \<and> Region_contains s (m_bounds r)"
    | "\<not> Region_isEmpty r" "\<not> Region_isEmpty s" "\<not> (m_rects r = [] \<and> Region_contains s (m_bounds r))"
      "m_rects s = [] \<and> Region_contains r (m_bounds s)"
    | "\<not> Region_isEmpty r" "\<not> Region_isEmpty s" "\<not> (m_rects r = [] \<and> Region_contains s (m_bounds r))"
      "\<not> (m_rects s = [] \<and> Region_contains r (m_bounds s))" "r = s"
    | "\<not> Region_isEmpty r" "\<not> Region_isEmpty s" "\<not> (m_rects r = [] \<and> Region_contains s (m_bounds r))"
      "\<not> (m_rects s = [] \<and> Region_contains r (m_bounds s))" "r \<noteq> s" by blast
  then have "wf_region (Region_united r s) \<and> region_pts (Region_united r s) = region_pts r \<union> region_pts s"
  proof cases
    case 1
    then show ?thesis using wf by (auto simp: Region_united_def Region_isEmpty_iff)
  next
    case 2
    then have "region_pts r \<subseteq> region_pts s" using wf by (simp add: region_contains_iff region_pts_def [of r])
    then show ?thesis using 2 wf by (auto simp: Region_united_def)
  next
    case 3
    then have "region_pts s \<subseteq> region_pts r" using wf by (simp add: region_contains_iff region_pts_def [of s])
    then show ?thesis using 3 wf by (auto simp: Region_united_def)
  next
    case 4
    then show ?thesis using wf by (auto simp: Region_united_def Region_eq_iff)
  next
    case 5
    note R = Region_rects_wf [OF wf(1) 5(1)] and S = Region_rects_wf [OF wf(2) 5(2)]
    have rs: "wf_rects ?rs" "pts ?rs = region_pts r \<union> region_pts s"
      using unite_correct [OF R(1) S(1) R(2) S(2)] R(3) S(3) by simp_all
    have ne: "?rs \<noteq> []" using rs(2) Region_isEmpty_iff [OF wf(1)] 5(1) by auto
    have least: "least_rect (Rect_united (m_bounds r) (m_bounds s)) (pts ?rs)"
      unfolding rs(2) using region_least [OF wf(1) 5(1)] region_least [OF wf(2) 5(2)] by (rule least_rect_union)
    have eq: "Region_united r s =
        (if length ?rs = 1 then \<lparr>m_rects = [], m_bounds = hd ?rs\<rparr>
         else \<lparr>m_rects = ?rs, m_bounds = Rect_united (m_bounds r) (m_bounds s)\<rparr>)"
      using 5 by (auto simp: Region_united_def Region_eq_iff Region_new_def Let_def)
    show ?thesis
    proof (cases "length ?rs = 1")
      case True
      then obtain q where "?rs = [q]" by (metis One_nat_def length_0_conv length_Suc_conv)
      then show ?thesis using eq rs(2) by (simp add: wf_region_def region_pts_def)
    next
      case False
      then have "2 \<le> length ?rs" using ne by (cases ?rs rule: list.exhaust; cases "tl ?rs") auto
      moreover have "Rect_united (m_bounds r) (m_bounds s) = foldl Rect_united Rect_null ?rs"
        using least least_rect_bounds [OF ne rs(1)] by (rule least_rect_unique)
      ultimately show ?thesis using eq False rs ne by (simp add: wf_region_def region_pts_def)
    qed
  qed
  then show "wf_region (Region_united r s)" "region_pts (Region_united r s) = region_pts r \<union> region_pts s"
    by blast+
qed

lemma bounds_disjoint:
  "wf_region r \<Longrightarrow> wf_region s \<Longrightarrow> rect_pts (m_bounds r) \<inter> rect_pts (m_bounds s) = {} \<Longrightarrow>
   region_pts r \<inter> region_pts s = {}"
  using region_pts_subset_bounds [of r] region_pts_subset_bounds [of s] by blast

lemma region_subtracted_pts:
  assumes wf: "wf_region r" "wf_region s"
  shows "wf_region (Region_subtracted r s)"
    and "region_pts (Region_subtracted r s) = region_pts r - region_pts s"
proof -
  let ?rs = "subtract (Region_rects r) (Region_rects s)"
  consider "Region_isEmpty r \<or> Region_isEmpty s"
    | "\<not> Region_isEmpty r" "\<not> Region_isEmpty s" "\<not> Rect_intersects (m_bounds r) (m_bounds s)"
    | "\<not> Region_isEmpty r" "\<not> Region_isEmpty s" "Rect_intersects (m_bounds r) (m_bounds s)" "r = s"
    | "\<not> Region_isEmpty r" "\<not> Region_isEmpty s" "Rect_intersects (m_bounds r) (m_bounds s)" "r \<noteq> s"
    by blast
  then have "wf_region (Region_subtracted r s) \<and>
      region_pts (Region_subtracted r s) = region_pts r - region_pts s"
  proof cases
    case 1
    then show ?thesis using wf by (auto simp: Region_subtracted_def Region_isEmpty_iff)
  next
    case 2
    then show ?thesis
      using wf bounds_disjoint [OF wf] by (auto simp: Region_subtracted_def Rect_intersects_pts)
  next
    case 3
    then show ?thesis using wf by (auto simp: Region_subtracted_def Region_eq_iff)
  next
    case 4
    note R = Region_rects_wf [OF wf(1) 4(1)] and S = Region_rects_wf [OF wf(2) 4(2)]
    show ?thesis
      using subtract_correct [OF R(1) S(1) R(2) S(2)] R(3) S(3) computeBounds_wf [of ?rs] 4
      by (simp add: Region_subtracted_def Region_eq_iff)
  qed
  then show "wf_region (Region_subtracted r s)"
    "region_pts (Region_subtracted r s) = region_pts r - region_pts s" by blast+
qed

lemma region_xored_pts:
  assumes wf: "wf_region r" "wf_region s"
  shows "wf_region (Region_xored r s)"
    and "region_pts (Region_xored r s) = (region_pts r - region_pts s) \<union> (region_pts s - region_pts r)"
proof -
  let ?rs = "exclusiveOr (Region_rects r) (Region_rects s)"
  consider "Region_isEmpty r \<or> Region_isEmpty s"
    | "\<not> Region_isEmpty r" "\<not> Region_isEmpty s" "r = s"
    | "\<not> Region_isEmpty r" "\<not> Region_isEmpty s" "r \<noteq> s"
    by blast
  then have "wf_region (Region_xored r s) \<and>
      region_pts (Region_xored r s) = (region_pts r - region_pts s) \<union> (region_pts s - region_pts r)"
  proof cases
    case 1
    then show ?thesis using wf by (auto simp: Region_xored_def Region_isEmpty_iff)
  next
    case 2
    then show ?thesis using wf by (auto simp: Region_xored_def Region_eq_iff)
  next
    case 3
    note R = Region_rects_wf [OF wf(1) 3(1)] and S = Region_rects_wf [OF wf(2) 3(2)]
    show ?thesis
      using exclusiveOr_correct [OF R(1) S(1) R(2) S(2)] R(3) S(3) computeBounds_wf [of ?rs] 3
      by (simp add: Region_xored_def Region_eq_iff)
  qed
  then show "wf_region (Region_xored r s)"
    "region_pts (Region_xored r s) = (region_pts r - region_pts s) \<union> (region_pts s - region_pts r)"
    by blast+
qed

lemma region_intersected_pts:
  assumes wf: "wf_region r" "wf_region s"
  shows "wf_region (Region_intersected r s)"
    and "region_pts (Region_intersected r s) = region_pts r \<inter> region_pts s"
proof -
  let ?rs = "intersect (Region_rects r) (Region_rects s)"
  let ?b = "Rect_intersected (m_bounds r) (m_bounds s)"
  have sub: "region_pts r \<subseteq> rect_pts (m_bounds r)" "region_pts s \<subseteq> rect_pts (m_bounds s)"
    using region_pts_subset_bounds wf by blast+
  consider "Region_isEmpty r \<or> Region_isEmpty s \<or> Rect_isEmpty ?b"
    | "\<not> Region_isEmpty r" "\<not> Region_isEmpty s" "\<not> Rect_isEmpty ?b" "m_rects r = []" "m_rects s = []"
    | "\<not> Region_isEmpty r" "\<not> Region_isEmpty s" "\<not> Rect_isEmpty ?b" "\<not> (m_rects r = [] \<and> m_rects s = [])"
      "m_rects r = [] \<and> Rect_contains (m_bounds r) (m_bounds s)"
    | "\<not> Region_isEmpty r" "\<not> Region_isEmpty s" "\<not> Rect_isEmpty ?b" "\<not> (m_rects r = [] \<and> m_rects s = [])"
      "\<not> (m_rects r = [] \<and> Rect_contains (m_bounds r) (m_bounds s))"
      "m_rects s = [] \<and> Rect_contains (m_bounds s) (m_bounds r)"
    | "\<not> Region_isEmpty r" "\<not> Region_isEmpty s" "\<not> Rect_isEmpty ?b" "\<not> (m_rects r = [] \<and> m_rects s = [])"
      "\<not> (m_rects r = [] \<and> Rect_contains (m_bounds r) (m_bounds s))"
      "\<not> (m_rects s = [] \<and> Rect_contains (m_bounds s) (m_bounds r))"
    by blast
  then have "wf_region (Region_intersected r s) \<and>
      region_pts (Region_intersected r s) = region_pts r \<inter> region_pts s"
  proof cases
    case 1
    then have "Region_intersected r s = Region_new" by (auto simp: Region_intersected_def Let_def)
    moreover have "region_pts r \<inter> region_pts s = {}"
      using 1 wf sub by (auto simp: Region_isEmpty_iff Rect_isEmpty_pts Rect_intersected_pts)
    ultimately show ?thesis by simp
  next
    case 2
    then have "Region_intersected r s = Region_of_Rect ?b" by (simp add: Region_intersected_def Let_def)
    then show ?thesis using 2 by (simp add: Rect_intersected_pts region_pts_def Region_of_Rect_def wf_region_def)
  next
    case 3
    then have eq: "Region_intersected r s = s" by (simp add: Region_intersected_def Let_def)
    have "region_pts r = rect_pts (m_bounds r)" using 3 by (simp add: region_pts_def)
    moreover have "rect_pts (m_bounds s) \<subseteq> rect_pts (m_bounds r)"
      using 3 by (simp add: Rect_contains_iff Region_isEmpty_def)
    ultimately show ?thesis using eq wf sub by auto
  next
    case 4
    then have eq: "Region_intersected r s = r" by (auto simp: Region_intersected_def Let_def)
    have "region_pts s = rect_pts (m_bounds s)" using 4 by (simp add: region_pts_def)
    moreover have "rect_pts (m_bounds r) \<subseteq> rect_pts (m_bounds s)"
      using 4 by (simp add: Rect_contains_iff Region_isEmpty_def)
    ultimately show ?thesis using eq wf sub by auto
  next
    case 5
    note R = Region_rects_wf [OF wf(1) 5(1)] and S = Region_rects_wf [OF wf(2) 5(2)]
    have "Region_intersected r s = computeBounds (Region_new\<lparr>m_rects := ?rs\<rparr>)"
      using 5 by (auto simp: Region_intersected_def Let_def)
    then show ?thesis
      using intersect_correct [OF R(1) S(1) R(2) S(2)] R(3) S(3) computeBounds_wf [of ?rs] by simp
  qed
  then show "wf_region (Region_intersected r s)"
    "region_pts (Region_intersected r s) = region_pts r \<inter> region_pts s" by blast+
qed

section \<open>The interface of a region\<close>

text \<open>
  \<open>same\<close> is the test of equality of the class; it decides equality of the covered points for every
  region that is not empty (an empty region may carry any empty rectangle as its bounds).
\<close>

locale point_algebra =
  fixes ok :: "'r \<Rightarrow> bool" and points :: "'r \<Rightarrow> 'p set"
    and unite subtract xor intersect :: "'r \<Rightarrow> 'r \<Rightarrow> 'r" and same :: "'r \<Rightarrow> 'r \<Rightarrow> bool"
  assumes unite_law: "ok a \<Longrightarrow> ok b \<Longrightarrow> ok (unite a b) \<and> points (unite a b) = points a \<union> points b"
    and subtract_law: "ok a \<Longrightarrow> ok b \<Longrightarrow> ok (subtract a b) \<and> points (subtract a b) = points a - points b"
    and xor_law: "ok a \<Longrightarrow> ok b \<Longrightarrow>
      ok (xor a b) \<and> points (xor a b) = (points a - points b) \<union> (points b - points a)"
    and intersect_law: "ok a \<Longrightarrow> ok b \<Longrightarrow> ok (intersect a b) \<and> points (intersect a b) = points a \<inter> points b"
    and same_law: "ok a \<Longrightarrow> ok b \<Longrightarrow> points a \<noteq> {} \<Longrightarrow> same a b \<longleftrightarrow> points a = points b"
begin

lemmas laws = unite_law subtract_law xor_law intersect_law

lemma same_from_points:
  "ok a \<Longrightarrow> ok b \<Longrightarrow> points a = points b \<Longrightarrow> points a \<noteq> {} \<Longrightarrow> same a b"
  by (simp add: same_law)

lemma unite_lattice:
  assumes "ok a" "ok b" "ok c" and "points a \<noteq> {}"
  shows "same (unite a b) (unite b a)" and "same (unite (unite a b) c) (unite a (unite b c))"
    and "same (unite a a) a" and "same (unite a (intersect a b)) a" and "same (intersect a (unite a b)) a"
  using assms by (auto simp: laws intro!: same_from_points)

lemma distribute:
  assumes "ok a" "ok b" "ok c" and "points a \<inter> (points b \<union> points c) \<noteq> {}"
  shows "same (intersect a (unite b c)) (unite (intersect a b) (intersect a c))"
  using assms by (auto simp: laws intro!: same_from_points)

lemma xor_as_difference:
  assumes "ok a" "ok b" and "points a \<noteq> points b"
  shows "same (xor a b) (subtract (unite a b) (intersect a b))"
  using assms by (auto simp: laws intro!: same_from_points)

lemma xor_cancel:
  assumes "ok a" "ok b" and "points a \<noteq> {}"
  shows "same (xor (xor a b) b) a"
  using assms by (auto simp: laws intro!: same_from_points)

lemma subtract_subtract:
  assumes "ok a" "ok b" "ok c" and "\<not> points a \<subseteq> points b \<union> points c"
  shows "same (subtract (subtract a b) c) (subtract a (unite b c))"
  using assms by (auto simp: laws intro!: same_from_points)

lemma split_by:
  assumes "ok a" "ok b" and "points a \<noteq> {}"
  shows "same (unite (subtract a b) (intersect a b)) a"
  using assms by (auto simp: laws intro!: same_from_points)

end

interpretation region: point_algebra wf_region region_pts
  Region_united Region_subtracted Region_xored Region_intersected Region_eq
  by unfold_locales
    (simp_all add: region_united_pts region_subtracted_pts region_xored_pts region_intersected_pts
      region_eq_pts Region_isEmpty_iff)

end
