(* ===== verification/RegionBuild.thy ===== *)
theory RegionBuild
  imports RegionOps
begin

text \<open>
  Regions built from lists of rectangles, \<open>src/kde-kwin/src/core/region.cpp\<close>: \<open>fromSortedRects\<close>,
  \<open>fromRectsSortedByY\<close> and \<open>fromUnsortedRects\<close>, and the operations that go through them, \<open>grownBy\<close> and
  \<open>scaledAndRoundedOut\<close>. \<open>assignRectsSortedByY\<close> sweeps over the rectangles with a buffer of those the
  scan line crosses; \<open>index\<close> is modelled by the rectangles not yet reached.
\<close>

section \<open>The sweep with a buffer\<close>

text \<open>\<open>std::ranges::lower_bound\<close> by the left edge, and the insertion there.\<close>

definition insert_by_left :: "'a::linorder rect \<Rightarrow> 'a rect list \<Rightarrow> 'a rect list" where
  "insert_by_left r buffer =
     takeWhile (\<lambda>a. m_left a < m_left r) buffer @ r # dropWhile (\<lambda>a. m_left a < m_left r) buffer"

fun absorb :: "'a::linorder \<Rightarrow> 'a rect list \<Rightarrow> 'a rect list \<Rightarrow> 'a rect list \<times> 'a rect list" where
  "absorb scanline [] buffer = ([], buffer)"
| "absorb scanline (r # rs) buffer =
     (if m_top r = scanline then absorb scanline rs (insert_by_left r buffer) else (r # rs, buffer))"

definition buffer_bottom :: "'a::linorder rect list \<Rightarrow> 'a" where
  "buffer_bottom buffer = foldl (\<lambda>b r. min b (m_bottom r)) (m_bottom (hd buffer)) (tl buffer)"

definition remove_bottom :: "'a \<Rightarrow> 'a rect list \<Rightarrow> 'a rect list" where
  "remove_bottom bottom' buffer = filter (\<lambda>r. m_bottom r \<noteq> bottom') buffer"

lemma foldl_min_le:
  fixes b0 :: "'a::linorder"
  shows "foldl (\<lambda>b r. min b (m_bottom r)) b0 rs \<le> b0 \<and>
   (\<forall>r \<in> set rs. foldl (\<lambda>b r. min b (m_bottom r)) b0 rs \<le> m_bottom r) \<and>
   (foldl (\<lambda>b r. min b (m_bottom r)) b0 rs = b0 \<or> (\<exists>r \<in> set rs. foldl (\<lambda>b r. min b (m_bottom r)) b0 rs = m_bottom r))"
proof (induction rs arbitrary: b0)
  case (Cons r rs)
  obtain F where F: "foldl (\<lambda>b r. min b (m_bottom r)) (min b0 (m_bottom r)) rs = F" by simp
  note ih = Cons.IH [of "min b0 (m_bottom r)", unfolded F]
  have "F \<le> b0" "F \<le> m_bottom r" using ih by (simp_all add: min.bounded_iff)
  moreover have "min b0 (m_bottom r) = b0 \<or> min b0 (m_bottom r) = m_bottom r" by (simp add: min_def)
  ultimately show ?case using ih by (auto simp: F)
qed simp

lemma buffer_bottom_le: "r \<in> set buffer \<Longrightarrow> buffer_bottom buffer \<le> m_bottom r"
  using foldl_min_le [of "m_bottom (hd buffer)" "tl buffer"]
  by (cases buffer) (auto simp: buffer_bottom_def)

lemma buffer_bottom_in: "buffer \<noteq> [] \<Longrightarrow> \<exists>r \<in> set buffer. m_bottom r = buffer_bottom buffer"
  using foldl_min_le [of "m_bottom (hd buffer)" "tl buffer"]
  by (cases buffer) (auto simp: buffer_bottom_def)

lemma length_remove_bottom:
  "buffer \<noteq> [] \<Longrightarrow> length (remove_bottom (buffer_bottom buffer) buffer) < length buffer"
  using buffer_bottom_in [of buffer] by (auto simp: remove_bottom_def intro: length_filter_less)

lemma length_insert_by_left [simp]: "length (insert_by_left r buffer) = Suc (length buffer)"
  unfolding insert_by_left_def
  by (metis (no_types, lifting) add_Suc_right length_Cons length_append takeWhile_dropWhile_id)

lemma length_absorb:
  "absorb s rs buffer = (rs', buffer') \<Longrightarrow> length rs' + length buffer' = length rs + length buffer"
  by (induction s rs buffer arbitrary: rs' buffer' rule: absorb.induct) (auto split: if_splits)

lemma absorb_first: "m_top r = s \<Longrightarrow> absorb s (r # rs) buffer = (rs', buffer') \<Longrightarrow>
  length rs' \<le> length rs \<and> buffer' \<noteq> []"
proof -
  assume r: "m_top r = s" and eq: "absorb s (r # rs) buffer = (rs', buffer')"
  have le: "absorb s qs b = (qs', b') \<Longrightarrow> length qs' \<le> length qs \<and> length b \<le> length b'" for qs b qs' b'
    by (induction s qs b arbitrary: qs' b' rule: absorb.induct) (auto split: if_splits)
  show ?thesis using le [of rs "insert_by_left r buffer" rs' buffer'] r eq by auto
qed

function assign_drain ::
    "'a::linorder \<Rightarrow> 'a rect list \<Rightarrow> 'a rect list \<Rightarrow> bandref \<Rightarrow> 'a rect list" where
  "assign_drain scanline buffer m currentBand =
     (if buffer = [] then m
      else let bottom' = buffer_bottom buffer;
               (m', currentBand') = organizeBand m buffer scanline bottom' currentBand
           in assign_drain bottom' (remove_bottom bottom' buffer) m' currentBand')"
  by pat_completeness auto
termination
  by (relation "measure (\<lambda>(s, buffer, mc). length buffer)") (auto simp: length_remove_bottom)

function assign_loop ::
    "'a::linorder \<Rightarrow> 'a rect list \<Rightarrow> 'a rect list \<Rightarrow> 'a rect list \<Rightarrow> bandref \<Rightarrow> 'a rect list" where
  "assign_loop scanline [] buffer m currentBand = assign_drain scanline buffer m currentBand"
| "assign_loop scanline (r # rs) buffer m currentBand =
     (case (if m_top r = scanline then absorb scanline (r # rs) buffer else (r # rs, buffer)) of
        ([], buffer') \<Rightarrow> assign_drain scanline buffer' m currentBand
      | (q # qs, buffer') \<Rightarrow>
          (let bottom' = buffer_bottom buffer';
               s = min (m_top q) bottom';
               (m', currentBand') = organizeBand m buffer' scanline s currentBand;
               buffer'' = (if s = bottom' then remove_bottom bottom' buffer' else buffer');
               s' = (if s = bottom' \<and> buffer'' = [] then m_top q else s)
           in assign_loop s' (q # qs) buffer'' m' currentBand'))"
  by pat_completeness auto

definition assign_measure :: "'a::linorder \<Rightarrow> 'a rect list \<Rightarrow> 'a rect list \<Rightarrow> nat" where
  "assign_measure scanline rs buffer =
     3 * length rs + 2 * length buffer + (if rs \<noteq> [] \<and> m_top (hd rs) = scanline then 0 else 1)"

lemma assign_measure_step:
  assumes "(if m_top r = scanline then absorb scanline (r # rs) buffer else (r # rs, buffer)) = (q # qs, buffer')"
    and "bottom' = buffer_bottom buffer'" and "s = min (m_top q) bottom'"
    and "buffer'' = (if s = bottom' then remove_bottom bottom' buffer' else buffer')"
    and "s' = (if s = bottom' \<and> buffer'' = [] then m_top q else s)"
  shows "assign_measure s' (q # qs) buffer'' < assign_measure scanline (r # rs) buffer"
proof -
  have start: "3 * length (q # qs) + 2 * length buffer' + 1 \<le> assign_measure scanline (r # rs) buffer"
  proof (cases "m_top r = scanline")
    case True
    then show ?thesis
      using assms(1) length_absorb [of scanline "r # rs" buffer "q # qs" buffer']
        absorb_first [of r scanline rs buffer "q # qs" buffer']
      by (simp add: assign_measure_def)
  next
    case False
    then show ?thesis using assms(1) by (simp add: assign_measure_def)
  qed
  have "assign_measure s' (q # qs) buffer'' < 3 * length (q # qs) + 2 * length buffer' + 1"
  proof (cases "s = bottom' \<and> buffer' \<noteq> []")
    case True
    then have "length buffer'' < length buffer'" using assms(2,4) length_remove_bottom by auto
    then show ?thesis by (simp add: assign_measure_def)
  next
    case False
    then have "s' = m_top q" and "length buffer'' \<le> length buffer'"
      using assms(3-5) by (auto simp: remove_bottom_def min_def split: if_splits)
    then show ?thesis by (simp add: assign_measure_def)
  qed
  with start show ?thesis by simp
qed

termination assign_loop
  by (relation "measure (\<lambda>(s, rs, buffer, mc). assign_measure s rs buffer)")
    (simp, simp only: in_measure split_conv, rule assign_measure_step, erule sym, (rule refl)+)

declare assign_drain.simps [simp del] assign_loop.simps(2) [simp del]

definition assignRectsSortedByY :: "'a::linorder rect list \<Rightarrow> 'a rect list" where
  "assignRectsSortedByY rects = assign_loop (m_top (hd rects)) rects [] [] BandRef_init"


section \<open>Its correctness\<close>

lemma set_insert_by_left [simp]: "set (insert_by_left r buffer) = insert r (set buffer)"
  unfolding insert_by_left_def
  by (metis (no_types, lifting) Un_insert_right list.simps(15) set_append takeWhile_dropWhile_id)

lemma sorted_insert_by_left:
  assumes "sorted (map m_left buffer)"
  shows "sorted (map m_left (insert_by_left r buffer))"
  using assms
proof (induction buffer)
  case (Cons a buffer)
  show ?case
  proof (cases "m_left a < m_left r")
    case True
    then have "insert_by_left r (a # buffer) = a # insert_by_left r buffer" by (simp add: insert_by_left_def)
    then show ?thesis using Cons True by auto
  next
    case False
    then show ?thesis using Cons.prems by (auto simp: insert_by_left_def)
  qed
qed (simp add: insert_by_left_def)

text \<open>What the buffer promises while the scan line stands at \<open>s\<close>.\<close>

definition buffer_ok :: "'a::linorder \<Rightarrow> 'a rect list \<Rightarrow> bool" where
  "buffer_ok s buffer \<longleftrightarrow> sorted (map m_left buffer) \<and>
     (\<forall>r \<in> set buffer. m_left r < m_right r \<and> m_top r \<le> s \<and> s < m_bottom r)"

definition rest_ok :: "'a::linorder \<Rightarrow> 'a rect list \<Rightarrow> bool" where
  "rest_ok s rects \<longleftrightarrow> sorted (map m_top rects) \<and>
     (\<forall>r \<in> set rects. m_left r < m_right r \<and> m_top r < m_bottom r \<and> s \<le> m_top r)"

lemma absorb_ok:
  "absorb s rs buffer = (rs', buffer') \<Longrightarrow> buffer_ok s buffer \<Longrightarrow> rest_ok s rs \<Longrightarrow>
   buffer_ok s buffer' \<and> rest_ok s rs' \<and> (rs' \<noteq> [] \<longrightarrow> s < m_top (hd rs')) \<and>
   set rs' \<union> set buffer' = set rs \<union> set buffer"
proof (induction s rs buffer arbitrary: rs' buffer' rule: absorb.induct)
  case (2 s r rs buffer)
  show ?case
  proof (cases "m_top r = s")
    case True
    have "buffer_ok s (insert_by_left r buffer)" "rest_ok s rs"
      using "2.prems"(2,3) True by (auto simp: buffer_ok_def rest_ok_def sorted_insert_by_left)
    moreover have "absorb s rs (insert_by_left r buffer) = (rs', buffer')" using "2.prems"(1) True by simp
    ultimately show ?thesis using "2.IH" [OF True] by auto
  next
    case False
    then show ?thesis using "2.prems" by (auto simp: rest_ok_def)
  qed
qed auto

lemma buffer_row:
  assumes "buffer_ok s buffer" and "s < s'"
  shows "is_band s s' (organize_row s s' buffer [])" and "row_pts (organize_row s s' buffer []) = row_pts buffer"
  using organize_row_correct [of s s' "[]" buffer] assms
  by (auto simp: buffer_ok_def is_band_row_ok)

lemma pts_buffer_row:
  assumes "buffer_ok s buffer" and "s \<le> z" and "\<forall>r \<in> set buffer. z < m_bottom r"
  shows "(x, z) \<in> pts buffer \<longleftrightarrow> x \<in> row_pts buffer"
  using assms by (fastforce simp: buffer_ok_def pts_def in_rect_pts row_pts_def intro: order_trans)

text \<open>One stop: the buffer is sliced between two positions of the scan line.\<close>

lemma organize_stop:
  assumes inv: "sweep_inv Bs cur s" and ok: "buffer_ok s buffer" and s': "s < s'"
    and bot: "\<forall>r \<in> set buffer. s' \<le> m_bottom r"
  obtains Bs' cur' where "organizeBand (concat Bs) buffer s s' cur = (concat Bs', cur')"
    "sweep_inv Bs' cur' s'"
    "\<And>x z. (x, z) \<in> pts (concat Bs') \<longleftrightarrow>
       (x, z) \<in> pts (concat Bs) \<or> s \<le> z \<and> z < s' \<and> (x, z) \<in> pts buffer"
proof -
  note row = buffer_row [OF ok s']
  obtain Bs' cur' where close: "closeBand (concat Bs) (organize_row s s' buffer []) cur = (concat Bs', cur')"
    "sweep_inv Bs' cur' s'" "pts (concat Bs') = pts (concat Bs) \<union> pts (organize_row s s' buffer [])"
    using closeBand_inv [OF inv order_refl s' row(1)] by metis
  have "(x, z) \<in> pts (organize_row s s' buffer []) \<longleftrightarrow> s \<le> z \<and> z < s' \<and> (x, z) \<in> pts buffer" for x z
  proof (cases "s \<le> z \<and> z < s'")
    case True
    then have "\<forall>r \<in> set buffer. z < m_bottom r" using bot by (meson order_less_le_trans)
    then show ?thesis
      using pts_buffer_row [OF ok] pts_is_band [OF row(1)] row(2) True by blast
  qed (use pts_is_band [OF row(1)] in blast)
  then show ?thesis using close that by (auto simp: organizeBand_def)
qed

lemma remove_bottom_ok:
  assumes ok: "buffer_ok s buffer" and s: "s \<le> s'" and b: "s' = buffer_bottom buffer"
  shows "buffer_ok s' (remove_bottom s' buffer)"
    and "s' \<le> z \<Longrightarrow> (x, z) \<in> pts (remove_bottom s' buffer) \<longleftrightarrow> (x, z) \<in> pts buffer"
proof -
  have "sorted (map m_left (remove_bottom s' buffer))"
    using ok unfolding buffer_ok_def remove_bottom_def by (auto intro: sorted_filter)
  then show "buffer_ok s' (remove_bottom s' buffer)"
    using ok s buffer_bottom_le [of _ buffer] unfolding buffer_ok_def remove_bottom_def b
    by (auto simp: order.strict_iff_order intro: order_trans)
  show "s' \<le> z \<Longrightarrow> (x, z) \<in> pts (remove_bottom s' buffer) \<longleftrightarrow> (x, z) \<in> pts buffer"
    by (auto simp: pts_def remove_bottom_def in_rect_pts)
qed

lemma buffer_bottom_after: "buffer_ok s buffer \<Longrightarrow> buffer \<noteq> [] \<Longrightarrow> s < buffer_bottom buffer"
  using buffer_bottom_in [of buffer] by (auto simp: buffer_ok_def)

lemma assign_drain_correct:
  "sweep_inv Bs cur s \<Longrightarrow> buffer_ok s buffer \<Longrightarrow>
   \<exists>Bs'. assign_drain s buffer (concat Bs) cur = concat Bs' \<and> wf_bands Bs' \<and>
     (\<forall>x z. (x, z) \<in> pts (concat Bs') \<longleftrightarrow> (x, z) \<in> pts (concat Bs) \<or> s \<le> z \<and> (x, z) \<in> pts buffer)"
proof (induction "length buffer" arbitrary: s buffer Bs cur rule: less_induct)
  case less
  show ?case
  proof (cases "buffer = []")
    case True
    then show ?thesis using less.prems by (subst assign_drain.simps) (auto simp: sweep_inv_def)
  next
    case False
    let ?b = "buffer_bottom buffer"
    have s: "s < ?b" using buffer_bottom_after less.prems(2) False by blast
    obtain Bs1 cur1 where step: "organizeBand (concat Bs) buffer s ?b cur = (concat Bs1, cur1)"
      "sweep_inv Bs1 cur1 ?b"
      and pts1: "\<And>x z. (x, z) \<in> pts (concat Bs1) \<longleftrightarrow>
         (x, z) \<in> pts (concat Bs) \<or> s \<le> z \<and> z < ?b \<and> (x, z) \<in> pts buffer"
      using organize_stop [OF less.prems s] buffer_bottom_le by metis
    note rem = remove_bottom_ok [OF less.prems(2) order.strict_implies_order [OF s] refl]
    obtain Bs2 where res: "assign_drain ?b (remove_bottom ?b buffer) (concat Bs1) cur1 = concat Bs2" "wf_bands Bs2"
      and pts2: "\<And>x z. (x, z) \<in> pts (concat Bs2) \<longleftrightarrow>
         (x, z) \<in> pts (concat Bs1) \<or> ?b \<le> z \<and> (x, z) \<in> pts (remove_bottom ?b buffer)"
      using less.hyps [OF length_remove_bottom [OF False] step(2) rem(1)] by metis
    have "(x, z) \<in> pts (concat Bs2) \<longleftrightarrow> (x, z) \<in> pts (concat Bs) \<or> s \<le> z \<and> (x, z) \<in> pts buffer" for x z
      using pts1 pts2 rem(2) s by (cases "z < ?b") auto
    moreover have "assign_drain s buffer (concat Bs) cur = concat Bs2"
      using step(1) res(1) False by (subst assign_drain.simps) simp
    ultimately show ?thesis using res(2) by blast
  qed
qed

lemma pts_set: "set as \<union> set bs = set cs \<union> set ds \<Longrightarrow> pts as \<union> pts bs = pts cs \<union> pts ds"
  unfolding pts_def by (metis UN_Un)

text \<open>The rectangles that are active at a stop, and those that are still ahead.\<close>

lemma assign_active:
  assumes eq: "(if m_top r = s then absorb s (r # rs) buffer else (r # rs, buffer)) = (rs', buffer')"
    and ok: "buffer_ok s buffer" "rest_ok s (r # rs)" and first: "buffer = [] \<longrightarrow> m_top r = s"
  shows "buffer_ok s buffer'" "rest_ok s rs'" "rs' \<noteq> [] \<Longrightarrow> s < m_top (hd rs')" "buffer' \<noteq> []"
    and "pts rs' \<union> pts buffer' = pts (r # rs) \<union> pts buffer"
proof -
  have "buffer_ok s buffer' \<and> rest_ok s rs' \<and> (rs' \<noteq> [] \<longrightarrow> s < m_top (hd rs')) \<and> buffer' \<noteq> [] \<and>
      set rs' \<union> set buffer' = set (r # rs) \<union> set buffer"
  proof (cases "m_top r = s")
    case True
    then have eq': "absorb s (r # rs) buffer = (rs', buffer')" using eq by (simp only: if_True refl)
    show ?thesis using absorb_ok [OF eq' ok] absorb_first [OF True eq'] by blast
  next
    case False
    then have "rs' = r # rs" "buffer' = buffer" using eq by simp_all
    then show ?thesis using ok first False by (auto simp: rest_ok_def)
  qed
  then show "buffer_ok s buffer'" "rest_ok s rs'" "rs' \<noteq> [] \<Longrightarrow> s < m_top (hd rs')" "buffer' \<noteq> []"
    "pts rs' \<union> pts buffer' = pts (r # rs) \<union> pts buffer"
    using pts_set by blast+
qed

lemma rest_pts_above: "rest_ok s (q # qs) \<Longrightarrow> (x, z) \<in> pts (q # qs) \<Longrightarrow> m_top q \<le> z"
  by (auto simp: rest_ok_def pts_def in_rect_pts intro: order_trans)

text \<open>The state after a stop.\<close>

lemma assign_next:
  assumes ok: "buffer_ok s buffer" "rest_ok s (q # qs)" and ne: "buffer \<noteq> []" and q: "s < m_top q"
    and "b = buffer_bottom buffer" and "s2 = min (m_top q) b"
    and "buffer2 = (if s2 = b then remove_bottom b buffer else buffer)"
    and "s3 = (if s2 = b \<and> buffer2 = [] then m_top q else s2)"
  shows "s < s2" "s2 \<le> s3" "\<forall>r \<in> set buffer. s2 \<le> m_bottom r" "buffer_ok s3 buffer2" "rest_ok s3 (q # qs)"
    and "buffer2 = [] \<Longrightarrow> m_top q = s3"
    and "s2 \<le> z \<Longrightarrow> (x, z) \<in> pts buffer \<longleftrightarrow> (x, z) \<in> pts buffer2"
proof -
  have b: "s < b" using buffer_bottom_after [OF ok(1) ne] assms(5) by simp
  then show s2: "s < s2" using q assms(6) by simp
  have le: "s2 \<le> m_top q" "s2 \<le> b" using assms(6) by simp_all
  then show s3: "s2 \<le> s3" using assms(8) by auto
  show bots: "\<forall>r \<in> set buffer. s2 \<le> m_bottom r"
    using buffer_bottom_le [of _ buffer] le(2) assms(5) by (metis order_trans)
  note rem = remove_bottom_ok [OF ok(1) order.strict_implies_order [OF b] assms(5)]
  have ok2: "buffer_ok s2 buffer2"
  proof (cases "s2 = b")
    case True
    then show ?thesis using rem(1) assms(7) by simp
  next
    case False
    then have "\<forall>r \<in> set buffer. s2 < m_bottom r"
      using buffer_bottom_le [of _ buffer] le(2) assms(5) by (metis order.strict_iff_order order_less_le_trans)
    then show ?thesis using ok(1) s2 False assms(7) by (auto simp: buffer_ok_def intro: order_trans)
  qed
  then show "buffer_ok s3 buffer2" using assms(8) by (auto simp: buffer_ok_def)
  have "s3 \<le> m_top q" using assms(8) le by (simp split: if_splits)
  then show "rest_ok s3 (q # qs)" using ok(2) by (auto simp: rest_ok_def intro: order_trans)
  show "buffer2 = [] \<Longrightarrow> m_top q = s3" using assms(7,8) ne by (simp split: if_splits)
  show "s2 \<le> z \<Longrightarrow> (x, z) \<in> pts buffer \<longleftrightarrow> (x, z) \<in> pts buffer2"
    using rem(2) assms(7) by simp
qed

lemma assign_loop_step:
  assumes eq: "(if m_top r = s then absorb s (r # rs) buffer else (r # rs, buffer)) = (q # qs, buffer')"
    and b: "b = buffer_bottom buffer'" and s2: "s2 = min (m_top q) b"
    and buffer2: "buffer2 = (if s2 = b then remove_bottom b buffer' else buffer')"
    and s3: "s3 = (if s2 = b \<and> buffer2 = [] then m_top q else s2)"
    and stop: "organizeBand m buffer' s s2 cur = (m', cur')"
  shows "assign_loop s (r # rs) buffer m cur = assign_loop s3 (q # qs) buffer2 m' cur'"
  by (subst assign_loop.simps(2), subst eq)
    (simp only: prod.case list.case Let_def b [symmetric] s2 [symmetric] stop buffer2 [symmetric] s3 [symmetric])

lemma assign_loop_correct:
  "sweep_inv Bs cur s \<Longrightarrow> buffer_ok s buffer \<Longrightarrow> rest_ok s rs \<Longrightarrow>
   (rs \<noteq> [] \<Longrightarrow> buffer = [] \<Longrightarrow> m_top (hd rs) = s) \<Longrightarrow>
   \<exists>Bs'. assign_loop s rs buffer (concat Bs) cur = concat Bs' \<and> wf_bands Bs' \<and>
     (\<forall>x z. (x, z) \<in> pts (concat Bs') \<longleftrightarrow>
        (x, z) \<in> pts (concat Bs) \<or> s \<le> z \<and> (x, z) \<in> pts rs \<union> pts buffer)"
proof (induction "assign_measure s rs buffer" arbitrary: s rs buffer Bs cur rule: less_induct)
  case less
  show ?case
  proof (cases rs)
    case Nil
    then show ?thesis using assign_drain_correct [OF less.prems(1,2)] by simp
  next
    case (Cons r rs0)
    obtain rs1 buffer1 where
      eq: "(if m_top r = s then absorb s (r # rs0) buffer else (r # rs0, buffer)) = (rs1, buffer1)"
      by (metis surj_pair)
    have rest0: "rest_ok s (r # rs0)" and first: "buffer = [] \<longrightarrow> m_top r = s"
      using less.prems(3,4) Cons by simp_all
    note act = assign_active [OF eq less.prems(2) rest0 first]
    show ?thesis
    proof (cases rs1)
      case Nil
      then have "assign_loop s rs buffer (concat Bs) cur = assign_drain s buffer1 (concat Bs) cur"
        unfolding Cons by (subst assign_loop.simps(2), subst eq) simp
      then show ?thesis
        using assign_drain_correct [OF less.prems(1) act(1)] act(5) Nil Cons by simp
    next
      case rs1: (Cons q qs)
      define b where "b = buffer_bottom buffer1"
      define s2 where "s2 = min (m_top q) b"
      define buffer2 where "buffer2 = (if s2 = b then remove_bottom b buffer1 else buffer1)"
      define s3 where "s3 = (if s2 = b \<and> buffer2 = [] then m_top q else s2)"
      have q: "s < m_top q" using act(3) rs1 by simp
      note nxt = assign_next [OF act(1) act(2) [unfolded rs1] act(4) q b_def s2_def buffer2_def s3_def]
      have less_measure: "assign_measure s3 (q # qs) buffer2 < assign_measure s rs buffer"
        unfolding Cons by (rule assign_measure_step [OF eq [unfolded rs1] b_def s2_def buffer2_def s3_def])
      obtain Bs1 cur1 where stop: "organizeBand (concat Bs) buffer1 s s2 cur = (concat Bs1, cur1)"
        "sweep_inv Bs1 cur1 s2"
        and pts1: "\<And>x z. (x, z) \<in> pts (concat Bs1) \<longleftrightarrow>
           (x, z) \<in> pts (concat Bs) \<or> s \<le> z \<and> z < s2 \<and> (x, z) \<in> pts buffer1"
        using organize_stop [OF less.prems(1) act(1) nxt(1,3)] by metis
      obtain Bs2 where res: "assign_loop s3 (q # qs) buffer2 (concat Bs1) cur1 = concat Bs2" "wf_bands Bs2"
        and pts2: "\<And>x z. (x, z) \<in> pts (concat Bs2) \<longleftrightarrow>
           (x, z) \<in> pts (concat Bs1) \<or> s3 \<le> z \<and> (x, z) \<in> pts (q # qs) \<union> pts buffer2"
        using less.hyps [OF less_measure sweep_inv_mono [OF stop(2) nxt(2)] nxt(4,5)] nxt(6) by auto
      have "assign_loop s rs buffer (concat Bs) cur = concat Bs2"
        unfolding Cons
        by (rule trans [OF assign_loop_step res(1)]; (rule b_def s2_def buffer2_def s3_def stop(1))?)
          (use eq rs1 in simp)
      moreover have "(x, z) \<in> pts (concat Bs2) \<longleftrightarrow>
          (x, z) \<in> pts (concat Bs) \<or> s \<le> z \<and> (x, z) \<in> pts rs \<union> pts buffer" for x z
      proof -
        have both: "(x, z) \<in> pts rs \<union> pts buffer \<longleftrightarrow> (x, z) \<in> pts (q # qs) \<union> pts buffer1"
          using act(5) unfolding rs1 Cons by blast
        have above: "(x, z) \<in> pts (q # qs) \<Longrightarrow> s3 \<le> z"
          using rest_pts_above [OF nxt(5)] nxt(5) by (fastforce simp: rest_ok_def)
        have empty: "\<not> s3 \<le> z \<Longrightarrow> s2 \<le> z \<Longrightarrow> buffer2 = []"
          by (auto simp: s3_def split: if_splits)
        show ?thesis
        proof (cases "s2 \<le> z")
          case True
          then show ?thesis
            unfolding pts2 pts1 both using nxt(1,2) nxt(7) [OF True] above empty by auto
        next
          case False
          then show ?thesis
            unfolding pts2 pts1 both using nxt(1,2) above by auto
        qed
      qed
      ultimately show ?thesis using res(2) by blast
    qed
  qed
qed

lemma assignRectsSortedByY_correct:
  assumes "rects \<noteq> []" and "sorted (map m_top rects)" and "\<forall>r \<in> set rects. \<not> Rect_isEmpty r"
  shows "wf_rects (assignRectsSortedByY rects)" and "pts (assignRectsSortedByY rects) = pts rects"
proof -
  let ?s = "m_top (hd rects)"
  have top: "?s \<le> m_top r" if "r \<in> set rects" for r
    using assms(1,2) that by (cases rects) auto
  have "rest_ok ?s rects"
    using assms(2,3) top by (auto simp: rest_ok_def Rect_isEmpty_def not_le)
  then obtain Bs where Bs: "assignRectsSortedByY rects = concat Bs" "wf_bands Bs"
    "\<And>x z. (x, z) \<in> pts (concat Bs) \<longleftrightarrow> ?s \<le> z \<and> (x, z) \<in> pts rects"
    using assign_loop_correct [OF sweep_inv_init, of ?s "[]" rects]
    by (auto simp: assignRectsSortedByY_def buffer_ok_def)
  show "wf_rects (assignRectsSortedByY rects)" using Bs by (simp add: wf_rects_concat)
  have "(x, z) \<in> pts rects \<Longrightarrow> ?s \<le> z" for x z
    using top by (auto simp: pts_def in_rect_pts intro: order_trans)
  then show "pts (assignRectsSortedByY rects) = pts rects" unfolding Bs(1) using Bs(3) by auto
qed

section \<open>The constructors\<close>

definition fromSortedRects :: "'a::{linorder,zero} rect list \<Rightarrow> 'a region" where
  "fromSortedRects rects =
     (if rects = [] then Region_new
      else if length rects = 1 then Region_of_Rect (rects ! 0)
      else computeBounds (Region_new\<lparr>m_rects := rects\<rparr>))"

definition fromRectsSortedByY :: "'a::{linorder,zero} rect list \<Rightarrow> 'a region" where
  "fromRectsSortedByY rects =
     (if rects = [] then Region_new
      else if length rects = 1 then Region_of_Rect (hd rects)
      else computeBounds (Region_new\<lparr>m_rects := assignRectsSortedByY rects\<rparr>))"

text \<open>
  \<open>std::ranges::sort\<close> promises a permutation sorted by the top edge, in no particular order among equal
  tops; \<open>sort_key\<close> is one such permutation, and \<open>fromRectsSortedByY_perm\<close> shows that the choice does
  not matter.
\<close>

definition fromUnsortedRects :: "'a::{linorder,zero} rect list \<Rightarrow> 'a region" where
  "fromUnsortedRects rects =
     (if rects = [] then Region_new
      else if length rects = 1 then Region_of_Rect (rects ! 0)
      else fromRectsSortedByY (sort_key m_top rects))"

lemma fromSortedRects_pts:
  assumes "wf_rects rects"
  shows "wf_region (fromSortedRects rects)" and "region_pts (fromSortedRects rects) = pts rects"
proof -
  have "wf_region (fromSortedRects rects) \<and> region_pts (fromSortedRects rects) = pts rects"
  proof (cases "rects = [] \<or> length rects = 1")
    case True
    then show ?thesis by (cases rects) (auto simp: fromSortedRects_def)
  next
    case False
    then show ?thesis using computeBounds_wf [OF assms] by (auto simp: fromSortedRects_def)
  qed
  then show "wf_region (fromSortedRects rects)" "region_pts (fromSortedRects rects) = pts rects" by blast+
qed

lemma fromRectsSortedByY_pts:
  assumes "sorted (map m_top rects)" and "\<forall>r \<in> set rects. \<not> Rect_isEmpty r"
  shows "wf_region (fromRectsSortedByY rects)" and "region_pts (fromRectsSortedByY rects) = pts rects"
proof -
  have "wf_region (fromRectsSortedByY rects) \<and> region_pts (fromRectsSortedByY rects) = pts rects"
  proof (cases "rects = [] \<or> length rects = 1")
    case True
    then show ?thesis by (cases rects) (auto simp: fromRectsSortedByY_def)
  next
    case False
    then show ?thesis
      using assignRectsSortedByY_correct [OF _ assms] computeBounds_wf [of "assignRectsSortedByY rects"]
      by (auto simp: fromRectsSortedByY_def)
  qed
  then show "wf_region (fromRectsSortedByY rects)" "region_pts (fromRectsSortedByY rects) = pts rects" by blast+
qed

lemma fromUnsortedRects_pts:
  assumes "\<forall>r \<in> set rects. \<not> Rect_isEmpty r"
  shows "wf_region (fromUnsortedRects rects)" and "region_pts (fromUnsortedRects rects) = pts rects"
proof -
  have "wf_region (fromUnsortedRects rects) \<and> region_pts (fromUnsortedRects rects) = pts rects"
  proof (cases "rects = [] \<or> length rects = 1")
    case True
    then show ?thesis by (cases rects) (auto simp: fromUnsortedRects_def)
  next
    case False
    then show ?thesis
      using fromRectsSortedByY_pts [of "sort_key m_top rects"] assms
      by (auto simp: fromUnsortedRects_def pts_def)
  qed
  then show "wf_region (fromUnsortedRects rects)" "region_pts (fromUnsortedRects rects) = pts rects" by blast+
qed

end
