(* ===== verification/RegionMap.thy ===== *)
theory RegionMap
  imports RegionBuild
begin

text \<open>
  The operations that move the edges of every rectangle, \<open>src/kde-kwin/src/core/region.cpp\<close>:
  \<open>translate\<close>, \<open>grownBy\<close>, \<open>scaled\<close>, \<open>scaledAndRoundedOut\<close> of \<open>Region\<close>, and \<open>scale\<close>, \<open>rounded\<close>,
  \<open>roundedIn\<close>, \<open>roundedOut\<close> of \<open>RegionF\<close>. A strictly monotone map of the coordinates keeps the
  invariant (\<open>wf_region_map\<close>); the rounding operations are not strict and go through the constructors
  of \<open>RegionBuild\<close>. \<open>qreal\<close> is modelled by \<open>real\<close>: what is proved of scaling does not account for
  floating-point rounding.
\<close>

section \<open>Definitions\<close>

definition Region_grownBy :: "'a::linordered_idom margins \<Rightarrow> 'a region \<Rightarrow> 'a region" where
  "Region_grownBy margins r =
     (if m_rects r = [] then Region_of_Rect (Rect_grownBy margins (m_bounds r))
      else \<lparr>m_rects = assignRectsSortedByY (map (Rect_grownBy margins) (m_rects r)),
            m_bounds = Rect_grownBy margins (m_bounds r)\<rparr>)"

text \<open>\<open>std::numeric_limits<qreal>::max()\<close>; \<open>lowest()\<close> is its negation.\<close>

definition qreal_max :: real where
  "qreal_max = (2 - 1 / 2 ^ 52) * 2 ^ 1023"

definition RegionF_infinite :: "real region" where
  "RegionF_infinite = Region_make (- qreal_max / 2) (- qreal_max / 2) qreal_max qreal_max"

definition RegionF_of_Region :: "int region \<Rightarrow> real region" where
  "RegionF_of_Region region =
     \<lparr>m_rects = (if length (Region_rects region) > 1 then map RectF_of_Rect (Region_rects region) else []),
      m_bounds = RectF_of_Rect (Region_boundingRect region)\<rparr>"

definition Region_scaled :: "real \<Rightarrow> real \<Rightarrow> int region \<Rightarrow> real region" where
  "Region_scaled xScale yScale r =
     (if Region_eq r Region_infinite then RegionF_infinite
      else if Region_isEmpty r then Region_new
      else if m_rects r = [] then Region_of_Rect (Rect_scaled xScale yScale (m_bounds r))
      else if xScale = 1 \<and> yScale = 1 then RegionF_of_Region r
      else \<lparr>m_rects = map (Rect_scaled xScale yScale) (m_rects r),
            m_bounds = Rect_scaled xScale yScale (m_bounds r)\<rparr>)"

definition Region_scaledAndRoundedOut :: "real \<Rightarrow> real \<Rightarrow> int region \<Rightarrow> int region" where
  "Region_scaledAndRoundedOut xScale yScale r =
     (if Region_eq r Region_infinite then r
      else if Region_isEmpty r then Region_new
      else if m_rects r = [] then Region_of_Rect (RectF_roundedOut (Rect_scaled xScale yScale (m_bounds r)))
      else if xScale = 1 \<and> yScale = 1 then r
      else \<lparr>m_rects = assignRectsSortedByY
              (map (\<lambda>rect. RectF_roundedOut (Rect_scaled xScale yScale rect)) (m_rects r)),
            m_bounds = RectF_roundedOut (Rect_scaled xScale yScale (m_bounds r))\<rparr>)"

definition RegionF_translate :: "real \<times> real \<Rightarrow> real region \<Rightarrow> real region" where
  "RegionF_translate offset r = translate_from RegionF_infinite offset r"

definition RegionF_translated :: "real \<times> real \<Rightarrow> real region \<Rightarrow> real region" where
  "RegionF_translated offset r =
     (if Region_eq r RegionF_infinite then r else RegionF_translate offset r)"

definition RegionF_scale :: "real \<Rightarrow> real \<Rightarrow> real region \<Rightarrow> real region" where
  "RegionF_scale xScale yScale r =
     (if Region_eq r RegionF_infinite then r
      else if Region_isEmpty r then r
      else if xScale = 1 \<and> yScale = 1 then r
      else r\<lparr>m_bounds := RectF_scaled xScale yScale (m_bounds r),
             m_rects := map (RectF_scaled xScale yScale) (m_rects r)\<rparr>)"

definition RegionF_scaled :: "real \<Rightarrow> real \<Rightarrow> real region \<Rightarrow> real region" where
  "RegionF_scaled xScale yScale r =
     (if Region_eq r RegionF_infinite then r else RegionF_scale xScale yScale r)"

definition RegionF_rounded :: "real region \<Rightarrow> int region" where
  "RegionF_rounded r =
     (if Region_isEmpty r then Region_new
      else if m_rects r = [] then Region_of_Rect (RectF_rounded (m_bounds r))
      else fromSortedRects (filter (\<lambda>rounded. \<not> Rect_isEmpty rounded) (map RectF_rounded (m_rects r))))"

definition RegionF_roundedIn :: "real region \<Rightarrow> int region" where
  "RegionF_roundedIn r =
     (if Region_isEmpty r then Region_new
      else if m_rects r = [] then Region_of_Rect (RectF_roundedIn (m_bounds r))
      else fromSortedRects (filter (\<lambda>rounded. \<not> Rect_isEmpty rounded) (map RectF_roundedIn (m_rects r))))"

definition RegionF_roundedOut :: "real region \<Rightarrow> int region" where
  "RegionF_roundedOut r =
     (if Region_isEmpty r then Region_new
      else if m_rects r = [] then Region_of_Rect (RectF_roundedOut (m_bounds r))
      else fromRectsSortedByY (map RectF_roundedOut (m_rects r)))"

section \<open>Strictly monotone maps of the coordinates\<close>

definition map_rect :: "('a \<Rightarrow> 'b) \<Rightarrow> ('a \<Rightarrow> 'b) \<Rightarrow> 'a rect \<Rightarrow> 'b rect" where
  "map_rect f g r = \<lparr>m_left = f (m_left r), m_top = g (m_top r), m_right = f (m_right r), m_bottom = g (m_bottom r)\<rparr>"

lemma map_rect_simps [simp]:
  "m_left (map_rect f g r) = f (m_left r)" "m_top (map_rect f g r) = g (m_top r)"
  "m_right (map_rect f g r) = f (m_right r)" "m_bottom (map_rect f g r) = g (m_bottom r)"
  by (simp_all add: map_rect_def)

locale strict_coordinates =
  fixes f g :: "'a::linorder \<Rightarrow> 'b::linorder"
  assumes f_less: "f a < f b \<longleftrightarrow> a < b" and g_less: "g a < g b \<longleftrightarrow> a < b"
begin

lemma f_le [simp]: "f a \<le> f b \<longleftrightarrow> a \<le> b"
  using f_less [of b a] by (simp add: not_less [symmetric])

lemma g_le [simp]: "g a \<le> g b \<longleftrightarrow> a \<le> b"
  using g_less [of b a] by (simp add: not_less [symmetric])

lemma f_inj [simp]: "f a = f b \<longleftrightarrow> a = b"
  by (metis f_le order_antisym order_refl)

lemma g_inj [simp]: "g a = g b \<longleftrightarrow> a = b"
  by (metis g_le order_antisym order_refl)

declare f_less [simp] g_less [simp]

abbreviation mr :: "'a rect \<Rightarrow> 'b rect" where
  "mr \<equiv> map_rect f g"

lemma map_rect_isEmpty [simp]: "Rect_isEmpty (mr r) \<longleftrightarrow> Rect_isEmpty r"
  by (simp add: Rect_isEmpty_def)

lemma in_map_rect [simp]: "(f x, g y) \<in> rect_pts (mr r) \<longleftrightarrow> (x, y) \<in> rect_pts r"
  by (simp add: in_rect_pts)

lemma in_map_rects: "(f x, g y) \<in> pts (map mr rs) \<longleftrightarrow> (x, y) \<in> pts rs"
  by (simp add: pts_def)

lemma span_sorted_map: "span_sorted L \<Longrightarrow> span_sorted (map mr L)"
  by (simp add: span_sorted_def sorted_wrt_map)

lemma spans_map: "spans (map mr A) = map (\<lambda>(l, r). (f l, f r)) (spans A)"
  by (simp add: spans_def)

lemma spans_map_eq: "spans (map mr A) = spans (map mr B) \<longleftrightarrow> spans A = spans B"
proof -
  have "inj (\<lambda>(l, r). (f l, f r))" by (auto simp: inj_def)
  then show ?thesis unfolding spans_map by (metis inj_map_eq_map)
qed

lemma map_band:
  assumes ok: "band_ok B"
  shows "band_ok (map mr B)" and "btop (map mr B) = g (btop B)" and "bbottom (map mr B) = g (bbottom B)"
proof -
  have "is_band (g (btop B)) (g (bbottom B)) (map mr B)"
    using span_sorted_map [OF band_okD(3) [OF ok]] band_okD(2) [OF ok] band_okD(4,5) [OF ok]
    by (simp add: is_band_def)
  moreover have "map mr B \<noteq> []" using band_okD(1) [OF ok] by simp
  ultimately show "band_ok (map mr B)" "btop (map mr B) = g (btop B)" "bbottom (map mr B) = g (bbottom B)"
    using band_okI is_band_edges by blast+
qed

lemma wf_bands_map: "wf_bands Bs \<Longrightarrow> wf_bands (map (map mr) Bs)"
proof (induction Bs)
  case (Cons B Bs)
  have ok: "band_ok B" "wf_bands Bs" using Cons.prems by (simp_all add: wf_bands_Cons)
  show ?case
  proof (cases Bs)
    case Nil
    then show ?thesis using map_band(1) [OF ok(1)] by simp
  next
    case (Cons C Cs)
    then have "band_ok C" "band_step B C" using \<open>wf_bands (B # Bs)\<close> by (simp_all add: wf_bands_Cons)
    then have "band_step (map mr B) (map mr C)"
      using map_band [OF ok(1)] map_band [of C] by (simp add: band_step_def spans_map_eq)
    then show ?thesis using Cons Cons.IH [OF ok(2)] map_band(1) [OF ok(1)] by (simp add: wf_bands_Cons)
  qed
qed simp

lemma wf_rects_map: "wf_rects rs \<Longrightarrow> wf_rects (map mr rs)"
proof -
  assume "wf_rects rs"
  then have "wf_bands (map (map mr) (bands rs))" by (simp add: wf_rects_def wf_bands_map)
  then have "wf_rects (concat (map (map mr) (bands rs)))" by (rule wf_rects_concat)
  then show ?thesis by (simp add: map_concat [symmetric])
qed

lemma map_united: "Rect_united (mr a) (mr b) = mr (Rect_united a b)"
proof -
  have "min (f x) (f y) = f (min x y)" "max (f x) (f y) = f (max x y)"
    "min (g x) (g y) = g (min x y)" "max (g x) (g y) = g (max x y)" for x y
    by (simp_all add: min_def max_def)
  then show ?thesis by (auto simp: Rect_united_def Rect_corners_def map_rect_def [of f g] Rect_isEmpty_def)
qed

lemma map_foldl: "foldl Rect_united (mr b) (map mr rs) = mr (foldl Rect_united b rs)"
  by (induction rs arbitrary: b) (simp_all add: map_united)

end

lemma foldl_from_null: "rs \<noteq> [] \<Longrightarrow> foldl Rect_united Rect_null rs = foldl Rect_united (hd rs) (tl rs)"
  by (cases rs) (simp_all add: Rect_united_def)

text \<open>A region whose edges are mapped.\<close>

definition map_region :: "('a \<Rightarrow> 'b) \<Rightarrow> ('a \<Rightarrow> 'b) \<Rightarrow> 'a region \<Rightarrow> 'b region" where
  "map_region f g r = \<lparr>m_rects = map (map_rect f g) (m_rects r), m_bounds = map_rect f g (m_bounds r)\<rparr>"

locale strict_region = strict_coordinates f g
  for f g :: "'a::{linorder,zero} \<Rightarrow> 'b::{linorder,zero}"
begin

lemma wf_region_map:
  assumes "wf_region r"
  shows "wf_region (map_region f g r)"
proof (cases "m_rects r = []")
  case False
  then have "foldl Rect_united Rect_null (map mr (m_rects r)) = mr (foldl Rect_united Rect_null (m_rects r))"
    by (simp add: foldl_from_null hd_map map_tl [symmetric] map_foldl)
  then show ?thesis using assms False by (auto simp: wf_region_def map_region_def wf_rects_map)
qed (simp add: wf_region_def map_region_def)

lemma in_map_region: "(f x, g y) \<in> region_pts (map_region f g r) \<longleftrightarrow> (x, y) \<in> region_pts r"
  by (simp add: region_pts_def map_region_def in_map_rects)

end

interpretation shift: strict_region "\<lambda>x. x + fst offset" "\<lambda>y. y + snd offset"
  for offset :: "'a::linordered_idom \<times> 'a"
  by unfold_locales simp_all

lemma translate_from_map:
  assumes "\<not> Region_eq r infinite_region" and "\<not> Region_isEmpty r"
  shows "translate_from infinite_region offset r = map_region (\<lambda>x. x + fst offset) (\<lambda>y. y + snd offset) r"
proof -
  have "Rect_translate offset = map_rect (\<lambda>x. x + fst offset) (\<lambda>y. y + snd offset)"
    by (simp add: fun_eq_iff Rect_translate_def map_rect_def)
  then show ?thesis using assms by (simp add: translate_from_def map_region_def)
qed

lemma translate_from_correct:
  assumes wf: "wf_region r" and inf: "\<not> Region_eq r infinite_region"
  shows "wf_region (translate_from infinite_region offset r)"
    and "(x, y) \<in> region_pts (translate_from infinite_region offset r) \<longleftrightarrow>
         (x - fst offset, y - snd offset) \<in> region_pts r"
proof -
  have "wf_region (translate_from infinite_region offset r) \<and>
    ((x, y) \<in> region_pts (translate_from infinite_region offset r) \<longleftrightarrow>
         (x - fst offset, y - snd offset) \<in> region_pts r)"
  proof (cases "Region_isEmpty r")
    case True
    then show ?thesis using wf by (simp add: translate_from_def Region_isEmpty_iff)
  next
    case False
    then show ?thesis
      using shift.wf_region_map [OF wf, of offset] shift.in_map_region [of "x - fst offset" offset "y - snd offset" r]
      by (simp add: translate_from_map [OF inf False])
  qed
  then show "wf_region (translate_from infinite_region offset r)"
    "(x, y) \<in> region_pts (translate_from infinite_region offset r) \<longleftrightarrow>
     (x - fst offset, y - snd offset) \<in> region_pts r" by blast+
qed

section \<open>Growing\<close>

lemma wf_bands_sorted_tops: "wf_bands Bs \<Longrightarrow> sorted (map m_top (concat Bs))"
proof (induction Bs)
  case (Cons B Bs)
  have ok: "band_ok B" "wf_bands Bs" using Cons.prems by (simp_all add: wf_bands_Cons)
  have "sorted (map m_top B)"
    using band_okD(4) [OF ok(1)] by (auto simp: sorted_iff_nth_mono)
  moreover have "m_top a \<le> m_top c" if "a \<in> set B" "c \<in> set (concat Bs)" for a c
    using wf_bands_later(1) [OF Cons.prems that(2)] band_okD(2) [OF ok(1)] band_okD(4) [OF ok(1) that(1)] by simp
  ultimately show ?case using Cons.IH [OF ok(2)] by (auto simp: sorted_append)
qed simp

lemma wf_rects_sorted_tops: "wf_rects rs \<Longrightarrow> sorted (map m_top rs)"
  using wf_bands_sorted_tops [of "bands rs"] by (simp add: wf_rects_def)

text \<open>The list that \<open>assignRectsSortedByY\<close> builds from monotone images of the rectangles of a region.\<close>

lemma assign_image:
  assumes wf: "wf_rects rs" and ne: "rs \<noteq> []"
    and mono: "\<And>a b. m_top a \<le> m_top b \<Longrightarrow> m_top (h a) \<le> m_top (h b)"
    and nonempty: "\<And>r. \<not> Rect_isEmpty r \<Longrightarrow> \<not> Rect_isEmpty (h r)"
  shows "wf_rects (assignRectsSortedByY (map h rs))"
    and "pts (assignRectsSortedByY (map h rs)) = (\<Union>r \<in> set rs. rect_pts (h r))"
    and "assignRectsSortedByY (map h rs) \<noteq> []"
proof -
  have "sorted (map m_top (map h rs))"
    using wf_rects_sorted_tops [OF wf] mono by (auto simp: sorted_iff_nth_mono)
  moreover have all: "\<forall>r \<in> set (map h rs). \<not> Rect_isEmpty r"
    using wf_rects_isEmpty [OF wf] nonempty by simp
  ultimately show "wf_rects (assignRectsSortedByY (map h rs))"
    and p: "pts (assignRectsSortedByY (map h rs)) = (\<Union>r \<in> set rs. rect_pts (h r))"
    using assignRectsSortedByY_correct [of "map h rs"] ne by (simp_all add: pts_def)
  have "(\<Union>r \<in> set rs. rect_pts (h r)) \<noteq> {}"
    using all ne by (cases rs) (auto simp: Rect_isEmpty_pts)
  then show "assignRectsSortedByY (map h rs) \<noteq> []" using p by auto
qed

definition dilation :: "int margins \<Rightarrow> (int \<times> int) set \<Rightarrow> (int \<times> int) set" where
  "dilation mg P = {(x, y). \<exists>(px, py) \<in> P. px - mg_left mg \<le> x \<and> x \<le> px + mg_right mg \<and>
                              py - mg_top mg \<le> y \<and> y \<le> py + mg_bottom mg}"

definition margins_nonneg :: "int margins \<Rightarrow> bool" where
  "margins_nonneg mg \<longleftrightarrow> 0 \<le> mg_left mg \<and> 0 \<le> mg_top mg \<and> 0 \<le> mg_right mg \<and> 0 \<le> mg_bottom mg"

lemma Rect_grownBy_pts:
  assumes r: "\<not> Rect_isEmpty r" and mg: "margins_nonneg mg"
  shows "rect_pts (Rect_grownBy mg r) = dilation mg (rect_pts r)"
proof -
  have "(x, y) \<in> rect_pts (Rect_grownBy mg r) \<Longrightarrow> (x, y) \<in> dilation mg (rect_pts r)" for x y
    unfolding dilation_def using r mg
    by (intro CollectI case_prodI bexI [of _ "(max (m_left r) (min x (m_right r - 1)), max (m_top r) (min y (m_bottom r - 1)))"])
      (auto simp: in_rect_pts Rect_grownBy_def Rect_corners_def Rect_isEmpty_def margins_nonneg_def)
  moreover have "(x, y) \<in> dilation mg (rect_pts r) \<Longrightarrow> (x, y) \<in> rect_pts (Rect_grownBy mg r)" for x y
    by (auto simp: dilation_def in_rect_pts Rect_grownBy_def Rect_corners_def)
  ultimately show ?thesis by auto
qed

lemma Rect_grownBy_nonempty:
  "margins_nonneg mg \<Longrightarrow> \<not> Rect_isEmpty r \<Longrightarrow> \<not> Rect_isEmpty (Rect_grownBy mg r)"
  by (auto simp: Rect_isEmpty_def Rect_grownBy_def Rect_corners_def margins_nonneg_def)

lemma dilation_Union: "dilation mg (\<Union>r \<in> R. P r) = (\<Union>r \<in> R. dilation mg (P r))"
  by (fastforce simp: dilation_def)

lemma region_grownBy_pts:
  assumes wf: "wf_region r" and ne: "\<not> Region_isEmpty r" and mg: "margins_nonneg mg"
  shows "region_pts (Region_grownBy mg r) = dilation mg (region_pts r)"
    and "m_rects r \<noteq> [] \<Longrightarrow> wf_rects (m_rects (Region_grownBy mg r)) \<and> m_rects (Region_grownBy mg r) \<noteq> []"
proof -
  have "region_pts (Region_grownBy mg r) = dilation mg (region_pts r) \<and>
    (m_rects r \<noteq> [] \<longrightarrow> wf_rects (m_rects (Region_grownBy mg r)) \<and> m_rects (Region_grownBy mg r) \<noteq> [])"
  proof (cases "m_rects r = []")
    case True
    then show ?thesis
      using ne mg Rect_grownBy_pts [of "m_bounds r" mg]
      by (simp add: Region_grownBy_def region_pts_def Region_isEmpty_def Region_of_Rect_def)
  next
    case False
    then have wf': "wf_rects (m_rects r)" using wf by (simp add: wf_region_def)
    note img = assign_image [OF wf' False, of "Rect_grownBy mg"]
    have m: "m_top a \<le> m_top b \<Longrightarrow> m_top (Rect_grownBy mg a) \<le> m_top (Rect_grownBy mg b)" for a b :: Rect
      by (simp add: Rect_grownBy_def Rect_corners_def)
    have "pts (assignRectsSortedByY (map (Rect_grownBy mg) (m_rects r))) = dilation mg (pts (m_rects r))"
      using img(2) [OF m Rect_grownBy_nonempty [OF mg]] wf_rects_isEmpty [OF wf'] Rect_grownBy_pts [OF _ mg]
      by (simp add: pts_def dilation_Union)
    then show ?thesis
      using False img(1,3) [OF m Rect_grownBy_nonempty [OF mg]]
      by (simp add: Region_grownBy_def region_pts_def)
  qed
  then show "region_pts (Region_grownBy mg r) = dilation mg (region_pts r)"
    "m_rects r \<noteq> [] \<Longrightarrow> wf_rects (m_rects (Region_grownBy mg r)) \<and> m_rects (Region_grownBy mg r) \<noteq> []"
    by blast+
qed

text \<open>The bounds are right too: growing the least rectangle gives the least rectangle.\<close>

lemma Rect_united_grown:
  assumes "margins_nonneg mg" "\<not> Rect_isEmpty a" "\<not> Rect_isEmpty b"
  shows "Rect_united (Rect_grownBy mg a) (Rect_grownBy mg b) = Rect_grownBy mg (Rect_united a b)"
  using assms Rect_grownBy_nonempty [OF assms(1)] unfolding Rect_united_def
  by (simp add: Rect_grownBy_def Rect_corners_def min_def max_def)

section \<open>Rounding out\<close>

definition pixels :: "(real \<times> real) set \<Rightarrow> (int \<times> int) set" where
  "pixels P = (\<lambda>(u, v). (\<lfloor>u\<rfloor>, \<lfloor>v\<rfloor>)) ` P"

lemma in_pixels: "(i, j) \<in> pixels P \<longleftrightarrow> (\<exists>u v. (u, v) \<in> P \<and> \<lfloor>u\<rfloor> = i \<and> \<lfloor>v\<rfloor> = j)"
  by (auto simp: pixels_def)

lemma floor_in_range:
  fixes l r :: real
  assumes "l < r"
  shows "(\<exists>u. l \<le> u \<and> u < r \<and> \<lfloor>u\<rfloor> = i) \<longleftrightarrow> \<lfloor>l\<rfloor> \<le> i \<and> i < \<lceil>r\<rceil>"
proof
  assume "\<exists>u. l \<le> u \<and> u < r \<and> \<lfloor>u\<rfloor> = i"
  then show "\<lfloor>l\<rfloor> \<le> i \<and> i < \<lceil>r\<rceil>" by (auto simp: less_ceiling_iff intro: floor_mono) linarith
next
  assume i: "\<lfloor>l\<rfloor> \<le> i \<and> i < \<lceil>r\<rceil>"
  then have "\<lfloor>max l (of_int i)\<rfloor> = i" by linarith
  moreover have "max l (of_int i) < r" using assms i by (simp add: less_ceiling_iff)
  ultimately show "\<exists>u. l \<le> u \<and> u < r \<and> \<lfloor>u\<rfloor> = i" by (intro exI [of _ "max l (of_int i)"]) simp
qed

lemma RectF_roundedOut_pts:
  assumes "\<not> Rect_isEmpty r"
  shows "rect_pts (RectF_roundedOut r) = pixels (rect_pts r)"
proof -
  have lt: "m_left r < m_right r" "m_top r < m_bottom r" using assms by (auto simp: Rect_isEmpty_def)
  have "(i, j) \<in> pixels (rect_pts r) \<longleftrightarrow>
      (\<exists>u. m_left r \<le> u \<and> u < m_right r \<and> \<lfloor>u\<rfloor> = i) \<and> (\<exists>v. m_top r \<le> v \<and> v < m_bottom r \<and> \<lfloor>v\<rfloor> = j)" for i j
    unfolding in_pixels in_rect_pts by blast
  then have iff: "(i, j) \<in> rect_pts (RectF_roundedOut r) \<longleftrightarrow> (i, j) \<in> pixels (rect_pts r)" for i j
    unfolding floor_in_range [OF lt(1)] floor_in_range [OF lt(2)] in_rect_pts RectF_roundedOut_def Rect_corners_def
    by simp
  show ?thesis
  proof (rule set_eqI)
    show "p \<in> rect_pts (RectF_roundedOut r) \<longleftrightarrow> p \<in> pixels (rect_pts r)" for p
      by (cases p) (simp only: iff)
  qed
qed

lemma RectF_roundedOut_nonempty: "\<not> Rect_isEmpty r \<Longrightarrow> \<not> Rect_isEmpty (RectF_roundedOut r)"
  using RectF_roundedOut_pts [of r] by (simp add: Rect_isEmpty_pts pixels_def)

lemma RectF_roundedOut_top: "m_top a \<le> m_top b \<Longrightarrow> m_top (RectF_roundedOut a) \<le> m_top (RectF_roundedOut b)"
  by (simp add: RectF_roundedOut_def Rect_corners_def floor_mono)

lemma pixels_Union: "pixels (\<Union>r \<in> R. P r) = (\<Union>r \<in> R. pixels (P r))"
  by (auto simp: pixels_def)

lemma regionF_roundedOut_pts:
  assumes wf: "wf_region r"
  shows "wf_region (RegionF_roundedOut r)" and "region_pts (RegionF_roundedOut r) = pixels (region_pts r)"
proof -
  consider "Region_isEmpty r" | "\<not> Region_isEmpty r" "m_rects r = []" | "\<not> Region_isEmpty r" "m_rects r \<noteq> []"
    by blast
  then have "wf_region (RegionF_roundedOut r) \<and> region_pts (RegionF_roundedOut r) = pixels (region_pts r)"
  proof cases
    case 1
    then have "region_pts r = {}" using Region_isEmpty_iff [OF wf] by simp
    then show ?thesis using 1 by (simp add: RegionF_roundedOut_def pixels_def)
  next
    case 2
    then have "region_pts r = rect_pts (m_bounds r)" "\<not> Rect_isEmpty (m_bounds r)"
      by (simp_all add: region_pts_def Region_isEmpty_def)
    then show ?thesis using 2 by (simp add: RegionF_roundedOut_def RectF_roundedOut_pts)
  next
    case 3
    then have wf': "wf_rects (m_rects r)" using wf by (simp add: wf_region_def)
    have ne: "\<forall>q \<in> set (m_rects r). \<not> Rect_isEmpty q"
      using wf_rects_isEmpty [OF wf'] by simp
    have "sorted (map m_top (map RectF_roundedOut (m_rects r)))"
      using wf_rects_sorted_tops [OF wf'] by (auto simp: sorted_iff_nth_mono intro: RectF_roundedOut_top)
    then have "wf_region (fromRectsSortedByY (map RectF_roundedOut (m_rects r)))"
      "region_pts (fromRectsSortedByY (map RectF_roundedOut (m_rects r))) = pts (map RectF_roundedOut (m_rects r))"
      using fromRectsSortedByY_pts [of "map RectF_roundedOut (m_rects r)"] ne
      by (simp_all add: RectF_roundedOut_nonempty)
    moreover have "pts (map RectF_roundedOut (m_rects r)) = pixels (pts (m_rects r))"
      using ne by (simp add: pts_def pixels_Union RectF_roundedOut_pts)
    ultimately show ?thesis using 3 by (simp add: RegionF_roundedOut_def region_pts_def)
  qed
  then show "wf_region (RegionF_roundedOut r)" "region_pts (RegionF_roundedOut r) = pixels (region_pts r)"
    by blast+
qed

section \<open>Scaling\<close>

abbreviation scale_by :: "real \<Rightarrow> int \<Rightarrow> real" where
  "scale_by k x \<equiv> of_int x * k"

lemma Rect_scaled_map: "Rect_scaled sx sy = map_rect (scale_by sx) (scale_by sy)"
  by (simp add: fun_eq_iff Rect_scaled_def RectF_scaled_def RectF_of_Rect_def map_rect_def)

lemma RectF_of_Rect_map: "RectF_of_Rect = map_rect (scale_by 1) (scale_by 1)"
  by (simp add: fun_eq_iff RectF_of_Rect_def map_rect_def)

lemma scaling: "0 < sx \<Longrightarrow> 0 < sy \<Longrightarrow> strict_region (scale_by sx) (scale_by sy)"
  by unfold_locales simp_all

lemma RegionF_of_Region_map:
  assumes "wf_region r" and "\<not> Region_isEmpty r"
  shows "RegionF_of_Region r = map_region (scale_by 1) (scale_by 1) r"
  using assms unfolding RectF_of_Rect_map [symmetric] map_region_def
  by (auto simp: RegionF_of_Region_def Region_rects_def Region_boundingRect_def wf_region_def)

lemma region_scaled_map:
  assumes "wf_region r" and "\<not> Region_isEmpty r" and "\<not> Region_eq r Region_infinite"
  shows "Region_scaled sx sy r = map_region (scale_by sx) (scale_by sy) r"
proof (cases "m_rects r \<noteq> [] \<and> sx = 1 \<and> sy = 1")
  case True
  then show ?thesis using assms RegionF_of_Region_map [OF assms(1,2)] by (simp add: Region_scaled_def)
next
  case False
  then show ?thesis
    using assms by (auto simp: Region_scaled_def map_region_def Rect_scaled_map Region_of_Rect_def)
qed

lemma region_scaled_wf:
  assumes "wf_region r" and "0 < sx" "0 < sy"
  shows "wf_region (Region_scaled sx sy r)"
proof -
  consider "Region_eq r Region_infinite" | "\<not> Region_eq r Region_infinite" "Region_isEmpty r"
    | "\<not> Region_eq r Region_infinite" "\<not> Region_isEmpty r" by blast
  then show ?thesis
  proof cases
    case 1
    then show ?thesis by (simp add: Region_scaled_def RegionF_infinite_def Region_make_def)
  next
    case 2
    then show ?thesis by (simp add: Region_scaled_def)
  next
    case 3
    then show ?thesis
      using strict_region.wf_region_map [OF scaling [OF assms(2,3)] assms(1)]
      by (simp add: region_scaled_map [OF assms(1)])
  qed
qed

lemma RectF_roundedOut_of_Rect: "RectF_roundedOut (RectF_of_Rect q) = q"
  by (simp add: RectF_roundedOut_def RectF_of_Rect_def Rect_corners_def)

lemma Rect_scaled_nonempty: "0 < sx \<Longrightarrow> 0 < sy \<Longrightarrow> \<not> Rect_isEmpty q \<Longrightarrow> \<not> Rect_isEmpty (Rect_scaled sx sy q)"
  by (simp add: Rect_scaled_map Rect_isEmpty_def)

lemma region_pts_map_rects:
  assumes "wf_region r" and "\<not> Region_isEmpty r" and "\<not> Region_eq r Region_infinite"
  shows "region_pts (Region_scaled sx sy r) = (\<Union>q \<in> set (Region_rects r). rect_pts (Rect_scaled sx sy q))"
  using assms(2)
  by (auto simp: region_scaled_map [OF assms] Region_rects_def region_pts_def map_region_def pts_def Rect_scaled_map)

lemma region_scaledAndRoundedOut_pts:
  assumes wf: "wf_region r" and inf: "\<not> Region_eq r Region_infinite" and k: "0 < sx" "0 < sy"
  shows "region_pts (Region_scaledAndRoundedOut sx sy r) = pixels (region_pts (Region_scaled sx sy r))"
proof (cases "Region_isEmpty r")
  case True
  then show ?thesis using inf by (simp add: Region_scaledAndRoundedOut_def Region_scaled_def pixels_def)
next
  case ne: False
  note rects = Region_rects_wf [OF wf ne]
  let ?h = "\<lambda>q. RectF_roundedOut (Rect_scaled sx sy q)"
  have h: "\<not> Rect_isEmpty q \<Longrightarrow> \<not> Rect_isEmpty (?h q)" for q
    by (intro RectF_roundedOut_nonempty Rect_scaled_nonempty k)
  have "pixels (region_pts (Region_scaled sx sy r)) = (\<Union>q \<in> set (Region_rects r). rect_pts (?h q))"
    unfolding region_pts_map_rects [OF wf ne inf] pixels_Union
    using wf_rects_isEmpty [OF rects(1)] Rect_scaled_nonempty [OF k] by (simp add: RectF_roundedOut_pts)
  moreover have "region_pts (Region_scaledAndRoundedOut sx sy r) = (\<Union>q \<in> set (Region_rects r). rect_pts (?h q))"
  proof -
    consider "m_rects r = []" | "m_rects r \<noteq> []" "sx = 1" "sy = 1" | "m_rects r \<noteq> []" "\<not> (sx = 1 \<and> sy = 1)"
      by blast
    then show ?thesis
    proof cases
      case 1
      then show ?thesis using ne inf by (simp add: Region_scaledAndRoundedOut_def Region_rects_def)
    next
      case 2
      have "Rect_scaled 1 1 q = RectF_of_Rect q" for q by (simp add: Rect_scaled_map RectF_of_Rect_map)
      then show ?thesis
        using 2 ne inf rects(3) by (simp add: Region_scaledAndRoundedOut_def RectF_roundedOut_of_Rect pts_def)
    next
      case 3
      have "wf_rects (m_rects r)" using wf 3 by (simp add: wf_region_def)
      moreover have "m_top a \<le> m_top b \<Longrightarrow> m_top (?h a) \<le> m_top (?h b)" for a b
        using k by (intro RectF_roundedOut_top) (simp add: Rect_scaled_map)
      ultimately have "pts (assignRectsSortedByY (map ?h (m_rects r))) = (\<Union>q \<in> set (m_rects r). rect_pts (?h q))"
        "assignRectsSortedByY (map ?h (m_rects r)) \<noteq> []"
        using assign_image(2,3) [of "m_rects r" ?h] 3(1) h by blast+
      then show ?thesis
        using 3 ne inf by (auto simp: Region_scaledAndRoundedOut_def region_pts_def Region_rects_def)
    qed
  qed
  ultimately show ?thesis by simp
qed

section \<open>Rounding in\<close>

text \<open>Every pixel of the result lies inside the region with all its points.\<close>

definition pixel_cell :: "int \<times> int \<Rightarrow> (real \<times> real) set" where
  "pixel_cell p = {(u, v). of_int (fst p) \<le> u \<and> u < of_int (fst p) + 1 \<and>
                          of_int (snd p) \<le> v \<and> v < of_int (snd p) + 1}"

lemma RectF_roundedIn_cell: "p \<in> rect_pts (RectF_roundedIn r) \<longleftrightarrow> pixel_cell p \<subseteq> rect_pts r"
proof
  obtain i j where p: "p = (i, j)" by (cases p)
  show "p \<in> rect_pts (RectF_roundedIn r) \<Longrightarrow> pixel_cell p \<subseteq> rect_pts r"
    by (auto simp: p pixel_cell_def rect_pts_def RectF_roundedIn_def Rect_corners_def ceiling_le_iff) linarith+
  assume sub: "pixel_cell p \<subseteq> rect_pts r"
  have "(of_int i, of_int j) \<in> rect_pts r" using sub by (auto simp: p pixel_cell_def)
  then have l: "m_left r \<le> of_int i" "m_top r \<le> of_int j" by (simp_all add: in_rect_pts)
  have "\<not> m_right r < of_int i + 1"
  proof
    assume "m_right r < of_int i + 1"
    then have "(max (of_int i) (m_right r), of_int j) \<in> pixel_cell p" by (auto simp: p pixel_cell_def)
    then show False using sub by (auto simp: in_rect_pts)
  qed
  moreover have "\<not> m_bottom r < of_int j + 1"
  proof
    assume "m_bottom r < of_int j + 1"
    then have "(of_int i, max (of_int j) (m_bottom r)) \<in> pixel_cell p" by (auto simp: p pixel_cell_def)
    then show False using sub by (auto simp: in_rect_pts)
  qed
  ultimately show "p \<in> rect_pts (RectF_roundedIn r)"
    using l by (simp add: p in_rect_pts RectF_roundedIn_def Rect_corners_def ceiling_le_iff) linarith
qed

lemma region_pts_fromSortedRects: "region_pts (fromSortedRects rects) = pts rects"
proof -
  consider "rects = []" | q where "rects = [q]" | "2 \<le> length rects" "rects \<noteq> []"
    by (cases rects rule: list.exhaust; cases "tl rects") auto
  then show ?thesis
    by cases (simp_all add: fromSortedRects_def computeBounds_def region_pts_def Region_new_def Region_of_Rect_def)
qed

lemma regionF_roundedIn_cells:
  assumes "wf_region r" and "p \<in> region_pts (RegionF_roundedIn r)"
  shows "pixel_cell p \<subseteq> region_pts r"
proof -
  consider "Region_isEmpty r" | "\<not> Region_isEmpty r" "m_rects r = []" | "\<not> Region_isEmpty r" "m_rects r \<noteq> []"
    by blast
  then show ?thesis
  proof cases
    case 1
    then show ?thesis using assms by (simp add: RegionF_roundedIn_def)
  next
    case 2
    then show ?thesis using assms(2) by (simp add: RegionF_roundedIn_def RectF_roundedIn_cell region_pts_def Region_of_Rect_def)
  next
    case 3
    then obtain q where "q \<in> set (m_rects r)" "p \<in> rect_pts (RectF_roundedIn q)"
      using assms(2) by (auto simp: RegionF_roundedIn_def region_pts_fromSortedRects pts_def)
    then show ?thesis using 3 by (auto simp: RectF_roundedIn_cell region_pts_def pts_def)
  qed
qed

end
