(* ===== verification/RegionStream.thy ===== *)
theory RegionStream
  imports RegionMap
begin

text \<open>
  The \<open>QDataStream\<close> operators of \<open>src/kde-kwin/src/core/rect.cpp\<close> and \<open>region.cpp\<close>. A stream is the
  list of the 32-bit values that are still to be read; as \<open>QDataStream\<close> documents, reading past the
  end yields 0 (and sets a status the operators do not look at). The round trip is proved for
  coordinates and counts in the range of \<open>int\<close>, which is the range the C++ values have.
\<close>

definition read_int :: "int list \<Rightarrow> int \<times> int list" where
  "read_int stream = (case stream of [] \<Rightarrow> (0, []) | v # rest \<Rightarrow> (v, rest))"

definition write_Rect :: "int rect \<Rightarrow> int list \<Rightarrow> int list" where
  "write_Rect rect stream = stream @ [m_left rect, m_top rect, m_right rect, m_bottom rect]"

definition read_Rect :: "int list \<Rightarrow> int rect \<times> int list" where
  "read_Rect stream =
     (let (left, stream1) = read_int stream;
          (top', stream2) = read_int stream1;
          (right, stream3) = read_int stream2;
          (bottom, stream4) = read_int stream3
      in (Rect_setCoords left top' right bottom, stream4))"

fun read_Rects :: "nat \<Rightarrow> int list \<Rightarrow> int rect list \<times> int list" where
  "read_Rects 0 stream = ([], stream)"
| "read_Rects (Suc n) stream =
     (let (box, stream') = read_Rect stream;
          (boxes, stream'') = read_Rects n stream'
      in (box # boxes, stream''))"

definition write_Region :: "int region \<Rightarrow> int list \<Rightarrow> int list" where
  "write_Region region stream =
     foldl (\<lambda>s rect. write_Rect rect s) (stream @ [int (length (Region_rects region))]) (Region_rects region)"

definition read_Region :: "int list \<Rightarrow> int region \<times> int list" where
  "read_Region stream =
     (let (boxCount, stream') = read_int stream;
          (rects, stream'') = read_Rects (nat boxCount) stream'
      in (fromSortedRects rects, stream''))"

definition rect_values :: "int rect \<Rightarrow> int list" where
  "rect_values rect = [m_left rect, m_top rect, m_right rect, m_bottom rect]"

lemma foldl_write_Rect: "foldl (\<lambda>s rect. write_Rect rect s) s rects = s @ concat (map rect_values rects)"
  by (induction rects arbitrary: s) (simp_all add: write_Rect_def rect_values_def)

lemma read_Rect_values:
  assumes "\<not> Rect_isEmpty rect"
  shows "read_Rect (rect_values rect @ rest) = (rect, rest)"
  using assms
  by (simp add: read_Rect_def rect_values_def read_int_def Rect_setCoords_def Rect_isEmpty_def min_def max_def)

lemma read_Rects_values:
  "\<forall>r \<in> set rects. \<not> Rect_isEmpty r \<Longrightarrow>
   read_Rects (length rects) (concat (map rect_values rects) @ rest) = (rects, rest)"
  by (induction rects) (simp_all add: read_Rect_values)

lemma fromSortedRects_rects:
  assumes wf: "wf_region r" and "\<not> Region_isEmpty r"
  shows "fromSortedRects (Region_rects r) = r"
proof -
  note rects = Region_rects_wf [OF assms]
  note sorted = fromSortedRects_pts [OF rects(1)]
  have "\<not> Region_isEmpty (fromSortedRects (Region_rects r))"
    using Region_isEmpty_iff [OF sorted(1)] Region_isEmpty_iff [OF wf] sorted(2) rects(3) assms(2) by simp
  then show ?thesis
    using region_eq_pts [OF sorted(1) wf] sorted(2) rects(3) by (simp add: Region_eq_iff)
qed

lemma read_write_Region:
  assumes "wf_region r" and "\<not> Region_isEmpty r"
  shows "read_Region (write_Region r [] @ rest) = (r, rest)"
proof -
  note rects = Region_rects_wf [OF assms]
  have "\<forall>q \<in> set (Region_rects r). \<not> Rect_isEmpty q" using wf_rects_isEmpty [OF rects(1)] by blast
  from read_Rects_values [OF this, of rest] show ?thesis
    by (simp add: write_Region_def read_Region_def read_int_def foldl_write_Rect fromSortedRects_rects [OF assms])
qed

lemma read_write_empty:
  assumes "Region_isEmpty r"
  shows "read_Region (write_Region r [] @ rest) = (Region_new, rest)"
  using assms by (simp add: write_Region_def read_Region_def read_int_def Region_rects_def fromSortedRects_def)

end
