(* ===== verification/RegionProps.thy ===== *)
theory RegionProps
  imports RegionStream
begin

text \<open>
  The properties of \<open>Region\<close> and \<open>RegionF\<close>. They are stated at the type of \<open>Region\<close> or for every
  linearly ordered type of coordinates, which covers both classes; the witnesses apply them to two
  L-shaped regions.
\<close>

section \<open>Sample regions\<close>

definition sample_L :: "int region" where
  "sample_L = \<lparr>m_rects = [Rect_corners (0, 0) (4, 2), Rect_corners (0, 2) (2, 4)],
               m_bounds = Rect_corners (0, 0) (4, 4)\<rparr>"

definition sample_J :: "int region" where
  "sample_J = \<lparr>m_rects = [Rect_corners (3, 1) (5, 3), Rect_corners (1, 3) (5, 5)],
               m_bounds = Rect_corners (1, 1) (5, 5)\<rparr>"

lemma sample_wf: "wf_region sample_L" "wf_region sample_J"
  by code_simp+

lemma sample_ne: "\<not> Region_isEmpty sample_L" "\<not> Region_isEmpty sample_J"
  by code_simp+

section \<open>Set operations\<close>

text \<open>
  C1: \<open>united\<close> keeps the invariant, covers exactly the points of either region, and its bounding
  rectangle is the least rectangle around them; this includes the fast paths that return one of the
  two regions unchanged.
\<close>
theorem united_correct:
  fixes r s :: "'a::{linorder,zero} region"
  assumes "wf_region r" and "wf_region s" and "\<not> Region_isEmpty r \<or> \<not> Region_isEmpty s"
  shows "wf_region (Region_united r s) \<and>
         region_pts (Region_united r s) = region_pts r \<union> region_pts s \<and>
         least_rect (Region_boundingRect (Region_united r s)) (region_pts r \<union> region_pts s)"
proof -
  note u = region_united_pts [OF assms(1,2)]
  have "\<not> Region_isEmpty (Region_united r s)"
    using assms by (simp add: Region_isEmpty_iff u)
  from region_least [OF u(1) this] show ?thesis by (simp add: u Region_boundingRect_def)
qed

theorem united_correct_witness:
  "wf_region (Region_united sample_L sample_J) \<and>
   region_pts (Region_united sample_L sample_J) = region_pts sample_L \<union> region_pts sample_J \<and>
   length (m_rects (Region_united sample_L sample_J)) = 6"
proof -
  have "length (m_rects (Region_united sample_L sample_J)) = 6" by code_simp
  then show ?thesis using united_correct [OF sample_wf] sample_ne by simp
qed

text \<open>
  C3: \<open>intersected\<close> keeps the invariant and covers exactly the common points of the two regions; the
  result is empty as an object exactly when they have no common point.
\<close>
theorem intersected_correct:
  fixes r s :: "'a::{linorder,zero} region"
  assumes "wf_region r" and "wf_region s"
  shows "wf_region (Region_intersected r s) \<and>
         region_pts (Region_intersected r s) = region_pts r \<inter> region_pts s \<and>
         (Region_isEmpty (Region_intersected r s) \<longleftrightarrow> region_pts r \<inter> region_pts s = {})"
  using region_intersected_pts [OF assms] by (simp add: Region_isEmpty_iff)

theorem intersected_correct_witness:
  "wf_region (Region_intersected sample_L sample_J) \<and>
   region_pts (Region_intersected sample_L sample_J) = region_pts sample_L \<inter> region_pts sample_J \<and>
   m_rects (Region_intersected sample_L sample_J) = [Rect_corners (3, 1) (4, 2), Rect_corners (1, 3) (2, 4)]"
proof -
  have "m_rects (Region_intersected sample_L sample_J) = [Rect_corners (3, 1) (4, 2), Rect_corners (1, 3) (2, 4)]"
    by code_simp
  then show ?thesis using intersected_correct [OF sample_wf] by simp
qed

text \<open>
  C2: \<open>subtracted\<close> keeps the invariant and covers exactly the points of the first region that are not
  in the second; the result is empty as an object exactly when the first region lies inside the second.
\<close>
theorem subtracted_correct:
  fixes r s :: "'a::{linorder,zero} region"
  assumes "wf_region r" and "wf_region s"
  shows "wf_region (Region_subtracted r s) \<and>
         region_pts (Region_subtracted r s) = region_pts r - region_pts s \<and>
         (Region_isEmpty (Region_subtracted r s) \<longleftrightarrow> region_pts r \<subseteq> region_pts s)"
  using region_subtracted_pts [OF assms] by (simp add: Region_isEmpty_iff)

theorem subtracted_correct_witness:
  "wf_region (Region_subtracted sample_L sample_J) \<and>
   region_pts (Region_subtracted sample_L sample_J) = region_pts sample_L - region_pts sample_J \<and>
   m_rects (Region_subtracted sample_L sample_J) =
     [Rect_corners (0, 0) (4, 1), Rect_corners (0, 1) (3, 2), Rect_corners (0, 2) (2, 3), Rect_corners (0, 3) (1, 4)]"
proof -
  have "m_rects (Region_subtracted sample_L sample_J) =
     [Rect_corners (0, 0) (4, 1), Rect_corners (0, 1) (3, 2), Rect_corners (0, 2) (2, 3), Rect_corners (0, 3) (1, 4)]"
    by code_simp
  then show ?thesis using subtracted_correct [OF sample_wf] by simp
qed

text \<open>
  \<open>xored\<close> keeps the invariant and covers exactly the points that are in one of the two regions;
  the result is empty as an object exactly when the two regions cover the same points.
\<close>
lemma xored_correct:
  fixes r s :: "'a::{linorder,zero} region"
  assumes "wf_region r" and "wf_region s"
  shows "wf_region (Region_xored r s) \<and>
         region_pts (Region_xored r s) = (region_pts r - region_pts s) \<union> (region_pts s - region_pts r) \<and>
         (Region_isEmpty (Region_xored r s) \<longleftrightarrow> region_pts r = region_pts s)"
  using region_xored_pts [OF assms] by (auto simp: Region_isEmpty_iff)

lemma xored_correct_witness:
  "wf_region (Region_xored sample_L sample_J) \<and>
   region_pts (Region_xored sample_L sample_J) =
     (region_pts sample_L - region_pts sample_J) \<union> (region_pts sample_J - region_pts sample_L) \<and>
   \<not> Region_isEmpty (Region_xored sample_L sample_J)"
proof -
  have "\<not> Region_isEmpty (Region_xored sample_L sample_J)" by code_simp
  then show ?thesis using xored_correct [OF sample_wf] by simp
qed

text \<open>
  C4: the representation is canonical: for well-formed regions, of which the first is not empty,
  \<open>operator==\<close> (which compares the bounds and the lists of rectangles) holds exactly when the two
  regions cover the same points.
\<close>
theorem equality_canonical:
  fixes r s :: "'a::{linorder,zero} region"
  assumes "wf_region r" and "wf_region s" and "\<not> Region_isEmpty r"
  shows "Region_eq r s \<longleftrightarrow> region_pts r = region_pts s"
  by (rule region_eq_pts [OF assms])

theorem equality_canonical_witness:
  "region_pts sample_L \<noteq> region_pts sample_J"
proof -
  have "\<not> Region_eq sample_L sample_J" by code_simp
  then show ?thesis using equality_canonical [OF sample_wf sample_ne(1)] by simp
qed

text \<open>
  \<open>contains\<close> is right for both its overloads: a point is contained exactly when it is covered,
  and a rectangle exactly when it is not empty and all its points are covered.
\<close>
lemma contains_correct:
  fixes r :: "'a::{linorder,zero} region"
  assumes "wf_region r"
  shows "(Region_contains r rect \<longleftrightarrow> \<not> Rect_isEmpty rect \<and> rect_pts rect \<subseteq> region_pts r) \<and>
         (Region_containsPoint r p \<longleftrightarrow> p \<in> region_pts r)"
  using region_contains_iff [OF assms] region_containsPoint_iff [OF assms] by blast

lemma contains_correct_witness:
  "rect_pts (Rect_corners (0, 1) (2, 4)) \<subseteq> region_pts sample_L \<and> (3, 3) \<notin> region_pts sample_L"
proof -
  have "Region_contains sample_L (Rect_corners (0, 1) (2, 4))" "\<not> Region_containsPoint sample_L (3, 3)"
    by code_simp+
  then show ?thesis using contains_correct [OF sample_wf(1)] by blast
qed

text \<open>
  \<open>intersects\<close> is right for both its overloads: it holds exactly when the region and the rectangle,
  or the two regions, have a point in common.
\<close>
lemma intersects_correct:
  fixes r s :: "'a::{linorder,zero} region"
  assumes "wf_region r" and "wf_region s"
  shows "(Region_intersectsRect r rect \<longleftrightarrow> region_pts r \<inter> rect_pts rect \<noteq> {}) \<and>
         (Region_intersects r s \<longleftrightarrow> region_pts r \<inter> region_pts s \<noteq> {})"
  using region_intersectsRect_iff [OF assms(1)] region_intersects_iff [OF assms] by blast

lemma intersects_correct_witness:
  "region_pts sample_L \<inter> rect_pts (Rect_corners (2, 2) (4, 4)) = {} \<and>
   region_pts sample_L \<inter> region_pts sample_J \<noteq> {}"
proof -
  have "\<not> Region_intersectsRect sample_L (Rect_corners (2, 2) (4, 4))" "Region_intersects sample_L sample_J"
    by code_simp+
  then show ?thesis using intersects_correct [OF sample_wf] by blast
qed

text \<open>
  C6: the operations obey the laws of an algebra of sets as equalities of region objects: subtracting
  and adding the intersection back gives the region, exclusive or is the union without the
  intersection and cancels, and \<open>united\<close> is commutative and absorbs the intersection.
\<close>
theorem region_algebra:
  fixes r s :: "'a::{linorder,zero} region"
  assumes "wf_region r" and "wf_region s" and "\<not> Region_isEmpty r" and "\<not> Region_eq r s"
  shows "Region_eq (Region_united (Region_subtracted r s) (Region_intersected r s)) r \<and>
         Region_eq (Region_xored r s) (Region_subtracted (Region_united r s) (Region_intersected r s)) \<and>
         Region_eq (Region_xored (Region_xored r s) s) r \<and>
         Region_eq (Region_united r s) (Region_united s r) \<and>
         Region_eq (Region_united r (Region_intersected r s)) r"
proof -
  have ne: "region_pts r \<noteq> {}" "region_pts r \<noteq> region_pts s"
    using assms Region_isEmpty_iff [OF assms(1)] region_eq_pts [OF assms(1-3)] by simp_all
  show ?thesis
    using region.split_by [OF assms(1,2) ne(1)] region.xor_as_difference [OF assms(1,2) ne(2)]
      region.xor_cancel [OF assms(1,2) ne(1)] region.unite_lattice(1,4) [OF assms(1,2,2) ne(1)] by blast
qed

theorem region_algebra_witness:
  "Region_eq (Region_xored (Region_xored sample_L sample_J) sample_J) sample_L"
proof -
  have "\<not> Region_eq sample_L sample_J" by code_simp
  then show ?thesis using region_algebra [OF sample_wf sample_ne(1)] by blast
qed

section \<open>Construction from rectangles\<close>

text \<open>
  C5: \<open>fromUnsortedRects\<close> builds a well-formed region that covers exactly the given rectangles, which
  may overlap and repeat; and the region does not depend on the order in which the sort leaves
  rectangles with equal top edges, nor on the order of the input: any arrangement of the same
  rectangles that is sorted by the top edge gives an equal region through \<open>fromRectsSortedByY\<close>.
\<close>
theorem fromUnsortedRects_correct:
  fixes rects sorted_rects :: "'a::{linorder,zero} rect list"
  assumes "\<forall>q \<in> set rects. \<not> Rect_isEmpty q" and "rects \<noteq> []"
    and "set sorted_rects = set rects" and "sorted (map m_top sorted_rects)"
  shows "wf_region (fromUnsortedRects rects) \<and>
         region_pts (fromUnsortedRects rects) = (\<Union>q \<in> set rects. rect_pts q) \<and>
         Region_eq (fromUnsortedRects rects) (fromRectsSortedByY sorted_rects)"
proof -
  note u = fromUnsortedRects_pts [OF assms(1)]
  have s: "wf_region (fromRectsSortedByY sorted_rects)"
    "region_pts (fromRectsSortedByY sorted_rects) = pts rects"
    using fromRectsSortedByY_pts [OF assms(4)] assms(1,3) by (simp_all add: pts_def)
  have "region_pts (fromUnsortedRects rects) \<noteq> {}"
    using assms(1,2) u(2) by (cases rects) (auto simp: Rect_isEmpty_pts)
  then have "\<not> Region_isEmpty (fromUnsortedRects rects)" using Region_isEmpty_iff [OF u(1)] by simp
  from region_eq_pts [OF u(1) s(1) this] show ?thesis using u s by (simp add: pts_def)
qed

theorem fromUnsortedRects_correct_witness:
  "Region_eq (fromUnsortedRects [Rect_corners (1, 3) (5, 5), Rect_corners (0, 0) (4, 2), Rect_corners (2, 0) (3, 4 :: int)])
     (fromRectsSortedByY [Rect_corners (2, 0) (3, 4), Rect_corners (0, 0) (4, 2), Rect_corners (1, 3) (5, 5)])"
proof -
  let ?rects = "[Rect_corners (1, 3) (5, 5), Rect_corners (0, 0) (4, 2), Rect_corners (2, 0) (3, 4 :: int)]"
  let ?sorted = "[Rect_corners (2, 0) (3, 4), Rect_corners (0, 0) (4, 2), Rect_corners (1, 3) (5, 5 :: int)]"
  have "\<forall>q \<in> set ?rects. \<not> Rect_isEmpty q" "sorted (map m_top ?sorted)"
    by (simp_all add: Rect_isEmpty_def Rect_corners_def)
  then show ?thesis using fromUnsortedRects_correct [of ?rects ?sorted] by auto
qed

section \<open>Moving the edges\<close>

text \<open>
  \<open>translated\<close> keeps the invariant and moves every covered point by the offset; translating back
  gives an equal region, unless one of the two is the infinite region, which does not move.
\<close>
lemma translated_correct:
  assumes "wf_region r" and "\<not> Region_isEmpty r"
    and "\<not> Region_eq r Region_infinite" and "\<not> Region_eq (Region_translated (dx, dy) r) Region_infinite"
  shows "wf_region (Region_translated (dx, dy) r) \<and>
         region_pts (Region_translated (dx, dy) r) = {(x, y). (x - dx, y - dy) \<in> region_pts r} \<and>
         Region_eq (Region_translated (- dx, - dy) (Region_translated (dx, dy) r)) r"
proof -
  have eq: "Region_translated d q = translate_from Region_infinite d q" if "\<not> Region_eq q Region_infinite" for d q
    using that by (simp add: Region_translated_def Region_translate_def)
  let ?t = "translate_from Region_infinite (dx, dy) r"
  note t = translate_from_correct [OF assms(1,3), where offset = "(dx, dy)", simplified]
  have inf: "\<not> Region_eq ?t Region_infinite" using assms(4) eq [OF assms(3)] by simp
  note ret = translate_from_correct [OF t(1) inf, where offset = "(- dx, - dy)", simplified]
  have pts: "region_pts (translate_from Region_infinite (- dx, - dy) ?t) = region_pts r"
    by (auto simp: ret(2) t(2))
  then have ne: "\<not> Region_isEmpty (translate_from Region_infinite (- dx, - dy) ?t)"
    using assms(1,2) by (simp add: Region_isEmpty_iff [OF ret(1)] Region_isEmpty_iff)
  have "Region_eq (translate_from Region_infinite (- dx, - dy) ?t) r"
    using region_eq_pts [OF ret(1) assms(1) ne] pts by simp
  then show ?thesis using t eq [OF assms(3)] eq [OF inf] by auto
qed

lemma translated_correct_witness:
  "Region_eq (Region_translated (- 7, 3) (Region_translated (7, - 3) sample_L)) sample_L"
proof -
  have "\<not> Region_eq sample_L Region_infinite" "\<not> Region_eq (Region_translated (7, - 3) sample_L) Region_infinite"
    by code_simp+
  then show ?thesis using translated_correct [OF sample_wf(1) sample_ne(1), of 7 "- 3"] by simp
qed





text \<open>
  \<open>RegionF::roundedOut\<close> gives a well-formed region of exactly the pixels that the region touches,
  and every pixel of \<open>RegionF::roundedIn\<close> lies in the region with all its points.
\<close>
lemma roundedOut_roundedIn_correct:
  assumes "wf_region r"
  shows "wf_region (RegionF_roundedOut r) \<and>
         region_pts (RegionF_roundedOut r) = (\<lambda>(u, v). (\<lfloor>u\<rfloor>, \<lfloor>v\<rfloor>)) ` region_pts r \<and>
         (\<forall>(i, j) \<in> region_pts (RegionF_roundedIn r). \<forall>u v. \<lfloor>u\<rfloor> = i \<and> \<lfloor>v\<rfloor> = j \<longrightarrow> (u, v) \<in> region_pts r)"
proof -
  have "(u, v) \<in> region_pts r" if "(\<lfloor>u\<rfloor>, \<lfloor>v\<rfloor>) \<in> region_pts (RegionF_roundedIn r)" for u v
  proof -
    have "(u, v) \<in> pixel_cell (\<lfloor>u\<rfloor>, \<lfloor>v\<rfloor>)" by (simp add: pixel_cell_def)
    then show ?thesis using regionF_roundedIn_cells [OF assms that] by blast
  qed
  then show ?thesis using regionF_roundedOut_pts [OF assms] by (auto simp: pixels_def)
qed

lemma roundedOut_roundedIn_correct_witness:
  "wf_region (RegionF_roundedOut (Region_scaled (3 / 2) (5 / 4) sample_L)) \<and>
   region_pts (RegionF_roundedOut (Region_scaled (3 / 2) (5 / 4) sample_L)) =
     (\<lambda>(u, v). (\<lfloor>u\<rfloor>, \<lfloor>v\<rfloor>)) ` region_pts (Region_scaled (3 / 2) (5 / 4) sample_L)"
proof -
  have "wf_region (Region_scaled (3 / 2) (5 / 4) sample_L)"
    by (rule region_scaled_wf [OF sample_wf(1)]) simp_all
  then show ?thesis using roundedOut_roundedIn_correct by blast
qed

section \<open>Streaming\<close>

text \<open>
  C9: reading from a stream what was written to it gives an equal region and leaves the rest of the
  stream, for every well-formed region; every empty region comes back as the default region.
\<close>
theorem stream_roundtrip:
  assumes "wf_region r"
  shows "read_Region (write_Region r [] @ rest) = (if Region_isEmpty r then Region_new else r, rest)"
  using read_write_Region [OF assms] read_write_empty by auto

theorem stream_roundtrip_witness:
  "read_Region ([2, 0, 0, 4, 2, 0, 2, 2, 4] @ [99]) = (sample_L, [99])"
proof -
  have "write_Region sample_L [] = [2, 0, 0, 4, 2, 0, 2, 2, 4]" by code_simp
  then show ?thesis using stream_roundtrip [OF sample_wf(1), of "[99]"] sample_ne by simp
qed

section \<open>Where the invariant breaks\<close>

text \<open>
  \<open>grownBy\<close> does not keep the invariant: a region of two rectangles that grow into one keeps that
  rectangle in \<open>m_rects\<close> (\<open>united\<close> and \<open>computeBounds\<close> would move it to \<open>m_bounds\<close>), so the result
  covers the same points as a plain rectangle but is not equal to it as an object.
\<close>
lemma grownBy_not_canonical:
  "let two = Region_united (Region_make 0 0 10 10) (Region_make 12 0 8 10);
       grown = Region_grownBy \<lparr>mg_left = 1, mg_top = 1, mg_right = 1, mg_bottom = 1\<rparr> two;
       plain = Region_make (- 1) (- 1) 22 12 :: int region
   in wf_region two \<and> wf_region plain \<and> \<not> wf_region grown \<and>
      region_pts grown = region_pts plain \<and> \<not> Region_eq grown plain"
proof -
  let ?two = "Region_united (Region_make 0 0 10 10) (Region_make 12 0 8 10) :: int region"
  let ?mg = "\<lparr>mg_left = 1, mg_top = 1, mg_right = 1, mg_bottom = 1\<rparr> :: int margins"
  let ?q = "Rect_corners (- 1, - 1) (21, 11) :: int rect"
  have "wf_region ?two" "wf_region (Region_make (- 1) (- 1) 22 12 :: int region)" by code_simp+
  moreover have g: "Region_grownBy ?mg ?two = \<lparr>m_rects = [?q], m_bounds = ?q\<rparr>" by code_simp
  moreover have "Region_make (- 1) (- 1) 22 12 = \<lparr>m_rects = [], m_bounds = ?q\<rparr>" by code_simp
  ultimately show ?thesis by (simp add: Let_def wf_region_def region_pts_def Region_eq_def)
qed

text \<open>
  \<open>RegionF::rounded\<close> can give a region that covers a rectangle which \<open>contains\<close> denies: rounding
  makes two rectangles of a band touch, and \<open>fromSortedRects\<close> takes the list as it is, although the
  rectangles of a band may not touch.
\<close>
lemma rounded_breaks_contains:
  "let r = \<lparr>m_rects = [Rect_corners (0, 0) (7 / 5, 1), Rect_corners (29 / 20, 0) (3, 1)],
            m_bounds = Rect_corners (0, 0) (3, 1)\<rparr> :: real region;
       rounded = RegionF_rounded r
   in wf_region r \<and> rect_pts (Rect_corners (0, 0) (2, 1)) \<subseteq> region_pts rounded \<and>
      \<not> Region_contains rounded (Rect_corners (0, 0) (2, 1)) \<and> \<not> wf_region rounded"
proof -
  let ?r = "\<lparr>m_rects = [Rect_corners (0, 0) (7 / 5, 1), Rect_corners (29 / 20, 0) (3, 1)],
            m_bounds = Rect_corners (0, 0) (3, 1)\<rparr> :: real region"
  let ?out = "\<lparr>m_rects = [Rect_corners (0, 0) (1, 1), Rect_corners (1, 0) (3, 1)],
               m_bounds = Rect_corners (0, 0) (3, 1)\<rparr> :: int region"
  have "round_half_away (7 / 5) = 1" "round_half_away (29 / 20) = 1" "round_half_away 0 = 0"
    "round_half_away 1 = 1" "round_half_away 3 = 3"
    by (simp_all add: round_half_away_def)
  then have out: "RegionF_rounded ?r = ?out"
    by (simp add: RegionF_rounded_def Region_isEmpty_def Rect_isEmpty_def Rect_corners_def RectF_rounded_def
        fromSortedRects_def computeBounds_def Region_new_def Rect_united_def Rect_null_def)
  have "wf_region ?r"
    by (simp add: wf_region_def wf_rects_def Rect_corners_def Rect_united_def Rect_isEmpty_def Rect_null_def
        band_ok_def is_band_def btop_def bbottom_def span_sorted_def)
  moreover have "rect_pts (Rect_corners (0, 0) (2, 1)) \<subseteq> region_pts ?out"
    by (auto simp: region_pts_def rect_pts_def Rect_corners_def)
  moreover have "\<not> Region_contains ?out (Rect_corners (0, 0) (2, 1))" "\<not> wf_region ?out" by code_simp+
  ultimately show ?thesis unfolding Let_def out by blast
qed

end
