(* ===== verification/FocusChain.thy ===== *)
theory FocusChain
  imports Prelude
begin

text \<open>
  The focus chains of \<open>src/kde-kwin/src/focuschain.cpp\<close>: one list of windows for all desktops (the most
  recently used chain) and one for each virtual desktop; the most recently used window is the last
  element of a list. Windows and desktops are identities. What the class asks the windows, the
  workspace and the \<open>VirtualDesktopManager\<close> (whether a window wants focus, is deleted, on which
  desktops it is, ...) can change between two calls, so every operation takes it as an argument
  (\<open>queries\<close>). The hash of the desktop chains is a map; the loops over it treat each chain on its own, so
  their order does not matter.

  The locale \<open>chain_edit\<close> is what an edit of one chain promises: no duplicates, and the other windows
  keep their places among themselves. From it follow the invariant of the whole class and the theorems
  on what an update does to every chain.
\<close>

section \<open>Data\<close>

datatype change = MakeFirst | MakeLast | Update

record ('w, 'd, 'o) queries =
  wantsTabFocus :: "'w \<Rightarrow> bool"
  isDeleted :: "'w \<Rightarrow> bool"
  isOnAllDesktops :: "'w \<Rightarrow> bool"
  isOnDesktop :: "'w \<Rightarrow> 'd \<Rightarrow> bool"
  isOnCurrentDesktop :: "'w \<Rightarrow> bool"
  isShown :: "'w \<Rightarrow> bool"
  isOnCurrentActivity :: "'w \<Rightarrow> bool"
  window_output :: "'w \<Rightarrow> 'o"
  isOnOutput :: "'w \<Rightarrow> 'o \<Rightarrow> bool"
  belongToSameApplication :: "'w \<Rightarrow> 'w \<Rightarrow> bool"
  activeOutput :: 'o
  currentDesktop :: "'o \<Rightarrow> 'd"

record ('w, 'd) focus_chain =
  m_mostRecentlyUsed :: "'w list"
  m_desktopFocusChains :: "'d \<Rightarrow> 'w list option"
  m_separateScreenFocus :: bool
  m_activeWindow :: "'w option"

definition FocusChain_new :: "('w, 'd) focus_chain" where
  "FocusChain_new =
     \<lparr>m_mostRecentlyUsed = [], m_desktopFocusChains = (\<lambda>d. None), m_separateScreenFocus = False,
      m_activeWindow = None\<rparr>"

text \<open>\<open>for (auto it = m_desktopFocusChains.begin(); \<dots>)\<close>: each chain with its desktop.\<close>

definition each_chain ::
    "('d \<Rightarrow> 'w list \<Rightarrow> 'w list) \<Rightarrow> ('w, 'd) focus_chain \<Rightarrow> ('w, 'd) focus_chain" where
  "each_chain f fc =
     fc\<lparr>m_desktopFocusChains := (\<lambda>d. map_option (f d) (m_desktopFocusChains fc d))\<rparr>"

section \<open>Edits of one chain\<close>

definition makeFirstInChain :: "('w, 'd, 'o) queries \<Rightarrow> 'w \<Rightarrow> 'w list \<Rightarrow> 'w list" where
  "makeFirstInChain q window chain =
     (if isDeleted q window then chain else removeAll window chain @ [window])"

definition makeLastInChain :: "('w, 'd, 'o) queries \<Rightarrow> 'w \<Rightarrow> 'w list \<Rightarrow> 'w list" where
  "makeLastInChain q window chain =
     (if isDeleted q window then chain else window # removeAll window chain)"

definition insertWindowIntoChain ::
    "('w, 'd, 'o) queries \<Rightarrow> 'w option \<Rightarrow> 'w \<Rightarrow> 'w list \<Rightarrow> 'w list" where
  "insertWindowIntoChain q active window chain =
     (if isDeleted q window then chain
      else if window \<in> set chain then chain
      else if active \<noteq> None \<and> active \<noteq> Some window \<and> chain \<noteq> [] \<and> Some (last chain) = active
      then insert_at (length chain - 1) window chain
      else chain @ [window])"

definition updateWindowInChain ::
    "('w, 'd, 'o) queries \<Rightarrow> 'w option \<Rightarrow> 'w \<Rightarrow> change \<Rightarrow> 'w list \<Rightarrow> 'w list" where
  "updateWindowInChain q active window change chain =
     (if change = MakeFirst then makeFirstInChain q window chain
      else if change = MakeLast then makeLastInChain q window chain
      else insertWindowIntoChain q active window chain)"

text \<open>
  The loops of \<open>moveAfterWindowInChain\<close> and \<open>moveBeforeWindowInChain\<close>: insertion before the first, or after
  the last window of the application of the reference, and none when there is no such window.
\<close>

fun insert_before_first :: "('w \<Rightarrow> bool) \<Rightarrow> 'w \<Rightarrow> 'w list \<Rightarrow> 'w list" where
  "insert_before_first P window [] = []"
| "insert_before_first P window (c # chain) =
     (if P c then window # c # chain else c # insert_before_first P window chain)"

definition insert_after_last :: "('w \<Rightarrow> bool) \<Rightarrow> 'w \<Rightarrow> 'w list \<Rightarrow> 'w list" where
  "insert_after_last P window chain = rev (insert_before_first P window (rev chain))"

definition moveAfterWindowInChain ::
    "('w, 'd, 'o) queries \<Rightarrow> 'w \<Rightarrow> 'w \<Rightarrow> 'w list \<Rightarrow> 'w list" where
  "moveAfterWindowInChain q window reference chain =
     (if isDeleted q window then chain
      else if reference \<notin> set chain then chain
      else if belongToSameApplication q reference window
      then let chain' = removeAll window chain
           in insert_at (nat (index_of chain' reference)) window chain'
      else insert_before_first (belongToSameApplication q reference) window (removeAll window chain))"

definition moveBeforeWindowInChain ::
    "('w, 'd, 'o) queries \<Rightarrow> 'w \<Rightarrow> 'w \<Rightarrow> 'w list \<Rightarrow> 'w list" where
  "moveBeforeWindowInChain q window reference chain =
     (if isDeleted q window then chain
      else if reference \<notin> set chain then chain
      else if belongToSameApplication q reference window
      then let chain' = removeAll window chain
           in insert_at (nat (index_of chain' reference + 1)) window chain'
      else insert_after_last (belongToSameApplication q reference) window (removeAll window chain))"

section \<open>Operations of the class\<close>

definition FocusChain_remove :: "'w \<Rightarrow> ('w, 'd) focus_chain \<Rightarrow> ('w, 'd) focus_chain" where
  "FocusChain_remove window fc =
     (let fc' = each_chain (\<lambda>d. removeAll window) fc
      in fc'\<lparr>m_mostRecentlyUsed := removeAll window (m_mostRecentlyUsed fc')\<rparr>)"

definition FocusChain_addDesktop :: "'d \<Rightarrow> ('w, 'd) focus_chain \<Rightarrow> ('w, 'd) focus_chain" where
  "FocusChain_addDesktop desktop fc =
     fc\<lparr>m_desktopFocusChains := (m_desktopFocusChains fc)(desktop := Some [])\<rparr>"

definition FocusChain_removeDesktop :: "'d \<Rightarrow> ('w, 'd) focus_chain \<Rightarrow> ('w, 'd) focus_chain" where
  "FocusChain_removeDesktop desktop fc =
     fc\<lparr>m_desktopFocusChains := (m_desktopFocusChains fc)(desktop := None)\<rparr>"

definition FocusChain_setSeparateScreenFocus :: "bool \<Rightarrow> ('w, 'd) focus_chain \<Rightarrow> ('w, 'd) focus_chain" where
  "FocusChain_setSeparateScreenFocus enabled fc = fc\<lparr>m_separateScreenFocus := enabled\<rparr>"

definition FocusChain_setActiveWindow :: "'w option \<Rightarrow> ('w, 'd) focus_chain \<Rightarrow> ('w, 'd) focus_chain" where
  "FocusChain_setActiveWindow window fc = fc\<lparr>m_activeWindow := window\<rparr>"

definition FocusChain_update ::
    "('w, 'd, 'o) queries \<Rightarrow> 'w \<Rightarrow> change \<Rightarrow> ('w, 'd) focus_chain \<Rightarrow> ('w, 'd) focus_chain" where
  "FocusChain_update q window change fc =
     (if \<not> wantsTabFocus q window then FocusChain_remove window fc
      else
        let active = m_activeWindow fc;
            fc' =
              (if isOnAllDesktops q window
               then let current = currentDesktop q (window_output q window)
                    in each_chain (\<lambda>d chain.
                         if d = current \<and> (change = MakeFirst \<or> change = MakeLast)
                         then if change = MakeFirst then makeFirstInChain q window chain
                              else makeLastInChain q window chain
                         else insertWindowIntoChain q active window chain) fc
               else each_chain (\<lambda>d chain.
                      if isOnDesktop q window d then updateWindowInChain q active window change chain
                      else removeAll window chain) fc)
        in fc'\<lparr>m_mostRecentlyUsed := updateWindowInChain q active window change (m_mostRecentlyUsed fc')\<rparr>)"

definition move_in_chains ::
    "('w \<Rightarrow> 'w \<Rightarrow> 'w list \<Rightarrow> 'w list) \<Rightarrow> ('w, 'd, 'o) queries \<Rightarrow> 'w \<Rightarrow> 'w \<Rightarrow>
     ('w, 'd) focus_chain \<Rightarrow> ('w, 'd) focus_chain" where
  "move_in_chains move q window reference fc =
     (if isDeleted q window then fc
      else if \<not> wantsTabFocus q window then fc
      else if reference = window then fc
      else
        let fc' = each_chain (\<lambda>d chain.
              if \<not> isOnDesktop q window d then chain else move window reference chain) fc
        in fc'\<lparr>m_mostRecentlyUsed := move window reference (m_mostRecentlyUsed fc')\<rparr>)"

definition FocusChain_moveAfterWindow ::
    "('w, 'd, 'o) queries \<Rightarrow> 'w \<Rightarrow> 'w \<Rightarrow> ('w, 'd) focus_chain \<Rightarrow> ('w, 'd) focus_chain" where
  "FocusChain_moveAfterWindow q = move_in_chains (moveAfterWindowInChain q) q"

definition FocusChain_moveBeforeWindow ::
    "('w, 'd, 'o) queries \<Rightarrow> 'w \<Rightarrow> 'w \<Rightarrow> ('w, 'd) focus_chain \<Rightarrow> ('w, 'd) focus_chain" where
  "FocusChain_moveBeforeWindow q = move_in_chains (moveBeforeWindowInChain q) q"

section \<open>Queries\<close>

text \<open>The loops from the last element of a chain to its first.\<close>

definition last_such :: "('w \<Rightarrow> bool) \<Rightarrow> 'w list \<Rightarrow> 'w option" where
  "last_such P chain = List.find P (rev chain)"

definition FocusChain_getForActivation ::
    "('w, 'd, 'o) queries \<Rightarrow> ('w, 'd) focus_chain \<Rightarrow> 'd \<Rightarrow> 'o \<Rightarrow> 'w option" where
  "FocusChain_getForActivation q fc desktop out =
     (case m_desktopFocusChains fc desktop of
        None \<Rightarrow> None
      | Some chain \<Rightarrow> last_such (\<lambda>w. isShown q w \<and> isOnCurrentActivity q w \<and>
          (\<not> m_separateScreenFocus fc \<or> window_output q w = out)) chain)"

definition FocusChain_getForActivation_active ::
    "('w, 'd, 'o) queries \<Rightarrow> ('w, 'd) focus_chain \<Rightarrow> 'd \<Rightarrow> 'w option" where
  "FocusChain_getForActivation_active q fc desktop =
     FocusChain_getForActivation q fc desktop (activeOutput q)"

definition FocusChain_firstMostRecentlyUsed :: "('w, 'd) focus_chain \<Rightarrow> 'w option" where
  "FocusChain_firstMostRecentlyUsed fc =
     (if m_mostRecentlyUsed fc = [] then None else Some (hd (m_mostRecentlyUsed fc)))"

definition FocusChain_nextMostRecentlyUsed :: "('w, 'd) focus_chain \<Rightarrow> 'w \<Rightarrow> 'w option" where
  "FocusChain_nextMostRecentlyUsed fc reference =
     (if m_mostRecentlyUsed fc = [] then None
      else let index = index_of (m_mostRecentlyUsed fc) reference
           in if index = -1 then Some (hd (m_mostRecentlyUsed fc))
              else if index = 0 then Some (last (m_mostRecentlyUsed fc))
              else Some (m_mostRecentlyUsed fc ! nat (index - 1)))"

definition isUsableFocusCandidate ::
    "('w, 'd, 'o) queries \<Rightarrow> ('w, 'd) focus_chain \<Rightarrow> 'w \<Rightarrow> 'w option \<Rightarrow> bool" where
  "isUsableFocusCandidate q fc c prev \<longleftrightarrow>
     Some c \<noteq> prev \<and> isShown q c \<and> isOnCurrentDesktop q c \<and> isOnCurrentActivity q c \<and>
     (\<not> m_separateScreenFocus fc \<or>
      isOnOutput q c (case prev of Some p \<Rightarrow> window_output q p | None \<Rightarrow> activeOutput q))"

definition FocusChain_nextForDesktop ::
    "('w, 'd, 'o) queries \<Rightarrow> ('w, 'd) focus_chain \<Rightarrow> 'w option \<Rightarrow> 'd \<Rightarrow> 'w option" where
  "FocusChain_nextForDesktop q fc reference desktop =
     (case m_desktopFocusChains fc desktop of
        None \<Rightarrow> None
      | Some chain \<Rightarrow> last_such (\<lambda>w. isUsableFocusCandidate q fc w reference) chain)"

definition FocusChain_contains :: "('w, 'd) focus_chain \<Rightarrow> 'w \<Rightarrow> bool" where
  "FocusChain_contains fc window \<longleftrightarrow> window \<in> set (m_mostRecentlyUsed fc)"

definition FocusChain_containsOn :: "('w, 'd) focus_chain \<Rightarrow> 'w \<Rightarrow> 'd \<Rightarrow> bool" where
  "FocusChain_containsOn fc window desktop =
     (case m_desktopFocusChains fc desktop of None \<Rightarrow> False | Some chain \<Rightarrow> window \<in> set chain)"

section \<open>What an edit of a chain promises\<close>

locale chain_edit =
  fixes f :: "'w list \<Rightarrow> 'w list" and w :: 'w
  assumes others: "removeAll w (f c) = removeAll w c"
    and keeps_distinct: "distinct c \<Longrightarrow> distinct (f c)"
begin

lemma set_others: "set (f c) - {w} = set c - {w}"
  using arg_cong [OF others, of set c] by simp

lemma member_others: "x \<noteq> w \<Longrightarrow> x \<in> set (f c) \<longleftrightarrow> x \<in> set c"
  using set_others [of c] by auto

lemma set_bound: "set (f c) \<subseteq> insert w (set c)"
  using set_others [of c] by blast

lemma order_others: "w \<notin> A \<Longrightarrow> filter (\<lambda>x. x \<in> A) (f c) = filter (\<lambda>x. x \<in> A) c"
proof -
  assume "w \<notin> A"
  then have "filter (\<lambda>x. x \<in> A) xs = filter (\<lambda>x. x \<in> A) (removeAll w xs)" for xs
    by (simp add: filter_removeAll)
  then show ?thesis using others by metis
qed

end

lemma removeAll_insert_before_first:
  "removeAll w (insert_before_first P w c) = removeAll w c"
  by (induction c) auto

lemma set_insert_before_first: "set (insert_before_first P w c) \<subseteq> insert w (set c)"
  by (induction c) auto

lemma distinct_insert_before_first: "distinct c \<Longrightarrow> w \<notin> set c \<Longrightarrow> distinct (insert_before_first P w c)"
proof (induction c)
  case (Cons x c)
  then show ?case using set_insert_before_first [of P w c] by auto
qed simp

lemma removeAll_rev: "removeAll w (rev c) = rev (removeAll w c)"
  by (induction c) simp_all

interpretation remove_edit: chain_edit "removeAll w" w for w
  by unfold_locales (simp_all add: distinct_removeAll)

interpretation first_edit: chain_edit "makeFirstInChain q w" w for q :: "('w, 'd, 'o) queries" and w
  by unfold_locales (simp_all add: makeFirstInChain_def distinct_removeAll)

interpretation last_edit: chain_edit "makeLastInChain q w" w for q :: "('w, 'd, 'o) queries" and w
  by unfold_locales (simp_all add: makeLastInChain_def distinct_removeAll)

interpretation insert_edit: chain_edit "insertWindowIntoChain q active w" w
  for q :: "('w, 'd, 'o) queries" and active w
  by unfold_locales (simp_all add: insertWindowIntoChain_def distinct_insert_at)

interpretation update_edit: chain_edit "updateWindowInChain q active w change" w
  for q :: "('w, 'd, 'o) queries" and active w change
  by unfold_locales
    (simp_all add: updateWindowInChain_def first_edit.others last_edit.others insert_edit.others
      first_edit.keeps_distinct last_edit.keeps_distinct insert_edit.keeps_distinct)

interpretation after_edit: chain_edit "moveAfterWindowInChain q w r" w
  for q :: "('w, 'd, 'o) queries" and w r
  by unfold_locales
    (simp_all add: moveAfterWindowInChain_def Let_def removeAll_insert_before_first
      distinct_removeAll_insert_at distinct_insert_before_first distinct_removeAll)

interpretation before_edit: chain_edit "moveBeforeWindowInChain q w r" w
  for q :: "('w, 'd, 'o) queries" and w r
  by unfold_locales
    (simp_all add: moveBeforeWindowInChain_def insert_after_last_def Let_def removeAll_rev
      removeAll_insert_before_first distinct_removeAll_insert_at distinct_insert_before_first distinct_removeAll)

section \<open>The chains after an operation\<close>

text \<open>All the chains of the class: the most recently used one (\<open>None\<close>) and those of the desktops.\<close>

definition chain_of :: "('w, 'd) focus_chain \<Rightarrow> 'd option \<Rightarrow> 'w list" where
  "chain_of fc k =
     (case k of None \<Rightarrow> m_mostRecentlyUsed fc
      | Some d \<Rightarrow> (case m_desktopFocusChains fc d of None \<Rightarrow> [] | Some chain \<Rightarrow> chain))"

definition fc_ok :: "('w, 'd) focus_chain \<Rightarrow> bool" where
  "fc_ok fc \<longleftrightarrow> (\<forall>k. distinct (chain_of fc k)) \<and>
     (\<forall>k. set (chain_of fc k) \<subseteq> set (m_mostRecentlyUsed fc))"

lemma chain_of_simps [simp]:
  "chain_of fc None = m_mostRecentlyUsed fc"
  "chain_of (fc\<lparr>m_mostRecentlyUsed := c\<rparr>) (Some d) = chain_of fc (Some d)"
  "m_mostRecentlyUsed (each_chain f fc) = m_mostRecentlyUsed fc"
  "m_activeWindow (each_chain f fc) = m_activeWindow fc"
  by (simp_all add: chain_of_def each_chain_def)

lemma chain_of_each:
  "chain_of (each_chain f fc) (Some d) =
     (if m_desktopFocusChains fc d = None then [] else f d (chain_of fc (Some d)))"
  by (auto simp: chain_of_def each_chain_def)

lemma chain_of_unknown: "m_desktopFocusChains fc d = None \<Longrightarrow> chain_of fc (Some d) = []"
  by (simp add: chain_of_def)

text \<open>The edit that \<open>update\<close> makes to each chain.\<close>

definition update_edit_of ::
    "('w, 'd, 'o) queries \<Rightarrow> 'w option \<Rightarrow> 'w \<Rightarrow> change \<Rightarrow> 'd option \<Rightarrow> 'w list \<Rightarrow> 'w list" where
  "update_edit_of q active w change k =
     (case k of None \<Rightarrow> updateWindowInChain q active w change
      | Some d \<Rightarrow>
          if isOnAllDesktops q w
          then if d = currentDesktop q (window_output q w) then updateWindowInChain q active w change
               else insertWindowIntoChain q active w
          else if isOnDesktop q w d then updateWindowInChain q active w change
          else removeAll w)"

lemma chain_of_update:
  assumes "wantsTabFocus q w" and "k = None \<or> (\<exists>d. k = Some d \<and> m_desktopFocusChains fc d \<noteq> None)"
  shows "chain_of (FocusChain_update q w change fc) k =
         update_edit_of q (m_activeWindow fc) w change k (chain_of fc k)"
  using assms
  by (cases k; cases change)
    (auto simp: FocusChain_update_def update_edit_of_def chain_of_each Let_def updateWindowInChain_def)

lemma chain_of_update_unknown:
  "m_desktopFocusChains fc d = None \<Longrightarrow> chain_of (FocusChain_update q w change fc) (Some d) = []"
  by (auto simp: FocusChain_update_def chain_of_each Let_def FocusChain_remove_def)

lemma update_edit_of_cases:
  obtains "update_edit_of q active w change k = updateWindowInChain q active w change"
  | "update_edit_of q active w change k = insertWindowIntoChain q active w"
  | "update_edit_of q active w change k = removeAll w"
proof -
  have "update_edit_of q active w change k \<in>
      {updateWindowInChain q active w change, insertWindowIntoChain q active w, removeAll w}"
    by (simp add: update_edit_of_def split: option.split)
  then show thesis using that by blast
qed

interpretation update_of: chain_edit "update_edit_of q active w change k" w
  for q :: "('w, 'd, 'o) queries" and active w change k
proof (unfold_locales, goal_cases)
  case (1 c)
  show ?case
    by (rule update_edit_of_cases [of q active w change k]) (simp_all only: update_edit.others insert_edit.others remove_edit.others)
next
  case (2 c)
  then show ?case
    by (rule_tac update_edit_of_cases [of q active w change k])
      (simp_all only: update_edit.keeps_distinct insert_edit.keeps_distinct remove_edit.keeps_distinct)
qed

lemma chain_of_remove: "chain_of (FocusChain_remove w fc) k = removeAll w (chain_of fc k)"
  by (cases k) (auto simp: FocusChain_remove_def chain_of_each Let_def chain_of_unknown)

lemma mem_update:
  assumes "\<not> isDeleted q w"
  shows "w \<in> set (updateWindowInChain q active w change c)" and "w \<in> set (insertWindowIntoChain q active w c)"
  using assms by (auto simp: updateWindowInChain_def makeFirstInChain_def makeLastInChain_def insertWindowIntoChain_def)

lemma deleted_update:
  assumes "isDeleted q w"
  shows "updateWindowInChain q active w change c = c" and "insertWindowIntoChain q active w c = c"
  using assms by (auto simp: updateWindowInChain_def makeFirstInChain_def makeLastInChain_def insertWindowIntoChain_def)

lemma mem_update_of:
  assumes "x \<in> set (update_edit_of q active w change k c)"
  shows "x \<in> set c \<or> x = w \<and> \<not> isDeleted q w"
proof (cases "x = w")
  case False
  then show ?thesis using assms by (simp add: update_of.member_others [OF False])
next
  case True
  show ?thesis
  proof (cases "isDeleted q w")
    case del: True
    have "set (update_edit_of q active w change k c) \<subseteq> set c"
      by (rule update_edit_of_cases [of q active w change k]) (simp_all only: deleted_update [OF del], auto)
    then show ?thesis using assms by blast
  qed (use True in simp)
qed

text \<open>The edit that a move makes to each chain.\<close>

lemma chain_of_move:
  assumes "\<not> isDeleted q w" "wantsTabFocus q w" "r \<noteq> w"
  shows "chain_of (move_in_chains move q w r fc) (Some d) =
      (if m_desktopFocusChains fc d = None then [] else
       if isOnDesktop q w d then move w r (chain_of fc (Some d)) else chain_of fc (Some d))"
    and "chain_of (move_in_chains move q w r fc) None = move w r (chain_of fc None)"
  using assms by (simp_all add: move_in_chains_def Let_def chain_of_each)

lemma move_skip:
  "isDeleted q w \<or> \<not> wantsTabFocus q w \<or> r = w \<Longrightarrow> move_in_chains move q w r fc = fc"
  by (auto simp: move_in_chains_def)

lemma move_unlisted:
  "r \<notin> set c \<Longrightarrow> moveAfterWindowInChain q w r c = c" "r \<notin> set c \<Longrightarrow> moveBeforeWindowInChain q w r c = c"
  by (simp_all add: moveAfterWindowInChain_def moveBeforeWindowInChain_def)

lemma insert_before_first_split:
  "P r \<Longrightarrow> r \<in> set c \<Longrightarrow> \<exists>a b. c = a @ b \<and> insert_before_first P w c = a @ w # b \<and> b \<noteq> [] \<and> P (hd b) \<and> (\<forall>x \<in> set a. \<not> P x)"
proof (induction c)
  case (Cons x c)
  show ?case
  proof (cases "P x")
    case True
    then show ?thesis by (intro exI [of _ "[]"] exI [of _ "x # c"]) simp
  next
    case False
    then obtain a b where "c = a @ b" "insert_before_first P w c = a @ w # b" "b \<noteq> []" "P (hd b)" "\<forall>x \<in> set a. \<not> P x"
      using Cons by auto
    with False show ?thesis by (intro exI [of _ "x # a"] exI [of _ b]) simp
  qed
qed simp

section \<open>Runs\<close>

text \<open>The public operations, each with the queries as they are when it is called.\<close>

datatype ('w, 'd, 'o) fc_event =
    Ev_update "('w, 'd, 'o) queries" 'w change
  | Ev_remove 'w
  | Ev_addDesktop 'd
  | Ev_removeDesktop 'd
  | Ev_moveAfter "('w, 'd, 'o) queries" 'w 'w
  | Ev_moveBefore "('w, 'd, 'o) queries" 'w 'w
  | Ev_setSeparateScreenFocus bool
  | Ev_setActiveWindow "'w option"

fun fc_apply :: "('w, 'd, 'o) fc_event \<Rightarrow> ('w, 'd) focus_chain \<Rightarrow> ('w, 'd) focus_chain" where
  "fc_apply (Ev_update q w change) fc = FocusChain_update q w change fc"
| "fc_apply (Ev_remove w) fc = FocusChain_remove w fc"
| "fc_apply (Ev_addDesktop d) fc = FocusChain_addDesktop d fc"
| "fc_apply (Ev_removeDesktop d) fc = FocusChain_removeDesktop d fc"
| "fc_apply (Ev_moveAfter q w r) fc = FocusChain_moveAfterWindow q w r fc"
| "fc_apply (Ev_moveBefore q w r) fc = FocusChain_moveBeforeWindow q w r fc"
| "fc_apply (Ev_setSeparateScreenFocus b) fc = FocusChain_setSeparateScreenFocus b fc"
| "fc_apply (Ev_setActiveWindow w) fc = FocusChain_setActiveWindow w fc"

text \<open>A window belongs to its own application; the moves rely on it.\<close>

fun event_ok :: "('w, 'd, 'o) fc_event \<Rightarrow> bool" where
  "event_ok (Ev_moveAfter q w r) \<longleftrightarrow> belongToSameApplication q r r"
| "event_ok (Ev_moveBefore q w r) \<longleftrightarrow> belongToSameApplication q r r"
| "event_ok _ \<longleftrightarrow> True"

inductive fc_reachable :: "('w, 'd, 'o) fc_event list \<Rightarrow> ('w, 'd) focus_chain \<Rightarrow> bool" where
  start: "fc_reachable [] FocusChain_new"
| step: "fc_reachable es fc \<Longrightarrow> event_ok e \<Longrightarrow> fc_reachable (es @ [e]) (fc_apply e fc)"

inductive_cases fc_reachable_snocE: "fc_reachable es fc"

lemma insert_after_last_split:
  assumes "P r" "r \<in> set c"
  shows "\<exists>a b. c = a @ b \<and> insert_after_last P w c = a @ w # b \<and> a \<noteq> [] \<and> P (last a) \<and> (\<forall>x \<in> set b. \<not> P x)"
proof -
  obtain a b where "rev c = a @ b" "insert_before_first P w (rev c) = a @ w # b" "b \<noteq> []" "P (hd b)"
    "\<forall>x \<in> set a. \<not> P x"
    using insert_before_first_split [of P r "rev c" w] assms by auto
  then show ?thesis
    by (intro exI [of _ "rev b"] exI [of _ "rev a"])
      (simp add: insert_after_last_def rev_swap last_rev)
qed

lemma removeAll_index:
  assumes "r \<noteq> w" "r \<in> set c"
  obtains a b where "removeAll w c = a @ r # b" "index_of (removeAll w c) r = int (length a)"
  using index_of_split [of r "removeAll w c"] assms by auto

lemma moveAfter_place:
  assumes "\<not> isDeleted q w" "r \<noteq> w" "r \<in> set c" "belongToSameApplication q r r"
  shows "\<exists>a b. removeAll w c = a @ b \<and> moveAfterWindowInChain q w r c = a @ w # b \<and> b \<noteq> [] \<and>
    belongToSameApplication q r (hd b) \<and> (belongToSameApplication q r w \<longrightarrow> hd b = r)"
proof (cases "belongToSameApplication q r w")
  case True
  obtain a b where "removeAll w c = a @ r # b" "index_of (removeAll w c) r = int (length a)"
    using removeAll_index [OF assms(2,3)] .
  then show ?thesis
    using assms True by (intro exI [of _ a] exI [of _ "r # b"]) (simp add: moveAfterWindowInChain_def Let_def)
next
  case False
  have "r \<in> set (removeAll w c)" using assms by simp
  then show ?thesis
    using insert_before_first_split [of "belongToSameApplication q r" r "removeAll w c" w] assms False
    by (auto simp: moveAfterWindowInChain_def)
qed

lemma moveBefore_place:
  assumes "\<not> isDeleted q w" "r \<noteq> w" "r \<in> set c" "belongToSameApplication q r r"
  shows "\<exists>a b. removeAll w c = a @ b \<and> moveBeforeWindowInChain q w r c = a @ w # b \<and> a \<noteq> [] \<and>
    belongToSameApplication q r (last a) \<and> (belongToSameApplication q r w \<longrightarrow> last a = r)"
proof (cases "belongToSameApplication q r w")
  case True
  obtain a b where ab: "removeAll w c = a @ r # b" "index_of (removeAll w c) r = int (length a)"
    using removeAll_index [OF assms(2,3)] .
  have "nat (int (length a) + 1) = length (a @ [r])" by simp
  then have "insert_at (nat (int (length a) + 1)) w (a @ r # b) = (a @ [r]) @ w # b"
    using insert_at_append [of "a @ [r]" w b] by simp
  then show ?thesis
    using ab assms True by (intro exI [of _ "a @ [r]"] exI [of _ b]) (simp add: moveBeforeWindowInChain_def Let_def)
next
  case False
  have "r \<in> set (removeAll w c)" using assms by simp
  then show ?thesis
    using insert_after_last_split [of "belongToSameApplication q r" r "removeAll w c" w] assms False
    by (auto simp: moveBeforeWindowInChain_def)
qed

lemma fc_ok_update:
  assumes ok: "fc_ok fc"
  shows "fc_ok (FocusChain_update q w change fc)"
proof (cases "wantsTabFocus q w")
  case False
  then have "FocusChain_update q w change fc = FocusChain_remove w fc" by (simp add: FocusChain_update_def)
  moreover have "m_mostRecentlyUsed (FocusChain_remove w fc) = removeAll w (m_mostRecentlyUsed fc)"
    using chain_of_remove [of w fc None] by simp
  ultimately show ?thesis
    using ok by (auto simp: fc_ok_def chain_of_remove distinct_removeAll)
next
  case True
  let ?fc = "FocusChain_update q w change fc" and ?act = "m_activeWindow fc"
  have mru: "m_mostRecentlyUsed ?fc = update_edit_of q ?act w change None (m_mostRecentlyUsed fc)"
    using chain_of_update [OF True, of None] by simp
  have chain: "chain_of ?fc k = [] \<or> chain_of ?fc k = update_edit_of q ?act w change k (chain_of fc k)" for k
  proof (cases "\<exists>d. k = Some d \<and> m_desktopFocusChains fc d = None")
    case True
    then show ?thesis by (auto simp: chain_of_update_unknown)
  next
    case False
    then have "k = None \<or> (\<exists>d. k = Some d \<and> m_desktopFocusChains fc d \<noteq> None)" by (cases k) auto
    from chain_of_update [OF True this] show ?thesis by blast
  qed
  have "distinct (chain_of ?fc k)" for k
    using chain [of k] ok update_of.keeps_distinct unfolding fc_ok_def by fastforce
  moreover have "x \<in> set (m_mostRecentlyUsed ?fc)" if "x \<in> set (chain_of ?fc k)" for x k
  proof -
    have "x \<in> set (update_edit_of q ?act w change k (chain_of fc k))" using chain [of k] that by auto
    from mem_update_of [OF this] have x: "x \<in> set (m_mostRecentlyUsed fc) \<or> x = w \<and> \<not> isDeleted q w"
      using ok by (auto simp: fc_ok_def)
    have upd: "update_edit_of q ?act w change None = updateWindowInChain q ?act w change"
      by (simp add: update_edit_of_def)
    show ?thesis
    proof (cases "x = w")
      case False
      then show ?thesis using x unfolding mru by (simp add: update_of.member_others [OF False])
    next
      case True
      then show ?thesis using x unfolding mru upd
        by (cases "isDeleted q w") (simp_all add: mem_update deleted_update)
    qed
  qed
  ultimately show ?thesis unfolding fc_ok_def by blast
qed

lemma fc_ok_move:
  assumes ok: "fc_ok fc"
    and edit: "\<And>c. chain_edit (move w r) w" and skip: "\<And>c. r \<notin> set c \<Longrightarrow> move w r c = c"
    and mem: "\<And>c. \<not> isDeleted q w \<Longrightarrow> r \<noteq> w \<Longrightarrow> r \<in> set c \<Longrightarrow> w \<in> set (move w r c)"
  shows "fc_ok (move_in_chains move q w r fc)"
proof (cases "isDeleted q w \<or> \<not> wantsTabFocus q w \<or> r = w")
  case True
  then show ?thesis using ok by (simp add: move_skip)
next
  case False
  let ?fc = "move_in_chains move q w r fc"
  note eqs = chain_of_move [of q w r move fc]
  have chain: "chain_of ?fc k \<in> {[], chain_of fc k, move w r (chain_of fc k)}" for k
    using eqs False by (cases k) auto
  have dist: "distinct (chain_of ?fc k)" for k
  proof -
    have "distinct (chain_of fc k)" using ok by (simp add: fc_ok_def)
    then show ?thesis using chain [of k] chain_edit.keeps_distinct [OF edit] by auto
  qed
  have mru: "m_mostRecentlyUsed ?fc = move w r (m_mostRecentlyUsed fc)" using eqs(2) False by simp
  have "x \<in> set (m_mostRecentlyUsed ?fc)" if x: "x \<in> set (chain_of ?fc k)" for x k
  proof (cases "x = w")
    case ne: False
    have iff: "x \<in> set (move w r c) \<longleftrightarrow> x \<in> set c" for c by (rule chain_edit.member_others [OF edit ne])
    have "x \<in> set (chain_of fc k)" using x chain [of k] by (auto simp: iff)
    then show ?thesis using ok by (auto simp: mru iff fc_ok_def)
  next
    case eq: True
    show ?thesis
    proof (cases "r \<in> set (m_mostRecentlyUsed fc)")
      case True
      then show ?thesis using mem False by (simp add: mru eq)
    next
      case no: False
      then have "r \<notin> set (chain_of fc k)" using ok by (auto simp: fc_ok_def)
      then have "x \<in> set (chain_of fc k)" using x chain [of k] skip by auto
      then show ?thesis using ok no by (auto simp: mru skip fc_ok_def)
    qed
  qed
  then show ?thesis using dist by (auto simp: fc_ok_def)
qed

lemma fc_ok_after: "belongToSameApplication q r r \<Longrightarrow> fc_ok fc \<Longrightarrow> fc_ok (FocusChain_moveAfterWindow q w r fc)"
  unfolding FocusChain_moveAfterWindow_def
proof (rule fc_ok_move)
  show "chain_edit (moveAfterWindowInChain q w r) w" by (rule after_edit.chain_edit_axioms)
  show "r \<notin> set c \<Longrightarrow> moveAfterWindowInChain q w r c = c" for c by (rule move_unlisted)
  show "belongToSameApplication q r r \<Longrightarrow> \<not> isDeleted q w \<Longrightarrow> r \<noteq> w \<Longrightarrow> r \<in> set c \<Longrightarrow>
      w \<in> set (moveAfterWindowInChain q w r c)" for c
    using moveAfter_place [of q w r c] by auto
qed

lemma fc_ok_before: "belongToSameApplication q r r \<Longrightarrow> fc_ok fc \<Longrightarrow> fc_ok (FocusChain_moveBeforeWindow q w r fc)"
  unfolding FocusChain_moveBeforeWindow_def
proof (rule fc_ok_move)
  show "chain_edit (moveBeforeWindowInChain q w r) w" by (rule before_edit.chain_edit_axioms)
  show "r \<notin> set c \<Longrightarrow> moveBeforeWindowInChain q w r c = c" for c by (rule move_unlisted)
  show "belongToSameApplication q r r \<Longrightarrow> \<not> isDeleted q w \<Longrightarrow> r \<noteq> w \<Longrightarrow> r \<in> set c \<Longrightarrow>
      w \<in> set (moveBeforeWindowInChain q w r c)" for c
    using moveBefore_place [of q w r c] by auto
qed

lemma fc_ok_remove: "fc_ok fc \<Longrightarrow> fc_ok (FocusChain_remove w fc)"
  using chain_of_remove [of w fc None] by (auto simp: fc_ok_def chain_of_remove distinct_removeAll)

lemma fc_ok_others:
  "fc_ok fc \<Longrightarrow> fc_ok (FocusChain_addDesktop d fc)" "fc_ok fc \<Longrightarrow> fc_ok (FocusChain_removeDesktop d fc)"
  "fc_ok fc \<Longrightarrow> fc_ok (FocusChain_setSeparateScreenFocus b fc)"
  "fc_ok fc \<Longrightarrow> fc_ok (FocusChain_setActiveWindow a fc)" "fc_ok FocusChain_new"
  by (auto simp: fc_ok_def chain_of_def FocusChain_addDesktop_def FocusChain_removeDesktop_def
      FocusChain_setSeparateScreenFocus_def FocusChain_setActiveWindow_def FocusChain_new_def
      split: option.splits if_splits)

lemma fc_ok_apply: "event_ok e \<Longrightarrow> fc_ok fc \<Longrightarrow> fc_ok (fc_apply e fc)"
  by (cases e) (simp_all add: fc_ok_update fc_ok_remove fc_ok_others fc_ok_after fc_ok_before)

lemma fc_ok_reachable: "fc_reachable es fc \<Longrightarrow> fc_ok fc"
  by (induction rule: fc_reachable.induct) (simp_all add: fc_ok_others fc_ok_apply)

text \<open>Which events can bring a window into a chain.\<close>

fun inserts :: "('w, 'd, 'o) fc_event \<Rightarrow> 'w \<Rightarrow> bool" where
  "inserts (Ev_update q w change) x \<longleftrightarrow> w = x \<and> \<not> isDeleted q x \<and> wantsTabFocus q x"
| "inserts (Ev_moveAfter q w r) x \<longleftrightarrow> w = x \<and> \<not> isDeleted q x \<and> wantsTabFocus q x"
| "inserts (Ev_moveBefore q w r) x \<longleftrightarrow> w = x \<and> \<not> isDeleted q x \<and> wantsTabFocus q x"
| "inserts _ x \<longleftrightarrow> False"

lemma move_not_inserted:
  assumes edit: "chain_edit (move w r) w" and no: "x = w \<longrightarrow> isDeleted q w \<or> \<not> wantsTabFocus q w"
    and "x \<notin> set (chain_of fc k)"
  shows "x \<notin> set (chain_of (move_in_chains move q w r fc) k)"
proof (cases "isDeleted q w \<or> \<not> wantsTabFocus q w \<or> r = w")
  case True
  then show ?thesis using assms(3) by (simp add: move_skip)
next
  case False
  then have ne: "x \<noteq> w" using no by blast
  have iff: "x \<in> set (move w r c) \<longleftrightarrow> x \<in> set c" for c by (rule chain_edit.member_others [OF edit ne])
  show ?thesis
    using assms(3) False chain_of_move [of q w r move fc] by (cases k) (auto simp: iff)
qed

lemma apply_not_inserted:
  assumes "\<not> inserts e x" and "x \<notin> set (chain_of fc k)"
  shows "x \<notin> set (chain_of (fc_apply e fc) k)"
proof (cases e)
  case (Ev_update q w change)
  show ?thesis
  proof (cases "wantsTabFocus q w")
    case False
    then have "fc_apply e fc = FocusChain_remove w fc" by (simp add: Ev_update FocusChain_update_def)
    then show ?thesis using assms(2) by (simp add: chain_of_remove)
  next
    case True
    show ?thesis
    proof (cases "\<exists>d. k = Some d \<and> m_desktopFocusChains fc d = None")
      case True
      then show ?thesis by (auto simp: chain_of_update_unknown Ev_update)
    next
      case False
      then have "k = None \<or> (\<exists>d. k = Some d \<and> m_desktopFocusChains fc d \<noteq> None)" by (cases k) auto
      from chain_of_update [OF True this, of change] show ?thesis
        using mem_update_of [of x q "m_activeWindow fc" w change k "chain_of fc k"] assms True
        by (auto simp: Ev_update)
    qed
  qed
next
  case (Ev_moveAfter q w r)
  have "x \<notin> set (chain_of (move_in_chains (moveAfterWindowInChain q) q w r fc) k)"
    by (rule move_not_inserted [OF after_edit.chain_edit_axioms]) (use assms in \<open>auto simp: Ev_moveAfter\<close>)
  then show ?thesis by (simp add: Ev_moveAfter FocusChain_moveAfterWindow_def)
next
  case (Ev_moveBefore q w r)
  have "x \<notin> set (chain_of (move_in_chains (moveBeforeWindowInChain q) q w r fc) k)"
    by (rule move_not_inserted [OF before_edit.chain_edit_axioms]) (use assms in \<open>auto simp: Ev_moveBefore\<close>)
  then show ?thesis by (simp add: Ev_moveBefore FocusChain_moveBeforeWindow_def)
next
  case (Ev_remove w)
  then show ?thesis using assms(2) by (simp add: chain_of_remove)
qed (use assms in \<open>auto simp: chain_of_def FocusChain_addDesktop_def FocusChain_removeDesktop_def
      FocusChain_setSeparateScreenFocus_def FocusChain_setActiveWindow_def split: option.splits if_splits\<close>)

definition fc_run :: "('w, 'd, 'o) fc_event list \<Rightarrow> ('w, 'd) focus_chain \<Rightarrow> ('w, 'd) focus_chain" where
  "fc_run es fc = foldl (\<lambda>s e. fc_apply e s) fc es"

lemma run_not_inserted:
  "\<forall>e \<in> set es. \<not> inserts e x \<Longrightarrow> x \<notin> set (chain_of fc k) \<Longrightarrow> x \<notin> set (chain_of (fc_run es fc) k)"
  unfolding fc_run_def by (induction es arbitrary: fc) (simp_all add: apply_not_inserted)

end
