(* ===== verification/FocusChainProps.thy ===== *)
theory FocusChainProps
  imports FocusChain
begin

text \<open>
  The properties of \<open>FocusChain\<close>. The samples have windows 1, 2, \<dots> on desktop 0 or 1 by parity, all of
  them shown and wanting focus.
\<close>

definition sample_queries :: "(nat, nat, unit) queries" where
  "sample_queries =
     \<lparr>wantsTabFocus = (\<lambda>w. True), isDeleted = (\<lambda>w. False), isOnAllDesktops = (\<lambda>w. False),
      isOnDesktop = (\<lambda>w d. w mod 2 = d), isOnCurrentDesktop = (\<lambda>w. True), isShown = (\<lambda>w. True),
      isOnCurrentActivity = (\<lambda>w. True), window_output = (\<lambda>w. ()), isOnOutput = (\<lambda>w out. True),
      belongToSameApplication = (\<lambda>a b. a mod 3 = b mod 3), activeOutput = (), currentDesktop = (\<lambda>out. 0)\<rparr>"

definition sample_chain :: "(nat, nat) focus_chain" where
  "sample_chain =
     \<lparr>m_mostRecentlyUsed = [1, 2, 3, 4], m_desktopFocusChains = (\<lambda>d. None)(0 := Some [2, 4], 1 := Some [1, 3]),
      m_separateScreenFocus = False, m_activeWindow = Some 4\<rparr>"

definition sample_events :: "(nat, nat, unit) fc_event list" where
  "sample_events =
     [Ev_addDesktop 0, Ev_addDesktop 1, Ev_update sample_queries 1 MakeFirst, Ev_update sample_queries 2 MakeFirst,
      Ev_update sample_queries 3 MakeFirst]"

section \<open>Updates\<close>



section \<open>Invariants of runs\<close>

text \<open>
  C11: in every state that the public operations can reach, no chain lists a window twice, and every
  window in the chain of a desktop is also in the most recently used chain.
\<close>
theorem chains_invariant:
  assumes "fc_reachable es fc"
  shows "(\<forall>k. distinct (chain_of fc k)) \<and> (\<forall>k. set (chain_of fc k) \<subseteq> set (m_mostRecentlyUsed fc))"
  using fc_ok_reachable [OF assms] by (simp add: fc_ok_def)

lemma sample_reachable: "fc_reachable sample_events (fc_run sample_events FocusChain_new)"
proof -
  have "fc_reachable es (fc_run es FocusChain_new)" if "list_all event_ok es" for es :: "(nat, nat, unit) fc_event list"
    using that
  proof (induction es rule: rev_induct)
    case (snoc e es)
    then show ?case using fc_reachable.step [of es "fc_run es FocusChain_new" e] by (simp add: fc_run_def)
  qed (simp add: fc_run_def fc_reachable.start)
  then show ?thesis by (simp add: sample_events_def)
qed

theorem chains_invariant_witness:
  "distinct (chain_of (fc_run sample_events FocusChain_new) (Some 1)) \<and>
   chain_of (fc_run sample_events FocusChain_new) (Some 1) = [1, 3]"
proof -
  have "chain_of (fc_run sample_events FocusChain_new) (Some 1) = [1, 3]" by code_simp
  then show ?thesis using chains_invariant [OF sample_reachable] by blast
qed

text \<open>
  a removed window is in no chain, and stays out of all chains, whatever operations follow, until
  an \<open>update\<close> or a move is called for that window itself while it wants focus and is not deleted; so
  the class keeps no dangling pointer to a removed window.
\<close>
lemma removed_stays_out:
  assumes "\<forall>e \<in> set es. \<not> inserts e w"
  shows "w \<notin> set (chain_of (fc_run (Ev_remove w # es) fc) k)"
proof -
  have "w \<notin> set (chain_of (fc_apply (Ev_remove w) fc) k)" by (simp add: chain_of_remove)
  from run_not_inserted [OF assms this] show ?thesis by (simp add: fc_run_def)
qed

lemma removed_stays_out_witness:
  "2 \<notin> set (chain_of (fc_run (Ev_remove 2 # [Ev_update sample_queries 4 MakeLast, Ev_moveAfter sample_queries 1 4,
     Ev_moveBefore sample_queries 3 2]) sample_chain) None)"
  by (rule removed_stays_out) simp

section \<open>Choosing the next window\<close>

lemma last_such_Some:
  "last_such P chain = Some x \<longleftrightarrow> (\<exists>a b. chain = a @ x # b \<and> P x \<and> (\<forall>y \<in> set b. \<not> P y))"
proof (induction chain rule: rev_induct)
  case (snoc y chain)
  show ?case
  proof (cases "P y")
    case True
    have "(\<exists>a b. chain @ [y] = a @ x # b \<and> P x \<and> (\<forall>z \<in> set b. \<not> P z)) \<longleftrightarrow> x = y"
    proof
      assume "\<exists>a b. chain @ [y] = a @ x # b \<and> P x \<and> (\<forall>z \<in> set b. \<not> P z)"
      then obtain a b where ab: "chain @ [y] = a @ x # b" "\<forall>z \<in> set b. \<not> P z" by blast
      show "x = y"
      proof (cases b rule: rev_cases)
        case (snoc b' z)
        then show ?thesis using ab True by auto
      qed (use ab in simp)
    next
      assume "x = y"
      then show "\<exists>a b. chain @ [y] = a @ x # b \<and> P x \<and> (\<forall>z \<in> set b. \<not> P z)"
        using True by (intro exI [of _ chain] exI [of _ "[]"]) simp
    qed
    then show ?thesis using True by (auto simp: last_such_def)
  next
    case False
    then have "last_such P (chain @ [y]) = last_such P chain" by (simp add: last_such_def)
    moreover have "(\<exists>a b. chain @ [y] = a @ x # b \<and> P x \<and> (\<forall>z \<in> set b. \<not> P z)) \<longleftrightarrow>
        (\<exists>a b. chain = a @ x # b \<and> P x \<and> (\<forall>z \<in> set b. \<not> P z))" (is "?l \<longleftrightarrow> ?r")
    proof
      assume ?l
      then obtain a b where ab: "chain @ [y] = a @ x # b" "P x" "\<forall>z \<in> set b. \<not> P z" by blast
      then have "b \<noteq> []" using False by auto
      then have "chain = a @ x # butlast b"
        using arg_cong [OF ab(1), of butlast] by (simp add: butlast_append)
      moreover have "\<forall>z \<in> set (butlast b). \<not> P z" using ab(3) by (meson in_set_butlastD)
      ultimately show ?r using ab(2) by blast
    next
      assume ?r
      then obtain a b where "chain = a @ x # b" "P x" "\<forall>z \<in> set b. \<not> P z" by blast
      then show ?l using False by (intro exI [of _ a] exI [of _ "b @ [y]"]) auto
    qed
    ultimately show ?thesis using snoc.IH by simp
  qed
qed (simp add: last_such_def)

text \<open>
  \<open>getForActivation\<close> returns the most recently used window of the desktop that is shown, on the
  current activity and, with separate screen focus, on the given output: no such window stands after
  it in the chain; and it returns none only when the chain has no such window.
\<close>
lemma getForActivation_most_recent:
  assumes "m_desktopFocusChains fc desktop = Some chain"
  shows "case FocusChain_getForActivation q fc desktop out of
      Some w \<Rightarrow> \<exists>older newer. chain = older @ w # newer \<and>
        isShown q w \<and> isOnCurrentActivity q w \<and> (m_separateScreenFocus fc \<longrightarrow> window_output q w = out) \<and>
        (\<forall>v \<in> set newer. \<not> (isShown q v \<and> isOnCurrentActivity q v \<and>
           (m_separateScreenFocus fc \<longrightarrow> window_output q v = out)))
    | None \<Rightarrow> \<forall>v \<in> set chain. \<not> (isShown q v \<and> isOnCurrentActivity q v \<and>
           (m_separateScreenFocus fc \<longrightarrow> window_output q v = out))"
proof (cases "FocusChain_getForActivation q fc desktop out")
  case None
  then have "\<forall>v \<in> set chain. \<not> (isShown q v \<and> isOnCurrentActivity q v \<and>
      (m_separateScreenFocus fc \<longrightarrow> window_output q v = out))"
    using assms by (auto simp: FocusChain_getForActivation_def last_such_def find_None_iff)
  then show ?thesis by (simp add: None)
next
  case (Some w)
  then have "last_such (\<lambda>w. isShown q w \<and> isOnCurrentActivity q w \<and>
      (\<not> m_separateScreenFocus fc \<or> window_output q w = out)) chain = Some w"
    using assms by (simp add: FocusChain_getForActivation_def)
  then show ?thesis unfolding last_such_Some Some by auto
qed

lemma getForActivation_most_recent_witness:
  "FocusChain_getForActivation sample_queries sample_chain 1 () = Some 3 \<and>
   (\<exists>older newer. [1, 3 :: nat] = older @ 3 # newer)"
proof -
  have "FocusChain_getForActivation sample_queries sample_chain 1 () = Some 3" by code_simp
  moreover have "m_desktopFocusChains sample_chain 1 = Some [1, 3]" by (simp add: sample_chain_def)
  ultimately show ?thesis
    using getForActivation_most_recent [of sample_chain 1 "[1, 3]" sample_queries "()"] by auto
qed

text \<open>
  after a window was made first by \<open>update\<close>, switching to a desktop whose chain the change reaches
  activates it: \<open>getForActivation\<close> returns this window when it may be activated.
\<close>
lemma made_first_is_activated:
  assumes "wantsTabFocus q w" and "\<not> isDeleted q w" and "m_desktopFocusChains fc d \<noteq> None"
    and "if isOnAllDesktops q w then d = currentDesktop q (window_output q w) else isOnDesktop q w d"
    and "isShown q w" and "isOnCurrentActivity q w"
  shows "FocusChain_getForActivation q (FocusChain_update q w MakeFirst fc) d (window_output q w) = Some w"
proof -
  let ?fc = "FocusChain_update q w MakeFirst fc"
  have "chain_of ?fc (Some d) = update_edit_of q (m_activeWindow fc) w MakeFirst (Some d) (chain_of fc (Some d))"
    using chain_of_update [OF assms(1), of "Some d"] assms(3) by auto
  also have "\<dots> = removeAll w (chain_of fc (Some d)) @ [w]"
    using assms(2,4) by (simp add: update_edit_of_def updateWindowInChain_def makeFirstInChain_def split: if_splits)
  finally have "chain_of ?fc (Some d) = removeAll w (chain_of fc (Some d)) @ [w]" .
  then have "m_desktopFocusChains ?fc d = Some (removeAll w (chain_of fc (Some d)) @ [w])"
    by (auto simp: chain_of_def split: option.splits)
  then show ?thesis using assms(5,6) by (simp add: FocusChain_getForActivation_def last_such_def)
qed

lemma made_first_is_activated_witness:
  "FocusChain_getForActivation sample_queries (FocusChain_update sample_queries 2 MakeFirst sample_chain) 0 () = Some 2"
  using made_first_is_activated [of sample_queries 2 sample_chain 0]
  by (simp add: sample_queries_def sample_chain_def)

section \<open>Moving\<close>

text \<open>
  \<open>moveAfterWindow\<close> and \<open>moveBeforeWindow\<close> place a window right behind, or right in front of the
  reference when the two belong to the same application, else behind the last, or in front of the
  first window of the reference's application; the other windows keep their order.
\<close>
lemma move_places_window:
  assumes "\<not> isDeleted q w" and "wantsTabFocus q w" and "r \<noteq> w" and "r \<in> set (m_mostRecentlyUsed fc)"
    and "belongToSameApplication q r r"
  shows "(\<exists>a b. removeAll w (m_mostRecentlyUsed fc) = a @ b \<and>
            m_mostRecentlyUsed (FocusChain_moveAfterWindow q w r fc) = a @ w # b \<and> b \<noteq> [] \<and>
            belongToSameApplication q r (hd b) \<and> (belongToSameApplication q r w \<longrightarrow> hd b = r)) \<and>
         (\<exists>a b. removeAll w (m_mostRecentlyUsed fc) = a @ b \<and>
            m_mostRecentlyUsed (FocusChain_moveBeforeWindow q w r fc) = a @ w # b \<and> a \<noteq> [] \<and>
            belongToSameApplication q r (last a) \<and> (belongToSameApplication q r w \<longrightarrow> last a = r))"
  using moveAfter_place [OF assms(1,3,4,5)] moveBefore_place [OF assms(1,3,4,5)]
    chain_of_move(2) [OF assms(1-3), of "moveAfterWindowInChain q" fc]
    chain_of_move(2) [OF assms(1-3), of "moveBeforeWindowInChain q" fc]
  by (simp add: FocusChain_moveAfterWindow_def FocusChain_moveBeforeWindow_def)

lemma move_places_window_witness:
  "\<exists>a b. m_mostRecentlyUsed (FocusChain_moveAfterWindow sample_queries 1 4 sample_chain) = a @ 1 # b \<and> hd b = 4"
  using move_places_window [of sample_queries 1 4 sample_chain]
  by (auto simp: sample_queries_def sample_chain_def)

section \<open>Walking the most recently used chain\<close>

text \<open>The next window, where the chain is not empty.\<close>

definition next_in :: "('w, 'd) focus_chain \<Rightarrow> 'w \<Rightarrow> 'w" where
  "next_in fc w = the (FocusChain_nextMostRecentlyUsed fc w)"

lemma next_in_nth:
  assumes "distinct (m_mostRecentlyUsed fc)" and "i < length (m_mostRecentlyUsed fc)"
  shows "FocusChain_nextMostRecentlyUsed fc (m_mostRecentlyUsed fc ! i) =
    Some (m_mostRecentlyUsed fc ! nat ((int i - 1) mod int (length (m_mostRecentlyUsed fc))))"
proof -
  let ?c = "m_mostRecentlyUsed fc"
  have ne: "?c \<noteq> []" using assms(2) by auto
  have idx: "index_of ?c (?c ! i) = int i" by (rule index_of_distinct [OF assms])
  show ?thesis
  proof (cases i)
    case 0
    have "(- 1) mod int (length ?c) = int (length ?c) - 1" using ne by (simp add: zmod_minus1)
    then have "nat ((int i - 1) mod int (length ?c)) = length ?c - 1" using 0 ne by simp
    then show ?thesis using idx 0 ne by (simp add: FocusChain_nextMostRecentlyUsed_def last_conv_nth)
  next
    case (Suc j)
    then have "nat ((int i - 1) mod int (length ?c)) = nat (int i - 1)" using assms(2) by (simp add: mod_pos_pos_trivial)
    then show ?thesis using idx Suc ne by (simp add: FocusChain_nextMostRecentlyUsed_def)
  qed
qed

lemma next_in_walk:
  assumes "distinct (m_mostRecentlyUsed fc)" and "i < length (m_mostRecentlyUsed fc)"
  shows "(next_in fc ^^ k) (m_mostRecentlyUsed fc ! i) =
    m_mostRecentlyUsed fc ! nat ((int i - int k) mod int (length (m_mostRecentlyUsed fc)))"
proof (induction k)
  case 0
  then show ?case using assms(2) by (simp add: mod_pos_pos_trivial)
next
  case (Suc k)
  let ?n = "int (length (m_mostRecentlyUsed fc))"
  let ?j = "nat ((int i - int k) mod ?n)"
  have n: "0 < ?n" using assms(2) by (cases "m_mostRecentlyUsed fc") simp_all
  have j: "?j < length (m_mostRecentlyUsed fc)" "int ?j = (int i - int k) mod ?n"
    using n by (simp_all add: nat_less_iff)
  have "(int ?j - 1) mod ?n = (int i - int (Suc k)) mod ?n"
    unfolding j(2) by (simp add: mod_diff_left_eq diff_diff_eq add.commute)
  then show ?case using Suc.IH next_in_nth [OF assms(1) j(1)] by (simp add: next_in_def)
qed

text \<open>
  in a reachable state, stepping with \<open>nextMostRecentlyUsed\<close> from any window of the chain visits
  every window of the chain once and then returns to the start, so the navigation wraps around.
\<close>
lemma next_walks_all:
  assumes "fc_reachable es fc" and "w \<in> set (m_mostRecentlyUsed fc)"
  shows "let n = length (m_mostRecentlyUsed fc)
         in (\<lambda>k. (next_in fc ^^ k) w) ` {..<n} = set (m_mostRecentlyUsed fc) \<and> (next_in fc ^^ n) w = w"
proof -
  let ?c = "m_mostRecentlyUsed fc" and ?n = "length (m_mostRecentlyUsed fc)"
  have dist: "distinct ?c" using fc_ok_reachable [OF assms(1)] unfolding fc_ok_def by (metis chain_of_simps(1))
  obtain i where i: "i < ?n" "w = ?c ! i" using assms(2) by (auto simp: in_set_conv_nth)
  note walk = next_in_walk [OF dist i(1), folded i(2)]
  have n: "0 < int ?n" using i(1) by linarith
  have "?c ! j \<in> (\<lambda>k. (next_in fc ^^ k) w) ` {..<?n}" if j: "j < ?n" for j
  proof -
    let ?k = "nat ((int i - int j) mod int ?n)"
    have k: "?k < ?n" "int ?k = (int i - int j) mod int ?n" using n by (simp_all add: nat_less_iff)
    have "(int i - int ?k) mod int ?n = (int i - (int i - int j)) mod int ?n"
      unfolding k(2) by (rule mod_diff_right_eq)
    also have "\<dots> = int j" using j by (simp add: mod_pos_pos_trivial)
    finally have "(next_in fc ^^ ?k) w = ?c ! j" using walk by simp
    then have "?c ! j = (next_in fc ^^ ?k) w" ..
    moreover have "?k \<in> {..<?n}" using k(1) by simp
    ultimately show ?thesis by (rule image_eqI)
  qed
  then have "set ?c \<subseteq> (\<lambda>k. (next_in fc ^^ k) w) ` {..<?n}" by (auto simp: in_set_conv_nth)
  moreover have "(next_in fc ^^ k) w \<in> set ?c" for k using n by (simp add: walk nat_less_iff)
  moreover have "(next_in fc ^^ ?n) w = w"
  proof -
    have "(int i - int ?n) mod int ?n = int i" using i(1) by simp
    then have "(next_in fc ^^ ?n) w = ?c ! i" unfolding walk by simp
    then show ?thesis by (simp only: i(2))
  qed
  ultimately show ?thesis by (auto simp: Let_def)
qed

lemma next_walks_all_witness:
  "(next_in (fc_run sample_events FocusChain_new) ^^ 3) 2 = 2"
proof -
  have m: "m_mostRecentlyUsed (fc_run sample_events FocusChain_new) = [1, 2, 3]" by code_simp
  then have "length (m_mostRecentlyUsed (fc_run sample_events FocusChain_new)) = 3"
    "2 \<in> set (m_mostRecentlyUsed (fc_run sample_events FocusChain_new))" by simp_all
  then show ?thesis using next_walks_all [OF sample_reachable, of 2] by (simp only: Let_def)
qed

section \<open>Where the documentation differs\<close>

text \<open>
  \<open>focuschain.h\<close> says that with \<open>Update\<close> the active window becomes the first window of the chain;
  the code leaves a window that is already in the chain where it is, so an active window at the old end
  of the chain stays there.
\<close>
lemma update_keeps_active_window:
  "let fc = FocusChain_setActiveWindow (Some 1) sample_chain
   in m_activeWindow fc = Some 1 \<and> hd (m_mostRecentlyUsed fc) = 1 \<and>
      m_mostRecentlyUsed (FocusChain_update sample_queries 1 Update fc) = m_mostRecentlyUsed fc \<and>
      last (m_mostRecentlyUsed (FocusChain_update sample_queries 1 Update fc)) \<noteq> 1"
  by code_simp

end
