(* ===== verification/DesktopGrid.thy ===== *)
theory DesktopGrid
  imports Prelude
begin

text \<open>
  \<open>VirtualDesktopGrid\<close> of \<open>src/kde-kwin/src/virtualdesktops.cpp\<close>, and the loops of \<open>above\<close>, \<open>below\<close>,
  \<open>toLeft\<close> and \<open>toRight\<close>, which step along a row or a column of the grid and skip cells that hold no
  desktop. The four loops are two: \<open>walk_back\<close> (\<open>above\<close> along a column, \<open>toLeft\<close> along a row) and
  \<open>walk_forward\<close> (\<open>below\<close>, \<open>toRight\<close>), over the cells of the line. The C++ loops are \<open>while (true)\<close>; here
  they are partial functions, and that they return is proved for every desktop of the grid.

  Desktops are identities (\<open>nat\<close>, as pointers), and no desktop is \<open>None\<close> (the null pointer).
\<close>

section \<open>The grid\<close>

record grid =
  grid_width :: int
  grid_height :: int
  grid_rows :: "nat list list"

definition Grid_new :: grid where
  "Grid_new = \<lparr>grid_width = 1, grid_height = 2, grid_rows = [[], []]\<rparr>"

fun fill_rows :: "nat \<Rightarrow> nat \<Rightarrow> 'd list \<Rightarrow> 'd list list" where
  "fill_rows width 0 desktops = []"
| "fill_rows width (Suc height) desktops = take width desktops # fill_rows width height (drop width desktops)"

definition Grid_update :: "nat \<Rightarrow> nat \<Rightarrow> nat list \<Rightarrow> grid" where
  "Grid_update width height desktops =
     \<lparr>grid_width = int width, grid_height = int height, grid_rows = fill_rows width height desktops\<rparr>"

fun coords_in :: "int \<Rightarrow> 'd list list \<Rightarrow> 'd \<Rightarrow> int \<times> int" where
  "coords_in y [] vd = (-1, -1)"
| "coords_in y (row # rows) vd =
     (if index_of row vd \<noteq> -1 then (index_of row vd, y) else coords_in (y + 1) rows vd)"

definition Grid_gridCoords :: "grid \<Rightarrow> nat \<Rightarrow> int \<times> int" where
  "Grid_gridCoords g vd = coords_in 0 (grid_rows g) vd"

definition Grid_at :: "grid \<Rightarrow> int \<times> int \<Rightarrow> nat option" where
  "Grid_at g coords =
     (if snd coords \<ge> int (length (grid_rows g)) then None
      else let row = grid_rows g ! nat (snd coords)
           in if fst coords \<ge> int (length row) then None else Some (row ! nat (fst coords)))"

section \<open>The loops\<close>

partial_function (option) walk_back ::
    "(int \<Rightarrow> nat option) \<Rightarrow> int \<Rightarrow> bool \<Rightarrow> nat \<Rightarrow> int \<Rightarrow> nat option" where
  "walk_back cell extent wrap desktop c =
     (if c - 1 < 0
      then if wrap
           then (case cell (extent - 1) of Some vd \<Rightarrow> Some vd | None \<Rightarrow> walk_back cell extent wrap desktop (extent - 1))
           else Some desktop
      else (case cell (c - 1) of Some vd \<Rightarrow> Some vd | None \<Rightarrow> walk_back cell extent wrap desktop (c - 1)))"

partial_function (option) walk_forward ::
    "(int \<Rightarrow> nat option) \<Rightarrow> int \<Rightarrow> bool \<Rightarrow> nat \<Rightarrow> int \<Rightarrow> nat option" where
  "walk_forward cell extent wrap desktop c =
     (if c + 1 \<ge> extent
      then if wrap
           then (case cell 0 of Some vd \<Rightarrow> Some vd | None \<Rightarrow> walk_forward cell extent wrap desktop 0)
           else Some desktop
      else (case cell (c + 1) of Some vd \<Rightarrow> Some vd | None \<Rightarrow> walk_forward cell extent wrap desktop (c + 1)))"

definition Grid_above :: "grid \<Rightarrow> nat \<Rightarrow> bool \<Rightarrow> nat option" where
  "Grid_above g desktop wrap =
     (let coords = Grid_gridCoords g desktop
      in walk_back (\<lambda>y. Grid_at g (fst coords, y)) (grid_height g) wrap desktop (snd coords))"

definition Grid_below :: "grid \<Rightarrow> nat \<Rightarrow> bool \<Rightarrow> nat option" where
  "Grid_below g desktop wrap =
     (let coords = Grid_gridCoords g desktop
      in walk_forward (\<lambda>y. Grid_at g (fst coords, y)) (grid_height g) wrap desktop (snd coords))"

definition Grid_toRight :: "grid \<Rightarrow> nat \<Rightarrow> bool \<Rightarrow> nat option" where
  "Grid_toRight g desktop wrap =
     (let coords = Grid_gridCoords g desktop
      in walk_forward (\<lambda>x. Grid_at g (x, snd coords)) (grid_width g) wrap desktop (fst coords))"

definition Grid_toLeft :: "grid \<Rightarrow> nat \<Rightarrow> bool \<Rightarrow> nat option" where
  "Grid_toLeft g desktop wrap =
     (let coords = Grid_gridCoords g desktop
      in walk_back (\<lambda>x. Grid_at g (x, snd coords)) (grid_width g) wrap desktop (fst coords))"

section \<open>A line of cells\<close>

text \<open>
  What the loops rely on along a row or column \<open>l\<close>: the cells from 0 up to some last one hold desktops
  and the cells after it hold none. A row or column of a grid is such a line when the grid has room for
  all desktops (\<open>is_line\<close>).
\<close>

locale line =
  fixes is_line :: "'l \<Rightarrow> bool"
    and cell :: "'l \<Rightarrow> int \<Rightarrow> nat option"
    and extent last_cell :: "'l \<Rightarrow> int"
    and desktop_at :: "'l \<Rightarrow> int \<Rightarrow> nat"
  assumes filled: "is_line l \<Longrightarrow> 0 \<le> c \<Longrightarrow> c \<le> last_cell l \<Longrightarrow> cell l c = Some (desktop_at l c)"
    and empty: "is_line l \<Longrightarrow> last_cell l < c \<Longrightarrow> cell l c = None"
    and range: "is_line l \<Longrightarrow> 0 \<le> last_cell l" "is_line l \<Longrightarrow> last_cell l < extent l"
begin

lemma back_scan:
  "is_line l \<Longrightarrow> last_cell l < c \<Longrightarrow>
   walk_back (cell l) (extent l) wrap d c = Some (desktop_at l (last_cell l))"
proof (induction "nat (c - last_cell l)" arbitrary: c)
  case (Suc n)
  show ?case
  proof (cases "c - 1 = last_cell l")
    case True
    then show ?thesis using range [OF Suc.prems(1)] Suc.prems
      by (subst walk_back.simps) (simp add: filled)
  next
    case False
    then have "last_cell l < c - 1" "n = nat (c - 1 - last_cell l)" using Suc by auto
    moreover from this have "walk_back (cell l) (extent l) wrap d c = walk_back (cell l) (extent l) wrap d (c - 1)"
      using range [OF Suc.prems(1)] Suc.prems by (subst walk_back.simps) (simp add: empty)
    ultimately show ?thesis using Suc by simp
  qed
qed simp

lemma walk_back_correct:
  assumes l: "is_line l" and c: "0 \<le> c" "c \<le> last_cell l"
  shows "walk_back (cell l) (extent l) wrap d c =
    Some (if 0 < c then desktop_at l (c - 1) else if wrap then desktop_at l (last_cell l) else d)"
proof (cases "0 < c")
  case True
  then show ?thesis using l c by (subst walk_back.simps) (simp add: filled)
next
  case False
  then have c0: "c = 0" using c by simp
  have "walk_back (cell l) (extent l) True d 0 = walk_back (cell l) (extent l) True d (extent l)"
    using range [OF l] by (subst (1 2) walk_back.simps) simp
  also have "\<dots> = Some (desktop_at l (last_cell l))" using range [OF l] l by (intro back_scan) simp_all
  finally show ?thesis by (cases wrap) (simp_all add: c0, subst walk_back.simps, simp)
qed

lemma forward_scan:
  "is_line l \<Longrightarrow> last_cell l \<le> c \<Longrightarrow> c < extent l \<Longrightarrow>
   walk_forward (cell l) (extent l) wrap d c = Some (if wrap then desktop_at l 0 else d)"
proof (induction "nat (extent l - c)" arbitrary: c)
  case (Suc n)
  show ?case
  proof (cases "c + 1 < extent l")
    case True
    then have "walk_forward (cell l) (extent l) wrap d c = walk_forward (cell l) (extent l) wrap d (c + 1)"
      using Suc.prems by (subst walk_forward.simps) (simp add: empty)
    then show ?thesis using Suc True by simp
  next
    case False
    then show ?thesis using range [OF Suc.prems(1)] Suc.prems
      by (subst walk_forward.simps) (simp add: filled)
  qed
qed simp

lemma walk_forward_correct:
  assumes l: "is_line l" and c: "0 \<le> c" "c \<le> last_cell l"
  shows "walk_forward (cell l) (extent l) wrap d c =
    Some (if c < last_cell l then desktop_at l (c + 1) else if wrap then desktop_at l 0 else d)"
proof (cases "c < last_cell l")
  case True
  then show ?thesis using l c range [OF l] by (subst walk_forward.simps) (simp add: filled)
next
  case False
  then show ?thesis using l c range [OF l] forward_scan [of l c wrap d] by simp
qed

end

section \<open>The grid holds the desktops row by row\<close>

lemma length_fill_rows [simp]: "length (fill_rows w h ds) = h"
  by (induction h arbitrary: ds) auto

lemma nth_fill_rows: "y < h \<Longrightarrow> fill_rows w h ds ! y = take w (drop (y * w) ds)"
proof (induction h arbitrary: ds y)
  case (Suc h)
  then show ?case by (cases y) (simp_all add: add.commute)
qed simp

lemma Grid_at_update:
  assumes "0 \<le> x" "x < int w" "0 \<le> y" "y < int h"
  shows "Grid_at (Grid_update w h ds) (x, y) =
    (if nat y * w + nat x < length ds then Some (ds ! (nat y * w + nat x)) else None)"
proof -
  have "nat y < h" "nat x < w" using assms by auto
  moreover have "x \<ge> int (min w (length ds - nat y * w)) \<longleftrightarrow> \<not> nat y * w + nat x < length ds"
    using assms by auto
  ultimately show ?thesis using assms
    by (auto simp: Grid_at_def Grid_update_def nth_fill_rows Let_def not_le)
qed

lemma Grid_at_update_outside:
  "0 \<le> y \<Longrightarrow> y \<ge> int h \<or> x \<ge> int w \<Longrightarrow> Grid_at (Grid_update w h ds) (x, y) = None"
  by (auto simp: Grid_at_def Grid_update_def nth_fill_rows Let_def)

lemma coords_in_fill_rows:
  "distinct ds \<Longrightarrow> 0 < w \<Longrightarrow> i < length ds \<Longrightarrow> length ds \<le> w * h \<Longrightarrow>
   coords_in y (fill_rows w h ds) (ds ! i) = (int (i mod w), y + int (i div w))"
proof (induction h arbitrary: y ds i)
  case (Suc h)
  show ?case
  proof (cases "i < w")
    case True
    have "index_of (take w ds) (take w ds ! i) = int i"
      using Suc.prems True by (intro index_of_distinct) simp_all
    then show ?thesis using True by simp
  next
    case False
    have "ds ! i \<notin> set (take w ds)"
      using Suc.prems False by (auto simp: in_set_conv_nth nth_eq_iff_index_eq)
    then have "index_of (take w ds) (ds ! i) = -1" by (simp add: index_of_none)
    moreover have "ds ! i = drop w ds ! (i - w)" using False Suc.prems by simp
    moreover have "coords_in (y + 1) (fill_rows w h (drop w ds)) (drop w ds ! (i - w)) =
        (int ((i - w) mod w), y + 1 + int ((i - w) div w))"
      using Suc.prems False by (intro Suc.IH) auto
    moreover have "i mod w = (i - w) mod w" "int (i div w) = 1 + int ((i - w) div w)"
      using False Suc.prems by (simp_all add: le_mod_geq le_div_geq)
    ultimately show ?thesis by simp
  qed
qed simp

text \<open>The row and the column through desktop \<open>i\<close> of the list.\<close>

type_synonym grid_line = "nat \<times> nat \<times> nat list \<times> nat"

fun fits :: "grid_line \<Rightarrow> bool" where
  "fits (w, h, ds, i) = (0 < w \<and> i < length ds \<and> length ds \<le> w * h)"

fun row_cell :: "grid_line \<Rightarrow> int \<Rightarrow> nat option" where
  "row_cell (w, h, ds, i) x = Grid_at (Grid_update w h ds) (x, int (i div w))"

fun row_extent :: "grid_line \<Rightarrow> int" where
  "row_extent (w, h, ds, i) = int w"

fun row_last :: "grid_line \<Rightarrow> int" where
  "row_last (w, h, ds, i) = int (min w (length ds - (i div w) * w)) - 1"

fun row_desktop :: "grid_line \<Rightarrow> int \<Rightarrow> nat" where
  "row_desktop (w, h, ds, i) x = ds ! ((i div w) * w + nat x)"

fun column_cell :: "grid_line \<Rightarrow> int \<Rightarrow> nat option" where
  "column_cell (w, h, ds, i) y = Grid_at (Grid_update w h ds) (int (i mod w), y)"

fun column_extent :: "grid_line \<Rightarrow> int" where
  "column_extent (w, h, ds, i) = int h"

fun column_last :: "grid_line \<Rightarrow> int" where
  "column_last (w, h, ds, i) = int ((length ds - 1 - i mod w) div w)"

fun column_desktop :: "grid_line \<Rightarrow> int \<Rightarrow> nat" where
  "column_desktop (w, h, ds, i) y = ds ! (nat y * w + i mod w)"

lemma div_less_rows: "fits (w, h, ds, i) \<Longrightarrow> i div w < h"
  by (auto simp: less_mult_imp_div_less mult.commute)

interpretation row: line fits row_cell row_extent row_last row_desktop
proof
  fix l :: grid_line and c
  obtain w h ds i where l: "l = (w, h, ds, i)" by (cases l)
  assume "fits l"
  then have f: "fits (w, h, ds, i)" and y: "i div w < h" using div_less_rows by (auto simp: l)
  have "(i div w) * w \<le> i" by simp
  then have i: "(i div w) * w < length ds" using f by (metis fits.simps le_less_trans)
  show "0 \<le> row_last l" "row_last l < row_extent l" using f i by (auto simp: l)
  {
    assume "0 \<le> c" "c \<le> row_last l"
    then show "row_cell l c = Some (row_desktop l c)" using y by (auto simp: l Grid_at_update)
  next
    assume "row_last l < c"
    moreover have "0 \<le> row_last l" using f i by (auto simp: l)
    ultimately have "0 \<le> c" by linarith
    then show "row_cell l c = None" using \<open>row_last l < c\<close> y
      by (cases "c < int w") (auto simp: l Grid_at_update Grid_at_update_outside)
  }
qed

lemma column_room:
  assumes "0 < w" "m < w" "0 < n" "m < n"
  shows "y * w + m < n \<longleftrightarrow> y \<le> (n - 1 - m) div (w::nat)"
  using assms by (auto simp: less_eq_div_iff_mult_less_eq)

interpretation column: line fits column_cell column_extent column_last column_desktop
proof
  fix l :: grid_line and c
  obtain w h ds i where l: "l = (w, h, ds, i)" by (cases l)
  assume "fits l"
  then have f: "fits (w, h, ds, i)" by (simp add: l)
  then have m: "i mod w < w" "i mod w < length ds"
    using mod_less_eq_dividend [of i w] by (auto simp del: mod_less_eq_dividend intro: le_less_trans)
  have room: "y * w + i mod w < length ds \<longleftrightarrow> y \<le> (length ds - 1 - i mod w) div w" for y
    using f m by (intro column_room) auto
  have "(length ds - 1 - i mod w) div w * w + i mod w < length ds" by (subst room) simp
  moreover have "length ds \<le> h * w" using f by (simp add: mult.commute)
  ultimately have "(length ds - 1 - i mod w) div w * w < h * w" by linarith
  then have last: "(length ds - 1 - i mod w) div w < h" by simp
  show "0 \<le> column_last l" "column_last l < column_extent l" using last by (auto simp: l)
  {
    assume "0 \<le> c" "c \<le> column_last l"
    then have "nat c \<le> (length ds - 1 - i mod w) div w" "c < int h" using last by (auto simp: l)
    then show "column_cell l c = Some (column_desktop l c)"
      using \<open>0 \<le> c\<close> m room [of "nat c"] f by (auto simp: l Grid_at_update)
  next
    assume c: "column_last l < c"
    then have "0 \<le> c" by (auto simp: l)
    moreover have "\<not> nat c \<le> (length ds - 1 - i mod w) div w" using c by (auto simp: l)
    ultimately show "column_cell l c = None" using m room [of "nat c"] f
      by (cases "c < int h") (auto simp: l Grid_at_update Grid_at_update_outside)
  }
qed

section \<open>Steps on the grid\<close>

lemma gridCoords_update:
  "distinct ds \<Longrightarrow> fits (w, h, ds, i) \<Longrightarrow>
   Grid_gridCoords (Grid_update w h ds) (ds ! i) = (int (i mod w), int (i div w))"
  by (simp add: Grid_gridCoords_def Grid_update_def coords_in_fill_rows)

lemma row_position: "fits (w, h, ds, i) \<Longrightarrow> int (i mod w) \<le> row_last (w, h, ds, i)"
proof -
  assume f: "fits (w, h, ds, i)"
  have "i div w * w + i mod w = i" by simp
  then have "i mod w < length ds - i div w * w" using f unfolding fits.simps by linarith
  then show ?thesis using f by (auto simp: less_imp_Suc_add)
qed

lemma column_position: "fits (w, h, ds, i) \<Longrightarrow> int (i div w) \<le> column_last (w, h, ds, i)"
proof -
  assume f: "fits (w, h, ds, i)"
  then have m: "i mod w < w" "i mod w < length ds"
    using mod_less_eq_dividend [of i w] by (auto simp del: mod_less_eq_dividend intro: le_less_trans)
  have "i div w \<le> (length ds - 1 - i mod w) div w"
    using f column_room [OF _ m(1) _ m(2), of "i div w"] by (cases "ds = []") simp_all
  then show ?thesis by simp
qed

text \<open>The index of the last desktop of the row of desktop \<open>i\<close>, and of its column.\<close>

definition row_end :: "nat \<Rightarrow> nat \<Rightarrow> nat \<Rightarrow> nat" where
  "row_end w n i = (i div w) * w + min w (n - (i div w) * w) - 1"

definition column_end :: "nat \<Rightarrow> nat \<Rightarrow> nat \<Rightarrow> nat" where
  "column_end w n i = ((n - 1 - i mod w) div w) * w + i mod w"

lemma row_cells: "(\<lambda>x. Grid_at (Grid_update w h ds) (x, int (i div w))) = row_cell (w, h, ds, i)"
  by (simp add: fun_eq_iff)

lemma column_cells: "(\<lambda>y. Grid_at (Grid_update w h ds) (int (i mod w), y)) = column_cell (w, h, ds, i)"
  by (simp add: fun_eq_iff)

lemma grid_size: "grid_width (Grid_update w h ds) = row_extent (w, h, ds, i)"
    "grid_height (Grid_update w h ds) = column_extent (w, h, ds, i)"
  by (simp_all add: Grid_update_def)

lemma row_desktops:
  assumes f: "fits (w, h, ds, i)"
  shows "0 < i mod w \<Longrightarrow> row_desktop (w, h, ds, i) (int (i mod w) - 1) = ds ! (i - 1)"
    and "row_desktop (w, h, ds, i) (int (i mod w) + 1) = ds ! (i + 1)"
    and "row_desktop (w, h, ds, i) (row_last (w, h, ds, i)) = ds ! row_end w (length ds) i"
    and "int (i mod w) < row_last (w, h, ds, i) \<longleftrightarrow> i < row_end w (length ds) i"
proof -
  have i: "i div w * w + i mod w = i" by simp
  show "row_desktop (w, h, ds, i) (int (i mod w) + 1) = ds ! (i + 1)"
    using i by (simp add: nat_add_distrib del: mod_div_mult_eq div_mult_mod_eq)
  {
    assume "0 < i mod w"
    then have "i div w * w + nat (int (i mod w) - 1) = i - 1" using i by linarith
    then show "row_desktop (w, h, ds, i) (int (i mod w) - 1) = ds ! (i - 1)" by simp
  }
  have r: "0 \<le> row_last (w, h, ds, i)" by (rule row.range(1) [OF f])
  then show "row_desktop (w, h, ds, i) (row_last (w, h, ds, i)) = ds ! row_end w (length ds) i"
    by (auto simp: row_end_def intro!: arg_cong [of _ _ "(!) ds"])
  show "int (i mod w) < row_last (w, h, ds, i) \<longleftrightarrow> i < row_end w (length ds) i"
    using r i unfolding row_end_def row_last.simps by linarith
qed

lemma column_desktops:
  assumes f: "fits (w, h, ds, i)"
  shows "0 < i div w \<Longrightarrow> column_desktop (w, h, ds, i) (int (i div w) - 1) = ds ! (i - w)"
    and "column_desktop (w, h, ds, i) (int (i div w) + 1) = ds ! (i + w)"
    and "column_desktop (w, h, ds, i) (column_last (w, h, ds, i)) = ds ! column_end w (length ds) i"
    and "column_desktop (w, h, ds, i) 0 = ds ! (i mod w)"
    and "row_desktop (w, h, ds, i) 0 = ds ! (i - i mod w)"
    and "int (i div w) < column_last (w, h, ds, i) \<longleftrightarrow> i + w < length ds"
proof -
  have i: "i div w * w + i mod w = i" by simp
  {
    assume "0 < i div w"
    then obtain q where "i div w = Suc q" using gr0_conv_Suc by blast
    then show "column_desktop (w, h, ds, i) (int (i div w) - 1) = ds ! (i - w)"
      using i by (simp del: mod_div_mult_eq div_mult_mod_eq) (metis add_diff_cancel_left' add.assoc)
  }
  have "nat (int (i div w) + 1) * w + i mod w = i + w" using i by (simp add: nat_add_distrib del: mod_div_mult_eq div_mult_mod_eq)
  then show "column_desktop (w, h, ds, i) (int (i div w) + 1) = ds ! (i + w)" by simp
  show "column_desktop (w, h, ds, i) (column_last (w, h, ds, i)) = ds ! column_end w (length ds) i"
    by (simp add: column_end_def)
  show "column_desktop (w, h, ds, i) 0 = ds ! (i mod w)" by simp
  show "row_desktop (w, h, ds, i) 0 = ds ! (i - i mod w)" by (simp add: minus_mod_eq_div_mult)
  have "i mod w < w" "i mod w < length ds" using f mod_less_eq_dividend [of i w] by (auto simp del: mod_less_eq_dividend intro: le_less_trans)
  then have "Suc (i div w) * w + i mod w < length ds \<longleftrightarrow> Suc (i div w) \<le> (length ds - 1 - i mod w) div w"
    using f by (intro column_room) auto
  moreover have "Suc (i div w) * w + i mod w = i + w" using i by simp
  ultimately show "int (i div w) < column_last (w, h, ds, i) \<longleftrightarrow> i + w < length ds" by (simp add: Suc_le_eq)
qed

lemma Grid_toLeft_update:
  assumes "distinct ds" and f: "fits (w, h, ds, i)"
  shows "Grid_toLeft (Grid_update w h ds) (ds ! i) wrap =
    Some (ds ! (if 0 < i mod w then i - 1 else if wrap then row_end w (length ds) i else i))"
  using row.walk_back_correct [OF f _ row_position [OF f], of wrap "ds ! i"] row_desktops [OF f]
  unfolding Grid_toLeft_def gridCoords_update [OF assms] Let_def fst_conv snd_conv row_cells grid_size(1) [of w h ds i]
  by auto

lemma Grid_toRight_update:
  assumes "distinct ds" and f: "fits (w, h, ds, i)"
  shows "Grid_toRight (Grid_update w h ds) (ds ! i) wrap =
    Some (ds ! (if i < row_end w (length ds) i then i + 1 else if wrap then i - i mod w else i))"
  using row.walk_forward_correct [OF f _ row_position [OF f], of wrap "ds ! i"] row_desktops [OF f]
    column_desktops(5) [OF f]
  unfolding Grid_toRight_def gridCoords_update [OF assms] Let_def fst_conv snd_conv row_cells grid_size(1) [of w h ds i]
  by auto

lemma Grid_above_update:
  assumes "distinct ds" and f: "fits (w, h, ds, i)"
  shows "Grid_above (Grid_update w h ds) (ds ! i) wrap =
    Some (ds ! (if 0 < i div w then i - w else if wrap then column_end w (length ds) i else i))"
  using column.walk_back_correct [OF f _ column_position [OF f], of wrap "ds ! i"] column_desktops [OF f]
  unfolding Grid_above_def gridCoords_update [OF assms] Let_def fst_conv snd_conv column_cells grid_size(2) [of w h ds i]
  by auto

lemma Grid_below_update:
  assumes "distinct ds" and f: "fits (w, h, ds, i)"
  shows "Grid_below (Grid_update w h ds) (ds ! i) wrap =
    Some (ds ! (if i + w < length ds then i + w else if wrap then i mod w else i))"
  using column.walk_forward_correct [OF f _ column_position [OF f], of wrap "ds ! i"] column_desktops [OF f]
  unfolding Grid_below_def gridCoords_update [OF assms] Let_def fst_conv snd_conv column_cells grid_size(2) [of w h ds i]
  by auto

section \<open>Steps in opposite directions\<close>

text \<open>The index that each direction leads to when navigation wraps around.\<close>

definition left_index :: "nat \<Rightarrow> nat \<Rightarrow> nat \<Rightarrow> nat" where
  "left_index w n i = (if 0 < i mod w then i - 1 else row_end w n i)"

definition right_index :: "nat \<Rightarrow> nat \<Rightarrow> nat \<Rightarrow> nat" where
  "right_index w n i = (if i < row_end w n i then i + 1 else i - i mod w)"

definition above_index :: "nat \<Rightarrow> nat \<Rightarrow> nat \<Rightarrow> nat" where
  "above_index w n i = (if 0 < i div w then i - w else column_end w n i)"

definition below_index :: "nat \<Rightarrow> nat \<Rightarrow> nat \<Rightarrow> nat" where
  "below_index w n i = (if i + w < n then i + w else i mod w)"

lemma same_row:
  fixes w :: nat
  assumes "q * w \<le> j" "j < q * w + w" shows "j div w = q" "j mod w = j - q * w"
proof -
  show q: "j div w = q" using assms by (intro div_nat_eqI) (simp_all add: mult.commute)
  show "j mod w = j - q * w" unfolding q [symmetric] by (simp add: minus_div_mult_eq_mod)
qed

lemma row_end_facts:
  assumes "0 < w" "i < n"
  shows "i \<le> row_end w n i" "row_end w n i div w = i div w" "row_end w n i < n"
    "\<And>j. j div w = i div w \<Longrightarrow> row_end w n j = row_end w n i"
proof -
  let ?q = "i div w * w"
  have i: "?q + i mod w = i" "i mod w < w" using assms(1) by simp_all
  have r: "row_end w n i = ?q + min w (n - ?q) - 1" by (simp only: row_end_def)
  show le: "i \<le> row_end w n i" and lt: "row_end w n i < n" unfolding r using i assms by linarith+
  have "row_end w n i < ?q + w" "?q \<le> row_end w n i" unfolding r using i assms by linarith+
  then show "row_end w n i div w = i div w" by (intro same_row(1)) auto
  show "row_end w n j = row_end w n i" if "j div w = i div w" for j using that by (simp add: row_end_def)
qed

lemma left_right_inverse:
  assumes "0 < w" "i < n"
  shows "left_index w n i < n" "right_index w n i < n"
    "right_index w n (left_index w n i) = i" "left_index w n (right_index w n i) = i"
proof -
  let ?q = "i div w"
  note re = row_end_facts [OF assms]
  have i: "?q * w + i mod w = i" "i mod w < w" using assms(1) by simp_all
  show "left_index w n i < n" "right_index w n i < n"
    using re(1,3) assms by (auto simp: left_index_def right_index_def)
  show "right_index w n (left_index w n i) = i"
  proof (cases "0 < i mod w")
    case True
    have "?q * w \<le> i - 1" "i - 1 < ?q * w + w" using i True by linarith+
    then have "row_end w n (i - 1) = row_end w n i" by (intro re(4) same_row(1))
    moreover have "Suc (i - 1) = i" using i True by linarith
    ultimately show ?thesis using True re(1) by (auto simp: left_index_def right_index_def)
  next
    case False
    have "row_end w n (row_end w n i) = row_end w n i" using re(2) by (rule re(4))
    moreover have "row_end w n i - row_end w n i mod w = i"
      using re(2) False i(1) by (metis minus_mod_eq_div_mult add.right_neutral neq0_conv)
    ultimately show ?thesis using False by (simp add: left_index_def right_index_def)
  qed
  show "left_index w n (right_index w n i) = i"
  proof (cases "i < row_end w n i")
    case True
    have "row_end w n i < ?q * w + w" using re(2) assms(1)
      by (metis add.commute div_mult_mod_eq mod_less_divisor nat_add_left_cancel_less)
    then have "?q * w \<le> i + 1" "i + 1 < ?q * w + w" using True i by linarith+
    then have "(i + 1) mod w = i + 1 - ?q * w" by (rule same_row(2))
    then have "0 < (i + 1) mod w" using i by linarith
    then show ?thesis using True by (simp add: left_index_def right_index_def)
  next
    case False
    then have "row_end w n i = i" using re(1) by simp
    moreover have j: "i - i mod w = ?q * w" by (simp add: minus_mod_eq_div_mult)
    moreover have "row_end w n (?q * w) = row_end w n i" using assms(1) by (intro re(4)) simp
    ultimately show ?thesis using False by (simp add: left_index_def right_index_def)
  qed
qed

lemma above_below_inverse:
  assumes "0 < w" "i < n"
  shows "above_index w n i < n" "below_index w n i < n"
    "below_index w n (above_index w n i) = i" "above_index w n (below_index w n i) = i"
proof -
  let ?m = "i mod w" and ?last = "(n - 1 - i mod w) div w"
  have m: "?m < w" "?m \<le> i" "?m < n" using assms by (simp_all add: le_less_trans [OF mod_less_eq_dividend])
  have last: "?last * w \<le> n - 1 - ?m" "n - 1 - ?m < ?last * w + w"
    using assms(1) by (simp_all, metis add.commute dividend_less_div_times)
  have ce: "column_end w n i = ?last * w + ?m" by (simp add: column_end_def)
  have ce_less: "column_end w n i < n" unfolding ce using last(1) m(3) by linarith
  show "above_index w n i < n" "below_index w n i < n"
    using m assms ce_less unfolding above_index_def below_index_def by auto
  show "below_index w n (above_index w n i) = i"
  proof (cases "0 < i div w")
    case True
    then have "w \<le> i" using assms(1) by (metis div_less not_less neq0_conv)
    then show ?thesis using True assms by (simp add: above_index_def below_index_def)
  next
    case False
    then have "i = ?m" using assms(1) by (simp add: div_eq_0_iff)
    moreover have "\<not> column_end w n i + w < n" unfolding ce using last m by linarith
    moreover have "column_end w n i mod w = ?m" unfolding ce by simp
    ultimately show ?thesis using False by (simp add: above_index_def below_index_def)
  qed
  show "above_index w n (below_index w n i) = i"
  proof (cases "i + w < n")
    case True
    then show ?thesis using assms by (simp add: above_index_def below_index_def)
  next
    case False
    have i: "i div w * w + ?m = i" by simp
    have "i div w * w \<le> n - 1 - ?m" "n - 1 - ?m < i div w * w + w" using False assms i m by linarith+
    then have "?last = i div w" by (rule same_row(1))
    then have "column_end w n i = i" using i by (simp add: ce)
    moreover have "column_end w n ?m = column_end w n i" by (simp add: column_end_def)
    ultimately show ?thesis using False m by (simp add: above_index_def below_index_def)
  qed
qed

end
