(* ===== verification/VirtualDesktops.thy ===== *)
theory VirtualDesktops
  imports DesktopGrid "HOL-Library.Monad_Syntax" "HOL-Library.AList" "HOL-Library.Multiset"
begin

text \<open>
  \<open>VirtualDesktop\<close> and \<open>VirtualDesktopManager\<close> of \<open>src/kde-kwin/src/virtualdesktops.cpp\<close>. The manager is a
  record of its members; a \<open>VirtualDesktop *\<close> is an address (\<open>nat\<close>) into \<open>store\<close>, a null pointer is
  \<open>None\<close>. The static \<open>s_loadingDesktopSettings\<close> and the configuration group \<open>Desktops\<close> are fields too, and
  \<open>emitted\<close> lists the signals in the order of emission. What the manager asks the rest of KWin for is
  the argument \<open>env\<close>: the active output, the outputs, the desktop an activity remembers for an output,
  \<open>QUuid\<close> identifiers, translated default names, and the order of \<open>QHash\<close> entries after a change.

  Operations that can violate a \<open>Q_ASSERT\<close> or a precondition of the containers, divide by zero or not
  return have results in the option monad: \<open>None\<close> is such a failure.
\<close>

section \<open>Data\<close>

record virtual_desktop =
  m_id :: string
  m_name :: string
  m_x11DesktopNumber :: nat

datatype signal =
    x11DesktopNumberChanged nat
  | nameChanged nat
  | currentChanged "nat option" nat nat
  | currentChanging "nat option" "real \<times> real" nat
  | currentChangingCancelled
  | desktopAdded nat
  | desktopRemoved nat
  | desktopMoved nat int
  | countChanged nat nat
  | layoutChanged nat nat
  | rowsChanged nat
  | navigationWrappingAroundChanged
  | perOutputVirtualDesktopsChanged

record config_group =
  entry_Number :: "int option"
  entry_Rows :: "int option"
  entry_Name :: "(nat \<times> string) list"
  entry_Id :: "(nat \<times> string) list"

record env =
  activeOutput :: nat
  outputs :: "nat list"
  findLastDesktopForOutput :: "nat \<Rightarrow> string option"
  uuid :: "nat \<Rightarrow> string"
  defaultName :: "nat \<Rightarrow> string"
  hash_order :: "(nat \<times> nat option) list \<Rightarrow> (nat \<times> nat option) list"

record manager =
  m_desktops :: "nat list"
  store :: "nat \<Rightarrow> virtual_desktop"
  next_desktop :: nat
  next_uuid :: nat
  m_currentDesktops :: "(nat \<times> nat option) list"
  m_rows :: nat
  m_navigationWrapsAround :: bool
  m_perOutputVirtualDesktops :: bool
  m_grid :: grid
  m_currentDesktopOffset :: "real \<times> real"
  s_loadingDesktopSettings :: bool
  m_config :: "config_group option"
  emitted :: "signal list"

datatype direction = Up | Down | Right | Left | Next | Previous

definition VirtualDesktop_new :: virtual_desktop where
  "VirtualDesktop_new = \<lparr>m_id = [], m_name = [], m_x11DesktopNumber = 0\<rparr>"

definition VirtualDesktopManager_new :: "config_group option \<Rightarrow> manager" where
  "VirtualDesktopManager_new config =
     \<lparr>m_desktops = [], store = (\<lambda>vd. VirtualDesktop_new), next_desktop = 0, next_uuid = 0,
      m_currentDesktops = [], m_rows = 2, m_navigationWrapsAround = False,
      m_perOutputVirtualDesktops = False, m_grid = Grid_new, m_currentDesktopOffset = (0, 0),
      s_loadingDesktopSettings = False, m_config = config, emitted = []\<rparr>"

definition maximum :: nat where
  "maximum = 25"

definition count :: "manager \<Rightarrow> nat" where
  "count st = length (m_desktops st)"

definition emit :: "signal \<Rightarrow> manager \<Rightarrow> manager" where
  "emit s st = st\<lparr>emitted := emitted st @ [s]\<rparr>"

section \<open>Desktops\<close>

definition new_desktop :: "manager \<Rightarrow> manager" where
  "new_desktop st =
     st\<lparr>store := (store st)(next_desktop st := VirtualDesktop_new), next_desktop := next_desktop st + 1\<rparr>"

definition setId :: "nat \<Rightarrow> string \<Rightarrow> manager \<Rightarrow> manager" where
  "setId vd ident st = st\<lparr>store := (store st)(vd := (store st vd)\<lparr>m_id := ident\<rparr>)\<rparr>"

text \<open>\<open>setId(generateDesktopId())\<close>.\<close>

definition setGeneratedId :: "env \<Rightarrow> nat \<Rightarrow> manager \<Rightarrow> manager" where
  "setGeneratedId e vd st = (setId vd (uuid e (next_uuid st)) st)\<lparr>next_uuid := next_uuid st + 1\<rparr>"

definition setX11DesktopNumber :: "nat \<Rightarrow> nat \<Rightarrow> manager \<Rightarrow> manager" where
  "setX11DesktopNumber vd number st =
     (if m_x11DesktopNumber (store st vd) = number then st
      else let st' = st\<lparr>store := (store st)(vd := (store st vd)\<lparr>m_x11DesktopNumber := number\<rparr>)\<rparr>
           in if number \<noteq> 0 then emit (x11DesktopNumberChanged vd) st' else st')"

text \<open>\<open>VirtualDesktop::setName\<close>, before the signal is connected to \<open>save\<close>.\<close>

definition setName :: "nat \<Rightarrow> string \<Rightarrow> manager \<Rightarrow> manager" where
  "setName vd name st =
     (if m_name (store st vd) = name then st
      else emit (nameChanged vd) (st\<lparr>store := (store st)(vd := (store st vd)\<lparr>m_name := name\<rparr>)\<rparr>))"

text \<open>The loops that set the numbers of the desktops from a position on.\<close>

fun renumber :: "nat \<Rightarrow> nat list \<Rightarrow> manager \<Rightarrow> manager" where
  "renumber i [] st = st"
| "renumber i (vd # vds) st = renumber (i + 1) vds (setX11DesktopNumber vd (i + 1) st)"

section \<open>Saving\<close>

function delete_stale ::
    "nat \<Rightarrow> (nat \<times> string) list \<Rightarrow> (nat \<times> string) list \<Rightarrow> (nat \<times> string) list \<times> (nat \<times> string) list" where
  "delete_stale i ids names =
     (if map_of ids i = None then (ids, names)
      else delete_stale (i + 1) (AList.delete i ids) (AList.delete i names))"
  by pat_completeness auto
termination
proof (relation "measure (\<lambda>(i, ids, names). length ids)")
  fix i :: nat and ids names :: "(nat \<times> string) list"
  assume "map_of ids i \<noteq> None"
  then have "i \<in> fst ` set ids" by (simp add: map_of_eq_None_iff)
  then have "length (AList.delete i ids) < length ids"
    by (auto simp: AList.delete_eq intro: length_filter_less)
  then show "((i + 1, AList.delete i ids, AList.delete i names), i, ids, names)
      \<in> measure (\<lambda>(i, ids, names). length ids)" by simp
qed simp

declare delete_stale.simps [simp del]

definition save_desktop :: "env \<Rightarrow> virtual_desktop \<Rightarrow> config_group \<Rightarrow> config_group" where
  "save_desktop e desktop cfg =
     (let position = m_x11DesktopNumber desktop;
          defaultvalue = defaultName e position;
          s = (if m_name desktop = [] then defaultvalue else m_name desktop);
          cfg' = (if s \<noteq> defaultvalue then cfg\<lparr>entry_Name := AList.update position s (entry_Name cfg)\<rparr>
                    else let currentvalue = (case map_of (entry_Name cfg) position of Some v \<Rightarrow> v | None \<Rightarrow> [])
                         in if currentvalue \<noteq> defaultvalue
                            then cfg\<lparr>entry_Name := AList.delete position (entry_Name cfg)\<rparr> else cfg)
      in cfg'\<lparr>entry_Id := AList.update position (m_id desktop) (entry_Id cfg')\<rparr>)"

definition save_group :: "env \<Rightarrow> manager \<Rightarrow> config_group \<Rightarrow> config_group" where
  "save_group e st cfg =
     (let (ids, names) = delete_stale (count st + 1) (entry_Id cfg) (entry_Name cfg);
          group1 = cfg\<lparr>entry_Id := ids, entry_Name := names, entry_Number := Some (int (count st))\<rparr>;
          group2 = fold (save_desktop e) (map (store st) (m_desktops st)) group1
      in group2\<lparr>entry_Rows := Some (int (m_rows st))\<rparr>)"

definition save :: "env \<Rightarrow> manager \<Rightarrow> manager" where
  "save e st =
     (if s_loadingDesktopSettings st then st
      else case m_config st of None \<Rightarrow> st | Some cfg \<Rightarrow> st\<lparr>m_config := Some (save_group e st cfg)\<rparr>)"

text \<open>\<open>setName\<close> of a desktop of the manager: its signal is connected to \<open>save\<close>.\<close>

definition setName_connected :: "env \<Rightarrow> nat \<Rightarrow> string \<Rightarrow> manager \<Rightarrow> manager" where
  "setName_connected e vd name st =
     (if m_name (store st vd) = name then st else save e (setName vd name st))"

section \<open>Layout\<close>

definition updateLayout :: "manager \<Rightarrow> manager option" where
  "updateLayout st =
     (let rows = min (m_rows st) (count st)
      in if rows = 0 then None
         else let columns = count st div rows + (if count st mod rows > 0 then 1 else 0);
                  st' = st\<lparr>m_rows := rows, m_grid := Grid_update columns rows (m_desktops st)\<rparr>
              in Some (emit (rowsChanged rows) (emit (layoutChanged columns rows) st')))"

definition setRows :: "nat \<Rightarrow> manager \<Rightarrow> manager option" where
  "setRows rows st =
     (if rows = 0 \<or> rows > count st \<or> rows = m_rows st then Some st
      else updateLayout (st\<lparr>m_rows := rows\<rparr>))"

section \<open>Lookup\<close>

definition desktopForX11Id :: "manager \<Rightarrow> nat \<Rightarrow> nat option" where
  "desktopForX11Id st ident =
     (if ident = 0 \<or> ident > count st then None else Some (m_desktops st ! (ident - 1)))"

definition desktopForId :: "manager \<Rightarrow> string \<Rightarrow> nat option" where
  "desktopForId st ident = find (\<lambda>vd. m_id (store st vd) = ident) (m_desktops st)"

section \<open>The current desktops\<close>

definition initialDesktopForNewOutput :: "env \<Rightarrow> nat \<Rightarrow> manager \<Rightarrow> nat option option" where
  "initialDesktopForNewOutput e output st =
     (if \<not> m_perOutputVirtualDesktops st \<and> m_currentDesktops st \<noteq> []
      then Some (snd (hd (m_currentDesktops st)))
      else case Option.bind (findLastDesktopForOutput e output) (desktopForId st) of
             Some desktop \<Rightarrow> Some (Some desktop)
           | None \<Rightarrow> if m_desktops st = [] then None else Some (Some (hd (m_desktops st))))"

definition currentDesktop :: "env \<Rightarrow> nat option \<Rightarrow> manager \<Rightarrow> nat option option" where
  "currentDesktop e output st =
     (let output' = (case output of None \<Rightarrow> activeOutput e | Some x \<Rightarrow> x)
      in do {
        initial \<leftarrow> initialDesktopForNewOutput e output' st;
        Some (case map_of (m_currentDesktops st) output' of Some cur \<Rightarrow> cur | None \<Rightarrow> initial)
      })"

definition current :: "env \<Rightarrow> nat option \<Rightarrow> manager \<Rightarrow> nat option" where
  "current e output st = do {
     d \<leftarrow> currentDesktop e output st;
     Some (case d of Some vd \<Rightarrow> m_x11DesktopNumber (store st vd) | None \<Rightarrow> 0)
   }"

text \<open>Assignment to an entry of the hash: a new key can reorder the entries.\<close>

definition assign_current :: "env \<Rightarrow> nat \<Rightarrow> nat option \<Rightarrow> manager \<Rightarrow> manager" where
  "assign_current e output desktop st =
     st\<lparr>m_currentDesktops :=
        (if map_of (m_currentDesktops st) output = None
         then hash_order e ((output, desktop) # m_currentDesktops st)
         else AList.update output desktop (m_currentDesktops st))\<rparr>"

definition initCurrentDesktopForOutput :: "env \<Rightarrow> nat \<Rightarrow> manager \<Rightarrow> (nat option \<times> manager) option" where
  "initCurrentDesktopForOutput e output st =
     (case Option.bind (map_of (m_currentDesktops st) output) id of
        Some cur \<Rightarrow> Some (Some cur, st)
      | None \<Rightarrow> do {
          initial \<leftarrow> initialDesktopForNewOutput e output st;
          Some (initial, assign_current e output initial st)
        })"

text \<open>
  The loops over \<open>m_currentDesktops.asKeyValueRange()\<close> that give the outputs whose current desktop
  satisfies \<open>P\<close> a new desktop, with \<open>currentChanged\<close> for each.
\<close>

definition retarget :: "(nat option \<Rightarrow> bool) \<Rightarrow> nat \<Rightarrow> manager \<Rightarrow> manager" where
  "retarget P newDesktop st =
     st\<lparr>m_currentDesktops := map (\<lambda>(output, d). (output, if P d then Some newDesktop else d)) (m_currentDesktops st),
        emitted := emitted st @
          [currentChanged d newDesktop output. (output, d) \<leftarrow> m_currentDesktops st, P d]\<rparr>"

definition setCurrent :: "env \<Rightarrow> nat \<Rightarrow> nat option \<Rightarrow> manager \<Rightarrow> bool \<times> manager" where
  "setCurrent e newDesktop output st =
     (let output' = (case output of None \<Rightarrow> activeOutput e | Some x \<Rightarrow> x);
          st1 = (if map_of (m_currentDesktops st) output' = None then assign_current e output' None st else st);
          oldDesktop = Option.bind (map_of (m_currentDesktops st1) output') id
      in if oldDesktop = Some newDesktop then (False, st1)
         else if m_perOutputVirtualDesktops st1
         then (True, emit (currentChanged oldDesktop newDesktop output') (assign_current e output' (Some newDesktop) st1))
         else (True, retarget (\<lambda>d. d \<noteq> Some newDesktop) newDesktop st1))"

definition setCurrentNumber :: "env \<Rightarrow> nat \<Rightarrow> nat option \<Rightarrow> manager \<Rightarrow> bool \<times> manager" where
  "setCurrentNumber e newDesktop output st =
     (case desktopForX11Id st newDesktop of None \<Rightarrow> (False, st) | Some d \<Rightarrow> setCurrent e d output st)"

section \<open>Adding, removing and moving desktops\<close>

definition createVirtualDesktop :: "env \<Rightarrow> nat \<Rightarrow> string \<Rightarrow> manager \<Rightarrow> (nat option \<times> manager) option" where
  "createVirtualDesktop e position name st =
     (if count st = maximum then Some (None, st)
      else
        let position = min position (count st);
            desktopName = (if name = [] then defaultName e (position + 1) else name);
            vd = next_desktop st;
            st1 = new_desktop st;
            st2 = setX11DesktopNumber vd (position + 1) st1;
            st3 = setName vd desktopName (setGeneratedId e vd st2);
            st4 = st3\<lparr>m_desktops := insert_at position vd (m_desktops st3)\<rparr>;
            st5 = renumber (position + 1) (drop (position + 1) (m_desktops st4)) st4
        in do {
          st6 \<leftarrow> updateLayout (save e st5);
          Some (Some vd, emit (countChanged (count st6 - 1) (count st6)) (emit (desktopAdded vd) st6))
        })"

definition removeVirtualDesktop :: "env \<Rightarrow> nat \<Rightarrow> manager \<Rightarrow> manager option" where
  "removeVirtualDesktop e desktop st =
     (if count st = 1 then Some st
      else
        let i = index_of (m_desktops st) desktop
        in if i = -1 then None
           else
             let st1 = st\<lparr>m_desktops := take (nat i) (m_desktops st) @ drop (nat i + 1) (m_desktops st)\<rparr>;
                 st2 = renumber (nat i) (drop (nat i) (m_desktops st1)) st1;
                 newDesktop = (if nat i < count st2 then m_desktops st2 ! nat i else last (m_desktops st2));
                 st3 = retarget (\<lambda>d. d = Some desktop) newDesktop st2
             in do {
               st4 \<leftarrow> updateLayout st3;
               let st5 = save e st4;
               Some (emit (countChanged (count st5 + 1) (count st5)) (emit (desktopRemoved desktop) st5))
             })"

definition removeVirtualDesktopId :: "env \<Rightarrow> string \<Rightarrow> manager \<Rightarrow> manager option" where
  "removeVirtualDesktopId e ident st =
     (case desktopForId st ident of None \<Rightarrow> Some st | Some desktop \<Rightarrow> removeVirtualDesktop e desktop st)"

definition moveVirtualDesktop :: "env \<Rightarrow> nat \<Rightarrow> int \<Rightarrow> manager \<Rightarrow> manager option" where
  "moveVirtualDesktop e desktop position st =
     (let sourcePosition = index_of (m_desktops st) desktop
      in if sourcePosition = -1 then Some st
         else if position < 0 \<or> position \<ge> int (count st) then Some st
         else if sourcePosition = position then Some st
         else
           let rest = take (nat sourcePosition) (m_desktops st) @ drop (nat sourcePosition + 1) (m_desktops st);
               st1 = st\<lparr>m_desktops := insert_at (nat position) desktop rest\<rparr>;
               st2 = renumber 0 (m_desktops st1) st1
           in do {
             st3 \<leftarrow> updateLayout st2;
             Some (emit (desktopMoved desktop position) (save e st3))
           })"

text \<open>The loop of \<open>setCount\<close> that appends \<open>k\<close> desktops.\<close>

fun append_desktops :: "env \<Rightarrow> nat \<Rightarrow> manager \<Rightarrow> manager" where
  "append_desktops e 0 st = st"
| "append_desktops e (Suc k) st =
     (let vd = next_desktop st;
          x11Number = count st + 1;
          st1 = setName vd (defaultName e x11Number) (setX11DesktopNumber vd x11Number (new_desktop st));
          st2 = (if s_loadingDesktopSettings st1 then st1 else setGeneratedId e vd st1)
      in append_desktops e k (st2\<lparr>m_desktops := m_desktops st2 @ [vd]\<rparr>))"

definition setCount :: "env \<Rightarrow> nat \<Rightarrow> manager \<Rightarrow> manager option" where
  "setCount e n st =
     (let n = max 1 (min n maximum);
          oldCount = count st
      in if n = oldCount then Some st
         else
           let desktopsToRemove = drop n (m_desktops st);
               st1 = (if oldCount > n
                      then let shrunk = st\<lparr>m_desktops := take n (m_desktops st)\<rparr>;
                               moved = retarget (\<lambda>d. d \<in> Some ` set desktopsToRemove) (last (m_desktops shrunk)) shrunk
                           in moved\<lparr>emitted := emitted moved @ map desktopRemoved desktopsToRemove\<rparr>
                      else append_desktops e (n - oldCount) st)
           in do {
             st2 \<leftarrow> updateLayout st1;
             let st3 = (if s_loadingDesktopSettings st2 then st2 else save e st2);
             let st4 = st3\<lparr>emitted := emitted st3 @ map desktopAdded (drop oldCount (m_desktops st3))\<rparr>;
             Some (emit (countChanged oldCount (count st4)) st4)
           })"

section \<open>Loading\<close>

fun load_desktops :: "env \<Rightarrow> config_group \<Rightarrow> nat list \<Rightarrow> manager \<Rightarrow> manager option" where
  "load_desktops e cfg [] st = Some st"
| "load_desktops e cfg (i # is) st =
     (if i - 1 \<ge> count st then None
      else
        let vd = m_desktops st ! (i - 1);
            s = (case map_of (entry_Name cfg) i of Some v \<Rightarrow> v | None \<Rightarrow> defaultName e i);
            st1 = setName_connected e vd s st;
            sId = (case map_of (entry_Id cfg) i of Some v \<Rightarrow> v | None \<Rightarrow> []);
            st2 = (if m_id (store st1 vd) = []
                   then if sId = [] then setGeneratedId e vd st1 else setId vd sId st1
                   else st1)
        in load_desktops e cfg is st2)"

definition load :: "env \<Rightarrow> manager \<Rightarrow> manager option" where
  "load e st =
     (let st1 = st\<lparr>s_loadingDesktopSettings := True\<rparr>
      in case m_config st1 of
           None \<Rightarrow> Some st1
         | Some cfg \<Rightarrow>
             let n = (case entry_Number cfg of Some v \<Rightarrow> v | None \<Rightarrow> 1)
             in do {
               st2 \<leftarrow> setCount e (nat (n mod 2 ^ 32)) st1;
               st3 \<leftarrow> load_desktops e cfg [1..<nat n + 1] st2;
               let rows = (case entry_Rows cfg of Some v \<Rightarrow> v | None \<Rightarrow> 2);
               if n < 1 then None
               else Some (st3\<lparr>m_rows := nat (max 1 (min rows n)), s_loadingDesktopSettings := False\<rparr>)
             })"

section \<open>Navigation\<close>

definition orCurrent :: "env \<Rightarrow> nat option \<Rightarrow> manager \<Rightarrow> nat option" where
  "orCurrent e desktop st =
     (case desktop of Some vd \<Rightarrow> Some vd | None \<Rightarrow> Option.bind (currentDesktop e None st) id)"

text \<open>The four steps on the grid assert that the desktop has a place there.\<close>

definition on_grid :: "(grid \<Rightarrow> nat \<Rightarrow> bool \<Rightarrow> nat option) \<Rightarrow> env \<Rightarrow> nat option \<Rightarrow> bool \<Rightarrow> manager \<Rightarrow> nat option" where
  "on_grid step e desktop wrap st = do {
     vd \<leftarrow> orCurrent e desktop st;
     if fst (Grid_gridCoords (m_grid st) vd) \<ge> 0 then step (m_grid st) vd wrap else None
   }"

definition above :: "env \<Rightarrow> nat option \<Rightarrow> bool \<Rightarrow> manager \<Rightarrow> nat option" where
  "above = on_grid Grid_above"

definition below :: "env \<Rightarrow> nat option \<Rightarrow> bool \<Rightarrow> manager \<Rightarrow> nat option" where
  "below = on_grid Grid_below"

definition toRight :: "env \<Rightarrow> nat option \<Rightarrow> bool \<Rightarrow> manager \<Rightarrow> nat option" where
  "toRight = on_grid Grid_toRight"

definition toLeft :: "env \<Rightarrow> nat option \<Rightarrow> bool \<Rightarrow> manager \<Rightarrow> nat option" where
  "toLeft = on_grid Grid_toLeft"

definition next_desktop_of :: "env \<Rightarrow> nat option \<Rightarrow> bool \<Rightarrow> manager \<Rightarrow> nat option" where
  "next_desktop_of e desktop wrap st = do {
     vd \<leftarrow> orCurrent e desktop st;
     let it = index_of (m_desktops st) vd;
     if it = -1 then None
     else if it + 1 = int (count st) then Some (if wrap then hd (m_desktops st) else vd)
     else Some (m_desktops st ! nat (it + 1))
   }"

definition previous_desktop_of :: "env \<Rightarrow> nat option \<Rightarrow> bool \<Rightarrow> manager \<Rightarrow> nat option" where
  "previous_desktop_of e desktop wrap st = do {
     vd \<leftarrow> orCurrent e desktop st;
     let it = index_of (m_desktops st) vd;
     if it = -1 then None
     else if it = 0 then Some (if wrap then last (m_desktops st) else vd)
     else Some (m_desktops st ! nat (it - 1))
   }"

fun inDirection :: "env \<Rightarrow> nat option \<Rightarrow> direction \<Rightarrow> bool \<Rightarrow> manager \<Rightarrow> nat option" where
  "inDirection e desktop Up wrap st = above e desktop wrap st"
| "inDirection e desktop Down wrap st = below e desktop wrap st"
| "inDirection e desktop Right wrap st = toRight e desktop wrap st"
| "inDirection e desktop Left wrap st = toLeft e desktop wrap st"
| "inDirection e desktop Next wrap st = next_desktop_of e desktop wrap st"
| "inDirection e desktop Previous wrap st = previous_desktop_of e desktop wrap st"

definition inDirectionNumber :: "env \<Rightarrow> nat \<Rightarrow> direction \<Rightarrow> bool \<Rightarrow> manager \<Rightarrow> nat option" where
  "inDirectionNumber e desktop direction wrap st = do {
     vd \<leftarrow> inDirection e (desktopForX11Id st desktop) direction wrap st;
     Some (m_x11DesktopNumber (store st vd))
   }"

definition moveTo :: "env \<Rightarrow> direction \<Rightarrow> bool \<Rightarrow> manager \<Rightarrow> manager option" where
  "moveTo e direction wrap st = do {
     vd \<leftarrow> inDirection e None direction wrap st;
     Some (snd (setCurrent e vd None st))
   }"

section \<open>Settings\<close>

definition setNavigationWrappingAround :: "bool \<Rightarrow> manager \<Rightarrow> manager" where
  "setNavigationWrappingAround enabled st =
     (if enabled = m_navigationWrapsAround st then st
      else emit navigationWrappingAroundChanged (st\<lparr>m_navigationWrapsAround := enabled\<rparr>))"

definition setPerOutputVirtualDesktops :: "env \<Rightarrow> bool \<Rightarrow> manager \<Rightarrow> manager option" where
  "setPerOutputVirtualDesktops e enabled st =
     (if enabled = m_perOutputVirtualDesktops st then Some st
      else
        let st1 = st\<lparr>m_perOutputVirtualDesktops := enabled\<rparr>
        in do {
          st2 \<leftarrow> (if enabled then Some st1
                 else do {
                   newDesktop \<leftarrow> Option.bind (currentDesktop e (Some (activeOutput e)) st1) id;
                   Some (fold (\<lambda>output s. snd (setCurrent e newDesktop (Some output) s)) (outputs e) st1)
                 });
          Some (emit perOutputVirtualDesktopsChanged st2)
        })"

text \<open>What the manager does when an output is removed (the entry is dropped from the hash).\<close>

definition outputRemoved :: "env \<Rightarrow> nat \<Rightarrow> manager \<Rightarrow> manager" where
  "outputRemoved e output st =
     st\<lparr>m_currentDesktops := hash_order e (AList.delete output (m_currentDesktops st))\<rparr>"

section \<open>Swipe gestures\<close>

definition emitCurrentChanging :: "env \<Rightarrow> manager \<Rightarrow> manager option" where
  "emitCurrentChanging e st =
     (let announce = (\<lambda>output s. do {
            st' \<leftarrow> s;
            d \<leftarrow> currentDesktop e (Some output) st';
            Some (emit (currentChanging d (m_currentDesktopOffset st') output) st')
          })
      in if m_perOutputVirtualDesktops st then announce (activeOutput e) (Some st)
         else fold announce (outputs e) (Some st))"

definition swipeX :: "env \<Rightarrow> real \<Rightarrow> manager \<Rightarrow> manager option" where
  "swipeX e x st =
     (if grid_width (m_grid st) > 1
      then emitCurrentChanging e (st\<lparr>m_currentDesktopOffset := (x, snd (m_currentDesktopOffset st))\<rparr>)
      else Some st)"

definition swipeY :: "env \<Rightarrow> real \<Rightarrow> manager \<Rightarrow> manager option" where
  "swipeY e y st =
     (if grid_height (m_grid st) > 1
      then emitCurrentChanging e (st\<lparr>m_currentDesktopOffset := (fst (m_currentDesktopOffset st), y)\<rparr>)
      else Some st)"

definition GESTURE_SWITCH_THRESHOLD :: real where
  "GESTURE_SWITCH_THRESHOLD = 1 / 4"

definition finish_gesture :: "env \<Rightarrow> nat option \<Rightarrow> nat option \<Rightarrow> manager \<Rightarrow> manager option" where
  "finish_gesture e cur target st = do {
     st' \<leftarrow> (if cur \<noteq> target
            then do { vd \<leftarrow> target; Some (snd (setCurrent e vd None st)) }
            else Some (emit currentChangingCancelled st));
     Some (st'\<lparr>m_currentDesktopOffset := (0, 0)\<rparr>)
   }"

definition gestureReleasedY :: "env \<Rightarrow> manager \<Rightarrow> manager option" where
  "gestureReleasedY e st = do {
     cur \<leftarrow> currentDesktop e None st;
     target \<leftarrow> (if snd (m_currentDesktopOffset st) \<le> - GESTURE_SWITCH_THRESHOLD
               then map_option Some (above e cur (m_navigationWrapsAround st) st)
               else if snd (m_currentDesktopOffset st) \<ge> GESTURE_SWITCH_THRESHOLD
               then map_option Some (below e cur (m_navigationWrapsAround st) st)
               else Some cur);
     finish_gesture e cur target st
   }"

definition gestureReleasedX :: "env \<Rightarrow> manager \<Rightarrow> manager option" where
  "gestureReleasedX e st = do {
     cur \<leftarrow> currentDesktop e None st;
     target \<leftarrow> (if fst (m_currentDesktopOffset st) \<le> - GESTURE_SWITCH_THRESHOLD
               then map_option Some (toLeft e cur (m_navigationWrapsAround st) st)
               else if fst (m_currentDesktopOffset st) \<ge> GESTURE_SWITCH_THRESHOLD
               then map_option Some (toRight e cur (m_navigationWrapsAround st) st)
               else Some cur);
     finish_gesture e cur target st
   }"

end
