(* ===== verification/VirtualDesktopsInv.thy ===== *)
theory VirtualDesktopsInv
  imports VirtualDesktops
begin

text \<open>
  The invariant of the manager, in three parts: the desktops and their numbers, the layout, and the
  current desktops of the outputs. Every operation that starts in the invariant succeeds (no
  assertion, container precondition or division fails, and no loop hangs) and ends in it.
\<close>

section \<open>The invariant\<close>

definition numbered :: "nat list \<Rightarrow> (nat \<Rightarrow> virtual_desktop) \<Rightarrow> nat \<Rightarrow> bool" where
  "numbered ds \<sigma> fresh \<longleftrightarrow>
     distinct ds \<and> (\<forall>vd \<in> set ds. vd < fresh) \<and>
     (\<forall>i < length ds. m_x11DesktopNumber (\<sigma> (ds ! i)) = i + 1)"

definition desktops_ok :: "nat list \<Rightarrow> (nat \<Rightarrow> virtual_desktop) \<Rightarrow> nat \<Rightarrow> bool" where
  "desktops_ok ds \<sigma> fresh \<longleftrightarrow> numbered ds \<sigma> fresh \<and> 1 \<le> length ds \<and> length ds \<le> maximum"

definition layout_ok :: "nat list \<Rightarrow> nat \<Rightarrow> grid \<Rightarrow> bool" where
  "layout_ok ds rows g \<longleftrightarrow>
     1 \<le> rows \<and> rows \<le> length ds \<and> (\<exists>w h. 0 < w \<and> length ds \<le> w * h \<and> g = Grid_update w h ds)"

definition current_ok :: "nat list \<Rightarrow> bool \<Rightarrow> (nat \<times> nat option) list \<Rightarrow> bool" where
  "current_ok ds perOutput cur \<longleftrightarrow>
     distinct (map fst cur) \<and> ran (map_of cur) \<subseteq> Some ` set ds \<and>
     (\<not> perOutput \<longrightarrow> (\<exists>c. ran (map_of cur) \<subseteq> {c}))"

definition manager_ok :: "manager \<Rightarrow> bool" where
  "manager_ok st \<longleftrightarrow>
     desktops_ok (m_desktops st) (store st) (next_desktop st) \<and>
     layout_ok (m_desktops st) (m_rows st) (m_grid st) \<and>
     current_ok (m_desktops st) (m_perOutputVirtualDesktops st) (m_currentDesktops st)"

text \<open>What is asked of the environment: \<open>QHash\<close> only orders its entries.\<close>

definition env_ok :: "env \<Rightarrow> bool" where
  "env_ok e \<longleftrightarrow> (\<forall>xs. mset (hash_order e xs) = mset xs)"

section \<open>Frames\<close>

text \<open>The fields that an operation leaves alone.\<close>

lemma emit_fields [simp]:
  "m_desktops (emit s st) = m_desktops st" "store (emit s st) = store st"
  "next_desktop (emit s st) = next_desktop st" "m_currentDesktops (emit s st) = m_currentDesktops st"
  "m_rows (emit s st) = m_rows st" "m_grid (emit s st) = m_grid st"
  "m_perOutputVirtualDesktops (emit s st) = m_perOutputVirtualDesktops st"
  "m_config (emit s st) = m_config st" "next_uuid (emit s st) = next_uuid st"
  "s_loadingDesktopSettings (emit s st) = s_loadingDesktopSettings st"
  by (simp_all add: emit_def)

lemma save_fields [simp]:
  "m_desktops (save e st) = m_desktops st" "store (save e st) = store st"
  "next_desktop (save e st) = next_desktop st" "m_currentDesktops (save e st) = m_currentDesktops st"
  "m_rows (save e st) = m_rows st" "m_grid (save e st) = m_grid st"
  "m_perOutputVirtualDesktops (save e st) = m_perOutputVirtualDesktops st"
  "next_uuid (save e st) = next_uuid st"
  "s_loadingDesktopSettings (save e st) = s_loadingDesktopSettings st"
  by (simp_all add: save_def split: option.split)

lemma setX11DesktopNumber_fields [simp]:
  "m_desktops (setX11DesktopNumber vd n st) = m_desktops st"
  "store (setX11DesktopNumber vd n st) = (store st)(vd := (store st vd)\<lparr>m_x11DesktopNumber := n\<rparr>)"
  "next_desktop (setX11DesktopNumber vd n st) = next_desktop st"
  "m_currentDesktops (setX11DesktopNumber vd n st) = m_currentDesktops st"
  "m_rows (setX11DesktopNumber vd n st) = m_rows st" "m_grid (setX11DesktopNumber vd n st) = m_grid st"
  "m_perOutputVirtualDesktops (setX11DesktopNumber vd n st) = m_perOutputVirtualDesktops st"
  "m_config (setX11DesktopNumber vd n st) = m_config st" "next_uuid (setX11DesktopNumber vd n st) = next_uuid st"
  "s_loadingDesktopSettings (setX11DesktopNumber vd n st) = s_loadingDesktopSettings st"
  by (auto simp: setX11DesktopNumber_def Let_def fun_eq_iff)

lemma setName_fields [simp]:
  "m_desktops (setName vd n st) = m_desktops st"
  "store (setName vd n st) = (store st)(vd := (store st vd)\<lparr>m_name := n\<rparr>)"
  "next_desktop (setName vd n st) = next_desktop st"
  "m_currentDesktops (setName vd n st) = m_currentDesktops st"
  "m_rows (setName vd n st) = m_rows st" "m_grid (setName vd n st) = m_grid st"
  "m_perOutputVirtualDesktops (setName vd n st) = m_perOutputVirtualDesktops st"
  "m_config (setName vd n st) = m_config st" "next_uuid (setName vd n st) = next_uuid st"
  "s_loadingDesktopSettings (setName vd n st) = s_loadingDesktopSettings st"
  by (auto simp: setName_def fun_eq_iff)

lemma setName_connected_fields [simp]:
  "m_desktops (setName_connected e vd n st) = m_desktops st"
  "store (setName_connected e vd n st) = (store st)(vd := (store st vd)\<lparr>m_name := n\<rparr>)"
  "next_desktop (setName_connected e vd n st) = next_desktop st"
  "m_currentDesktops (setName_connected e vd n st) = m_currentDesktops st"
  "m_rows (setName_connected e vd n st) = m_rows st" "m_grid (setName_connected e vd n st) = m_grid st"
  "m_perOutputVirtualDesktops (setName_connected e vd n st) = m_perOutputVirtualDesktops st"
  "next_uuid (setName_connected e vd n st) = next_uuid st"
  "s_loadingDesktopSettings (setName_connected e vd n st) = s_loadingDesktopSettings st"
  by (auto simp: setName_connected_def fun_eq_iff)

text \<open>The effect of \<open>renumber\<close> on the store.\<close>

fun number_from :: "nat \<Rightarrow> nat list \<Rightarrow> (nat \<Rightarrow> virtual_desktop) \<Rightarrow> nat \<Rightarrow> virtual_desktop" where
  "number_from i [] \<sigma> = \<sigma>"
| "number_from i (vd # vds) \<sigma> = number_from (i + 1) vds (\<sigma>(vd := (\<sigma> vd)\<lparr>m_x11DesktopNumber := i + 1\<rparr>))"

lemma renumber_fields [simp]:
  "m_desktops (renumber i vds st) = m_desktops st"
  "store (renumber i vds st) = number_from i vds (store st)"
  "next_desktop (renumber i vds st) = next_desktop st"
  "m_currentDesktops (renumber i vds st) = m_currentDesktops st"
  "m_rows (renumber i vds st) = m_rows st" "m_grid (renumber i vds st) = m_grid st"
  "m_perOutputVirtualDesktops (renumber i vds st) = m_perOutputVirtualDesktops st"
  "m_config (renumber i vds st) = m_config st" "next_uuid (renumber i vds st) = next_uuid st"
  "s_loadingDesktopSettings (renumber i vds st) = s_loadingDesktopSettings st"
  by (induction vds arbitrary: i st) auto

lemma number_from_other [simp]: "vd \<notin> set vds \<Longrightarrow> number_from i vds \<sigma> vd = \<sigma> vd"
  by (induction vds arbitrary: i \<sigma>) auto

lemma number_from_nth:
  "distinct vds \<Longrightarrow> j < length vds \<Longrightarrow> m_x11DesktopNumber (number_from i vds \<sigma> (vds ! j)) = i + j + 1"
proof (induction vds arbitrary: i j \<sigma>)
  case (Cons vd vds)
  then show ?case by (cases j) auto
qed simp

lemma number_from_keeps [simp]:
  "m_id (number_from i vds \<sigma> vd) = m_id (\<sigma> vd)" "m_name (number_from i vds \<sigma> vd) = m_name (\<sigma> vd)"
  by (induction vds arbitrary: i \<sigma>) auto

lemma retarget_fields [simp]:
  "m_desktops (retarget P vd st) = m_desktops st" "store (retarget P vd st) = store st"
  "next_desktop (retarget P vd st) = next_desktop st" "m_rows (retarget P vd st) = m_rows st"
  "m_grid (retarget P vd st) = m_grid st"
  "m_perOutputVirtualDesktops (retarget P vd st) = m_perOutputVirtualDesktops st"
  "m_config (retarget P vd st) = m_config st" "next_uuid (retarget P vd st) = next_uuid st"
  "s_loadingDesktopSettings (retarget P vd st) = s_loadingDesktopSettings st"
  by (simp_all add: retarget_def)

section \<open>Parts of the invariant\<close>

text \<open>Numbering from a position on, when the numbers before it are right.\<close>

lemma numbered_renumber:
  assumes "distinct ds" "\<forall>vd \<in> set ds. vd < fresh"
    and "i \<le> length ds" "\<forall>j < i. m_x11DesktopNumber (\<sigma> (ds ! j)) = j + 1"
  shows "numbered ds (number_from i (drop i ds) \<sigma>) fresh"
proof -
  have "m_x11DesktopNumber (number_from i (drop i ds) \<sigma> (ds ! j)) = j + 1" if "j < length ds" for j
  proof (cases "j < i")
    case True
    then have "ds ! j \<notin> set (drop i ds)"
      using assms(1) that by (auto simp: in_set_conv_nth nth_eq_iff_index_eq)
    then show ?thesis using assms(4) True by simp
  next
    case False
    have "m_x11DesktopNumber (number_from i (drop i ds) \<sigma> (drop i ds ! (j - i))) = i + (j - i) + 1"
      using assms(1) that False by (intro number_from_nth) auto
    then show ?thesis using False that by simp
  qed
  then show ?thesis unfolding numbered_def using assms(1,2) by blast
qed

lemma numbered_store:
  "numbered ds \<sigma> fresh \<Longrightarrow> (\<And>vd. vd \<in> set ds \<Longrightarrow> m_x11DesktopNumber (\<sigma>' vd) = m_x11DesktopNumber (\<sigma> vd)) \<Longrightarrow>
   numbered ds \<sigma>' fresh"
  by (auto simp: numbered_def)

definition columns_for :: "nat \<Rightarrow> nat \<Rightarrow> nat" where
  "columns_for n rows = n div rows + (if n mod rows > 0 then 1 else 0)"

lemma columns_for_room:
  assumes "0 < rows" "0 < n" shows "0 < columns_for n rows" "n \<le> columns_for n rows * rows"
proof -
  have n: "n = n div rows * rows + n mod rows" "n mod rows < rows" using assms by simp_all
  then have "n \<le> n div rows * rows + rows" by linarith
  moreover have "n mod rows = 0 \<Longrightarrow> n \<le> n div rows * rows" using n by linarith
  ultimately show "n \<le> columns_for n rows * rows" by (auto simp: columns_for_def add_mult_distrib)
  then show "0 < columns_for n rows" using assms by (auto intro: gr0I)
qed

lemma updateLayout_result:
  "1 \<le> m_rows st \<Longrightarrow> m_desktops st \<noteq> [] \<Longrightarrow>
   updateLayout st = Some
     (let rows = min (m_rows st) (count st); columns = columns_for (count st) rows
      in emit (rowsChanged rows) (emit (layoutChanged columns rows)
           (st\<lparr>m_rows := rows, m_grid := Grid_update columns rows (m_desktops st)\<rparr>)))"
  by (auto simp: updateLayout_def Let_def count_def columns_for_def)

lemma updateLayout_ok:
  assumes "1 \<le> m_rows st" "m_desktops st \<noteq> []"
  obtains st' where "updateLayout st = Some st'"
    "layout_ok (m_desktops st) (m_rows st') (m_grid st')"
    "m_desktops st' = m_desktops st" "store st' = store st" "next_desktop st' = next_desktop st"
    "m_currentDesktops st' = m_currentDesktops st"
    "m_perOutputVirtualDesktops st' = m_perOutputVirtualDesktops st"
    "s_loadingDesktopSettings st' = s_loadingDesktopSettings st" "m_config st' = m_config st"
    "m_rows st' = min (m_rows st) (count st)" "next_uuid st' = next_uuid st"
    "m_grid st' = Grid_update (columns_for (count st) (m_rows st')) (m_rows st') (m_desktops st)"
proof -
  have "layout_ok (m_desktops st) (min (m_rows st) (count st))
      (Grid_update (columns_for (count st) (min (m_rows st) (count st))) (min (m_rows st) (count st)) (m_desktops st))"
  proof -
    have "0 < min (m_rows st) (count st)" "0 < count st" using assms by (auto simp: count_def)
    note room = columns_for_room [OF this]
    then show ?thesis using assms unfolding layout_ok_def count_def [symmetric]
      by (intro conjI exI) (auto simp: count_def Suc_le_eq)
  qed
  then show ?thesis
    by (intro that [OF updateLayout_result [OF assms]]) (simp_all add: Let_def)
qed

lemma map_of_hash_order:
  assumes "env_ok e" "distinct (map fst xs)"
  shows "distinct (map fst (hash_order e xs))" "map_of (hash_order e xs) = map_of xs"
proof -
  have m: "mset (hash_order e xs) = mset xs" using assms by (simp add: env_ok_def)
  then have "mset (map fst (hash_order e xs)) = mset (map fst xs)" by (simp only: mset_map)
  from mset_eq_imp_distinct_iff [OF this] show d: "distinct (map fst (hash_order e xs))" using assms(2) by simp
  show "map_of (hash_order e xs) = map_of xs"
    using map_of_inject_set [OF d assms(2)] mset_eq_setD [OF m] by simp
qed

text \<open>The outputs with their current desktops, as a map.\<close>

abbreviation on_output :: "manager \<Rightarrow> nat \<Rightarrow> nat option option" where
  "on_output st \<equiv> map_of (m_currentDesktops st)"

lemma assign_current_ok:
  assumes "env_ok e" "distinct (map fst (m_currentDesktops st))"
  shows "distinct (map fst (m_currentDesktops (assign_current e output d st)))"
    "on_output (assign_current e output d st) = (on_output st)(output \<mapsto> d)"
proof -
  have "output \<notin> fst ` set (m_currentDesktops st)" if "map_of (m_currentDesktops st) output = None"
    using that by (simp add: map_of_eq_None_iff)
  then show "distinct (map fst (m_currentDesktops (assign_current e output d st)))"
    "on_output (assign_current e output d st) = (on_output st)(output \<mapsto> d)"
    using assms map_of_hash_order [OF assms(1), of "(output, d) # m_currentDesktops st"]
    by (auto simp: assign_current_def distinct_update update_conv)
qed

lemma assign_current_fields [simp]:
  "m_desktops (assign_current e output d st) = m_desktops st" "store (assign_current e output d st) = store st"
  "next_desktop (assign_current e output d st) = next_desktop st" "m_rows (assign_current e output d st) = m_rows st"
  "m_grid (assign_current e output d st) = m_grid st"
  "m_perOutputVirtualDesktops (assign_current e output d st) = m_perOutputVirtualDesktops st"
  "m_config (assign_current e output d st) = m_config st"
  "s_loadingDesktopSettings (assign_current e output d st) = s_loadingDesktopSettings st"
  by (simp_all add: assign_current_def)

lemma retarget_on_output:
  "map fst (m_currentDesktops (retarget P vd st)) = map fst (m_currentDesktops st)"
  "on_output (retarget P vd st) = map_option (\<lambda>d. if P d then Some vd else d) \<circ> on_output st"
  by (auto simp: retarget_def map_of_map comp_def)

lemma ran_map_option: "ran (map_option f \<circ> m) = f ` ran m"
  by (auto simp: ran_def)

lemma current_ok_retarget:
  assumes "current_ok ds p (m_currentDesktops st)"
    and "\<And>d. d \<in> ran (on_output st) \<Longrightarrow> \<not> P d \<Longrightarrow> d \<in> Some ` set ds'" "vd \<in> set ds'"
  shows "current_ok ds' p (m_currentDesktops (retarget P vd st))"
proof -
  let ?f = "\<lambda>d. if P d then Some vd else d"
  have "ran (on_output (retarget P vd st)) = ?f ` ran (on_output st)"
    by (simp add: retarget_on_output ran_map_option)
  moreover have "?f ` ran (on_output st) \<subseteq> Some ` set ds'" using assms(2,3) by auto
  moreover have "\<exists>c. ?f ` ran (on_output st) \<subseteq> {c}" if np: "\<not> p"
  proof -
    obtain c where "ran (on_output st) \<subseteq> {c}" using assms(1) np by (auto simp: current_ok_def)
    then have "?f ` ran (on_output st) \<subseteq> {?f c}" by auto
    then show ?thesis by blast
  qed
  ultimately show ?thesis using assms(1) by (simp add: current_ok_def retarget_on_output)
qed

lemma current_ok_subset: "current_ok ds p cur \<Longrightarrow> set ds \<subseteq> set ds' \<Longrightarrow> current_ok ds' p cur"
  unfolding current_ok_def by blast

section \<open>Operations on the desktops\<close>

lemma setId_fields [simp]:
  "m_desktops (setId vd i st) = m_desktops st"
  "store (setId vd i st) = (store st)(vd := (store st vd)\<lparr>m_id := i\<rparr>)"
  "next_desktop (setId vd i st) = next_desktop st" "m_currentDesktops (setId vd i st) = m_currentDesktops st"
  "m_rows (setId vd i st) = m_rows st" "m_grid (setId vd i st) = m_grid st"
  "m_perOutputVirtualDesktops (setId vd i st) = m_perOutputVirtualDesktops st"
  "m_config (setId vd i st) = m_config st" "next_uuid (setId vd i st) = next_uuid st"
  "s_loadingDesktopSettings (setId vd i st) = s_loadingDesktopSettings st"
  by (simp_all add: setId_def)

lemma setGeneratedId_fields [simp]:
  "m_desktops (setGeneratedId e vd st) = m_desktops st"
  "store (setGeneratedId e vd st) = (store st)(vd := (store st vd)\<lparr>m_id := uuid e (next_uuid st)\<rparr>)"
  "next_desktop (setGeneratedId e vd st) = next_desktop st"
  "m_currentDesktops (setGeneratedId e vd st) = m_currentDesktops st"
  "m_rows (setGeneratedId e vd st) = m_rows st" "m_grid (setGeneratedId e vd st) = m_grid st"
  "m_perOutputVirtualDesktops (setGeneratedId e vd st) = m_perOutputVirtualDesktops st"
  "m_config (setGeneratedId e vd st) = m_config st"
  "s_loadingDesktopSettings (setGeneratedId e vd st) = s_loadingDesktopSettings st"
  by (simp_all add: setGeneratedId_def)

lemma new_desktop_fields [simp]:
  "m_desktops (new_desktop st) = m_desktops st"
  "store (new_desktop st) = (store st)(next_desktop st := VirtualDesktop_new)"
  "next_desktop (new_desktop st) = next_desktop st + 1"
  "m_currentDesktops (new_desktop st) = m_currentDesktops st"
  "m_rows (new_desktop st) = m_rows st" "m_grid (new_desktop st) = m_grid st"
  "m_perOutputVirtualDesktops (new_desktop st) = m_perOutputVirtualDesktops st"
  "m_config (new_desktop st) = m_config st" "next_uuid (new_desktop st) = next_uuid st"
  "s_loadingDesktopSettings (new_desktop st) = s_loadingDesktopSettings st"
  by (simp_all add: new_desktop_def)

lemma nth_insert_at:
  "i \<le> length xs \<Longrightarrow> j < length xs + 1 \<Longrightarrow>
   insert_at i x xs ! j = (if j < i then xs ! j else if j = i then x else xs ! (j - 1))"
  by (auto simp: insert_at_def nth_append min_def nth_Cons')

lemma createVirtualDesktop_ok:
  assumes ok: "manager_ok st"
  shows "\<exists>r st'. createVirtualDesktop e position name st = Some (r, st') \<and> manager_ok st' \<and>
    (if count st = maximum then r = None \<and> st' = st
     else r = Some (next_desktop st) \<and>
       m_desktops st' = insert_at (min position (count st)) (next_desktop st) (m_desktops st) \<and>
       m_name (store st' (next_desktop st)) =
         (if name = [] then defaultName e (min position (count st) + 1) else name) \<and>
       m_currentDesktops st' = m_currentDesktops st)"
proof (cases "count st = maximum")
  case True
  then show ?thesis using ok by (simp add: createVirtualDesktop_def)
next
  case False
  let ?i = "min position (count st)" and ?vd = "next_desktop st"
  let ?ds = "insert_at ?i ?vd (m_desktops st)"
  let ?n = "if name = [] then defaultName e (?i + 1) else name"
  define st3 where "st3 = setName ?vd ?n (setGeneratedId e ?vd (setX11DesktopNumber ?vd (?i + 1) (new_desktop st)))"
  define st4 where "st4 = st3\<lparr>m_desktops := insert_at ?i ?vd (m_desktops st3)\<rparr>"
  define st5 where "st5 = renumber (?i + 1) (drop (?i + 1) (m_desktops st4)) st4"
  have f: "distinct (m_desktops st)" "\<forall>vd \<in> set (m_desktops st). vd < ?vd"
      "\<forall>i < count st. m_x11DesktopNumber (store st (m_desktops st ! i)) = i + 1"
      "1 \<le> count st" "count st \<le> maximum" "1 \<le> m_rows st" "m_rows st \<le> count st"
    using ok by (auto simp: manager_ok_def desktops_ok_def numbered_def layout_ok_def count_def)
  then have v: "?vd \<notin> set (m_desktops st)" by blast
  have d: "m_desktops st5 = ?ds" and keep: "m_currentDesktops st5 = m_currentDesktops st"
    "m_perOutputVirtualDesktops st5 = m_perOutputVirtualDesktops st"
    "m_rows st5 = m_rows st" "next_desktop st5 = ?vd + 1"
    and \<sigma>: "store st5 = number_from (?i + 1) (drop (?i + 1) ?ds) (store st3)"
    and name: "m_name (store st5 ?vd) = ?n"
    by (simp_all add: st5_def st4_def st3_def)
  have nth: "?ds ! j = (if j < ?i then m_desktops st ! j else if j = ?i then ?vd else m_desktops st ! (j - 1))"
    if "j < count st + 1" for j using that by (intro nth_insert_at) (auto simp: count_def)
  have "m_x11DesktopNumber (store st3 (?ds ! j)) = j + 1" if "j < ?i + 1" for j
  proof (cases "j = ?i")
    case True
    then show ?thesis using nth [of j] by (simp add: st3_def)
  next
    case False
    then have "j < ?i" "m_desktops st ! j \<in> set (m_desktops st)" using that by (auto simp: count_def)
    then show ?thesis using nth [of j] f(3) v by (auto simp: st3_def)
  qed
  then have num: "numbered ?ds (store st5) (?vd + 1)"
    unfolding \<sigma> using f(1,2) v
    by (intro numbered_renumber) (auto simp: distinct_insert_at count_def less_SucI)
  obtain st6 where st6: "updateLayout (save e st5) = Some st6"
    "layout_ok (m_desktops (save e st5)) (m_rows st6) (m_grid st6)"
    "m_desktops st6 = m_desktops (save e st5)" "store st6 = store (save e st5)"
    "next_desktop st6 = next_desktop (save e st5)" "m_currentDesktops st6 = m_currentDesktops (save e st5)"
    "m_perOutputVirtualDesktops st6 = m_perOutputVirtualDesktops (save e st5)"
    by (rule updateLayout_ok [of "save e st5"]) (use f d keep in \<open>auto simp: insert_at_def\<close>)
  let ?st' = "emit (countChanged (count st6 - 1) (count st6)) (emit (desktopAdded ?vd) st6)"
  have "createVirtualDesktop e position name st = Some (Some ?vd, ?st')"
    using False st6(1) by (simp add: createVirtualDesktop_def Let_def st3_def st4_def st5_def)
  moreover have "current_ok ?ds (m_perOutputVirtualDesktops st) (m_currentDesktops st)"
    by (rule current_ok_subset [of "m_desktops st"]) (use ok in \<open>auto simp: manager_ok_def\<close>)
  then have "manager_ok ?st'"
    using st6 num d keep f False by (simp add: manager_ok_def desktops_ok_def count_def)
  ultimately show ?thesis using st6 d keep name False by simp
qed

lemma manager_ok_facts:
  assumes "manager_ok st"
  shows "distinct (m_desktops st)" "\<forall>vd \<in> set (m_desktops st). vd < next_desktop st"
    "\<forall>i < length (m_desktops st). m_x11DesktopNumber (store st (m_desktops st ! i)) = i + 1"
    "1 \<le> length (m_desktops st)" "length (m_desktops st) \<le> maximum" "m_desktops st \<noteq> []"
    "1 \<le> m_rows st" "m_rows st \<le> length (m_desktops st)"
    "current_ok (m_desktops st) (m_perOutputVirtualDesktops st) (m_currentDesktops st)"
  using assms by (auto simp: manager_ok_def desktops_ok_def numbered_def layout_ok_def)

text \<open>Removing position \<open>i\<close>.\<close>

definition remove_at :: "nat \<Rightarrow> 'a list \<Rightarrow> 'a list" where
  "remove_at i xs = take i xs @ drop (i + 1) xs"

lemma remove_at_props:
  assumes "distinct xs" "i < length xs"
  shows "distinct (remove_at i xs)" "set (remove_at i xs) = set xs - {xs ! i}"
    "length (remove_at i xs) = length xs - 1"
    "remove_at i xs = removeAll (xs ! i) xs"
proof -
  have xs: "xs = take i xs @ xs ! i # drop (i + 1) xs" using assms(2) by (simp add: id_take_nth_drop [symmetric])
  then have "distinct (take i xs @ xs ! i # drop (i + 1) xs)" using assms(1) by metis
  then have n: "xs ! i \<notin> set (take i xs)" "xs ! i \<notin> set (drop (i + 1) xs)" by auto
  have "removeAll (xs ! i) xs = removeAll (xs ! i) (take i xs @ xs ! i # drop (i + 1) xs)"
    using xs by metis
  also have "\<dots> = remove_at i xs" using n by (simp add: remove_at_def)
  finally show e: "remove_at i xs = removeAll (xs ! i) xs" by simp
  then show "distinct (remove_at i xs)" "set (remove_at i xs) = set xs - {xs ! i}"
    using assms(1) by (simp_all add: distinct_removeAll)
  show "length (remove_at i xs) = length xs - 1" using assms(2) by (simp add: remove_at_def min_def)
qed

lemma nth_remove_at: "j < i \<Longrightarrow> i < length xs \<Longrightarrow> remove_at i xs ! j = xs ! j"
  by (simp add: remove_at_def nth_append)

lemma insert_at_remove_at: "i < length xs \<Longrightarrow> insert_at i (xs ! i) (remove_at i xs) = xs"
  by (simp add: insert_at_def remove_at_def min_def id_take_nth_drop [symmetric])

text \<open>The desktop that outputs showing the removed one get: the one that moves into its place.\<close>

definition successor_of :: "nat list \<Rightarrow> nat \<Rightarrow> nat" where
  "successor_of ds vd =
     (let i = nat (index_of ds vd); ds' = removeAll vd ds in if i < length ds' then ds' ! i else last ds')"

lemma removeVirtualDesktop_ok:
  assumes ok: "manager_ok st" and vd: "vd \<in> set (m_desktops st)" and more: "count st \<noteq> 1"
  shows "\<exists>st'. removeVirtualDesktop e vd st = Some st' \<and> manager_ok st' \<and>
    m_desktops st' = removeAll vd (m_desktops st) \<and>
    on_output st' = map_option (\<lambda>d. if d = Some vd then Some (successor_of (m_desktops st) vd) else d) \<circ> on_output st"
proof -
  let ?i = "nat (index_of (m_desktops st) vd)" and ?ds = "removeAll vd (m_desktops st)"
  note f = manager_ok_facts [OF ok]
  have i: "index_of (m_desktops st) vd \<noteq> -1" "?i < length (m_desktops st)" "m_desktops st ! ?i = vd"
    using vd index_of_less [of "m_desktops st" vd] index_of_nonneg [OF vd] f(4)
    by (auto simp: index_of_none index_of_nth nat_less_iff)
  note rm = remove_at_props [OF f(1) i(2), unfolded i(3)]
  define st1 where "st1 = st\<lparr>m_desktops := take ?i (m_desktops st) @ drop (?i + 1) (m_desktops st)\<rparr>"
  define st2 where "st2 = renumber ?i (drop ?i (m_desktops st1)) st1"
  let ?new = "if ?i < count st2 then m_desktops st2 ! ?i else last (m_desktops st2)"
  define st3 where "st3 = retarget (\<lambda>d. d = Some vd) ?new st2"
  have d1: "m_desktops st1 = ?ds" using rm(4) by (simp add: st1_def remove_at_def)
  then have d: "m_desktops st2 = ?ds" "m_desktops st3 = ?ds" by (simp_all add: st2_def st3_def)
  have len: "length ?ds = length (m_desktops st) - 1" "?ds \<noteq> []"
    using rm(3,4) more f(4) by (auto simp: count_def)
  have bounds: "1 \<le> length ?ds" "length ?ds \<le> maximum"
    using len f(5) by (cases ?ds, simp_all)
  have new: "?new = successor_of (m_desktops st) vd" by (simp add: successor_of_def d count_def)
  have new_in: "?new \<in> set ?ds" using len(2) unfolding d count_def by (auto simp del: set_removeAll intro: nth_mem last_in_set)
  have "numbered ?ds (number_from ?i (drop ?i ?ds) (store st)) (next_desktop st)"
  proof (rule numbered_renumber)
    show "distinct ?ds" using f(1) by (rule distinct_removeAll)
    show "\<forall>v \<in> set ?ds. v < next_desktop st" using f(2) by simp
    show "?i \<le> length ?ds" using i(2) len(1) by simp
    show "\<forall>j < ?i. m_x11DesktopNumber (store st (?ds ! j)) = j + 1"
      using f(3) i(2) nth_remove_at [of _ ?i "m_desktops st"] rm(4) by auto
  qed
  then have num: "numbered ?ds (store st3) (next_desktop st3)"
    using d1 by (simp add: st3_def st2_def) (simp add: st1_def)
  have frame: "m_rows st3 = m_rows st" "m_perOutputVirtualDesktops st3 = m_perOutputVirtualDesktops st"
    "m_currentDesktops st2 = m_currentDesktops st"
    by (simp_all add: st3_def st2_def) (simp_all add: st1_def)
  have cur: "current_ok ?ds (m_perOutputVirtualDesktops st3) (m_currentDesktops st3)"
    unfolding st3_def
  proof (rule current_ok_retarget)
    show "current_ok (m_desktops st) (m_perOutputVirtualDesktops (retarget (\<lambda>d. d = Some vd) ?new st2)) (m_currentDesktops st2)"
      using f(9) frame by (simp add: st3_def)
    show "?new \<in> set ?ds" by (rule new_in)
  next
    fix c assume "c \<in> ran (on_output st2)" "c \<noteq> Some vd"
    then show "c \<in> Some ` set ?ds" using f(9) frame(3) by (auto simp: current_ok_def)
  qed
  obtain st4 where st4: "updateLayout st3 = Some st4"
    "layout_ok (m_desktops st3) (m_rows st4) (m_grid st4)"
    "m_desktops st4 = m_desktops st3" "store st4 = store st3" "next_desktop st4 = next_desktop st3"
    "m_currentDesktops st4 = m_currentDesktops st3"
    "m_perOutputVirtualDesktops st4 = m_perOutputVirtualDesktops st3"
    by (rule updateLayout_ok [of st3]) (use f frame d len in auto)
  let ?st' = "emit (countChanged (count (save e st4) + 1) (count (save e st4))) (emit (desktopRemoved vd) (save e st4))"
  have "removeVirtualDesktop e vd st = Some ?st'"
    unfolding removeVirtualDesktop_def Let_def if_not_P [OF more] if_not_P [OF i(1)]
      st1_def [symmetric] st2_def [symmetric] st3_def [symmetric] st4(1) by simp
  moreover have "manager_ok ?st'"
    using st4 num cur d bounds by (simp add: manager_ok_def desktops_ok_def)
  moreover have "on_output ?st' = map_option (\<lambda>c. if c = Some vd then Some (successor_of (m_desktops st) vd) else c) \<circ> on_output st"
    using st4(6) new frame(3) by (simp add: st3_def retarget_on_output)
  ultimately show ?thesis using st4(3) d(2) by simp
qed

lemma moveVirtualDesktop_ok:
  assumes ok: "manager_ok st"
  shows "\<exists>st'. moveVirtualDesktop e vd position st = Some st' \<and> manager_ok st' \<and>
    m_desktops st' =
      (if vd \<in> set (m_desktops st) \<and> 0 \<le> position \<and> position < int (count st)
       then insert_at (nat position) vd (removeAll vd (m_desktops st)) else m_desktops st) \<and>
    m_currentDesktops st' = m_currentDesktops st"
proof -
  note f = manager_ok_facts [OF ok]
  let ?ds = "m_desktops st"
  consider (stay) "vd \<notin> set ?ds \<or> position < 0 \<or> position \<ge> int (count st)"
    | (same) "vd \<in> set ?ds" "0 \<le> position" "position < int (count st)" "index_of ?ds vd = position"
    | (move) "vd \<in> set ?ds" "0 \<le> position" "position < int (count st)" "index_of ?ds vd \<noteq> position"
    by linarith
  then show ?thesis
  proof cases
    case stay
    then show ?thesis using ok by (auto simp: moveVirtualDesktop_def Let_def index_of_none)
  next
    case same
    then have i: "nat position < length ?ds" "?ds ! nat position = vd"
      using index_of_nth [OF same(1)] by (auto simp: count_def)
    have "insert_at (nat position) vd (removeAll vd ?ds) = ?ds"
      using insert_at_remove_at [OF i(1)] remove_at_props(4) [OF f(1) i(1)] i(2) by simp
    then show ?thesis using ok same by (simp add: moveVirtualDesktop_def Let_def)
  next
    case move
    let ?i = "nat (index_of ?ds vd)"
    have i: "index_of ?ds vd \<noteq> -1" "?i < length ?ds" "?ds ! ?i = vd"
      using move(1) index_of_less [of ?ds vd] index_of_nonneg [OF move(1)] f(4)
      by (auto simp: index_of_none index_of_nth nat_less_iff)
    note rm = remove_at_props [OF f(1) i(2), unfolded i(3)]
    let ?ds' = "insert_at (nat position) vd (removeAll vd ?ds)"
    define st1 where "st1 = st\<lparr>m_desktops := insert_at (nat position) vd (take ?i ?ds @ drop (?i + 1) ?ds)\<rparr>"
    define st2 where "st2 = renumber 0 (m_desktops st1) st1"
    have d: "m_desktops st1 = ?ds'" "m_desktops st2 = ?ds'"
      using rm(4) by (simp_all add: st1_def st2_def remove_at_def)
    have len: "length ?ds' = length ?ds" and set: "set ?ds' = set ?ds"
      using rm(3,4) f(4) move(1) by auto
    have "numbered ?ds' (number_from 0 (drop 0 ?ds') (store st)) (next_desktop st)"
      using f(1,2) by (intro numbered_renumber) (simp_all only: set, simp_all add: distinct_removeAll_insert_at)
    then have num: "numbered ?ds' (store st2) (next_desktop st2)"
      using d(1) by (simp add: st2_def) (simp add: st1_def)
    have frame: "m_rows st2 = m_rows st" "m_perOutputVirtualDesktops st2 = m_perOutputVirtualDesktops st"
      "m_currentDesktops st2 = m_currentDesktops st"
      by (simp_all add: st2_def) (simp_all add: st1_def)
    obtain st3 where st3: "updateLayout st2 = Some st3"
      "layout_ok (m_desktops st2) (m_rows st3) (m_grid st3)"
      "m_desktops st3 = m_desktops st2" "store st3 = store st2" "next_desktop st3 = next_desktop st2"
      "m_currentDesktops st3 = m_currentDesktops st2"
      "m_perOutputVirtualDesktops st3 = m_perOutputVirtualDesktops st2"
      by (rule updateLayout_ok [of st2]) (use f frame d len in \<open>auto simp: insert_at_def\<close>)
    have "moveVirtualDesktop e vd position st = Some (emit (desktopMoved vd position) (save e st3))"
      unfolding moveVirtualDesktop_def Let_def if_not_P [OF i(1)] if_not_P [OF move(4)]
        st1_def [symmetric] st2_def [symmetric] st3(1) using move by simp
    moreover have "current_ok ?ds' (m_perOutputVirtualDesktops st) (m_currentDesktops st)"
      using f(9) by (rule current_ok_subset) (simp only: set order_refl)
    then have "manager_ok (emit (desktopMoved vd position) (save e st3))"
      using st3 num d len frame f(4,5) by (simp add: manager_ok_def desktops_ok_def)
    ultimately show ?thesis using st3 d frame move by simp
  qed
qed

lemma setRows_ok:
  assumes ok: "manager_ok st"
  shows "\<exists>st'. setRows rows st = Some st' \<and> manager_ok st' \<and> m_desktops st' = m_desktops st \<and>
    m_currentDesktops st' = m_currentDesktops st \<and>
    m_rows st' = (if 1 \<le> rows \<and> rows \<le> count st then rows else m_rows st)"
proof (cases "rows = 0 \<or> rows > count st \<or> rows = m_rows st")
  case True
  then show ?thesis using ok by (auto simp: setRows_def)
next
  case False
  let ?st = "st\<lparr>m_rows := rows\<rparr>"
  note f = manager_ok_facts [OF ok]
  obtain st' where st': "updateLayout ?st = Some st'"
    "layout_ok (m_desktops ?st) (m_rows st') (m_grid st')"
    "m_desktops st' = m_desktops ?st" "store st' = store ?st" "next_desktop st' = next_desktop ?st"
    "m_currentDesktops st' = m_currentDesktops ?st"
    "m_perOutputVirtualDesktops st' = m_perOutputVirtualDesktops ?st"
    "m_rows st' = min (m_rows ?st) (count ?st)"
    by (rule updateLayout_ok [of ?st]) (use f False in auto)
  have "setRows rows st = Some st'" using False st'(1) by (simp add: setRows_def)
  moreover have "manager_ok st'" using st' ok by (simp add: manager_ok_def)
  ultimately show ?thesis using st' False by (auto simp: count_def)
qed

end
