(* ===== verification/VirtualDesktopsSteps.thy ===== *)
theory VirtualDesktopsSteps
  imports VirtualDesktopsInv
begin

text \<open>
  Changing the number of desktops, loading, the current desktops, and navigation keep the invariant of
  \<open>VirtualDesktopsInv\<close>. At the end, the events of the manager as a step relation.
\<close>

section \<open>The number of desktops\<close>

lemma numbered_snoc:
  assumes "numbered ds \<sigma> fresh" "m_x11DesktopNumber v = length ds + 1"
  shows "numbered (ds @ [fresh]) (\<sigma>(fresh := v)) (fresh + 1)"
proof -
  have "fresh \<notin> set ds" using assms(1) by (auto simp: numbered_def)
  moreover from this have "i < length ds \<Longrightarrow> ds ! i \<noteq> fresh" for i by (metis nth_mem)
  ultimately show ?thesis using assms
    by (fastforce simp: numbered_def nth_append less_SucI less_Suc_eq)
qed

lemma append_desktops_fields [simp]:
  "m_currentDesktops (append_desktops e k st) = m_currentDesktops st"
  "m_rows (append_desktops e k st) = m_rows st" "m_grid (append_desktops e k st) = m_grid st"
  "m_perOutputVirtualDesktops (append_desktops e k st) = m_perOutputVirtualDesktops st"
  "m_config (append_desktops e k st) = m_config st"
  "s_loadingDesktopSettings (append_desktops e k st) = s_loadingDesktopSettings st"
  by (induction k arbitrary: st) (simp_all add: Let_def)

lemma append_desktops_numbered:
  "numbered (m_desktops st) (store st) (next_desktop st) \<Longrightarrow>
   m_desktops (append_desktops e k st) = m_desktops st @ [next_desktop st..<next_desktop st + k] \<and>
   numbered (m_desktops (append_desktops e k st)) (store (append_desktops e k st)) (next_desktop (append_desktops e k st))"
proof (induction k arbitrary: st)
  case (Suc k)
  let ?vd = "next_desktop st"
  let ?st1 = "setName ?vd (defaultName e (count st + 1)) (setX11DesktopNumber ?vd (count st + 1) (new_desktop st))"
  let ?st2 = "if s_loadingDesktopSettings ?st1 then ?st1 else setGeneratedId e ?vd ?st1"
  define st3 where "st3 = ?st2\<lparr>m_desktops := m_desktops ?st2 @ [?vd]\<rparr>"
  have "\<exists>v. store st3 = (store st)(?vd := v) \<and> m_x11DesktopNumber v = count st + 1"
    by (simp add: st3_def fun_upd_def cong: if_cong) (auto simp: fun_eq_iff)
  then obtain v where v: "store st3 = (store st)(?vd := v)" "m_x11DesktopNumber v = count st + 1" by blast
  have f: "m_desktops st3 = m_desktops st @ [?vd]" "next_desktop st3 = ?vd + 1" by (simp_all add: st3_def)
  have "numbered (m_desktops st3) (store st3) (next_desktop st3)"
    unfolding f v(1) using numbered_snoc [OF Suc.prems] v(2) by (simp add: count_def)
  note ih = Suc.IH [OF this]
  have step: "append_desktops e (Suc k) st = append_desktops e k st3"
    unfolding append_desktops.simps Let_def st3_def by simp
  have upt: "[?vd..<?vd + Suc k] = [?vd] @ [?vd + 1..<?vd + 1 + k]" by (simp add: upt_conv_Cons del: upt_Suc)
  show ?case unfolding step using ih unfolding f upt append_assoc by blast
qed simp

definition starting :: "manager \<Rightarrow> bool" where
  "starting st \<longleftrightarrow> m_desktops st = [] \<and> 1 \<le> m_rows st \<and> m_currentDesktops st = []"

definition capped :: "nat \<Rightarrow> nat" where
  "capped n = max 1 (min n maximum)"

text \<open>\<open>setCount\<close>: the desktops that stay are a prefix, and outputs of removed desktops get the last one.\<close>

lemma setCount_ok:
  assumes ok: "manager_ok st \<or> starting st"
    and m_def: "m = capped n"
  shows "\<exists>st'. setCount e n st = Some st' \<and> manager_ok st' \<and> count st' = m \<and>
    take (min m (count st)) (m_desktops st') = take (min m (count st)) (m_desktops st) \<and>
    on_output st' = map_option (\<lambda>d. if d \<in> Some ` set (drop m (m_desktops st))
      then Some (last (m_desktops st')) else d) \<circ> on_output st \<and>
    s_loadingDesktopSettings st' = s_loadingDesktopSettings st"
proof (cases "m = count st")
  case True
  have "1 \<le> m" by (simp add: m_def capped_def)
  then have "manager_ok st" using ok True by (auto simp: starting_def count_def)
  moreover have "map_option (\<lambda>d. d) \<circ> on_output st = on_output st" by (simp add: comp_def option.map_ident)
  ultimately show ?thesis using True
    unfolding setCount_def capped_def [symmetric] m_def [symmetric] Let_def
    by (simp add: comp_def count_def)
next
  case False
  let ?ds = "m_desktops st" and ?gone = "drop m (m_desktops st)"
  have m: "1 \<le> m" "m \<le> maximum" by (simp_all add: m_def capped_def maximum_def)
  have f: "numbered ?ds (store st) (next_desktop st)" "1 \<le> m_rows st"
    "current_ok ?ds (m_perOutputVirtualDesktops st) (m_currentDesktops st)"
    using ok by (auto simp: manager_ok_def desktops_ok_def layout_ok_def starting_def numbered_def current_ok_def)
  define shrunk where "shrunk = st\<lparr>m_desktops := take m ?ds\<rparr>"
  define moved where "moved = retarget (\<lambda>d. d \<in> Some ` set ?gone) (last (m_desktops shrunk)) shrunk"
  define st1 where "st1 =
    (if count st > m then moved\<lparr>emitted := emitted moved @ map desktopRemoved ?gone\<rparr>
     else append_desktops e (m - count st) st)"
  have app: "m_desktops (append_desktops e k st) = ?ds @ [next_desktop st..<next_desktop st + k]"
    "numbered (m_desktops (append_desktops e k st)) (store (append_desktops e k st)) (next_desktop (append_desktops e k st))"
    for k using append_desktops_numbered [OF f(1)] by blast+
  have n1: "numbered (m_desktops st1) (store st1) (next_desktop st1)"
  proof (cases "count st > m")
    case True
    then show ?thesis using f(1) by (auto simp: st1_def moved_def shrunk_def numbered_def dest: in_set_takeD)
  next
    case False
    then have "st1 = append_desktops e (m - count st) st" by (simp add: st1_def)
    then show ?thesis using app(2) by metis
  qed
  have l1: "length (m_desktops st1) = m"
    using app(1) by (auto simp: st1_def moved_def shrunk_def count_def)
  have t1: "take (min m (count st)) (m_desktops st1) = take (min m (count st)) ?ds"
    using app(1) False by (auto simp: st1_def moved_def shrunk_def count_def min_def)
  have ds1: "count st \<le> m \<Longrightarrow> ?gone = []" by (simp add: count_def)
  have o1: "on_output st1 = map_option (\<lambda>d. if d \<in> Some ` set ?gone then Some (last (m_desktops st1)) else d) \<circ> on_output st"
  proof (cases "count st > m")
    case True
    then have "m_currentDesktops st1 = m_currentDesktops moved" "m_desktops st1 = m_desktops shrunk"
      by (simp_all add: st1_def moved_def)
    moreover have "on_output shrunk = on_output st" by (simp add: shrunk_def)
    ultimately show ?thesis unfolding moved_def by (simp add: retarget_on_output cong: if_cong)
  next
    case False
    then show ?thesis using ds1 by (simp add: st1_def comp_def option.map_ident)
  qed
  have c1: "current_ok (m_desktops st1) (m_perOutputVirtualDesktops st1) (m_currentDesktops st1)"
  proof (cases "count st > m")
    case True
    have "current_ok (take m ?ds) (m_perOutputVirtualDesktops st) (m_currentDesktops moved)"
      unfolding moved_def
    proof (rule current_ok_retarget [where ds = ?ds])
      show "current_ok ?ds (m_perOutputVirtualDesktops st) (m_currentDesktops shrunk)"
        using f(3) by (simp add: shrunk_def)
      show "last (m_desktops shrunk) \<in> set (take m ?ds)"
        using m True by (auto simp: shrunk_def count_def intro!: last_in_set)
      fix d assume "d \<in> ran (on_output shrunk)" "d \<notin> Some ` set ?gone"
      moreover have "set ?ds = set (take m ?ds) \<union> set ?gone" by (metis append_take_drop_id set_append)
      ultimately show "d \<in> Some ` set (take m ?ds)" using f(3) by (auto simp: shrunk_def current_ok_def)
    qed
    then show ?thesis using True by (simp add: st1_def) (simp add: moved_def shrunk_def)
  next
    case False
    then show ?thesis using app(1) f(3) by (auto simp: st1_def intro: current_ok_subset)
  qed
  have frame: "m_rows st1 = m_rows st" "s_loadingDesktopSettings st1 = s_loadingDesktopSettings st"
    by (simp_all add: st1_def moved_def) (simp_all add: shrunk_def)
  obtain st2 where st2: "updateLayout st1 = Some st2"
    "layout_ok (m_desktops st1) (m_rows st2) (m_grid st2)"
    "m_desktops st2 = m_desktops st1" "store st2 = store st1" "next_desktop st2 = next_desktop st1"
    "m_currentDesktops st2 = m_currentDesktops st1"
    "m_perOutputVirtualDesktops st2 = m_perOutputVirtualDesktops st1"
    "s_loadingDesktopSettings st2 = s_loadingDesktopSettings st1"
    by (rule updateLayout_ok [of st1]) (use f frame l1 m in auto)
  let ?st3 = "if s_loadingDesktopSettings st2 then st2 else save e st2"
  let ?st4 = "?st3\<lparr>emitted := emitted ?st3 @ map desktopAdded (drop (count st) (m_desktops ?st3))\<rparr>"
  let ?st' = "emit (countChanged (count st) (count ?st4)) ?st4"
  have "setCount e n st = Some ?st'"
    unfolding setCount_def capped_def [symmetric] m_def [symmetric] Let_def if_not_P [OF False]
    unfolding shrunk_def [symmetric] moved_def [symmetric]
    unfolding st1_def [symmetric] st2(1) by simp
  moreover have "manager_ok ?st'"
    using st2 n1 l1 m c1 by (simp add: manager_ok_def desktops_ok_def)
  moreover have fields: "m_desktops ?st' = m_desktops st1" "m_currentDesktops ?st' = m_currentDesktops st1"
    "s_loadingDesktopSettings ?st' = s_loadingDesktopSettings st"
    using st2 frame by simp_all
  have "count ?st' = m" "on_output ?st' = map_option (\<lambda>d. if d \<in> Some ` set ?gone
      then Some (last (m_desktops ?st')) else d) \<circ> on_output st"
    "take (min m (count st)) (m_desktops ?st') = take (min m (count st)) ?ds"
    unfolding count_def [of ?st'] fields using l1 o1 t1 by simp_all
  ultimately show ?thesis using fields(3) by blast
qed

section \<open>The current desktops\<close>

lemma hd_in_ran:
  assumes "distinct (map fst xs)" "xs \<noteq> []" shows "snd (hd xs) \<in> ran (map_of xs)"
  using assms by (cases xs) (auto simp: ran_def)

lemma initialDesktop_ok:
  assumes ok: "manager_ok st"
  shows "\<exists>vd \<in> set (m_desktops st). initialDesktopForNewOutput e output st = Some (Some vd)"
    and "\<not> m_perOutputVirtualDesktops st \<Longrightarrow> d \<in> ran (on_output st) \<Longrightarrow>
      initialDesktopForNewOutput e output st = Some d"
proof -
  note f = manager_ok_facts [OF ok]
  have c: "distinct (map fst (m_currentDesktops st))" "ran (on_output st) \<subseteq> Some ` set (m_desktops st)"
    "\<not> m_perOutputVirtualDesktops st \<Longrightarrow> \<exists>c. ran (on_output st) \<subseteq> {c}"
    using f(9) by (auto simp: current_ok_def)
  note h = hd_in_ran [OF c(1)]
  have "vd \<in> set (m_desktops st)" if "desktopForId st i = Some vd" for i vd
    using that by (auto simp: desktopForId_def find_Some_iff in_set_conv_nth)
  then show "\<exists>vd \<in> set (m_desktops st). initialDesktopForNewOutput e output st = Some (Some vd)"
    using h c(2) f(6) by (auto simp: initialDesktopForNewOutput_def split: option.splits bind_splits)
  assume p: "\<not> m_perOutputVirtualDesktops st" and d: "d \<in> ran (on_output st)"
  then have "m_currentDesktops st \<noteq> []" by (auto simp: ran_def)
  then show "initialDesktopForNewOutput e output st = Some d"
    using p d h c(3) by (auto simp: initialDesktopForNewOutput_def)
qed

lemma currentDesktop_ok:
  assumes ok: "manager_ok st"
  shows "\<exists>vd \<in> set (m_desktops st). currentDesktop e output st = Some (Some vd)"
proof -
  have "ran (on_output st) \<subseteq> Some ` set (m_desktops st)"
    using manager_ok_facts(9) [OF ok] by (simp add: current_ok_def)
  then have "d \<in> Some ` set (m_desktops st)" if "on_output st x = Some d" for x d using that by (auto intro: ranI)
  moreover obtain vd where "vd \<in> set (m_desktops st)"
      "initialDesktopForNewOutput e (case output of None \<Rightarrow> activeOutput e | Some x \<Rightarrow> x) st = Some (Some vd)"
    using initialDesktop_ok(1) [OF ok] by blast
  ultimately show ?thesis
    by (cases "on_output st (case output of None \<Rightarrow> activeOutput e | Some x \<Rightarrow> x)")
      (fastforce simp: currentDesktop_def Let_def)+
qed

lemma current_ok_assign:
  assumes "env_ok e" "current_ok ds p (m_currentDesktops st)" "vd \<in> set ds"
    and "\<not> p \<Longrightarrow> ran (on_output st) \<subseteq> {Some vd}"
  shows "current_ok ds p (m_currentDesktops (assign_current e output (Some vd) st))"
proof -
  note a = assign_current_ok [OF assms(1), of st "output" "Some vd"]
  have "ran ((on_output st)(output \<mapsto> Some vd)) \<subseteq> insert (Some vd) (ran (on_output st))"
    by (auto simp: ran_def)
  then show ?thesis using a assms(2-4) by (fastforce simp: current_ok_def)
qed

definition target_output :: "env \<Rightarrow> nat option \<Rightarrow> nat" where
  "target_output e output = (case output of None \<Rightarrow> activeOutput e | Some x \<Rightarrow> x)"

text \<open>\<open>setCurrent\<close>: the entry is there when it is read, and then one entry or all of them are set.\<close>

definition touched :: "env \<Rightarrow> nat \<Rightarrow> manager \<Rightarrow> manager" where
  "touched e output st = (if on_output st output = None then assign_current e output None st else st)"

lemma touched_ok:
  assumes e: "env_ok e" and d: "distinct (map fst (m_currentDesktops st))"
  shows "distinct (map fst (m_currentDesktops (touched e output st)))"
    "on_output (touched e output st) = (\<lambda>x. if x = output \<and> on_output st output = None then Some None else on_output st x)"
  using assign_current_ok [OF e d, of "output" None] d by (auto simp: touched_def fun_eq_iff)

lemma setCurrent_result:
  assumes e: "env_ok e" and d: "distinct (map fst (m_currentDesktops st))" and o': "o' = target_output e output"
  shows "setCurrent e vd output st =
    (if on_output st o' = Some (Some vd) then (False, st)
     else if m_perOutputVirtualDesktops st
     then (True, emit (currentChanged (Option.bind (on_output (touched e o' st) o') id) vd o')
                   (assign_current e o' (Some vd) (touched e o' st)))
     else (True, retarget (\<lambda>d. d \<noteq> Some vd) vd (touched e o' st)))"
  using touched_ok(2) [OF e d, of o']
  by (auto simp: setCurrent_def target_output_def [symmetric] o' [symmetric] touched_def Let_def
      split: bind_splits option.splits)

lemma touched_fields [simp]:
  "m_desktops (touched e x st) = m_desktops st" "store (touched e x st) = store st"
  "next_desktop (touched e x st) = next_desktop st" "m_rows (touched e x st) = m_rows st"
  "m_grid (touched e x st) = m_grid st" "m_perOutputVirtualDesktops (touched e x st) = m_perOutputVirtualDesktops st"
  "m_config (touched e x st) = m_config st"
  "s_loadingDesktopSettings (touched e x st) = s_loadingDesktopSettings st"
  by (simp_all add: touched_def)

lemma setCurrent_frame:
  assumes "env_ok e" "distinct (map fst (m_currentDesktops st))" "st' = snd (setCurrent e vd output st)"
  shows "store st' = store st" "next_desktop st' = next_desktop st" "m_rows st' = m_rows st"
    "m_grid st' = m_grid st" "m_desktops st' = m_desktops st"
    "m_perOutputVirtualDesktops st' = m_perOutputVirtualDesktops st" "m_config st' = m_config st"
    "s_loadingDesktopSettings st' = s_loadingDesktopSettings st" "distinct (map fst (m_currentDesktops st'))"
  using touched_ok(1) [OF assms(1,2), of "target_output e output"] assms
    assign_current_ok(1) [OF assms(1) touched_ok(1) [OF assms(1,2)], of "target_output e output" "Some vd" "target_output e output"]
  by (simp_all add: setCurrent_result [OF assms(1,2) refl] retarget_on_output)

text \<open>With one desktop for all outputs: nothing changes, or every output gets the new desktop.\<close>

lemma setCurrent_shared:
  assumes "env_ok e" "distinct (map fst (m_currentDesktops st))" "\<not> m_perOutputVirtualDesktops st"
    and o': "o' = target_output e output"
  shows "on_output (snd (setCurrent e vd output st)) =
    (if on_output st o' = Some (Some vd) then on_output st
     else (\<lambda>x. if x = o' then Some (Some vd) else map_option (\<lambda>d. Some vd) (on_output st x)))"
proof -
  have "map_option (\<lambda>d. if d \<noteq> Some vd then Some vd else d) y = map_option (\<lambda>d. Some vd) y" for y :: "nat option option"
    by (cases y) auto
  then show ?thesis using touched_ok(2) [OF assms(1,2), of o'] assms(3)
    by (auto simp: setCurrent_result [OF assms(1,2) o'] retarget_on_output fun_eq_iff)
qed

text \<open>\<open>setCurrent\<close> in the invariant: per output, or on all outputs.\<close>

lemma setCurrent_ok:
  assumes e: "env_ok e" and ok: "manager_ok st" and vd: "vd \<in> set (m_desktops st)"
    and o'_def: "o' = target_output e output"
  shows "manager_ok (snd (setCurrent e vd output st))"
    and "m_desktops (snd (setCurrent e vd output st)) = m_desktops st"
    and "m_perOutputVirtualDesktops (snd (setCurrent e vd output st)) = m_perOutputVirtualDesktops st"
    and "on_output (snd (setCurrent e vd output st)) =
      (\<lambda>x. if x = o' then Some (Some vd)
           else if m_perOutputVirtualDesktops st then on_output st x
           else map_option (\<lambda>d. Some vd) (on_output st x))"
    and "fst (setCurrent e vd output st) \<longleftrightarrow> on_output st o' \<noteq> Some (Some vd)"
proof -
  note f = manager_ok_facts [OF ok]
  let ?st' = "snd (setCurrent e vd output st)"
  have c: "distinct (map fst (m_currentDesktops st))" "ran (on_output st) \<subseteq> Some ` set (m_desktops st)"
    using f(9) by (auto simp: current_ok_def)
  note res = setCurrent_result [OF e c(1) o'_def] and frame = setCurrent_frame [OF e c(1) refl]
  show "fst (setCurrent e vd output st) \<longleftrightarrow> on_output st o' \<noteq> Some (Some vd)" by (simp add: res)
  show "m_desktops ?st' = m_desktops st" "m_perOutputVirtualDesktops ?st' = m_perOutputVirtualDesktops st"
    by (rule frame)+
  have uniform: "on_output st x = Some (Some vd)" if u: "\<not> m_perOutputVirtualDesktops st"
      "on_output st o' = Some (Some vd)" "on_output st x = Some d" for x d
  proof -
    obtain cc where "ran (on_output st) \<subseteq> {cc}" using f(9) u(1) by (auto simp: current_ok_def)
    then show ?thesis using ranI [of "on_output st", OF u(2)] ranI [of "on_output st", OF u(3)] u(3) by auto
  qed
  show on: "on_output ?st' = (\<lambda>x. if x = o' then Some (Some vd)
      else if m_perOutputVirtualDesktops st then on_output st x else map_option (\<lambda>d. Some vd) (on_output st x))"
  proof (cases "m_perOutputVirtualDesktops st")
    case True
    then show ?thesis
      using assign_current_ok(2) [OF e touched_ok(1) [OF e c(1)], of o' "Some vd" o'] touched_ok(2) [OF e c(1), of o']
      by (auto simp: res fun_eq_iff)
  next
    case False
    have "on_output st o' = Some (Some vd) \<Longrightarrow> map_option (\<lambda>d. Some vd) (on_output st x) = on_output st x" for x
      using uniform [OF False, of x] by (cases "on_output st x") auto
    then show ?thesis using False setCurrent_shared [OF e c(1) False o'_def] by (auto simp: fun_eq_iff)
  qed
  have "ran (on_output ?st') \<subseteq> Some ` set (m_desktops st)"
    using c(2) vd unfolding on by (auto simp: ran_def split: if_splits)
  moreover have "ran (on_output ?st') \<subseteq> {Some vd}" if "\<not> m_perOutputVirtualDesktops st"
    using that unfolding on by (auto simp: ran_def split: if_splits)
  ultimately have "current_ok (m_desktops st) (m_perOutputVirtualDesktops st) (m_currentDesktops ?st')"
    unfolding current_ok_def using frame(9) by blast
  then show "manager_ok ?st'" using ok frame by (simp add: manager_ok_def)
qed

section \<open>Navigation\<close>

lemma orCurrent_ok:
  assumes ok: "manager_ok st" and d: "set_option desktop \<subseteq> set (m_desktops st)"
  shows "\<exists>vd \<in> set (m_desktops st). orCurrent e desktop st = Some vd \<and> (\<forall>x. desktop = Some x \<longrightarrow> vd = x)"
  using currentDesktop_ok [OF ok, of e None] d by (cases desktop) (auto simp: orCurrent_def)

text \<open>The grid of a state in the invariant, and the position of a desktop in the list.\<close>

lemma grid_of_ok:
  assumes "manager_ok st" "vd \<in> set (m_desktops st)"
  obtains w h i where "m_grid st = Grid_update w h (m_desktops st)" "fits (w, h, m_desktops st, i)"
    "m_desktops st ! i = vd" "distinct (m_desktops st)" "i < length (m_desktops st)"
proof -
  obtain w h where "m_grid st = Grid_update w h (m_desktops st)" "0 < w" "length (m_desktops st) \<le> w * h"
    using assms(1) by (auto simp: manager_ok_def layout_ok_def)
  moreover obtain i where "i < length (m_desktops st)" "m_desktops st ! i = vd"
    using assms(2) by (auto simp: in_set_conv_nth)
  ultimately show ?thesis using that manager_ok_facts(1) [OF assms(1)] by auto
qed

lemma row_end_bound:
  assumes "fits (w, h, ds, i)" shows "row_end w (length ds) i < length ds" "column_end w (length ds) i < length ds"
proof -
  have "i div w * w \<le> i" by simp
  then have "i div w * w < length ds" using assms unfolding fits.simps by linarith
  then show "row_end w (length ds) i < length ds" using assms by (auto simp: row_end_def)
  have m: "i mod w < w" "i mod w < length ds"
    using assms mod_less_eq_dividend [of i w] unfolding fits.simps by (simp, linarith)
  show "column_end w (length ds) i < length ds"
    unfolding column_end_def using assms m by (subst column_room) auto
qed

lemma on_grid_ok:
  assumes ok: "manager_ok st" and d: "set_option desktop \<subseteq> set (m_desktops st)"
    and step: "step \<in> {Grid_above, Grid_below, Grid_toLeft, Grid_toRight}"
  shows "\<exists>vd \<in> set (m_desktops st). on_grid step e desktop wrap st = Some vd"
proof -
  obtain x where x: "x \<in> set (m_desktops st)" "orCurrent e desktop st = Some x"
    using orCurrent_ok [OF ok d] by blast
  obtain w h i where g: "m_grid st = Grid_update w h (m_desktops st)" "fits (w, h, m_desktops st, i)"
    "m_desktops st ! i = x" "distinct (m_desktops st)" "i < length (m_desktops st)"
    using grid_of_ok [OF ok x(1)] .
  note steps = Grid_above_update [OF g(4,2), unfolded g(3)] Grid_below_update [OF g(4,2), unfolded g(3)]
    Grid_toLeft_update [OF g(4,2), unfolded g(3)] Grid_toRight_update [OF g(4,2), unfolded g(3)]
  have b: "i - 1 < length (m_desktops st)" "i - w < length (m_desktops st)" "i mod w < length (m_desktops st)"
    "i - i mod w < length (m_desktops st)"
    using g(5) mod_less_eq_dividend [of i w] by linarith+
  have r: "row_end w (length (m_desktops st)) i < length (m_desktops st)"
    "column_end w (length (m_desktops st)) i < length (m_desktops st)"
    "i < row_end w (length (m_desktops st)) i \<Longrightarrow> i + 1 < length (m_desktops st)"
    using row_end_bound [OF g(2)] by linarith+
  have "\<exists>vd \<in> set (m_desktops st). step (m_grid st) x wrap = Some vd"
    using step b r g(5) unfolding g(1) by (auto simp: steps)
  then show ?thesis using x(2) gridCoords_update [OF g(4,2)] by (auto simp: on_grid_def g(1,3))
qed

lemma next_previous_ok:
  assumes ok: "manager_ok st" and d: "set_option desktop \<subseteq> set (m_desktops st)"
  shows "\<exists>vd \<in> set (m_desktops st). next_desktop_of e desktop wrap st = Some vd"
    and "\<exists>vd \<in> set (m_desktops st). previous_desktop_of e desktop wrap st = Some vd"
proof -
  obtain x where x: "x \<in> set (m_desktops st)" "orCurrent e desktop st = Some x"
    using orCurrent_ok [OF ok d] by blast
  let ?i = "index_of (m_desktops st) x"
  have i: "0 \<le> ?i" "?i < int (length (m_desktops st))" "m_desktops st \<noteq> []"
    using x(1) by (auto simp: index_of_nonneg index_of_less)
  then have "?i + 1 \<noteq> int (length (m_desktops st)) \<Longrightarrow> nat (?i + 1) < length (m_desktops st)"
    "nat (?i - 1) < length (m_desktops st)" by linarith+
  then show "\<exists>vd \<in> set (m_desktops st). next_desktop_of e desktop wrap st = Some vd"
    "\<exists>vd \<in> set (m_desktops st). previous_desktop_of e desktop wrap st = Some vd"
    using x i by (auto simp: next_desktop_of_def previous_desktop_of_def Let_def count_def)
qed

lemma inDirection_ok:
  assumes "manager_ok st" "set_option desktop \<subseteq> set (m_desktops st)"
  shows "\<exists>vd \<in> set (m_desktops st). inDirection e desktop direction wrap st = Some vd"
  using on_grid_ok [OF assms] next_previous_ok [OF assms]
  by (cases direction) (simp_all add: above_def below_def toLeft_def toRight_def)

lemma moveTo_ok:
  assumes "env_ok e" "manager_ok st"
  shows "\<exists>st'. moveTo e direction wrap st = Some st' \<and> manager_ok st' \<and> m_desktops st' = m_desktops st"
proof -
  obtain vd where vd: "vd \<in> set (m_desktops st)" "inDirection e None direction wrap st = Some vd"
    using inDirection_ok [OF assms(2), of None] by fastforce
  then show ?thesis using setCurrent_ok(1,2) [OF assms vd(1)] by (simp add: moveTo_def)
qed

section \<open>Settings, outputs and gestures\<close>

lemma manager_ok_cong:
  assumes "m_desktops st' = m_desktops st" "store st' = store st" "next_desktop st' = next_desktop st"
    "m_rows st' = m_rows st" "m_grid st' = m_grid st" "m_currentDesktops st' = m_currentDesktops st"
    "m_perOutputVirtualDesktops st' = m_perOutputVirtualDesktops st"
  shows "manager_ok st' = manager_ok st"
  by (simp add: manager_ok_def assms)

lemma fold_setCurrent:
  assumes e: "env_ok e"
  shows "distinct (map fst (m_currentDesktops st)) \<Longrightarrow> \<not> m_perOutputVirtualDesktops st \<Longrightarrow>
    st' = fold (\<lambda>x s. snd (setCurrent e vd (Some x) s)) xs st \<Longrightarrow>
    store st' = store st \<and> next_desktop st' = next_desktop st \<and> m_rows st' = m_rows st \<and>
    m_grid st' = m_grid st \<and> m_desktops st' = m_desktops st \<and> m_config st' = m_config st \<and>
    s_loadingDesktopSettings st' = s_loadingDesktopSettings st \<and>
    \<not> m_perOutputVirtualDesktops st' \<and> distinct (map fst (m_currentDesktops st')) \<and>
    (\<forall>x. x \<in> set xs \<or> on_output st x = Some (Some vd) \<longrightarrow> on_output st' x = Some (Some vd)) \<and>
    dom (on_output st') = dom (on_output st) \<union> set xs"
proof (induction xs arbitrary: st)
  case (Cons x xs)
  let ?s = "snd (setCurrent e vd (Some x) st)"
  have o': "x = target_output e (Some x)" by (simp add: target_output_def)
  note frame = setCurrent_frame [OF e Cons.prems(1) refl, of vd "Some x"]
  note on = setCurrent_shared [OF e Cons.prems(1,2) o', of vd]
  have step: "st' = fold (\<lambda>x s. snd (setCurrent e vd (Some x) s)) xs ?s" using Cons.prems(3) by simp
  have "\<not> m_perOutputVirtualDesktops ?s" using frame(6) Cons.prems(2) by simp
  note ih = Cons.IH [OF frame(9) this step]
  have "on_output ?s x = Some (Some vd)" "dom (on_output ?s) = insert x (dom (on_output st))"
    "\<And>y. on_output st y = Some (Some vd) \<Longrightarrow> on_output ?s y = Some (Some vd)"
    using on by (auto simp: dom_def split: if_splits)
  then show ?case using ih frame by auto
qed simp

lemma setPerOutputVirtualDesktops_ok:
  assumes e: "env_ok e" and ok: "manager_ok st" and outs: "dom (on_output st) \<subseteq> set (outputs e)"
  shows "\<exists>st'. setPerOutputVirtualDesktops e enabled st = Some st' \<and> manager_ok st' \<and>
    m_desktops st' = m_desktops st \<and> m_perOutputVirtualDesktops st' = enabled"
proof -
  note f = manager_ok_facts [OF ok]
  let ?st1 = "st\<lparr>m_perOutputVirtualDesktops := enabled\<rparr>"
  consider (same) "enabled = m_perOutputVirtualDesktops st" | (on) "enabled" "\<not> m_perOutputVirtualDesktops st"
    | (off) "\<not> enabled" "m_perOutputVirtualDesktops st" by blast
  then show ?thesis
  proof cases
    case same
    then show ?thesis using ok by (simp add: setPerOutputVirtualDesktops_def)
  next
    case on
    have "current_ok (m_desktops st) True (m_currentDesktops st)" using f(9) by (simp add: current_ok_def)
    then show ?thesis using on ok by (simp add: setPerOutputVirtualDesktops_def manager_ok_def)
  next
    case off
    have c: "distinct (map fst (m_currentDesktops st))" "ran (on_output st) \<subseteq> Some ` set (m_desktops st)"
      using f(9) by (auto simp: current_ok_def)
    have "\<exists>vd \<in> set (m_desktops st). currentDesktop e (Some (activeOutput e)) ?st1 = Some (Some vd)"
    proof (cases "on_output st (activeOutput e)")
      case None
      have "m_desktops st \<noteq> [] \<Longrightarrow> \<exists>d. initialDesktopForNewOutput e (activeOutput e) ?st1 = Some (Some d) \<and> d \<in> set (m_desktops st)"
      proof -
        have "snd (hd (m_currentDesktops st)) \<in> Some ` set (m_desktops st)" if "m_currentDesktops st \<noteq> []"
          using hd_in_ran [OF c(1) that] c(2) by blast
        then show "\<exists>d. initialDesktopForNewOutput e (activeOutput e) ?st1 = Some (Some d) \<and> d \<in> set (m_desktops st)"
          using off f(6) by (auto simp: initialDesktopForNewOutput_def desktopForId_def find_Some_iff split: option.splits bind_splits)
      qed
      then show ?thesis using None f(6) by (auto simp: currentDesktop_def Let_def)
    next
      case (Some d)
      then obtain vd where "d = Some vd" "vd \<in> set (m_desktops st)" using c(2) by (auto dest: ranI)
      moreover have "m_currentDesktops st \<noteq> []" using Some by auto
      ultimately show ?thesis using Some off by (auto simp: currentDesktop_def Let_def initialDesktopForNewOutput_def)
    qed
    then obtain vd where vd: "vd \<in> set (m_desktops st)" "currentDesktop e (Some (activeOutput e)) ?st1 = Some (Some vd)" by blast
    define st2 where "st2 = fold (\<lambda>x s. snd (setCurrent e vd (Some x) s)) (outputs e) ?st1"
    have "distinct (map fst (m_currentDesktops ?st1))" "\<not> m_perOutputVirtualDesktops ?st1" using c off by simp_all
    note all = fold_setCurrent [OF e this st2_def]
    have "dom (on_output st2) \<subseteq> set (outputs e)" using all outs by auto
    then have "on_output st2 x = Some (Some vd)" if on: "on_output st2 x = Some d" for x d
      using all domI [of "on_output st2", OF on] by blast
    then have "ran (on_output st2) \<subseteq> {Some vd}" by (force simp: ran_def)
    then have "current_ok (m_desktops st) False (m_currentDesktops st2)" using all vd(1) by (auto simp: current_ok_def)
    then have "manager_ok st2" using all ok off by (auto simp: manager_ok_def)
    moreover have "setPerOutputVirtualDesktops e enabled st = Some (emit perOutputVirtualDesktopsChanged st2)"
      using off vd(2) by (simp add: setPerOutputVirtualDesktops_def st2_def)
    ultimately show ?thesis using all off manager_ok_cong [of "emit perOutputVirtualDesktopsChanged st2" st2] by simp
  qed
qed

end
