(* ===== verification/VirtualDesktopsEvents.thy ===== *)
theory VirtualDesktopsEvents
  imports VirtualDesktopsSteps
begin

text \<open>
  Outputs that come and go, gestures, saving and loading; then the public operations of the manager as
  the events of a step relation, and the invariant of every reachable state.
\<close>

section \<open>Outputs and gestures\<close>

lemma initCurrentDesktopForOutput_ok:
  assumes e: "env_ok e" and ok: "manager_ok st"
  shows "\<exists>vd st'. initCurrentDesktopForOutput e x st = Some (Some vd, st') \<and> manager_ok st' \<and>
    m_desktops st' = m_desktops st \<and> on_output st' x = Some (Some vd)"
proof -
  note f = manager_ok_facts [OF ok]
  have c: "distinct (map fst (m_currentDesktops st))" "ran (on_output st) \<subseteq> Some ` set (m_desktops st)"
    using f(9) by (auto simp: current_ok_def)
  show ?thesis
  proof (cases "on_output st x")
    case (Some d)
    then have "d \<in> Some ` set (m_desktops st)" using c(2) by (auto intro: ranI)
    then show ?thesis using ok Some by (auto simp: initCurrentDesktopForOutput_def)
  next
    case None
    obtain vd where vd: "vd \<in> set (m_desktops st)" "initialDesktopForNewOutput e x st = Some (Some vd)"
      using initialDesktop_ok(1) [OF ok] by blast
    have "ran (on_output st) \<subseteq> {Some vd}" if np: "\<not> m_perOutputVirtualDesktops st"
      using initialDesktop_ok(2) [OF ok np, of _ e x] vd(2) by auto
    then have "current_ok (m_desktops st) (m_perOutputVirtualDesktops st)
        (m_currentDesktops (assign_current e x (Some vd) st))"
      using f(9) vd(1) by (intro current_ok_assign [OF e]) auto
    then have "manager_ok (assign_current e x (Some vd) st)" using ok by (simp add: manager_ok_def)
    then show ?thesis using None vd assign_current_ok(2) [OF e c(1), of x "Some vd"]
      by (simp add: initCurrentDesktopForOutput_def)
  qed
qed

lemma outputRemoved_ok:
  assumes e: "env_ok e" and ok: "manager_ok st"
  shows "manager_ok (outputRemoved e x st)" "on_output (outputRemoved e x st) = (on_output st)(x := None)"
proof -
  note f = manager_ok_facts [OF ok]
  have c: "distinct (map fst (m_currentDesktops st))" using f(9) by (simp add: current_ok_def)
  then have "distinct (map fst (AList.delete x (m_currentDesktops st)))" by (rule distinct_delete)
  note h = map_of_hash_order [OF e this]
  show on: "on_output (outputRemoved e x st) = (on_output st)(x := None)"
    by (simp add: outputRemoved_def h(2) delete_conv')
  have "ran ((on_output st)(x := None)) \<subseteq> ran (on_output st)" by (auto simp: ran_def)
  then have "current_ok (m_desktops st) (m_perOutputVirtualDesktops st) (m_currentDesktops (outputRemoved e x st))"
    using f(9) h(1) unfolding current_ok_def on by (auto simp: outputRemoved_def)
  then show "manager_ok (outputRemoved e x st)" using ok by (simp add: manager_ok_def outputRemoved_def)
qed

lemma swipe_frame:
  assumes "manager_ok st"
  shows "\<exists>evs. emitCurrentChanging e st = Some (st\<lparr>emitted := emitted st @ evs\<rparr>)"
proof -
  let ?announce = "\<lambda>x s. do {
    st' \<leftarrow> s;
    d \<leftarrow> currentDesktop e (Some x) st';
    Some (emit (currentChanging d (m_currentDesktopOffset st') x) st')
  }"
  have one: "manager_ok s \<Longrightarrow> \<exists>ev. ?announce x (Some s) = Some (s\<lparr>emitted := emitted s @ [ev]\<rparr>)" for x s
    using currentDesktop_ok [of s e "Some x"] by (auto simp: emit_def)
  have "manager_ok s \<Longrightarrow> \<exists>evs. fold ?announce xs (Some s) = Some (s\<lparr>emitted := emitted s @ evs\<rparr>)" for xs s
  proof (induction xs arbitrary: s)
    case Nil
    then show ?case by (auto intro: exI [of _ "[]"])
  next
    case (Cons x xs)
    obtain ev where ev: "?announce x (Some s) = Some (s\<lparr>emitted := emitted s @ [ev]\<rparr>)" using one [OF Cons.prems] by blast
    have "manager_ok (s\<lparr>emitted := emitted s @ [ev]\<rparr>)" using Cons.prems by (simp add: manager_ok_def)
    from Cons.IH [OF this] obtain evs where
      "fold ?announce xs (Some (s\<lparr>emitted := emitted s @ [ev]\<rparr>)) = Some (s\<lparr>emitted := emitted s @ ev # evs\<rparr>)" by auto
    then show ?case using ev unfolding fold.simps comp_apply by (intro exI [of _ "ev # evs"]) simp
  qed
  from this [OF assms, of "outputs e"] obtain evs where
    all: "fold ?announce (outputs e) (Some st) = Some (st\<lparr>emitted := emitted st @ evs\<rparr>)" by blast
  obtain ev where "?announce (activeOutput e) (Some st) = Some (st\<lparr>emitted := emitted st @ [ev]\<rparr>)"
    using one [OF assms] by blast
  with all show ?thesis unfolding emitCurrentChanging_def Let_def
    by (cases "m_perOutputVirtualDesktops st") (auto intro: exI [of _ evs] exI [of _ "[ev]"])
qed

lemma swipe_ok:
  assumes "manager_ok st"
  shows "\<exists>st'. swipeX e x st = Some st' \<and> manager_ok st' \<and> m_desktops st' = m_desktops st"
    and "\<exists>st'. swipeY e x st = Some st' \<and> manager_ok st' \<and> m_desktops st' = m_desktops st"
proof -
  have "manager_ok (st\<lparr>m_currentDesktopOffset := p\<rparr>)" for p using assms by (simp add: manager_ok_def)
  note s = swipe_frame [OF this]
  have k: "manager_ok (st\<lparr>m_currentDesktopOffset := p, emitted := evs\<rparr>)" for p evs
    using assms by (simp add: manager_ok_def)
  obtain evs where "emitCurrentChanging e (st\<lparr>m_currentDesktopOffset := (x, snd (m_currentDesktopOffset st))\<rparr>) =
      Some (st\<lparr>m_currentDesktopOffset := (x, snd (m_currentDesktopOffset st)), emitted := evs\<rparr>)" using s by fastforce
  then show "\<exists>st'. swipeX e x st = Some st' \<and> manager_ok st' \<and> m_desktops st' = m_desktops st"
    using k assms by (simp add: swipeX_def)
  obtain evs where "emitCurrentChanging e (st\<lparr>m_currentDesktopOffset := (fst (m_currentDesktopOffset st), x)\<rparr>) =
      Some (st\<lparr>m_currentDesktopOffset := (fst (m_currentDesktopOffset st), x), emitted := evs\<rparr>)" using s by fastforce
  then show "\<exists>st'. swipeY e x st = Some st' \<and> manager_ok st' \<and> m_desktops st' = m_desktops st"
    using k assms by (simp add: swipeY_def)
qed

lemma finish_gesture_ok:
  assumes "env_ok e" "manager_ok st" "vd \<in> set (m_desktops st)"
  shows "\<exists>st'. finish_gesture e (Some c) (Some vd) st = Some st' \<and> manager_ok st' \<and>
    m_desktops st' = m_desktops st \<and> m_currentDesktopOffset st' = (0, 0)"
proof -
  note s = setCurrent_ok(1,2) [OF assms refl]
  have "manager_ok (s\<lparr>m_currentDesktopOffset := p\<rparr>) = manager_ok s" for s p by (simp add: manager_ok_def)
  then show ?thesis using s assms(2) manager_ok_cong [of "emit currentChangingCancelled st" st]
    by (simp add: finish_gesture_def)
qed

lemma gestureReleased_ok:
  assumes e: "env_ok e" and ok: "manager_ok st"
  shows "\<exists>st'. gestureReleasedX e st = Some st' \<and> manager_ok st' \<and> m_desktops st' = m_desktops st"
    and "\<exists>st'. gestureReleasedY e st = Some st' \<and> manager_ok st' \<and> m_desktops st' = m_desktops st"
proof -
  obtain c where c: "c \<in> set (m_desktops st)" "currentDesktop e None st = Some (Some c)"
    using currentDesktop_ok [OF ok] by blast
  have dir: "\<exists>vd \<in> set (m_desktops st). inDirection e (Some c) d w st = Some vd" for d w
    using inDirection_ok [OF ok] c(1) by simp
  have "\<exists>vd \<in> set (m_desktops st). above e (Some c) w st = Some vd" "\<exists>vd \<in> set (m_desktops st). below e (Some c) w st = Some vd"
    "\<exists>vd \<in> set (m_desktops st). toLeft e (Some c) w st = Some vd" "\<exists>vd \<in> set (m_desktops st). toRight e (Some c) w st = Some vd"
    for w using dir [of Up] dir [of Down] dir [of Left] dir [of Right] by simp_all
  note targets = this [of "m_navigationWrapsAround st"]
  note fin = finish_gesture_ok [OF e ok, of _ c]
  show "\<exists>st'. gestureReleasedX e st = Some st' \<and> manager_ok st' \<and> m_desktops st' = m_desktops st"
    using targets(3,4) fin c by (auto simp: gestureReleasedX_def) blast+
  show "\<exists>st'. gestureReleasedY e st = Some st' \<and> manager_ok st' \<and> m_desktops st' = m_desktops st"
    using targets(1,2) fin c by (auto simp: gestureReleasedY_def) blast+
qed

section \<open>Loading\<close>

definition config_name :: "env \<Rightarrow> config_group \<Rightarrow> nat \<Rightarrow> string" where
  "config_name e cfg i = (case map_of (entry_Name cfg) i of Some v \<Rightarrow> v | None \<Rightarrow> defaultName e i)"

definition config_id :: "config_group \<Rightarrow> nat \<Rightarrow> string" where
  "config_id cfg i = (case map_of (entry_Id cfg) i of Some v \<Rightarrow> v | None \<Rightarrow> [])"

definition load_desktop :: "env \<Rightarrow> config_group \<Rightarrow> nat \<Rightarrow> manager \<Rightarrow> manager" where
  "load_desktop e cfg i st =
     (let vd = m_desktops st ! (i - 1);
          st1 = setName_connected e vd (config_name e cfg i) st
      in if m_id (store st1 vd) = []
         then if config_id cfg i = [] then setGeneratedId e vd st1 else setId vd (config_id cfg i) st1
         else st1)"

lemma load_desktops_Cons:
  "load_desktops e cfg (i # is) st =
     (if i - 1 \<ge> count st then None else load_desktops e cfg is (load_desktop e cfg i st))"
  by (simp add: load_desktop_def config_name_def config_id_def Let_def)

lemma setName_connected_config:
  "s_loadingDesktopSettings st \<Longrightarrow> m_config (setName_connected e vd n st) = m_config st"
  by (simp add: setName_connected_def save_def)

lemma load_desktop_fields:
  "m_desktops (load_desktop e cfg i st) = m_desktops st"
  "next_desktop (load_desktop e cfg i st) = next_desktop st"
  "m_currentDesktops (load_desktop e cfg i st) = m_currentDesktops st"
  "m_rows (load_desktop e cfg i st) = m_rows st" "m_grid (load_desktop e cfg i st) = m_grid st"
  "m_perOutputVirtualDesktops (load_desktop e cfg i st) = m_perOutputVirtualDesktops st"
  "s_loadingDesktopSettings (load_desktop e cfg i st) = s_loadingDesktopSettings st"
  by (simp_all add: load_desktop_def Let_def)

lemma load_desktop_store:
  "m_x11DesktopNumber (store (load_desktop e cfg i st) vd) = m_x11DesktopNumber (store st vd)"
  "vd \<noteq> m_desktops st ! (i - 1) \<Longrightarrow> store (load_desktop e cfg i st) vd = store st vd"
  "vd = m_desktops st ! (i - 1) \<Longrightarrow> m_name (store (load_desktop e cfg i st) vd) = config_name e cfg i"
  "vd = m_desktops st ! (i - 1) \<Longrightarrow> m_id (store st vd) = [] \<Longrightarrow> config_id cfg i \<noteq> [] \<Longrightarrow>
     m_id (store (load_desktop e cfg i st) vd) = config_id cfg i"
  by (simp_all add: load_desktop_def Let_def)

lemma load_desktops_ok:
  assumes "distinct (m_desktops st)" "1 \<le> k" "m \<le> count st + 1"
  shows "\<exists>st'. load_desktops e cfg [k..<m] st = Some st' \<and>
    m_desktops st' = m_desktops st \<and> next_desktop st' = next_desktop st \<and>
    m_currentDesktops st' = m_currentDesktops st \<and> m_rows st' = m_rows st \<and> m_grid st' = m_grid st \<and>
    m_perOutputVirtualDesktops st' = m_perOutputVirtualDesktops st \<and>
    (\<forall>vd. m_x11DesktopNumber (store st' vd) = m_x11DesktopNumber (store st vd)) \<and>
    (\<forall>i. i < k - 1 \<longrightarrow> i < count st \<longrightarrow> store st' (m_desktops st ! i) = store st (m_desktops st ! i)) \<and>
    (\<forall>i. k \<le> i \<longrightarrow> i < m \<longrightarrow> m_name (store st' (m_desktops st ! (i - 1))) = config_name e cfg i \<and>
      (m_id (store st (m_desktops st ! (i - 1))) = [] \<and> config_id cfg i \<noteq> [] \<longrightarrow>
       m_id (store st' (m_desktops st ! (i - 1))) = config_id cfg i))"
  using assms
proof (induction "m - k" arbitrary: k st)
  case 0
  then show ?case by simp
next
  case (Suc n)
  let ?s = "load_desktop e cfg k st"
  have r: "[k..<m] = k # [k + 1..<m]" "n = m - (k + 1)" "\<not> k - 1 \<ge> count st" "k < m"
    using Suc.hyps(2) Suc.prems by (auto simp: upt_conv_Cons)
  have "distinct (m_desktops ?s)" "1 \<le> k + 1" "m \<le> count ?s + 1"
    using Suc.prems by (simp_all add: load_desktop_fields count_def)
  from Suc.hyps(1) [OF r(2) this] obtain st' where st': "load_desktops e cfg [k + 1..<m] ?s = Some st'"
    "m_desktops st' = m_desktops st" "next_desktop st' = next_desktop st"
    "m_currentDesktops st' = m_currentDesktops st" "m_rows st' = m_rows st" "m_grid st' = m_grid st"
    "m_perOutputVirtualDesktops st' = m_perOutputVirtualDesktops st"
    "\<And>vd. m_x11DesktopNumber (store st' vd) = m_x11DesktopNumber (store st vd)"
    "\<And>i. i < k \<Longrightarrow> i < count st \<Longrightarrow> store st' (m_desktops st ! i) = store ?s (m_desktops st ! i)"
    "\<And>i. k + 1 \<le> i \<Longrightarrow> i < m \<Longrightarrow> m_name (store st' (m_desktops st ! (i - 1))) = config_name e cfg i \<and>
      (m_id (store ?s (m_desktops st ! (i - 1))) = [] \<and> config_id cfg i \<noteq> [] \<longrightarrow>
       m_id (store st' (m_desktops st ! (i - 1))) = config_id cfg i)"
    by (auto simp: load_desktop_fields load_desktop_store count_def)
  have other: "store ?s (m_desktops st ! j) = store st (m_desktops st ! j)" if "j \<noteq> k - 1" "j < count st" for j
    using that r(3) Suc.prems(1) by (intro load_desktop_store(2)) (simp add: nth_eq_iff_index_eq count_def)
  have here: "store st' (m_desktops st ! (k - 1)) = store ?s (m_desktops st ! (k - 1))"
    using r(3) Suc.prems(2) by (intro st'(9)) auto
  have low: "store st' (m_desktops st ! i) = store st (m_desktops st ! i)" if "i < k - 1" "i < count st" for i
    using st'(9) [of i] other [of i] that by simp
  have high: "m_name (store st' (m_desktops st ! (i - 1))) = config_name e cfg i \<and>
      (m_id (store st (m_desktops st ! (i - 1))) = [] \<and> config_id cfg i \<noteq> [] \<longrightarrow>
       m_id (store st' (m_desktops st ! (i - 1))) = config_id cfg i)" if "k \<le> i" "i < m" for i
  proof (cases "i = k")
    case True
    then show ?thesis using here by (simp add: load_desktop_store)
  next
    case False
    then show ?thesis using st'(10) [of i] other [of "i - 1"] that Suc.prems(2,3) by auto
  qed
  show ?case using st'(1-8) low high r by (simp add: load_desktops_Cons del: load_desktops.simps)
qed

lemma append_desktops_ids:
  "s_loadingDesktopSettings st \<Longrightarrow>
   (\<forall>vd. vd < next_desktop st \<longrightarrow> store (append_desktops e k st) vd = store st vd) \<and>
   (\<forall>vd. next_desktop st \<le> vd \<longrightarrow> vd < next_desktop st + k \<longrightarrow> m_id (store (append_desktops e k st) vd) = [])"
proof (induction k arbitrary: st)
  case (Suc k)
  let ?vd = "next_desktop st"
  define st1 where "st1 = setName ?vd (defaultName e (count st + 1)) (setX11DesktopNumber ?vd (count st + 1) (new_desktop st))"
  define st2 where "st2 = st1\<lparr>m_desktops := m_desktops st1 @ [?vd]\<rparr>"
  have s: "append_desktops e (Suc k) st = append_desktops e k st2"
    using Suc.prems unfolding append_desktops.simps Let_def st2_def st1_def by simp
  have f: "next_desktop st2 = ?vd + 1" "s_loadingDesktopSettings st2" "m_id (store st2 ?vd) = []"
    "\<And>vd. vd \<noteq> ?vd \<Longrightarrow> store st2 vd = store st vd"
    using Suc.prems by (simp_all add: st2_def st1_def VirtualDesktop_new_def)
  show ?case
  proof (intro conjI allI impI)
    fix vd assume "vd < ?vd"
    then show "store (append_desktops e (Suc k) st) vd = store st vd" unfolding s using Suc.IH [OF f(2)] f(1,4) by simp
  next
    fix vd assume "?vd \<le> vd" "vd < ?vd + Suc k"
    then show "m_id (store (append_desktops e (Suc k) st) vd) = []"
      unfolding s using Suc.IH [OF f(2)] f(1,3) by (cases "vd = ?vd") simp_all
  qed
qed simp

lemma setCount_starting_ids:
  assumes st: "starting st" "s_loadingDesktopSettings st" "setCount e n st = Some st'"
  shows "\<forall>vd \<in> set (m_desktops st'). m_id (store st' vd) = []"
proof -
  let ?st1 = "append_desktops e (capped n) st"
  have c: "count st = 0" "capped n \<noteq> 0" "1 \<le> m_rows st" "m_desktops st = []"
    using st(1) by (auto simp: starting_def count_def capped_def)
  then have "numbered (m_desktops st) (store st) (next_desktop st)" by (simp add: numbered_def)
  note app = append_desktops_numbered [OF this, of e "capped n"]
  have ne: "m_desktops ?st1 \<noteq> []" using app c by simp
  obtain st2 where st2: "updateLayout ?st1 = Some st2" "m_desktops st2 = m_desktops ?st1" "store st2 = store ?st1"
    "s_loadingDesktopSettings st2 = s_loadingDesktopSettings ?st1"
    using updateLayout_ok [OF _ ne] c(3) by auto
  have "m_desktops st' = m_desktops ?st1" "store st' = store ?st1"
    using st(2,3) st2 c unfolding setCount_def capped_def [symmetric] by (auto simp: Let_def)
  then show ?thesis using append_desktops_ids [OF st(2), of e "capped n"] app c(4) by auto
qed

lemma load_ok:
  assumes ok: "manager_ok st \<or> starting st" and cfg: "m_config st = Some cfg"
    and n: "n = (case entry_Number cfg of Some v \<Rightarrow> v | None \<Rightarrow> 1)" "1 \<le> n" "n \<le> int maximum"
  shows "\<exists>st'. load e st = Some st' \<and> manager_ok st' \<and> count st' = nat n \<and>
    m_rows st' = nat (max 1 (min (case entry_Rows cfg of Some v \<Rightarrow> v | None \<Rightarrow> 2) n)) \<and>
    (\<forall>i < nat n. m_name (store st' (m_desktops st' ! i)) = config_name e cfg (i + 1)) \<and>
    (starting st \<longrightarrow> (\<forall>i < nat n. config_id cfg (i + 1) \<noteq> [] \<longrightarrow>
       m_id (store st' (m_desktops st' ! i)) = config_id cfg (i + 1)))"
proof -
  let ?rows = "case entry_Rows cfg of Some v \<Rightarrow> v | None \<Rightarrow> 2"
  define st1 where "st1 = st\<lparr>s_loadingDesktopSettings := True\<rparr>"
  have cfg1: "m_config st1 = Some cfg" using cfg by (simp add: st1_def)
  have ok1: "manager_ok st1 \<or> starting st1"
    using ok by (auto simp: st1_def starting_def manager_ok_def)
  have n32: "nat (n mod 2 ^ 32) = nat n" using n(2,3) by (simp add: maximum_def)
  have cap: "capped (nat n) = nat n" using n(2,3) by (auto simp: capped_def maximum_def)
  obtain st2 where st2: "setCount e (nat n) st1 = Some st2" "manager_ok st2" "count st2 = nat n"
    using setCount_ok [OF ok1 refl, of e "nat n"] cap by auto
  note f = manager_ok_facts [OF st2(2)]
  obtain st3 where st3: "load_desktops e cfg [1..<nat n + 1] st2 = Some st3"
    "m_desktops st3 = m_desktops st2" "next_desktop st3 = next_desktop st2"
    "m_currentDesktops st3 = m_currentDesktops st2" "m_grid st3 = m_grid st2"
    "m_perOutputVirtualDesktops st3 = m_perOutputVirtualDesktops st2"
    "\<forall>vd. m_x11DesktopNumber (store st3 vd) = m_x11DesktopNumber (store st2 vd)"
    "\<forall>i. 1 \<le> i \<longrightarrow> i < nat n + 1 \<longrightarrow> m_name (store st3 (m_desktops st2 ! (i - 1))) = config_name e cfg i \<and>
      (m_id (store st2 (m_desktops st2 ! (i - 1))) = [] \<and> config_id cfg i \<noteq> [] \<longrightarrow>
       m_id (store st3 (m_desktops st2 ! (i - 1))) = config_id cfg i)"
    using load_desktops_ok [OF f(1), of 1 "nat n + 1" e cfg] st2(3) by auto
  let ?st' = "st3\<lparr>m_rows := nat (max 1 (min ?rows n)), s_loadingDesktopSettings := False\<rparr>"
  have "load e st = Some ?st'"
    unfolding load_def Let_def st1_def [symmetric] cfg1 option.case n(1) [symmetric] n32 st2(1) bind.bind_lunit st3(1)
    using n(2) by simp
  moreover have "numbered (m_desktops st2) (store st3) (next_desktop st2)"
    using st2(2) st3(7) by (auto simp: manager_ok_def desktops_ok_def intro: numbered_store)
  then have "manager_ok ?st'" using st2 st3 f n(2)
    by (auto simp: manager_ok_def desktops_ok_def layout_ok_def count_def nat_le_iff le_nat_iff)
  moreover have "config_id cfg (i + 1) \<noteq> [] \<Longrightarrow> m_id (store ?st' (m_desktops ?st' ! i)) = config_id cfg (i + 1)"
    if "starting st" "i < nat n" for i
  proof -
    have "starting st1" "s_loadingDesktopSettings st1" using that(1) by (auto simp: starting_def st1_def)
    then have "m_id (store st2 (m_desktops st2 ! i)) = []"
      using setCount_starting_ids [OF _ _ st2(1)] that(2) st2(3) by (simp add: count_def)
    then show "config_id cfg (i + 1) \<noteq> [] \<Longrightarrow> m_id (store ?st' (m_desktops ?st' ! i)) = config_id cfg (i + 1)"
      using st3(2,8) that(2) by (auto dest: spec [of _ "i + 1"])
  qed
  moreover have "\<forall>i < nat n. m_name (store ?st' (m_desktops ?st' ! i)) = config_name e cfg (i + 1)"
    using st3(2,8) by (auto dest: spec [of _ "_ + 1"])
  ultimately show ?thesis using st2(3) st3(2) by (simp add: count_def)
qed

section \<open>What \<open>save\<close> writes\<close>

definition shown_name :: "env \<Rightarrow> virtual_desktop \<Rightarrow> string" where
  "shown_name e v = (if m_name v = [] then defaultName e (m_x11DesktopNumber v) else m_name v)"

lemma save_desktop_entries:
  "config_name e (save_desktop e v cfg) i =
     (if i = m_x11DesktopNumber v then shown_name e v else config_name e cfg i)"
  "config_id (save_desktop e v cfg) i = (if i = m_x11DesktopNumber v then m_id v else config_id cfg i)"
  "entry_Number (save_desktop e v cfg) = entry_Number cfg"
  by (auto simp: save_desktop_def Let_def config_name_def config_id_def shown_name_def update_conv' delete_conv'
      split: option.splits)

lemma fold_save_desktop:
  "distinct (map m_x11DesktopNumber vs) \<Longrightarrow> v \<in> set vs \<Longrightarrow>
   config_name e (fold (save_desktop e) vs cfg) (m_x11DesktopNumber v) = shown_name e v \<and>
   config_id (fold (save_desktop e) vs cfg) (m_x11DesktopNumber v) = m_id v"
proof (induction vs rule: rev_induct)
  case (snoc w ws)
  then have "v = w \<or> v \<in> set ws \<and> m_x11DesktopNumber v \<noteq> m_x11DesktopNumber w"
    by (auto simp: image_iff)
  then show ?case using snoc by (auto simp: save_desktop_entries)
qed simp

lemma save_group_entries:
  assumes ok: "manager_ok st" and i: "i < count st"
  shows "config_name e (save_group e st cfg) (i + 1) = shown_name e (store st (m_desktops st ! i))"
    "config_id (save_group e st cfg) (i + 1) = m_id (store st (m_desktops st ! i))"
    and "entry_Number (save_group e st cfg) = Some (int (count st))"
    "entry_Rows (save_group e st cfg) = Some (int (m_rows st))"
proof -
  obtain ids names where d: "delete_stale (count st + 1) (entry_Id cfg) (entry_Name cfg) = (ids, names)"
    by (cases "delete_stale (count st + 1) (entry_Id cfg) (entry_Name cfg)")
  let ?vs = "map (store st) (m_desktops st)"
  let ?g = "cfg\<lparr>entry_Id := ids, entry_Name := names, entry_Number := Some (int (count st))\<rparr>"
  have s: "save_group e st cfg = (fold (save_desktop e) ?vs ?g)\<lparr>entry_Rows := Some (int (m_rows st))\<rparr>"
    unfolding save_group_def d by simp
  note f = manager_ok_facts [OF ok]
  have nums: "map m_x11DesktopNumber ?vs ! j = j + 1" if "j < length (m_desktops st)" for j
    using f(3) [rule_format, OF that] that by (simp only: nth_map length_map comp_apply)
  have "distinct (map m_x11DesktopNumber ?vs)"
    unfolding distinct_conv_nth using nums by (metis add_right_cancel length_map)
  note fs = fold_save_desktop [OF this, of "store st (m_desktops st ! i)" e ?g]
  have n: "m_x11DesktopNumber (store st (m_desktops st ! i)) = i + 1" using f(3) i by (simp add: count_def)
  have rows: "config_name e (g\<lparr>entry_Rows := r\<rparr>) j = config_name e g j"
    "config_id (g\<lparr>entry_Rows := r\<rparr>) j = config_id g j" for g r j
    by (simp_all add: config_name_def config_id_def)
  show "config_name e (save_group e st cfg) (i + 1) = shown_name e (store st (m_desktops st ! i))"
    "config_id (save_group e st cfg) (i + 1) = m_id (store st (m_desktops st ! i))"
    using fs n i unfolding s rows by (simp_all add: count_def)
  have "entry_Number (fold (save_desktop e) vs g) = entry_Number g" for vs g
    by (induction vs arbitrary: g) (simp_all add: save_desktop_entries)
  then show "entry_Number (save_group e st cfg) = Some (int (count st))"
    "entry_Rows (save_group e st cfg) = Some (int (m_rows st))" by (simp_all add: s)
qed

end
