(* ===== verification/VirtualDesktopsProps.thy ===== *)
theory VirtualDesktopsProps
  imports VirtualDesktopsEvents
begin

text \<open>
  The public operations of \<open>VirtualDesktopManager\<close> as events, the states they reach after \<open>load\<close> or
  \<open>setCount\<close> on a new manager (as \<open>Workspace::init\<close> does), and the properties of the class.
\<close>

section \<open>Events\<close>

datatype desktop_event =
    CreateDesktop nat string
  | RemoveDesktop nat
  | RemoveDesktopId string
  | MoveDesktop nat int
  | SetCount nat
  | SetRows nat
  | UpdateLayout
  | SetCurrent nat "nat option"
  | SetCurrentNumber nat "nat option"
  | MoveTo direction bool
  | SetName nat string
  | SetNavigationWrappingAround bool
  | SetPerOutput bool
  | OutputAdded nat
  | OutputRemoved nat
  | SwipeX real
  | SwipeY real
  | ReleaseX
  | ReleaseY
  | Save
  | Load

fun desktop_step :: "env \<Rightarrow> desktop_event \<Rightarrow> manager \<Rightarrow> manager option" where
  "desktop_step e (CreateDesktop position name) st = map_option snd (createVirtualDesktop e position name st)"
| "desktop_step e (RemoveDesktop vd) st = removeVirtualDesktop e vd st"
| "desktop_step e (RemoveDesktopId ident) st = removeVirtualDesktopId e ident st"
| "desktop_step e (MoveDesktop vd position) st = moveVirtualDesktop e vd position st"
| "desktop_step e (SetCount n) st = setCount e n st"
| "desktop_step e (SetRows rows) st = setRows rows st"
| "desktop_step e UpdateLayout st = updateLayout st"
| "desktop_step e (SetCurrent vd x) st = Some (snd (setCurrent e vd x st))"
| "desktop_step e (SetCurrentNumber n x) st = Some (snd (setCurrentNumber e n x st))"
| "desktop_step e (MoveTo direction wrap) st = moveTo e direction wrap st"
| "desktop_step e (SetName vd name) st = Some (setName_connected e vd name st)"
| "desktop_step e (SetNavigationWrappingAround enabled) st = Some (setNavigationWrappingAround enabled st)"
| "desktop_step e (SetPerOutput enabled) st = setPerOutputVirtualDesktops e enabled st"
| "desktop_step e (OutputAdded x) st = map_option snd (initCurrentDesktopForOutput e x st)"
| "desktop_step e (OutputRemoved x) st = Some (outputRemoved e x st)"
| "desktop_step e (SwipeX x) st = swipeX e x st"
| "desktop_step e (SwipeY y) st = swipeY e y st"
| "desktop_step e ReleaseX st = gestureReleasedX e st"
| "desktop_step e ReleaseY st = gestureReleasedY e st"
| "desktop_step e Save st = Some (save e st)"
| "desktop_step e Load st = load e st"

text \<open>
  What callers keep to: a desktop they pass is one of the manager's, the outputs with a current desktop
  are among the outputs of the workspace, and a configuration that is loaded has a \<open>Number\<close> in range.
\<close>

definition config_in_range :: "config_group \<Rightarrow> bool" where
  "config_in_range cfg \<longleftrightarrow>
     (let n = (case entry_Number cfg of Some v \<Rightarrow> v | None \<Rightarrow> 1) in 1 \<le> n \<and> n \<le> int maximum)"

fun callable :: "env \<Rightarrow> desktop_event \<Rightarrow> manager \<Rightarrow> bool" where
  "callable e (RemoveDesktop vd) st = (vd \<in> set (m_desktops st))"
| "callable e (SetCurrent vd x) st = (vd \<in> set (m_desktops st))"
| "callable e (SetName vd name) st = (vd \<in> set (m_desktops st))"
| "callable e (SetPerOutput enabled) st = list_all (\<lambda>x. x \<in> set (outputs e)) (map fst (m_currentDesktops st))"
| "callable e Load st = pred_option config_in_range (m_config st)"
| "callable e _ st = True"

inductive desktops_reachable :: "manager \<Rightarrow> bool" where
  loaded: "config_in_range cfg \<Longrightarrow> load e (VirtualDesktopManager_new (Some cfg)) = Some st \<Longrightarrow> desktops_reachable st"
| counted: "setCount e n (VirtualDesktopManager_new config) = Some st \<Longrightarrow> desktops_reachable st"
| stepped: "desktops_reachable st \<Longrightarrow> env_ok e \<Longrightarrow> callable e ev st \<Longrightarrow> desktop_step e ev st = Some st' \<Longrightarrow>
    desktops_reachable st'"

lemma starting_new: "starting (VirtualDesktopManager_new config)"
  by (simp add: starting_def VirtualDesktopManager_new_def)

lemma updateLayout_keeps_ok:
  assumes ok: "manager_ok st" shows "\<exists>st'. updateLayout st = Some st' \<and> manager_ok st'"
proof -
  note f = manager_ok_facts [OF ok]
  obtain st' where "updateLayout st = Some st'" "layout_ok (m_desktops st) (m_rows st') (m_grid st')"
    "m_desktops st' = m_desktops st" "store st' = store st" "next_desktop st' = next_desktop st"
    "m_currentDesktops st' = m_currentDesktops st"
    "m_perOutputVirtualDesktops st' = m_perOutputVirtualDesktops st"
    by (rule updateLayout_ok [OF f(7,6)])
  then show ?thesis using ok by (auto simp: manager_ok_def)
qed

lemma load_range_ok:
  assumes "manager_ok st \<or> starting st" "m_config st = Some cfg" "config_in_range cfg"
  shows "\<exists>st'. load e st = Some st' \<and> manager_ok st'"
  using load_ok [OF assms(1,2) refl, of e] assms(3) by (auto simp: config_in_range_def Let_def)

lemma setName_connected_ok:
  assumes "manager_ok st" shows "manager_ok (setName_connected e vd name st)"
  using assms by (auto simp: manager_ok_def desktops_ok_def intro: numbered_store)

lemma step_ok:
  assumes e: "env_ok e" and ok: "manager_ok st" and c: "callable e ev st"
  shows "\<exists>st'. desktop_step e ev st = Some st' \<and> manager_ok st'"
proof (cases ev)
  case (CreateDesktop position name)
  then show ?thesis using createVirtualDesktop_ok [OF ok, of e position name] by auto
next
  case (RemoveDesktop vd)
  then show ?thesis using removeVirtualDesktop_ok [OF ok, of vd e] c ok
    by (cases "count st = 1") (auto simp: removeVirtualDesktop_def)
next
  case (RemoveDesktopId ident)
  show ?thesis
  proof (cases "desktopForId st ident")
    case (Some vd)
    then have "vd \<in> set (m_desktops st)" by (auto simp: desktopForId_def find_Some_iff in_set_conv_nth)
    then show ?thesis using removeVirtualDesktop_ok [OF ok, of vd e] ok Some RemoveDesktopId
      by (cases "count st = 1") (auto simp: removeVirtualDesktopId_def removeVirtualDesktop_def)
  qed (use ok RemoveDesktopId in \<open>simp add: removeVirtualDesktopId_def\<close>)
next
  case (MoveDesktop vd position)
  then show ?thesis using moveVirtualDesktop_ok [OF ok, of e vd position] by auto
next
  case (SetCount n)
  then show ?thesis using setCount_ok [OF _ refl, of st e n] ok by auto
next
  case (SetRows rows)
  then show ?thesis using setRows_ok [OF ok, of rows] by auto
next
  case UpdateLayout
  then show ?thesis using updateLayout_keeps_ok [OF ok] by auto
next
  case (SetCurrent vd x)
  then show ?thesis using setCurrent_ok(1) [OF e ok _ refl, of vd x] c by auto
next
  case (SetCurrentNumber n x)
  show ?thesis
  proof (cases "desktopForX11Id st n")
    case (Some vd)
    then have "vd \<in> set (m_desktops st)" by (auto simp: desktopForX11Id_def count_def split: if_splits)
    then show ?thesis using setCurrent_ok(1) [OF e ok _ refl, of vd x] Some SetCurrentNumber
      by (simp add: setCurrentNumber_def)
  qed (use ok SetCurrentNumber in \<open>simp add: setCurrentNumber_def\<close>)
next
  case (MoveTo direction wrap)
  then show ?thesis using moveTo_ok [OF e ok, of direction wrap] by auto
next
  case (SetName vd name)
  then show ?thesis using setName_connected_ok [OF ok] by simp
next
  case (SetNavigationWrappingAround enabled)
  then show ?thesis using ok by (simp add: setNavigationWrappingAround_def manager_ok_def)
next
  case (SetPerOutput enabled)
  then have "dom (on_output st) \<subseteq> set (outputs e)"
    using c by (auto simp: list_all_iff dom_map_of_conv_image_fst)
  then show ?thesis using setPerOutputVirtualDesktops_ok [OF e ok, of enabled] SetPerOutput by auto
next
  case (OutputAdded x)
  then show ?thesis using initCurrentDesktopForOutput_ok [OF e ok, of x] by auto
next
  case (OutputRemoved x)
  then show ?thesis using outputRemoved_ok(1) [OF e ok] by simp
next
  case (SwipeX x)
  then show ?thesis using swipe_ok(1) [OF ok, of e x] by auto
next
  case (SwipeY y)
  then show ?thesis using swipe_ok(2) [OF ok, of e y] by auto
next
  case ReleaseX
  then show ?thesis using gestureReleased_ok(1) [OF e ok] by auto
next
  case ReleaseY
  then show ?thesis using gestureReleased_ok(2) [OF e ok] by auto
next
  case Save
  then show ?thesis using ok by (simp add: manager_ok_def)
next
  case Load
  show ?thesis
  proof (cases "m_config st")
    case None
    then show ?thesis using ok Load by (simp add: load_def Let_def manager_ok_def)
  next
    case (Some cfg)
    then show ?thesis using load_range_ok [of st cfg e] ok c Load by auto
  qed
qed

lemma reachable_ok: "desktops_reachable st \<Longrightarrow> manager_ok st"
proof (induction rule: desktops_reachable.induct)
  case (loaded cfg e st)
  then show ?case using load_range_ok [of "VirtualDesktopManager_new (Some cfg)" cfg e] starting_new
    by (auto simp: VirtualDesktopManager_new_def)
next
  case (counted e n config st)
  then show ?case using setCount_ok [OF disjI2 [OF starting_new] refl, of e n config] by auto
next
  case (stepped st e ev st')
  then show ?case using step_ok [of e st ev] by auto
qed

lemma wrapped_steps:
  assumes ok: "manager_ok st"
  obtains w where "0 < w"
    "\<And>e i. i < count st \<Longrightarrow> above e (Some (m_desktops st ! i)) True st = Some (m_desktops st ! above_index w (count st) i)"
    "\<And>e i. i < count st \<Longrightarrow> below e (Some (m_desktops st ! i)) True st = Some (m_desktops st ! below_index w (count st) i)"
    "\<And>e i. i < count st \<Longrightarrow> toLeft e (Some (m_desktops st ! i)) True st = Some (m_desktops st ! left_index w (count st) i)"
    "\<And>e i. i < count st \<Longrightarrow> toRight e (Some (m_desktops st ! i)) True st = Some (m_desktops st ! right_index w (count st) i)"
proof -
  obtain w h where g: "m_grid st = Grid_update w h (m_desktops st)" "0 < w" "length (m_desktops st) \<le> w * h"
    using ok by (auto simp: manager_ok_def layout_ok_def)
  have d: "distinct (m_desktops st)" by (rule manager_ok_facts(1) [OF ok])
  have fits: "fits (w, h, m_desktops st, i)" if "i < count st" for i using that g by (simp add: count_def)
  show ?thesis
  proof (rule that [OF g(2)])
    fix e i assume i: "i < count st"
    note grid = gridCoords_update [OF d fits [OF i]] Grid_above_update [OF d fits [OF i]]
      Grid_below_update [OF d fits [OF i]] Grid_toLeft_update [OF d fits [OF i]] Grid_toRight_update [OF d fits [OF i]]
    show "above e (Some (m_desktops st ! i)) True st = Some (m_desktops st ! above_index w (count st) i)"
      "below e (Some (m_desktops st ! i)) True st = Some (m_desktops st ! below_index w (count st) i)"
      "toLeft e (Some (m_desktops st ! i)) True st = Some (m_desktops st ! left_index w (count st) i)"
      "toRight e (Some (m_desktops st ! i)) True st = Some (m_desktops st ! right_index w (count st) i)"
      by (simp_all add: above_def below_def toLeft_def toRight_def on_grid_def orCurrent_def g(1) grid
          above_index_def below_index_def left_index_def right_index_def count_def del: fits.simps)
  qed
qed

lemma next_previous_index:
  assumes ok: "manager_ok st" and i: "i < count st"
  shows "next_desktop_of e (Some (m_desktops st ! i)) True st =
      Some (m_desktops st ! (if i + 1 = count st then 0 else i + 1))"
    and "previous_desktop_of e (Some (m_desktops st ! i)) True st =
      Some (m_desktops st ! (if i = 0 then count st - 1 else i - 1))"
proof -
  note f = manager_ok_facts [OF ok]
  have x: "index_of (m_desktops st) (m_desktops st ! i) = int i"
    using f(1) i by (intro index_of_distinct) (simp_all add: count_def)
  show "next_desktop_of e (Some (m_desktops st ! i)) True st =
      Some (m_desktops st ! (if i + 1 = count st then 0 else i + 1))"
    using f(6) by (auto simp: next_desktop_of_def orCurrent_def x Let_def hd_conv_nth nat_add_distrib)
  show "previous_desktop_of e (Some (m_desktops st ! i)) True st =
      Some (m_desktops st ! (if i = 0 then count st - 1 else i - 1))"
    using f(6) by (auto simp: previous_desktop_of_def orCurrent_def x Let_def last_conv_nth count_def nat_diff_distrib)
qed

lemma opposite_index:
  assumes F: "\<And>i. i < n \<Longrightarrow> F (Some (ds ! i)) = Some (ds ! f i)" and G: "\<And>i. i < n \<Longrightarrow> G (Some (ds ! i)) = Some (ds ! g i)"
    and "\<And>i. i < n \<Longrightarrow> f i < n \<and> g (f i) = i" "n = length ds" "vd \<in> set ds"
  shows "\<exists>u \<in> set ds. F (Some vd) = Some u \<and> G (Some u) = Some vd"
proof -
  obtain i where "i < n" "vd = ds ! i" using assms(4,5) by (auto simp: in_set_conv_nth)
  then show ?thesis using assms by (intro bexI [of _ "ds ! f i"]) auto
qed

lemma load_desktops_fails:
  "1 \<le> k \<Longrightarrow> k \<le> count st + 1 \<Longrightarrow> count st + 1 < m \<Longrightarrow> load_desktops e cfg [k..<m] st = None"
proof (induction "count st + 1 - k" arbitrary: k st)
  case 0
  then show ?case by (simp add: load_desktops_Cons upt_conv_Cons del: load_desktops.simps)
next
  case (Suc n)
  have c: "count (load_desktop e cfg k st) = count st" by (simp add: count_def load_desktop_fields)
  have "[k..<m] = k # [k + 1..<m]" "\<not> count st \<le> k - 1" using Suc by (simp_all add: upt_conv_Cons)
  then have "load_desktops e cfg [k..<m] st = load_desktops e cfg [k + 1..<m] (load_desktop e cfg k st)"
    by (simp only: load_desktops_Cons if_False)
  also have "\<dots> = None" using Suc.hyps(2) Suc.prems by (intro Suc.hyps(1)) (simp_all add: c)
  finally show ?case .
qed

definition witness_env :: env where
  "witness_env =
     \<lparr>activeOutput = 1, outputs = [1, 2], findLastDesktopForOutput = (\<lambda>x. None),
      uuid = (\<lambda>n. replicate (n + 1) CHR ''u''), defaultName = (\<lambda>n. ''D'' @ replicate n CHR ''I''),
      hash_order = (\<lambda>xs. xs)\<rparr>"

lemma witness_env_ok: "env_ok witness_env"
  by (simp add: env_ok_def witness_env_def)

lemma witness_state:
  obtains st where "setCount e 3 (VirtualDesktopManager_new config) = Some st" "desktops_reachable st" "count st = 3"
proof -
  obtain st where "setCount e 3 (VirtualDesktopManager_new config) = Some st" "count st = capped 3"
    using setCount_ok [OF disjI2 [OF starting_new] refl, of e 3 config] by auto
  then show ?thesis using that desktops_reachable.counted by (simp add: capped_def maximum_def)
qed

section \<open>Properties\<close>

text \<open>
  C12: In every reachable state there are between 1 and 25 different desktops, desktop \<open>i\<close> of the list
  has the number \<open>i + 1\<close> and is found by it, there are at least one and at most as many rows as
  desktops, every output's current desktop is one of the list, and without per-output desktops it is the
  same one for all outputs.
\<close>
theorem desktops_invariant:
  assumes "desktops_reachable st"
  shows "distinct (m_desktops st) \<and> 1 \<le> count st \<and> count st \<le> 25 \<and> 1 \<le> m_rows st \<and> m_rows st \<le> count st \<and>
    (\<forall>i < count st. m_x11DesktopNumber (store st (m_desktops st ! i)) = i + 1 \<and>
       desktopForX11Id st (i + 1) = Some (m_desktops st ! i)) \<and>
    (\<forall>x d. map_of (m_currentDesktops st) x = Some d \<longrightarrow> d \<in> Some ` set (m_desktops st)) \<and>
    (\<forall>x y c d. map_of (m_currentDesktops st) x = Some c \<longrightarrow> map_of (m_currentDesktops st) y = Some d \<longrightarrow>
       \<not> m_perOutputVirtualDesktops st \<longrightarrow> c = d)"
proof -
  note f = manager_ok_facts [OF reachable_ok [OF assms]]
  have "c = d" if "map_of (m_currentDesktops st) x = Some c" "map_of (m_currentDesktops st) y = Some d"
      "\<exists>u. ran (map_of (m_currentDesktops st)) \<subseteq> {u}" for x y c d
    using that(3) ranI [of "map_of (m_currentDesktops st)", OF that(1)]
      ranI [of "map_of (m_currentDesktops st)", OF that(2)] by auto
  moreover have "d \<in> Some ` set (m_desktops st)" if "map_of (m_currentDesktops st) x = Some d" for x d
    using f(9) ranI [of "map_of (m_currentDesktops st)", OF that] by (auto simp: current_ok_def)
  moreover have "\<not> m_perOutputVirtualDesktops st \<Longrightarrow> \<exists>u. ran (map_of (m_currentDesktops st)) \<subseteq> {u}"
    using f(9) by (simp add: current_ok_def)
  moreover have "desktopForX11Id st (i + 1) = Some (m_desktops st ! i)" if "i < count st" for i
    using that by (simp add: desktopForX11Id_def)
  ultimately show ?thesis using f(1,3-5,7,8) unfolding count_def maximum_def by blast
qed

theorem desktops_invariant_witness:
  "\<exists>st. setCount witness_env 3 (VirtualDesktopManager_new None) = Some st \<and> distinct (m_desktops st) \<and>
     desktopForX11Id st 3 = Some (m_desktops st ! 2)"
proof -
  obtain st where st: "setCount witness_env 3 (VirtualDesktopManager_new None) = Some st" "desktops_reachable st" "count st = 3"
    by (rule witness_state)
  have "desktopForX11Id st (2 + 1) = Some (m_desktops st ! 2)"
    using desktops_invariant [OF st(2)] st(3) by (metis lessI numeral_3_eq_3 numeral_2_eq_2)
  then show ?thesis using st(1) desktops_invariant [OF st(2)] by auto
qed



text \<open>
  C14: When navigation wraps around, above and below, left and right, next and previous lead back to
  the desktop one came from, in every layout and also where the last rows are short or empty.
\<close>
theorem navigation_inverse:
  assumes "desktops_reachable st" "vd \<in> set (m_desktops st)"
    and "(to, from) \<in> {(Up, Down), (Down, Up), (Left, Right), (Right, Left), (Next, Previous), (Previous, Next)}"
  shows "\<exists>u \<in> set (m_desktops st). inDirection e (Some vd) to True st = Some u \<and>
    inDirection e (Some u) from True st = Some vd"
proof -
  note ok = reachable_ok [OF assms(1)]
  obtain w where w: "0 < w"
    "\<And>e i. i < count st \<Longrightarrow> above e (Some (m_desktops st ! i)) True st = Some (m_desktops st ! above_index w (count st) i)"
    "\<And>e i. i < count st \<Longrightarrow> below e (Some (m_desktops st ! i)) True st = Some (m_desktops st ! below_index w (count st) i)"
    "\<And>e i. i < count st \<Longrightarrow> toLeft e (Some (m_desktops st ! i)) True st = Some (m_desktops st ! left_index w (count st) i)"
    "\<And>e i. i < count st \<Longrightarrow> toRight e (Some (m_desktops st ! i)) True st = Some (m_desktops st ! right_index w (count st) i)"
    using wrapped_steps [OF ok] by metis
  note inv = above_below_inverse [OF w(1)] left_right_inverse [OF w(1)]
  have steps: "\<exists>u \<in> set (m_desktops st). F (Some vd) = Some u \<and> G (Some u) = Some vd"
    if "\<And>i. i < count st \<Longrightarrow> F (Some (m_desktops st ! i)) = Some (m_desktops st ! f i)"
      "\<And>i. i < count st \<Longrightarrow> G (Some (m_desktops st ! i)) = Some (m_desktops st ! g i)"
      "\<And>i. i < count st \<Longrightarrow> f i < count st \<and> g (f i) = i" for F G f g
    by (rule opposite_index [where F = F and G = G and f = f and g = g, OF that count_def assms(2)])
  have "\<exists>u \<in> set (m_desktops st). above e (Some vd) True st = Some u \<and> below e (Some u) True st = Some vd"
    by (rule steps [where F = "\<lambda>d. above e d True st" and G = "\<lambda>d. below e d True st" and f = "above_index w (count st)" and g = "below_index w (count st)"])
      (simp_all add: w inv)
  moreover  have "\<exists>u \<in> set (m_desktops st). below e (Some vd) True st = Some u \<and> above e (Some u) True st = Some vd"
    by (rule steps [where F = "\<lambda>d. below e d True st" and G = "\<lambda>d. above e d True st" and f = "below_index w (count st)" and g = "above_index w (count st)"])
      (simp_all add: w inv)
  moreover  have "\<exists>u \<in> set (m_desktops st). toLeft e (Some vd) True st = Some u \<and> toRight e (Some u) True st = Some vd"
    by (rule steps [where F = "\<lambda>d. toLeft e d True st" and G = "\<lambda>d. toRight e d True st" and f = "left_index w (count st)" and g = "right_index w (count st)"])
      (simp_all add: w inv)
  moreover  have "\<exists>u \<in> set (m_desktops st). toRight e (Some vd) True st = Some u \<and> toLeft e (Some u) True st = Some vd"
    by (rule steps [where F = "\<lambda>d. toRight e d True st" and G = "\<lambda>d. toLeft e d True st" and f = "right_index w (count st)" and g = "left_index w (count st)"])
      (simp_all add: w inv)
  moreover  have "\<exists>u \<in> set (m_desktops st). next_desktop_of e (Some vd) True st = Some u \<and> previous_desktop_of e (Some u) True st = Some vd"
    by (rule steps [where F = "\<lambda>d. next_desktop_of e d True st" and G = "\<lambda>d. previous_desktop_of e d True st" and f = "\<lambda>i. if i + 1 = count st then 0 else i + 1" and g = "\<lambda>i. if i = 0 then count st - 1 else i - 1"])
      (auto simp: next_previous_index [OF ok])
  moreover  have "\<exists>u \<in> set (m_desktops st). previous_desktop_of e (Some vd) True st = Some u \<and> next_desktop_of e (Some u) True st = Some vd"
    by (rule steps [where F = "\<lambda>d. previous_desktop_of e d True st" and G = "\<lambda>d. next_desktop_of e d True st" and f = "\<lambda>i. if i = 0 then count st - 1 else i - 1" and g = "\<lambda>i. if i + 1 = count st then 0 else i + 1"])
      (auto simp: next_previous_index [OF ok])
  ultimately show ?thesis using assms(3) by auto
qed

theorem navigation_inverse_witness:
  "\<exists>st u. setCount witness_env 3 (VirtualDesktopManager_new None) = Some st \<and>
     inDirection witness_env (Some (hd (m_desktops st))) Up True st = Some u \<and>
     inDirection witness_env (Some u) Down True st = Some (hd (m_desktops st))"
proof -
  obtain st where st: "setCount witness_env 3 (VirtualDesktopManager_new None) = Some st" "desktops_reachable st" "count st = 3"
    by (rule witness_state)
  have "hd (m_desktops st) \<in> set (m_desktops st)" using st(3) by (cases "m_desktops st") (simp_all add: count_def)
  then show ?thesis using navigation_inverse [OF st(2), of _ Up Down witness_env] st(1) by blast
qed

text \<open>
  C15: Removing a desktop that is not the last one left takes it out of the list and gives the outputs
  that showed it the desktop that moves into its place (or the new last one); the other outputs keep
  theirs.
\<close>
theorem removal_moves_outputs:
  assumes "desktops_reachable st" "vd \<in> set (m_desktops st)" "count st \<noteq> 1"
  shows "\<exists>st'. removeVirtualDesktop e vd st = Some st' \<and> m_desktops st' = removeAll vd (m_desktops st) \<and>
    (\<forall>x. map_of (m_currentDesktops st') x =
       (if map_of (m_currentDesktops st) x = Some (Some vd) then Some (Some (successor_of (m_desktops st) vd))
        else map_of (m_currentDesktops st) x))"
proof -
  obtain st' where st': "removeVirtualDesktop e vd st = Some st'" "m_desktops st' = removeAll vd (m_desktops st)"
    "map_of (m_currentDesktops st') = map_option (\<lambda>d. if d = Some vd then Some (successor_of (m_desktops st) vd) else d) \<circ> map_of (m_currentDesktops st)"
    using removeVirtualDesktop_ok [OF reachable_ok [OF assms(1)] assms(2,3)] by blast
  have "map_of (m_currentDesktops st') x =
       (if map_of (m_currentDesktops st) x = Some (Some vd) then Some (Some (successor_of (m_desktops st) vd))
        else map_of (m_currentDesktops st) x)" for x
    unfolding st'(3) by (cases "map_of (m_currentDesktops st) x") auto
  then show ?thesis using st'(1,2) by blast
qed

theorem removal_moves_outputs_witness:
  "\<exists>st st'. setCount witness_env 3 (VirtualDesktopManager_new None) = Some st \<and>
     removeVirtualDesktop witness_env (hd (m_desktops st)) st = Some st' \<and>
     m_desktops st' = removeAll (hd (m_desktops st)) (m_desktops st)"
proof -
  obtain st where st: "setCount witness_env 3 (VirtualDesktopManager_new None) = Some st" "desktops_reachable st" "count st = 3"
    by (rule witness_state)
  have "hd (m_desktops st) \<in> set (m_desktops st)" using st(3) by (cases "m_desktops st") (simp_all add: count_def)
  then show ?thesis using removal_moves_outputs [OF st(2), of _ witness_env] st(1,3) by fastforce
qed

text \<open>
  After \<open>setCurrent\<close> the output shows the new desktop; other outputs follow when desktops are
  shared and keep theirs when they are per output. The result says whether the output changed.
\<close>
lemma setCurrent_switches:
  assumes "desktops_reachable st" "env_ok e" "vd \<in> set (m_desktops st)"
  shows "currentDesktop e (Some x) (snd (setCurrent e vd (Some x) st)) = Some (Some vd) \<and>
    (\<forall>y. y \<noteq> x \<longrightarrow> map_of (m_currentDesktops (snd (setCurrent e vd (Some x) st))) y =
       (if m_perOutputVirtualDesktops st then map_of (m_currentDesktops st) y
        else map_option (\<lambda>d. Some vd) (map_of (m_currentDesktops st) y))) \<and>
    fst (setCurrent e vd (Some x) st) = (map_of (m_currentDesktops st) x \<noteq> Some (Some vd))"
proof -
  note ok = reachable_ok [OF assms(1)]
  have x: "x = target_output e (Some x)" by (simp add: target_output_def)
  note s = setCurrent_ok [OF assms(2) ok assms(3) x]
  obtain u where "currentDesktop e (Some x) (snd (setCurrent e vd (Some x) st)) = Some (Some u)"
    using currentDesktop_ok [OF s(1)] by blast
  then show ?thesis using s(4,5) by (auto simp: currentDesktop_def Let_def split: bind_splits)
qed

lemma setCurrent_switches_witness:
  "\<exists>st. setCount witness_env 3 (VirtualDesktopManager_new None) = Some st \<and>
     currentDesktop witness_env (Some 2) (snd (setCurrent witness_env (hd (m_desktops st)) (Some 2) st)) =
       Some (Some (hd (m_desktops st)))"
proof -
  obtain st where st: "setCount witness_env 3 (VirtualDesktopManager_new None) = Some st" "desktops_reachable st" "count st = 3"
    by (rule witness_state)
  have "hd (m_desktops st) \<in> set (m_desktops st)" using st(3) by (cases "m_desktops st") (simp_all add: count_def)
  then show ?thesis using setCurrent_switches [OF st(2) witness_env_ok, of _ 2] st(1) by blast
qed

text \<open>
  C16: Loading what \<open>save\<close> wrote into a new manager gives the same number of desktops with the same
  identifiers, names (an empty name comes back as the default one) and rows.
\<close>
theorem save_load_roundtrip:
  assumes "desktops_reachable st" "\<not> s_loadingDesktopSettings st" "m_config st = Some cfg"
    and "\<forall>vd \<in> set (m_desktops st). m_id (store st vd) \<noteq> []"
  shows "\<exists>st'. load e (VirtualDesktopManager_new (m_config (save e st))) = Some st' \<and>
    map (\<lambda>vd. m_id (store st' vd)) (m_desktops st') = map (\<lambda>vd. m_id (store st vd)) (m_desktops st) \<and>
    map (\<lambda>vd. m_name (store st' vd)) (m_desktops st') = map (\<lambda>vd. shown_name e (store st vd)) (m_desktops st) \<and>
    m_rows st' = m_rows st"
proof -
  note ok = reachable_ok [OF assms(1)]
  note f = manager_ok_facts [OF ok]
  let ?g = "save_group e st cfg"
  have g: "m_config (save e st) = Some ?g" using assms(2,3) by (simp add: save_def)
  have c: "0 < count st" using f(6) by (simp add: count_def)
  note entries = save_group_entries [OF ok]
  have n: "int (count st) = (case entry_Number ?g of Some v \<Rightarrow> v | None \<Rightarrow> 1)" "1 \<le> int (count st)" "int (count st) \<le> int maximum"
    using entries(3) [OF c] f(4-6) by (simp_all add: count_def)
  obtain st' where st': "load e (VirtualDesktopManager_new (Some ?g)) = Some st'" "count st' = count st"
    "m_rows st' = nat (max 1 (min (case entry_Rows ?g of Some v \<Rightarrow> v | None \<Rightarrow> 2) (int (count st))))"
    "\<forall>i < count st. m_name (store st' (m_desktops st' ! i)) = config_name e ?g (i + 1)"
    "\<forall>i < count st. config_id ?g (i + 1) \<noteq> [] \<longrightarrow> m_id (store st' (m_desktops st' ! i)) = config_id ?g (i + 1)"
    using load_ok [OF disjI2 [OF starting_new] _ n, of "Some ?g" e] starting_new
    by (auto simp: VirtualDesktopManager_new_def)
  have "m_rows st' = m_rows st" using st'(3) entries(4) [OF c] f(7,8) by (simp add: count_def)
  moreover have "map (\<lambda>vd. m_id (store st' vd)) (m_desktops st') = map (\<lambda>vd. m_id (store st vd)) (m_desktops st)"
    using st'(2,5) entries(2) assms(4) by (intro nth_equalityI) (auto simp: count_def)
  moreover have "map (\<lambda>vd. m_name (store st' vd)) (m_desktops st') = map (\<lambda>vd. shown_name e (store st vd)) (m_desktops st)"
    using st'(2,4) entries(1) by (intro nth_equalityI) (auto simp: count_def)
  ultimately show ?thesis using st'(1) g by simp
qed

text \<open>
  A configuration whose \<open>Number\<close> is above the maximum makes \<open>load\<close> access the list of desktops out
  of range: \<open>setCount\<close> caps the count, the loop over the entries does not.
\<close>
lemma load_out_of_range:
  assumes "entry_Number cfg = Some n" "25 < n" "n < 2 ^ 31"
  shows "load e (VirtualDesktopManager_new (Some cfg)) = None"
proof -
  let ?new = "(VirtualDesktopManager_new (Some cfg))\<lparr>s_loadingDesktopSettings := True\<rparr>"
  have "starting ?new" using starting_new [of "Some cfg"] by (simp add: starting_def)
  then obtain st where st: "setCount e (nat (n mod 2 ^ 32)) ?new = Some st" "count st = capped (nat (n mod 2 ^ 32))"
    using setCount_ok [OF disjI2 refl, of ?new e "nat (n mod 2 ^ 32)"] by auto
  have "count st = 25" using assms by (simp add: st(2) capped_def maximum_def)
  then have "load_desktops e cfg [1..<nat n + 1] st = None" using assms by (intro load_desktops_fails) auto
  then show ?thesis using assms st(1)
    by (simp add: load_def Let_def VirtualDesktopManager_new_def del: upt_Suc)
qed

definition witness_config :: config_group where
  "witness_config = \<lparr>entry_Number = Some 26, entry_Rows = Some 2, entry_Name = [(1, ''Work'')], entry_Id = []\<rparr>"

lemma load_out_of_range_witness:
  "load witness_env (VirtualDesktopManager_new (Some witness_config)) = None"
  by (rule load_out_of_range [of _ 26]) (simp_all add: witness_config_def)

theorem save_load_roundtrip_witness:
  "\<exists>st st'. setCount witness_env 2 (VirtualDesktopManager_new (Some witness_config)) = Some st \<and>
     load witness_env (VirtualDesktopManager_new (m_config (save witness_env st))) = Some st' \<and>
     map (\<lambda>vd. m_id (store st' vd)) (m_desktops st') = map (\<lambda>vd. m_id (store st vd)) (m_desktops st)"
proof -
  have "case setCount witness_env 2 (VirtualDesktopManager_new (Some witness_config)) of
      Some st \<Rightarrow> \<not> s_loadingDesktopSettings st \<and> m_config st \<noteq> None \<and> list_all (\<lambda>vd. m_id (store st vd) \<noteq> []) (m_desktops st)
    | None \<Rightarrow> False" by code_simp
  then obtain st cfg where st: "setCount witness_env 2 (VirtualDesktopManager_new (Some witness_config)) = Some st"
    "\<not> s_loadingDesktopSettings st" "m_config st = Some cfg" "\<forall>vd \<in> set (m_desktops st). m_id (store st vd) \<noteq> []"
    by (auto simp: list_all_iff split: option.splits)
  then show ?thesis
    using save_load_roundtrip [OF desktops_reachable.counted [OF st(1)] st(2-4), of witness_env] by blast
qed

end
