(* ===== verification/Constraints.thy ===== *)
theory Constraints
  imports Prelude "HOL-Library.Monad_Syntax"
begin

text \<open>
  The stacking constraints of \<open>Workspace\<close> (\<open>constrain\<close>, \<open>unconstrain\<close> and \<open>removeFromStack\<close> of
  \<open>src/kde-kwin/src/workspace.cpp\<close>): "window \<open>below\<close> stays under window \<open>above\<close>". The constraint objects
  point to each other, so they live in an explicit store: a constraint is an address, \<open>cells\<close> maps the
  addresses of live objects to their contents, and \<open>delete\<close> removes the address. An access to a deleted
  constraint is \<open>None\<close> in the option monad.

  The invariant \<open>graph_ok\<close> says that the \<open>parents\<close> and \<open>children\<close> lists are exactly the live constraints
  next to this one; every operation returns (no dangling pointer is followed) and keeps it.
\<close>

section \<open>Data and operations\<close>

record stack_constraint =
  c_below :: nat
  c_above :: nat
  c_parents :: "nat list"
  c_children :: "nat list"
  c_enqueued :: bool

record graph =
  m_constraints :: "nat list"
  cells :: "nat \<Rightarrow> stack_constraint option"
  next_cell :: nat

definition graph_new :: graph where
  "graph_new = \<lparr>m_constraints = [], cells = (\<lambda>c. None), next_cell = 0\<rparr>"

fun each_cell :: "(stack_constraint \<Rightarrow> stack_constraint) \<Rightarrow> nat list \<Rightarrow> graph \<Rightarrow> graph option" where
  "each_cell f [] g = Some g"
| "each_cell f (c # cs) g = do {
     k \<leftarrow> cells g c;
     each_cell f cs (g\<lparr>cells := (cells g)(c \<mapsto> f k)\<rparr>)
   }"

text \<open>
  The loop of \<open>constrain\<close> over the existing constraints: \<open>None\<close> inside is the early return for a
  constraint that is there already, otherwise the parents and children of the new one.
\<close>

fun neighbours :: "graph \<Rightarrow> nat \<Rightarrow> nat \<Rightarrow> nat list \<Rightarrow> nat list \<Rightarrow> nat list \<Rightarrow> (nat list \<times> nat list) option option" where
  "neighbours g lower upper [] parents children = Some (Some (parents, children))"
| "neighbours g lower upper (c # cs) parents children = do {
     k \<leftarrow> cells g c;
     if c_below k = lower \<and> c_above k = upper then Some None
     else if c_below k = upper then neighbours g lower upper cs parents (children @ [c])
     else if c_above k = lower then neighbours g lower upper cs (parents @ [c]) children
     else neighbours g lower upper cs parents children
   }"

text \<open>The result says whether the function reaches its \<open>updateStackingOrder()\<close>.\<close>

definition constrain :: "nat \<Rightarrow> nat \<Rightarrow> graph \<Rightarrow> (bool \<times> graph) option" where
  "constrain lower upper g =
     (if lower = upper then Some (False, g)
      else do {
        found \<leftarrow> neighbours g lower upper (m_constraints g) [] [];
        (case found of
           None \<Rightarrow> Some (False, g)
         | Some (parents, children) \<Rightarrow>
             let c = next_cell g;
                 k = \<lparr>c_below = lower, c_above = upper, c_parents = parents, c_children = children, c_enqueued = False\<rparr>;
                 g1 = \<lparr>m_constraints = m_constraints g @ [c], cells = (cells g)(c \<mapsto> k), next_cell = c + 1\<rparr>
             in do {
               g2 \<leftarrow> each_cell (\<lambda>p. p\<lparr>c_children := c_children p @ [c]\<rparr>) parents g1;
               g3 \<leftarrow> each_cell (\<lambda>d. d\<lparr>c_parents := c_parents d @ [c]\<rparr>) children g2;
               Some (True, g3)
             })
      })"

fun find_constraint :: "graph \<Rightarrow> nat \<Rightarrow> nat \<Rightarrow> nat list \<Rightarrow> nat option option" where
  "find_constraint g lower upper [] = Some None"
| "find_constraint g lower upper (c # cs) = do {
     k \<leftarrow> cells g c;
     if c_below k = lower \<and> c_above k = upper then Some (Some c) else find_constraint g lower upper cs
   }"

definition unconstrain :: "nat \<Rightarrow> nat \<Rightarrow> graph \<Rightarrow> (bool \<times> graph) option" where
  "unconstrain lower upper g = do {
     found \<leftarrow> find_constraint g lower upper (m_constraints g);
     (case found of
        None \<Rightarrow> Some (False, g)
      | Some c \<Rightarrow> do {
          k \<leftarrow> cells g c;
          g1 \<leftarrow> each_cell (\<lambda>p. p\<lparr>c_children := remove1 c (c_children p)\<rparr>) (c_parents k)
                 (g\<lparr>m_constraints := remove1 c (m_constraints g)\<rparr>);
          g2 \<leftarrow> each_cell (\<lambda>d. d\<lparr>c_parents := remove1 c (c_parents d)\<rparr>) (c_children k) g1;
          Some (True, g2\<lparr>cells := (cells g2)(c := None)\<rparr>)
        })
   }"

text \<open>The loop of \<open>removeFromStack\<close>, from the last constraint to the first; \<open>i\<close> are left to visit.\<close>

fun drop_constraints :: "nat \<Rightarrow> nat \<Rightarrow> graph \<Rightarrow> graph option" where
  "drop_constraints window 0 g = Some g"
| "drop_constraints window (Suc i) g =
     (let c = m_constraints g ! i
      in do {
        k \<leftarrow> cells g c;
        if c_below k \<noteq> window \<and> c_above k \<noteq> window then drop_constraints window i g
        else do {
          g1 \<leftarrow> (if c_below k = window
                 then each_cell (\<lambda>d. d\<lparr>c_parents := remove1 c (c_parents d)\<rparr>) (c_children k) g
                 else each_cell (\<lambda>p. p\<lparr>c_children := remove1 c (c_children p)\<rparr>) (c_parents k) g);
          drop_constraints window i
            (g1\<lparr>m_constraints := take i (m_constraints g1) @ drop (i + 1) (m_constraints g1),
                cells := (cells g1)(c := None)\<rparr>)
        }
      })"

section \<open>The invariant\<close>

abbreviation below_of :: "graph \<Rightarrow> nat \<Rightarrow> nat" where
  "below_of g c \<equiv> c_below (the (cells g c))"

abbreviation above_of :: "graph \<Rightarrow> nat \<Rightarrow> nat" where
  "above_of g c \<equiv> c_above (the (cells g c))"

definition live_ok :: "graph \<Rightarrow> bool" where
  "live_ok g \<longleftrightarrow> distinct (m_constraints g) \<and>
     (\<forall>c \<in> set (m_constraints g). cells g c \<noteq> None \<and> c < next_cell g \<and> below_of g c \<noteq> above_of g c) \<and>
     inj_on (\<lambda>c. (below_of g c, above_of g c)) (set (m_constraints g))"

text \<open>
  \<open>links_ok w g\<close>: the links through every window but \<open>w\<close> lead to live neighbours, are mirrored in the
  other object, and are complete, except that of two opposite constraints only one is the parent of the
  other (\<open>constrain\<close> takes an opposite constraint for a child only).
\<close>

abbreviation parents_of :: "graph \<Rightarrow> nat \<Rightarrow> nat list" where
  "parents_of g c \<equiv> c_parents (the (cells g c))"

abbreviation children_of :: "graph \<Rightarrow> nat \<Rightarrow> nat list" where
  "children_of g c \<equiv> c_children (the (cells g c))"

definition links_ok :: "nat option \<Rightarrow> graph \<Rightarrow> bool" where
  "links_ok w g \<longleftrightarrow>
     (\<forall>c \<in> set (m_constraints g). Some (below_of g c) \<noteq> w \<longrightarrow> distinct (parents_of g c) \<and>
        set (parents_of g c) \<subseteq> {p \<in> set (m_constraints g). above_of g p = below_of g c}) \<and>
     (\<forall>c \<in> set (m_constraints g). Some (above_of g c) \<noteq> w \<longrightarrow> distinct (children_of g c) \<and>
        set (children_of g c) \<subseteq> {d \<in> set (m_constraints g). below_of g d = above_of g c}) \<and>
     (\<forall>p \<in> set (m_constraints g). \<forall>c \<in> set (m_constraints g). Some (below_of g c) \<noteq> w \<longrightarrow> above_of g p = below_of g c \<longrightarrow>
        (p \<in> set (parents_of g c) \<longleftrightarrow> c \<in> set (children_of g p)) \<and>
        (below_of g p \<noteq> above_of g c \<longrightarrow> c \<in> set (children_of g p)))"

definition graph_ok :: "graph \<Rightarrow> bool" where
  "graph_ok g \<longleftrightarrow> live_ok g \<and> links_ok None g"

section \<open>Lemmas\<close>

definition cells_map :: "(stack_constraint \<Rightarrow> stack_constraint) \<Rightarrow> nat list \<Rightarrow> graph \<Rightarrow> nat \<Rightarrow> stack_constraint option" where
  "cells_map f cs g = (\<lambda>c. if c \<in> set cs then map_option f (cells g c) else cells g c)"

lemma each_cell_result:
  "distinct cs \<Longrightarrow> (\<And>c. c \<in> set cs \<Longrightarrow> cells g c \<noteq> None) \<Longrightarrow>
   each_cell f cs g = Some (g\<lparr>cells := cells_map f cs g\<rparr>)"
proof (induction cs arbitrary: g)
  case Nil
  then show ?case by (simp add: cells_map_def)
next
  case (Cons c cs)
  obtain k where k: "cells g c = Some k" using Cons.prems(2) by fastforce
  let ?g = "g\<lparr>cells := (cells g)(c \<mapsto> f k)\<rparr>"
  have "each_cell f cs ?g = Some (?g\<lparr>cells := cells_map f cs ?g\<rparr>)"
    using Cons.prems by (intro Cons.IH) auto
  moreover have "cells_map f cs ?g = cells_map f (c # cs) g"
    using Cons.prems(1) k by (auto simp: cells_map_def fun_eq_iff)
  ultimately show ?case using k by simp
qed

text \<open>The relation a constraint has to another depends on their windows only.\<close>

lemma links_okI:
  assumes "\<And>c. c \<in> set (m_constraints g) \<Longrightarrow> Some (below_of g c) \<noteq> w \<Longrightarrow> distinct (parents_of g c) \<and>
      set (parents_of g c) \<subseteq> {p \<in> set (m_constraints g). above_of g p = below_of g c}"
    and "\<And>c. c \<in> set (m_constraints g) \<Longrightarrow> Some (above_of g c) \<noteq> w \<Longrightarrow> distinct (children_of g c) \<and>
      set (children_of g c) \<subseteq> {d \<in> set (m_constraints g). below_of g d = above_of g c}"
    and "\<And>p c. p \<in> set (m_constraints g) \<Longrightarrow> c \<in> set (m_constraints g) \<Longrightarrow> Some (below_of g c) \<noteq> w \<Longrightarrow>
      above_of g p = below_of g c \<Longrightarrow> p \<in> set (parents_of g c) \<longleftrightarrow> c \<in> set (children_of g p)"
    and "\<And>p c. p \<in> set (m_constraints g) \<Longrightarrow> c \<in> set (m_constraints g) \<Longrightarrow> Some (below_of g c) \<noteq> w \<Longrightarrow>
      above_of g p = below_of g c \<Longrightarrow> below_of g p \<noteq> above_of g c \<Longrightarrow> c \<in> set (children_of g p)"
  shows "links_ok w g"
  unfolding links_ok_def using assms by blast

lemma links_okD:
  assumes "links_ok w g"
  shows "c \<in> set (m_constraints g) \<Longrightarrow> Some (below_of g c) \<noteq> w \<Longrightarrow> distinct (parents_of g c)"
    "c \<in> set (m_constraints g) \<Longrightarrow> Some (below_of g c) \<noteq> w \<Longrightarrow> p \<in> set (parents_of g c) \<Longrightarrow>
      p \<in> set (m_constraints g) \<and> above_of g p = below_of g c"
    "c \<in> set (m_constraints g) \<Longrightarrow> Some (above_of g c) \<noteq> w \<Longrightarrow> distinct (children_of g c)"
    "c \<in> set (m_constraints g) \<Longrightarrow> Some (above_of g c) \<noteq> w \<Longrightarrow> d \<in> set (children_of g c) \<Longrightarrow>
      d \<in> set (m_constraints g) \<and> below_of g d = above_of g c"
    "p \<in> set (m_constraints g) \<Longrightarrow> c \<in> set (m_constraints g) \<Longrightarrow> Some (below_of g c) \<noteq> w \<Longrightarrow>
      above_of g p = below_of g c \<Longrightarrow> p \<in> set (parents_of g c) \<longleftrightarrow> c \<in> set (children_of g p)"
    "p \<in> set (m_constraints g) \<Longrightarrow> c \<in> set (m_constraints g) \<Longrightarrow> Some (below_of g c) \<noteq> w \<Longrightarrow>
      above_of g p = below_of g c \<Longrightarrow> below_of g p \<noteq> above_of g c \<Longrightarrow> c \<in> set (children_of g p)"
  using assms unfolding links_ok_def by blast+

text \<open>Taking one constraint out of the list and out of the links.\<close>

lemma links_ok_remove:
  assumes ok: "links_ok w g" and ms: "set (m_constraints g') = set (m_constraints g) - {c}"
    and ba: "\<And>d. d \<in> set (m_constraints g) - {c} \<Longrightarrow> below_of g' d = below_of g d \<and> above_of g' d = above_of g d"
    and ps: "\<And>d. d \<in> set (m_constraints g) - {c} \<Longrightarrow> Some (below_of g d) \<noteq> w \<Longrightarrow> parents_of g' d = remove1 c (parents_of g d)"
    and ch: "\<And>d. d \<in> set (m_constraints g) - {c} \<Longrightarrow> Some (above_of g d) \<noteq> w \<Longrightarrow> children_of g' d = remove1 c (children_of g d)"
  shows "links_ok w g'"
proof (rule links_okI)
  note D = links_okD [OF ok]
  fix d assume "d \<in> set (m_constraints g')"
  then have d: "d \<in> set (m_constraints g) - {c}" using ms by simp
  {
    assume "Some (below_of g' d) \<noteq> w"
    then have b: "Some (below_of g d) \<noteq> w" using ba [OF d] by simp
    have "set (remove1 c (parents_of g d)) = set (parents_of g d) - {c}" using D(1) d b by simp
    then show "distinct (parents_of g' d) \<and> set (parents_of g' d) \<subseteq> {p \<in> set (m_constraints g'). above_of g' p = below_of g' d}"
      using D(1,2) [of d] d b ba ms unfolding ps [OF d b] by auto
  }
  {
    assume "Some (above_of g' d) \<noteq> w"
    then have b: "Some (above_of g d) \<noteq> w" using ba [OF d] by simp
    have "set (remove1 c (children_of g d)) = set (children_of g d) - {c}" using D(3) d b by simp
    then show "distinct (children_of g' d) \<and> set (children_of g' d) \<subseteq> {x \<in> set (m_constraints g'). below_of g' x = above_of g' d}"
      using D(3,4) [of d] d b ba ms unfolding ch [OF d b] by auto
  }
  fix p assume "p \<in> set (m_constraints g')" "Some (below_of g' d) \<noteq> w" "above_of g' p = below_of g' d"
  then have p: "p \<in> set (m_constraints g) - {c}" "Some (below_of g d) \<noteq> w" "above_of g p = below_of g d"
    "Some (above_of g p) \<noteq> w" using ms ba d by auto
  have n: "p \<noteq> c" "d \<noteq> c" using p d by auto
  have mem: "p \<in> set (parents_of g' d) \<longleftrightarrow> p \<in> set (parents_of g d)" "d \<in> set (children_of g' p) \<longleftrightarrow> d \<in> set (children_of g p)"
    unfolding ps [OF d p(2)] ch [OF p(1,4)] using n by (simp_all add: in_set_remove1)
  show "p \<in> set (parents_of g' d) \<longleftrightarrow> d \<in> set (children_of g' p)"
    unfolding mem using D(5) [of p d] p d by simp
  assume "below_of g' p \<noteq> above_of g' d"
  then show "d \<in> set (children_of g' p)" unfolding mem using D(6) [of p d] p d ba by simp
qed

lemma live_ok_remove:
  assumes "live_ok g" "set (m_constraints g') = set (m_constraints g) - {c}" "distinct (m_constraints g')"
    "next_cell g' = next_cell g"
    "\<And>d. d \<in> set (m_constraints g) - {c} \<Longrightarrow> cells g' d \<noteq> None \<and> below_of g' d = below_of g d \<and> above_of g' d = above_of g d"
  shows "live_ok g'"
  using assms unfolding live_ok_def inj_on_def by auto

lemma neighbours_result:
  assumes "\<And>c. c \<in> set cs \<Longrightarrow> cells g c \<noteq> None" "lower \<noteq> upper"
  shows "neighbours g lower upper cs parents children = Some
    (if \<exists>c \<in> set cs. below_of g c = lower \<and> above_of g c = upper then None
     else Some (parents @ filter (\<lambda>c. above_of g c = lower \<and> below_of g c \<noteq> upper) cs,
                children @ filter (\<lambda>c. below_of g c = upper) cs))"
  using assms(1)
proof (induction cs arbitrary: parents children)
  case (Cons c cs)
  obtain k where "cells g c = Some k" using Cons.prems by fastforce
  then show ?case using Cons.prems assms(2) by (auto simp: Cons.IH)
qed simp

lemma find_constraint_result:
  "(\<And>c. c \<in> set cs \<Longrightarrow> cells g c \<noteq> None) \<Longrightarrow>
   find_constraint g lower upper cs = Some (find (\<lambda>c. below_of g c = lower \<and> above_of g c = upper) cs)"
proof (induction cs)
  case (Cons c cs)
  obtain k where "cells g c = Some k" using Cons.prems by fastforce
  then show ?case using Cons by auto
qed simp

lemma cells_map_shape:
  assumes "\<And>k. c_below (f k) = c_below k" "\<And>k. c_above (f k) = c_above k" "cells g c \<noteq> None"
  shows "cells_map f cs g c \<noteq> None" "c_below (the (cells_map f cs g c)) = below_of g c"
    "c_above (the (cells_map f cs g c)) = above_of g c"
    "the (cells_map f cs g c) = (if c \<in> set cs then f (the (cells g c)) else the (cells g c))"
  using assms by (auto simp: cells_map_def)

section \<open>Every operation keeps the invariant\<close>

lemma graph_new_ok: "graph_ok graph_new"
  by (simp add: graph_ok_def live_ok_def links_ok_def graph_new_def)

lemma constrain_ok:
  assumes ok: "graph_ok g"
  shows "\<exists>b g'. constrain lower upper g = Some (b, g') \<and> graph_ok g' \<and>
    (b \<longleftrightarrow> lower \<noteq> upper \<and> \<not> (\<exists>c \<in> set (m_constraints g). below_of g c = lower \<and> above_of g c = upper)) \<and>
    (b \<longrightarrow> m_constraints g' = m_constraints g @ [next_cell g] \<and>
       below_of g' (next_cell g) = lower \<and> above_of g' (next_cell g) = upper \<and>
       (\<forall>c \<in> set (m_constraints g). below_of g' c = below_of g c \<and> above_of g' c = above_of g c)) \<and>
    (\<not> b \<longrightarrow> g' = g)"
proof (cases "lower = upper \<or> (\<exists>c \<in> set (m_constraints g). below_of g c = lower \<and> above_of g c = upper)")
  case True
  then show ?thesis using ok neighbours_result [of "m_constraints g" g lower upper]
    by (auto simp: constrain_def graph_ok_def live_ok_def)
next
  case False
  let ?ms = "m_constraints g" and ?c = "next_cell g"
  let ?ps = "filter (\<lambda>c. above_of g c = lower \<and> below_of g c \<noteq> upper) ?ms"
  let ?ds = "filter (\<lambda>c. below_of g c = upper) ?ms"
  let ?k = "\<lparr>c_below = lower, c_above = upper, c_parents = ?ps, c_children = ?ds, c_enqueued = False\<rparr>"
  let ?fp = "\<lambda>p. p\<lparr>c_children := c_children p @ [?c]\<rparr>" and ?fd = "\<lambda>d. d\<lparr>c_parents := c_parents d @ [?c]\<rparr>"
  define g1 where "g1 = \<lparr>m_constraints = ?ms @ [?c], cells = (cells g)(?c \<mapsto> ?k), next_cell = ?c + 1\<rparr>"
  define g2 where "g2 = g1\<lparr>cells := cells_map ?fp ?ps g1\<rparr>"
  define g3 where "g3 = g2\<lparr>cells := cells_map ?fd ?ds g2\<rparr>"
  have live: "distinct ?ms" "\<And>c. c \<in> set ?ms \<Longrightarrow> cells g c \<noteq> None" "\<And>c. c \<in> set ?ms \<Longrightarrow> c < ?c"
    "\<And>c. c \<in> set ?ms \<Longrightarrow> below_of g c \<noteq> above_of g c"
    "inj_on (\<lambda>c. (below_of g c, above_of g c)) (set ?ms)"
    using ok by (auto simp: graph_ok_def live_ok_def)
  have new: "?c \<notin> set ?ms" using live(3) by blast
  have n1: "neighbours g lower upper ?ms [] [] = Some (Some (?ps, ?ds))"
    using False live(2) neighbours_result [of ?ms g lower upper "[]" "[]"] by simp
  have g1c: "cells g1 c \<noteq> None" "c \<noteq> ?c" if "c \<in> set ?ms" for c
    using live(2) [OF that] live(3) [OF that] by (auto simp: g1_def)
  have n2: "each_cell ?fp ?ps g1 = Some g2"
    unfolding g2_def using live(1) g1c(1) by (intro each_cell_result) auto
  have n3: "each_cell ?fd ?ds g2 = Some g3"
    unfolding g3_def using live(1) g1c(1) by (intro each_cell_result) (auto simp: g2_def cells_map_def)
  have res: "constrain lower upper g = Some (True, g3)"
    unfolding constrain_def Let_def n1 bind.bind_lunit option.case prod.case g1_def [symmetric] n2 n3
    using False by simp
  have old: "the (cells g3 c) = (the (cells g c))
      \<lparr>c_children := c_children (the (cells g c)) @ (if c \<in> set ?ps then [?c] else []),
       c_parents := c_parents (the (cells g c)) @ (if c \<in> set ?ds then [?c] else [])\<rparr>"
    "cells g3 c \<noteq> None" if "c \<in> set ?ms" for c
    using live(2) [OF that] live(3) [OF that] by (auto simp: g3_def g2_def g1_def cells_map_def)
  have nc: "cells g3 ?c = Some ?k" using new by (auto simp: g3_def g2_def g1_def cells_map_def)
  have ms: "m_constraints g3 = ?ms @ [?c]" "next_cell g3 = ?c + 1" by (simp_all add: g3_def g2_def g1_def)
  have ba: "below_of g3 c = below_of g c" "above_of g3 c = above_of g c" if "c \<in> set ?ms" for c
    using old(1) [OF that] by simp_all
  have "live_ok g3"
    unfolding live_ok_def ms
  proof (intro conjI)
    show "inj_on (\<lambda>c. (below_of g3 c, above_of g3 c)) (set (?ms @ [?c]))"
      using live(5) False ba nc by (auto simp: inj_on_def)
  qed (use live new old(2) nc ba False in \<open>auto simp: less_SucI\<close>)
  moreover have "links_ok None g3"
  proof -
    note D = links_okD [OF ok [unfolded graph_ok_def, THEN conjunct2], simplified]
    have p: "parents_of g3 c = parents_of g c @ (if c \<in> set ?ds then [?c] else [])"
      and h: "children_of g3 c = children_of g c @ (if c \<in> set ?ps then [?c] else [])" if "c \<in> set ?ms" for c
      using old(1) [OF that] by simp_all
    have fresh: "?c \<notin> set (parents_of g c)" "?c \<notin> set (children_of g c)" if "c \<in> set ?ms" for c
      using D(2,4) [OF that] new by blast+
    have here: "parents_of g3 ?c = ?ps" "children_of g3 ?c = ?ds" "below_of g3 ?c = lower" "above_of g3 ?c = upper"
      using nc by simp_all
    show ?thesis
    proof (rule links_okI)
      fix c assume "c \<in> set (m_constraints g3)"
      then have c: "c = ?c \<or> c \<in> set ?ms" using ms(1) by auto
      show "distinct (parents_of g3 c) \<and> set (parents_of g3 c) \<subseteq> {p \<in> set (m_constraints g3). above_of g3 p = below_of g3 c}"
      proof (cases "c \<in> set ?ms")
        case True
        then show ?thesis using D(1,2) [OF True] fresh(1) [OF True] here(4) ba unfolding p [OF True] ms(1) by auto
      next
        case False
        then have "c = ?c" using c by simp
        then show ?thesis using live(1) here(1,3) ba unfolding ms(1) by auto
      qed
      show "distinct (children_of g3 c) \<and> set (children_of g3 c) \<subseteq> {d \<in> set (m_constraints g3). below_of g3 d = above_of g3 c}"
      proof (cases "c \<in> set ?ms")
        case True
        then show ?thesis using D(3,4) [OF True] fresh(2) [OF True] here(3) ba unfolding h [OF True] ms(1) by auto
      next
        case False
        then have "c = ?c" using c by simp
        then show ?thesis using live(1) here(2,4) ba unfolding ms(1) by auto
      qed
      fix q assume "q \<in> set (m_constraints g3)" and adj: "above_of g3 q = below_of g3 c"
      then have q: "q = ?c \<or> q \<in> set ?ms" using ms(1) by auto
      consider (both) "q \<in> set ?ms" "c \<in> set ?ms" | (fst) "q \<in> set ?ms" "c = ?c" | (snd) "q = ?c" "c \<in> set ?ms"
        | (self) "q = ?c" "c = ?c" using q c by blast
      then have "(q \<in> set (parents_of g3 c) \<longleftrightarrow> c \<in> set (children_of g3 q)) \<and>
          (below_of g3 q \<noteq> above_of g3 c \<longrightarrow> c \<in> set (children_of g3 q))"
      proof cases
        case both
        then have "above_of g q = below_of g c" "q \<noteq> ?c" "c \<noteq> ?c" using adj ba new by auto
        then show ?thesis using D(5,6) [OF both] p [OF both(2)] h [OF both(1)] ba both by auto
      next
        case fst
        then have "above_of g q = lower" using adj ba here(3) by simp
        then show ?thesis using fst here h [OF fst(1)] ba [OF fst(1)] fresh(2) [OF fst(1)] by auto
      next
        case snd
        then have "below_of g c = upper" using adj ba here(4) by simp
        then show ?thesis using snd here p [OF snd(2)] ba [OF snd(2)] fresh(1) [OF snd(2)] by auto
      next
        case self
        then show ?thesis using adj here False by simp
      qed
      then show "q \<in> set (parents_of g3 c) \<longleftrightarrow> c \<in> set (children_of g3 q)"
        and "below_of g3 q \<noteq> above_of g3 c \<Longrightarrow> c \<in> set (children_of g3 q)" by blast+
    qed
  qed
  ultimately have "graph_ok g3" by (simp add: graph_ok_def)
  then show ?thesis using res False ms ba nc by auto
qed

text \<open>Taking a constraint out of the list and out of the links of its neighbours.\<close>

lemma unconstrain_ok:
  assumes ok: "graph_ok g"
  shows "\<exists>b g'. unconstrain lower upper g = Some (b, g') \<and> graph_ok g' \<and> (\<not> b \<longrightarrow> g' = g) \<and>
    set (m_constraints g') = {c \<in> set (m_constraints g). \<not> (below_of g c = lower \<and> above_of g c = upper)} \<and>
    (\<forall>c \<in> set (m_constraints g'). below_of g' c = below_of g c \<and> above_of g' c = above_of g c)"
proof -
  let ?ms = "m_constraints g"
  let ?P = "\<lambda>c. below_of g c = lower \<and> above_of g c = upper"
  have live: "distinct ?ms" "\<And>c. c \<in> set ?ms \<Longrightarrow> cells g c \<noteq> None" "\<And>c. c \<in> set ?ms \<Longrightarrow> c < next_cell g"
    "\<And>c. c \<in> set ?ms \<Longrightarrow> below_of g c \<noteq> above_of g c"
    "inj_on (\<lambda>c. (below_of g c, above_of g c)) (set ?ms)"
    using ok by (auto simp: graph_ok_def live_ok_def)
  have found: "find_constraint g lower upper ?ms = Some (find ?P ?ms)"
    using live(2) by (rule find_constraint_result)
  show ?thesis
  proof (cases "find ?P ?ms")
    case None
    then have "\<forall>c \<in> set ?ms. \<not> ?P c" by (simp add: find_None_iff)
    then show ?thesis using found None ok by (auto simp: unconstrain_def)
  next
    case (Some c)
    then have c: "c \<in> set ?ms" "?P c" by (auto simp: find_Some_iff in_set_conv_nth)
    obtain k where k: "cells g c = Some k" using live(2) [OF c(1)] by blast
    have only: "d \<in> set ?ms \<Longrightarrow> ?P d \<Longrightarrow> d = c" for d using live(5) c by (auto simp: inj_on_def)
    let ?fp = "\<lambda>p. p\<lparr>c_children := remove1 c (c_children p)\<rparr>" and ?fd = "\<lambda>d. d\<lparr>c_parents := remove1 c (c_parents d)\<rparr>"
    define g1 where "g1 = g\<lparr>m_constraints := remove1 c ?ms\<rparr>"
    define g2 where "g2 = g1\<lparr>cells := cells_map ?fp (c_parents k) g1\<rparr>"
    define g3 where "g3 = g2\<lparr>cells := cells_map ?fd (c_children k) g2\<rparr>"
    define g4 where "g4 = g3\<lparr>cells := (cells g3)(c := None)\<rparr>"
    have links: "distinct (c_parents k)" "distinct (c_children k)" "set (c_parents k) \<subseteq> set ?ms" "set (c_children k) \<subseteq> set ?ms"
      using ok c(1) k unfolding graph_ok_def links_ok_def by fastforce+
    have n2: "each_cell ?fp (c_parents k) g1 = Some g2"
      unfolding g2_def using links live(2) by (intro each_cell_result) (auto simp: g1_def)
    have n3: "each_cell ?fd (c_children k) g2 = Some g3"
      unfolding g3_def using links live(2) by (intro each_cell_result) (auto simp: g2_def g1_def cells_map_def)
    have res: "unconstrain lower upper g = Some (True, g4)"
      unfolding unconstrain_def found bind.bind_lunit Some option.case k g1_def [symmetric] n2 n3 g4_def by simp
    have ms: "m_constraints g4 = remove1 c ?ms" "next_cell g4 = next_cell g" by (simp_all add: g4_def g3_def g2_def g1_def)
    have set_ms: "set (m_constraints g4) = set ?ms - {c}" "distinct (m_constraints g4)" using live(1) ms by simp_all
    have old: "the (cells g4 d) = (the (cells g d))
        \<lparr>c_children := (if d \<in> set (c_parents k) then remove1 c (c_children (the (cells g d))) else c_children (the (cells g d))),
         c_parents := (if d \<in> set (c_children k) then remove1 c (c_parents (the (cells g d))) else c_parents (the (cells g d)))\<rparr>"
      "cells g4 d \<noteq> None" if "d \<in> set ?ms - {c}" for d
      using live(2) [of d] that by (auto simp: g4_def g3_def g2_def g1_def cells_map_def)
    have ba: "below_of g4 d = below_of g d" "above_of g4 d = above_of g d" if "d \<in> set ?ms - {c}" for d
      using old(1) [OF that] by simp_all
    have "live_ok g4"
      by (rule live_ok_remove [of g g4 c]) (use ok set_ms ms(2) old(2) ba in \<open>auto simp: graph_ok_def\<close>)
    moreover have "links_ok None g4"
    proof (rule links_ok_remove [OF _ set_ms(1)])
      show g: "links_ok None g" using ok by (simp add: graph_ok_def)
      note D = links_okD [OF g, simplified]
      fix d assume d: "d \<in> set ?ms - {c}"
      show "below_of g4 d = below_of g d \<and> above_of g4 d = above_of g d" using ba [OF d] by simp
      have "c \<notin> set (parents_of g d)" if "d \<notin> set (c_children k)"
        using D(2) [of d c] D(5) [OF c(1), of d] that d k by auto
      then show "parents_of g4 d = remove1 c (parents_of g d)" using old(1) [OF d] by (auto simp: remove1_idem)
      have "c \<notin> set (children_of g d)" if "d \<notin> set (c_parents k)"
        using D(4) [of d c] D(5) [OF _ c(1), of d] that d k by auto
      then show "children_of g4 d = remove1 c (children_of g d)" using old(1) [OF d] by (auto simp: remove1_idem)
    qed
    ultimately have ok4: "graph_ok g4" by (simp add: graph_ok_def)
    have set4: "set (m_constraints g4) = {c \<in> set ?ms. \<not> ?P c}" unfolding set_ms(1) using only c by blast
    have "\<forall>d \<in> set (m_constraints g4). below_of g4 d = below_of g d \<and> above_of g4 d = above_of g d"
      using ba set_ms(1) by blast
    then show ?thesis using res ok4 set4 by (intro exI [of _ True] exI [of _ g4] conjI) simp_all
  qed
qed

text \<open>
  The loop of \<open>removeFromStack\<close>. Only links to constraints of the removed window can be stale, and those
  are not followed.
\<close>

definition mentions :: "graph \<Rightarrow> nat \<Rightarrow> nat \<Rightarrow> bool" where
  "mentions g w c \<longleftrightarrow> below_of g c = w \<or> above_of g c = w"

lemma drop_step:
  assumes live: "live_ok g" and links: "links_ok (Some w) g" and c: "c \<in> set (m_constraints g)" and m: "mentions g w c"
    and k: "cells g c = Some k"
  shows "\<exists>g1. (if c_below k = w
      then each_cell (\<lambda>d. d\<lparr>c_parents := remove1 c (c_parents d)\<rparr>) (c_children k) g
      else each_cell (\<lambda>p. p\<lparr>c_children := remove1 c (c_children p)\<rparr>) (c_parents k) g) = Some g1 \<and>
    m_constraints g1 = m_constraints g \<and>
    (\<forall>g'. g' = g1\<lparr>m_constraints := remove1 c (m_constraints g1), cells := (cells g1)(c := None)\<rparr> \<longrightarrow>
       live_ok g' \<and> links_ok (Some w) g' \<and>
       (\<forall>d \<in> set (m_constraints g'). below_of g' d = below_of g d \<and> above_of g' d = above_of g d))"
proof -
  let ?ms = "m_constraints g"
  note D = links_okD [OF links]
  have l: "distinct ?ms" "\<And>d. d \<in> set ?ms \<Longrightarrow> cells g d \<noteq> None" "below_of g c \<noteq> above_of g c"
    using live c by (auto simp: live_ok_def)
  let ?fp = "\<lambda>p. p\<lparr>c_children := remove1 c (c_children p)\<rparr>" and ?fd = "\<lambda>d. d\<lparr>c_parents := remove1 c (c_parents d)\<rparr>"
  define g1 where "g1 = (if c_below k = w then g\<lparr>cells := cells_map ?fd (c_children k) g\<rparr>
    else g\<lparr>cells := cells_map ?fp (c_parents k) g\<rparr>)"
  define g' where "g' = g1\<lparr>m_constraints := remove1 c (m_constraints g1), cells := (cells g1)(c := None)\<rparr>"
  have kc: "below_of g c = c_below k" "above_of g c = c_above k" "parents_of g c = c_parents k" "children_of g c = c_children k"
    using k by simp_all
  have sub: "c_below k = w \<Longrightarrow> distinct (c_children k) \<and> set (c_children k) \<subseteq> set ?ms"
    "c_below k \<noteq> w \<Longrightarrow> distinct (c_parents k) \<and> set (c_parents k) \<subseteq> set ?ms"
    using D(1-4) [OF c] kc l(3) by auto
  have res: "(if c_below k = w then each_cell ?fd (c_children k) g else each_cell ?fp (c_parents k) g) = Some g1"
  proof (cases "c_below k = w")
    case True
    then have "each_cell ?fd (c_children k) g = Some (g\<lparr>cells := cells_map ?fd (c_children k) g\<rparr>)"
      using sub(1) l(2) by (intro each_cell_result) auto
    then show ?thesis using True by (simp add: g1_def)
  next
    case False
    then have "each_cell ?fp (c_parents k) g = Some (g\<lparr>cells := cells_map ?fp (c_parents k) g\<rparr>)"
      using sub(2) l(2) by (intro each_cell_result) auto
    then show ?thesis using False by (simp add: g1_def)
  qed
  have ms: "m_constraints g1 = ?ms" "next_cell g' = next_cell g" by (simp_all add: g1_def g'_def)
  have set_ms: "set (m_constraints g') = set ?ms - {c}" "distinct (m_constraints g')"
    using l(1) by (simp_all add: g'_def ms(1))
  have cell: "cells g' d = (if c_below k = w then cells_map ?fd (c_children k) g d else cells_map ?fp (c_parents k) g d)"
    if "d \<noteq> c" for d using that by (simp add: g'_def g1_def)
  have ba: "cells g' d \<noteq> None \<and> below_of g' d = below_of g d \<and> above_of g' d = above_of g d" if "d \<in> set ?ms - {c}" for d
    using l(2) [of d] that by (auto simp: cell cells_map_def)
  have "live_ok g'" by (rule live_ok_remove [OF live set_ms ms(2) ba])
  moreover have "links_ok (Some w) g'"
  proof (rule links_ok_remove [OF links set_ms(1)])
    fix d assume d: "d \<in> set ?ms - {c}"
    show "below_of g' d = below_of g d \<and> above_of g' d = above_of g d" using ba [OF d] by simp
    {
      assume b: "Some (below_of g d) \<noteq> Some w"
      have "c \<notin> set (parents_of g d)" if "c_below k \<noteq> w \<or> d \<notin> set (c_children k)"
      proof
        assume cp: "c \<in> set (parents_of g d)"
        then have "above_of g c = below_of g d" using D(2) [of d c] d b by blast
        then show False using D(5) [of c d] c d b cp m that kc unfolding mentions_def by auto
      qed
      then show "parents_of g' d = remove1 c (parents_of g d)"
        using l(2) [of d] d by (auto simp: cell cells_map_def remove1_idem)
    }
    {
      assume b: "Some (above_of g d) \<noteq> Some w"
      have "c \<notin> set (children_of g d)" if "c_below k = w \<or> d \<notin> set (c_parents k)"
      proof
        assume cp: "c \<in> set (children_of g d)"
        then have e: "above_of g d = below_of g c" using D(4) [of d c] d b by (metis DiffD1)
        then have w: "c_below k \<noteq> w" using b kc(1) by (metis option.inject)
        then have "d \<notin> set (parents_of g c)" using that kc(3) by simp
        moreover have "Some (below_of g c) \<noteq> Some w" using w kc(1) by simp
        ultimately show False using D(5) [OF _ c _ e] d cp by simp
      qed
      then show "children_of g' d = remove1 c (children_of g d)"
        using l(2) [of d] d by (auto simp: cell cells_map_def remove1_idem)
    }
  qed
  moreover have "\<forall>d \<in> set (m_constraints g'). below_of g' d = below_of g d \<and> above_of g' d = above_of g d"
    using ba set_ms(1) by blast
  ultimately show ?thesis
    by (intro exI [of _ g1] conjI allI impI res ms(1)) (simp_all only: g'_def)
qed

lemma remove1_nth: "distinct xs \<Longrightarrow> i < length xs \<Longrightarrow> take i xs @ drop (i + 1) xs = remove1 (xs ! i) xs"
proof (induction xs arbitrary: i)
  case (Cons x xs)
  then show ?case by (cases i) auto
qed simp

lemma drop_constraints_ok:
  assumes "live_ok g" "links_ok (Some w) g" "i \<le> length (m_constraints g)"
    and "\<forall>c \<in> set (drop i (m_constraints g)). \<not> mentions g w c"
  shows "\<exists>g'. drop_constraints w i g = Some g' \<and> live_ok g' \<and> links_ok (Some w) g' \<and>
    set (m_constraints g') = {c \<in> set (m_constraints g). \<not> mentions g w c} \<and>
    (\<forall>c \<in> set (m_constraints g'). below_of g' c = below_of g c \<and> above_of g' c = above_of g c)"
  using assms
proof (induction i arbitrary: g)
  case 0
  then show ?case by auto
next
  case (Suc i)
  let ?ms = "m_constraints g"
  define c where "c = ?ms ! i"
  have i: "i < length ?ms" using Suc.prems(3) by simp
  then have c: "c \<in> set ?ms" by (simp add: c_def)
  then obtain k where k: "cells g c = Some k" using Suc.prems(1) by (auto simp: live_ok_def)
  have drop: "drop i ?ms = c # drop (Suc i) ?ms" using i by (simp add: c_def Cons_nth_drop_Suc)
  show ?case
  proof (cases "mentions g w c")
    case False
    then have step: "drop_constraints w (Suc i) g = drop_constraints w i g"
      using k by (simp add: c_def [symmetric] Let_def mentions_def)
    have "\<forall>c \<in> set (drop i ?ms). \<not> mentions g w c" using Suc.prems(4) False unfolding drop by simp
    then show ?thesis unfolding step using Suc.prems i by (intro Suc.IH) simp_all
  next
    case True
    have d: "distinct ?ms" using Suc.prems(1) by (simp add: live_ok_def)
    obtain g1 where g1: "(if c_below k = w
        then each_cell (\<lambda>d. d\<lparr>c_parents := remove1 c (c_parents d)\<rparr>) (c_children k) g
        else each_cell (\<lambda>p. p\<lparr>c_children := remove1 c (c_children p)\<rparr>) (c_parents k) g) = Some g1"
      "m_constraints g1 = ?ms"
      and g': "\<And>g'. g' = g1\<lparr>m_constraints := remove1 c (m_constraints g1), cells := (cells g1)(c := None)\<rparr> \<Longrightarrow>
         live_ok g' \<and> links_ok (Some w) g' \<and>
         (\<forall>d \<in> set (m_constraints g'). below_of g' d = below_of g d \<and> above_of g' d = above_of g d)"
      using drop_step [OF Suc.prems(1,2) c True k] by blast
    define g2 where "g2 = g1\<lparr>m_constraints := remove1 c (m_constraints g1), cells := (cells g1)(c := None)\<rparr>"
    note ok2 = g' [OF g2_def]
    have rm: "remove1 c ?ms = take i ?ms @ drop (i + 1) ?ms" using remove1_nth [OF d i] by (simp add: c_def)
    have ms2: "m_constraints g2 = remove1 c ?ms" by (simp add: g2_def g1(2))
    have step: "drop_constraints w (Suc i) g = drop_constraints w i g2"
    proof -
      have "\<not> (c_below k \<noteq> w \<and> c_above k \<noteq> w)" using True k by (auto simp: mentions_def)
      then show ?thesis
        unfolding drop_constraints.simps Let_def c_def [symmetric] k bind.bind_lunit g1(1)
        unfolding g2_def g1(2) rm by (simp only: if_False not_False_eq_True)
    qed
    have "set (m_constraints g2) = set ?ms - {c}" using d ms2 by simp
    then have same: "mentions g2 w x = mentions g w x" if "x \<in> set ?ms - {c}" for x
      using ok2 that by (simp add: mentions_def)
    have "drop i (m_constraints g2) = drop (Suc i) ?ms" unfolding ms2 rm using i by simp
    moreover have "c \<notin> set (drop (Suc i) ?ms)" using d drop by (metis distinct.simps(2) distinct_drop)
    ultimately have "\<forall>x \<in> set (drop i (m_constraints g2)). \<not> mentions g2 w x"
      using Suc.prems(4) same by (auto dest: in_set_dropD)
    moreover have "i \<le> length (m_constraints g2)" unfolding ms2 rm using i by simp
    ultimately obtain g3 where g3: "drop_constraints w i g2 = Some g3" "live_ok g3" "links_ok (Some w) g3"
      "set (m_constraints g3) = {x \<in> set (m_constraints g2). \<not> mentions g2 w x}"
      "\<forall>x \<in> set (m_constraints g3). below_of g3 x = below_of g2 x \<and> above_of g3 x = above_of g2 x"
      using Suc.IH [of g2] ok2 by blast
    have "set (m_constraints g3) = {x \<in> set ?ms. \<not> mentions g w x}"
      unfolding g3(4) using \<open>set (m_constraints g2) = set ?ms - {c}\<close> same True by auto
    moreover have "\<forall>x \<in> set (m_constraints g3). below_of g3 x = below_of g x \<and> above_of g3 x = above_of g x"
      using g3(4,5) ok2 by auto
    ultimately show ?thesis unfolding step using g3 by blast
  qed
qed

definition remove_constraints :: "nat \<Rightarrow> graph \<Rightarrow> graph option" where
  "remove_constraints window g = drop_constraints window (length (m_constraints g)) g"

lemma remove_constraints_ok:
  assumes ok: "graph_ok g"
  shows "\<exists>g'. remove_constraints w g = Some g' \<and> graph_ok g' \<and>
    set (m_constraints g') = {c \<in> set (m_constraints g). below_of g c \<noteq> w \<and> above_of g c \<noteq> w} \<and>
    (\<forall>c \<in> set (m_constraints g'). below_of g' c = below_of g c \<and> above_of g' c = above_of g c)"
proof -
  have "links_ok (Some w) g" using ok unfolding graph_ok_def links_ok_def by blast
  then obtain g' where g': "remove_constraints w g = Some g'" "live_ok g'" "links_ok (Some w) g'"
    "set (m_constraints g') = {c \<in> set (m_constraints g). \<not> mentions g w c}"
    "\<forall>c \<in> set (m_constraints g'). below_of g' c = below_of g c \<and> above_of g' c = above_of g c"
    using drop_constraints_ok [of g w "length (m_constraints g)"] ok
    by (auto simp: remove_constraints_def graph_ok_def)
  have none: "below_of g' c \<noteq> w" "above_of g' c \<noteq> w" if "c \<in> set (m_constraints g')" for c
    using that g'(4,5) by (auto simp: mentions_def)
  have "links_ok None g'"
  proof (rule links_okI)
    note D = links_okD [OF g'(3)]
    have n: "Some (below_of g' c) \<noteq> Some w" "Some (above_of g' c) \<noteq> Some w" if "c \<in> set (m_constraints g')" for c
      using none that by simp_all
    fix c assume c: "c \<in> set (m_constraints g')"
    show "distinct (parents_of g' c) \<and> set (parents_of g' c) \<subseteq> {p \<in> set (m_constraints g'). above_of g' p = below_of g' c}"
      using D(1,2) [OF c n(1) [OF c]] by blast
    show "distinct (children_of g' c) \<and> set (children_of g' c) \<subseteq> {d \<in> set (m_constraints g'). below_of g' d = above_of g' c}"
      using D(3,4) [OF c n(2) [OF c]] by blast
    fix p assume p: "p \<in> set (m_constraints g')" "above_of g' p = below_of g' c"
    show "p \<in> set (parents_of g' c) \<longleftrightarrow> c \<in> set (children_of g' p)" using D(5) [OF p(1) c n(1) [OF c] p(2)] .
    show "below_of g' p \<noteq> above_of g' c \<Longrightarrow> c \<in> set (children_of g' p)" using D(6) [OF p(1) c n(1) [OF c] p(2)] .
  qed
  then show ?thesis using g' by (auto simp: graph_ok_def mentions_def)
qed

end
