(* ===== verification/Stacking.thy ===== *)
theory Stacking
  imports Constraints "HOL-Library.Multiset"
begin

text \<open>
  \<open>Workspace::constrainedStackingOrder\<close> of \<open>src/kde-kwin/src/layers.cpp\<close>: windows in the order of their
  layers, stably, and then the stacking constraints, applied from the root constraints on in breadth-first
  order. Windows are identities. \<open>std::sort\<close> does not say how it orders equal elements, so the sorting of
  constraints is an argument (\<open>sorter\<close>, with the index that is compared as its key), of which
  \<open>sorter_ok\<close> states what \<open>std::sort\<close> promises.

  The loop over the queue is a partial function; that it returns is proved from the invariant of the
  constraint graph.
\<close>

section \<open>Layers\<close>

datatype layer =
    DesktopLayer
  | BelowLayer
  | NormalLayer
  | AboveLayer
  | NotificationLayer
  | ActiveLayer
  | PopupLayer
  | CriticalNotificationLayer
  | OnScreenDisplayLayer
  | OverlayLayer

fun layer_number :: "layer \<Rightarrow> nat" where
  "layer_number DesktopLayer = 0"
| "layer_number BelowLayer = 1"
| "layer_number NormalLayer = 2"
| "layer_number AboveLayer = 3"
| "layer_number NotificationLayer = 4"
| "layer_number ActiveLayer = 5"
| "layer_number PopupLayer = 6"
| "layer_number CriticalNotificationLayer = 7"
| "layer_number OnScreenDisplayLayer = 8"
| "layer_number OverlayLayer = 9"

instantiation layer :: linorder
begin

definition less_eq_layer :: "layer \<Rightarrow> layer \<Rightarrow> bool" where
  "less_eq_layer a b \<longleftrightarrow> layer_number a \<le> layer_number b"

definition less_layer :: "layer \<Rightarrow> layer \<Rightarrow> bool" where
  "less_layer a b \<longleftrightarrow> layer_number a < layer_number b"

instance
proof
  fix a b c :: layer
  show "a < b \<longleftrightarrow> a \<le> b \<and> \<not> b \<le> a" by (auto simp: less_eq_layer_def less_layer_def)
  show "a \<le> a" by (simp add: less_eq_layer_def)
  show "a \<le> b \<Longrightarrow> b \<le> c \<Longrightarrow> a \<le> c" by (simp add: less_eq_layer_def)
  show "a \<le> b \<Longrightarrow> b \<le> a \<Longrightarrow> a = b" by (cases a; cases b) (simp_all add: less_eq_layer_def)
  show "a \<le> b \<or> b \<le> a" by (auto simp: less_eq_layer_def)
qed

end

definition NumLayers :: nat where
  "NumLayers = 10"

lemma layer_number_less: "layer_number l < NumLayers"
  by (cases l) (simp_all add: NumLayers_def)

text \<open>The windows of each layer in turn.\<close>

definition layered :: "(nat \<Rightarrow> layer) \<Rightarrow> nat list \<Rightarrow> nat list" where
  "layered layer_of order =
     concat (map (\<lambda>n. filter (\<lambda>w. layer_number (layer_of w) = n) order) [0..<NumLayers])"

section \<open>Applying the constraints\<close>

definition set_enqueued :: "nat \<Rightarrow> bool \<Rightarrow> graph \<Rightarrow> graph option" where
  "set_enqueued c b g = do {
     k \<leftarrow> cells g c;
     Some (g\<lparr>cells := (cells g)(c \<mapsto> k\<lparr>c_enqueued := b\<rparr>)\<rparr>)
   }"

fun enqueue_roots :: "nat list \<Rightarrow> nat list \<Rightarrow> graph \<Rightarrow> (nat list \<times> graph) option" where
  "enqueue_roots [] queue g = Some (queue, g)"
| "enqueue_roots (c # cs) queue g = do {
     k \<leftarrow> cells g c;
     if c_parents k = []
     then do { g' \<leftarrow> set_enqueued c True g; enqueue_roots cs (queue @ [c]) g' }
     else do { g' \<leftarrow> set_enqueued c False g; enqueue_roots cs queue g' }
   }"

fun enqueue_children :: "nat list \<Rightarrow> nat list \<Rightarrow> graph \<Rightarrow> (nat list \<times> graph) option" where
  "enqueue_children [] queue g = Some (queue, g)"
| "enqueue_children (c # cs) queue g = do {
     k \<leftarrow> cells g c;
     if c_enqueued k then enqueue_children cs queue g
     else do { g' \<leftarrow> set_enqueued c True g; enqueue_children cs (queue @ [c]) g' }
   }"

text \<open>\<open>indexOf\<close> of the upper window of a constraint, which the comparator looks at.\<close>

definition above_index_in :: "graph \<Rightarrow> nat list \<Rightarrow> nat \<Rightarrow> int" where
  "above_index_in g stacking c = index_of stacking (above_of g c)"

text \<open>A window above another one: \<open>removeAt(aboveIndex)\<close> and \<open>insert(belowIndex, above)\<close>.\<close>

definition move_above :: "nat \<Rightarrow> nat \<Rightarrow> nat list \<Rightarrow> nat list" where
  "move_above lower upper stacking =
     (let belowIndex = index_of stacking lower; aboveIndex = index_of stacking upper
      in if aboveIndex < belowIndex
         then insert_at (nat belowIndex) upper
                (take (nat aboveIndex) stacking @ drop (nat aboveIndex + 1) stacking)
         else stacking)"

partial_function (option) apply_constraints ::
    "((nat \<Rightarrow> int) \<Rightarrow> nat list \<Rightarrow> nat list) \<Rightarrow> nat list \<Rightarrow> nat list \<Rightarrow> graph \<Rightarrow> (nat list \<times> graph) option" where
  "apply_constraints sorter queue stacking g =
     (case queue of
        [] \<Rightarrow> Some (stacking, g)
      | c # rest \<Rightarrow> do {
          k \<leftarrow> cells g c;
          if index_of stacking (c_below k) = -1 \<or> index_of stacking (c_above k) = -1
          then apply_constraints sorter rest stacking g
          else do {
            let stacking' = move_above (c_below k) (c_above k) stacking;
            (queue', g') \<leftarrow> enqueue_children (sorter (above_index_in g stacking') (c_children k)) rest g;
            apply_constraints sorter queue' stacking' g'
          }
        })"

definition constrainedStackingOrder ::
    "((nat \<Rightarrow> int) \<Rightarrow> nat list \<Rightarrow> nat list) \<Rightarrow> (nat \<Rightarrow> layer) \<Rightarrow> nat list \<Rightarrow> graph \<Rightarrow> (nat list \<times> graph) option" where
  "constrainedStackingOrder sorter layer_of order g = do {
     let stacking = layered layer_of order;
     (roots, g') \<leftarrow> enqueue_roots (m_constraints g) [] g;
     apply_constraints sorter (sorter (above_index_in g' stacking) roots) stacking g'
   }"

text \<open>\<open>std::sort\<close> with a comparator that puts the larger key first.\<close>

definition sorter_ok :: "((nat \<Rightarrow> int) \<Rightarrow> nat list \<Rightarrow> nat list) \<Rightarrow> bool" where
  "sorter_ok sorter \<longleftrightarrow>
     (\<forall>key cs. mset (sorter key cs) = mset cs \<and> sorted (map (\<lambda>c. - key c) (sorter key cs)))"

definition stable_sorter :: "(nat \<Rightarrow> int) \<Rightarrow> nat list \<Rightarrow> nat list" where
  "stable_sorter key cs = sort_key (\<lambda>c. - key c) cs"

lemma stable_sorter_ok: "sorter_ok stable_sorter"
  by (simp add: sorter_ok_def stable_sorter_def)

lemma sorter_perm:
  assumes "sorter_ok sorter"
  shows "set (sorter key cs) = set cs" "distinct (sorter key cs) = distinct cs"
  using assms by (auto simp: sorter_ok_def dest: mset_eq_setD mset_eq_imp_distinct_iff)

section \<open>Layers are a stable sort\<close>

lemma filter_concat_layers:
  "filter (\<lambda>w. f w = k) (concat (map (\<lambda>n. filter (\<lambda>w. f w = n) xs) [0..<m])) =
   (if k < m then filter (\<lambda>w. f w = k) xs else [])"
proof (induction m)
  case (Suc m)
  have "filter (\<lambda>w. f w = k) (filter (\<lambda>w. f w = m) xs) = (if k = m then filter (\<lambda>w. f w = k) xs else [])"
    by (auto simp: filter_empty_conv)
  then show ?case using Suc by auto
qed simp

lemma mset_concat_layers:
  "(\<And>w. w \<in> set xs \<Longrightarrow> f w < m) \<Longrightarrow> mset (concat (map (\<lambda>n. filter (\<lambda>w. f w = n) xs) [0..<m])) = mset xs"
proof -
  have "mset (concat (map (\<lambda>n. filter (\<lambda>w. f w = n) xs) [0..<m])) = filter_mset (\<lambda>w. f w < m) (mset xs)" for m
  proof (induction m)
    case (Suc m)
    have "filter_mset (\<lambda>w. f w < Suc m) (mset xs) = filter_mset (\<lambda>w. f w < m) (mset xs) + filter_mset (\<lambda>w. f w = m) (mset xs)"
      by (induction xs) auto
    then show ?case using Suc by simp
  qed simp
  moreover assume "\<And>w. w \<in> set xs \<Longrightarrow> f w < m"
  then have "filter_mset (\<lambda>w. f w < m) (mset xs) = mset xs" by (simp add: filter_mset_eq_conv)
  ultimately show ?thesis by simp
qed

lemma sorted_concat_layers: "sorted (map f (concat (map (\<lambda>n. filter (\<lambda>w. f w = n) xs) [0..<m])))"
proof (induction m)
  case (Suc m)
  have "sorted (map f (filter (\<lambda>w. f w = m) xs))" by (induction xs) auto
  then show ?case using Suc by (auto simp: sorted_append)
qed simp

lemma layered_eq_sort: "layered layer_of order = sort_key (\<lambda>w. layer_number (layer_of w)) order"
proof (rule properties_for_sort_key [symmetric])
  let ?f = "\<lambda>w. layer_number (layer_of w)"
  show "mset (layered layer_of order) = mset order"
    unfolding layered_def by (rule mset_concat_layers) (rule layer_number_less)
  show "sorted (map ?f (layered layer_of order))"
    unfolding layered_def by (rule sorted_concat_layers)
  fix w
  show "filter (\<lambda>x. ?f w = ?f x) (layered layer_of order) = filter (\<lambda>x. ?f w = ?f x) order"
    using filter_concat_layers [of ?f "?f w" order NumLayers] layer_number_less [of "layer_of w"]
    by (simp add: layered_def eq_commute [of "?f w"])
qed

lemma layered_perm: "mset (layered layer_of order) = mset order"
  by (simp add: layered_eq_sort)

section \<open>The flags\<close>

text \<open>Two graphs that differ in their \<open>enqueued\<close> flags only.\<close>

definition same_graph :: "graph \<Rightarrow> graph \<Rightarrow> bool" where
  "same_graph g g' \<longleftrightarrow> m_constraints g' = m_constraints g \<and> next_cell g' = next_cell g \<and>
     (\<forall>c. map_option (\<lambda>k. k\<lparr>c_enqueued := False\<rparr>) (cells g' c) = map_option (\<lambda>k. k\<lparr>c_enqueued := False\<rparr>) (cells g c))"

abbreviation enqueued :: "graph \<Rightarrow> nat \<Rightarrow> bool" where
  "enqueued g c \<equiv> c_enqueued (the (cells g c))"

lemma same_graph_refl [simp]: "same_graph g g"
  by (simp add: same_graph_def)

lemma same_graph_trans: "same_graph a b \<Longrightarrow> same_graph b c \<Longrightarrow> same_graph a c"
  by (simp add: same_graph_def)

lemma same_graphD:
  assumes "same_graph g g'"
  shows "m_constraints g' = m_constraints g" "next_cell g' = next_cell g"
    "cells g' c = None \<longleftrightarrow> cells g c = None"
    "cells g c \<noteq> None \<Longrightarrow> below_of g' c = below_of g c" "cells g c \<noteq> None \<Longrightarrow> above_of g' c = above_of g c"
    "cells g c \<noteq> None \<Longrightarrow> parents_of g' c = parents_of g c" "cells g c \<noteq> None \<Longrightarrow> children_of g' c = children_of g c"
proof -
  have c: "map_option (\<lambda>k. k\<lparr>c_enqueued := False\<rparr>) (cells g' c) = map_option (\<lambda>k. k\<lparr>c_enqueued := False\<rparr>) (cells g c)"
    using assms by (simp add: same_graph_def)
  show "m_constraints g' = m_constraints g" "next_cell g' = next_cell g" using assms by (simp_all add: same_graph_def)
  show "cells g' c = None \<longleftrightarrow> cells g c = None" using c by (cases "cells g c"; cases "cells g' c") auto
  assume n: "cells g c \<noteq> None"
  then obtain k k' where k: "cells g c = Some k" "cells g' c = Some k'" using c by (cases "cells g' c") auto
  have e: "k'\<lparr>c_enqueued := False\<rparr> = k\<lparr>c_enqueued := False\<rparr>" using c by (simp add: k)
  have "c_below k' = c_below k" "c_above k' = c_above k" "c_parents k' = c_parents k" "c_children k' = c_children k"
    using arg_cong [OF e, of c_below] arg_cong [OF e, of c_above] arg_cong [OF e, of c_parents] arg_cong [OF e, of c_children]
    by simp_all
  then show "below_of g' c = below_of g c" "above_of g' c = above_of g c" "parents_of g' c = parents_of g c"
    "children_of g' c = children_of g c" by (simp_all add: k)
qed

lemma same_graph_ok:
  assumes s: "same_graph g g'" and ok: "graph_ok g"
  shows "graph_ok g'"
proof -
  note S = same_graphD [OF s]
  have live: "live_ok g" and links: "links_ok None g" using ok by (simp_all add: graph_ok_def)
  have n: "cells g c \<noteq> None" if "c \<in> set (m_constraints g)" for c using live that by (simp add: live_ok_def)
  have "inj_on (\<lambda>c. (below_of g' c, above_of g' c)) (set (m_constraints g)) =
      inj_on (\<lambda>c. (below_of g c, above_of g c)) (set (m_constraints g))"
    using n by (intro inj_on_cong) (simp add: S(4,5))
  then have "live_ok g'" using live n unfolding live_ok_def S(1,2) by (auto simp: S(3-5))
  moreover have "links_ok None g'"
  proof (rule links_okI)
    note D = links_okD [OF links, simplified]
    fix c assume "c \<in> set (m_constraints g')"
    then have c: "c \<in> set (m_constraints g)" by (simp add: S(1))
    note cs = S(4-7) [OF n [OF c]]
    show "distinct (parents_of g' c) \<and> set (parents_of g' c) \<subseteq> {p \<in> set (m_constraints g'). above_of g' p = below_of g' c}"
      using D(1,2) [OF c] n unfolding cs S(1) by (auto simp: S(5))
    show "distinct (children_of g' c) \<and> set (children_of g' c) \<subseteq> {d \<in> set (m_constraints g'). below_of g' d = above_of g' c}"
      using D(3,4) [OF c] n unfolding cs S(1) by (auto simp: S(4))
    fix p assume "p \<in> set (m_constraints g')" "above_of g' p = below_of g' c"
    then have p: "p \<in> set (m_constraints g)" "above_of g p = below_of g c" using n by (simp_all add: S(1) cs S(5))
    show "p \<in> set (parents_of g' c) \<longleftrightarrow> c \<in> set (children_of g' p)"
      using D(5) [OF p(1) c p(2)] unfolding cs S(7) [OF n [OF p(1)]] .
    show "below_of g' p \<noteq> above_of g' c \<Longrightarrow> c \<in> set (children_of g' p)"
      using D(6) [OF p(1) c p(2)] unfolding cs S(4,7) [OF n [OF p(1)]] .
  qed
  ultimately show ?thesis by (simp add: graph_ok_def)
qed

lemma set_enqueued_result:
  assumes "cells g c \<noteq> None"
  shows "\<exists>g'. set_enqueued c b g = Some g' \<and> same_graph g g' \<and> (\<forall>d. enqueued g' d = (if d = c then b else enqueued g d))"
  using assms by (auto simp: set_enqueued_def same_graph_def)

lemma enqueue_children_result:
  "(\<And>c. c \<in> set cs \<Longrightarrow> cells g c \<noteq> None) \<Longrightarrow> distinct cs \<Longrightarrow>
   \<exists>g'. enqueue_children cs queue g = Some (queue @ filter (\<lambda>c. \<not> enqueued g c) cs, g') \<and> same_graph g g' \<and>
     (\<forall>d. enqueued g' d \<longleftrightarrow> enqueued g d \<or> d \<in> set cs)"
proof (induction cs arbitrary: queue g)
  case (Cons c cs)
  obtain k where k: "cells g c = Some k" using Cons.prems(1) by fastforce
  show ?case
  proof (cases "c_enqueued k")
    case True
    then show ?thesis using Cons.IH [of g queue] Cons.prems k by auto
  next
    case False
    obtain g1 where g1: "set_enqueued c True g = Some g1" "same_graph g g1"
      "\<And>d. enqueued g1 d = (if d = c then True else enqueued g d)"
      using set_enqueued_result [of g c True] k by auto
    obtain g2 where g2: "enqueue_children cs (queue @ [c]) g1 = Some ((queue @ [c]) @ filter (\<lambda>c. \<not> enqueued g1 c) cs, g2)"
      "same_graph g1 g2" "\<And>d. enqueued g2 d \<longleftrightarrow> enqueued g1 d \<or> d \<in> set cs"
      using Cons.IH [of g1 "queue @ [c]"] Cons.prems same_graphD(3) [OF g1(2)] by auto
    have "filter (\<lambda>c. \<not> enqueued g1 c) cs = filter (\<lambda>c. \<not> enqueued g c) cs"
      using Cons.prems(2) g1(3) by (intro filter_cong) auto
    then show ?thesis using False k g1 g2 same_graph_trans [OF g1(2) g2(2)] by auto
  qed
qed simp

lemma enqueue_roots_result:
  "(\<And>c. c \<in> set cs \<Longrightarrow> cells g c \<noteq> None) \<Longrightarrow> distinct cs \<Longrightarrow>
   \<exists>g'. enqueue_roots cs queue g = Some (queue @ filter (\<lambda>c. parents_of g c = []) cs, g') \<and> same_graph g g' \<and>
     (\<forall>d. enqueued g' d = (if d \<in> set cs then parents_of g d = [] else enqueued g d))"
proof (induction cs arbitrary: queue g)
  case (Cons c cs)
  obtain k where k: "cells g c = Some k" using Cons.prems(1) by fastforce
  obtain g1 where g1: "set_enqueued c (c_parents k = []) g = Some g1" "same_graph g g1"
    "\<And>d. enqueued g1 d = (if d = c then c_parents k = [] else enqueued g d)"
    using set_enqueued_result [of g c "c_parents k = []"] k by auto
  let ?q = "if c_parents k = [] then queue @ [c] else queue"
  obtain g2 where g2: "enqueue_roots cs ?q g1 = Some (?q @ filter (\<lambda>c. parents_of g1 c = []) cs, g2)"
    "same_graph g1 g2" "\<And>d. enqueued g2 d = (if d \<in> set cs then parents_of g1 d = [] else enqueued g1 d)"
    using Cons.IH [of g1 ?q] Cons.prems same_graphD(3) [OF g1(2)] by auto
  have p: "parents_of g1 d = parents_of g d" if "d \<in> set cs" for d
    using same_graphD(6) [OF g1(2)] Cons.prems(1) that by auto
  then have "filter (\<lambda>c. parents_of g1 c = []) cs = filter (\<lambda>c. parents_of g c = []) cs" by (intro filter_cong) auto
  then have "enqueue_roots (c # cs) queue g = Some (queue @ filter (\<lambda>c. parents_of g c = []) (c # cs), g2)"
    using k g1(1) g2(1) by (cases "c_parents k = []") simp_all
  moreover have "enqueued g2 d = (if d \<in> set (c # cs) then parents_of g d = [] else enqueued g d)" for d
    using g2(3) g1(3) p k Cons.prems(2) by auto
  ultimately show ?case using same_graph_trans [OF g1(2) g2(2)] by blast
qed simp

end
