(* ===== verification/StackingOrder.thy ===== *)
theory StackingOrder
  imports Stacking
begin

text \<open>
  Correctness of \<open>constrainedStackingOrder\<close>: it returns a permutation of its argument for every constraint
  graph in the invariant, and when every window has at most one constraint that keeps it above another,
  without cycles, the result fulfils all constraints.
\<close>

section \<open>Moving a window\<close>

definition before :: "nat list \<Rightarrow> nat \<Rightarrow> nat \<Rightarrow> bool" where
  "before xs a b \<longleftrightarrow> index_of xs a < index_of xs b"

lemma index_of_filter:
  "a \<noteq> w \<Longrightarrow> b \<noteq> w \<Longrightarrow> a \<in> set xs \<Longrightarrow> b \<in> set xs \<Longrightarrow>
   index_of (filter (\<lambda>x. x \<noteq> w) xs) a < index_of (filter (\<lambda>x. x \<noteq> w) xs) b \<longleftrightarrow> index_of xs a < index_of xs b"
proof (induction xs)
  case (Cons x xs)
  let ?f = "filter (\<lambda>x. x \<noteq> w) xs"
  have nn: "c \<in> set xs \<Longrightarrow> 0 \<le> index_of xs c" "c \<in> set ?f \<Longrightarrow> 0 \<le> index_of ?f c" for c
    by (rule index_of_nonneg, assumption)+
  show ?case
  proof (cases "x = a \<or> x = b")
    case True
    then show ?thesis using Cons.prems nn [of a] nn [of b] by (auto simp: Let_def)
  next
    case False
    then have "a \<in> set xs" "b \<in> set xs" using Cons.prems by auto
    then have "0 \<le> index_of xs a" "0 \<le> index_of xs b" "0 \<le> index_of ?f a" "0 \<le> index_of ?f b"
      using nn Cons.prems(1,2) by auto
    then show ?thesis using False Cons.IH Cons.prems by (auto simp: Let_def)
  qed
qed simp

lemma move_above_perm: "upper \<in> set xs \<Longrightarrow> lower \<in> set xs \<Longrightarrow> mset (move_above lower upper xs) = mset xs"
proof -
  assume u: "upper \<in> set xs" and l: "lower \<in> set xs"
  let ?a = "nat (index_of xs upper)"
  have a: "?a < length xs" "xs ! ?a = upper"
    using u index_of_less [of xs upper] index_of_nonneg [OF u] by (auto simp: index_of_nth nat_less_iff)
  have "mset (take ?a xs @ drop (?a + 1) xs) + {#upper#} = mset xs"
    using id_take_nth_drop [OF a(1)] a(2) by (metis union_mset_add_mset_right mset.simps(2) mset_append add.right_neutral Suc_eq_plus1)
  moreover have "mset (insert_at i upper ys) = mset ys + {#upper#}" for i ys
    by (metis insert_at_def append_take_drop_id mset.simps(2) mset_append union_mset_add_mset_right add.right_neutral)
  ultimately show ?thesis by (simp add: move_above_def Let_def)
qed

lemma filter_move_above:
  assumes "upper \<in> set xs"
  shows "filter (\<lambda>x. x \<noteq> upper) (move_above lower upper xs) = filter (\<lambda>x. x \<noteq> upper) xs"
proof -
  let ?a = "nat (index_of xs upper)"
  have a: "?a < length xs" "xs ! ?a = upper"
    using assms index_of_less [of xs upper] index_of_nonneg [OF assms] by (auto simp: index_of_nth nat_less_iff)
  note split = id_take_nth_drop [OF a(1), unfolded a(2)]
  have "filter (\<lambda>x. x \<noteq> upper) xs = filter (\<lambda>x. x \<noteq> upper) (take ?a xs @ upper # drop (Suc ?a) xs)"
    by (rule arg_cong [OF split])
  also have "\<dots> = filter (\<lambda>x. x \<noteq> upper) (take ?a xs @ drop (?a + 1) xs)" by simp
  finally show ?thesis by (simp add: move_above_def Let_def filter_insert_at)
qed

lemma move_above_keeps:
  assumes "upper \<in> set xs" "lower \<in> set xs" "a \<in> set xs" "b \<in> set xs" "a \<noteq> upper" "b \<noteq> upper"
  shows "before (move_above lower upper xs) a b \<longleftrightarrow> before xs a b"
proof -
  have s: "set (move_above lower upper xs) = set xs"
    using move_above_perm [OF assms(1,2)] by (rule mset_eq_setD)
  show ?thesis
    using index_of_filter [of a upper b "move_above lower upper xs"] index_of_filter [of a upper b xs] assms
    unfolding before_def s filter_move_above [OF assms(1)] by blast
qed

lemma move_above_done:
  assumes d: "distinct xs" and u: "upper \<in> set xs" and l: "lower \<in> set xs" and ne: "lower \<noteq> upper"
  shows "before (move_above lower upper xs) lower upper"
proof (cases "index_of xs upper < index_of xs lower")
  case False
  have "index_of xs upper \<noteq> index_of xs lower" using index_of_nth [OF u] index_of_nth [OF l] ne by metis
  then show ?thesis using False by (simp add: move_above_def before_def)
next
  case True
  let ?a = "nat (index_of xs upper)" and ?b = "nat (index_of xs lower)"
  have a: "0 \<le> index_of xs upper" "?a < length xs" "xs ! ?a = upper"
    using u index_of_less [of xs upper] index_of_nonneg [OF u] by (auto simp: index_of_nth nat_less_iff)
  have b: "?b < length xs" "xs ! ?b = lower"
    using l index_of_less [of xs lower] index_of_nonneg [OF l] by (auto simp: index_of_nth nat_less_iff)
  have ab: "?a < ?b" using True a(1) by simp
  define ys where "ys = take ?a xs @ drop (?a + 1) xs"
  have len: "length ys = length xs - 1" using a(2) by (simp add: ys_def)
  have e: "Suc (?a + (?b - Suc ?a)) = ?b" and "\<not> ?b - Suc 0 < ?a" using ab by linarith+
  then have "ys ! (?b - 1) = xs ! Suc (?a + (?b - Suc ?a))" using a(2) by (simp add: ys_def nth_append min_def)
  then have low: "ys ! (?b - 1) = lower" unfolding e b(2) .
  have "upper \<notin> set (take ?a xs)" "upper \<notin> set (drop (?a + 1) xs)"
    using d id_take_nth_drop [OF a(2)] a(3) by (metis Suc_eq_plus1 distinct.simps(2) distinct_append not_distinct_conv_prefix, metis Suc_eq_plus1 distinct.simps(2) distinct_append)
  then have up: "upper \<notin> set ys" by (simp add: ys_def)
  have bl: "?b - 1 < length ys" "?b \<le> length ys" using len b(1) ab by linarith+
  then have mem: "lower \<in> set (take ?b ys)"
    using low ab by (auto simp: in_set_conv_nth intro!: exI [of _ "?b - 1"])
  have m: "move_above lower upper xs = take ?b ys @ upper # drop ?b ys"
    using True by (simp add: move_above_def Let_def ys_def insert_at_def)
  have "index_of (move_above lower upper xs) lower = index_of (take ?b ys) lower"
    unfolding m using mem by (simp add: index_of_append)
  moreover have "index_of (move_above lower upper xs) upper = int (length (take ?b ys))"
    unfolding m using up by (auto simp: index_of_append dest: in_set_takeD)
  ultimately show ?thesis using index_of_less [of "take ?b ys" lower] by (simp add: before_def)
qed

section \<open>The loop returns\<close>

definition pending :: "graph \<Rightarrow> nat set" where
  "pending g = {c \<in> set (m_constraints g). \<not> enqueued g c}"

lemma apply_constraints_Nil [simp]: "apply_constraints sorter [] stacking g = Some (stacking, g)"
  by (simp add: apply_constraints.simps)

text \<open>One round of the loop, for a constraint whose windows are in the stack.\<close>

lemma apply_constraints_step:
  assumes ok: "graph_ok g" and s: "sorter_ok sorter" and c: "c \<in> set (m_constraints g)"
    and i: "below_of g c \<in> set stacking" "above_of g c \<in> set stacking"
  shows "\<exists>new g'. apply_constraints sorter (c # rest) stacking g =
      apply_constraints sorter (rest @ new) (move_above (below_of g c) (above_of g c) stacking) g' \<and>
    same_graph g g' \<and> distinct new \<and> set new = {d \<in> set (children_of g c). \<not> enqueued g d} \<and>
    (\<forall>d. enqueued g' d \<longleftrightarrow> enqueued g d \<or> d \<in> set (children_of g c))"
proof -
  have live: "live_ok g" and links: "links_ok None g" using ok by (simp_all add: graph_ok_def)
  obtain k where k: "cells g c = Some k" using live c by (auto simp: live_ok_def)
  note D = links_okD [OF links, simplified]
  let ?st = "move_above (below_of g c) (above_of g c) stacking"
  let ?cs = "sorter (above_index_in g ?st) (c_children k)"
  have cs: "distinct ?cs" "set ?cs = set (children_of g c)" "\<And>d. d \<in> set ?cs \<Longrightarrow> cells g d \<noteq> None"
    using D(3,4) [OF c] live k sorter_perm [OF s] by (auto simp: live_ok_def)
  obtain g' where g': "enqueue_children ?cs rest g = Some (rest @ filter (\<lambda>c. \<not> enqueued g c) ?cs, g')"
    "same_graph g g'" "\<forall>d. enqueued g' d \<longleftrightarrow> enqueued g d \<or> d \<in> set ?cs"
    using enqueue_children_result [OF cs(3,1)] by blast
  have idx: "index_of stacking (c_below k) \<noteq> -1" "index_of stacking (c_above k) \<noteq> -1"
    using i k by (simp_all add: index_of_none)
  have "apply_constraints sorter (c # rest) stacking g =
      apply_constraints sorter (rest @ filter (\<lambda>c. \<not> enqueued g c) ?cs) ?st g'"
    using k idx g'(1) by (subst apply_constraints.simps) (simp add: Let_def)
  then show ?thesis using g'(2,3) cs(1,2) by (intro exI [of _ "filter (\<lambda>c. \<not> enqueued g c) ?cs"] exI [of _ g']) auto
qed

lemma apply_constraints_skip:
  assumes ok: "graph_ok g" and c: "c \<in> set (m_constraints g)"
    and i: "\<not> (below_of g c \<in> set stacking \<and> above_of g c \<in> set stacking)"
  shows "apply_constraints sorter (c # rest) stacking g = apply_constraints sorter rest stacking g"
proof -
  obtain k where k: "cells g c = Some k" using ok c by (auto simp: graph_ok_def live_ok_def)
  then have "index_of stacking (c_below k) = -1 \<or> index_of stacking (c_above k) = -1"
    using i by (auto simp: index_of_none)
  then show ?thesis using k by (subst apply_constraints.simps) auto
qed

lemma children_live: "graph_ok g \<Longrightarrow> c \<in> set (m_constraints g) \<Longrightarrow> set (children_of g c) \<subseteq> set (m_constraints g)"
  using links_okD(4) [of None g c] by (auto simp: graph_ok_def)

text \<open>Each constraint is enqueued once, so the queue and the constraints not yet enqueued get fewer.\<close>

lemma apply_constraints_returns:
  assumes "graph_ok g" "sorter_ok sorter" "set queue \<subseteq> set (m_constraints g)"
  shows "\<exists>st' g'. apply_constraints sorter queue st g = Some (st', g') \<and> mset st' = mset st \<and> same_graph g g'"
  using assms
proof (induction "card (pending g) + length queue" arbitrary: queue st g rule: less_induct)
  case less
  show ?case
  proof (cases queue)
    case (Cons c rest)
    then have c: "c \<in> set (m_constraints g)" using less.prems(3) by simp
    show ?thesis
    proof (cases "below_of g c \<in> set st \<and> above_of g c \<in> set st")
      case False
      have "\<exists>st' g'. apply_constraints sorter rest st g = Some (st', g') \<and> mset st' = mset st \<and> same_graph g g'"
        using less.prems Cons by (intro less.hyps) simp_all
      then show ?thesis using apply_constraints_skip [OF less.prems(1) c False] Cons by simp
    next
      case True
      obtain new g' where n: "apply_constraints sorter (c # rest) st g =
          apply_constraints sorter (rest @ new) (move_above (below_of g c) (above_of g c) st) g'"
        "same_graph g g'" "distinct new" "set new = {d \<in> set (children_of g c). \<not> enqueued g d}"
        "\<And>d. enqueued g' d \<longleftrightarrow> enqueued g d \<or> d \<in> set (children_of g c)"
        using apply_constraints_step [OF less.prems(1,2) c] True by blast
      have ms: "m_constraints g' = m_constraints g" by (rule same_graphD(1) [OF n(2)])
      have "set new \<subseteq> pending g" using children_live [OF less.prems(1) c] n(4) by (auto simp: pending_def)
      moreover have "pending g' = pending g - set new" using n(4,5) ms by (auto simp: pending_def)
      moreover have fin: "finite (pending g)" by (simp add: pending_def)
      ultimately have "card (pending g') + length new = card (pending g)"
        using n(3) by (metis card_Diff_subset card_mono distinct_card finite_set le_add_diff_inverse2)
      then have "card (pending g') + length (rest @ new) < card (pending g) + length queue" using Cons by simp
      moreover have "set (rest @ new) \<subseteq> set (m_constraints g')"
        using less.prems(3) Cons n(4) children_live [OF less.prems(1) c] ms by auto
      ultimately obtain st' g'' where "apply_constraints sorter (rest @ new) (move_above (below_of g c) (above_of g c) st) g' = Some (st', g'')"
        "mset st' = mset (move_above (below_of g c) (above_of g c) st)" "same_graph g' g''"
        using less.hyps [OF _ same_graph_ok [OF n(2) less.prems(1)] less.prems(2)] by blast
      then show ?thesis using n(1,2) Cons True move_above_perm [of "above_of g c" st "below_of g c"]
        by (auto dest: same_graph_trans)
    qed
  qed simp
qed

lemma constrainedStackingOrder_returns:
  assumes ok: "graph_ok g" and s: "sorter_ok sorter"
  shows "\<exists>st g'. constrainedStackingOrder sorter layer_of order g = Some (st, g') \<and> mset st = mset order \<and> same_graph g g'"
proof -
  have live: "\<And>c. c \<in> set (m_constraints g) \<Longrightarrow> cells g c \<noteq> None" "distinct (m_constraints g)"
    using ok by (auto simp: graph_ok_def live_ok_def)
  let ?roots = "filter (\<lambda>c. parents_of g c = []) (m_constraints g)"
  obtain g' where g': "enqueue_roots (m_constraints g) [] g = Some (?roots, g')" "same_graph g g'"
    using enqueue_roots_result [OF live, of "[]"] by auto
  let ?q = "sorter (above_index_in g' (layered layer_of order)) ?roots"
  have "set ?q \<subseteq> set (m_constraints g')" using sorter_perm [OF s] same_graphD(1) [OF g'(2)] by auto
  then obtain st g'' where "apply_constraints sorter ?q (layered layer_of order) g' = Some (st, g'')"
    "mset st = mset (layered layer_of order)" "same_graph g' g''"
    using apply_constraints_returns [OF same_graph_ok [OF g'(2) ok] s] by blast
  then show ?thesis using g' by (auto simp: constrainedStackingOrder_def Let_def layered_perm dest: same_graph_trans)
qed

section \<open>All constraints of a forest are fulfilled\<close>

definition fulfilled :: "graph \<Rightarrow> nat list \<Rightarrow> nat \<Rightarrow> bool" where
  "fulfilled g stacking c \<longleftrightarrow> before stacking (below_of g c) (above_of g c)"

text \<open>No cycles, and a forest: every window is the upper window of at most one constraint as well.\<close>

definition acyclic_graph :: "graph \<Rightarrow> bool" where
  "acyclic_graph g \<longleftrightarrow>
     (\<exists>rank :: nat \<Rightarrow> nat. \<forall>c \<in> set (m_constraints g). rank (below_of g c) < rank (above_of g c))"

definition forest :: "graph \<Rightarrow> bool" where
  "forest g \<longleftrightarrow> inj_on (above_of g) (set (m_constraints g)) \<and> acyclic_graph g"

text \<open>
  The invariant of the loop: the constraints that have left the queue are fulfilled and their children
  are enqueued; an enqueued constraint has only parents that left the queue; roots are enqueued.
\<close>

definition loop_ok :: "graph \<Rightarrow> nat list \<Rightarrow> nat list \<Rightarrow> bool" where
  "loop_ok g queue st \<longleftrightarrow> distinct queue \<and> distinct st \<and>
     (\<forall>c \<in> set queue. c \<in> set (m_constraints g) \<and> enqueued g c) \<and>
     (\<forall>c \<in> set (m_constraints g). below_of g c \<in> set st \<and> above_of g c \<in> set st) \<and>
     (\<forall>c \<in> set (m_constraints g). (\<forall>p \<in> set (m_constraints g). above_of g p \<noteq> below_of g c) \<longrightarrow> enqueued g c) \<and>
     (\<forall>c \<in> set (m_constraints g). enqueued g c \<longrightarrow> c \<notin> set queue \<longrightarrow> fulfilled g st c \<and>
        (\<forall>d \<in> set (m_constraints g). below_of g d = above_of g c \<longrightarrow> enqueued g d)) \<and>
     (\<forall>c \<in> set (m_constraints g). \<forall>p \<in> set (m_constraints g). enqueued g c \<longrightarrow> above_of g p = below_of g c \<longrightarrow>
        enqueued g p \<and> p \<notin> set queue)"

lemma acyclic_children:
  assumes ok: "graph_ok g" and f: "acyclic_graph g" and c: "c \<in> set (m_constraints g)"
  shows "set (children_of g c) = {d \<in> set (m_constraints g). below_of g d = above_of g c}"
proof -
  obtain rank :: "nat \<Rightarrow> nat" where rank: "\<And>c. c \<in> set (m_constraints g) \<Longrightarrow> rank (below_of g c) < rank (above_of g c)"
    using f unfolding acyclic_graph_def by blast
  note D = links_okD [OF ok [unfolded graph_ok_def, THEN conjunct2], simplified]
  have "below_of g c \<noteq> above_of g d" if "d \<in> set (m_constraints g)" "below_of g d = above_of g c" for d
    using rank [OF c] rank [OF that(1)] that(2) by auto
  then show ?thesis using D(4) [OF c] D(6) [OF c] by auto
qed

lemma loop_ok_step:
  assumes ok: "graph_ok g" and f: "forest g" and inv: "loop_ok g (c # rest) st"
    and g': "same_graph g g'" "\<And>d. enqueued g' d \<longleftrightarrow> enqueued g d \<or> d \<in> set (children_of g c)"
    and new: "distinct new" "set new = {d \<in> set (children_of g c). \<not> enqueued g d}"
  shows "loop_ok g' (rest @ new) (move_above (below_of g c) (above_of g c) st)"
proof -
  let ?st = "move_above (below_of g c) (above_of g c) st"
  let ?ms = "m_constraints g"
  have I: "distinct (c # rest)" "distinct st" "\<And>x. x \<in> set (c # rest) \<Longrightarrow> x \<in> set ?ms \<and> enqueued g x"
    "\<And>x. x \<in> set ?ms \<Longrightarrow> below_of g x \<in> set st \<and> above_of g x \<in> set st"
    "\<And>x. x \<in> set ?ms \<Longrightarrow> (\<And>p. p \<in> set ?ms \<Longrightarrow> above_of g p \<noteq> below_of g x) \<Longrightarrow> enqueued g x"
    "\<And>x. x \<in> set ?ms \<Longrightarrow> enqueued g x \<Longrightarrow> x \<notin> set (c # rest) \<Longrightarrow> fulfilled g st x"
    "\<And>x d. x \<in> set ?ms \<Longrightarrow> enqueued g x \<Longrightarrow> x \<notin> set (c # rest) \<Longrightarrow> d \<in> set ?ms \<Longrightarrow> below_of g d = above_of g x \<Longrightarrow> enqueued g d"
    "\<And>x p. x \<in> set ?ms \<Longrightarrow> p \<in> set ?ms \<Longrightarrow> enqueued g x \<Longrightarrow> above_of g p = below_of g x \<Longrightarrow> enqueued g p \<and> p \<notin> set (c # rest)"
    using inv unfolding loop_ok_def by blast+
  have c: "c \<in> set ?ms" "enqueued g c" using I(3) by simp_all
  have ch: "set (children_of g c) = {d \<in> set ?ms. below_of g d = above_of g c}" by (rule acyclic_children [OF ok _ c(1)]) (use f in \<open>simp add: forest_def\<close>)
  have live: "\<And>x. x \<in> set ?ms \<Longrightarrow> cells g x \<noteq> None" "below_of g c \<noteq> above_of g c"
    using ok c(1) by (auto simp: graph_ok_def live_ok_def)
  have inj: "\<And>x y. x \<in> set ?ms \<Longrightarrow> y \<in> set ?ms \<Longrightarrow> above_of g x = above_of g y \<Longrightarrow> x = y"
    using f unfolding forest_def inj_on_def by blast
  have ms: "m_constraints g' = ?ms" by (rule same_graphD(1) [OF g'(1)])
  have ba: "below_of g' x = below_of g x" "above_of g' x = above_of g x" if "x \<in> set ?ms" for x
    using same_graphD(4,5) [OF g'(1) live(1) [OF that]] by simp_all
  have w: "below_of g c \<in> set st" "above_of g c \<in> set st" using I(4) [OF c(1)] by simp_all
  have st: "set ?st = set st" "distinct ?st"
    using move_above_perm [OF w(2,1)] I(2) by (auto dest: mset_eq_setD mset_eq_imp_distinct_iff)
  have newd: "x \<in> set ?ms" "enqueued g' x" "\<not> enqueued g x" "below_of g x = above_of g c" if "x \<in> set new" for x
    using that new(2) ch g'(2) by auto
  have ful: "fulfilled g ?st x" if x: "x \<in> set ?ms" "enqueued g x" "x \<notin> set rest" for x
  proof (cases "x = c")
    case True
    then show ?thesis using move_above_done [OF I(2) w(2,1) live(2)] by (simp add: fulfilled_def)
  next
    case False
    then have "fulfilled g st x" using I(6) x by simp
    moreover have "above_of g x \<noteq> above_of g c" using inj [OF x(1) c(1)] False by blast
    moreover have "below_of g x \<noteq> above_of g c" using I(8) [OF x(1) c(1) x(2)] by auto
    ultimately show ?thesis using move_above_keeps [OF w(2,1)] I(4) [OF x(1)] by (simp add: fulfilled_def)
  qed
  show ?thesis
    unfolding loop_ok_def ms st(1)
  proof (intro conjI ballI impI)
    have "x \<notin> set new" if "x \<in> set rest" for x using I(3) [of x] newd(3) [of x] that by auto
    then show "distinct (rest @ new)" using I(1) new(1) by auto
    show "distinct ?st" by (rule st(2))
  next
    fix x assume "x \<in> set (rest @ new)"
    then show "x \<in> set ?ms" "enqueued g' x" using I(3) newd g'(2) by auto
  next
    fix x assume x: "x \<in> set ?ms"
    show "below_of g' x \<in> set st" "above_of g' x \<in> set st" using I(4) [OF x] ba [OF x] by simp_all
    show "enqueued g' x" if "\<forall>p \<in> set ?ms. above_of g' p \<noteq> below_of g' x"
      using I(5) [OF x] that ba x g'(2) by auto
  next
    fix x assume x: "x \<in> set ?ms" "enqueued g' x" "x \<notin> set (rest @ new)"
    then have e: "enqueued g x" using g'(2) new(2) by auto
    have "fulfilled g ?st x" using ful [OF x(1) e] x(3) by simp
    then show "fulfilled g' ?st x" using ba [OF x(1)] by (simp add: fulfilled_def)
    fix d assume d: "d \<in> set ?ms" "below_of g' d = above_of g' x"
    then have "below_of g d = above_of g x" using ba x(1) by simp
    then show "enqueued g' d"
      using I(7) [OF x(1) e _ d(1)] x(3) d(1) ch g'(2) by (cases "x = c") auto
  next
    fix x p assume x: "x \<in> set ?ms" "p \<in> set ?ms" "enqueued g' x" "above_of g' p = below_of g' x"
    then have a: "above_of g p = below_of g x" using ba by simp
    have "enqueued g p \<and> p \<notin> set rest"
    proof (cases "enqueued g x")
      case True
      then show ?thesis using I(8) [OF x(1,2) True a] by simp
    next
      case False
      then have "x \<in> set (children_of g c)" using x(3) g'(2) by simp
      then have "p = c" using ch a inj [OF x(2) c(1)] by auto
      then show ?thesis using c(2) I(1) by simp
    qed
    then show "enqueued g' p" "p \<notin> set (rest @ new)" using g'(2) newd(3) by auto
  qed
qed

lemma apply_constraints_fulfils:
  assumes "graph_ok g" "forest g" "sorter_ok sorter" "loop_ok g queue st"
  shows "\<exists>st' g'. apply_constraints sorter queue st g = Some (st', g') \<and> same_graph g g' \<and> loop_ok g' [] st'"
  using assms
proof (induction "card (pending g) + length queue" arbitrary: queue st g rule: less_induct)
  case less
  show ?case
  proof (cases queue)
    case Nil
    then show ?thesis using less.prems(4) by auto
  next
    case (Cons c rest)
    have c: "c \<in> set (m_constraints g)" "below_of g c \<in> set st" "above_of g c \<in> set st"
      using less.prems(4) Cons by (auto simp: loop_ok_def)
    obtain new g' where n: "apply_constraints sorter (c # rest) st g =
        apply_constraints sorter (rest @ new) (move_above (below_of g c) (above_of g c) st) g'"
      "same_graph g g'" "distinct new" "set new = {d \<in> set (children_of g c). \<not> enqueued g d}"
      "\<And>d. enqueued g' d \<longleftrightarrow> enqueued g d \<or> d \<in> set (children_of g c)"
      using apply_constraints_step [OF less.prems(1,3) c] by blast
    have ms: "m_constraints g' = m_constraints g" by (rule same_graphD(1) [OF n(2)])
    have "set new \<subseteq> pending g" using children_live [OF less.prems(1) c(1)] n(4) by (auto simp: pending_def)
    moreover have "pending g' = pending g - set new" using n(4,5) ms by (auto simp: pending_def)
    moreover have "finite (pending g)" by (simp add: pending_def)
    ultimately have "card (pending g') + length new = card (pending g)"
      using n(3) by (metis card_Diff_subset card_mono distinct_card finite_set le_add_diff_inverse2)
    then have smaller: "card (pending g') + length (rest @ new) < card (pending g) + length queue" using Cons by simp
    have live: "\<And>x. x \<in> set (m_constraints g) \<Longrightarrow> cells g x \<noteq> None"
      using less.prems(1) by (auto simp: graph_ok_def live_ok_def)
    have "forest g'"
      using less.prems(2) same_graphD(4,5) [OF n(2) live] unfolding forest_def acyclic_graph_def ms inj_on_def by auto
    then obtain st' g'' where "apply_constraints sorter (rest @ new) (move_above (below_of g c) (above_of g c) st) g' = Some (st', g'')"
      "same_graph g' g''" "loop_ok g'' [] st'"
      using less.hyps [OF smaller same_graph_ok [OF n(2) less.prems(1)] _ less.prems(3)]
        loop_ok_step [OF less.prems(1,2) less.prems(4) [unfolded Cons] n(2,5,3,4)] by blast
    then show ?thesis using n(1,2) Cons by (auto dest: same_graph_trans)
  qed
qed

lemma constrainedStackingOrder_fulfils:
  assumes ok: "graph_ok g" and f: "forest g" and s: "sorter_ok sorter" and d: "distinct order"
    and w: "\<forall>c \<in> set (m_constraints g). below_of g c \<in> set order \<and> above_of g c \<in> set order"
  shows "\<exists>st g'. constrainedStackingOrder sorter layer_of order g = Some (st, g') \<and>
    (\<forall>c \<in> set (m_constraints g). before st (below_of g c) (above_of g c))"
proof -
  let ?ms = "m_constraints g" and ?base = "layered layer_of order"
  have live: "\<And>c. c \<in> set ?ms \<Longrightarrow> cells g c \<noteq> None" "distinct ?ms"
    using ok by (auto simp: graph_ok_def live_ok_def)
  let ?roots = "filter (\<lambda>c. parents_of g c = []) ?ms"
  obtain g1 where g1: "enqueue_roots ?ms [] g = Some (?roots, g1)" "same_graph g g1"
    "\<And>d. enqueued g1 d = (if d \<in> set ?ms then parents_of g d = [] else enqueued g d)"
    using enqueue_roots_result [OF live, of "[]"] by auto
  note S = same_graphD [OF g1(2)]
  have ba: "below_of g1 c = below_of g c" "above_of g1 c = above_of g c" if "c \<in> set ?ms" for c
    using S(4,5) live(1) [OF that] by simp_all
  have ok1: "graph_ok g1" by (rule same_graph_ok [OF g1(2) ok])
  have f1: "forest g1" using f ba unfolding forest_def acyclic_graph_def S(1) inj_on_def by auto
  note D = links_okD [OF ok [unfolded graph_ok_def, THEN conjunct2], simplified]
  have par: "p \<in> set (parents_of g c)" if "p \<in> set ?ms" "c \<in> set ?ms" "above_of g p = below_of g c" for p c
    using D(5) [OF that] acyclic_children [OF ok _ that(1)] f that by (simp add: forest_def)
  let ?q = "sorter (above_index_in g1 ?base) ?roots"
  have "mset ?base = mset order" by (rule layered_perm)
  then have base: "distinct ?base" "\<And>x. x \<in> set ?base \<longleftrightarrow> x \<in> set order"
    using d mset_eq_imp_distinct_iff mset_eq_setD by blast+
  have "loop_ok g1 ?q ?base"
    unfolding loop_ok_def S(1)
  proof (intro conjI ballI impI)
    show "distinct ?q" using sorter_perm [OF s] live(2) by simp
    show "distinct ?base" by (rule base(1))
    fix c
    {
      assume "c \<in> set ?q"
      then show "c \<in> set ?ms" "enqueued g1 c" using sorter_perm(1) [OF s] g1(3) by auto
    }
    assume c: "c \<in> set ?ms"
    show "below_of g1 c \<in> set ?base" "above_of g1 c \<in> set ?base" using w c ba base(2) by simp_all
    {
      assume none: "\<forall>p \<in> set ?ms. above_of g1 p \<noteq> below_of g1 c"
      have "parents_of g c = []" using D(2) [OF c] none c ba by (metis last_in_set)
      then show "enqueued g1 c" using g1(3) c by simp
    }
    {
      assume "enqueued g1 c" "c \<notin> set ?q"
      then show "fulfilled g1 ?base c" and "\<And>d. d \<in> set ?ms \<Longrightarrow> below_of g1 d = above_of g1 c \<Longrightarrow> enqueued g1 d"
        using sorter_perm(1) [OF s] g1(3) c by auto
    }
    fix p assume p: "p \<in> set ?ms" "enqueued g1 c" "above_of g1 p = below_of g1 c"
    have "parents_of g c = []" using p(2) g1(3) c by simp
    moreover have "p \<in> set (parents_of g c)" using p(1,3) c ba by (intro par) simp_all
    ultimately show "enqueued g1 p" "p \<notin> set ?q" by simp_all
  qed
  then obtain st g2 where res: "apply_constraints sorter ?q ?base g1 = Some (st, g2)" "same_graph g1 g2" "loop_ok g2 [] st"
    using apply_constraints_fulfils [OF ok1 f1 s] by blast
  have s2: "same_graph g g2" by (rule same_graph_trans [OF g1(2) res(2)])
  note S2 = same_graphD [OF s2]
  have ba2: "below_of g2 c = below_of g c" "above_of g2 c = above_of g c" if "c \<in> set ?ms" for c
    using S2(4,5) live(1) [OF that] by simp_all
  obtain rank :: "nat \<Rightarrow> nat" where rank: "\<And>c. c \<in> set ?ms \<Longrightarrow> rank (below_of g c) < rank (above_of g c)"
    using f unfolding forest_def acyclic_graph_def by blast
  have final: "loop_ok g2 [] st \<longleftrightarrow> distinct st \<and>
     (\<forall>c \<in> set ?ms. below_of g2 c \<in> set st \<and> above_of g2 c \<in> set st) \<and>
     (\<forall>c \<in> set ?ms. (\<forall>p \<in> set ?ms. above_of g2 p \<noteq> below_of g2 c) \<longrightarrow> enqueued g2 c) \<and>
     (\<forall>c \<in> set ?ms. enqueued g2 c \<longrightarrow> fulfilled g2 st c \<and>
        (\<forall>d \<in> set ?ms. below_of g2 d = above_of g2 c \<longrightarrow> enqueued g2 d)) \<and>
     (\<forall>c \<in> set ?ms. \<forall>p \<in> set ?ms. enqueued g2 c \<longrightarrow> above_of g2 p = below_of g2 c \<longrightarrow> enqueued g2 p)"
    unfolding loop_ok_def S2(1) by simp
  have L: "(\<And>p. p \<in> set ?ms \<Longrightarrow> above_of g2 p \<noteq> below_of g2 c) \<Longrightarrow> enqueued g2 c"
    "enqueued g2 c \<Longrightarrow> fulfilled g2 st c"
    "enqueued g2 c \<Longrightarrow> d \<in> set ?ms \<Longrightarrow> below_of g2 d = above_of g2 c \<Longrightarrow> enqueued g2 d" if "c \<in> set ?ms" for c d
    using res(3) [unfolded final] that by blast+
  have all: "enqueued g2 c" if "c \<in> set ?ms" for c
    using that
  proof (induction "rank (below_of g c)" arbitrary: c rule: less_induct)
    case less
    show ?case
    proof (cases "\<exists>p \<in> set ?ms. above_of g p = below_of g c")
      case True
      then obtain p where p: "p \<in> set ?ms" "above_of g p = below_of g c" by blast
      then have "enqueued g2 p" using less.hyps rank [OF p(1)] by simp
      then show ?thesis using L(3) [OF p(1) _ less.prems] ba2 [OF p(1)] ba2 [OF less.prems] p(2) by simp
    next
      case False
      then have "above_of g2 p \<noteq> below_of g2 c" if "p \<in> set ?ms" for p using ba2 [OF that] ba2 [OF less.prems] that by auto
      then show ?thesis by (rule L(1) [OF less.prems])
    qed
  qed
  have "before st (below_of g c) (above_of g c)" if "c \<in> set ?ms" for c
    using L(2) [OF that all [OF that]] ba2 [OF that] by (simp add: fulfilled_def)
  moreover have "constrainedStackingOrder sorter layer_of order g = Some (st, g2)"
    using g1(1) res(1) by (simp add: constrainedStackingOrder_def Let_def)
  ultimately show ?thesis by blast
qed

end
