(* ===== verification/StackingOps.thy ===== *)
theory StackingOps
  imports StackingOrder FocusChain
begin

text \<open>
  The operations on the stacking order of \<open>src/kde-kwin/src/layers.cpp\<close>, and those of
  \<open>src/kde-kwin/src/workspace.cpp\<close> that change the stack or its constraints.

  What windows, groups and the X server answer is an argument of the operations (\<open>window_queries\<close>, which
  extends the \<open>queries\<close> of the focus chains); windows, desktops, outputs and X identifiers are numbers.
  Signals and requests to windows and to the X server are recorded in the order in which they are made.
  An operation that follows a dangling pointer, runs into an assertion or does not end is \<open>None\<close>.
\<close>

section \<open>Data\<close>

record window_queries = "(nat, nat, nat) queries" +
  window_layer :: "nat \<Rightarrow> layer"
  isX11Window :: "nat \<Rightarrow> bool"
  group_members :: "nat \<Rightarrow> nat list option"
  isClient :: "nat \<Rightarrow> bool"
  isUnmanaged :: "nat \<Rightarrow> bool"
  hiddenPreview :: "nat \<Rightarrow> bool"
  isSpecialWindow :: "nat \<Rightarrow> bool"
  isDesktopWindow :: "nat \<Rightarrow> bool"
  hasUserTimeSupport :: "nat \<Rightarrow> bool"
  xcb_window :: "nat \<Rightarrow> nat"
  isTransient :: "nat \<Rightarrow> bool"
  transientFor :: "nat \<Rightarrow> nat option"
  transients :: "nat \<Rightarrow> nat list"
  allMainWindows :: "nat \<Rightarrow> nat list"
  sessionStackingOrder :: "nat \<Rightarrow> int"
  allowFullClientRaising :: "nat \<Rightarrow> nat \<Rightarrow> bool"
  isSeparateScreenFocus :: bool
  workspace_activeWindow :: "nat option"
  hasRootInfo :: bool
  supportWindow :: nat
  guardWindow :: nat
  manual_overlays :: "nat list"
  m_windows :: "nat list"
  std_sort :: "(nat \<Rightarrow> int) \<Rightarrow> nat list \<Rightarrow> nat list"

datatype request =
    RestackWindows "nat list"
  | SetClientList "nat list"
  | SetClientListStacking "nat list"
  | StackingOrderChanged
  | CancelAutoRaise nat
  | DemandAttention nat

datatype request_source = FromUnknown | FromApplication | FromTool

record workspace =
  unconstrained_stacking_order :: "nat list"
  stacking_order :: "nat list"
  constraint_graph :: graph
  m_blockStackingUpdates :: int
  m_blockedPropagatingNewWindows :: bool
  force_restacking :: bool
  m_focusChain :: "(nat, nat) focus_chain"
  window_stackingOrder :: "nat \<Rightarrow> int"
  requests :: "request list"

definition request :: "request \<Rightarrow> workspace \<Rightarrow> workspace" where
  "request r ws = ws\<lparr>requests := requests ws @ [r]\<rparr>"

definition restack :: "(nat list \<Rightarrow> nat list) \<Rightarrow> workspace \<Rightarrow> workspace" where
  "restack f ws = ws\<lparr>unconstrained_stacking_order := f (unconstrained_stacking_order ws)\<rparr>"

section \<open>Layers\<close>

fun group_layer :: "window_queries \<Rightarrow> nat \<Rightarrow> nat list \<Rightarrow> layer" where
  "group_layer q window [] = window_layer q window"
| "group_layer q window (member # members) =
     (if member = window then group_layer q window members
      else if window_output q member \<noteq> window_output q window then group_layer q window members
      else if window_layer q member = ActiveLayer then ActiveLayer
      else group_layer q window members)"

definition layerForWindow :: "window_queries \<Rightarrow> nat \<Rightarrow> layer" where
  "layerForWindow q window =
     (if window_layer q window = DesktopLayer then DesktopLayer
      else case group_members q window of
             None \<Rightarrow> window_layer q window
           | Some members \<Rightarrow> group_layer q window members)"

definition computeLayer :: "window_queries \<Rightarrow> nat \<Rightarrow> layer" where
  "computeLayer q window = (if isX11Window q window then layerForWindow q window else window_layer q window)"

section \<open>Updates of the stacking order\<close>

definition propagateWindows :: "window_queries \<Rightarrow> bool \<Rightarrow> workspace \<Rightarrow> workspace" where
  "propagateWindows q propagate_new_windows ws =
     (if \<not> hasRootInfo q then ws
      else
        let managed = (\<lambda>w. isX11Window q w \<and> \<not> isDeleted q w \<and> \<not> isUnmanaged q w);
            newWindowStack =
              [supportWindow q] @ manual_overlays q
              @ map (xcb_window q) (filter (\<lambda>w. managed w \<and> \<not> hiddenPreview q w) (rev (stacking_order ws)))
              @ [guardWindow q]
              @ map (xcb_window q) (filter (\<lambda>w. managed w \<and> hiddenPreview q w) (rev (stacking_order ws)));
            ws1 = request (RestackWindows newWindowStack) ws;
            ws2 = (if propagate_new_windows
                   then request (SetClientList (manual_overlays q
                          @ map (xcb_window q) (filter (\<lambda>w. isX11Window q w \<and> \<not> isUnmanaged q w) (m_windows q)))) ws1
                   else ws1)
        in request (SetClientListStacking (map (xcb_window q) (filter managed (stacking_order ws)) @ manual_overlays q)) ws2)"

text \<open>\<open>stacking_order[i]->setStackingOrder(i)\<close> for the indices from \<open>i\<close> on.\<close>

fun set_stacking_orders :: "nat list \<Rightarrow> int \<Rightarrow> (nat \<Rightarrow> int) \<Rightarrow> nat \<Rightarrow> int" where
  "set_stacking_orders [] i f = f"
| "set_stacking_orders (w # ws) i f = set_stacking_orders ws (i + 1) (f(w := i))"

definition updateStackingOrder :: "window_queries \<Rightarrow> bool \<Rightarrow> workspace \<Rightarrow> workspace option" where
  "updateStackingOrder q propagate_new_windows ws =
     (if 0 < m_blockStackingUpdates ws
      then Some (if propagate_new_windows then ws\<lparr>m_blockedPropagatingNewWindows := True\<rparr> else ws)
      else do {
        (new_stacking_order, g) \<leftarrow>
          constrainedStackingOrder (std_sort q) (computeLayer q) (unconstrained_stacking_order ws) (constraint_graph ws);
        let changed = (force_restacking ws \<or> new_stacking_order \<noteq> stacking_order ws);
        let ws1 = ws\<lparr>constraint_graph := g, force_restacking := False, stacking_order := new_stacking_order\<rparr>;
        Some (if changed \<or> propagate_new_windows
              then let ws2 = propagateWindows q propagate_new_windows ws1
                   in request StackingOrderChanged
                        (ws2\<lparr>window_stackingOrder := set_stacking_orders (stacking_order ws2) 0 (window_stackingOrder ws2)\<rparr>)
              else ws1)
      })"

definition blockStackingUpdates :: "window_queries \<Rightarrow> bool \<Rightarrow> workspace \<Rightarrow> workspace option" where
  "blockStackingUpdates q block ws =
     (if block
      then let ws1 = (if m_blockStackingUpdates ws = 0 then ws\<lparr>m_blockedPropagatingNewWindows := False\<rparr> else ws)
           in Some (ws1\<lparr>m_blockStackingUpdates := m_blockStackingUpdates ws1 + 1\<rparr>)
      else let ws1 = ws\<lparr>m_blockStackingUpdates := m_blockStackingUpdates ws - 1\<rparr>
           in if m_blockStackingUpdates ws1 = 0
              then updateStackingOrder q (m_blockedPropagatingNewWindows ws1) ws1
              else Some ws1)"

text \<open>\<open>StackingUpdatesBlocker blocker(this)\<close>: the rest of the block runs between the two calls.\<close>

definition with_blocker ::
    "window_queries \<Rightarrow> (workspace \<Rightarrow> workspace option) \<Rightarrow> workspace \<Rightarrow> workspace option" where
  "with_blocker q body ws = do {
     ws1 \<leftarrow> blockStackingUpdates q True ws;
     ws2 \<leftarrow> body ws1;
     blockStackingUpdates q False ws2
   }"

definition forceRestacking :: "window_queries \<Rightarrow> workspace \<Rightarrow> workspace option" where
  "forceRestacking q ws = with_blocker q Some (ws\<lparr>force_restacking := True\<rparr>)"

section \<open>Queries\<close>

definition topWindowOnDesktop ::
    "window_queries \<Rightarrow> nat \<Rightarrow> nat option \<Rightarrow> bool \<Rightarrow> bool \<Rightarrow> workspace \<Rightarrow> nat option" where
  "topWindowOnDesktop q desktop out unconstrained only_normal ws =
     (let list = (if \<not> unconstrained then stacking_order ws else unconstrained_stacking_order ws)
      in List.find (\<lambda>window.
           isClient q window \<and> \<not> isDeleted q window \<and>
           isOnDesktop q window desktop \<and> isShown q window \<and> isOnCurrentActivity q window \<and>
           \<not> (out \<noteq> None \<and> Some (window_output q window) \<noteq> out) \<and>
           (\<not> only_normal \<or> wantsTabFocus q window \<and> \<not> isSpecialWindow q window)) (rev list))"

definition findDesktop :: "window_queries \<Rightarrow> nat \<Rightarrow> nat \<Rightarrow> workspace \<Rightarrow> nat option" where
  "findDesktop q desktop out ws =
     List.find (\<lambda>window. \<not> isDeleted q window \<and> isClient q window \<and> isOnDesktop q window desktop \<and>
       isOnOutput q window out \<and> isDesktopWindow q window \<and> isShown q window) (rev (stacking_order ws))"

text \<open>The loops of \<open>areConstrained\<close>, with the recursive call as an argument.\<close>

fun any_child :: "(nat \<Rightarrow> bool option) \<Rightarrow> graph \<Rightarrow> nat list \<Rightarrow> bool option" where
  "any_child rec g [] = Some False"
| "any_child rec g (child # children) = do {
     k \<leftarrow> cells g child;
     b \<leftarrow> rec (c_below k);
     if b then Some True else any_child rec g children
   }"

fun any_constraint :: "(nat \<Rightarrow> bool option) \<Rightarrow> graph \<Rightarrow> nat \<Rightarrow> nat \<Rightarrow> nat list \<Rightarrow> bool option" where
  "any_constraint rec g lower upper [] = Some False"
| "any_constraint rec g lower upper (c # cs) = do {
     k \<leftarrow> cells g c;
     if c_below k = lower
     then if c_above k = upper then Some True
          else do {
            b \<leftarrow> any_child rec g (c_children k);
            if b then Some True else any_constraint rec g lower upper cs
          }
     else any_constraint rec g lower upper cs
   }"

lemma any_child_mono [partial_function_mono]:
  "(\<And>x. mono_option (\<lambda>f. B x f)) \<Longrightarrow> mono_option (\<lambda>f. any_child (\<lambda>x. B x f) g cs)"
proof (induction cs)
  case (Cons c cs)
  then show ?case by (simp, intro partial_function_mono)
qed (simp add: option.const_mono)

lemma any_constraint_mono [partial_function_mono]:
  "(\<And>x. mono_option (\<lambda>f. B x f)) \<Longrightarrow> mono_option (\<lambda>f. any_constraint (\<lambda>x. B x f) g lower upper cs)"
proof (induction cs)
  case (Cons c cs)
  then show ?case by (simp, intro partial_function_mono)
qed (simp add: option.const_mono)

partial_function (option) areConstrained :: "graph \<Rightarrow> nat \<Rightarrow> nat \<Rightarrow> bool option" where
  "areConstrained g lower upper = any_constraint (\<lambda>w. areConstrained g w upper) g lower upper (m_constraints g)"

definition ensureStackingOrderInList :: "nat list \<Rightarrow> nat list \<Rightarrow> nat list" where
  "ensureStackingOrderInList stackingOrder list =
     (if length list < 2 then list
      else fold (\<lambda>window result. if window \<in> set result then removeAll window result @ [window] else result)
             stackingOrder list)"

text \<open>
  On a list of \<open>X11Window\<close>s \<open>qobject_cast\<close> skips the other windows, which are not in the list: both
  overloads are this function.
\<close>

definition ensureStackingOrder :: "nat list \<Rightarrow> workspace \<Rightarrow> nat list" where
  "ensureStackingOrder list ws = ensureStackingOrderInList (stacking_order ws) list"

section \<open>Raising and lowering\<close>

definition to_top :: "nat \<Rightarrow> nat list \<Rightarrow> nat list" where
  "to_top window order = removeAll window order @ [window]"

definition to_bottom :: "nat \<Rightarrow> nat list \<Rightarrow> nat list" where
  "to_bottom window order = window # removeAll window order"

text \<open>The list to which \<open>lowerWindow\<close> appends the transients of its windows, from position \<open>i\<close> on.\<close>

partial_function (option) gather_transients :: "window_queries \<Rightarrow> nat \<Rightarrow> nat list \<Rightarrow> nat list option" where
  "gather_transients q i windows =
     (if i < length windows then gather_transients q (i + 1) (windows @ transients q (windows ! i))
      else Some windows)"

fun each_window :: "(nat \<Rightarrow> workspace \<Rightarrow> workspace option) \<Rightarrow> nat list \<Rightarrow> workspace \<Rightarrow> workspace option" where
  "each_window f [] ws = Some ws"
| "each_window f (window # windows) ws = do { ws' \<leftarrow> f window ws; each_window f windows ws' }"

text \<open>\<open>lowerWindow(window, true)\<close> and \<open>raiseWindow(window, true)\<close>.\<close>

definition lowerWindow_nogroup :: "window_queries \<Rightarrow> nat \<Rightarrow> workspace \<Rightarrow> workspace option" where
  "lowerWindow_nogroup q window ws =
     (if isDeleted q window then Some ws
      else with_blocker q (\<lambda>ws. Some (restack (to_bottom window) ws)) (request (CancelAutoRaise window) ws))"

definition lowerWindow :: "window_queries \<Rightarrow> nat \<Rightarrow> workspace \<Rightarrow> workspace option" where
  "lowerWindow q window ws =
     (if isDeleted q window then Some ws
      else with_blocker q (\<lambda>ws.
        if \<not> isTransient q window \<and> transients q window = []
        then Some (restack (to_bottom window) ws)
        else do {
          let mainWindows = allMainWindows q window;
          let parent = (if mainWindows = [] then window else hd (ensureStackingOrder mainWindows ws));
          windows \<leftarrow> gather_transients q 0 [parent];
          each_window (lowerWindow_nogroup q) (rev (ensureStackingOrder windows ws)) ws
        }) (request (CancelAutoRaise window) ws))"

text \<open>The loop of \<open>lowerWindowWithinApplication\<close>.\<close>

definition lower_within :: "window_queries \<Rightarrow> nat \<Rightarrow> nat list \<Rightarrow> nat list" where
  "lower_within q window order =
     (let order' = removeAll window order;
          mate = (\<lambda>other. isClient q other \<and> \<not> isDeleted q other \<and> belongToSameApplication q other window)
      in if list_ex mate order' then insert_before_first mate window order' else window # order')"

definition lowerWindowWithinApplication :: "window_queries \<Rightarrow> nat \<Rightarrow> workspace \<Rightarrow> workspace option" where
  "lowerWindowWithinApplication q window ws =
     (if isDeleted q window then Some ws
      else with_blocker q (\<lambda>ws. Some (restack (lower_within q window) ws)) (request (CancelAutoRaise window) ws))"

definition raiseWindow_nogroup :: "window_queries \<Rightarrow> nat \<Rightarrow> workspace \<Rightarrow> workspace option" where
  "raiseWindow_nogroup q window ws =
     (if isDeleted q window then Some ws
      else with_blocker q (\<lambda>ws. Some (restack (to_top window) ws)) (request (CancelAutoRaise window) ws))"

partial_function (option) transient_parents :: "window_queries \<Rightarrow> nat \<Rightarrow> nat list \<Rightarrow> nat list option" where
  "transient_parents q window acc =
     (case transientFor q window of
        None \<Rightarrow> Some acc
      | Some parent \<Rightarrow> transient_parents q parent (parent # acc))"

definition raiseWindow :: "window_queries \<Rightarrow> nat \<Rightarrow> workspace \<Rightarrow> workspace option" where
  "raiseWindow q window ws =
     (if isDeleted q window then Some ws
      else with_blocker q (\<lambda>ws. do {
        ws1 \<leftarrow> (if isTransient q window
                then do {
                  parents \<leftarrow> transient_parents q window [];
                  each_window (raiseWindow_nogroup q) parents ws
                }
                else Some ws);
        Some (restack (to_top window) ws1)
      }) (request (CancelAutoRaise window) ws))"

text \<open>
  The loop of \<open>raiseWindowWithinApplication\<close> over the windows from the top one on (\<open>others\<close>): the window
  to insert behind, and none when the window itself comes first or there is no other one.
\<close>

fun topmost_mate :: "window_queries \<Rightarrow> nat \<Rightarrow> nat list \<Rightarrow> nat option" where
  "topmost_mate q window [] = None"
| "topmost_mate q window (other # others) =
     (if \<not> isClient q other \<or> isDeleted q other then topmost_mate q window others
      else if other = window then None
      else if belongToSameApplication q other window then Some other
      else topmost_mate q window others)"

definition insert_above :: "nat \<Rightarrow> nat \<Rightarrow> nat list \<Rightarrow> nat list" where
  "insert_above reference window order =
     (let order' = removeAll window order in insert_at (nat (index_of order' reference + 1)) window order')"

definition raiseWindowWithinApplication :: "window_queries \<Rightarrow> nat \<Rightarrow> workspace \<Rightarrow> workspace option" where
  "raiseWindowWithinApplication q window ws =
     (if isDeleted q window then Some ws
      else with_blocker q (\<lambda>ws.
        Some (case topmost_mate q window (rev (unconstrained_stacking_order ws)) of
                None \<Rightarrow> ws
              | Some other \<Rightarrow> restack (insert_above other window) ws)) (request (CancelAutoRaise window) ws))"

text \<open>The loop of \<open>raiseOrLowerWindow\<close> over the windows from the top one on.\<close>

fun is_topmost :: "window_queries \<Rightarrow> graph \<Rightarrow> nat \<Rightarrow> nat \<Rightarrow> nat option \<Rightarrow> nat list \<Rightarrow> bool option" where
  "is_topmost q g window desktop out [] = Some False"
| "is_topmost q g window desktop out (other # others) =
     (if computeLayer q window \<noteq> computeLayer q other \<or> \<not> isClient q other \<or> isDeleted q other
      then is_topmost q g window desktop out others
      else if isOnDesktop q other desktop \<and> isShown q other \<and> isOnCurrentActivity q other \<and>
        \<not> (out \<noteq> None \<and> Some (window_output q other) \<noteq> out) \<and>
        wantsTabFocus q other \<and> \<not> isSpecialWindow q other
      then if other = window then Some True
           else do {
             constrained \<leftarrow> areConstrained g window other;
             if constrained then is_topmost q g window desktop out others else Some False
           }
      else is_topmost q g window desktop out others)"

definition raiseOrLowerWindow :: "window_queries \<Rightarrow> nat \<Rightarrow> workspace \<Rightarrow> workspace option" where
  "raiseOrLowerWindow q window ws =
     (if \<not> isOnCurrentDesktop q window then Some ws
      else
        let desktop = currentDesktop q (window_output q window);
            out = (if isSeparateScreenFocus q then Some (window_output q window) else None)
        in do {
          topmost \<leftarrow> is_topmost q (constraint_graph ws) window desktop out (rev (unconstrained_stacking_order ws));
          if topmost then lowerWindow q window ws else raiseWindow q window ws
        })"

definition raiseWindowRequest ::
    "window_queries \<Rightarrow> nat \<Rightarrow> request_source \<Rightarrow> nat \<Rightarrow> workspace \<Rightarrow> workspace option" where
  "raiseWindowRequest q window src timestamp ws =
     (if src = FromTool \<or> allowFullClientRaising q window timestamp then raiseWindow q window ws
      else do {
        ws' \<leftarrow> raiseWindowWithinApplication q window ws;
        Some (request (DemandAttention window) ws')
      })"

definition lowerWindowRequest :: "window_queries \<Rightarrow> nat \<Rightarrow> request_source \<Rightarrow> workspace \<Rightarrow> workspace option" where
  "lowerWindowRequest q window src ws =
     (if src = FromTool \<or> \<not> hasUserTimeSupport q window then lowerWindow q window ws
      else lowerWindowWithinApplication q window ws)"

section \<open>Restacking next to a window\<close>

definition insert_below :: "nat \<Rightarrow> nat \<Rightarrow> nat list \<Rightarrow> nat list" where
  "insert_below reference window order =
     (let order' = removeAll window order in insert_at (nat (index_of order' reference)) window order')"

definition stackBelow :: "window_queries \<Rightarrow> nat \<Rightarrow> nat \<Rightarrow> workspace \<Rightarrow> workspace option" where
  "stackBelow q window reference ws =
     (if isDeleted q window then Some ws
      else if reference \<notin> set (unconstrained_stacking_order ws) then None
      else if reference = window then Some ws
      else let ws1 = restack (insert_below reference window) ws
           in updateStackingOrder q False
                (ws1\<lparr>m_focusChain := FocusChain_moveAfterWindow (queries.truncate q) window reference (m_focusChain ws1)\<rparr>))"

definition stackAbove :: "window_queries \<Rightarrow> nat \<Rightarrow> nat \<Rightarrow> workspace \<Rightarrow> workspace option" where
  "stackAbove q window reference ws =
     (if isDeleted q window then Some ws
      else if reference \<notin> set (unconstrained_stacking_order ws) then None
      else if reference = window then Some ws
      else let ws1 = restack (insert_above reference window) ws
           in updateStackingOrder q False
                (ws1\<lparr>m_focusChain := FocusChain_moveBeforeWindow (queries.truncate q) window reference (m_focusChain ws1)\<rparr>))"

definition restackWindowUnderActive :: "window_queries \<Rightarrow> nat \<Rightarrow> workspace \<Rightarrow> workspace option" where
  "restackWindowUnderActive q window ws =
     (case workspace_activeWindow q of
        None \<Rightarrow> raiseWindow q window ws
      | Some active \<Rightarrow>
          if active = window \<or> window_layer q active \<noteq> window_layer q window then raiseWindow q window ws
          else let reference =
                 (if \<not> belongToSameApplication q active window
                  then case List.find (\<lambda>other. isClient q other \<and> window_layer q other = window_layer q window \<and>
                              belongToSameApplication q active other) (unconstrained_stacking_order ws) of
                         None \<Rightarrow> active
                       | Some other \<Rightarrow> other
                  else active)
               in stackBelow q window reference ws)"

text \<open>The loop of \<open>restoreSessionStackingOrder\<close>.\<close>

definition restore_place :: "window_queries \<Rightarrow> nat \<Rightarrow> nat list \<Rightarrow> nat list" where
  "restore_place q window order =
     (let order' = removeAll window order;
          later = (\<lambda>current. isX11Window q current \<and> \<not> isDeleted q current \<and> \<not> isUnmanaged q current \<and>
            sessionStackingOrder q window < sessionStackingOrder q current)
      in if list_ex later order' then insert_before_first later window order' else order' @ [window])"

definition restoreSessionStackingOrder :: "window_queries \<Rightarrow> nat \<Rightarrow> workspace \<Rightarrow> workspace option" where
  "restoreSessionStackingOrder q window ws =
     (if sessionStackingOrder q window < 0 then Some ws
      else with_blocker q (\<lambda>ws. Some (restack (restore_place q window) ws)) ws)"

text \<open>
  The children of the X root window (\<open>None\<close> when the tree is null), as the windows \<open>findUnmanaged\<close> finds
  for them.
\<close>

definition updateXStackingOrder :: "nat option list option \<Rightarrow> workspace \<Rightarrow> bool \<times> workspace" where
  "updateXStackingOrder tree ws =
     (case tree of
        None \<Rightarrow> (False, ws)
      | Some found \<Rightarrow>
          fold (\<lambda>f (changed, ws). case f of None \<Rightarrow> (changed, ws) | Some window \<Rightarrow> (True, restack (to_top window) ws))
            found (False, ws))"

section \<open>The stack and its constraints\<close>

definition Workspace_constrain :: "window_queries \<Rightarrow> nat \<Rightarrow> nat \<Rightarrow> workspace \<Rightarrow> workspace option" where
  "Workspace_constrain q lower upper ws = do {
     (updates, g) \<leftarrow> constrain lower upper (constraint_graph ws);
     let ws1 = ws\<lparr>constraint_graph := g\<rparr>;
     if updates then updateStackingOrder q False ws1 else Some ws1
   }"

definition Workspace_unconstrain :: "window_queries \<Rightarrow> nat \<Rightarrow> nat \<Rightarrow> workspace \<Rightarrow> workspace option" where
  "Workspace_unconstrain q lower upper ws = do {
     (updates, g) \<leftarrow> unconstrain lower upper (constraint_graph ws);
     let ws1 = ws\<lparr>constraint_graph := g\<rparr>;
     if updates then updateStackingOrder q False ws1 else Some ws1
   }"

definition addToStack :: "nat \<Rightarrow> workspace \<Rightarrow> workspace" where
  "addToStack window ws =
     (let ws1 = (if window \<notin> set (unconstrained_stacking_order ws)
                 then ws\<lparr>unconstrained_stacking_order := unconstrained_stacking_order ws @ [window]\<rparr> else ws)
      in if window \<notin> set (stacking_order ws1)
         then ws1\<lparr>stacking_order := stacking_order ws1 @ [window]\<rparr> else ws1)"

definition removeFromStack :: "nat \<Rightarrow> workspace \<Rightarrow> workspace option" where
  "removeFromStack window ws = do {
     g \<leftarrow> remove_constraints window (constraint_graph ws);
     Some (ws\<lparr>unconstrained_stacking_order := removeAll window (unconstrained_stacking_order ws),
              stacking_order := removeAll window (stacking_order ws),
              constraint_graph := g\<rparr>)
   }"

end
