(* ===== verification/StackingInv.thy ===== *)
theory StackingInv
  imports StackingOps
begin

text \<open>
  What the operations on the stacking order keep. \<open>settled\<close> is the contract they share: the order that
  the operation asks for, an intact constraint graph with the same constraints, the same depth of
  blockers, and, unless updates are blocked, a stacking order computed from the order asked for.
\<close>

section \<open>The invariant and the contract\<close>

definition ws_pre :: "workspace \<Rightarrow> bool" where
  "ws_pre ws \<longleftrightarrow> graph_ok (constraint_graph ws) \<and> distinct (unconstrained_stacking_order ws) \<and>
     distinct (stacking_order ws) \<and> 0 \<le> m_blockStackingUpdates ws"

definition ws_ok :: "workspace \<Rightarrow> bool" where
  "ws_ok ws \<longleftrightarrow> ws_pre ws \<and>
     (m_blockStackingUpdates ws = 0 \<longrightarrow> set (stacking_order ws) = set (unconstrained_stacking_order ws))"

definition settled :: "window_queries \<Rightarrow> workspace \<Rightarrow> nat list \<Rightarrow> workspace \<Rightarrow> bool" where
  "settled q ws order ws' \<longleftrightarrow>
     ws_ok ws' \<and> m_blockStackingUpdates ws' = m_blockStackingUpdates ws \<and>
     same_graph (constraint_graph ws) (constraint_graph ws') \<and> unconstrained_stacking_order ws' = order \<and>
     (if m_blockStackingUpdates ws = 0
      then \<exists>g. same_graph (constraint_graph ws) g \<and>
        constrainedStackingOrder (std_sort q) (computeLayer q) order g = Some (stacking_order ws', constraint_graph ws')
      else stacking_order ws' = stacking_order ws)"

text \<open>
  The windows a search can follow: parents of transients end, and so do transients of transients; the
  first argument of \<open>rank\<close> tells them apart.
\<close>

definition transients_end :: "window_queries \<Rightarrow> bool" where
  "transients_end q \<longleftrightarrow> (\<exists>rank :: bool \<Rightarrow> nat \<Rightarrow> nat.
     (\<forall>w p. transientFor q w = Some p \<longrightarrow> rank True p < rank True w) \<and>
     (\<forall>w. \<forall>t \<in> set (transients q w). rank False t < rank False w))"

lemma ws_ok_blocked: "0 < m_blockStackingUpdates ws \<Longrightarrow> ws_ok ws \<longleftrightarrow> ws_pre ws"
  by (auto simp: ws_ok_def)

lemma request_simps [simp]:
  "unconstrained_stacking_order (request r ws) = unconstrained_stacking_order ws"
  "stacking_order (request r ws) = stacking_order ws" "constraint_graph (request r ws) = constraint_graph ws"
  "m_blockStackingUpdates (request r ws) = m_blockStackingUpdates ws"
  by (simp_all add: request_def)

lemma propagateWindows_simps [simp]:
  "unconstrained_stacking_order (propagateWindows q b ws) = unconstrained_stacking_order ws"
  "stacking_order (propagateWindows q b ws) = stacking_order ws"
  "constraint_graph (propagateWindows q b ws) = constraint_graph ws"
  "m_blockStackingUpdates (propagateWindows q b ws) = m_blockStackingUpdates ws"
  by (simp_all add: propagateWindows_def Let_def)

lemma ws_pre_request [simp]: "ws_pre (request r ws) = ws_pre ws"
  by (simp add: ws_pre_def)

lemma settled_request [simp]: "settled q (request r ws) order ws' = settled q ws order ws'"
  by (simp add: settled_def)

section \<open>Updates\<close>

lemma updateStackingOrder_settles:
  assumes s: "sorter_ok (std_sort q)" and ok: "ws_pre ws"
  shows "\<exists>ws'. updateStackingOrder q b ws = Some ws' \<and> settled q ws (unconstrained_stacking_order ws) ws'"
proof (cases "0 < m_blockStackingUpdates ws")
  case True
  then show ?thesis
    using ok by (auto simp: updateStackingOrder_def settled_def ws_ok_blocked ws_pre_def)
next
  case False
  then have z: "m_blockStackingUpdates ws = 0" using ok by (simp add: ws_pre_def)
  obtain st g where r: "constrainedStackingOrder (std_sort q) (computeLayer q) (unconstrained_stacking_order ws)
      (constraint_graph ws) = Some (st, g)"
    "mset st = mset (unconstrained_stacking_order ws)" "same_graph (constraint_graph ws) g"
    using constrainedStackingOrder_returns [OF _ s] ok unfolding ws_pre_def by blast
  have d: "distinct st" "set st = set (unconstrained_stacking_order ws)"
    using r(2) ok by (auto simp: ws_pre_def dest: mset_eq_setD mset_eq_imp_distinct_iff)
  have "graph_ok g" using same_graph_ok [OF r(3)] ok by (simp add: ws_pre_def)
  moreover have "\<exists>ga. same_graph (constraint_graph ws) ga \<and>
      constrainedStackingOrder (std_sort q) (computeLayer q) (unconstrained_stacking_order ws) ga = Some (st, g)"
    using r(1) same_graph_refl by blast
  ultimately show ?thesis
    unfolding updateStackingOrder_def using z r d ok
    by (auto simp: settled_def ws_ok_def ws_pre_def Let_def)
qed

lemma with_blocker_settles:
  assumes s: "sorter_ok (std_sort q)" and ok: "ws_pre ws"
    and body: "\<And>ws1. ws_pre ws1 \<Longrightarrow> m_blockStackingUpdates ws1 = m_blockStackingUpdates ws + 1 \<Longrightarrow>
      unconstrained_stacking_order ws1 = unconstrained_stacking_order ws \<Longrightarrow>
      stacking_order ws1 = stacking_order ws \<Longrightarrow> constraint_graph ws1 = constraint_graph ws \<Longrightarrow>
      \<exists>ws2. body ws1 = Some ws2 \<and> settled q ws1 order ws2"
  shows "\<exists>ws'. with_blocker q body ws = Some ws' \<and> settled q ws order ws'"
proof -
  let ?b = "m_blockStackingUpdates ws"
  have b: "0 \<le> ?b" using ok by (simp add: ws_pre_def)
  obtain ws1 where ws1: "blockStackingUpdates q True ws = Some ws1" "ws_pre ws1" "m_blockStackingUpdates ws1 = ?b + 1"
    "unconstrained_stacking_order ws1 = unconstrained_stacking_order ws" "stacking_order ws1 = stacking_order ws"
    "constraint_graph ws1 = constraint_graph ws"
    using ok by (auto simp: blockStackingUpdates_def Let_def ws_pre_def)
  obtain ws2 where ws2: "body ws1 = Some ws2" "settled q ws1 order ws2" using body [OF ws1(2-6)] by blast
  let ?ws3 = "ws2\<lparr>m_blockStackingUpdates := m_blockStackingUpdates ws2 - 1\<rparr>"
  have s2: "ws_pre ws2" "m_blockStackingUpdates ws2 = ?b + 1" "same_graph (constraint_graph ws) (constraint_graph ws2)"
    "unconstrained_stacking_order ws2 = order" "stacking_order ws2 = stacking_order ws"
    using ws2(2) ws1 b by (simp_all add: settled_def ws_ok_def)
  have w: "with_blocker q body ws = (if ?b = 0 then updateStackingOrder q (m_blockedPropagatingNewWindows ws2) ?ws3 else Some ?ws3)"
    by (simp add: with_blocker_def ws1(1) ws2(1)) (simp add: blockStackingUpdates_def Let_def s2(2))
  show ?thesis
  proof (cases "?b = 0")
    case True
    have p: "ws_pre ?ws3" using s2(1,2) True by (simp add: ws_pre_def)
    obtain ws' where ws': "updateStackingOrder q (m_blockedPropagatingNewWindows ws2) ?ws3 = Some ws'"
      "settled q ?ws3 (unconstrained_stacking_order ?ws3) ws'"
      using updateStackingOrder_settles [OF s p] by blast
    have "settled q ws order ws'"
      using ws'(2) True s2 same_graph_trans [OF s2(3)] by (auto simp: settled_def)
    then show ?thesis using w ws'(1) True by simp
  next
    case False
    have "settled q ws order ?ws3" using False b s2 by (auto simp: settled_def ws_ok_def ws_pre_def)
    then show ?thesis using w False by simp
  qed
qed

lemma restack_settled:
  assumes ok: "ws_pre ws" and b: "0 < m_blockStackingUpdates ws" and d: "distinct (f (unconstrained_stacking_order ws))"
  shows "settled q ws (f (unconstrained_stacking_order ws)) (restack f ws)"
  using assms by (simp add: settled_def restack_def ws_ok_def ws_pre_def)

lemma settled_refl:
  assumes "ws_pre ws" "0 < m_blockStackingUpdates ws"
  shows "settled q ws (unconstrained_stacking_order ws) ws"
  using assms by (simp add: settled_def ws_ok_def)

lemma settled_trans:
  assumes "settled q ws order ws1" "0 < m_blockStackingUpdates ws" "settled q ws1 order' ws2"
  shows "settled q ws order' ws2"
  using assms by (auto simp: settled_def intro: same_graph_trans)

lemma with_blocker_restack:
  assumes s: "sorter_ok (std_sort q)" and ok: "ws_pre ws" and d: "\<And>c. distinct c \<Longrightarrow> distinct (f c)"
  shows "\<exists>ws'. with_blocker q (\<lambda>ws. Some (restack f ws)) ws = Some ws' \<and> settled q ws (f (unconstrained_stacking_order ws)) ws'"
proof (rule with_blocker_settles [OF s ok])
  fix ws1
  assume a: "ws_pre ws1" "m_blockStackingUpdates ws1 = m_blockStackingUpdates ws + 1"
    "unconstrained_stacking_order ws1 = unconstrained_stacking_order ws"
  have "distinct (f (unconstrained_stacking_order ws1))" using a(1) d by (simp add: ws_pre_def)
  then show "\<exists>ws2. Some (restack f ws1) = Some ws2 \<and> settled q ws1 (f (unconstrained_stacking_order ws)) ws2"
    using restack_settled [OF a(1)] a(2,3) ok by (auto simp: ws_pre_def)
qed

section \<open>Edits of the order\<close>

text \<open>An edit that puts the window into the order, whether it was there or not.\<close>

locale stack_edit = chain_edit +
  assumes places: "w \<in> set (f c)"
begin

lemma set_placed: "set (f c) = insert w (set c)"
  using set_others [of c] places [of c] by auto

lemma set_kept: "w \<in> set c \<Longrightarrow> set (f c) = set c"
  using set_placed [of c] by (simp add: insert_absorb)

end

lemma insert_before_first_in: "list_ex P c \<Longrightarrow> w \<in> set (insert_before_first P w c)"
  by (induction c) auto

interpretation top_edit: stack_edit "to_top w" w for w
  by unfold_locales (simp_all add: to_top_def distinct_removeAll)

interpretation bottom_edit: stack_edit "to_bottom w" w for w
  by unfold_locales (simp_all add: to_bottom_def distinct_removeAll)

interpretation above_edit: stack_edit "insert_above r w" w for r w
  by unfold_locales (simp_all add: insert_above_def Let_def distinct_removeAll_insert_at)

interpretation below_edit: stack_edit "insert_below r w" w for r w
  by unfold_locales (simp_all add: insert_below_def Let_def distinct_removeAll_insert_at)

interpretation within_edit: stack_edit "lower_within q w" w for q w
  by unfold_locales (simp_all add: lower_within_def Let_def removeAll_insert_before_first
      distinct_insert_before_first distinct_removeAll insert_before_first_in)

interpretation restore_edit: stack_edit "restore_place q w" w for q w
  by unfold_locales (simp_all add: restore_place_def Let_def removeAll_insert_before_first
      distinct_insert_before_first distinct_removeAll insert_before_first_in)

end
