(* ===== verification/StackingFamily.thy ===== *)
theory StackingFamily
  imports StackingInv
begin

text \<open>
  The searches of \<open>layers.cpp\<close>: the parents of a transient window, the transients of a window and of its
  transients, and the constraints between two windows. They return on windows whose parents and
  transients end and on constraints without cycles, and find the (transitive) relatives.
\<close>

section \<open>Parents\<close>

definition parent_rel :: "window_queries \<Rightarrow> (nat \<times> nat) set" where
  "parent_rel q = {(w, p). transientFor q w = Some p}"

definition transient_rel :: "window_queries \<Rightarrow> (nat \<times> nat) set" where
  "transient_rel q = {(w, t). t \<in> set (transients q w)}"

definition constraint_rel :: "graph \<Rightarrow> (nat \<times> nat) set" where
  "constraint_rel g = (\<lambda>c. (below_of g c, above_of g c)) ` set (m_constraints g)"

abbreviation ancestors_first :: "window_queries \<Rightarrow> nat list \<Rightarrow> bool" where
  "ancestors_first q \<equiv> sorted_wrt (\<lambda>a b. (b, a) \<in> (parent_rel q)\<^sup>+)"

lemma trancl_first:
  "(w, x) \<in> R\<^sup>+ \<longleftrightarrow> (\<exists>y. (w, y) \<in> R \<and> (y = x \<or> (y, x) \<in> R\<^sup>+))"
  by (meson trancl.simps tranclD rtranclD trancl_into_trancl2)

lemma rtrancl_first: "(w, x) \<in> R\<^sup>* \<longleftrightarrow> w = x \<or> (\<exists>y. (w, y) \<in> R \<and> (y, x) \<in> R\<^sup>*)"
  by (meson converse_rtranclE converse_rtrancl_into_rtrancl rtrancl.rtrancl_refl)

lemma transient_parents_result:
  assumes rank: "\<forall>w p. transientFor q w = Some p \<longrightarrow> rank p < (rank w :: nat)"
  shows "\<exists>ps. transient_parents q w acc = Some (ps @ acc) \<and> set ps = {p. (w, p) \<in> (parent_rel q)\<^sup>+} \<and>
    ancestors_first q (ps @ [w])"
proof (induction "rank w" arbitrary: w acc rule: less_induct)
  case less
  show ?case
  proof (cases "transientFor q w")
    case None
    then have "{p. (w, p) \<in> (parent_rel q)\<^sup>+} = {}" by (auto simp: parent_rel_def dest: tranclD)
    moreover have "transient_parents q w acc = Some acc" using None by (simp add: transient_parents.simps)
    ultimately show ?thesis by (intro exI [of _ "[]"]) simp
  next
    case (Some p)
    obtain ps where ps: "transient_parents q p (p # acc) = Some (ps @ p # acc)"
      "set ps = {x. (p, x) \<in> (parent_rel q)\<^sup>+}" "ancestors_first q (ps @ [p])"
      using less [of p "p # acc"] rank Some by blast
    have "(w, x) \<in> (parent_rel q)\<^sup>+ \<longleftrightarrow> p = x \<or> (p, x) \<in> (parent_rel q)\<^sup>+" for x
      using trancl_first [of w x "parent_rel q"] Some by (simp add: parent_rel_def)
    then have "set (ps @ [p]) = {x. (w, x) \<in> (parent_rel q)\<^sup>+}" using ps(2) by auto
    moreover from this have "ancestors_first q ((ps @ [p]) @ [w])" using ps(3) by (subst sorted_wrt_append) auto
    moreover have "transient_parents q w acc = Some ((ps @ [p]) @ acc)"
      using Some ps(1) by (simp add: transient_parents.simps [of q w])
    ultimately show ?thesis by blast
  qed
qed

lemma rank_parent:
  assumes "\<forall>w p. transientFor q w = Some p \<longrightarrow> rank p < (rank w :: nat)" "(w, p) \<in> (parent_rel q)\<^sup>+"
  shows "rank p < rank w"
  using assms(2) by (induction) (use assms(1) in \<open>auto simp: parent_rel_def intro: less_trans\<close>)

lemma ancestors_first_distinct:
  assumes rank: "\<forall>w p. transientFor q w = Some p \<longrightarrow> rank p < (rank w :: nat)" and s: "ancestors_first q ps"
  shows "distinct ps"
  using s by (induction ps) (use rank_parent [OF rank] in \<open>fastforce+\<close>)

section \<open>Transients\<close>

lemma mult1_replace:
  assumes "\<forall>t \<in> set ts. rank t < (rank w :: nat)"
  shows "(mset (map rank (ws @ ts)), mset (map rank (w # ws))) \<in> mult1 less_than"
proof -
  have "(mset (map rank ws) + mset (map rank ts), add_mset (rank w) (mset (map rank ws))) \<in> mult1 less_than"
    by (rule mult1I [of _ "rank w" "mset (map rank ws)" _ "mset (map rank ts)"]) (use assms in auto)
  then show ?thesis by simp
qed

lemma gather_transients_result:
  assumes rank: "\<forall>w. \<forall>t \<in> set (transients q w). rank t < (rank w :: nat)"
  shows "\<exists>more. gather_transients q (length visited) (visited @ todo) = Some (visited @ more) \<and>
    set more = (transient_rel q)\<^sup>* `` set todo"
proof -
  have "wf (inv_image (mult1 less_than) (\<lambda>todo. mset (map rank todo)))" by (simp add: wf_mult1)
  then show ?thesis
  proof (induction todo arbitrary: visited rule: wf_induct_rule)
    case (less todo)
    show ?case
    proof (cases todo)
      case Nil
      then show ?thesis by (intro exI [of _ "[]"]) (simp add: gather_transients.simps)
    next
      case (Cons w ws)
      let ?ts = "transients q w"
      have "(ws @ ?ts, todo) \<in> inv_image (mult1 less_than) (\<lambda>todo. mset (map rank todo))"
        unfolding Cons in_inv_image by (rule mult1_replace) (use rank in blast)
      from less [OF this, of "visited @ [w]"] obtain more where more:
        "gather_transients q (Suc (length visited)) (visited @ w # ws @ ?ts) = Some (visited @ w # more)"
        "set more = (transient_rel q)\<^sup>* `` set (ws @ ?ts)" by auto
      have "gather_transients q (length visited) (visited @ todo) = Some (visited @ w # more)"
        unfolding gather_transients.simps [of q "length visited"] using more(1) by (simp add: Cons nth_append)
      moreover have "(transient_rel q)\<^sup>* `` {w} = insert w ((transient_rel q)\<^sup>* `` set ?ts)"
      proof -
        have "(w, x) \<in> (transient_rel q)\<^sup>* \<longleftrightarrow> w = x \<or> (\<exists>t \<in> set ?ts. (t, x) \<in> (transient_rel q)\<^sup>*)" for x
          using rtrancl_first [of w x "transient_rel q"] by (auto simp: transient_rel_def)
        then show ?thesis by auto
      qed
      then have "set (w # more) = (transient_rel q)\<^sup>* `` set todo"
        unfolding Cons using more(2) by (auto simp: Image_Un)
      ultimately show ?thesis by blast
    qed
  qed
qed

section \<open>Constraints\<close>

lemma any_child_result:
  assumes "\<forall>d \<in> set cs. cells g d \<noteq> None \<and> rec (below_of g d) = Some (P (below_of g d))"
  shows "any_child rec g cs = Some (\<exists>d \<in> set cs. P (below_of g d))"
  using assms by (induction cs) auto

lemma any_constraint_result:
  assumes "\<forall>c \<in> set cs. cells g c \<noteq> None"
    and "\<forall>c \<in> set cs. below_of g c = lower \<longrightarrow> any_child rec g (children_of g c) = Some (P c)"
  shows "any_constraint rec g lower upper cs = Some (\<exists>c \<in> set cs. below_of g c = lower \<and> (above_of g c = upper \<or> P c))"
  using assms by (induction cs) (auto split: if_splits)

lemma areConstrained_result:
  assumes ok: "graph_ok g" and acyclic: "acyclic_graph g"
  shows "areConstrained g lower upper = Some ((lower, upper) \<in> (constraint_rel g)\<^sup>+)"
proof -
  let ?ms = "m_constraints g" and ?R = "(constraint_rel g)\<^sup>+"
  obtain rank :: "nat \<Rightarrow> nat" where rank: "\<And>c. c \<in> set ?ms \<Longrightarrow> rank (below_of g c) < rank (above_of g c)"
    using acyclic unfolding acyclic_graph_def by blast
  define top where "top = Max (insert 0 ((\<lambda>c. rank (above_of g c)) ` set ?ms))"
  have top: "rank (above_of g c) \<le> top" if "c \<in> set ?ms" for c using that by (simp add: top_def)
  have live: "\<forall>c \<in> set ?ms. cells g c \<noteq> None" using ok by (auto simp: graph_ok_def live_ok_def)
  have step: "(w, x) \<in> ?R \<longleftrightarrow> (\<exists>c \<in> set ?ms. below_of g c = w \<and> (above_of g c = x \<or> (above_of g c, x) \<in> ?R))" for w x
    by (subst trancl_first) (auto simp: constraint_rel_def)
  show ?thesis
  proof (induction "top - rank lower" arbitrary: lower rule: less_induct)
    case less
    have child: "any_child (\<lambda>w. areConstrained g w upper) g (children_of g c) = Some ((above_of g c, upper) \<in> ?R)"
      if c: "c \<in> set ?ms" "below_of g c = lower" for c
    proof -
      have ch: "set (children_of g c) = {d \<in> set ?ms. below_of g d = above_of g c}"
        by (rule acyclic_children [OF ok acyclic c(1)])
      have "areConstrained g (above_of g c) upper = Some ((above_of g c, upper) \<in> ?R)"
        using less rank [OF c(1)] top [OF c(1)] c(2) by simp
      then have "any_child (\<lambda>w. areConstrained g w upper) g (children_of g c) =
          Some (\<exists>d \<in> set (children_of g c). (below_of g d, upper) \<in> ?R)"
        using ch live by (intro any_child_result) auto
      also have "(\<exists>d \<in> set (children_of g c). (below_of g d, upper) \<in> ?R) \<longleftrightarrow> (above_of g c, upper) \<in> ?R"
        using step [of "above_of g c" upper] unfolding ch by auto
      finally show ?thesis .
    qed
    have "areConstrained g lower upper =
        Some (\<exists>c \<in> set ?ms. below_of g c = lower \<and> (above_of g c = upper \<or> (above_of g c, upper) \<in> ?R))"
      by (subst areConstrained.simps) (intro any_constraint_result live ballI impI child; assumption)
    then show ?case using step [of lower upper] by simp
  qed
qed

end
