(* ===== verification/StackingMoves.thy ===== *)
theory StackingMoves
  imports StackingFamily
begin

text \<open>
  What raising, lowering and restacking do to the order of the windows, as instances of the contract
  \<open>settled\<close>; and that every operation returns and keeps the invariant.
\<close>

section \<open>Several windows\<close>

lemma fold_to_top: "distinct ws \<Longrightarrow> fold to_top ws order = filter (\<lambda>x. x \<notin> set ws) order @ ws"
proof (induction ws arbitrary: order)
  case (Cons w ws)
  have "filter (\<lambda>x. x \<notin> set ws) (removeAll w order) = filter (\<lambda>x. x \<notin> set (w # ws)) order"
    by (induction order) auto
  then show ?case using Cons by (simp add: to_top_def)
qed simp

lemma fold_to_bottom: "distinct ws \<Longrightarrow> fold to_bottom (rev ws) order = ws @ filter (\<lambda>x. x \<notin> set ws) order"
proof (induction ws)
  case (Cons w ws)
  have "removeAll w (filter (\<lambda>x. x \<notin> set ws) order) = filter (\<lambda>x. x \<notin> set (w # ws)) order"
    by (induction order) auto
  then show ?case using Cons by (simp add: to_bottom_def)
qed simp

lemma distinct_fold_to_bottom: "distinct order \<Longrightarrow> distinct (fold to_bottom ws order)"
  by (induction ws arbitrary: order) (simp_all add: bottom_edit.keeps_distinct)

lemma distinct_fold_to_top: "distinct order \<Longrightarrow> distinct (fold to_top ws order)"
  by (induction ws arbitrary: order) (simp_all add: top_edit.keeps_distinct)

lemma fold_unless: "fold (\<lambda>w. if P w then id else f w) ws = fold f (filter (\<lambda>w. \<not> P w) ws)"
  by (induction ws) auto

lemma ensureStackingOrderInList_result:
  assumes d: "distinct stacking"
  shows "ensureStackingOrderInList stacking list =
    (if length list < 2 then list else filter (\<lambda>w. w \<notin> set stacking) list @ filter (\<lambda>w. w \<in> set list) stacking)"
proof -
  let ?f = "\<lambda>w result. if w \<in> set result then removeAll w result @ [w] else result"
  have "fold ?f stacking list = filter (\<lambda>w. w \<notin> set stacking) list @ filter (\<lambda>w. w \<in> set list) stacking"
    using d
  proof (induction stacking arbitrary: list)
    case (Cons s st)
    let ?l = "?f s list"
    have s: "set ?l = set list" by auto
    have "fold ?f (s # st) list = filter (\<lambda>w. w \<notin> set st) ?l @ filter (\<lambda>w. w \<in> set ?l) st"
      using Cons by simp
    also have "filter (\<lambda>w. w \<notin> set st) ?l = filter (\<lambda>w. w \<notin> set (s # st)) list @ (if s \<in> set list then [s] else [])"
    proof (cases "s \<in> set list")
      case True
      have "filter (\<lambda>w. w \<notin> set st) (removeAll s list) = filter (\<lambda>w. w \<notin> set (s # st)) list" by (induction list) auto
      then show ?thesis using True Cons.prems by simp
    next
      case False
      then show ?thesis by (auto intro: filter_cong)
    qed
    finally show ?case unfolding s by simp
  qed simp
  then show ?thesis by (simp add: ensureStackingOrderInList_def)
qed

lemma filter_single: "distinct xs \<Longrightarrow> w \<in> set xs \<Longrightarrow> P w \<Longrightarrow> filter (\<lambda>x. x = w \<and> P x) xs = [w]"
  by (induction xs) (auto simp: filter_empty_conv)

lemma ensureStackingOrderInList_inside:
  assumes "distinct stacking" "set list \<subseteq> set stacking"
  shows "ensureStackingOrderInList stacking list = filter (\<lambda>w. w \<in> set list) stacking"
proof (cases "length list < 2")
  case True
  then consider "list = []" | w where "list = [w]" by (cases list; cases "tl list") auto
  then show ?thesis
  proof cases
    case 2
    then have w: "w \<in> set stacking" using assms(2) by simp
    have "filter (\<lambda>x. x = w) stacking = [w]" using filter_single [OF assms(1) w, of "\<lambda>x. True"] by simp
    then show ?thesis using 2 by (simp add: ensureStackingOrderInList_def)
  qed (simp add: ensureStackingOrderInList_def)
next
  case False
  have "filter (\<lambda>w. w \<notin> set stacking) list = []" using assms(2) by (auto simp: filter_empty_conv)
  then show ?thesis using False ensureStackingOrderInList_result [OF assms(1)] by simp
qed

lemma each_window_settles:
  assumes step: "\<And>w ws. ws_pre ws \<Longrightarrow> 0 < m_blockStackingUpdates ws \<Longrightarrow>
      \<exists>ws'. op w ws = Some ws' \<and> settled q ws (f w (unconstrained_stacking_order ws)) ws'"
    and ok: "ws_pre ws" "0 < m_blockStackingUpdates ws"
  shows "\<exists>ws'. each_window op windows ws = Some ws' \<and>
    settled q ws (fold f windows (unconstrained_stacking_order ws)) ws'"
  using ok
proof (induction windows arbitrary: ws)
  case Nil
  then show ?case by (simp add: settled_refl)
next
  case (Cons w windows)
  obtain ws1 where ws1: "op w ws = Some ws1" "settled q ws (f w (unconstrained_stacking_order ws)) ws1"
    using step Cons.prems by blast
  have "ws_pre ws1" "0 < m_blockStackingUpdates ws1"
    "unconstrained_stacking_order ws1 = f w (unconstrained_stacking_order ws)"
    using ws1(2) Cons.prems(2) by (simp_all add: settled_def ws_ok_def)
  then show ?case using Cons.IH [of ws1] ws1 settled_trans [OF ws1(2) Cons.prems(2)] by auto
qed

section \<open>Raising\<close>

lemma nogroup_settles:
  assumes s: "sorter_ok (std_sort q)" and ok: "ws_pre ws" "0 < m_blockStackingUpdates ws"
  shows "\<exists>ws'. raiseWindow_nogroup q w ws = Some ws' \<and>
      settled q ws ((if isDeleted q w then id else to_top w) (unconstrained_stacking_order ws)) ws'"
    and "\<exists>ws'. lowerWindow_nogroup q w ws = Some ws' \<and>
      settled q ws ((if isDeleted q w then id else to_bottom w) (unconstrained_stacking_order ws)) ws'"
  using with_blocker_restack [OF s, of "request (CancelAutoRaise w) ws" "to_top w"]
    with_blocker_restack [OF s, of "request (CancelAutoRaise w) ws" "to_bottom w"] ok
  by (simp_all add: raiseWindow_nogroup_def lowerWindow_nogroup_def settled_refl
      top_edit.keeps_distinct bottom_edit.keeps_distinct)

lemma sorted_wrt_filterI: "sorted_wrt R xs \<Longrightarrow> sorted_wrt R (filter P xs)"
  by (induction xs) auto

lemma raiseWindow_settles:
  assumes s: "sorter_ok (std_sort q)" and t: "transients_end q" and ok: "ws_pre ws" and n: "\<not> isDeleted q w"
  shows "\<exists>ps ws'. raiseWindow q w ws = Some ws' \<and> ancestors_first q (ps @ [w]) \<and>
    set ps = (if isTransient q w then {p. (w, p) \<in> (parent_rel q)\<^sup>+ \<and> \<not> isDeleted q p} else {}) \<and>
    settled q ws (filter (\<lambda>x. x \<notin> set (ps @ [w])) (unconstrained_stacking_order ws) @ ps @ [w]) ws'"
proof -
  obtain rank :: "nat \<Rightarrow> nat" where rank: "\<forall>w p. transientFor q w = Some p \<longrightarrow> rank p < rank w"
    using t unfolding transients_end_def by blast
  let ?order = "unconstrained_stacking_order ws"
  obtain all where all: "transient_parents q w [] = Some all" "set all = {p. (w, p) \<in> (parent_rel q)\<^sup>+}"
    "ancestors_first q (all @ [w])"
    using transient_parents_result [OF rank, of w "[]"] by auto
  define parents where "parents = (if isTransient q w then all else [])"
  define ps where "ps = filter (\<lambda>p. \<not> isDeleted q p) parents"
  have af: "ancestors_first q (ps @ [w])"
    using sorted_wrt_filterI [OF all(3), of "\<lambda>p. \<not> isDeleted q p"] n by (simp add: ps_def parents_def)
  then have d: "distinct (ps @ [w])" by (rule ancestors_first_distinct [OF rank])
  let ?body = "\<lambda>ws. do {
        ws1 \<leftarrow> (if isTransient q w
                then do { parents \<leftarrow> transient_parents q w []; each_window (raiseWindow_nogroup q) parents ws }
                else Some ws);
        Some (restack (to_top w) ws1)
      }"
  let ?result = "filter (\<lambda>x. x \<notin> set (ps @ [w])) ?order @ ps @ [w]"
  have "\<exists>ws'. with_blocker q ?body (request (CancelAutoRaise w) ws) = Some ws' \<and>
      settled q (request (CancelAutoRaise w) ws) ?result ws'"
  proof (rule with_blocker_settles [OF s])
    show "ws_pre (request (CancelAutoRaise w) ws)" using ok by simp
    fix ws1
    assume a: "ws_pre ws1" "m_blockStackingUpdates ws1 = m_blockStackingUpdates (request (CancelAutoRaise w) ws) + 1"
      "unconstrained_stacking_order ws1 = unconstrained_stacking_order (request (CancelAutoRaise w) ws)"
    have b: "0 < m_blockStackingUpdates ws1" using a(2) ok by (simp add: ws_pre_def)
    obtain ws2 where ws2: "each_window (raiseWindow_nogroup q) parents ws1 = Some ws2"
      "settled q ws1 (fold (\<lambda>p. if isDeleted q p then id else to_top p) parents ?order) ws2"
      using each_window_settles [where f = "\<lambda>p. if isDeleted q p then id else to_top p",
          OF nogroup_settles(1) [OF s] a(1) b] a(3) by auto
    have "?body ws1 = Some (restack (to_top w) ws2)"
      using ws2(1) all(1) by (auto simp: parents_def)
    moreover have "settled q ws1 (to_top w (fold to_top ps ?order)) (restack (to_top w) ws2)"
    proof -
      have r: "ws_pre ws2" "0 < m_blockStackingUpdates ws2" "unconstrained_stacking_order ws2 = fold to_top ps ?order"
        using ws2(2) b by (simp_all add: settled_def ws_ok_def fold_unless ps_def)
      have "settled q ws2 (to_top w (unconstrained_stacking_order ws2)) (restack (to_top w) ws2)"
        by (rule restack_settled [OF r(1,2)]) (use r(1) in \<open>simp add: ws_pre_def top_edit.keeps_distinct\<close>)
      then show ?thesis using settled_trans [OF ws2(2) b] by (simp add: r(3))
    qed
    moreover have "to_top w (fold to_top ps ?order) = ?result" using fold_to_top [OF d, of ?order] by simp
    ultimately show "\<exists>ws2. ?body ws1 = Some ws2 \<and> settled q ws1 ?result ws2" by auto
  qed
  then obtain ws' where "raiseWindow q w ws = Some ws'" "settled q ws ?result ws'"
    by (auto simp: raiseWindow_def n)
  moreover have "set ps = (if isTransient q w then {p. (w, p) \<in> (parent_rel q)\<^sup>+ \<and> \<not> isDeleted q p} else {})"
    using all(2) by (auto simp: ps_def parents_def)
  ultimately show ?thesis using af by blast
qed

section \<open>Lowering\<close>

text \<open>The window with which \<open>lowerWindow\<close> starts, and the windows that go down with it.\<close>

definition lower_root :: "window_queries \<Rightarrow> nat \<Rightarrow> workspace \<Rightarrow> nat" where
  "lower_root q w ws = (if allMainWindows q w = [] then w else hd (ensureStackingOrder (allMainWindows q w) ws))"

definition lowered_together :: "window_queries \<Rightarrow> nat \<Rightarrow> workspace \<Rightarrow> nat set" where
  "lowered_together q w ws =
     (if \<not> isTransient q w \<and> transients q w = [] then {w} else (transient_rel q)\<^sup>* `` {lower_root q w ws})"

lemma lowerWindow_settles:
  assumes s: "sorter_ok (std_sort q)" and t: "transients_end q" and ok: "ws_pre ws" and n: "\<not> isDeleted q w"
  shows "\<exists>family ws'. lowerWindow q w ws = Some ws' \<and>
    settled q ws (fold to_bottom (rev family) (unconstrained_stacking_order ws)) ws' \<and>
    (lowered_together q w ws \<subseteq> set (stacking_order ws) \<longrightarrow>
       family = filter (\<lambda>x. x \<in> lowered_together q w ws \<and> \<not> isDeleted q x) (stacking_order ws))"
proof -
  let ?order = "unconstrained_stacking_order ws" and ?alone = "\<not> isTransient q w \<and> transients q w = []"
  obtain rank :: "nat \<Rightarrow> nat" where rank: "\<forall>w. \<forall>t \<in> set (transients q w). rank t < rank w"
    using t unfolding transients_end_def by blast
  obtain windows where windows: "gather_transients q 0 [lower_root q w ws] = Some windows"
    "set windows = (transient_rel q)\<^sup>* `` {lower_root q w ws}"
    using gather_transients_result [OF rank, of "[]" "[lower_root q w ws]"] by auto
  define family where
    "family = (if ?alone then [w] else filter (\<lambda>x. \<not> isDeleted q x) (ensureStackingOrder windows ws))"
  let ?body = "\<lambda>ws. if ?alone then Some (restack (to_bottom w) ws)
        else do {
          let mainWindows = allMainWindows q w;
          let parent = (if mainWindows = [] then w else hd (ensureStackingOrder mainWindows ws));
          windows \<leftarrow> gather_transients q 0 [parent];
          each_window (lowerWindow_nogroup q) (rev (ensureStackingOrder windows ws)) ws
        }"
  let ?result = "fold to_bottom (rev family) ?order"
  have "\<exists>ws'. with_blocker q ?body (request (CancelAutoRaise w) ws) = Some ws' \<and>
      settled q (request (CancelAutoRaise w) ws) ?result ws'"
  proof (rule with_blocker_settles [OF s])
    show "ws_pre (request (CancelAutoRaise w) ws)" using ok by simp
    fix ws1
    assume a: "ws_pre ws1" "m_blockStackingUpdates ws1 = m_blockStackingUpdates (request (CancelAutoRaise w) ws) + 1"
      "unconstrained_stacking_order ws1 = unconstrained_stacking_order (request (CancelAutoRaise w) ws)"
      "stacking_order ws1 = stacking_order (request (CancelAutoRaise w) ws)"
    have b: "0 < m_blockStackingUpdates ws1" using a(2) ok by (simp add: ws_pre_def)
    show "\<exists>ws2. ?body ws1 = Some ws2 \<and> settled q ws1 ?result ws2"
    proof (cases ?alone)
      case True
      have "settled q ws1 (to_bottom w (unconstrained_stacking_order ws1)) (restack (to_bottom w) ws1)"
        by (rule restack_settled [OF a(1) b]) (use a(1) in \<open>simp add: ws_pre_def bottom_edit.keeps_distinct\<close>)
      then show ?thesis using True a(3) by (simp add: family_def)
    next
      case False
      have e: "ensureStackingOrder l ws1 = ensureStackingOrder l ws" for l using a(4) by (simp add: ensureStackingOrder_def)
      have e1: "?body ws1 = each_window (lowerWindow_nogroup q) (rev (ensureStackingOrder windows ws)) ws1"
        unfolding e lower_root_def [symmetric] using False windows(1) by (auto simp: Let_def lower_root_def)
      obtain ws2 where ws2:
        "each_window (lowerWindow_nogroup q) (rev (ensureStackingOrder windows ws)) ws1 = Some ws2"
        "settled q ws1 (fold (\<lambda>p. if isDeleted q p then id else to_bottom p) (rev (ensureStackingOrder windows ws)) ?order) ws2"
        using each_window_settles [where f = "\<lambda>p. if isDeleted q p then id else to_bottom p",
            OF nogroup_settles(2) [OF s] a(1) b] a(3) by auto
      have r: "?result = fold (\<lambda>p. if isDeleted q p then id else to_bottom p) (rev (ensureStackingOrder windows ws)) ?order"
        using False by (auto simp: fold_unless family_def rev_filter)
      show ?thesis unfolding r by (rule exI [of _ ws2], rule conjI, rule trans [OF e1 ws2(1)], rule ws2(2))
    qed
  qed
  then obtain ws' where "lowerWindow q w ws = Some ws'" "settled q ws ?result ws'"
    by (auto simp: lowerWindow_def n)
  moreover have "family = filter (\<lambda>x. x \<in> lowered_together q w ws \<and> \<not> isDeleted q x) (stacking_order ws)"
    if sub: "lowered_together q w ws \<subseteq> set (stacking_order ws)"
  proof (cases ?alone)
    case True
    have "distinct (stacking_order ws)" "w \<in> set (stacking_order ws)"
      using ok sub True by (simp_all add: ws_pre_def lowered_together_def)
    then have "filter (\<lambda>x. x = w \<and> \<not> isDeleted q x) (stacking_order ws) = [w]"
      using n by (intro filter_single)
    then show ?thesis using True by (simp add: family_def lowered_together_def)
  next
    case False
    then have l: "lowered_together q w ws = set windows" using windows(2) by (auto simp: lowered_together_def)
    have "ensureStackingOrder windows ws = filter (\<lambda>x. x \<in> set windows) (stacking_order ws)"
      unfolding ensureStackingOrder_def
      by (rule ensureStackingOrderInList_inside) (use ok sub l in \<open>simp_all add: ws_pre_def\<close>)
    then show ?thesis using False unfolding l by (auto simp: family_def conj_commute)
  qed
  ultimately show ?thesis by blast
qed

end
