(* ===== verification/StackingEvents.thy ===== *)
theory StackingEvents
  imports StackingMoves
begin

text \<open>
  The public operations on the stacking order as the events of a step relation. \<open>admissible\<close> states what a
  caller has to ensure: blockers are released as often as they are taken, \<open>stackBelow\<close> and \<open>stackAbove\<close> get
  a window of the stack as reference (an assertion of the code), override-redirect windows that the X
  server reports have been added, and \<open>raiseOrLowerWindow\<close> searches constraints without cycles.
\<close>

datatype stack_event =
    Block_updates bool
  | Update_order bool
  | Force_restacking
  | Raise nat
  | Lower nat
  | Raise_within nat
  | Lower_within nat
  | Raise_or_lower nat
  | Raise_request nat request_source nat
  | Lower_request nat request_source
  | Stack_below nat nat
  | Stack_above nat nat
  | Restack_under_active nat
  | Restore_session nat
  | X_order "nat option list option"
  | Constrain nat nat
  | Unconstrain nat nat
  | Add_window nat
  | Remove_window nat

fun run_stack :: "window_queries \<Rightarrow> stack_event \<Rightarrow> workspace \<Rightarrow> workspace option" where
  "run_stack q (Block_updates b) ws = blockStackingUpdates q b ws"
| "run_stack q (Update_order b) ws = updateStackingOrder q b ws"
| "run_stack q Force_restacking ws = forceRestacking q ws"
| "run_stack q (Raise w) ws = raiseWindow q w ws"
| "run_stack q (Lower w) ws = lowerWindow q w ws"
| "run_stack q (Raise_within w) ws = raiseWindowWithinApplication q w ws"
| "run_stack q (Lower_within w) ws = lowerWindowWithinApplication q w ws"
| "run_stack q (Raise_or_lower w) ws = raiseOrLowerWindow q w ws"
| "run_stack q (Raise_request w src t) ws = raiseWindowRequest q w src t ws"
| "run_stack q (Lower_request w src) ws = lowerWindowRequest q w src ws"
| "run_stack q (Stack_below w r) ws = stackBelow q w r ws"
| "run_stack q (Stack_above w r) ws = stackAbove q w r ws"
| "run_stack q (Restack_under_active w) ws = restackWindowUnderActive q w ws"
| "run_stack q (Restore_session w) ws = restoreSessionStackingOrder q w ws"
| "run_stack q (X_order tree) ws = Some (snd (updateXStackingOrder tree ws))"
| "run_stack q (Constrain a b) ws = Workspace_constrain q a b ws"
| "run_stack q (Unconstrain a b) ws = Workspace_unconstrain q a b ws"
| "run_stack q (Add_window w) ws = Some (addToStack w ws)"
| "run_stack q (Remove_window w) ws = removeFromStack w ws"

fun admissible :: "window_queries \<Rightarrow> stack_event \<Rightarrow> workspace \<Rightarrow> bool" where
  "admissible q (Block_updates b) ws \<longleftrightarrow> b \<or> 0 < m_blockStackingUpdates ws"
| "admissible q (Raise_or_lower w) ws \<longleftrightarrow> acyclic_graph (constraint_graph ws)"
| "admissible q (Stack_below w r) ws \<longleftrightarrow> r \<in> set (unconstrained_stacking_order ws)"
| "admissible q (Stack_above w r) ws \<longleftrightarrow> r \<in> set (unconstrained_stacking_order ws)"
| "admissible q (Restack_under_active w) ws \<longleftrightarrow>
     (case workspace_activeWindow q of None \<Rightarrow> True | Some a \<Rightarrow> a \<in> set (unconstrained_stacking_order ws))"
| "admissible q (X_order tree) ws \<longleftrightarrow>
     (case tree of None \<Rightarrow> True
      | Some found \<Rightarrow> list_all (\<lambda>f. case f of None \<Rightarrow> True | Some w \<Rightarrow> w \<in> set (unconstrained_stacking_order ws)) found)"
| "admissible q e ws \<longleftrightarrow> True"

definition workspace_new :: "(nat, nat) focus_chain \<Rightarrow> workspace" where
  "workspace_new fc =
     \<lparr>unconstrained_stacking_order = [], stacking_order = [], constraint_graph = graph_new, m_blockStackingUpdates = 0,
      m_blockedPropagatingNewWindows = False, force_restacking = False, m_focusChain = fc,
      window_stackingOrder = (\<lambda>w. 0), requests = []\<rparr>"

text \<open>What the windows answer can be different at every step.\<close>

inductive stack_reachable :: "workspace \<Rightarrow> bool" where
  stack_start: "stack_reachable (workspace_new fc)"
| stack_step: "stack_reachable ws \<Longrightarrow> sorter_ok (std_sort q) \<Longrightarrow> transients_end q \<Longrightarrow> admissible q e ws \<Longrightarrow>
    run_stack q e ws = Some ws' \<Longrightarrow> stack_reachable ws'"

section \<open>Every operation returns and keeps the invariant\<close>

definition returns_ok :: "workspace option \<Rightarrow> bool" where
  "returns_ok r \<longleftrightarrow> (\<exists>ws'. r = Some ws' \<and> ws_ok ws')"

lemma returns_okI [intro]: "ws_ok ws \<Longrightarrow> returns_ok (Some ws)"
  by (simp add: returns_ok_def)

lemma returns_ok_settled: "\<exists>ws'. r = Some ws' \<and> settled q ws order ws' \<Longrightarrow> returns_ok r"
  by (auto simp: returns_ok_def settled_def)

lemma ws_okD: "ws_ok ws \<Longrightarrow> ws_pre ws"
  by (simp add: ws_ok_def)

lemma update_returns: "sorter_ok (std_sort q) \<Longrightarrow> ws_pre ws \<Longrightarrow> returns_ok (updateStackingOrder q b ws)"
  by (rule returns_ok_settled, rule updateStackingOrder_settles)

lemma block_returns:
  assumes "sorter_ok (std_sort q)" "ws_ok ws" "b \<or> 0 < m_blockStackingUpdates ws"
  shows "returns_ok (blockStackingUpdates q b ws)"
proof (cases b)
  case True
  then show ?thesis using assms(2) by (auto simp: blockStackingUpdates_def Let_def ws_ok_def ws_pre_def)
next
  case False
  let ?ws = "ws\<lparr>m_blockStackingUpdates := m_blockStackingUpdates ws - 1\<rparr>"
  have p: "ws_pre ?ws" using assms False by (auto simp: ws_ok_def ws_pre_def)
  moreover have "ws_ok ?ws" if "m_blockStackingUpdates ws \<noteq> 1" using p that by (simp add: ws_ok_def)
  ultimately show ?thesis
    using False update_returns [OF assms(1) p] by (auto simp: blockStackingUpdates_def Let_def)
qed

lemma force_returns:
  assumes s: "sorter_ok (std_sort q)" and ok: "ws_pre ws"
  shows "returns_ok (forceRestacking q ws)"
  unfolding forceRestacking_def
proof (rule returns_ok_settled [OF with_blocker_settles [OF s]])
  show p: "ws_pre (ws\<lparr>force_restacking := True\<rparr>)" using ok by (simp add: ws_pre_def)
  fix ws1
  assume "ws_pre ws1" "m_blockStackingUpdates ws1 = m_blockStackingUpdates (ws\<lparr>force_restacking := True\<rparr>) + 1"
    "unconstrained_stacking_order ws1 = unconstrained_stacking_order (ws\<lparr>force_restacking := True\<rparr>)"
  then show "\<exists>ws2. Some ws1 = Some ws2 \<and> settled q ws1 (unconstrained_stacking_order ws) ws2"
    using settled_refl [of ws1 q] p by (auto simp: ws_pre_def)
qed

lemma raise_returns:
  assumes "sorter_ok (std_sort q)" "transients_end q" "ws_ok ws"
  shows "returns_ok (raiseWindow q w ws)"
proof (cases "isDeleted q w")
  case False
  then show ?thesis using raiseWindow_settles [OF assms(1,2) ws_okD [OF assms(3)] False] returns_ok_settled by blast
qed (use assms(3) in \<open>auto simp: raiseWindow_def\<close>)

lemma lower_returns:
  assumes "sorter_ok (std_sort q)" "transients_end q" "ws_ok ws"
  shows "returns_ok (lowerWindow q w ws)"
proof (cases "isDeleted q w")
  case False
  then show ?thesis using lowerWindow_settles [OF assms(1,2) ws_okD [OF assms(3)] False] returns_ok_settled by blast
qed (use assms(3) in \<open>auto simp: lowerWindow_def\<close>)

lemma with_blocker_restack_returns:
  assumes "sorter_ok (std_sort q)" "ws_pre ws" "\<And>c. distinct c \<Longrightarrow> distinct (f c)"
  shows "returns_ok (with_blocker q (\<lambda>ws. Some (restack f ws)) ws)"
  using with_blocker_restack [of q ws f] assms by (intro returns_ok_settled) blast

lemma lower_within_returns:
  assumes "sorter_ok (std_sort q)" "ws_ok ws"
  shows "returns_ok (lowerWindowWithinApplication q w ws)"
  using with_blocker_restack_returns [OF assms(1), of "request (CancelAutoRaise w) ws" "lower_within q w"]
    within_edit.keeps_distinct assms(2) by (auto simp: lowerWindowWithinApplication_def ws_ok_def)

lemma restore_returns:
  assumes "sorter_ok (std_sort q)" "ws_ok ws"
  shows "returns_ok (restoreSessionStackingOrder q w ws)"
  using with_blocker_restack_returns [OF assms(1), of ws "restore_place q w"]
    restore_edit.keeps_distinct assms(2) by (auto simp: restoreSessionStackingOrder_def ws_ok_def)

lemma raise_within_settles:
  assumes s: "sorter_ok (std_sort q)" and ok: "ws_pre ws" and n: "\<not> isDeleted q w"
  shows "\<exists>ws'. raiseWindowWithinApplication q w ws = Some ws' \<and>
    settled q ws (case topmost_mate q w (rev (unconstrained_stacking_order ws)) of
        None \<Rightarrow> unconstrained_stacking_order ws
      | Some other \<Rightarrow> insert_above other w (unconstrained_stacking_order ws)) ws'"
proof -
  let ?ws = "request (CancelAutoRaise w) ws"
  let ?f = "\<lambda>order. case topmost_mate q w (rev order) of None \<Rightarrow> order | Some other \<Rightarrow> insert_above other w order"
  let ?body = "\<lambda>ws. Some (case topmost_mate q w (rev (unconstrained_stacking_order ws)) of
                None \<Rightarrow> ws | Some other \<Rightarrow> restack (insert_above other w) ws)"
  have body: "?body = (\<lambda>ws. Some (restack ?f ws))" by (rule ext) (simp add: restack_def split: option.splits)
  have d: "distinct (?f c)" if "distinct c" for c
    using above_edit.keeps_distinct that by (simp split: option.splits)
  show ?thesis
    using with_blocker_restack [OF s, of ?ws ?f] ok d n
    unfolding raiseWindowWithinApplication_def body by (simp cong: option.case_cong)
qed

lemma raise_within_returns:
  assumes "sorter_ok (std_sort q)" "ws_ok ws"
  shows "returns_ok (raiseWindowWithinApplication q w ws)"
proof (cases "isDeleted q w")
  case False
  then show ?thesis using raise_within_settles [OF assms(1) ws_okD [OF assms(2)]] by (intro returns_ok_settled)
qed (use assms(2) in \<open>auto simp: raiseWindowWithinApplication_def\<close>)

lemma is_topmost_returns:
  assumes "graph_ok g" "acyclic_graph g"
  shows "\<exists>b. is_topmost q g w desktop out others = Some b"
  by (induction others) (auto simp: areConstrained_result [OF assms])

lemma raise_or_lower_returns:
  assumes a: "sorter_ok (std_sort q)" "transients_end q" "ws_ok ws" and g: "acyclic_graph (constraint_graph ws)"
  shows "returns_ok (raiseOrLowerWindow q w ws)"
proof -
  have "graph_ok (constraint_graph ws)" using a(3) by (simp add: ws_ok_def ws_pre_def)
  then obtain b where "is_topmost q (constraint_graph ws) w (currentDesktop q (window_output q w))
      (if isSeparateScreenFocus q then Some (window_output q w) else None)
      (rev (unconstrained_stacking_order ws)) = Some b"
    using is_topmost_returns [OF _ g] by blast
  then show ?thesis
    using raise_returns [OF a] lower_returns [OF a] a(3) by (auto simp: raiseOrLowerWindow_def Let_def)
qed

lemma stack_next_to_returns:
  assumes s: "sorter_ok (std_sort q)" and ok: "ws_ok ws" and r: "r \<in> set (unconstrained_stacking_order ws)"
  shows "returns_ok (stackBelow q w r ws)" "returns_ok (stackAbove q w r ws)"
proof -
  have d: "distinct (unconstrained_stacking_order ws)" using ok by (simp add: ws_ok_def ws_pre_def)
  have p: "ws_pre (restack f ws\<lparr>m_focusChain := fc\<rparr>)" if "distinct (f (unconstrained_stacking_order ws))" for f fc
    using ok that by (simp add: ws_ok_def ws_pre_def restack_def)
  show "returns_ok (stackBelow q w r ws)"
    using ok r update_returns [OF s p [of "insert_below r w", OF below_edit.keeps_distinct [OF d]]]
    by (auto simp: stackBelow_def Let_def)
  show "returns_ok (stackAbove q w r ws)"
    using ok r update_returns [OF s p [of "insert_above r w", OF above_edit.keeps_distinct [OF d]]]
    by (auto simp: stackAbove_def Let_def)
qed

lemma under_active_returns:
  assumes s: "sorter_ok (std_sort q)" "transients_end q" and ok: "ws_ok ws"
    and r: "admissible q (Restack_under_active w) ws"
  shows "returns_ok (restackWindowUnderActive q w ws)"
  using r stack_next_to_returns(1) [OF s(1) ok] raise_returns [OF s ok]
  by (auto simp: restackWindowUnderActive_def Let_def find_Some_iff split: option.splits)

lemma X_order_keeps:
  assumes ok: "ws_ok ws" and r: "admissible q (X_order tree) ws"
  shows "ws_ok (snd (updateXStackingOrder tree ws))"
proof (cases tree)
  case (Some found)
  have "ws_ok (snd (fold (\<lambda>f (changed, ws). case f of None \<Rightarrow> (changed, ws) | Some window \<Rightarrow> (True, restack (to_top window) ws))
      found (c, ws)))" if "list_all (\<lambda>f. case f of None \<Rightarrow> True | Some w \<Rightarrow> w \<in> set (unconstrained_stacking_order ws)) found" for c
    using ok that
  proof (induction found arbitrary: c ws)
    case (Cons f found)
    show ?case
    proof (cases f)
      case (Some w)
      have k: "set (to_top w (unconstrained_stacking_order ws)) = set (unconstrained_stacking_order ws)"
        using Cons.prems(2) Some by (intro top_edit.set_kept) simp
      have "ws_ok (restack (to_top w) ws)"
        using Cons.prems(1) k top_edit.keeps_distinct by (simp add: ws_ok_def ws_pre_def restack_def)
      moreover have "set (unconstrained_stacking_order (restack (to_top w) ws)) = set (unconstrained_stacking_order ws)"
        using k by (simp add: restack_def)
      ultimately show ?thesis using Cons.IH [of "restack (to_top w) ws" True] Cons.prems(2) Some by simp
    qed (use Cons in simp)
  qed simp
  then show ?thesis using r Some by (simp add: updateXStackingOrder_def)
qed (use ok in \<open>simp add: updateXStackingOrder_def\<close>)

lemma constraint_returns:
  assumes s: "sorter_ok (std_sort q)" and ok: "ws_ok ws"
  shows "returns_ok (Workspace_constrain q a b ws)" "returns_ok (Workspace_unconstrain q a b ws)"
proof -
  have g: "graph_ok (constraint_graph ws)" using ok by (simp add: ws_ok_def ws_pre_def)
  have p: "ws_pre (ws\<lparr>constraint_graph := g'\<rparr>)" if "graph_ok g'" for g' using ok that by (simp add: ws_ok_def ws_pre_def)
  obtain c g1 where 1: "constrain a b (constraint_graph ws) = Some (c, g1)" "graph_ok g1" "\<not> c \<longrightarrow> g1 = constraint_graph ws"
    using constrain_ok [OF g] by blast
  show "returns_ok (Workspace_constrain q a b ws)"
    using 1 update_returns [OF s p [OF 1(2)]] ok by (auto simp: Workspace_constrain_def Let_def)
  obtain d g2 where 2: "unconstrain a b (constraint_graph ws) = Some (d, g2)" "graph_ok g2" "\<not> d \<longrightarrow> g2 = constraint_graph ws"
    using unconstrain_ok [OF g] by blast
  show "returns_ok (Workspace_unconstrain q a b ws)"
    using 2 update_returns [OF s p [OF 2(2)]] ok by (auto simp: Workspace_unconstrain_def Let_def)
qed

lemma add_keeps: "ws_ok ws \<Longrightarrow> ws_ok (addToStack w ws)"
  by (auto simp: addToStack_def Let_def ws_ok_def ws_pre_def)

lemma remove_returns:
  assumes ok: "ws_ok ws"
  shows "returns_ok (removeFromStack w ws)"
proof -
  obtain g where "remove_constraints w (constraint_graph ws) = Some g" "graph_ok g"
    using remove_constraints_ok ok unfolding ws_ok_def ws_pre_def by blast
  then show ?thesis using ok by (auto simp: removeFromStack_def ws_ok_def ws_pre_def distinct_removeAll)
qed

lemma run_stack_returns:
  assumes s: "sorter_ok (std_sort q)" and t: "transients_end q" and a: "admissible q e ws" and ok: "ws_ok ws"
  shows "returns_ok (run_stack q e ws)"
proof (cases e)
  case (Raise_request w src t)
  then show ?thesis
    using raise_returns [OF s \<open>transients_end q\<close> ok] raise_within_returns [OF s ok, of w]
    by (auto simp: raiseWindowRequest_def returns_ok_def ws_ok_def)
next
  case (Lower_request w src)
  then show ?thesis using lower_returns [OF s t ok] lower_within_returns [OF s ok] by (simp add: lowerWindowRequest_def)
qed (use assms in \<open>simp_all add: block_returns update_returns force_returns raise_returns lower_returns ws_okD
      lower_within_returns raise_within_returns raise_or_lower_returns stack_next_to_returns restore_returns
      returns_okI X_order_keeps constraint_returns add_keeps remove_returns under_active_returns\<close>)

end
