(* ===== verification/StackingProps.thy ===== *)
theory StackingProps
  imports StackingEvents
begin

text \<open>The properties of the stacking order, and the concrete windows of their witnesses.\<close>

section \<open>Windows for the witnesses\<close>

text \<open>
  Three windows: 2 is a transient of 1, and 3 is kept above the others. Nothing is deleted, and every
  window is a client of the one application there is.
\<close>

definition demo_windows :: window_queries where
  "demo_windows =
     \<lparr>wantsTabFocus = (\<lambda>w. True), isDeleted = (\<lambda>w. False), isOnAllDesktops = (\<lambda>w. False), isOnDesktop = (\<lambda>w d. True),
      isOnCurrentDesktop = (\<lambda>w. True), isShown = (\<lambda>w. True), isOnCurrentActivity = (\<lambda>w. True), window_output = (\<lambda>w. 0),
      isOnOutput = (\<lambda>w out. True), belongToSameApplication = (\<lambda>v w. True), activeOutput = 0, currentDesktop = (\<lambda>out. 0),
      window_layer = (\<lambda>w. if w = 3 then AboveLayer else NormalLayer), isX11Window = (\<lambda>w. False), group_members = (\<lambda>w. None),
      isClient = (\<lambda>w. True), isUnmanaged = (\<lambda>w. False), hiddenPreview = (\<lambda>w. False), isSpecialWindow = (\<lambda>w. False),
      isDesktopWindow = (\<lambda>w. False), hasUserTimeSupport = (\<lambda>w. False), xcb_window = (\<lambda>w. w),
      isTransient = (\<lambda>w. w = 2), transientFor = (\<lambda>w. if w = 2 then Some 1 else None),
      transients = (\<lambda>w. if w = 1 then [2] else []), allMainWindows = (\<lambda>w. if w = 2 then [1] else []),
      sessionStackingOrder = (\<lambda>w. 0), allowFullClientRaising = (\<lambda>w t. True), isSeparateScreenFocus = False,
      workspace_activeWindow = None, hasRootInfo = False, supportWindow = 0, guardWindow = 0, manual_overlays = [],
      m_windows = [], std_sort = stable_sorter\<rparr>"

definition demo_workspace :: "nat list \<Rightarrow> nat list \<Rightarrow> graph \<Rightarrow> workspace" where
  "demo_workspace order stacking g =
     (workspace_new FocusChain_new)\<lparr>unconstrained_stacking_order := order, stacking_order := stacking, constraint_graph := g\<rparr>"

lemma demo_ends: "transients_end demo_windows" "sorter_ok (std_sort demo_windows)"
proof -
  show "transients_end demo_windows"
    unfolding transients_end_def
    by (rule exI [of _ "\<lambda>b w. if b then w else 3 - w"]) (simp add: demo_windows_def)
  show "sorter_ok (std_sort demo_windows)" by (simp add: demo_windows_def stable_sorter_ok)
qed

lemma apply_constraints_Cons:
  "apply_constraints sorter (c # rest) stacking g = do {
     k \<leftarrow> cells g c;
     if index_of stacking (c_below k) = -1 \<or> index_of stacking (c_above k) = -1
     then apply_constraints sorter rest stacking g
     else do {
       let stacking' = move_above (c_below k) (c_above k) stacking;
       (queue', g') \<leftarrow> enqueue_children (sorter (above_index_in g stacking') (c_children k)) rest g;
       apply_constraints sorter queue' stacking' g'
     }
   }"
  by (subst apply_constraints.simps) simp

lemmas stacking_eval =
  constrainedStackingOrder_def layered_def NumLayers_def apply_constraints_Cons set_enqueued_def above_index_in_def
  move_above_def insert_at_def stable_sorter_def constrain_def graph_new_def Let_def

section \<open>Stable sorting and the last element\<close>

lemma sort_key_last:
  "sort_key f (xs @ [w]) = sort_key f (filter (\<lambda>x. f x \<le> f w) xs) @ w # sort_key f (filter (\<lambda>x. f w < f x) xs)"
proof (rule properties_for_sort_key)
  let ?l = "filter (\<lambda>x. f x \<le> f w) xs" and ?h = "filter (\<lambda>x. f w < f x) xs"
  have "mset xs = mset ?l + mset ?h" by (induction xs) auto
  then show "mset (sort_key f ?l @ w # sort_key f ?h) = mset (xs @ [w])" by simp
  show "sorted (map f (sort_key f ?l @ w # sort_key f ?h))"
    by (auto simp: sorted_append)
  fix k
  have st: "filter (\<lambda>x. f k = f x) (sort_key f ys) = filter (\<lambda>x. f k = f x) ys" for ys
    using sort_key_stable [of f "f k" ys] by (simp add: eq_commute)
  show "filter (\<lambda>x. f k = f x) (sort_key f ?l @ w # sort_key f ?h) = filter (\<lambda>x. f k = f x) (xs @ [w])"
  proof (cases "f k \<le> f w")
    case True
    then have "filter (\<lambda>x. f k = f x) ?h = []" "filter (\<lambda>x. f k = f x) ?l = filter (\<lambda>x. f k = f x) xs"
      by (auto simp: filter_empty_conv intro: filter_cong)
    then have "filter (\<lambda>x. f k = f x) (sort_key f ?h) = []" "filter (\<lambda>x. f k = f x) (sort_key f ?l) = filter (\<lambda>x. f k = f x) xs"
      unfolding st by simp_all
    then show ?thesis by (simp only: filter_append filter.simps append_assoc append_Nil2 split: if_splits)
  next
    case False
    then have "filter (\<lambda>x. f k = f x) ?l = []" "filter (\<lambda>x. f k = f x) ?h = filter (\<lambda>x. f k = f x) xs"
      by (auto simp: filter_empty_conv intro: filter_cong)
    then show ?thesis using False by (simp add: st del: filter_filter) auto
  qed
qed

lemma sort_key_after_last:
  assumes d: "distinct (xs @ [w])" and b: "before (sort_key f (xs @ [w])) w x"
  shows "f w < f x"
proof -
  let ?l = "sort_key f (filter (\<lambda>x. f x \<le> f w) xs)" and ?h = "sort_key f (filter (\<lambda>x. f w < f x) xs)"
  have "w \<notin> set ?l" using d by simp
  then have w: "index_of (?l @ w # ?h) w = int (length ?l)" by (simp add: index_of_append)
  have "x \<in> set ?h"
  proof (rule ccontr)
    assume n: "x \<notin> set ?h"
    have "index_of (?l @ w # ?h) x \<le> int (length ?l)"
      using index_of_less [of ?l x] n by (auto simp: index_of_append index_of_none [THEN iffD2] Let_def)
    then show False using b w unfolding before_def sort_key_last by simp
  qed
  then show ?thesis by simp
qed

lemma no_constraints_order:
  assumes s: "sorter_ok sorter" and g: "m_constraints g = []"
  shows "constrainedStackingOrder sorter layer_of order g = Some (sort_key (\<lambda>w. layer_number (layer_of w)) order, g)"
proof -
  have "sorter key [] = []" for key using sorter_perm(1) [OF s, of key "[]"] by simp
  then show ?thesis by (simp add: constrainedStackingOrder_def g layered_eq_sort Let_def)
qed

section \<open>Properties\<close>

text \<open>
  C17: The stacking order is safe: in every reachable state the constraint graph is intact (live, mutually
  linked, without duplicates), no window is twice in an order, and while updates are not blocked the
  stacking order holds exactly the windows of the unconstrained one; and every admissible operation
  returns (no dangling constraint is followed, no search runs forever) in a reachable state again.
\<close>
theorem stacking_invariant:
  assumes "stack_reachable ws"
  shows "graph_ok (constraint_graph ws) \<and> distinct (unconstrained_stacking_order ws) \<and> distinct (stacking_order ws) \<and>
    0 \<le> m_blockStackingUpdates ws \<and>
    (m_blockStackingUpdates ws = 0 \<longrightarrow> set (stacking_order ws) = set (unconstrained_stacking_order ws)) \<and>
    (\<forall>q e. sorter_ok (std_sort q) \<longrightarrow> transients_end q \<longrightarrow> admissible q e ws \<longrightarrow>
       (\<exists>ws'. run_stack q e ws = Some ws' \<and> stack_reachable ws'))"
proof -
  have "ws_ok ws" using assms
  proof induction
    case (stack_start fc)
    then show ?case by (simp add: workspace_new_def ws_ok_def ws_pre_def graph_new_ok)
  next
    case (stack_step ws q e ws')
    then show ?case using run_stack_returns [of q e ws] by (simp add: returns_ok_def)
  qed
  moreover have "\<exists>ws'. run_stack q e ws = Some ws' \<and> stack_reachable ws'"
    if "sorter_ok (std_sort q)" "transients_end q" "admissible q e ws" for q e
    using run_stack_returns [OF that \<open>ws_ok ws\<close>] stack_step [OF assms that] by (auto simp: returns_ok_def)
  ultimately show ?thesis by (simp add: ws_ok_def ws_pre_def)
qed

theorem stacking_invariant_witness:
  "graph_ok (constraint_graph (addToStack 2 (addToStack 1 (workspace_new FocusChain_new)))) \<and>
   set (stacking_order (addToStack 2 (addToStack 1 (workspace_new FocusChain_new)))) = {1, 2} \<and>
   (\<exists>ws'. run_stack demo_windows (Lower 2) (addToStack 2 (addToStack 1 (workspace_new FocusChain_new))) = Some ws' \<and>
      stack_reachable ws')"
proof -
  let ?ws = "addToStack 2 (addToStack 1 (workspace_new FocusChain_new))"
  have "stack_reachable (addToStack w ws)" if "stack_reachable ws" for w ws
    using stack_step [OF that demo_ends(2,1), of "Add_window w"] by simp
  then have r: "stack_reachable ?ws" using stack_start by blast
  note I = stacking_invariant [OF r]
  have "admissible demo_windows (Lower 2) ?ws" by simp
  then have "\<exists>ws'. run_stack demo_windows (Lower 2) ?ws = Some ws' \<and> stack_reachable ws'" using I demo_ends by blast
  moreover have "graph_ok (constraint_graph ?ws)" using I by blast
  moreover have "set (stacking_order ?ws) = {1, 2}" by (auto simp: addToStack_def workspace_new_def)
  ultimately show ?thesis by blast
qed

text \<open>
  C18: An update that is not blocked fulfils all constraints when they form a forest (every window is the
  upper window of at most one of them) on windows of the stack: the new stacking order is a
  rearrangement of the unconstrained one, in which every lower window is below its upper window.
\<close>
theorem forest_constraints_hold:
  assumes ok: "ws_ok ws" and b: "m_blockStackingUpdates ws = 0" and s: "sorter_ok (std_sort q)"
    and f: "forest (constraint_graph ws)"
    and w: "\<forall>c \<in> set (m_constraints (constraint_graph ws)).
      below_of (constraint_graph ws) c \<in> set (unconstrained_stacking_order ws) \<and>
      above_of (constraint_graph ws) c \<in> set (unconstrained_stacking_order ws)"
  shows "\<exists>ws'. updateStackingOrder q propagate ws = Some ws' \<and>
    mset (stacking_order ws') = mset (unconstrained_stacking_order ws) \<and>
    (\<forall>c \<in> set (m_constraints (constraint_graph ws)).
       index_of (stacking_order ws') (below_of (constraint_graph ws) c)
         < index_of (stacking_order ws') (above_of (constraint_graph ws) c))"
proof -
  let ?g = "constraint_graph ws" and ?order = "unconstrained_stacking_order ws"
  have p: "graph_ok ?g" "distinct ?order" using ok by (simp_all add: ws_ok_def ws_pre_def)
  obtain st g' where st: "constrainedStackingOrder (std_sort q) (computeLayer q) ?order ?g = Some (st, g')"
    "\<forall>c \<in> set (m_constraints ?g). before st (below_of ?g c) (above_of ?g c)"
    using constrainedStackingOrder_fulfils [OF p(1) f s p(2) w] by blast
  moreover have "mset st = mset ?order"
    using constrainedStackingOrder_returns [OF p(1) s, of "computeLayer q" ?order] st(1) by auto
  ultimately show ?thesis using b by (auto simp: updateStackingOrder_def before_def Let_def)
qed

theorem forest_constraints_hold_witness:
  "\<exists>g ws'. constrain 1 2 graph_new = Some (True, g) \<and>
     updateStackingOrder demo_windows False (demo_workspace [2, 1, 3] [2, 1, 3] g) = Some ws' \<and>
     mset (stacking_order ws') = {#1, 2, 3#} \<and> index_of (stacking_order ws') 1 < index_of (stacking_order ws') 2"
proof -
  obtain g where g: "constrain 1 2 graph_new = Some (True, g)" "graph_ok g" "m_constraints g = [0]"
    "below_of g 0 = 1" "above_of g 0 = 2"
    using constrain_ok [OF graph_new_ok, of 1 2] by (auto simp: constrain_def graph_new_def Let_def)
  have f: "forest g" unfolding forest_def acyclic_graph_def g(3) by (auto simp: g(4,5) intro: exI [of _ id])
  show ?thesis
    using forest_constraints_hold [of "demo_workspace [2, 1, 3] [2, 1, 3] g" demo_windows False] g f demo_ends(2)
    by (auto simp: demo_workspace_def workspace_new_def ws_ok_def ws_pre_def add_mset_commute)
qed

text \<open>
  C19: Without constraints an update that is not blocked gives the stable sort of the unconstrained order by
  the layers of the windows.
\<close>
theorem stacking_is_layer_sort:
  assumes b: "m_blockStackingUpdates ws = 0" and s: "sorter_ok (std_sort q)" and g: "m_constraints (constraint_graph ws) = []"
  shows "\<exists>ws'. updateStackingOrder q propagate ws = Some ws' \<and>
    stacking_order ws' = sort_key (computeLayer q) (unconstrained_stacking_order ws)"
proof -
  have "sort_key (computeLayer q) xs = sort_key (\<lambda>w. layer_number (computeLayer q w)) xs" for xs
  proof (rule properties_for_sort_key)
    let ?n = "\<lambda>w. layer_number (computeLayer q w)"
    have eq: "computeLayer q v = computeLayer q w \<longleftrightarrow> ?n v = ?n w" for v w
      by (metis less_eq_layer_def order_antisym order_refl)
    show "sorted (map (computeLayer q) (sort_key ?n xs))"
      using sorted_sort_key [of ?n xs] by (simp add: sorted_map less_eq_layer_def)
    fix k show "filter (\<lambda>x. computeLayer q k = computeLayer q x) (sort_key ?n xs) = filter (\<lambda>x. computeLayer q k = computeLayer q x) xs"
      unfolding eq using sort_key_stable [of ?n "?n k" xs] by (simp add: eq_commute)
  qed simp
  then show ?thesis
    using b no_constraints_order [OF s g] by (auto simp: updateStackingOrder_def Let_def)
qed

theorem stacking_is_layer_sort_witness:
  "\<exists>ws'. updateStackingOrder demo_windows False (demo_workspace [3, 2, 1] [] graph_new) = Some ws' \<and>
     stacking_order ws' = [2, 1, 3]"
  using stacking_is_layer_sort [of "demo_workspace [3, 2, 1] [] graph_new" demo_windows False] demo_ends(2)
  by (auto simp: demo_workspace_def workspace_new_def graph_new_def computeLayer_def demo_windows_def less_eq_layer_def)

text \<open>
  C20: \<open>raiseWindow\<close> moves the window to the top of the unconstrained order, with the windows it is a
  (transitive) transient for, if it is one, directly below it and ancestors first; the others keep their
  order. Without constraints, and unless updates are blocked, only windows of a higher layer are above it then.
\<close>
theorem raiseWindow_on_top:
  assumes ok: "ws_ok ws" and s: "sorter_ok (std_sort q)" and t: "transients_end q" and n: "\<not> isDeleted q w"
  shows "\<exists>ps ws'. raiseWindow q w ws = Some ws' \<and>
    set ps = (if isTransient q w then {p. (w, p) \<in> (parent_rel q)\<^sup>+ \<and> \<not> isDeleted q p} else {}) \<and>
    sorted_wrt (\<lambda>a b. (b, a) \<in> (parent_rel q)\<^sup>+) (ps @ [w]) \<and>
    unconstrained_stacking_order ws' =
      filter (\<lambda>x. x \<notin> set (ps @ [w])) (unconstrained_stacking_order ws) @ ps @ [w] \<and>
    (m_blockStackingUpdates ws = 0 \<longrightarrow> m_constraints (constraint_graph ws) = [] \<longrightarrow>
       (\<forall>x. index_of (stacking_order ws') w < index_of (stacking_order ws') x \<longrightarrow> computeLayer q w < computeLayer q x))"
proof -
  let ?n = "\<lambda>w. layer_number (computeLayer q w)"
  obtain ps ws' where r: "raiseWindow q w ws = Some ws'" "ancestors_first q (ps @ [w])"
    "set ps = (if isTransient q w then {p. (w, p) \<in> (parent_rel q)\<^sup>+ \<and> \<not> isDeleted q p} else {})"
    "settled q ws (filter (\<lambda>x. x \<notin> set (ps @ [w])) (unconstrained_stacking_order ws) @ ps @ [w]) ws'"
    using raiseWindow_settles [OF s t ws_okD [OF ok] n] by blast
  let ?rest = "filter (\<lambda>x. x \<notin> set (ps @ [w])) (unconstrained_stacking_order ws) @ ps"
  have order: "unconstrained_stacking_order ws' = ?rest @ [w]" using r(4) by (simp add: settled_def)
  have d: "distinct (?rest @ [w])" using r(4) order by (simp add: settled_def ws_ok_def ws_pre_def)
  have "computeLayer q w < computeLayer q x"
    if b: "m_blockStackingUpdates ws = 0" and e: "m_constraints (constraint_graph ws) = []"
      and x: "index_of (stacking_order ws') w < index_of (stacking_order ws') x" for x
  proof -
    obtain g where g: "same_graph (constraint_graph ws) g"
      "constrainedStackingOrder (std_sort q) (computeLayer q) (?rest @ [w]) g = Some (stacking_order ws', constraint_graph ws')"
      using r(4) b by (auto simp: settled_def)
    have "m_constraints g = []" using e same_graphD(1) [OF g(1)] by simp
    then have "stacking_order ws' = sort_key ?n (?rest @ [w])" using g(2) no_constraints_order [OF s] by simp
    then have "?n w < ?n x" using sort_key_after_last [OF d, of ?n x] x by (simp add: before_def)
    then show ?thesis by (simp add: less_layer_def)
  qed
  then show ?thesis using r(1-3) order by (intro exI [of _ ps] exI [of _ ws']) simp
qed

theorem raiseWindow_on_top_witness:
  "\<exists>ps ws'. raiseWindow demo_windows 2 (demo_workspace [1, 2, 3, 4] [1, 2, 4, 3] graph_new) = Some ws' \<and>
     unconstrained_stacking_order ws' = [3, 4] @ ps @ [2] \<and> set ps = {1}"
proof -
  have one: "(2, p) \<in> (parent_rel demo_windows)\<^sup>+ \<longleftrightarrow> p = 1" for p
  proof -
    have "(w, p) \<in> parent_rel demo_windows \<longleftrightarrow> w = 2 \<and> p = 1" for w p
      by (auto simp: parent_rel_def demo_windows_def split: if_splits)
    then show ?thesis using trancl_first [of 1 _ "parent_rel demo_windows"] by (subst trancl_first) auto
  qed
  have n: "\<not> isDeleted demo_windows x" "isTransient demo_windows 2" for x by (simp_all add: demo_windows_def)
  have ok: "ws_ok (demo_workspace [1, 2, 3, 4] [1, 2, 4, 3] graph_new)"
    by (auto simp: demo_workspace_def workspace_new_def ws_ok_def ws_pre_def graph_new_ok)
  show ?thesis
    using raiseWindow_on_top [OF ok demo_ends(2,1) n(1), of 2] one n
    by (auto simp: demo_workspace_def)
qed

text \<open>
  C21: \<open>lowerWindow\<close> moves a window that is no transient and has none to the bottom of the unconstrained
  order. Otherwise all (transitive) transients of its bottom-most main window go there with that main
  window, in the order in which they are stacked; deleted windows and all the others keep their order.
\<close>
theorem lowerWindow_at_bottom:
  assumes ok: "ws_ok ws" and s: "sorter_ok (std_sort q)" and t: "transients_end q" and n: "\<not> isDeleted q w"
    and sub: "lowered_together q w ws \<subseteq> set (stacking_order ws)"
  shows "\<exists>ws'. lowerWindow q w ws = Some ws' \<and>
    unconstrained_stacking_order ws' =
      filter (\<lambda>x. x \<in> lowered_together q w ws \<and> \<not> isDeleted q x) (stacking_order ws) @
      filter (\<lambda>x. \<not> (x \<in> lowered_together q w ws \<and> \<not> isDeleted q x)) (unconstrained_stacking_order ws) \<and>
    (m_blockStackingUpdates ws = 0 \<longrightarrow> set (stacking_order ws') = set (unconstrained_stacking_order ws'))"
proof -
  let ?P = "\<lambda>x. x \<in> lowered_together q w ws \<and> \<not> isDeleted q x"
  obtain family ws' where r: "lowerWindow q w ws = Some ws'"
    "settled q ws (fold to_bottom (rev family) (unconstrained_stacking_order ws)) ws'"
    "family = filter ?P (stacking_order ws)"
    using lowerWindow_settles [OF s t ws_okD [OF ok] n] sub by blast
  have d: "distinct family" using ok by (simp add: r(3) ws_ok_def ws_pre_def)
  have "set family = {x. ?P x}" using sub by (auto simp: r(3))
  then have "unconstrained_stacking_order ws' = family @ filter (\<lambda>x. \<not> ?P x) (unconstrained_stacking_order ws)"
    using r(2) fold_to_bottom [OF d] by (simp add: settled_def)
  moreover have "m_blockStackingUpdates ws = 0 \<longrightarrow> set (stacking_order ws') = set (unconstrained_stacking_order ws')"
    using r(2) by (simp add: settled_def ws_ok_def)
  ultimately show ?thesis using r(1) unfolding r(3) by blast
qed

theorem lowerWindow_at_bottom_witness:
  "\<exists>ws'. lowerWindow demo_windows 2 (demo_workspace [4, 3, 1, 2] [4, 1, 2, 3] graph_new) = Some ws' \<and>
     unconstrained_stacking_order ws' = [1, 2, 4, 3]"
proof -
  let ?ws = "demo_workspace [4, 3, 1, 2] [4, 1, 2, 3] graph_new"
  have "(w, t) \<in> transient_rel demo_windows \<longleftrightarrow> w = 1 \<and> t = 2" for w t
    by (auto simp: transient_rel_def demo_windows_def)
  then have "(1, t) \<in> (transient_rel demo_windows)\<^sup>* \<longleftrightarrow> t = 1 \<or> t = 2" for t
    using rtrancl_first [of 1 t "transient_rel demo_windows"] rtrancl_first [of 2 t "transient_rel demo_windows"] by auto
  moreover have "lower_root demo_windows 2 ?ws = 1"
    by (simp add: lower_root_def ensureStackingOrder_def ensureStackingOrderInList_def demo_windows_def)
  ultimately have l: "lowered_together demo_windows 2 ?ws = {1, 2}"
    by (auto simp: lowered_together_def) (simp add: demo_windows_def)
  have ok: "ws_ok ?ws" by (auto simp: demo_workspace_def workspace_new_def ws_ok_def ws_pre_def graph_new_ok)
  have n: "\<not> isDeleted demo_windows x" for x by (simp add: demo_windows_def)
  show ?thesis
    using lowerWindow_at_bottom [OF ok demo_ends(2,1) n, of 2] l n by (auto simp: demo_workspace_def)
qed

section \<open>A constraint that is missed\<close>

definition diamond :: "graph option" where
  "diamond = do {
     (_, g) \<leftarrow> constrain 1 2 graph_new;
     (_, g) \<leftarrow> constrain 1 3 g;
     (_, g) \<leftarrow> constrain 2 4 g;
     (_, g) \<leftarrow> constrain 3 5 g;
     (_, g) \<leftarrow> constrain 5 2 g;
     Some g
   }"


end
