(* ===== verification/Gestures.thy ===== *)
theory Gestures
  imports Prelude "HOL-Library.Monad_Syntax"
begin

text \<open>
  The gesture recognizer of \<open>src/kde-kwin/src/gestures.cpp\<close>. Gestures are identities; what a gesture object
  holds (finger count, direction) is in two stores of the recognizer's state. \<open>qreal\<close> is \<open>real\<close>. Signals
  are recorded in the order of their emission; what is connected to them does not call back.
  \<open>Q_ASSERT\<close> and \<open>Q_UNREACHABLE\<close> are \<open>None\<close>.

  A touch sequence is a fold of updates between a start and an end. The second half states what every
  operation keeps (\<open>recognizer_ok\<close>): the signals of a gesture are well bracketed, and a gesture has an
  open bracket exactly while it is active.
\<close>

section \<open>Gestures\<close>

datatype swipe_direction = SwipeInvalid | SwipeDown | SwipeLeft | SwipeUp | SwipeRight

datatype pinch_direction = Expanding | Contracting

datatype axis = Horizontal | Vertical | NoAxis

record swipe_gesture =
  swipe_fingerCount :: nat
  swipe_direction :: swipe_direction

record pinch_gesture =
  pinch_fingerCount :: nat
  pinch_direction :: pinch_direction

definition SwipeGesture_new :: "nat \<Rightarrow> swipe_gesture" where
  "SwipeGesture_new fingerCount = \<lparr>swipe_fingerCount = fingerCount, swipe_direction = SwipeDown\<rparr>"

definition PinchGesture_new :: "nat \<Rightarrow> pinch_gesture" where
  "PinchGesture_new fingerCount = \<lparr>pinch_fingerCount = fingerCount, pinch_direction = Expanding\<rparr>"

definition s_minimumDelta :: real where
  "s_minimumDelta = 200"

definition s_minimumScaleDelta :: real where
  "s_minimumScaleDelta = 1 / 5"

definition deltaToProgress :: "swipe_gesture \<Rightarrow> real \<times> real \<Rightarrow> real option" where
  "deltaToProgress g delta =
     (case swipe_direction g of
        SwipeUp \<Rightarrow> Some (min (\<bar>snd delta\<bar> / s_minimumDelta) 1)
      | SwipeDown \<Rightarrow> Some (min (\<bar>snd delta\<bar> / s_minimumDelta) 1)
      | SwipeLeft \<Rightarrow> Some (min (\<bar>fst delta\<bar> / s_minimumDelta) 1)
      | SwipeRight \<Rightarrow> Some (min (\<bar>fst delta\<bar> / s_minimumDelta) 1)
      | SwipeInvalid \<Rightarrow> None)"

definition minimumDeltaReached :: "swipe_gesture \<Rightarrow> real \<times> real \<Rightarrow> bool option" where
  "minimumDeltaReached g delta = map_option (\<lambda>p. 1 \<le> p) (deltaToProgress g delta)"

definition scaleDeltaToProgress :: "real \<Rightarrow> real" where
  "scaleDeltaToProgress scaleDelta = \<bar>scaleDelta - 1\<bar> / s_minimumScaleDelta"

definition minimumScaleDeltaReached :: "real \<Rightarrow> bool" where
  "minimumScaleDeltaReached scaleDelta \<longleftrightarrow> 1 \<le> scaleDeltaToProgress scaleDelta"

section \<open>The recognizer\<close>

datatype gesture = Swipe nat | Pinch nat

datatype gesture_signal = Started | Triggered | Cancelled | Progress real | DeltaProgress "real \<times> real"

record recognizer =
  swipe_store :: "nat \<Rightarrow> swipe_gesture"
  pinch_store :: "nat \<Rightarrow> pinch_gesture"
  m_swipeGestures :: "nat list"
  m_pinchGestures :: "nat list"
  m_activeSwipeGestures :: "nat list"
  m_activePinchGestures :: "nat list"
  m_destroyConnections :: "gesture set"
  m_currentDelta :: "real \<times> real"
  m_currentScale :: real
  m_currentFingerCount :: nat
  m_currentSwipeAxis :: axis
  signals :: "(gesture \<times> gesture_signal) list"

definition GestureRecognizer_new :: "(nat \<Rightarrow> swipe_gesture) \<Rightarrow> (nat \<Rightarrow> pinch_gesture) \<Rightarrow> recognizer" where
  "GestureRecognizer_new swipes pinches =
     \<lparr>swipe_store = swipes, pinch_store = pinches, m_swipeGestures = [], m_pinchGestures = [],
      m_activeSwipeGestures = [], m_activePinchGestures = [], m_destroyConnections = {},
      m_currentDelta = (0, 0), m_currentScale = 1, m_currentFingerCount = 0, m_currentSwipeAxis = NoAxis,
      signals = []\<rparr>"

definition gesture_emit :: "(gesture \<times> gesture_signal) list \<Rightarrow> recognizer \<Rightarrow> recognizer" where
  "gesture_emit es r = r\<lparr>signals := signals r @ es\<rparr>"

definition setSwipeDirection :: "nat \<Rightarrow> swipe_direction \<Rightarrow> recognizer \<Rightarrow> recognizer" where
  "setSwipeDirection g d r = r\<lparr>swipe_store := (swipe_store r)(g := (swipe_store r g)\<lparr>swipe_direction := d\<rparr>)\<rparr>"

definition setPinchDirection :: "nat \<Rightarrow> pinch_direction \<Rightarrow> recognizer \<Rightarrow> recognizer" where
  "setPinchDirection g d r = r\<lparr>pinch_store := (pinch_store r)(g := (pinch_store r g)\<lparr>pinch_direction := d\<rparr>)\<rparr>"

definition registerSwipeGesture :: "nat \<Rightarrow> recognizer \<Rightarrow> recognizer option" where
  "registerSwipeGesture g r =
     (if g \<in> set (m_swipeGestures r) then None
      else Some (r\<lparr>m_destroyConnections := insert (Swipe g) (m_destroyConnections r),
                   m_swipeGestures := m_swipeGestures r @ [g]\<rparr>))"

definition unregisterSwipeGesture :: "nat \<Rightarrow> recognizer \<Rightarrow> recognizer" where
  "unregisterSwipeGesture g r =
     (let r1 = r\<lparr>m_destroyConnections := m_destroyConnections r - {Swipe g},
                 m_swipeGestures := removeAll g (m_swipeGestures r)\<rparr>
      in if g \<in> set (m_activeSwipeGestures r1)
         then gesture_emit [(Swipe g, Cancelled)] (r1\<lparr>m_activeSwipeGestures := remove1 g (m_activeSwipeGestures r1)\<rparr>)
         else r1)"

definition registerPinchGesture :: "nat \<Rightarrow> recognizer \<Rightarrow> recognizer option" where
  "registerPinchGesture g r =
     (if g \<in> set (m_pinchGestures r) then None
      else Some (r\<lparr>m_destroyConnections := insert (Pinch g) (m_destroyConnections r),
                   m_pinchGestures := m_pinchGestures r @ [g]\<rparr>))"

definition unregisterPinchGesture :: "nat \<Rightarrow> recognizer \<Rightarrow> recognizer" where
  "unregisterPinchGesture g r =
     (let r1 = r\<lparr>m_destroyConnections := m_destroyConnections r - {Pinch g},
                 m_pinchGestures := removeAll g (m_pinchGestures r)\<rparr>
      in if g \<in> set (m_activePinchGestures r1)
         then gesture_emit [(Pinch g, Cancelled)] (r1\<lparr>m_activePinchGestures := remove1 g (m_activePinchGestures r1)\<rparr>)
         else r1)"

section \<open>Swipes\<close>

text \<open>The loop of \<open>startSwipeGesture\<close> over the registered gestures.\<close>

fun start_swipes :: "nat \<Rightarrow> nat list \<Rightarrow> nat \<Rightarrow> recognizer \<Rightarrow> (nat \<times> recognizer) option" where
  "start_swipes fingerCount [] count r = Some (count, r)"
| "start_swipes fingerCount (g # gs) count r =
     (if swipe_fingerCount (swipe_store r g) \<noteq> fingerCount then start_swipes fingerCount gs count r
      else case swipe_direction (swipe_store r g) of
        SwipeInvalid \<Rightarrow> None
      | d \<Rightarrow>
          if (d = SwipeUp \<or> d = SwipeDown) \<and> m_currentSwipeAxis r = Horizontal \<or>
             (d = SwipeLeft \<or> d = SwipeRight) \<and> m_currentSwipeAxis r = Vertical
          then start_swipes fingerCount gs count r
          else start_swipes fingerCount gs (count + 1)
                 (gesture_emit [(Swipe g, Started)] (r\<lparr>m_activeSwipeGestures := m_activeSwipeGestures r @ [g]\<rparr>)))"

definition startSwipeGesture :: "nat \<Rightarrow> recognizer \<Rightarrow> (nat \<times> recognizer) option" where
  "startSwipeGesture fingerCount r =
     (let r1 = r\<lparr>m_currentFingerCount := fingerCount\<rparr>
      in if m_activeSwipeGestures r1 \<noteq> [] \<or> m_activePinchGestures r1 \<noteq> [] then Some (0, r1)
         else start_swipes fingerCount (m_swipeGestures r1) 0 r1)"

text \<open>The axis that \<open>updateSwipeGesture\<close> picks, the one it locks in, and the direction on an axis.\<close>

definition pick_axis :: "real \<times> real \<Rightarrow> axis" where
  "pick_axis delta = (if \<bar>fst delta\<bar> \<ge> \<bar>snd delta\<bar> then Horizontal else Vertical)"

definition lock_axis :: "real \<times> real \<Rightarrow> axis \<Rightarrow> axis" where
  "lock_axis delta a =
     (if a = NoAxis then if \<bar>fst delta\<bar> \<ge> 5 \<or> \<bar>snd delta\<bar> \<ge> 5 then pick_axis delta else NoAxis else a)"

definition direction_on :: "axis \<Rightarrow> real \<times> real \<Rightarrow> swipe_direction" where
  "direction_on a delta =
     (if a = Vertical then if snd delta < 0 then SwipeUp else SwipeDown
      else if fst delta < 0 then SwipeLeft else SwipeRight)"

text \<open>One iteration of "Eliminate wrong gestures".\<close>

definition eliminate_swipes :: "swipe_direction \<Rightarrow> recognizer \<Rightarrow> recognizer" where
  "eliminate_swipes d r =
     gesture_emit (map (\<lambda>g. (Swipe g, Cancelled)) (filter (\<lambda>g. swipe_direction (swipe_store r g) \<noteq> d) (m_activeSwipeGestures r)))
       (r\<lparr>m_activeSwipeGestures := filter (\<lambda>g. swipe_direction (swipe_store r g) = d) (m_activeSwipeGestures r)\<rparr>)"

definition restart_swipes :: "swipe_direction \<Rightarrow> recognizer \<Rightarrow> recognizer option" where
  "restart_swipes d r = do {
     r1 \<leftarrow> (if m_activeSwipeGestures r = [] then map_option snd (startSwipeGesture (m_currentFingerCount r) r) else Some r);
     Some (eliminate_swipes d r1)
   }"

fun send_swipe_progress :: "nat list \<Rightarrow> recognizer \<Rightarrow> recognizer option" where
  "send_swipe_progress [] r = Some r"
| "send_swipe_progress (g # gs) r = do {
     p \<leftarrow> deltaToProgress (swipe_store r g) (m_currentDelta r);
     send_swipe_progress gs (gesture_emit [(Swipe g, Progress p), (Swipe g, DeltaProgress (m_currentDelta r))] r)
   }"

definition updateSwipeGesture :: "real \<times> real \<Rightarrow> recognizer \<Rightarrow> recognizer option" where
  "updateSwipeGesture delta r =
     (let total = (fst (m_currentDelta r) + fst delta, snd (m_currentDelta r) + snd delta);
          swipeAxis = (if m_currentSwipeAxis r = NoAxis then pick_axis total else m_currentSwipeAxis r);
          direction = direction_on swipeAxis total;
          r1 = r\<lparr>m_currentDelta := total, m_currentSwipeAxis := lock_axis total (m_currentSwipeAxis r)\<rparr>
      in do {
        r2 \<leftarrow> restart_swipes direction r1;
        r3 \<leftarrow> restart_swipes direction r2;
        send_swipe_progress (m_activeSwipeGestures r3) r3
      })"

definition cancelActiveGestures :: "recognizer \<Rightarrow> recognizer" where
  "cancelActiveGestures r =
     (gesture_emit (map (\<lambda>g. (Swipe g, Cancelled)) (m_activeSwipeGestures r)
                    @ map (\<lambda>g. (Pinch g, Cancelled)) (m_activePinchGestures r)) r)
       \<lparr>m_activeSwipeGestures := [], m_activePinchGestures := [], m_currentScale := 0, m_currentDelta := (0, 0),
        m_currentSwipeAxis := NoAxis\<rparr>"

definition cancelSwipeGesture :: "recognizer \<Rightarrow> recognizer" where
  "cancelSwipeGesture r =
     (cancelActiveGestures r)\<lparr>m_currentFingerCount := 0, m_currentDelta := (0, 0), m_currentSwipeAxis := NoAxis\<rparr>"

fun end_swipes :: "real \<times> real \<Rightarrow> nat list \<Rightarrow> recognizer \<Rightarrow> recognizer option" where
  "end_swipes delta [] r = Some r"
| "end_swipes delta (g # gs) r = do {
     reached \<leftarrow> minimumDeltaReached (swipe_store r g) delta;
     end_swipes delta gs (gesture_emit [(Swipe g, if reached then Triggered else Cancelled)] r)
   }"

definition endSwipeGesture :: "recognizer \<Rightarrow> recognizer option" where
  "endSwipeGesture r = do {
     r1 \<leftarrow> end_swipes (m_currentDelta r) (m_activeSwipeGestures r) r;
     Some (r1\<lparr>m_activeSwipeGestures := [], m_currentFingerCount := 0, m_currentDelta := (0, 0), m_currentSwipeAxis := NoAxis\<rparr>)
   }"

section \<open>Pinches\<close>

text \<open>The loop of \<open>startPinchGesture\<close>: the registered gestures with this number of fingers.\<close>

definition startPinchGesture :: "nat \<Rightarrow> recognizer \<Rightarrow> nat \<times> recognizer" where
  "startPinchGesture fingerCount r =
     (let r1 = r\<lparr>m_currentFingerCount := fingerCount\<rparr>
      in if m_activeSwipeGestures r1 \<noteq> [] \<or> m_activePinchGestures r1 \<noteq> [] then (0, r1)
         else let started = filter (\<lambda>g. pinch_fingerCount (pinch_store r1 g) = fingerCount) (m_pinchGestures r1)
              in (length started,
                  gesture_emit (map (\<lambda>g. (Pinch g, Started)) started)
                    (r1\<lparr>m_activePinchGestures := m_activePinchGestures r1 @ started\<rparr>)))"

definition eliminate_pinches :: "pinch_direction \<Rightarrow> recognizer \<Rightarrow> recognizer" where
  "eliminate_pinches d r =
     gesture_emit (map (\<lambda>g. (Pinch g, Cancelled)) (filter (\<lambda>g. pinch_direction (pinch_store r g) \<noteq> d) (m_activePinchGestures r)))
       (r\<lparr>m_activePinchGestures := filter (\<lambda>g. pinch_direction (pinch_store r g) = d) (m_activePinchGestures r)\<rparr>)"

definition restart_pinches :: "pinch_direction \<Rightarrow> recognizer \<Rightarrow> recognizer" where
  "restart_pinches d r =
     eliminate_pinches d
       (if m_activePinchGestures r = [] then snd (startPinchGesture (m_currentFingerCount r) r) else r)"

definition updatePinchGesture :: "real \<Rightarrow> recognizer \<Rightarrow> recognizer" where
  "updatePinchGesture scale r =
     (let direction = (if scale < 1 then Contracting else Expanding);
          r1 = restart_pinches direction (restart_pinches direction (r\<lparr>m_currentScale := scale\<rparr>))
      in gesture_emit (map (\<lambda>g. (Pinch g, Progress (scaleDeltaToProgress scale))) (m_activePinchGestures r1)) r1)"

definition cancelPinchGesture :: "recognizer \<Rightarrow> recognizer" where
  "cancelPinchGesture r =
     (cancelActiveGestures r)\<lparr>m_currentScale := 1, m_currentFingerCount := 0, m_currentSwipeAxis := NoAxis\<rparr>"

definition endPinchGesture :: "recognizer \<Rightarrow> recognizer" where
  "endPinchGesture r =
     (gesture_emit (map (\<lambda>g. (Pinch g, if minimumScaleDeltaReached (m_currentScale r) then Triggered else Cancelled))
                      (m_activePinchGestures r)) r)
       \<lparr>m_activeSwipeGestures := [], m_activePinchGestures := [], m_currentScale := 1, m_currentFingerCount := 0,
        m_currentSwipeAxis := NoAxis\<rparr>"

section \<open>The contract of the signals\<close>

text \<open>
  What the comments of \<open>gestures.h\<close> promise of \<open>started\<close>, \<open>triggered\<close> and \<open>cancelled\<close>: \<open>bracket open es\<close> is
  whether a gesture is still being matched after the signals \<open>es\<close>, and \<open>None\<close> for signals out of order.
\<close>

fun bracket :: "bool \<Rightarrow> gesture_signal list \<Rightarrow> bool option" where
  "bracket b [] = Some b"
| "bracket False (Started # es) = bracket True es"
| "bracket True (Triggered # es) = bracket False es"
| "bracket True (Cancelled # es) = bracket False es"
| "bracket True (Progress p # es) = bracket True es"
| "bracket True (DeltaProgress d # es) = bracket True es"
| "bracket b (e # es) = None"

lemma bracket_append: "bracket b (es @ fs) = Option.bind (bracket b es) (\<lambda>b'. bracket b' fs)"
  by (induction b es rule: bracket.induct) auto

definition signals_to :: "gesture \<Rightarrow> (gesture \<times> gesture_signal) list \<Rightarrow> gesture_signal list" where
  "signals_to g es = map snd (filter (\<lambda>e. fst e = g) es)"

lemma signals_to_simps [simp]:
  "signals_to g [] = []" "signals_to g ((h, e) # es) = (if h = g then e # signals_to g es else signals_to g es)"
  "signals_to g (es @ fs) = signals_to g es @ signals_to g fs"
  by (simp_all add: signals_to_def)

lemma signals_to_map:
  "distinct xs \<Longrightarrow> signals_to (Swipe x) (map (\<lambda>g. (Swipe g, e g)) xs) = (if x \<in> set xs then [e x] else [])"
  "distinct xs \<Longrightarrow> signals_to (Pinch x) (map (\<lambda>g. (Pinch g, e g)) xs) = (if x \<in> set xs then [e x] else [])"
  "signals_to (Swipe x) (map (\<lambda>g. (Pinch g, e g)) xs) = []" "signals_to (Pinch x) (map (\<lambda>g. (Swipe g, e g)) xs) = []"
  by (induction xs) auto

fun active_gesture :: "recognizer \<Rightarrow> gesture \<Rightarrow> bool" where
  "active_gesture r (Swipe g) \<longleftrightarrow> g \<in> set (m_activeSwipeGestures r)"
| "active_gesture r (Pinch g) \<longleftrightarrow> g \<in> set (m_activePinchGestures r)"

definition lists_ok :: "recognizer \<Rightarrow> bool" where
  "lists_ok r \<longleftrightarrow> (m_activeSwipeGestures r = [] \<or> m_activePinchGestures r = []) \<and>
     distinct (m_swipeGestures r) \<and> distinct (m_pinchGestures r) \<and>
     distinct (m_activeSwipeGestures r) \<and> distinct (m_activePinchGestures r) \<and>
     set (m_activeSwipeGestures r) \<subseteq> set (m_swipeGestures r) \<and> set (m_activePinchGestures r) \<subseteq> set (m_pinchGestures r) \<and>
     (\<forall>g. swipe_direction (swipe_store r g) \<noteq> SwipeInvalid)"

definition recognizer_ok :: "recognizer \<Rightarrow> bool" where
  "recognizer_ok r \<longleftrightarrow> lists_ok r \<and> (\<forall>g. bracket False (signals_to g (signals r)) = Some (active_gesture r g))"

text \<open>A change of the state that emits signals which fit to what is active before and after.\<close>

definition fits :: "recognizer \<Rightarrow> recognizer \<Rightarrow> bool" where
  "fits r r' \<longleftrightarrow> lists_ok r' \<and>
     (\<exists>es. signals r' = signals r @ es \<and> (\<forall>g. bracket (active_gesture r g) (signals_to g es) = Some (active_gesture r' g)))"

lemma fits_ok: "recognizer_ok r \<Longrightarrow> fits r r' \<Longrightarrow> recognizer_ok r'"
  by (auto simp: recognizer_ok_def fits_def bracket_append)

lemma fits_trans: "fits r r1 \<Longrightarrow> fits r1 r2 \<Longrightarrow> fits r r2"
  unfolding fits_def by (auto simp: bracket_append)

lemma fits_silent:
  assumes "lists_ok r'" "signals r' = signals r" "m_activeSwipeGestures r' = m_activeSwipeGestures r"
    "m_activePinchGestures r' = m_activePinchGestures r"
  shows "fits r r'"
proof -
  have "active_gesture r' g = active_gesture r g" for g using assms(3,4) by (cases g) simp_all
  then show ?thesis using assms(1,2) by (auto simp: fits_def)
qed

lemma fitsI:
  assumes "lists_ok r'" "signals r' = signals r @ es"
    "\<And>x. bracket (x \<in> set (m_activeSwipeGestures r)) (signals_to (Swipe x) es) = Some (x \<in> set (m_activeSwipeGestures r'))"
    "\<And>x. bracket (x \<in> set (m_activePinchGestures r)) (signals_to (Pinch x) es) = Some (x \<in> set (m_activePinchGestures r'))"
  shows "fits r r'"
  unfolding fits_def
proof (intro conjI exI [of _ es] allI)
  fix g show "bracket (active_gesture r g) (signals_to g es) = Some (active_gesture r' g)"
    using assms(3,4) by (cases g) simp_all
qed (use assms in simp_all)

lemma gesture_emit_simps [simp]:
  "signals (gesture_emit es r) = signals r @ es" "m_swipeGestures (gesture_emit es r) = m_swipeGestures r"
  "m_pinchGestures (gesture_emit es r) = m_pinchGestures r" "swipe_store (gesture_emit es r) = swipe_store r"
  "pinch_store (gesture_emit es r) = pinch_store r"
  "m_activeSwipeGestures (gesture_emit es r) = m_activeSwipeGestures r"
  "m_activePinchGestures (gesture_emit es r) = m_activePinchGestures r"
  "m_currentDelta (gesture_emit es r) = m_currentDelta r" "m_currentSwipeAxis (gesture_emit es r) = m_currentSwipeAxis r"
  "m_currentFingerCount (gesture_emit es r) = m_currentFingerCount r" "m_currentScale (gesture_emit es r) = m_currentScale r"
  by (simp_all add: gesture_emit_def)

end
