(* ===== verification/GesturesSteps.thy ===== *)
theory GesturesSteps
  imports Gestures
begin

text \<open>
  Every operation of the recognizer keeps \<open>recognizer_ok\<close>, and what a sequence of swipe updates does: the
  active gestures are those of the current direction.
\<close>

section \<open>Starting and eliminating\<close>

definition compatible :: "axis \<Rightarrow> swipe_direction \<Rightarrow> bool" where
  "compatible a d \<longleftrightarrow>
     \<not> ((d = SwipeUp \<or> d = SwipeDown) \<and> a = Horizontal \<or> (d = SwipeLeft \<or> d = SwipeRight) \<and> a = Vertical)"

definition wanted :: "nat \<Rightarrow> recognizer \<Rightarrow> nat \<Rightarrow> bool" where
  "wanted n r g \<longleftrightarrow> swipe_fingerCount (swipe_store r g) = n \<and>
     compatible (m_currentSwipeAxis r) (swipe_direction (swipe_store r g))"

lemma start_swipes_result:
  assumes "\<forall>g. swipe_direction (swipe_store r g) \<noteq> SwipeInvalid"
  shows "start_swipes n gs count r =
    Some (count + length (filter (wanted n r) gs),
      gesture_emit (map (\<lambda>g. (Swipe g, Started)) (filter (wanted n r) gs))
        (r\<lparr>m_activeSwipeGestures := m_activeSwipeGestures r @ filter (wanted n r) gs\<rparr>))"
  using assms
proof (induction gs arbitrary: count r)
  case (Cons g gs)
  let ?r = "gesture_emit [(Swipe g, Started)] (r\<lparr>m_activeSwipeGestures := m_activeSwipeGestures r @ [g]\<rparr>)"
  have w: "wanted n ?r = wanted n r" by (rule ext) (simp add: wanted_def)
  have "start_swipes n (g # gs) count r =
      (if wanted n r g then start_swipes n gs (count + 1) ?r else start_swipes n gs count r)"
    using Cons.prems by (auto simp: wanted_def compatible_def split: swipe_direction.split)
  moreover have "start_swipes n gs (count + 1) ?r =
      Some (count + 1 + length (filter (wanted n r) gs),
        gesture_emit (map (\<lambda>g. (Swipe g, Started)) (filter (wanted n r) gs))
          (?r\<lparr>m_activeSwipeGestures := m_activeSwipeGestures ?r @ filter (wanted n r) gs\<rparr>))"
    using Cons.IH [of ?r "count + 1"] Cons.prems w by simp
  ultimately show ?case using Cons.IH [of r count] Cons.prems by (simp add: gesture_emit_def)
qed (simp add: gesture_emit_def)

lemma lists_okD:
  assumes "lists_ok r"
  shows "m_activeSwipeGestures r = [] \<or> m_activePinchGestures r = []" "distinct (m_swipeGestures r)"
    "distinct (m_pinchGestures r)" "distinct (m_activeSwipeGestures r)" "distinct (m_activePinchGestures r)"
    "set (m_activeSwipeGestures r) \<subseteq> set (m_swipeGestures r)" "set (m_activePinchGestures r) \<subseteq> set (m_pinchGestures r)"
    "swipe_direction (swipe_store r g) \<noteq> SwipeInvalid"
  using assms by (auto simp: lists_ok_def)

lemma wanted_fingers [simp]: "wanted n (r\<lparr>m_currentFingerCount := k\<rparr>) = wanted n r"
  by (rule ext) (simp add: wanted_def)

lemma startSwipeGesture_result:
  assumes ok: "lists_ok r"
  shows "startSwipeGesture n r =
    (if m_activeSwipeGestures r \<noteq> [] \<or> m_activePinchGestures r \<noteq> [] then Some (0, r\<lparr>m_currentFingerCount := n\<rparr>)
     else let st = filter (wanted n r) (m_swipeGestures r)
          in Some (length st, gesture_emit (map (\<lambda>g. (Swipe g, Started)) st)
               (r\<lparr>m_currentFingerCount := n, m_activeSwipeGestures := st\<rparr>)))"
  using lists_okD(8) [OF ok] start_swipes_result [of "r\<lparr>m_currentFingerCount := n\<rparr>" n "m_swipeGestures r" 0]
  by (simp add: startSwipeGesture_def Let_def)

lemma startSwipeGesture_fits:
  assumes ok: "lists_ok r"
  shows "\<exists>k r'. startSwipeGesture n r = Some (k, r') \<and> fits r r'"
proof (cases "m_activeSwipeGestures r \<noteq> [] \<or> m_activePinchGestures r \<noteq> []")
  case True
  have "fits r (r\<lparr>m_currentFingerCount := n\<rparr>)" using ok by (intro fits_silent) (simp_all add: lists_ok_def)
  then show ?thesis using True startSwipeGesture_result [OF ok, of n] by auto
next
  case False
  let ?st = "filter (wanted n r) (m_swipeGestures r)"
  let ?r = "gesture_emit (map (\<lambda>g. (Swipe g, Started)) ?st) (r\<lparr>m_currentFingerCount := n, m_activeSwipeGestures := ?st\<rparr>)"
  have "fits r ?r"
    by (rule fitsI [where es = "map (\<lambda>g. (Swipe g, Started)) ?st"])
      (use False ok in \<open>auto simp: lists_ok_def signals_to_map\<close>)
  then show ?thesis using False startSwipeGesture_result [OF ok, of n] by (simp add: Let_def)
qed

lemma eliminate_swipes_fits: "lists_ok r \<Longrightarrow> fits r (eliminate_swipes d r)"
  unfolding eliminate_swipes_def
  by (rule fitsI [where es = "map (\<lambda>g. (Swipe g, Cancelled)) (filter (\<lambda>g. swipe_direction (swipe_store r g) \<noteq> d) (m_activeSwipeGestures r))"])
    (auto simp: lists_ok_def signals_to_map)

lemma fits_lists: "fits r r' \<Longrightarrow> lists_ok r'"
  by (simp add: fits_def)

lemma restart_swipes_fits:
  assumes ok: "lists_ok r"
  shows "\<exists>r'. restart_swipes d r = Some r' \<and> fits r r'"
proof (cases "m_activeSwipeGestures r = []")
  case True
  obtain k r1 where r1: "startSwipeGesture (m_currentFingerCount r) r = Some (k, r1)" "fits r r1"
    using startSwipeGesture_fits [OF ok] by blast
  have "fits r (eliminate_swipes d r1)"
    using fits_trans [OF r1(2) eliminate_swipes_fits [OF fits_lists [OF r1(2)]]] .
  then show ?thesis using True r1(1) by (simp add: restart_swipes_def)
next
  case False
  then show ?thesis using eliminate_swipes_fits [OF ok] by (simp add: restart_swipes_def)
qed

lemma deltaToProgress_valid:
  "swipe_direction g \<noteq> SwipeInvalid \<Longrightarrow>
   deltaToProgress g delta = Some (min (\<bar>(if swipe_direction g = SwipeUp \<or> swipe_direction g = SwipeDown then snd delta else fst delta)\<bar> / s_minimumDelta) 1)"
  by (cases "swipe_direction g") (simp_all add: deltaToProgress_def)

lemma gesture_emit_emit [simp]: "gesture_emit es' (gesture_emit es r) = gesture_emit (es @ es') r"
  by (simp add: gesture_emit_def)

lemma gesture_emit_Nil [simp]: "gesture_emit [] r = r"
  by (simp add: gesture_emit_def)

lemma lists_ok_emit [simp]: "lists_ok (gesture_emit es r) = lists_ok r"
  by (simp add: lists_ok_def)

lemma fits_refl: "lists_ok r \<Longrightarrow> fits r r"
  by (rule fits_silent) simp_all

lemma send_swipe_progress_fits:
  assumes "lists_ok r" "set gs \<subseteq> set (m_activeSwipeGestures r)"
  shows "\<exists>es. send_swipe_progress gs r = Some (gesture_emit es r) \<and> fits r (gesture_emit es r) \<and>
    (\<forall>g. (g, Triggered) \<notin> set es)"
  using assms
proof (induction gs arbitrary: r)
  case Nil
  then show ?case by (intro exI [of _ "[]"]) (simp add: fits_refl)
next
  case (Cons g gs)
  obtain p where p: "deltaToProgress (swipe_store r g) (m_currentDelta r) = Some p"
    using deltaToProgress_valid [OF lists_okD(8) [OF Cons.prems(1)]] by blast
  let ?es = "[(Swipe g, Progress p), (Swipe g, DeltaProgress (m_currentDelta r))]"
  have l: "lists_ok (gesture_emit ?es r)" using Cons.prems(1) by simp
  have f: "fits r (gesture_emit ?es r)" by (rule fitsI [where es = ?es]) (use l Cons.prems in auto)
  obtain es where es: "send_swipe_progress gs (gesture_emit ?es r) = Some (gesture_emit (?es @ es) r)"
    "fits (gesture_emit ?es r) (gesture_emit (?es @ es) r)" "\<forall>g. (g, Triggered) \<notin> set es"
    using Cons.IH [OF l] Cons.prems(2) by auto
  show ?case
    by (rule exI [of _ "?es @ es"]) (use p es fits_trans [OF f es(2)] in simp)
qed

section \<open>The operations keep the contract\<close>

lemma updateSwipeGesture_fits:
  assumes ok: "lists_ok r"
  shows "\<exists>r'. updateSwipeGesture delta r = Some r' \<and> fits r r'"
proof -
  define total where "total = (fst (m_currentDelta r) + fst delta, snd (m_currentDelta r) + snd delta)"
  define d where "d = direction_on (if m_currentSwipeAxis r = NoAxis then pick_axis total else m_currentSwipeAxis r) total"
  let ?r1 = "r\<lparr>m_currentDelta := total, m_currentSwipeAxis := lock_axis total (m_currentSwipeAxis r)\<rparr>"
  have f1: "fits r ?r1" using ok by (intro fits_silent) (simp_all add: lists_ok_def)
  obtain r2 where r2: "restart_swipes d ?r1 = Some r2" "fits ?r1 r2"
    using restart_swipes_fits [OF fits_lists [OF f1]] by blast
  obtain r3 where r3: "restart_swipes d r2 = Some r3" "fits r2 r3"
    using restart_swipes_fits [OF fits_lists [OF r2(2)]] by blast
  obtain es where es: "send_swipe_progress (m_activeSwipeGestures r3) r3 = Some (gesture_emit es r3)"
    "fits r3 (gesture_emit es r3)"
    using send_swipe_progress_fits [OF fits_lists [OF r3(2)] subset_refl] by blast
  have "updateSwipeGesture delta r = Some (gesture_emit es r3)"
    unfolding updateSwipeGesture_def total_def [symmetric] Let_def d_def [symmetric] using r2(1) r3(1) es(1) by simp
  then show ?thesis using fits_trans [OF f1 fits_trans [OF r2(2) fits_trans [OF r3(2) es(2)]]] by blast
qed

lemma cancelActiveGestures_fits: "lists_ok r \<Longrightarrow> fits r (cancelActiveGestures r)"
  unfolding cancelActiveGestures_def
  by (rule fitsI [where es = "map (\<lambda>g. (Swipe g, Cancelled)) (m_activeSwipeGestures r)
        @ map (\<lambda>g. (Pinch g, Cancelled)) (m_activePinchGestures r)"])
    (auto simp: lists_ok_def signals_to_map)

lemma cancel_fits:
  assumes ok: "lists_ok r"
  shows "fits r (cancelSwipeGesture r)" "fits r (cancelPinchGesture r)"
proof -
  note c = cancelActiveGestures_fits [OF ok]
  have "fits (cancelActiveGestures r) (cancelSwipeGesture r)" "fits (cancelActiveGestures r) (cancelPinchGesture r)"
    using fits_lists [OF c]
    by (auto intro!: fits_silent simp: cancelSwipeGesture_def cancelPinchGesture_def lists_ok_def)
  then show "fits r (cancelSwipeGesture r)" "fits r (cancelPinchGesture r)" using fits_trans [OF c] by blast+
qed

lemma end_swipes_result:
  assumes "\<forall>g. swipe_direction (swipe_store r g) \<noteq> SwipeInvalid"
  shows "end_swipes delta gs r = Some (gesture_emit (map (\<lambda>g.
      (Swipe g, if the (minimumDeltaReached (swipe_store r g) delta) then Triggered else Cancelled)) gs) r)"
  using assms
proof (induction gs arbitrary: r)
  case (Cons g gs)
  have "minimumDeltaReached (swipe_store r g) delta \<noteq> None"
    using Cons.prems deltaToProgress_valid [of "swipe_store r g"] by (simp add: minimumDeltaReached_def)
  then show ?case using Cons by auto
qed simp

lemma endSwipeGesture_fits:
  assumes ok: "lists_ok r"
  shows "\<exists>r'. endSwipeGesture r = Some r' \<and> fits r r'"
proof -
  define e where "e g = (if the (minimumDeltaReached (swipe_store r g) (m_currentDelta r)) then Triggered else Cancelled)" for g
  let ?es = "map (\<lambda>g. (Swipe g, e g)) (m_activeSwipeGestures r)"
  let ?r = "(gesture_emit ?es r)\<lparr>m_activeSwipeGestures := [], m_currentFingerCount := 0, m_currentDelta := (0, 0), m_currentSwipeAxis := NoAxis\<rparr>"
  have e: "e g = Triggered \<or> e g = Cancelled" for g by (simp add: e_def)
  have "fits r ?r"
  proof (rule fitsI [where es = ?es])
    fix x
    show "bracket (x \<in> set (m_activeSwipeGestures r)) (signals_to (Swipe x) ?es) = Some (x \<in> set (m_activeSwipeGestures ?r))"
      using lists_okD(4) [OF ok] e [of x] by (auto simp: signals_to_map)
  qed (use ok in \<open>auto simp: lists_ok_def signals_to_map\<close>)
  moreover have "endSwipeGesture r = Some ?r"
    using lists_okD(8) [OF ok] by (simp add: endSwipeGesture_def end_swipes_result e_def)
  ultimately show ?thesis by blast
qed

lemma startPinchGesture_fits:
  assumes ok: "lists_ok r"
  shows "fits r (snd (startPinchGesture n r))"
proof (cases "m_activeSwipeGestures r \<noteq> [] \<or> m_activePinchGestures r \<noteq> []")
  case True
  then show ?thesis using ok by (auto simp: startPinchGesture_def Let_def lists_ok_def intro!: fits_silent)
next
  case False
  let ?st = "filter (\<lambda>g. pinch_fingerCount (pinch_store r g) = n) (m_pinchGestures r)"
  show ?thesis
    by (rule fitsI [where es = "map (\<lambda>g. (Pinch g, Started)) ?st"])
      (use False ok in \<open>auto simp: startPinchGesture_def Let_def lists_ok_def signals_to_map\<close>)
qed

lemma eliminate_pinches_fits: "lists_ok r \<Longrightarrow> fits r (eliminate_pinches d r)"
  unfolding eliminate_pinches_def
  by (rule fitsI [where es = "map (\<lambda>g. (Pinch g, Cancelled)) (filter (\<lambda>g. pinch_direction (pinch_store r g) \<noteq> d) (m_activePinchGestures r))"])
    (auto simp: lists_ok_def signals_to_map)

lemma restart_pinches_fits: "lists_ok r \<Longrightarrow> fits r (restart_pinches d r)"
  unfolding restart_pinches_def
  using fits_trans [OF startPinchGesture_fits eliminate_pinches_fits] fits_lists [OF startPinchGesture_fits]
    eliminate_pinches_fits by simp

lemma updatePinchGesture_fits:
  assumes ok: "lists_ok r"
  shows "fits r (updatePinchGesture scale r)"
proof -
  define d where "d = (if scale < 1 then Contracting else Expanding)"
  define r1 where "r1 = restart_pinches d (restart_pinches d (r\<lparr>m_currentScale := scale\<rparr>))"
  have f0: "fits r (r\<lparr>m_currentScale := scale\<rparr>)" using ok by (intro fits_silent) (simp_all add: lists_ok_def)
  note f1 = fits_trans [OF f0 restart_pinches_fits [OF fits_lists [OF f0]], of d]
  have f2: "fits r r1" unfolding r1_def using fits_trans [OF f1 restart_pinches_fits [OF fits_lists [OF f1]]] .
  let ?es = "map (\<lambda>g. (Pinch g, Progress (scaleDeltaToProgress scale))) (m_activePinchGestures r1)"
  have "fits r1 (gesture_emit ?es r1)"
    by (rule fitsI [where es = ?es]) (use lists_okD(5) [OF fits_lists [OF f2]] fits_lists [OF f2] in \<open>auto simp: signals_to_map\<close>)
  then have "fits r (gesture_emit ?es r1)" by (rule fits_trans [OF f2])
  then show ?thesis by (simp add: updatePinchGesture_def d_def r1_def Let_def)
qed

lemma endPinchGesture_fits:
  assumes ok: "recognizer_ok r" and s: "m_activeSwipeGestures r = []"
  shows "fits r (endPinchGesture r)"
proof -
  let ?es = "map (\<lambda>g. (Pinch g, if minimumScaleDeltaReached (m_currentScale r) then Triggered else Cancelled)) (m_activePinchGestures r)"
  show ?thesis
    by (rule fitsI [where es = ?es]) (use ok s in \<open>auto simp: endPinchGesture_def recognizer_ok_def lists_ok_def signals_to_map\<close>)
qed

lemma register_fits:
  assumes ok: "lists_ok r"
  shows "registerSwipeGesture g r = Some r' \<Longrightarrow> fits r r'" "registerPinchGesture g r = Some r' \<Longrightarrow> fits r r'"
  using ok by (auto simp: registerSwipeGesture_def registerPinchGesture_def lists_ok_def intro!: fits_silent split: if_splits)

lemma unregister_fits:
  assumes ok: "lists_ok r"
  shows "fits r (unregisterSwipeGesture g r)" "fits r (unregisterPinchGesture g r)"
proof -
  show "fits r (unregisterSwipeGesture g r)"
    by (rule fitsI [where es = "if g \<in> set (m_activeSwipeGestures r) then [(Swipe g, Cancelled)] else []"])
      (use ok in \<open>auto simp: unregisterSwipeGesture_def Let_def lists_ok_def distinct_removeAll distinct_remove1_removeAll\<close>)
  show "fits r (unregisterPinchGesture g r)"
    by (rule fitsI [where es = "if g \<in> set (m_activePinchGestures r) then [(Pinch g, Cancelled)] else []"])
      (use ok in \<open>auto simp: unregisterPinchGesture_def Let_def lists_ok_def distinct_removeAll distinct_remove1_removeAll\<close>)
qed

lemma direction_fits:
  assumes ok: "lists_ok r"
  shows "d \<noteq> SwipeInvalid \<Longrightarrow> fits r (setSwipeDirection g d r)" "fits r (setPinchDirection g d' r)"
  using assms by (auto intro!: fits_silent simp: setSwipeDirection_def setPinchDirection_def lists_ok_def)

end
