(* ===== verification/GesturesProps.thy ===== *)
theory GesturesProps
  imports GesturesSteps
begin

text \<open>The properties of the gesture recognizer: its signals, and which swipes trigger which gestures.\<close>

section \<open>Runs\<close>

datatype gesture_event =
    Register_swipe nat
  | Unregister_swipe nat
  | Register_pinch nat
  | Unregister_pinch nat
  | Set_swipe_direction nat swipe_direction
  | Set_pinch_direction nat pinch_direction
  | Start_swipe nat
  | Update_swipe "real \<times> real"
  | Cancel_swipe
  | End_swipe
  | Start_pinch nat
  | Update_pinch real
  | Cancel_pinch
  | End_pinch

fun run_gesture :: "gesture_event \<Rightarrow> recognizer \<Rightarrow> recognizer option" where
  "run_gesture (Register_swipe g) r = registerSwipeGesture g r"
| "run_gesture (Unregister_swipe g) r = Some (unregisterSwipeGesture g r)"
| "run_gesture (Register_pinch g) r = registerPinchGesture g r"
| "run_gesture (Unregister_pinch g) r = Some (unregisterPinchGesture g r)"
| "run_gesture (Set_swipe_direction g d) r = Some (setSwipeDirection g d r)"
| "run_gesture (Set_pinch_direction g d) r = Some (setPinchDirection g d r)"
| "run_gesture (Start_swipe n) r = map_option snd (startSwipeGesture n r)"
| "run_gesture (Update_swipe delta) r = updateSwipeGesture delta r"
| "run_gesture Cancel_swipe r = Some (cancelSwipeGesture r)"
| "run_gesture End_swipe r = endSwipeGesture r"
| "run_gesture (Start_pinch n) r = Some (snd (startPinchGesture n r))"
| "run_gesture (Update_pinch scale) r = Some (updatePinchGesture scale r)"
| "run_gesture Cancel_pinch r = Some (cancelPinchGesture r)"
| "run_gesture End_pinch r = Some (endPinchGesture r)"

text \<open>
  What a caller ensures: a gesture is registered once (the assertion), has a direction, and a pinch does
  not end while a swipe is going on.
\<close>

fun possible :: "gesture_event \<Rightarrow> recognizer \<Rightarrow> bool" where
  "possible (Register_swipe g) r \<longleftrightarrow> g \<notin> set (m_swipeGestures r)"
| "possible (Register_pinch g) r \<longleftrightarrow> g \<notin> set (m_pinchGestures r)"
| "possible (Set_swipe_direction g d) r \<longleftrightarrow> d \<noteq> SwipeInvalid"
| "possible End_pinch r \<longleftrightarrow> m_activeSwipeGestures r = []"
| "possible e r \<longleftrightarrow> True"

inductive gestures_reachable :: "recognizer \<Rightarrow> bool" where
  gestures_start: "\<forall>g. swipe_direction (swipes g) \<noteq> SwipeInvalid \<Longrightarrow> gestures_reachable (GestureRecognizer_new swipes pinches)"
| gestures_step: "gestures_reachable r \<Longrightarrow> possible e r \<Longrightarrow> run_gesture e r = Some r' \<Longrightarrow> gestures_reachable r'"

lemma run_gesture_fits:
  assumes ok: "recognizer_ok r" and p: "possible e r"
  shows "\<exists>r'. run_gesture e r = Some r' \<and> fits r r'"
proof -
  have l: "lists_ok r" using ok by (simp add: recognizer_ok_def)
  show ?thesis
  proof (cases e)
    case (Register_swipe g)
    then show ?thesis using p register_fits(1) [OF l, of g] by (simp add: registerSwipeGesture_def)
  next
    case (Register_pinch g)
    then show ?thesis using p register_fits(2) [OF l, of g] by (simp add: registerPinchGesture_def)
  next
    case (Start_swipe n)
    then show ?thesis using startSwipeGesture_fits [OF l, of n] by auto
  qed (use p ok l in \<open>simp_all add: unregister_fits direction_fits updateSwipeGesture_fits cancel_fits endSwipeGesture_fits
        startPinchGesture_fits updatePinchGesture_fits endPinchGesture_fits\<close>)
qed

lemma gestures_reachable_ok: "gestures_reachable r \<Longrightarrow> recognizer_ok r"
proof (induction rule: gestures_reachable.induct)
  case (gestures_start swipes pinches)
  have "active_gesture (GestureRecognizer_new swipes pinches) g = False" for g
    by (cases g) (simp_all add: GestureRecognizer_new_def)
  then show ?case using gestures_start by (simp add: recognizer_ok_def lists_ok_def) (simp add: GestureRecognizer_new_def)
next
  case (gestures_step r e r')
  then show ?case using run_gesture_fits [of r e] fits_ok by auto
qed


text \<open>Three swipes with three fingers, and a pinch with two, for the witnesses.\<close>

definition demo_swipes :: "nat \<Rightarrow> swipe_gesture" where
  "demo_swipes g = (SwipeGesture_new 3)\<lparr>swipe_direction := (if g = 1 then SwipeLeft else if g = 2 then SwipeRight else SwipeDown)\<rparr>"

definition demo_recognizer :: recognizer where
  "demo_recognizer =
     (GestureRecognizer_new demo_swipes (\<lambda>g. PinchGesture_new 2))
       \<lparr>m_swipeGestures := [1, 2, 3], m_destroyConnections := {Swipe 1, Swipe 2, Swipe 3, Pinch 4}, m_pinchGestures := [4]\<rparr>"

lemma demo_reachable: "gestures_reachable demo_recognizer"
proof -
  have valid: "\<forall>g. swipe_direction (demo_swipes g) \<noteq> SwipeInvalid" by (simp add: demo_swipes_def)
  let ?r0 = "GestureRecognizer_new demo_swipes (\<lambda>g. PinchGesture_new 2)"
  let ?add = "\<lambda>gs r. r\<lparr>m_destroyConnections := m_destroyConnections r \<union> Swipe ` set gs, m_swipeGestures := m_swipeGestures r @ gs\<rparr>"
  have step: "gestures_reachable (?add [g] r)" if "gestures_reachable r" "g \<notin> set (m_swipeGestures r)" for g r
    using gestures_step [OF that(1), of "Register_swipe g"] that(2) by (simp add: registerSwipeGesture_def)
  have "gestures_reachable (?add [3] (?add [2] (?add [1] ?r0)))"
    by (intro step gestures_start valid) (simp_all add: GestureRecognizer_new_def)
  then have "gestures_reachable (the (registerPinchGesture 4 (?add [3] (?add [2] (?add [1] ?r0)))))"
    by (rule gestures_step [of _ "Register_pinch 4"]) (simp_all add: registerPinchGesture_def GestureRecognizer_new_def)
  moreover have "the (registerPinchGesture 4 (?add [3] (?add [2] (?add [1] ?r0)))) = demo_recognizer"
    by (simp add: demo_recognizer_def registerPinchGesture_def GestureRecognizer_new_def insert_commute)
  ultimately show ?thesis by simp
qed


section \<open>Which gestures a swipe triggers\<close>

fun swipe_updates :: "(real \<times> real) list \<Rightarrow> recognizer \<Rightarrow> recognizer option" where
  "swipe_updates [] r = Some r"
| "swipe_updates (d # ds) r = do { r' \<leftarrow> updateSwipeGesture d r; swipe_updates ds r' }"

text \<open>The path of the fingers: the distance covered and the axis that is locked in.\<close>

fun swipe_track :: "(real \<times> real) list \<Rightarrow> real \<times> real \<Rightarrow> axis \<Rightarrow> (real \<times> real) \<times> axis" where
  "swipe_track [] t a = (t, a)"
| "swipe_track (d # ds) t a =
     (let t' = (fst t + fst d, snd t + snd d) in swipe_track ds t' (lock_axis t' a))"

definition heading :: "(real \<times> real) \<times> axis \<Rightarrow> swipe_direction" where
  "heading ta = direction_on (if snd ta = NoAxis then pick_axis (fst ta) else snd ta) (fst ta)"

definition distance :: "(real \<times> real) \<times> axis \<Rightarrow> real" where
  "distance ta = (if (if snd ta = NoAxis then pick_axis (fst ta) else snd ta) = Vertical then \<bar>snd (fst ta)\<bar> else \<bar>fst (fst ta)\<bar>)"

definition matching :: "nat \<Rightarrow> swipe_direction \<Rightarrow> recognizer \<Rightarrow> nat list" where
  "matching n d r = filter (\<lambda>g. swipe_fingerCount (swipe_store r g) = n \<and> swipe_direction (swipe_store r g) = d) (m_swipeGestures r)"

definition heading_only :: "swipe_direction \<Rightarrow> recognizer \<Rightarrow> nat list" where
  "heading_only d r = filter (\<lambda>g. swipe_direction (swipe_store r g) = d) (m_activeSwipeGestures r)"

lemma restart_swipes_matching:
  assumes ok: "lists_ok r" and p: "m_activePinchGestures r = []" and c: "compatible (m_currentSwipeAxis r) d"
  shows "\<exists>es. restart_swipes d r = Some (gesture_emit es (r\<lparr>m_activeSwipeGestures :=
      (if m_activeSwipeGestures r = [] then matching (m_currentFingerCount r) d r else heading_only d r)\<rparr>)) \<and>
    (\<forall>g. (g, Triggered) \<notin> set es)"
proof (cases "m_activeSwipeGestures r = []")
  case True
  let ?n = "m_currentFingerCount r"
  let ?st = "filter (wanted ?n r) (m_swipeGestures r)"
  let ?r1 = "gesture_emit (map (\<lambda>g. (Swipe g, Started)) ?st) (r\<lparr>m_activeSwipeGestures := ?st\<rparr>)"
  have "r\<lparr>m_currentFingerCount := ?n, m_activeSwipeGestures := ?st\<rparr> = r\<lparr>m_activeSwipeGestures := ?st\<rparr>" by (cases r) simp
  then have "startSwipeGesture ?n r = Some (length ?st, ?r1)"
    using startSwipeGesture_result [OF ok, of ?n] True p by (simp add: Let_def)
  moreover have "filter (\<lambda>g. swipe_direction (swipe_store r g) = d) ?st = matching ?n d r"
    using c by (auto simp: matching_def wanted_def intro!: filter_cong)
  then have "\<exists>es. eliminate_swipes d ?r1 = gesture_emit es (r\<lparr>m_activeSwipeGestures := matching ?n d r\<rparr>) \<and> (\<forall>g. (g, Triggered) \<notin> set es)"
    unfolding eliminate_swipes_def
    by (intro exI [of _ "map (\<lambda>g. (Swipe g, Started)) ?st @ map (\<lambda>g. (Swipe g, Cancelled)) (filter (\<lambda>g. swipe_direction (swipe_store r g) \<noteq> d) ?st)"])
      (auto simp: gesture_emit_def)
  ultimately show ?thesis using True by (simp add: restart_swipes_def)
next
  case False
  then show ?thesis
    by (intro exI [of _ "map (\<lambda>g. (Swipe g, Cancelled)) (filter (\<lambda>g. swipe_direction (swipe_store r g) \<noteq> d) (m_activeSwipeGestures r))"])
      (auto simp: restart_swipes_def eliminate_swipes_def heading_only_def)
qed

lemma heading_compatible: "compatible (lock_axis t a) (heading (t, lock_axis t a))"
  by (auto simp: compatible_def heading_def direction_on_def)

lemma heading_picked:
  "heading (t, lock_axis t a) = direction_on (if a = NoAxis then pick_axis t else a) t"
  by (auto simp: heading_def lock_axis_def pick_axis_def)

text \<open>Either none or all of the wanted gestures of each direction are active.\<close>

definition all_or_none :: "nat \<Rightarrow> recognizer \<Rightarrow> bool" where
  "all_or_none n r \<longleftrightarrow> (\<forall>d. heading_only d r = [] \<or> heading_only d r = matching n d r)"

lemma matching_simps [simp]:
  "matching n d (r\<lparr>m_currentDelta := t\<rparr>) = matching n d r" "matching n d (r\<lparr>m_currentSwipeAxis := a\<rparr>) = matching n d r"
  "matching n d (r\<lparr>m_activeSwipeGestures := gs\<rparr>) = matching n d r" "matching n d (gesture_emit es r) = matching n d r"
  "heading_only d (r\<lparr>m_currentDelta := t\<rparr>) = heading_only d r" "heading_only d (r\<lparr>m_currentSwipeAxis := a\<rparr>) = heading_only d r"
  "heading_only d (gesture_emit es r) = heading_only d r"
  by (simp_all add: matching_def heading_only_def)

lemma updateSwipeGesture_matching:
  assumes ok: "lists_ok r" and p: "m_activePinchGestures r = []" and n: "m_currentFingerCount r = n" and a: "all_or_none n r"
    and t: "t = (fst (m_currentDelta r) + fst delta, snd (m_currentDelta r) + snd delta)"
    and ax: "ax = lock_axis t (m_currentSwipeAxis r)"
  shows "\<exists>es. updateSwipeGesture delta r = Some (gesture_emit es (r\<lparr>m_currentDelta := t, m_currentSwipeAxis := ax,
      m_activeSwipeGestures := matching n (heading (t, ax)) r\<rparr>)) \<and> (\<forall>g. (g, Triggered) \<notin> set es)"
proof -
  define d where "d = heading (t, ax)"
  have c: "compatible ax d" unfolding d_def ax by (rule heading_compatible)
  let ?r1 = "r\<lparr>m_currentDelta := t, m_currentSwipeAxis := ax\<rparr>"
  have l1: "lists_ok ?r1" using ok by (simp add: lists_ok_def)
  let ?A = "if m_activeSwipeGestures r = [] then matching n d r else heading_only d r"
  obtain es1 where es1: "restart_swipes d ?r1 = Some (gesture_emit es1 (?r1\<lparr>m_activeSwipeGestures := ?A\<rparr>))"
    "\<forall>g. (g, Triggered) \<notin> set es1"
    using restart_swipes_matching [OF l1, of d] p c n by (auto cong: if_cong)
  let ?r2 = "gesture_emit es1 (?r1\<lparr>m_activeSwipeGestures := ?A\<rparr>)"
  have A: "?A = [] \<or> ?A = matching n d r" using a unfolding all_or_none_def by auto
  have l2: "lists_ok ?r2" using restart_swipes_fits [OF l1, of d] es1(1) fits_lists [of ?r1 ?r2] by auto
  have h: "heading_only d ?r2 = ?A"
    by (auto simp: heading_only_def matching_def)
  obtain es2 where es2: "restart_swipes d ?r2 = Some (gesture_emit es2 (?r2\<lparr>m_activeSwipeGestures :=
      (if ?A = [] then matching n d r else ?A)\<rparr>))" "\<forall>g. (g, Triggered) \<notin> set es2"
    using restart_swipes_matching [OF l2, of d] p c n h by (auto cong: if_cong)
  have "(if ?A = [] then matching n d r else ?A) = matching n d r" using A by auto
  then have r3: "restart_swipes d ?r2 = Some (gesture_emit (es1 @ es2) (?r1\<lparr>m_activeSwipeGestures := matching n d r\<rparr>))"
    using es2(1) by (simp add: gesture_emit_def)
  let ?r3 = "gesture_emit (es1 @ es2) (?r1\<lparr>m_activeSwipeGestures := matching n d r\<rparr>)"
  have l3: "lists_ok ?r3" using restart_swipes_fits [OF l2, of d] r3 fits_lists [of ?r2 ?r3] by auto
  obtain es3 where es3: "send_swipe_progress (m_activeSwipeGestures ?r3) ?r3 = Some (gesture_emit es3 ?r3)" "\<forall>g. (g, Triggered) \<notin> set es3"
    using send_swipe_progress_fits [OF l3 subset_refl] by blast
  have d: "direction_on (if m_currentSwipeAxis r = NoAxis then pick_axis t else m_currentSwipeAxis r) t = d"
    unfolding d_def ax by (rule heading_picked [symmetric])
  have "updateSwipeGesture delta r = Some (gesture_emit es3 ?r3)"
    unfolding updateSwipeGesture_def t [symmetric] Let_def d ax [symmetric] using es1(1) r3 es3(1) by simp
  then show ?thesis
    using es1(2) es2(2) es3(2) by (intro exI [of _ "es1 @ es2 @ es3"]) (simp add: d_def)
qed

lemma swipe_updates_result:
  assumes "lists_ok r" "m_activePinchGestures r = []" "m_currentFingerCount r = n" "all_or_none n r"
  shows "\<exists>es. swipe_updates ds r = Some (gesture_emit es (r\<lparr>m_currentDelta := fst (swipe_track ds (m_currentDelta r) (m_currentSwipeAxis r)),
        m_currentSwipeAxis := snd (swipe_track ds (m_currentDelta r) (m_currentSwipeAxis r)),
        m_activeSwipeGestures := (if ds = [] then m_activeSwipeGestures r
          else matching n (heading (swipe_track ds (m_currentDelta r) (m_currentSwipeAxis r))) r)\<rparr>)) \<and>
      (\<forall>g. (g, Triggered) \<notin> set es)"
  using assms
proof (induction ds arbitrary: r)
  case Nil
  then show ?case by (intro exI [of _ "[]"]) simp
next
  case (Cons delta ds)
  define t where "t = (fst (m_currentDelta r) + fst delta, snd (m_currentDelta r) + snd delta)"
  define ax where "ax = lock_axis t (m_currentSwipeAxis r)"
  define d where "d = heading (t, ax)"
  obtain es1 where es1: "updateSwipeGesture delta r = Some (gesture_emit es1 (r\<lparr>m_currentDelta := t, m_currentSwipeAxis := ax,
      m_activeSwipeGestures := matching n d r\<rparr>))" "\<forall>g. (g, Triggered) \<notin> set es1"
    using updateSwipeGesture_matching [OF Cons.prems t_def ax_def] unfolding d_def by blast
  let ?r1 = "gesture_emit es1 (r\<lparr>m_currentDelta := t, m_currentSwipeAxis := ax, m_activeSwipeGestures := matching n d r\<rparr>)"
  have l1: "lists_ok ?r1" using updateSwipeGesture_fits [OF Cons.prems(1), of delta] es1(1) fits_lists [of r ?r1] by auto
  have m: "matching n d' ?r1 = matching n d' r" for d' by (simp add: matching_def)
  have "heading_only d' ?r1 = (if d' = d then matching n d r else [])" for d'
    by (auto simp: heading_only_def matching_def filter_empty_conv intro: filter_cong)
  then have an: "all_or_none n ?r1" by (simp add: all_or_none_def m)
  obtain es2 where es2: "swipe_updates ds ?r1 = Some (gesture_emit es2 (?r1\<lparr>m_currentDelta := fst (swipe_track ds t ax),
        m_currentSwipeAxis := snd (swipe_track ds t ax),
        m_activeSwipeGestures := (if ds = [] then matching n d r else matching n (heading (swipe_track ds t ax)) r)\<rparr>))"
      "\<forall>g. (g, Triggered) \<notin> set es2"
    using Cons.IH [OF l1 _ _ an] Cons.prems(2,3) by (auto cong: if_cong)
  have "swipe_track (delta # ds) (m_currentDelta r) (m_currentSwipeAxis r) = swipe_track ds t ax"
    by (simp add: t_def ax_def Let_def)
  moreover have "(if ds = [] then matching n d r else matching n (heading (swipe_track ds t ax)) r) = matching n (heading (swipe_track ds t ax)) r"
    by (simp add: d_def)
  ultimately show ?case
    using es1 es2 by (intro exI [of _ "es1 @ es2"]) (auto simp: gesture_emit_def)
qed

text \<open>
  A swipe with \<open>n\<close> fingers, from its start over its updates to its end, triggers exactly the registered
  gestures with that number of fingers and the direction of the whole path along the axis that the path
  locks in (once it has covered 5 pixels), and only if the path covers 200 pixels along it; afterwards
  the recognizer is idle again.
\<close>
lemma swipe_triggers:
  assumes "gestures_reachable r" and "m_activeSwipeGestures r = []" "m_activePinchGestures r = []"
    and "m_currentDelta r = (0, 0)" "m_currentSwipeAxis r = NoAxis" and "ds \<noteq> []"
  shows "\<exists>k r1 r2 r3 es. startSwipeGesture n r = Some (k, r1) \<and> swipe_updates ds r1 = Some r2 \<and>
    endSwipeGesture r2 = Some r3 \<and> signals r3 = signals r @ es \<and>
    (\<forall>g. (g, Triggered) \<in> set es \<longleftrightarrow> (\<exists>x \<in> set (m_swipeGestures r). g = Swipe x \<and>
       swipe_fingerCount (swipe_store r x) = n \<and>
       swipe_direction (swipe_store r x) = heading (swipe_track ds (0, 0) NoAxis) \<and>
       200 \<le> distance (swipe_track ds (0, 0) NoAxis))) \<and>
    m_activeSwipeGestures r3 = [] \<and> m_activePinchGestures r3 = [] \<and> m_currentDelta r3 = (0, 0) \<and> m_currentSwipeAxis r3 = NoAxis"
proof -
  let ?ta = "swipe_track ds (0, 0) NoAxis"
  have ok: "lists_ok r" using gestures_reachable_ok [OF assms(1)] by (simp add: recognizer_ok_def)
  let ?st = "filter (wanted n r) (m_swipeGestures r)"
  let ?r1 = "gesture_emit (map (\<lambda>g. (Swipe g, Started)) ?st) (r\<lparr>m_currentFingerCount := n, m_activeSwipeGestures := ?st\<rparr>)"
  have s1: "startSwipeGesture n r = Some (length ?st, ?r1)"
    using startSwipeGesture_result [OF ok, of n] assms(2,3) by (simp add: Let_def)
  have l1: "lists_ok ?r1" using startSwipeGesture_fits [OF ok, of n] s1 fits_lists [of r ?r1] by auto
  have "heading_only d ?r1 = matching n d ?r1" for d
    by (auto simp: heading_only_def matching_def wanted_def compatible_def assms(5) conj_commute)
  then have "all_or_none n ?r1" by (simp add: all_or_none_def)
  then obtain es2 where es2: "swipe_updates ds ?r1 = Some (gesture_emit es2 (?r1\<lparr>m_currentDelta := fst ?ta,
        m_currentSwipeAxis := snd ?ta, m_activeSwipeGestures := matching n (heading ?ta) r\<rparr>))" "\<forall>g. (g, Triggered) \<notin> set es2"
    using swipe_updates_result [OF l1, of n ds] assms(3-6) by (auto simp: matching_def)
  let ?r2 = "gesture_emit es2 (?r1\<lparr>m_currentDelta := fst ?ta, m_currentSwipeAxis := snd ?ta, m_activeSwipeGestures := matching n (heading ?ta) r\<rparr>)"
  define e where "e x = (if the (minimumDeltaReached (swipe_store r x) (fst ?ta)) then Triggered else Cancelled)" for x
  let ?es = "map (\<lambda>g. (Swipe g, Started)) ?st @ es2 @ map (\<lambda>g. (Swipe g, e g)) (matching n (heading ?ta) r)"
  obtain r3 where r3: "endSwipeGesture ?r2 = Some r3" "signals r3 = signals r @ ?es" "m_activeSwipeGestures r3 = []"
    "m_activePinchGestures r3 = []" "m_currentDelta r3 = (0, 0)" "m_currentSwipeAxis r3 = NoAxis"
    using lists_okD(8) [OF ok] assms(3) by (simp add: endSwipeGesture_def end_swipes_result e_def)
  have reached: "the (minimumDeltaReached (swipe_store r x) (fst ?ta)) \<longleftrightarrow> 200 \<le> distance ?ta"
    if "swipe_direction (swipe_store r x) = heading ?ta" for x
    using that lists_okD(8) [OF ok, of x]
    by (auto simp: minimumDeltaReached_def deltaToProgress_valid heading_def distance_def direction_on_def s_minimumDelta_def
        split: if_splits)
  have trig: "(g, Triggered) \<in> set ?es \<longleftrightarrow> (\<exists>x \<in> set (m_swipeGestures r). g = Swipe x \<and>
       swipe_fingerCount (swipe_store r x) = n \<and> swipe_direction (swipe_store r x) = heading ?ta \<and> 200 \<le> distance ?ta)" for g
    using es2(2) reached by (auto simp: matching_def e_def)
  show ?thesis
    by (rule exI [of _ "length ?st"], rule exI [of _ ?r1], rule exI [of _ ?r2], rule exI [of _ r3], rule exI [of _ ?es])
      (use s1 es2(1) r3 trig in blast)
qed

lemma swipe_triggers_witness:
  "\<exists>k r1 r2 r3 es. startSwipeGesture 3 demo_recognizer = Some (k, r1) \<and> swipe_updates [(-4, 3), (-200, 150)] r1 = Some r2 \<and>
     endSwipeGesture r2 = Some r3 \<and> signals r3 = es \<and> (Swipe 1, Triggered) \<in> set es \<and> (Swipe 3, Triggered) \<notin> set es"
proof -
  let ?ta = "swipe_track [(-4, 3), (-200, 150)] (0, 0) NoAxis"
  have ta: "heading ?ta = SwipeLeft" "200 \<le> distance ?ta"
    by (simp_all add: Let_def lock_axis_def pick_axis_def heading_def direction_on_def distance_def)
  have idle: "m_activeSwipeGestures demo_recognizer = []" "m_activePinchGestures demo_recognizer = []"
    "m_currentDelta demo_recognizer = (0, 0)" "m_currentSwipeAxis demo_recognizer = NoAxis"
    "signals demo_recognizer = []" "m_swipeGestures demo_recognizer = [1, 2, 3]" "swipe_store demo_recognizer = demo_swipes"
    by (simp_all add: demo_recognizer_def GestureRecognizer_new_def)
  note T = swipe_triggers [OF demo_reachable idle(1-4), of "[(-4, 3), (-200, 150)]" 3]
  have d: "swipe_direction (demo_swipes 1) = SwipeLeft" "swipe_fingerCount (demo_swipes 1) = 3" "swipe_direction (demo_swipes 3) \<noteq> SwipeLeft"
    by (simp_all add: demo_swipes_def SwipeGesture_new_def)
  obtain k r1 r2 r3 es where r: "startSwipeGesture 3 demo_recognizer = Some (k, r1)" "swipe_updates [(-4, 3), (-200, 150)] r1 = Some r2"
    "endSwipeGesture r2 = Some r3" "signals r3 = signals demo_recognizer @ es"
    "\<forall>g. (g, Triggered) \<in> set es \<longleftrightarrow> (\<exists>x \<in> set (m_swipeGestures demo_recognizer). g = Swipe x \<and>
       swipe_fingerCount (swipe_store demo_recognizer x) = 3 \<and>
       swipe_direction (swipe_store demo_recognizer x) = heading ?ta \<and> 200 \<le> distance ?ta)"
    using T by blast
  then show ?thesis using idle(5-7) ta d by (metis append_Nil gesture.inject(1) list.set_intros(1))
qed

section \<open>A pinch after a cancelled swipe\<close>

text \<open>
  \<open>cancelSwipeGesture\<close> leaves \<open>m_currentScale\<close> at the 0 that \<open>cancelActiveGestures\<close> sets: a pinch that starts
  afterwards and ends without an update has moved by nothing, and triggers all its gestures.
\<close>

lemma cancelled_swipe_triggers_pinch:
  "signals (endPinchGesture (snd (startPinchGesture 2 (cancelSwipeGesture demo_recognizer)))) =
     [(Pinch 4, Started), (Pinch 4, Triggered)]"
  "signals (endPinchGesture (snd (startPinchGesture 2 demo_recognizer))) = [(Pinch 4, Started), (Pinch 4, Cancelled)]"
  by (simp_all add: demo_recognizer_def GestureRecognizer_new_def cancelSwipeGesture_def cancelActiveGestures_def
      startPinchGesture_def endPinchGesture_def gesture_emit_def PinchGesture_new_def minimumScaleDeltaReached_def
      scaleDeltaToProgress_def s_minimumScaleDelta_def Let_def)

end
