(* ===== verification/StickyKeys.thy ===== *)
theory StickyKeys
  imports Prelude "HOL-Library.Word"
begin

text \<open>
  The sticky keys filter of \<open>src/kde-kwin/src/plugins/stickykeys\<close>, with the two functions of
  \<open>src/kde-kwin/src/xkb.cpp\<close> through which it changes the modifiers. The masks of xkb are 32-bit words.
  The map of the key states is sorted by key, as a \<open>QMap\<close> is; signals, bells and notifications are recorded.

  The theorem of the component is an invariant that ties the filter's key states to the masks; it speaks of
  the changes that go through the filter, not of what xkb itself does to the masks on key events.
\<close>

section \<open>The modifiers of xkb\<close>

datatype xkb_modifier = NoModifier | Shift | Lock | Control | Mod1 | Num | Mod3 | Mod4 | Mod5

text \<open>
  \<open>m_shiftModifier\<close> and its siblings are \<open>mod_index\<close>; the keymap and the state exist if \<open>has_keymap\<close>.
  \<open>kept_mods\<close> is what the library xkbcommon answers: the mask that \<open>xkb_state_serialize_mods\<close> reads back
  after \<open>xkb_state_update_mask\<close> has written a mask.
\<close>

record xkb =
  has_keymap :: bool
  mod_index :: "xkb_modifier \<Rightarrow> nat"
  kept_mods :: "32 word \<Rightarrow> 32 word"
  latched :: "32 word"
  locked :: "32 word"

definition XKB_MOD_INVALID :: nat where
  "XKB_MOD_INVALID = 0xffffffff"

fun modifier_index :: "xkb \<Rightarrow> xkb_modifier \<Rightarrow> nat" where
  "modifier_index x NoModifier = XKB_MOD_INVALID"
| "modifier_index x Mod3 = XKB_MOD_INVALID"
| "modifier_index x m = mod_index x m"

definition assign_bit :: "nat \<Rightarrow> bool \<Rightarrow> 32 word \<Rightarrow> 32 word" where
  "assign_bit i b w = (if b then Bit_Operations.set_bit i w else unset_bit i w)"

definition setModifierLatched :: "xkb_modifier \<Rightarrow> bool \<Rightarrow> xkb \<Rightarrow> xkb" where
  "setModifierLatched m b x =
     (if \<not> has_keymap x then x
      else let modifier = modifier_index x m
           in if modifier \<noteq> XKB_MOD_INVALID \<and> modifier < 32
              then x\<lparr>latched := kept_mods x (assign_bit modifier b (latched x))\<rparr> else x)"

definition setModifierLocked :: "xkb_modifier \<Rightarrow> bool \<Rightarrow> xkb \<Rightarrow> xkb" where
  "setModifierLocked m b x =
     (if \<not> has_keymap x then x
      else let modifier = modifier_index x m
           in if modifier \<noteq> XKB_MOD_INVALID \<and> modifier < 32
              then x\<lparr>locked := kept_mods x (assign_bit modifier b (locked x))\<rparr> else x)"

section \<open>The filter\<close>

datatype key = Key_Shift | Key_Control | Key_Meta | Key_Alt | Key_AltGr | Key_other nat

datatype key_state = None_state | Latched | Locked

datatype key_event_state = Released | Pressed | Repeated

datatype sticky_signal = ForwardModifiers | ModifierStateChanged | SystemBell | Notification key | DelayedForward

definition m_modifiers :: "key list" where
  "m_modifiers = [Key_Shift, Key_Control, Key_Alt, Key_AltGr, Key_Meta]"

fun keyToModifier :: "key \<Rightarrow> xkb_modifier" where
  "keyToModifier Key_Shift = Shift"
| "keyToModifier Key_Alt = Mod1"
| "keyToModifier Key_Control = Control"
| "keyToModifier Key_AltGr = Mod5"
| "keyToModifier Key_Meta = Mod4"
| "keyToModifier (Key_other k) = NoModifier"

record sticky_config =
  StickyKeys_entry :: "bool option"
  StickyKeysLatch_entry :: "bool option"
  kNotifyModifiers_entry :: "bool option"
  StickyKeysAutoOff_entry :: "bool option"
  StickyKeysBeep_entry :: "bool option"

record sticky_filter =
  m_keyStates :: "(key \<times> key_state) list"
  m_lockKeys :: bool
  m_showNotificationForLockedKeys :: bool
  m_disableOnTwoKeys :: bool
  m_pressedModifiers :: "key set"
  m_ringBell :: bool
  installed :: bool
  keyboard :: xkb
  sticky_signals :: "sticky_signal list"

definition readEntry :: "bool option \<Rightarrow> bool \<Rightarrow> bool" where
  "readEntry e d = (case e of None \<Rightarrow> d | Some b \<Rightarrow> b)"

definition sticky_emit :: "sticky_signal \<Rightarrow> sticky_filter \<Rightarrow> sticky_filter" where
  "sticky_emit s f = f\<lparr>sticky_signals := sticky_signals f @ [s]\<rparr>"

text \<open>
  A loop over \<open>m_keyStates\<close>: the keys whose state satisfies \<open>P\<close> get the state \<open>None\<close>, and \<open>undo\<close> changes
  the modifiers for each of them.
\<close>

definition reset_keys ::
    "(key_state \<Rightarrow> bool) \<Rightarrow> (key \<Rightarrow> xkb \<Rightarrow> xkb) \<Rightarrow> sticky_filter \<Rightarrow> sticky_filter" where
  "reset_keys P undo f =
     f\<lparr>m_keyStates := map (\<lambda>(k, s). (k, if P s then None_state else s)) (m_keyStates f),
       keyboard := fold undo (map fst (filter (\<lambda>(k, s). P s) (m_keyStates f))) (keyboard f)\<rparr>"

definition unlatch :: "key \<Rightarrow> xkb \<Rightarrow> xkb" where
  "unlatch k = setModifierLatched (keyToModifier k) False"

definition unlock :: "key \<Rightarrow> xkb \<Rightarrow> xkb" where
  "unlock k = setModifierLocked (keyToModifier k) False"

text \<open>A loop that changes something for each of these keys says so.\<close>

definition any_key :: "(key_state \<Rightarrow> bool) \<Rightarrow> sticky_filter \<Rightarrow> bool" where
  "any_key P f = list_ex (\<lambda>(k, s). P s) (m_keyStates f)"

definition loadConfig :: "sticky_config \<Rightarrow> sticky_filter \<Rightarrow> sticky_filter" where
  "loadConfig c f =
     (let f1 = f\<lparr>installed := False, m_lockKeys := readEntry (StickyKeysLatch_entry c) True,
                 m_showNotificationForLockedKeys := readEntry (kNotifyModifiers_entry c) False,
                 m_disableOnTwoKeys := readEntry (StickyKeysAutoOff_entry c) False,
                 m_ringBell := readEntry (StickyKeysBeep_entry c) False\<rparr>;
          changed1 = (\<not> m_lockKeys f1 \<and> any_key (\<lambda>s. s = Locked) f1);
          f2 = (if \<not> m_lockKeys f1 then reset_keys (\<lambda>s. s = Locked) unlock f1 else f1);
          enabled = readEntry (StickyKeys_entry c) False;
          changed2 = (changed1 \<or> \<not> enabled \<and> any_key (\<lambda>s. s \<noteq> None_state) f2);
          f3 = (if enabled then f2\<lparr>installed := True\<rparr> else reset_keys (\<lambda>s. s \<noteq> None_state) unlatch f2)
      in if changed2 then sticky_emit ModifierStateChanged (sticky_emit ForwardModifiers f3) else f3)"

definition StickyKeysFilter_new :: "sticky_config \<Rightarrow> xkb \<Rightarrow> sticky_filter" where
  "StickyKeysFilter_new c x =
     (loadConfig c \<lparr>m_keyStates = [], m_lockKeys = False, m_showNotificationForLockedKeys = False,
        m_disableOnTwoKeys = False, m_pressedModifiers = {}, m_ringBell = False, installed = False, keyboard = x,
        sticky_signals = []\<rparr>)
       \<lparr>m_keyStates := map (\<lambda>k. (k, None_state)) [Key_Shift, Key_Control, Key_Meta, Key_Alt, Key_AltGr]\<rparr>"

definition disableStickyKeys :: "sticky_filter \<Rightarrow> sticky_filter" where
  "disableStickyKeys f = (reset_keys (\<lambda>s. True) (\<lambda>k. unlock k \<circ> unlatch k) f)\<lparr>installed := False\<rparr>"

definition set_key_state :: "key \<Rightarrow> key_state \<Rightarrow> sticky_filter \<Rightarrow> sticky_filter" where
  "set_key_state key s f = f\<lparr>m_keyStates := map (\<lambda>(k, t). (k, if k = key then s else t)) (m_keyStates f)\<rparr>"

text \<open>A pressed modifier key that has a state; the first component says whether anything changed.\<close>

definition press_modifier :: "key \<Rightarrow> key_state \<Rightarrow> sticky_filter \<Rightarrow> bool \<times> sticky_filter" where
  "press_modifier key s f =
     (let md = keyToModifier key
      in if s = None_state
         then (True, (set_key_state key Latched f)\<lparr>keyboard := setModifierLatched md True (keyboard f)\<rparr>)
         else if s = Latched \<and> m_lockKeys f
         then let f1 = (set_key_state key Locked f)\<lparr>keyboard := setModifierLocked md True (setModifierLatched md False (keyboard f))\<rparr>
              in (True, if m_showNotificationForLockedKeys f then sticky_emit (Notification key) f1 else f1)
         else if s = Locked \<and> m_lockKeys f
         then (True, (set_key_state key None_state f)\<lparr>keyboard := setModifierLocked md False (keyboard f)\<rparr>)
         else (False, f))"

text \<open>\<open>keyboardKey\<close> returns false: the event goes on to the next filter.\<close>

definition sticky_keyboardKey :: "key \<Rightarrow> key_event_state \<Rightarrow> sticky_filter \<Rightarrow> sticky_filter" where
  "sticky_keyboardKey key state f =
     (let pressed = (state = Repeated \<or> state = Pressed);
          (changed, f') =
            (if key \<in> set m_modifiers
             then let f1 = f\<lparr>m_pressedModifiers := (if pressed then insert key (m_pressedModifiers f) else m_pressedModifiers f - {key})\<rparr>;
                      f2 = (if m_ringBell f1 \<and> \<not> pressed then sticky_emit SystemBell f1 else f1)
                  in (case map_of (m_keyStates f2) key of
                        None \<Rightarrow> (False, f2)
                      | Some s \<Rightarrow> if pressed then press_modifier key s f2 else (False, f2))
             else if pressed
             then let two = (m_pressedModifiers f \<noteq> {} \<and> m_disableOnTwoKeys f);
                      f1 = (if two then disableStickyKeys f else f)
                  in (two \<or> any_key (\<lambda>s. s \<noteq> Locked) f1, reset_keys (\<lambda>s. s \<noteq> Locked) unlatch f1)
             else (False, f))
      in if changed then sticky_emit ModifierStateChanged f' else f')"

definition sticky_pointerButton :: "bool \<Rightarrow> sticky_filter \<Rightarrow> sticky_filter" where
  "sticky_pointerButton released f =
     (if released
      then let n = length (filter (\<lambda>(k, s). s \<noteq> Locked) (m_keyStates f))
           in (reset_keys (\<lambda>s. s \<noteq> Locked) unlatch f)\<lparr>sticky_signals := sticky_signals f @ replicate n DelayedForward\<rparr>
      else f)"

section \<open>The keys and the masks\<close>

definition sticky_key_list :: "key list" where
  "sticky_key_list = [Key_Shift, Key_Control, Key_Meta, Key_Alt, Key_AltGr]"

definition key_bit :: "xkb \<Rightarrow> key \<Rightarrow> nat" where
  "key_bit x k = mod_index x (keyToModifier k)"

text \<open>
  The keymap has all five modifiers, at different indices of the mask, and xkbcommon keeps their bits in a
  mask that it is given.
\<close>

definition keymap_ok :: "xkb \<Rightarrow> bool" where
  "keymap_ok x \<longleftrightarrow> has_keymap x \<and> list_all (\<lambda>k. key_bit x k < 32) sticky_key_list \<and>
     distinct (map (key_bit x) sticky_key_list) \<and>
     list_all (\<lambda>k. \<forall>w. bit (kept_mods x w) (key_bit x k) = bit w (key_bit x k)) sticky_key_list"

definition is_latched :: "sticky_filter \<Rightarrow> key \<Rightarrow> bool" where
  "is_latched f k \<longleftrightarrow> bit (latched (keyboard f)) (key_bit (keyboard f) k)"

definition is_locked :: "sticky_filter \<Rightarrow> key \<Rightarrow> bool" where
  "is_locked f k \<longleftrightarrow> bit (locked (keyboard f)) (key_bit (keyboard f) k)"

definition state_of :: "sticky_filter \<Rightarrow> key \<Rightarrow> key_state" where
  "state_of f k = (case map_of (m_keyStates f) k of None \<Rightarrow> None_state | Some s \<Rightarrow> s)"

lemma assign_bit_bit: "n < 32 \<Longrightarrow> bit (assign_bit i b w) n = (if n = i then b else bit w n)"
  by (auto simp: assign_bit_def bit_set_bit_iff bit_unset_bit_iff possible_bit_word)

lemma keymap_okD:
  assumes "keymap_ok x" "k \<in> set sticky_key_list"
  shows "has_keymap x" "modifier_index x (keyToModifier k) = key_bit x k" "key_bit x k < 32"
    "key_bit x k \<noteq> XKB_MOD_INVALID"
    "k' \<in> set sticky_key_list \<Longrightarrow> key_bit x k' = key_bit x k \<longleftrightarrow> k' = k"
    "bit (kept_mods x w) (key_bit x k) = bit w (key_bit x k)"
proof -
  show "bit (kept_mods x w) (key_bit x k) = bit w (key_bit x k)"
    using assms by (simp add: keymap_ok_def list_all_iff)
  show h: "has_keymap x" and l: "key_bit x k < 32" using assms by (auto simp: keymap_ok_def sticky_key_list_def)
  show "modifier_index x (keyToModifier k) = key_bit x k" using assms(2) by (auto simp: key_bit_def sticky_key_list_def)
  show "key_bit x k \<noteq> XKB_MOD_INVALID" using l by (simp add: XKB_MOD_INVALID_def)
  have "inj_on (key_bit x) (set sticky_key_list)" using assms(1) unfolding keymap_ok_def distinct_map by blast
  then show "k' \<in> set sticky_key_list \<Longrightarrow> key_bit x k' = key_bit x k \<longleftrightarrow> k' = k" using assms(2) by (simp only: inj_on_eq_iff)
qed

lemma setModifier_bits:
  assumes ok: "keymap_ok x" and k: "k \<in> set sticky_key_list" and k': "k' \<in> set sticky_key_list"
  shows "bit (latched (setModifierLatched (keyToModifier k) b x)) (key_bit x k') = (if k' = k then b else bit (latched x) (key_bit x k'))"
    "locked (setModifierLatched (keyToModifier k) b x) = locked x"
    "bit (locked (setModifierLocked (keyToModifier k) b x)) (key_bit x k') = (if k' = k then b else bit (locked x) (key_bit x k'))"
    "latched (setModifierLocked (keyToModifier k) b x) = latched x"
  using keymap_okD(1-5) [OF ok k] keymap_okD(3,6) [OF ok k'] keymap_okD(6) [OF ok k] keymap_okD(5) [OF ok k k']
  by (simp_all add: setModifierLatched_def setModifierLocked_def Let_def assign_bit_bit)

lemma setModifier_keymap [simp]:
  "mod_index (setModifierLatched m b x) = mod_index x" "mod_index (setModifierLocked m b x) = mod_index x"
  "has_keymap (setModifierLatched m b x) = has_keymap x" "has_keymap (setModifierLocked m b x) = has_keymap x"
  "kept_mods (setModifierLatched m b x) = kept_mods x" "kept_mods (setModifierLocked m b x) = kept_mods x"
  by (simp_all add: setModifierLatched_def setModifierLocked_def Let_def)

lemma key_bit_set_fun: "key_bit (setModifierLatched m b x) = key_bit x" "key_bit (setModifierLocked m b x) = key_bit x"
  by (simp_all add: fun_eq_iff key_bit_def)

lemma key_bit_set [simp]:
  "key_bit (setModifierLatched m b x) k = key_bit x k" "key_bit (setModifierLocked m b x) k = key_bit x k"
  "keymap_ok (setModifierLatched m b x) = keymap_ok x" "keymap_ok (setModifierLocked m b x) = keymap_ok x"
  by (simp_all add: keymap_ok_def key_bit_set_fun)

text \<open>What a loop over the keys does: \<open>L\<close> and \<open>K\<close> say which of the two masks it clears.\<close>

definition clears :: "bool \<Rightarrow> bool \<Rightarrow> (key \<Rightarrow> xkb \<Rightarrow> xkb) \<Rightarrow> bool" where
  "clears L K undo \<longleftrightarrow> (\<forall>x k k'. keymap_ok x \<longrightarrow> k \<in> set sticky_key_list \<longrightarrow> k' \<in> set sticky_key_list \<longrightarrow>
     keymap_ok (undo k x) \<and> key_bit (undo k x) k' = key_bit x k' \<and>
     (bit (latched (undo k x)) (key_bit x k') \<longleftrightarrow> bit (latched x) (key_bit x k') \<and> \<not> (L \<and> k' = k)) \<and>
     (bit (locked (undo k x)) (key_bit x k') \<longleftrightarrow> bit (locked x) (key_bit x k') \<and> \<not> (K \<and> k' = k)))"

lemma clears_comp:
  assumes u: "clears L K u" and v: "clears L' K' v"
  shows "clears (L \<or> L') (K \<or> K') (\<lambda>k. v k \<circ> u k)"
  unfolding clears_def
proof (intro allI impI)
  fix x k k'
  assume ok: "keymap_ok x" and k: "k \<in> set sticky_key_list" and k': "k' \<in> set sticky_key_list"
  have ux: "keymap_ok (u k x)" "key_bit (u k x) k' = key_bit x k'"
    "bit (latched (u k x)) (key_bit x k') \<longleftrightarrow> bit (latched x) (key_bit x k') \<and> \<not> (L \<and> k' = k)"
    "bit (locked (u k x)) (key_bit x k') \<longleftrightarrow> bit (locked x) (key_bit x k') \<and> \<not> (K \<and> k' = k)"
    using u ok k k' unfolding clears_def by blast+
  have "keymap_ok (v k (u k x)) \<and> key_bit (v k (u k x)) k' = key_bit (u k x) k' \<and>
     (bit (latched (v k (u k x))) (key_bit (u k x) k') \<longleftrightarrow> bit (latched (u k x)) (key_bit (u k x) k') \<and> \<not> (L' \<and> k' = k)) \<and>
     (bit (locked (v k (u k x))) (key_bit (u k x) k') \<longleftrightarrow> bit (locked (u k x)) (key_bit (u k x) k') \<and> \<not> (K' \<and> k' = k))"
    using v ux(1) k k' unfolding clears_def by blast
  then show "keymap_ok ((v k \<circ> u k) x) \<and> key_bit ((v k \<circ> u k) x) k' = key_bit x k' \<and>
     (bit (latched ((v k \<circ> u k) x)) (key_bit x k') \<longleftrightarrow> bit (latched x) (key_bit x k') \<and> \<not> ((L \<or> L') \<and> k' = k)) \<and>
     (bit (locked ((v k \<circ> u k) x)) (key_bit x k') \<longleftrightarrow> bit (locked x) (key_bit x k') \<and> \<not> ((K \<or> K') \<and> k' = k))"
    using ux by auto
qed

lemma clears_undo: "clears True False unlatch" "clears False True unlock" "clears True True (\<lambda>k. unlock k \<circ> unlatch k)"
proof -
  show 1: "clears True False unlatch" "clears False True unlock"
    unfolding clears_def unlatch_def unlock_def
    by (intro allI impI; simp only: key_bit_set setModifier_bits; simp)+
  show "clears True True (\<lambda>k. unlock k \<circ> unlatch k)" using clears_comp [OF 1] by simp
qed

lemma fold_clears:
  assumes c: "clears L K undo" and k': "k' \<in> set sticky_key_list"
  shows "keymap_ok x \<Longrightarrow> set ks \<subseteq> set sticky_key_list \<Longrightarrow>
    keymap_ok (fold undo ks x) \<and> key_bit (fold undo ks x) k' = key_bit x k' \<and>
    (bit (latched (fold undo ks x)) (key_bit x k') \<longleftrightarrow> bit (latched x) (key_bit x k') \<and> \<not> (L \<and> k' \<in> set ks)) \<and>
    (bit (locked (fold undo ks x)) (key_bit x k') \<longleftrightarrow> bit (locked x) (key_bit x k') \<and> \<not> (K \<and> k' \<in> set ks))"
proof (induction ks arbitrary: x)
  case (Cons k ks)
  have k: "k \<in> set sticky_key_list" using Cons.prems(2) by simp
  have u: "keymap_ok (undo k x)" "key_bit (undo k x) k' = key_bit x k'"
    "bit (latched (undo k x)) (key_bit x k') \<longleftrightarrow> bit (latched x) (key_bit x k') \<and> \<not> (L \<and> k' = k)"
    "bit (locked (undo k x)) (key_bit x k') \<longleftrightarrow> bit (locked x) (key_bit x k') \<and> \<not> (K \<and> k' = k)"
    using c k k' Cons.prems(1) unfolding clears_def by blast+
  show ?case using Cons.IH [OF u(1)] Cons.prems(2) u(2-4) by auto
qed simp

end
