(* ===== verification/StickyKeysProps.thy ===== *)
theory StickyKeysProps
  imports StickyKeys
begin

text \<open>
  The key states of the sticky keys filter and the masks of xkb agree in every run of the filter, with
  one exception that the code makes: a locked key that is forgotten when the filter is switched off.
\<close>

section \<open>Key states after an operation\<close>

definition keys_ok :: "sticky_filter \<Rightarrow> bool" where
  "keys_ok f \<longleftrightarrow> keymap_ok (keyboard f) \<and> map fst (m_keyStates f) = sticky_key_list"

lemma state_of_map:
  assumes "map fst l = sticky_key_list" "k \<in> set sticky_key_list"
  shows "(k, s) \<in> set l \<longleftrightarrow> map_of l k = Some s"
  by (rule map_of_eq_Some_iff [symmetric]) (simp add: assms(1) sticky_key_list_def)

lemma keys_ok_state:
  assumes "keys_ok f" "k \<in> set sticky_key_list"
  shows "map_of (m_keyStates f) k = Some (state_of f k)"
proof -
  have "k \<in> fst ` set (m_keyStates f)" using assms unfolding keys_ok_def by (metis set_map)
  then have "map_of (m_keyStates f) k \<noteq> None" by (simp add: map_of_eq_None_iff)
  then show ?thesis by (auto simp: state_of_def)
qed

lemma state_ofI: "map_of (m_keyStates f) k = Some s \<Longrightarrow> state_of f k = s"
  by (simp add: state_of_def)

lemma map_of_map_state: "map_of (map (\<lambda>(k, s). (k, g k s)) l) k = map_option (g k) (map_of l k)"
  by (induction l) auto

lemma reset_keys_effect:
  assumes ok: "keys_ok f" and c: "clears L K undo" and k: "k \<in> set sticky_key_list"
  shows "keys_ok (reset_keys P undo f)"
    "state_of (reset_keys P undo f) k = (if P (state_of f k) then None_state else state_of f k)"
    "is_latched (reset_keys P undo f) k \<longleftrightarrow> is_latched f k \<and> \<not> (L \<and> P (state_of f k))"
    "is_locked (reset_keys P undo f) k \<longleftrightarrow> is_locked f k \<and> \<not> (K \<and> P (state_of f k))"
proof -
  let ?l = "m_keyStates f"
  let ?ks = "map fst (filter (\<lambda>(k, s). P s) ?l)"
  have m: "map_of ?l k = Some (state_of f k)" by (rule keys_ok_state [OF ok k])
  have keys: "map fst ?l = sticky_key_list" using ok by (simp add: keys_ok_def)
  have in_ks: "k \<in> set ?ks \<longleftrightarrow> P (state_of f k)"
    using state_of_map [OF keys k] m by force
  have sub: "set ?ks \<subseteq> set sticky_key_list" unfolding keys [symmetric] by auto
  have x: "keymap_ok (keyboard f)" using ok by (simp add: keys_ok_def)
  note F = fold_clears [OF c k x sub]
  have "map fst (map (\<lambda>(k, s). (k, if P s then None_state else s)) ?l) = map fst ?l" by (induction ?l) auto
  then show "keys_ok (reset_keys P undo f)"
    using F keys by (simp add: keys_ok_def reset_keys_def del: map_map)
  show "state_of (reset_keys P undo f) k = (if P (state_of f k) then None_state else state_of f k)"
    by (rule state_ofI) (simp add: reset_keys_def map_of_map_state [of "\<lambda>k s. if P s then None_state else s"] m)
  show "is_latched (reset_keys P undo f) k \<longleftrightarrow> is_latched f k \<and> \<not> (L \<and> P (state_of f k))"
    "is_locked (reset_keys P undo f) k \<longleftrightarrow> is_locked f k \<and> \<not> (K \<and> P (state_of f k))"
    using F in_ks by (simp_all add: is_latched_def is_locked_def reset_keys_def)
qed

lemma set_key_state_of:
  assumes "keys_ok f" "k \<in> set sticky_key_list"
  shows "state_of (set_key_state key s f) k = (if k = key then s else state_of f k)"
  by (rule state_ofI) (simp add: set_key_state_def map_of_map_state [of "\<lambda>k t. if k = key then s else t"] keys_ok_state [OF assms])

lemma set_key_state_keys: "map fst (m_keyStates (set_key_state key s f)) = map fst (m_keyStates f)"
  by (auto simp: set_key_state_def)

fun next_state :: "bool \<Rightarrow> key_state \<Rightarrow> key_state" where
  "next_state locks None_state = Latched"
| "next_state locks Latched = (if locks then Locked else Latched)"
| "next_state locks Locked = (if locks then None_state else Locked)"

text \<open>The two halves of the contract; the second holds as long as no locked key is forgotten.\<close>

definition masks_ok :: "sticky_filter \<Rightarrow> bool" where
  "masks_ok f \<longleftrightarrow> keys_ok f \<and> (\<forall>k \<in> set sticky_key_list.
     (is_latched f k \<longleftrightarrow> state_of f k = Latched) \<and> (state_of f k = Locked \<longrightarrow> is_locked f k))"

definition locks_ok :: "sticky_filter \<Rightarrow> bool" where
  "locks_ok f \<longleftrightarrow> (\<forall>k \<in> set sticky_key_list. is_locked f k \<longleftrightarrow> state_of f k = Locked)"

lemma signals_keep:
  "state_of (sticky_emit s f) = state_of f" "is_latched (sticky_emit s f) = is_latched f" "is_locked (sticky_emit s f) = is_locked f"
  "keys_ok (sticky_emit s f) = keys_ok f"
  by (auto simp: sticky_emit_def state_of_def is_latched_def is_locked_def keys_ok_def fun_eq_iff)

text \<open>Setting the state of one key, together with the masks.\<close>

lemma update_key_effect:
  assumes ok: "keys_ok f" and f': "f' = (set_key_state key s f)\<lparr>keyboard := x\<rparr>"
    and x: "keymap_ok x" "key_bit x = key_bit (keyboard f)"
  shows "keys_ok f'" "k \<in> set sticky_key_list \<Longrightarrow> state_of f' k = (if k = key then s else state_of f k)"
    "is_latched f' k = bit (latched x) (key_bit (keyboard f) k)" "is_locked f' k = bit (locked x) (key_bit (keyboard f) k)"
proof -
  show "keys_ok f'" using ok x(1) set_key_state_keys [of key s f] by (simp add: f' keys_ok_def)
  have "state_of f' k = state_of (set_key_state key s f) k" by (simp add: f' state_of_def)
  then show "k \<in> set sticky_key_list \<Longrightarrow> state_of f' k = (if k = key then s else state_of f k)"
    using set_key_state_of [OF ok] by simp
  show "is_latched f' k = bit (latched x) (key_bit (keyboard f) k)" "is_locked f' k = bit (locked x) (key_bit (keyboard f) k)"
    by (simp_all add: f' is_latched_def is_locked_def x(2))
qed

lemma press_modifier_effect:
  assumes ok: "masks_ok f" and key: "key \<in> set sticky_key_list"
  defines "f' \<equiv> snd (press_modifier key (state_of f key) f)"
  shows "masks_ok f'" "locks_ok f \<Longrightarrow> locks_ok f'"
    "k \<in> set sticky_key_list \<Longrightarrow> state_of f' k = (if k = key then next_state (m_lockKeys f) (state_of f key) else state_of f k)"
proof -
  have ks: "keys_ok f" and x: "keymap_ok (keyboard f)" using ok by (simp_all add: masks_ok_def keys_ok_def)
  let ?m = "keyToModifier key"
  note S = setModifier_bits [OF x key]
  have goal: "masks_ok f' \<and> (locks_ok f \<longrightarrow> locks_ok f') \<and> (\<forall>k \<in> set sticky_key_list. state_of f' k =
      (if k = key then next_state (m_lockKeys f) (state_of f key) else state_of f k))"
  proof (cases "state_of f key")
    case None_state
    define f1 where "f1 = (set_key_state key Latched f)\<lparr>keyboard := setModifierLatched ?m True (keyboard f)\<rparr>"
    have e: "f' = f1" using None_state by (simp add: f'_def press_modifier_def f1_def Let_def)
    note U = update_key_effect [OF ks f1_def, simplified x key_bit_set, OF _ key_bit_set_fun(1), simplified]
    have "\<forall>k \<in> set sticky_key_list. is_latched f1 k = (if k = key then True else is_latched f k)"
      "\<forall>k. is_locked f1 k = is_locked f k"
      using S(1) S(2) [OF key] unfolding U(3,4) by (simp_all add: is_latched_def is_locked_def)
    then show ?thesis using ok U(1,2) None_state key unfolding e masks_ok_def locks_ok_def by auto
  next
    case Latched
    show ?thesis
    proof (cases "m_lockKeys f")
      case True
      let ?x = "setModifierLocked ?m True (setModifierLatched ?m False (keyboard f))"
      define f1 where "f1 = (set_key_state key Locked f)\<lparr>keyboard := ?x\<rparr>"
      have e: "f' = f1 \<or> f' = sticky_emit (Notification key) f1"
        using Latched True by (simp add: f'_def press_modifier_def f1_def Let_def)
      have x1: "keymap_ok (setModifierLatched ?m False (keyboard f))" using x by simp
      note U = update_key_effect [OF ks f1_def, simplified x key_bit_set, simplified key_bit_set_fun, simplified]
      have "\<forall>k \<in> set sticky_key_list. is_latched f1 k = (if k = key then False else is_latched f k)"
        "\<forall>k \<in> set sticky_key_list. is_locked f1 k = (if k = key then True else is_locked f k)"
        using S(1) S(2) [OF key] setModifier_bits(3) [OF x1 key] setModifier_bits(4) [OF x1 key key] unfolding U(3,4) by (simp_all add: is_latched_def is_locked_def)
      then show ?thesis using ok U(1,2) Latched True key e signals_keep unfolding masks_ok_def locks_ok_def by auto
    qed (use ok Latched in \<open>simp add: f'_def press_modifier_def Let_def\<close>)
  next
    case Locked
    show ?thesis
    proof (cases "m_lockKeys f")
      case True
      define f1 where "f1 = (set_key_state key None_state f)\<lparr>keyboard := setModifierLocked ?m False (keyboard f)\<rparr>"
      have e: "f' = f1" using Locked True by (simp add: f'_def press_modifier_def f1_def Let_def)
      note U = update_key_effect [OF ks f1_def, simplified x key_bit_set, OF _ key_bit_set_fun(2), simplified]
      have "\<forall>k. is_latched f1 k = is_latched f k"
        "\<forall>k \<in> set sticky_key_list. is_locked f1 k = (if k = key then False else is_locked f k)"
        using S(3) S(4) [OF key] unfolding U(3,4) by (simp_all add: is_latched_def is_locked_def)
      then show ?thesis using ok U(1,2) Locked True key unfolding e masks_ok_def locks_ok_def by auto
    qed (use ok Locked in \<open>simp add: f'_def press_modifier_def Let_def\<close>)
  qed
  then show "masks_ok f'" "locks_ok f \<Longrightarrow> locks_ok f'"
    "k \<in> set sticky_key_list \<Longrightarrow> state_of f' k = (if k = key then next_state (m_lockKeys f) (state_of f key) else state_of f k)"
    by blast+
qed

section \<open>The operations\<close>

lemma reset_keys_masks:
  assumes ok: "masks_ok f" and c: "clears L K undo" and L: "L \<or> (\<forall>s. P s \<longrightarrow> s \<noteq> Latched)"
  shows "masks_ok (reset_keys P undo f)"
    "locks_ok f \<Longrightarrow> (K \<or> (\<forall>k \<in> set sticky_key_list. P (state_of f k) \<longrightarrow> state_of f k \<noteq> Locked)) \<Longrightarrow> locks_ok (reset_keys P undo f)"
    "k \<in> set sticky_key_list \<Longrightarrow> state_of (reset_keys P undo f) k = (if P (state_of f k) then None_state else state_of f k)"
proof -
  have ks: "keys_ok f" using ok by (simp add: masks_ok_def)
  note R = reset_keys_effect [OF ks c, of _ P]
  have "keys_ok (reset_keys P undo f)" by (rule R(1) [of Key_Shift]) (simp add: sticky_key_list_def)
  then show "masks_ok (reset_keys P undo f)" using ok L R(2-4) unfolding masks_ok_def by (auto split: if_splits)
  show "locks_ok f \<Longrightarrow> (K \<or> (\<forall>k \<in> set sticky_key_list. P (state_of f k) \<longrightarrow> state_of f k \<noteq> Locked)) \<Longrightarrow> locks_ok (reset_keys P undo f)"
    using R(2,4) unfolding locks_ok_def by (auto split: if_splits)
  show "k \<in> set sticky_key_list \<Longrightarrow> state_of (reset_keys P undo f) k = (if P (state_of f k) then None_state else state_of f k)"
    by (rule R(2))
qed

lemma frame:
  assumes "m_keyStates f' = m_keyStates f" "keyboard f' = keyboard f"
  shows "masks_ok f' = masks_ok f" "locks_ok f' = locks_ok f" "state_of f' = state_of f"
  using assms by (simp_all add: masks_ok_def locks_ok_def keys_ok_def state_of_def is_latched_def is_locked_def fun_eq_iff)

text \<open>A configuration that switches the filter off while it remembers a locked key.\<close>

definition forgets_lock :: "sticky_config \<Rightarrow> sticky_filter \<Rightarrow> bool" where
  "forgets_lock c f \<longleftrightarrow> readEntry (StickyKeysLatch_entry c) True \<and> \<not> readEntry (StickyKeys_entry c) False \<and>
     (\<exists>k \<in> set sticky_key_list. state_of f k = Locked)"

lemma emit_frame [simp]:
  "m_keyStates (sticky_emit s f) = m_keyStates f" "keyboard (sticky_emit s f) = keyboard f"
  by (simp_all add: sticky_emit_def)

lemma loadConfig_masks:
  assumes ok: "masks_ok f"
  shows "masks_ok (loadConfig c f)" "locks_ok f \<Longrightarrow> \<not> forgets_lock c f \<Longrightarrow> locks_ok (loadConfig c f)"
proof -
  let ?latch = "readEntry (StickyKeysLatch_entry c) True" and ?on = "readEntry (StickyKeys_entry c) False"
  define f1 where "f1 = f\<lparr>installed := False, m_lockKeys := ?latch,
      m_showNotificationForLockedKeys := readEntry (kNotifyModifiers_entry c) False,
      m_disableOnTwoKeys := readEntry (StickyKeysAutoOff_entry c) False, m_ringBell := readEntry (StickyKeysBeep_entry c) False\<rparr>"
  define f2 where "f2 = (if \<not> ?latch then reset_keys (\<lambda>s. s = Locked) unlock f1 else f1)"
  define f3 where "f3 = (if ?on then f2\<lparr>installed := True\<rparr> else reset_keys (\<lambda>s. s \<noteq> None_state) unlatch f2)"
  have load: "m_keyStates (loadConfig c f) = m_keyStates f3" "keyboard (loadConfig c f) = keyboard f3"
    by (simp_all add: loadConfig_def Let_def f1_def f2_def f3_def)
  have 1: "masks_ok f1" "locks_ok f1 = locks_ok f" "state_of f1 = state_of f"
    using frame [of f1 f] ok by (simp_all add: f1_def)
  note R = reset_keys_masks [OF 1(1) clears_undo(2), of "\<lambda>s. s = Locked"]
  have 2: "masks_ok f2" "locks_ok f \<Longrightarrow> locks_ok f2"
    "\<forall>k \<in> set sticky_key_list. state_of f2 k = (if \<not> ?latch \<and> state_of f k = Locked then None_state else state_of f k)"
    using R 1 by (simp_all add: f2_def)
  note Q = reset_keys_masks [OF 2(1) clears_undo(1), of "\<lambda>s. s \<noteq> None_state"]
  have "masks_ok f3" using Q(1) 2(1) frame(1) [of "f2\<lparr>installed := True\<rparr>" f2] by (simp add: f3_def)
  then show "masks_ok (loadConfig c f)" using frame(1) [OF load] by simp
  assume l: "locks_ok f" and n: "\<not> forgets_lock c f"
  have "\<forall>k \<in> set sticky_key_list. state_of f2 k \<noteq> Locked" if "\<not> ?on"
    using n that 2(3) by (auto simp: forgets_lock_def)
  then have "locks_ok f3"
    using Q(2) 2(2) [OF l] frame(2) [of "f2\<lparr>installed := True\<rparr>" f2] by (auto simp: f3_def)
  then show "locks_ok (loadConfig c f)" using frame(2) [OF load] by simp
qed

lemma m_modifiers_set: "set m_modifiers = set sticky_key_list"
  by (auto simp: m_modifiers_def sticky_key_list_def)

lemma disable_masks:
  assumes ok: "masks_ok f"
  shows "masks_ok (disableStickyKeys f)" "locks_ok f \<Longrightarrow> locks_ok (disableStickyKeys f)"
    "k \<in> set sticky_key_list \<Longrightarrow> state_of (disableStickyKeys f) k = None_state"
  using reset_keys_masks [OF ok clears_undo(3), of "\<lambda>s. True"]
    frame [of "disableStickyKeys f" "reset_keys (\<lambda>s. True) (\<lambda>k. unlock k \<circ> unlatch k) f"]
  by (simp_all add: disableStickyKeys_def)

lemma keyboardKey_masks:
  assumes ok: "masks_ok f"
  shows "masks_ok (sticky_keyboardKey key st f)" "locks_ok f \<Longrightarrow> locks_ok (sticky_keyboardKey key st f)"
    "k \<in> set sticky_key_list \<Longrightarrow> state_of (sticky_keyboardKey key st f) k =
      (if st = Released then state_of f k
       else if key \<in> set m_modifiers then (if k = key then next_state (m_lockKeys f) (state_of f key) else state_of f k)
       else if m_pressedModifiers f \<noteq> {} \<and> m_disableOnTwoKeys f then None_state
       else if state_of f k = Locked then Locked else None_state)"
proof -
  define pressed where "pressed = (st = Repeated \<or> st = Pressed)"
  have rel: "st = Released \<longleftrightarrow> \<not> pressed" by (cases st) (simp_all add: pressed_def)
  let ?f' = "sticky_keyboardKey key st f"
  have "masks_ok ?f' \<and> (locks_ok f \<longrightarrow> locks_ok ?f') \<and> (\<forall>k \<in> set sticky_key_list. state_of ?f' k =
      (if st = Released then state_of f k
       else if key \<in> set m_modifiers then (if k = key then next_state (m_lockKeys f) (state_of f key) else state_of f k)
       else if m_pressedModifiers f \<noteq> {} \<and> m_disableOnTwoKeys f then None_state
       else if state_of f k = Locked then Locked else None_state))"
  proof (cases "key \<in> set m_modifiers")
    case True
    then have key: "key \<in> set sticky_key_list" by (simp add: m_modifiers_set)
    define f1 where "f1 = f\<lparr>m_pressedModifiers := (if pressed then insert key (m_pressedModifiers f) else m_pressedModifiers f - {key})\<rparr>"
    define f2 where "f2 = (if m_ringBell f1 \<and> \<not> pressed then sticky_emit SystemBell f1 else f1)"
    have 2: "masks_ok f2" "locks_ok f2 = locks_ok f" "state_of f2 = state_of f" "m_lockKeys f2 = m_lockKeys f"
      using frame [of f2 f] ok by (simp_all add: f2_def f1_def sticky_emit_def)
    have m: "map_of (m_keyStates f2) key = Some (state_of f key)"
      using keys_ok_state [OF _ key, of f2] 2 by (simp add: masks_ok_def)
    define f3 where "f3 = (if pressed then snd (press_modifier key (state_of f key) f2) else f2)"
    have "?f' = f3 \<or> ?f' = sticky_emit ModifierStateChanged f3"
      using True m unfolding sticky_keyboardKey_def pressed_def [symmetric] Let_def f1_def [symmetric] f2_def [symmetric]
      by (auto simp: f3_def split: prod.split)
    then have F: "masks_ok ?f' = masks_ok f3" "locks_ok ?f' = locks_ok f3" "state_of ?f' = state_of f3"
      using frame [of ?f' f3] by auto
    note P = press_modifier_effect [OF 2(1) key, unfolded 2(3)]
    show ?thesis unfolding F rel using P 2 True by (auto simp: f3_def)
  next
    case False
    let ?two = "m_pressedModifiers f \<noteq> {} \<and> m_disableOnTwoKeys f"
    show ?thesis
    proof (cases pressed)
      case True
      define f1 where "f1 = (if ?two then disableStickyKeys f else f)"
      define f2 where "f2 = reset_keys (\<lambda>s. s \<noteq> Locked) unlatch f1"
      have "?f' = f2 \<or> ?f' = sticky_emit ModifierStateChanged f2"
        using True False unfolding sticky_keyboardKey_def pressed_def [symmetric] Let_def f1_def [symmetric] f2_def [symmetric] by auto
      then have F: "masks_ok ?f' = masks_ok f2" "locks_ok ?f' = locks_ok f2" "state_of ?f' = state_of f2"
        using frame [of ?f' f2] by auto
      have 1: "masks_ok f1" "locks_ok f \<Longrightarrow> locks_ok f1"
        "\<forall>k \<in> set sticky_key_list. state_of f1 k = (if ?two then None_state else state_of f k)"
        using disable_masks [OF ok] ok by (simp_all add: f1_def)
      note R = reset_keys_masks [OF 1(1) clears_undo(1), of "\<lambda>s. s \<noteq> Locked", folded f2_def]
      show ?thesis unfolding F rel using R 1 True False by auto
    next
      case f: False
      then have "?f' = f" using False unfolding sticky_keyboardKey_def pressed_def [symmetric] by simp
      then show ?thesis using ok f rel by simp
    qed
  qed
  then show "masks_ok ?f'" "locks_ok f \<Longrightarrow> locks_ok ?f'"
    "k \<in> set sticky_key_list \<Longrightarrow> state_of ?f' k =
      (if st = Released then state_of f k
       else if key \<in> set m_modifiers then (if k = key then next_state (m_lockKeys f) (state_of f key) else state_of f k)
       else if m_pressedModifiers f \<noteq> {} \<and> m_disableOnTwoKeys f then None_state
       else if state_of f k = Locked then Locked else None_state)" by blast+
qed

lemma pointerButton_masks:
  assumes ok: "masks_ok f"
  shows "masks_ok (sticky_pointerButton b f)" "locks_ok f \<Longrightarrow> locks_ok (sticky_pointerButton b f)"
proof -
  let ?f = "reset_keys (\<lambda>s. s \<noteq> Locked) unlatch f"
  have F: "masks_ok (sticky_pointerButton b f) = (if b then masks_ok ?f else masks_ok f)"
    "locks_ok (sticky_pointerButton b f) = (if b then locks_ok ?f else locks_ok f)"
    using frame [of "sticky_pointerButton True f" ?f] by (cases b; simp add: sticky_pointerButton_def Let_def)+
  note R = reset_keys_masks [OF ok clears_undo(1), of "\<lambda>s. s \<noteq> Locked"]
  show "masks_ok (sticky_pointerButton b f)" "locks_ok f \<Longrightarrow> locks_ok (sticky_pointerButton b f)"
    unfolding F using R ok by auto
qed

section \<open>Runs and properties\<close>

text \<open>The first argument says that no configuration has made the filter forget a locked key so far.\<close>

inductive sticky_reachable :: "bool \<Rightarrow> sticky_filter \<Rightarrow> bool" where
  sticky_start: "keymap_ok x \<Longrightarrow> latched x = 0 \<Longrightarrow> locked x = 0 \<Longrightarrow> sticky_reachable True (StickyKeysFilter_new c x)"
| sticky_load: "sticky_reachable b f \<Longrightarrow> sticky_reachable (b \<and> \<not> forgets_lock c f) (loadConfig c f)"
| sticky_key: "sticky_reachable b f \<Longrightarrow> installed f \<Longrightarrow> sticky_reachable b (sticky_keyboardKey key st f)"
| sticky_button: "sticky_reachable b f \<Longrightarrow> installed f \<Longrightarrow> sticky_reachable b (sticky_pointerButton released f)"

lemma sticky_new_ok:
  assumes x: "keymap_ok x" "latched x = 0" "locked x = 0"
  shows "masks_ok (StickyKeysFilter_new c x)" "locks_ok (StickyKeysFilter_new c x)"
proof -
  let ?f = "StickyKeysFilter_new c x"
  have st: "m_keyStates ?f = map (\<lambda>k. (k, None_state)) sticky_key_list" by (simp add: StickyKeysFilter_new_def sticky_key_list_def)
  have k: "keyboard ?f = x"
    by (simp add: StickyKeysFilter_new_def loadConfig_def Let_def reset_keys_def sticky_emit_def)
  have s: "state_of ?f k = None_state" for k by (auto simp: state_of_def st map_of_map_restrict restrict_map_def sticky_key_list_def)
  show "masks_ok ?f" "locks_ok ?f"
    using x by (simp_all add: masks_ok_def locks_ok_def keys_ok_def is_latched_def is_locked_def k s st comp_def)
qed

lemma sticky_reachable_ok: "sticky_reachable b f \<Longrightarrow> masks_ok f \<and> (b \<longrightarrow> locks_ok f)"
proof (induction rule: sticky_reachable.induct)
  case (sticky_start x c)
  then show ?case using sticky_new_ok by simp
next
  case (sticky_load b f c)
  then show ?case using loadConfig_masks [of f c] by auto
next
  case (sticky_key b f key st)
  then show ?case using keyboardKey_masks(1,2) [of f key st] by auto
next
  case (sticky_button b f released)
  then show ?case using pointerButton_masks [of f released] by auto
qed


text \<open>The five modifiers at the bits 0 to 4, and a configuration with locking.\<close>

definition demo_xkb :: xkb where
  "demo_xkb = \<lparr>has_keymap = True, mod_index = (\<lambda>m. case m of Shift \<Rightarrow> 0 | Control \<Rightarrow> 1 | Mod1 \<Rightarrow> 2 | Mod4 \<Rightarrow> 3 | Mod5 \<Rightarrow> 4 | _ \<Rightarrow> 5),
     kept_mods = (\<lambda>w. w), latched = 0, locked = 0\<rparr>"

definition demo_sticky_config :: "bool \<Rightarrow> sticky_config" where
  "demo_sticky_config on = \<lparr>StickyKeys_entry = Some on, StickyKeysLatch_entry = None, kNotifyModifiers_entry = None,
     StickyKeysAutoOff_entry = None, StickyKeysBeep_entry = None\<rparr>"

definition demo_sticky :: sticky_filter where
  "demo_sticky = sticky_keyboardKey Key_Shift Pressed (sticky_keyboardKey Key_Shift Released
     (sticky_keyboardKey Key_Shift Pressed (StickyKeysFilter_new (demo_sticky_config True) demo_xkb)))"

lemma demo_sticky_reachable: "sticky_reachable True demo_sticky"
proof -
  have x: "keymap_ok demo_xkb" "latched demo_xkb = 0" "locked demo_xkb = 0"
    by (simp_all add: keymap_ok_def sticky_key_list_def key_bit_def demo_xkb_def)
  let ?f = "StickyKeysFilter_new (demo_sticky_config True) demo_xkb"
  have i: "installed ?f"
    by (simp add: StickyKeysFilter_new_def loadConfig_def demo_sticky_config_def readEntry_def Let_def any_key_def sticky_emit_def reset_keys_def)
  have k: "installed (sticky_keyboardKey key st f) = installed f" if "key \<in> set m_modifiers" for key st f
    using that by (auto simp: sticky_keyboardKey_def Let_def press_modifier_def sticky_emit_def set_key_state_def
        split: option.splits)
  have s: "Key_Shift \<in> set m_modifiers" by (simp add: m_modifiers_def)
  show ?thesis
    unfolding demo_sticky_def by (intro sticky_key sticky_start x) (simp_all add: k [OF s] i)
qed


section \<open>A lock that is forgotten\<close>

text \<open>
  When the configuration switches the filter off, \<open>loadConfig\<close> unlatches the locked keys as well, and does
  not unlock them: Shift stays locked in xkb, and the filter no longer knows.
\<close>

lemma switched_off_stays_locked:
  "state_of (loadConfig (demo_sticky_config False) demo_sticky) Key_Shift = None_state"
  "bit (locked (keyboard (loadConfig (demo_sticky_config False) demo_sticky))) 0"
  by (simp_all add: demo_sticky_def StickyKeysFilter_new_def loadConfig_def demo_sticky_config_def readEntry_def Let_def any_key_def
      sticky_keyboardKey_def m_modifiers_def press_modifier_def set_key_state_def sticky_emit_def state_of_def reset_keys_def
      unlatch_def setModifierLatched_def setModifierLocked_def XKB_MOD_INVALID_def demo_xkb_def assign_bit_def)

end
