(* ===== verification/KeyFilters.thy ===== *)
theory KeyFilters
  imports StickyKeys
begin

text \<open>
  The other accessibility filters of \<open>src/kde-kwin/src/plugins\<close>: bounce keys, slow keys and mouse keys.
  Each gets a key event and says whether it keeps it from the rest of the compositor. Times are
  numbers (microseconds of the event for bounce keys, milliseconds of the clock for slow keys); bells,
  timers and what the mouse device emits are recorded.
\<close>

section \<open>Bounce keys\<close>

record bounce_info =
  lastReceived :: int
  rejected :: bool

record bounce_filter =
  bounce_installed :: bool
  bounce_delay :: int
  m_lastEvent :: "key \<Rightarrow> bounce_info option"

text \<open>The configuration: \<open>BounceKeys\<close> and \<open>BounceKeysDelay\<close> in milliseconds.\<close>

definition bounce_loadConfig :: "bool option \<Rightarrow> int option \<Rightarrow> bounce_filter \<Rightarrow> bounce_filter" where
  "bounce_loadConfig on delay f =
     (if readEntry on False
      then f\<lparr>bounce_installed := True, bounce_delay := 1000 * (case delay of None \<Rightarrow> 500 | Some d \<Rightarrow> d)\<rparr>
      else f\<lparr>bounce_installed := False, m_lastEvent := (\<lambda>k. None)\<rparr>)"

definition bounce_keyboardKey :: "key \<Rightarrow> key_event_state \<Rightarrow> int \<Rightarrow> bounce_filter \<Rightarrow> bool \<times> bounce_filter" where
  "bounce_keyboardKey key st timestamp f =
     (case st of
        Pressed \<Rightarrow>
          (case m_lastEvent f key of
             None \<Rightarrow> (False, f\<lparr>m_lastEvent := (m_lastEvent f)(key \<mapsto> \<lparr>lastReceived = timestamp, rejected = False\<rparr>)\<rparr>)
           | Some info \<Rightarrow>
               let r = (timestamp - lastReceived info < bounce_delay f)
               in (r, f\<lparr>m_lastEvent := (m_lastEvent f)(key \<mapsto> \<lparr>lastReceived = timestamp, rejected = r\<rparr>)\<rparr>))
      | Repeated \<Rightarrow> (case m_lastEvent f key of None \<Rightarrow> (False, f) | Some info \<Rightarrow> (rejected info, f))
      | Released \<Rightarrow> (False, f))"

text \<open>
  A press passes exactly if the last press of the key, rejected or not, is at least the delay ago, and
  the repeats of a key share the fate of its last press.
\<close>

lemma bounce_press:
  "fst (bounce_keyboardKey key Pressed t f) \<longleftrightarrow>
     (\<exists>info. m_lastEvent f key = Some info \<and> t - lastReceived info < bounce_delay f)"
  "fst (bounce_keyboardKey key Repeated t' (snd (bounce_keyboardKey key Pressed t f))) = fst (bounce_keyboardKey key Pressed t f)"
  by (auto simp: bounce_keyboardKey_def Let_def split: option.splits)

text \<open>The release of a rejected press passes: the clients get a release without its press.\<close>

lemma bounce_release_passes:
  assumes "fst (bounce_keyboardKey key Pressed t f)"
  shows "\<not> fst (bounce_keyboardKey key Released t' (snd (bounce_keyboardKey key Pressed t f)))"
  by (simp add: bounce_keyboardKey_def)

section \<open>Slow keys\<close>

record slow_filter =
  slow_installed :: bool
  slow_delay :: int
  m_keysPressBeep :: bool
  m_keysAcceptBeep :: bool
  m_keysRejectBeep :: bool
  m_firstEvent :: "key \<Rightarrow> int option"
  bells :: nat

definition slow_loadConfig ::
    "bool option \<Rightarrow> int option \<Rightarrow> bool option \<Rightarrow> bool option \<Rightarrow> bool option \<Rightarrow> slow_filter \<Rightarrow> slow_filter" where
  "slow_loadConfig on delay press accept reject f =
     (if readEntry on False
      then f\<lparr>slow_installed := True, slow_delay := (case delay of None \<Rightarrow> 500 | Some d \<Rightarrow> d),
             m_keysPressBeep := readEntry press False, m_keysAcceptBeep := readEntry accept False,
             m_keysRejectBeep := readEntry reject False\<rparr>
      else f\<lparr>slow_installed := False, m_firstEvent := (\<lambda>k. None)\<rparr>)"

definition ring :: "bool \<Rightarrow> slow_filter \<Rightarrow> slow_filter" where
  "ring b f = (if b then f\<lparr>bells := bells f + 1\<rparr> else f)"

text \<open>The second component is the state of the event that the next filter sees.\<close>

definition slow_keyboardKey ::
    "int \<Rightarrow> key \<Rightarrow> key_event_state \<Rightarrow> slow_filter \<Rightarrow> bool \<times> key_event_state \<times> slow_filter" where
  "slow_keyboardKey now key st f =
     (if st = Pressed \<or> st = Repeated
      then case m_firstEvent f key of
             None \<Rightarrow> (True, st, ring (m_keysPressBeep f) (f\<lparr>m_firstEvent := (m_firstEvent f)(key \<mapsto> now)\<rparr>))
           | Some first \<Rightarrow>
               if now - first < slow_delay f then (True, st, ring (m_keysRejectBeep f) f)
               else (False, Pressed, (ring (m_keysAcceptBeep f) f)\<lparr>m_firstEvent := (m_firstEvent f)(key := None)\<rparr>)
      else (m_firstEvent f key \<noteq> None, st, f\<lparr>m_firstEvent := (m_firstEvent f)(key := None)\<rparr>))"

fun slow_run :: "(int \<times> key \<times> key_event_state) list \<Rightarrow> slow_filter \<Rightarrow> (key \<times> key_event_state) list" where
  "slow_run [] f = []"
| "slow_run ((now, key, st) # es) f =
     (let (kept, st', f') = slow_keyboardKey now key st f
      in (if kept then [] else [(key, st')]) @ slow_run es f')"

text \<open>A key that is released before the delay is over is not seen at all.\<close>

lemma slow_short_press:
  assumes "m_firstEvent f key = None" "t' - t < slow_delay f"
  shows "slow_run [(t, key, Pressed), (t', key, Repeated), (t'', key, Released)] f = []"
  using assms by (simp add: slow_keyboardKey_def Let_def ring_def)

text \<open>
  A key that is held on after it was accepted: the next repeat is taken for a first press, and with it
  the release is kept back. The clients have seen the press and never see the release.
\<close>

lemma slow_key_stuck:
  assumes "m_firstEvent f key = None" "slow_delay f \<le> t1 - t0" "t3 - t2 < slow_delay f"
  shows "slow_run [(t0, key, Pressed), (t1, key, Repeated), (t2, key, Repeated), (t3, key, Released)] f = [(key, Pressed)]"
  using assms by (simp add: slow_keyboardKey_def Let_def ring_def)

section \<open>Mouse keys\<close>

text \<open>The keys of the number pad by their names; \<open>KP_other\<close> is any other scan code.\<close>

datatype scan_code = KP1 | KP2 | KP3 | KP4 | KP5 | KP6 | KP7 | KP8 | KP9 | KPSLASH | KPASTERISK | KPMINUS | KP_other nat

datatype mouse_button = BTN_LEFT | BTN_MIDDLE | BTN_RIGHT

datatype mouse_signal =
    PointerMotion "real \<times> real"
  | PointerButton mouse_button bool
  | PointerFrame
  | DelayTimer bool
  | RepeatTimer bool

record mouse_filter =
  mouse_enabled :: bool
  m_stepsToMax :: int
  m_curve :: int
  m_maxSpeed :: int
  mouse_delay :: int
  mouse_interval :: int
  m_mouse_keyStates :: "scan_code \<Rightarrow> bool"
  m_mouseButton :: mouse_button
  m_currentKey :: "scan_code option"
  m_currentStep :: int
  mouse_signals :: "mouse_signal list"

definition mouse_emit :: "mouse_signal list \<Rightarrow> mouse_filter \<Rightarrow> mouse_filter" where
  "mouse_emit es f = f\<lparr>mouse_signals := mouse_signals f @ es\<rparr>"

record mouse_config =
  MouseKeys :: bool
  MKTimeToMax :: int
  MKCurve :: int
  MKMaxSpeed :: int
  MKDelay :: int
  MKInterval :: int

definition mouse_loadConfig :: "mouse_config \<Rightarrow> mouse_filter \<Rightarrow> mouse_filter" where
  "mouse_loadConfig c f =
     (let f1 = (if mouse_enabled f \<and> \<not> MouseKeys c then mouse_emit [DelayTimer False, RepeatTimer False] f else f);
          f2 = f1\<lparr>mouse_enabled := MouseKeys c, m_stepsToMax := MKTimeToMax c, m_curve := MKCurve c,
                  m_maxSpeed := MKMaxSpeed c, mouse_delay := MKDelay c, mouse_interval := MKInterval c\<rparr>
      in if MouseKeys c
         then f2\<lparr>m_mouse_keyStates := (\<lambda>k. False), m_mouseButton := BTN_LEFT, m_currentKey := None, m_currentStep := 0\<rparr>
         else f2)"

fun deltaForKey :: "scan_code option \<Rightarrow> real \<times> real" where
  "deltaForKey (Some KP1) = (-5, 5)"
| "deltaForKey (Some KP2) = (0, 5)"
| "deltaForKey (Some KP3) = (5, 5)"
| "deltaForKey (Some KP4) = (-5, 0)"
| "deltaForKey (Some KP6) = (5, 0)"
| "deltaForKey (Some KP7) = (-5, -5)"
| "deltaForKey (Some KP8) = (0, -5)"
| "deltaForKey (Some KP9) = (5, -5)"
| "deltaForKey k = (0, 0)"

definition movePointer :: "real \<times> real \<Rightarrow> mouse_filter \<Rightarrow> mouse_filter" where
  "movePointer delta f = mouse_emit [PointerMotion delta, PointerFrame] f"

definition delayTriggered :: "mouse_filter \<Rightarrow> mouse_filter" where
  "delayTriggered f = movePointer (deltaForKey (m_currentKey f)) (mouse_emit [RepeatTimer True] f)"

definition deltaFactorForStep :: "mouse_filter \<Rightarrow> int \<Rightarrow> real" where
  "deltaFactorForStep f step =
     (if step > m_stepsToMax f then of_int (m_maxSpeed f)
      else let curveFactor = 1 + of_int (m_curve f) / 1000
           in of_int (m_maxSpeed f) / (of_int (m_stepsToMax f) powr curveFactor) * (of_int step powr curveFactor))"

definition repeatTriggered :: "mouse_filter \<Rightarrow> mouse_filter" where
  "repeatTriggered f =
     (let f1 = f\<lparr>m_currentStep := m_currentStep f + 1\<rparr>;
          d = deltaForKey (m_currentKey f1);
          k = deltaFactorForStep f1 (m_currentStep f1)
      in movePointer (fst d * k, snd d * k) f1)"

definition is_move_key :: "scan_code \<Rightarrow> bool" where
  "is_move_key k \<longleftrightarrow> k \<in> {KP1, KP2, KP3, KP4, KP6, KP7, KP8, KP9}"

definition mouse_keyboardKey :: "scan_code \<Rightarrow> key_event_state \<Rightarrow> mouse_filter \<Rightarrow> bool \<times> mouse_filter" where
  "mouse_keyboardKey code st f =
     (if \<not> mouse_enabled f then (False, f)
      else if is_move_key code
      then (True,
        if \<not> m_mouse_keyStates f code \<and> st = Pressed \<and> m_currentKey f = None
        then movePointer (deltaForKey (Some code))
               (mouse_emit [DelayTimer True]
                  (f\<lparr>m_mouse_keyStates := (m_mouse_keyStates f)(code := True), m_currentKey := Some code\<rparr>))
        else if m_mouse_keyStates f code \<and> st = Released \<and> m_currentKey f = Some code
        then mouse_emit [DelayTimer False, RepeatTimer False]
               (f\<lparr>m_mouse_keyStates := (m_mouse_keyStates f)(code := False), m_currentKey := None, m_currentStep := 0\<rparr>)
        else f)
      else if code = KP5
      then (True,
        if st = Pressed then mouse_emit [PointerButton (m_mouseButton f) True, PointerFrame] f
        else if st = Released then mouse_emit [PointerButton (m_mouseButton f) False, PointerFrame] f
        else f)
      else if code = KPSLASH then (True, f\<lparr>m_mouseButton := BTN_LEFT\<rparr>)
      else if code = KPASTERISK then (True, f\<lparr>m_mouseButton := BTN_MIDDLE\<rparr>)
      else if code = KPMINUS then (True, f\<lparr>m_mouseButton := BTN_RIGHT\<rparr>)
      else (False, f))"

text \<open>Exactly the current key is marked as pressed, whatever keys are pressed and released.\<close>

definition mouse_ok :: "mouse_filter \<Rightarrow> bool" where
  "mouse_ok f \<longleftrightarrow> (\<forall>k. m_mouse_keyStates f k \<longleftrightarrow> m_currentKey f = Some k)"

lemma mouse_keyboardKey_ok: "mouse_ok f \<Longrightarrow> mouse_ok (snd (mouse_keyboardKey code st f))"
  by (auto simp: mouse_ok_def mouse_keyboardKey_def movePointer_def mouse_emit_def)

text \<open>
  The button can be chosen while it is held down: then another button is released than the one pressed,
  which stays pressed.
\<close>

lemma mouse_button_stuck:
  assumes "mouse_enabled f" "m_mouseButton f = BTN_LEFT"
  shows "mouse_signals (snd (mouse_keyboardKey KP5 Released (snd (mouse_keyboardKey KPMINUS Pressed (snd (mouse_keyboardKey KP5 Pressed f)))))) =
    mouse_signals f @ [PointerButton BTN_LEFT True, PointerFrame, PointerButton BTN_RIGHT False, PointerFrame]"
  using assms by (simp add: mouse_keyboardKey_def is_move_key_def mouse_emit_def)

end
