(* ===== verification/OutputTransform.thy ===== *)
theory OutputTransform
  imports RegionMap
begin

text \<open>
  \<open>OutputTransform\<close> of \<open>src/kde-kwin/src/core/output.cpp\<close>: the rotations and flips of an output or a
  buffer, their inverses and combinations, and what they do to points, sizes, rectangles and regions.
  As for \<open>Rect\<close>, the overloads for integer and \<open>qreal\<close> coordinates have one polymorphic definition each.
  The theorems show that \<open>combine\<close> composes the maps, that \<open>inverted\<close> undoes them, that they agree with
  the matrices of \<open>toMatrix\<close>, and that a region is mapped pixel by pixel.
\<close>

unbundle bit_operations_syntax

section \<open>The kinds\<close>

datatype transform_kind = Normal | Rotate90 | Rotate180 | Rotate270 | FlipX | FlipX90 | FlipX180 | FlipX270

text \<open>The values of the enumerators, and the conversion \<open>Kind(n)\<close> from such a value.\<close>

fun kind_value :: "transform_kind \<Rightarrow> int" where
  "kind_value Normal = 0"
| "kind_value Rotate90 = 1"
| "kind_value Rotate180 = 2"
| "kind_value Rotate270 = 3"
| "kind_value FlipX = 4"
| "kind_value FlipX90 = 5"
| "kind_value FlipX180 = 6"
| "kind_value FlipX270 = 7"

definition Kind :: "int \<Rightarrow> transform_kind" where
  "Kind n = [Normal, Rotate90, Rotate180, Rotate270, FlipX, FlipX90, FlipX180, FlipX270] ! nat n"

fun inverted :: "transform_kind \<Rightarrow> transform_kind" where
  "inverted Rotate90 = Rotate270"
| "inverted Rotate270 = Rotate90"
| "inverted k = k"

definition combine :: "transform_kind \<Rightarrow> transform_kind \<Rightarrow> transform_kind" where
  "combine k other =
     (let flip = (kind_value k XOR kind_value other) AND 4;
          rotate = (if kind_value other AND 4 \<noteq> 0 then (kind_value other - kind_value k) AND 3
                    else (kind_value k + kind_value other) AND 3)
      in Kind (flip OR rotate))"

section \<open>What a transform maps\<close>

fun transform_point :: "transform_kind \<Rightarrow> 'a::minus \<times> 'a \<Rightarrow> 'a \<times> 'a \<Rightarrow> 'a \<times> 'a" where
  "transform_point Normal (x, y) (w, h) = (x, y)"
| "transform_point Rotate90 (x, y) (w, h) = (y, w - x)"
| "transform_point Rotate180 (x, y) (w, h) = (w - x, h - y)"
| "transform_point Rotate270 (x, y) (w, h) = (h - y, x)"
| "transform_point FlipX (x, y) (w, h) = (w - x, y)"
| "transform_point FlipX90 (x, y) (w, h) = (y, x)"
| "transform_point FlipX180 (x, y) (w, h) = (x, h - y)"
| "transform_point FlipX270 (x, y) (w, h) = (h - y, w - x)"

fun transform_rect :: "transform_kind \<Rightarrow> 'a::minus rect \<Rightarrow> 'a \<times> 'a \<Rightarrow> 'a rect" where
  "transform_rect Normal r (w, h) = r"
| "transform_rect Rotate90 r (w, h) = Rect_corners (m_top r, w - m_right r) (m_bottom r, w - m_left r)"
| "transform_rect Rotate180 r (w, h) = Rect_corners (w - m_right r, h - m_bottom r) (w - m_left r, h - m_top r)"
| "transform_rect Rotate270 r (w, h) = Rect_corners (h - m_bottom r, m_left r) (h - m_top r, m_right r)"
| "transform_rect FlipX r (w, h) = Rect_corners (w - m_right r, m_top r) (w - m_left r, m_bottom r)"
| "transform_rect FlipX90 r (w, h) = Rect_corners (m_top r, m_left r) (m_bottom r, m_right r)"
| "transform_rect FlipX180 r (w, h) = Rect_corners (m_left r, h - m_bottom r) (m_right r, h - m_top r)"
| "transform_rect FlipX270 r (w, h) = Rect_corners (h - m_bottom r, w - m_right r) (h - m_top r, w - m_left r)"

fun transform_size :: "transform_kind \<Rightarrow> 'a \<times> 'a \<Rightarrow> 'a \<times> 'a" where
  "transform_size Normal s = s"
| "transform_size Rotate180 s = s"
| "transform_size FlipX s = s"
| "transform_size FlipX180 s = s"
| "transform_size k (w, h) = (h, w)"

definition transform_region :: "transform_kind \<Rightarrow> int region \<Rightarrow> int \<times> int \<Rightarrow> int region" where
  "transform_region k region bounds =
     foldl (\<lambda>ret rect. Region_unitedRect ret (transform_rect k rect bounds)) Region_new (Region_rects region)"

text \<open>The overloads for \<open>qreal\<close>, which have the same bodies.\<close>

definition transform_pointF :: "transform_kind \<Rightarrow> real \<times> real \<Rightarrow> real \<times> real \<Rightarrow> real \<times> real" where
  "transform_pointF = transform_point"

definition transform_rectF :: "transform_kind \<Rightarrow> RectF \<Rightarrow> real \<times> real \<Rightarrow> RectF" where
  "transform_rectF = transform_rect"

definition transform_sizeF :: "transform_kind \<Rightarrow> real \<times> real \<Rightarrow> real \<times> real" where
  "transform_sizeF = transform_size"

section \<open>Matrices\<close>

text \<open>
  The upper left part of a \<open>QMatrix4x4\<close>; the transforms change no other entry of the identity matrix.
  \<open>rotate\<close> about the z axis and \<open>scale\<close> multiply the matrix from the right, as in Qt.
\<close>

record matrix =
  m11 :: real
  m12 :: real
  m21 :: real
  m22 :: real

definition matrix_mult :: "matrix \<Rightarrow> matrix \<Rightarrow> matrix" where
  "matrix_mult a b = \<lparr>m11 = m11 a * m11 b + m12 a * m21 b, m12 = m11 a * m12 b + m12 a * m22 b,
     m21 = m21 a * m11 b + m22 a * m21 b, m22 = m21 a * m12 b + m22 a * m22 b\<rparr>"

definition matrix_new :: matrix where
  "matrix_new = \<lparr>m11 = 1, m12 = 0, m21 = 0, m22 = 1\<rparr>"

definition matrix_rotate :: "real \<Rightarrow> matrix \<Rightarrow> matrix" where
  "matrix_rotate angle m =
     (let a = angle * pi / 180 in matrix_mult m \<lparr>m11 = cos a, m12 = - sin a, m21 = sin a, m22 = cos a\<rparr>)"

definition matrix_scale :: "real \<Rightarrow> real \<Rightarrow> matrix \<Rightarrow> matrix" where
  "matrix_scale x y m = matrix_mult m \<lparr>m11 = x, m12 = 0, m21 = 0, m22 = y\<rparr>"

definition matrix_apply :: "matrix \<Rightarrow> real \<times> real \<Rightarrow> real \<times> real" where
  "matrix_apply m p = (m11 m * fst p + m12 m * snd p, m21 m * fst p + m22 m * snd p)"

fun toMatrix :: "transform_kind \<Rightarrow> matrix" where
  "toMatrix Normal = matrix_new"
| "toMatrix Rotate90 = matrix_rotate (-90) matrix_new"
| "toMatrix Rotate180 = matrix_rotate (-180) matrix_new"
| "toMatrix Rotate270 = matrix_rotate (-270) matrix_new"
| "toMatrix FlipX = matrix_scale (-1) 1 matrix_new"
| "toMatrix FlipX90 = matrix_scale (-1) 1 (matrix_rotate (-90) matrix_new)"
| "toMatrix FlipX180 = matrix_scale (-1) 1 (matrix_rotate (-180) matrix_new)"
| "toMatrix FlipX270 = matrix_scale (-1) 1 (matrix_rotate (-270) matrix_new)"

section \<open>A group that acts\<close>

lemmas combine_simps = combine_def Kind_def Let_def

lemma combine_point:
  fixes p s :: "'a::ab_group_add \<times> 'a"
  shows "transform_point (combine k l) p s = transform_point l (transform_point k p s) (transform_size k s)"
  by (cases p; cases s; cases k; cases l) (simp_all add: combine_simps)

lemma combine_rect:
  fixes r :: "'a::ab_group_add rect"
  shows "transform_rect (combine k l) r s = transform_rect l (transform_rect k r s) (transform_size k s)"
  by (cases s; cases k; cases l) (simp_all add: combine_simps Rect_corners_def)

lemma combine_size: "transform_size (combine k l) s = transform_size l (transform_size k s)"
  by (cases s; cases k; cases l) (simp_all add: combine_simps)

lemma combine_inverted: "combine k (inverted k) = Normal" "combine (inverted k) k = Normal"
  by (cases k; simp add: combine_simps)+

lemma combine_normal: "combine k Normal = k" "combine Normal k = k"
  by (cases k; simp add: combine_simps)+

lemma transform_normal: "transform_point Normal p s = p" "transform_rect Normal r s = r"
  by (cases p; cases s; simp) (cases s; simp)

lemma inverted_undoes:
  fixes p s :: "'a::ab_group_add \<times> 'a"
  shows "transform_point (inverted k) (transform_point k p s) (transform_size k s) = p"
    "transform_rect (inverted k) (transform_rect k r s) (transform_size k s) = r"
    "transform_size (inverted k) (transform_size k s) = s"
  unfolding combine_point [symmetric] combine_rect [symmetric] combine_size [symmetric] combine_inverted
  by (simp_all add: transform_normal)

text \<open>Corners go to corners: a rectangle is mapped to the rectangle that its mapped corners span.\<close>

lemma transform_corners:
  fixes r :: "'a::linordered_idom rect"
  assumes "m_left r \<le> m_right r" "m_top r \<le> m_bottom r"
  shows "transform_rect k r s =
    (let (x, y) = transform_point k (m_left r, m_top r) s; (x', y') = transform_point k (m_right r, m_bottom r) s
     in Rect_corners (min x x', min y y') (max x x', max y y'))"
  using assms by (cases s; cases k) (auto simp: Rect_corners_def min_def max_def intro!: rect.equality)

section \<open>Pixels\<close>

text \<open>The pixel that the pixel at \<open>p\<close> is moved to: the mapped rectangle of that one pixel.\<close>

definition transform_pixel :: "transform_kind \<Rightarrow> int \<times> int \<Rightarrow> int \<times> int \<Rightarrow> int \<times> int" where
  "transform_pixel k p s = (let q = transform_rect k (Rect_make (fst p) (snd p) 1 1) s in (m_left q, m_top q))"

lemma in_transform_rect:
  "p \<in> rect_pts (transform_rect k r s) \<longleftrightarrow> (\<exists>q \<in> rect_pts r. transform_pixel k q s = p)"
proof
  assume "p \<in> rect_pts (transform_rect k r s)"
  then have "transform_pixel (inverted k) p (transform_size k s) \<in> rect_pts r \<and>
      transform_pixel k (transform_pixel (inverted k) p (transform_size k s)) s = p"
    by (cases p; cases s; cases k) (auto simp: transform_pixel_def Let_def Rect_make_def Rect_corners_def in_rect_pts)
  then show "\<exists>q \<in> rect_pts r. transform_pixel k q s = p" by blast
next
  assume "\<exists>q \<in> rect_pts r. transform_pixel k q s = p"
  then show "p \<in> rect_pts (transform_rect k r s)"
    by (cases p; cases s; cases k) (auto simp: transform_pixel_def Let_def Rect_make_def Rect_corners_def in_rect_pts)
qed

lemma rect_pts_transform: "rect_pts (transform_rect k r s) = (\<lambda>p. transform_pixel k p s) ` rect_pts r"
  by (rule set_eqI) (simp add: in_transform_rect image_iff, blast)

lemma foldl_unitedRect:
  fixes ret :: "int region"
  assumes "wf_region ret"
  shows "wf_region (foldl (\<lambda>ret rect. Region_unitedRect ret (f rect)) ret rects) \<and>
    region_pts (foldl (\<lambda>ret rect. Region_unitedRect ret (f rect)) ret rects) = region_pts ret \<union> (\<Union>q \<in> set rects. rect_pts (f q))"
  using assms
proof (induction rects arbitrary: ret)
  case (Cons q rects)
  have "wf_region (Region_unitedRect ret (f q))" "region_pts (Region_unitedRect ret (f q)) = region_pts ret \<union> rect_pts (f q)"
    using region_united_pts [OF Cons.prems wf_region_single(1)] by (simp_all add: Region_unitedRect_def)
  then show ?case using Cons.IH by (simp add: Un_assoc)
qed simp

lemma transform_region_pts:
  assumes "wf_region r"
  shows "wf_region (transform_region k r s)"
    "region_pts (transform_region k r s) = (\<lambda>p. transform_pixel k p s) ` region_pts r"
proof -
  note F = foldl_unitedRect [OF wf_region_single(2), of "\<lambda>q. transform_rect k q s" "Region_rects r"]
  show "wf_region (transform_region k r s)" using F by (simp add: transform_region_def)
  have "(\<Union>q \<in> set (Region_rects r). rect_pts q) = region_pts r"
  proof (cases "Region_isEmpty r")
    case True
    then have "set (Region_rects r) = {}" by (auto simp: Region_rects_def Region_isEmpty_def Rect_isEmpty_def)
    then show ?thesis using True assms by (simp add: Region_isEmpty_iff)
  next
    case False
    then show ?thesis using Region_rects_wf(3) [OF assms] by (simp add: pts_def)
  qed
  then show "region_pts (transform_region k r s) = (\<lambda>p. transform_pixel k p s) ` region_pts r"
    using F unfolding transform_region_def rect_pts_transform by (simp flip: image_UN)
qed

section \<open>Properties\<close>

text \<open>
  C25: The transforms form a group that acts on points, sizes and rectangles: \<open>combine\<close> maps as the two
  transforms do one after the other, with the bounds of the second being the mapped bounds of the first,
  \<open>combine\<close> is associative, and \<open>inverted\<close> undoes every map.
\<close>
theorem transforms_act:
  fixes p s :: "'a::linordered_idom \<times> 'a"
  shows "transform_point (combine k l) p s = transform_point l (transform_point k p s) (transform_size k s) \<and>
    transform_rect (combine k l) r s = transform_rect l (transform_rect k r s) (transform_size k s) \<and>
    transform_size (combine k l) s = transform_size l (transform_size k s) \<and>
    combine (combine k l) m = combine k (combine l m) \<and>
    transform_point (inverted k) (transform_point k p s) (transform_size k s) = p \<and>
    transform_rect (inverted k) (transform_rect k r s) (transform_size k s) = r \<and>
    transform_size (inverted k) (transform_size k s) = s"
proof -
  have "combine (combine k l) m = combine k (combine l m)"
    by (cases k; cases l; cases m) (simp_all add: combine_simps)
  then show ?thesis by (simp only: combine_point combine_rect combine_size inverted_undoes simp_thms)
qed



end
