(* ===== verification/SurfaceState.thy ===== *)
theory SurfaceState
  imports OutputTransform "HOL-Library.Word"
begin

text \<open>
  The double-buffered state of a Wayland surface: \<open>SurfaceState\<close> of \<open>src/kde-kwin/src/wayland/surface_p.h\<close>
  and \<open>SurfaceState::mergeInto\<close> of \<open>surface.cpp\<close>, which moves a state into a newer or a current one.
  Objects that the state only points to (buffers, shadows, timelines, colour descriptions, callbacks,
  extensions and their states) are numbers.
\<close>

section \<open>Data\<close>

datatype field =
    Field_Input | Field_Opaque | Field_Buffer | Field_Shadow | Field_Blur | Field_Slide | Field_SubsurfaceOrder
  | Field_SubsurfacePosition | Field_BufferScale | Field_BufferTransform | Field_ContentType
  | Field_PresentationModeHint | Field_ColorDescription | Field_AlphaMultiplier | Field_YuvCoefficients
  | Field_SourceGeometry | Field_DestinationSize

datatype yuv_coefficients = Identity | BT601 | BT709 | BT2020

datatype encoding_range = Limited | Full

text \<open>
  The other enumerations and shared objects with the default that \<open>SurfaceState\<close> gives them as \<open>0\<close>:
  \<open>ContentType::None\<close>, \<open>PresentationModeHint::VSync\<close>, \<open>ColorDescription::sRGB\<close>, and so on.
\<close>

record surface_state =
  committed :: "field set"
  damage :: "real region"
  bufferDamage :: "int region"
  opaque :: "real region"
  input :: "real region"
  bufferScale :: int
  bufferTransform :: transform_kind
  frameCallbacks :: "nat list"
  offset :: "real \<times> real"
  buffer :: "nat option"
  shadow :: "nat option"
  slide :: "nat option"
  contentType :: nat
  presentationHint :: nat
  colorDescription :: nat
  colorDescriptionType :: nat
  renderingIntent :: nat
  presentationFeedback :: "nat option"
  acquireTimeline :: "nat option"
  acquirePoint :: "64 word"
  releasePoint :: "nat option"
  alphaMultiplier :: real
  yuvCoefficients :: yuv_coefficients
  encodingRange :: encoding_range
  fifoBarrier :: bool
  hasFifoWaitCondition :: bool
  blurRegion :: "real region"
  roleGeneration :: "32 word"
  sub_below :: "nat list"
  sub_above :: "nat list"
  sub_position :: "nat \<Rightarrow> (real \<times> real) option"
  sourceGeometry :: RectF
  destinationSize :: "real \<times> real"
  extensions :: "nat \<Rightarrow> nat option"

definition SurfaceState_new :: surface_state where
  "SurfaceState_new =
     \<lparr>committed = {}, damage = Region_new, bufferDamage = Region_new, opaque = Region_new, input = RegionF_infinite,
      bufferScale = 1, bufferTransform = Normal, frameCallbacks = [], offset = (0, 0), buffer = None, shadow = None,
      slide = None, contentType = 0, presentationHint = 0, colorDescription = 0, colorDescriptionType = 0,
      renderingIntent = 0, presentationFeedback = None, acquireTimeline = None, acquirePoint = 0, releasePoint = None,
      alphaMultiplier = 1, yuvCoefficients = Identity, encodingRange = Full, fifoBarrier = False, hasFifoWaitCondition = False,
      blurRegion = Region_new, roleGeneration = 0, sub_below = [], sub_above = [], sub_position = (\<lambda>h. None),
      sourceGeometry = Rect_null, destinationSize = (-1, -1), extensions = (\<lambda>e. None)\<rparr>"

section \<open>Merging\<close>

text \<open>
  \<open>SurfaceAttachedState::mergeInto\<close>: the state of an extension is moved to the target, and the source is left
  with a new state. Both are returned, the source first; \<open>create e\<close> is \<open>extension->createState()\<close>.
\<close>

definition attached_mergeInto :: "(nat \<Rightarrow> nat) \<Rightarrow> nat \<Rightarrow> nat \<Rightarrow> nat \<Rightarrow> nat \<times> nat" where
  "attached_mergeInto create e self other = (create e, self)"

text \<open>The loop over the extensions; one that the source does not have is dropped from the target.\<close>

definition merge_extensions :: "(nat \<Rightarrow> nat) \<Rightarrow> (nat \<Rightarrow> nat option) \<Rightarrow> (nat \<Rightarrow> nat option) \<Rightarrow> nat \<Rightarrow> nat option" where
  "merge_extensions create sources previousExtensions =
     (\<lambda>e. case sources e of None \<Rightarrow> None
        | Some sourceState \<Rightarrow>
            let targetState = (case previousExtensions e of Some t \<Rightarrow> t | None \<Rightarrow> create e)
            in Some (snd (attached_mergeInto create e sourceState targetState)))"

definition moved_extensions :: "(nat \<Rightarrow> nat) \<Rightarrow> (nat \<Rightarrow> nat option) \<Rightarrow> nat \<Rightarrow> nat option" where
  "moved_extensions create sources =
     (\<lambda>e. case sources e of None \<Rightarrow> None
        | Some sourceState \<Rightarrow> Some (fst (attached_mergeInto create e sourceState (create e))))"

text \<open>What the target gets; \<open>wl_list_insert_list\<close> puts the new callbacks in front of the old ones.\<close>

definition mergeInto :: "(nat \<Rightarrow> nat) \<Rightarrow> surface_state \<Rightarrow> surface_state \<Rightarrow> surface_state" where
  "mergeInto create s t =
     (let t1 = (if Field_Buffer \<in> committed s
                then t\<lparr>buffer := buffer s, offset := offset s, acquireTimeline := acquireTimeline s,
                       acquirePoint := acquirePoint s, releasePoint := releasePoint s\<rparr>
                else t);
          t2 = t1\<lparr>frameCallbacks := frameCallbacks s @ frameCallbacks t1,
                  damage := Region_united (damage t1) (damage s),
                  bufferDamage := Region_united (bufferDamage t1) (bufferDamage s),
                  sourceGeometry := sourceGeometry s, destinationSize := destinationSize s,
                  sub_below := sub_below s, sub_above := sub_above s, sub_position := sub_position s,
                  shadow := shadow s, slide := slide s, input := input s, opaque := opaque s,
                  bufferScale := bufferScale s, bufferTransform := bufferTransform s, contentType := contentType s,
                  presentationHint := presentationHint s, colorDescription := colorDescription s,
                  colorDescriptionType := colorDescriptionType s, renderingIntent := renderingIntent s,
                  alphaMultiplier := alphaMultiplier s, yuvCoefficients := yuvCoefficients s\<rparr>
      in t2\<lparr>fifoBarrier := fifoBarrier t2 \<or> fifoBarrier s, hasFifoWaitCondition := hasFifoWaitCondition s,
            encodingRange := encodingRange s, presentationFeedback := presentationFeedback s,
            blurRegion := blurRegion s, roleGeneration := roleGeneration s,
            extensions := merge_extensions create (extensions s) (extensions t2),
            committed := committed t2 \<union> committed s\<rparr>)"

text \<open>What is left of the source, with everything that was moved out of it.\<close>

definition mergedFrom :: "(nat \<Rightarrow> nat) \<Rightarrow> surface_state \<Rightarrow> surface_state" where
  "mergedFrom create s =
     (let s1 = (if Field_Buffer \<in> committed s then s\<lparr>acquireTimeline := None, releasePoint := None\<rparr> else s)
      in s1\<lparr>frameCallbacks := [], damage := Region_new, bufferDamage := Region_new, fifoBarrier := False,
            hasFifoWaitCondition := False, presentationFeedback := None,
            extensions := moved_extensions create (extensions s1), committed := {}\<rparr>)"

section \<open>Merging and applying\<close>

lemma united_assoc:
  fixes a b c :: "'a::{linorder,zero} region"
  assumes "wf_region a" "wf_region b" "wf_region c"
  shows "Region_united (Region_united a b) c = Region_united a (Region_united b c)"
proof (cases "Region_isEmpty a \<or> Region_isEmpty b \<or> Region_isEmpty c")
  case False
  then have "region_pts a \<noteq> {}" using Region_isEmpty_iff [OF assms(1)] by simp
  from region.unite_lattice(2) [OF assms this] show ?thesis by (simp add: Region_eq_iff)
next
  case True
  have ne: "\<not> Region_isEmpty (Region_united x y)" if "wf_region x" "wf_region y" "\<not> Region_isEmpty x" for x y :: "'a region"
    using that region_united_pts [OF that(1,2)] by (simp add: Region_isEmpty_iff)
  consider "Region_isEmpty a" | "\<not> Region_isEmpty a" "Region_isEmpty b" | "\<not> Region_isEmpty a" "\<not> Region_isEmpty b" "Region_isEmpty c"
    using True by blast
  then show ?thesis
  proof cases
    case 3
    have "Region_united x c = x" if "\<not> Region_isEmpty x" for x :: "'a region" using that 3 by (simp add: Region_united_def)
    then show ?thesis using ne [OF assms(1,2)] 3 by simp
  qed (simp_all add: Region_united_def)
qed

text \<open>
  The two ways a newer state reaches the current one: both states are applied one after the other, or
  the newer state is merged into the older one, which is still waiting, and the result is applied.
\<close>

lemma merge_assoc:
  assumes "wf_region (damage old)" "wf_region (damage new)" "wf_region (damage cur)"
    and "wf_region (bufferDamage old)" "wf_region (bufferDamage new)" "wf_region (bufferDamage cur)"
  shows "mergeInto create new (mergeInto create old cur) = mergeInto create (mergeInto create new old) cur"
  using united_assoc [OF assms(3,1,2)] united_assoc [OF assms(6,4,5)]
  by (intro surface_state.equality)
    (auto simp: mergeInto_def Let_def merge_extensions_def attached_mergeInto_def fun_eq_iff split: option.splits)

end
