(* ===== verification/Surfaces.thy ===== *)
theory Surfaces
  imports SurfaceState "HOL-Library.Monad_Syntax"
begin

text \<open>
  Surfaces and their subsurfaces: \<open>SurfaceInterfacePrivate\<close> of \<open>src/kde-kwin/src/wayland/surface.cpp\<close>,
  \<open>SubSurfaceInterface\<close> of \<open>subcompositor.cpp\<close> and the entries of \<open>Transaction\<close>, as one store of objects.
  An object that was destroyed is not in the store: a \<open>QPointer\<close> to it reads as null, and using any other
  pointer to it is undefined behaviour, for which the operations return \<open>None\<close>. A recursion that does not
  end is \<open>None\<close> as well. Signals are recorded; their handlers are outside the model.
\<close>

section \<open>The store\<close>

datatype sub_mode = Synchronized | Desynchronized

record subsurface =
  d_surface :: nat
  d_parent :: nat
  d_position :: "real \<times> real"
  d_mode :: sub_mode

datatype surface_role = SubSurface_role | Other_role nat

record surface =
  current :: surface_state
  pending :: surface_state
  bufferSourceBox :: RectF
  surfaceSize :: "real \<times> real"
  inputRegion :: "real region"
  opaqueRegion :: "real region"
  bufferRef :: "nat option"
  surface_bufferDamage :: "int region"
  mapped :: bool
  serverScale :: real
  clientToCompositorScale :: real
  firstTransaction :: "nat option"
  lastTransaction :: "nat option"
  subsurface_handle :: "nat option"
  subsurface_transaction :: "nat option"
  surface_role :: "surface_role option"
  mainRoleGeneration :: "32 word"
  m_tearingDown :: bool
  surface_client :: nat
  hasColorSurface :: bool
  hasColorRepresentation :: bool

text \<open>A fence is a file descriptor with the state of its notifier: enabled while the fence is waiting.\<close>

record entry =
  e_surface :: nat
  previousTransaction :: "nat option"
  nextTransaction :: "nat option"
  e_buffer :: "nat option"
  e_state :: surface_state
  fences :: "(nat \<times> bool) list"

datatype surface_signal =
    Mapped nat | Unmapped nat | OpaqueChanged nat | InputChanged nat | BufferTransformChanged nat
  | BufferSourceBoxChanged nat | BufferChanged nat | SizeChanged nat | ShadowChanged nat | BlurChanged nat
  | SlideChanged nat | ChildSubSurfacesChanged nat | ColorDescriptionChanged nat | PresentationModeHintChanged nat
  | BufferReleasePointChanged nat | AlphaMultiplierChanged nat | Damaged nat "int region" | Committed nat
  | PositionChanged nat "real \<times> real" | ModeChanged nat sub_mode | ReleasePointAdded nat nat
  | ExtensionsApplied nat "nat \<Rightarrow> nat option" | ChildAdded nat nat | ChildRemoved nat nat | ProtocolError

record store =
  surfaces :: "nat \<Rightarrow> surface option"
  subsurfaces :: "nat \<Rightarrow> subsurface option"
  transactions :: "nat \<Rightarrow> entry list option"
  next_id :: nat
  client_tearingDown :: "nat \<Rightarrow> bool"
  surface_signals :: "surface_signal list"
  applied :: "nat list"

text \<open>
  \<open>applied\<close> is no part of the program: it records the transactions in the order in which they are applied,
  for the statements about that order.
\<close>

text \<open>What other objects answer: buffers, extensions, colour descriptions, timelines and the kernel.\<close>

datatype drm_format = NV12 | XYUV8888 | P010 | Other_format nat

record surface_env =
  buffer_size :: "nat \<Rightarrow> int \<times> int"
  hasAlphaChannel :: "nat \<Rightarrow> bool"
  dmabuf_format :: "nat \<Rightarrow> drm_format option"
  dmabuf_fds :: "nat \<Rightarrow> nat list"
  createState :: "nat \<Rightarrow> nat"
  withYuvCoefficients :: "nat \<Rightarrow> yuv_coefficients \<Rightarrow> encoding_range \<Rightarrow> nat"
  eventFd :: "nat \<Rightarrow> 64 word \<Rightarrow> nat option"
  isReadable :: "nat \<Rightarrow> bool"
  exportWaitSyncFile :: "nat \<Rightarrow> nat option"
  pointer_less :: "nat option \<Rightarrow> nat option \<Rightarrow> bool"
  sort_entries :: "(entry \<Rightarrow> entry \<Rightarrow> bool) \<Rightarrow> entry list \<Rightarrow> entry list"

definition emit_surface :: "surface_signal \<Rightarrow> store \<Rightarrow> store" where
  "emit_surface sg h = h\<lparr>surface_signals := surface_signals h @ [sg]\<rparr>"

definition update_surface :: "nat \<Rightarrow> (surface \<Rightarrow> surface) \<Rightarrow> store \<Rightarrow> store option" where
  "update_surface s f h =
     (case surfaces h s of None \<Rightarrow> None | Some sf \<Rightarrow> Some (h\<lparr>surfaces := (surfaces h)(s \<mapsto> f sf)\<rparr>))"

definition update_subsurface :: "nat \<Rightarrow> (subsurface \<Rightarrow> subsurface) \<Rightarrow> store \<Rightarrow> store option" where
  "update_subsurface c f h =
     (case subsurfaces h c of None \<Rightarrow> None | Some d \<Rightarrow> Some (h\<lparr>subsurfaces := (subsurfaces h)(c \<mapsto> f d)\<rparr>))"

fun each_object :: "(nat \<Rightarrow> store \<Rightarrow> store option) \<Rightarrow> nat list \<Rightarrow> store \<Rightarrow> store option" where
  "each_object f [] h = Some h"
| "each_object f (x # xs) h = f x h \<bind> each_object f xs"

section \<open>The tree of subsurfaces\<close>

text \<open>The pointers \<open>surface\<close> and \<open>parent\<close> of a subsurface; \<open>None\<close> inside is null.\<close>

definition sub_surface :: "store \<Rightarrow> nat \<Rightarrow> nat option option" where
  "sub_surface h c = map_option (\<lambda>d. if surfaces h (d_surface d) = None then None else Some (d_surface d)) (subsurfaces h c)"

definition parentSurface :: "store \<Rightarrow> nat \<Rightarrow> nat option option" where
  "parentSurface h c = map_option (\<lambda>d. if surfaces h (d_parent d) = None then None else Some (d_parent d)) (subsurfaces h c)"

partial_function (option) sub_mainSurface :: "store \<Rightarrow> nat \<Rightarrow> nat option option" where
  "sub_mainSurface h c = do {
     p \<leftarrow> parentSurface h c;
     (case p of
        None \<Rightarrow> Some None
      | Some p \<Rightarrow> do {
          parent \<leftarrow> surfaces h p;
          (case subsurface_handle parent of
             None \<Rightarrow> Some (Some p)
           | Some handle \<Rightarrow> sub_mainSurface h handle)
        })
   }"

partial_function (option) isSynchronized :: "store \<Rightarrow> nat \<Rightarrow> bool option" where
  "isSynchronized h c = do {
     d \<leftarrow> subsurfaces h c;
     if d_mode d = Synchronized then Some True
     else (case surfaces h (d_parent d) of
             None \<Rightarrow> Some False
           | Some parent \<Rightarrow>
               (case subsurface_handle parent of
                  None \<Rightarrow> Some False
                | Some handle \<Rightarrow> isSynchronized h handle))
   }"

definition mainSurface :: "store \<Rightarrow> nat \<Rightarrow> nat option option" where
  "mainSurface h s = do {
     sf \<leftarrow> surfaces h s;
     (case subsurface_handle sf of None \<Rightarrow> Some (Some s) | Some handle \<Rightarrow> sub_mainSurface h handle)
   }"

partial_function (option) isAncestor :: "store \<Rightarrow> nat \<Rightarrow> nat option \<Rightarrow> bool option" where
  "isAncestor h surface ancestor = do {
     sf \<leftarrow> surfaces h surface;
     (case subsurface_handle sf of
        None \<Rightarrow> Some False
      | Some handle \<Rightarrow> do {
          p \<leftarrow> parentSurface h handle;
          if p = ancestor then Some True
          else (case p of None \<Rightarrow> Some False | Some candidate \<Rightarrow> isAncestor h candidate ancestor)
        })
   }"

partial_function (option) mainSurfaceRoleGeneration :: "store \<Rightarrow> nat \<Rightarrow> 32 word option" where
  "mainSurfaceRoleGeneration h s = do {
     sf \<leftarrow> surfaces h s;
     (case subsurface_handle sf of
        None \<Rightarrow> Some (mainRoleGeneration sf)
      | Some handle \<Rightarrow> do {
          main \<leftarrow> sub_mainSurface h handle;
          (case main of None \<Rightarrow> Some 0 | Some m \<Rightarrow> mainSurfaceRoleGeneration h m)
        })
   }"

declare sub_mainSurface.simps [code] isSynchronized.simps [code] isAncestor.simps [code] mainSurfaceRoleGeneration.simps [code]

text \<open>The children of a surface in its current state, those below it first.\<close>

definition children_of :: "surface_state \<Rightarrow> nat list" where
  "children_of st = sub_below st @ sub_above st"

section \<open>Mapping\<close>

definition computeEffectiveMapped :: "store \<Rightarrow> nat \<Rightarrow> bool option" where
  "computeEffectiveMapped h s = do {
     sf \<leftarrow> surfaces h s;
     if bufferRef sf = None then Some False
     else (case subsurface_handle sf of
             None \<Rightarrow> Some True
           | Some handle \<Rightarrow> do {
               p \<leftarrow> parentSurface h handle;
               Some (case p of None \<Rightarrow> False
                     | Some p \<Rightarrow> (case surfaces h p of None \<Rightarrow> False | Some parent \<Rightarrow> mapped parent))
             })
   }"

text \<open>\<open>updateEffectiveMapped\<close> of the surfaces of these subsurfaces, depth first.\<close>

definition set_mapped :: "nat \<Rightarrow> bool \<Rightarrow> store \<Rightarrow> store option" where
  "set_mapped s b h = map_option (emit_surface (if b then Mapped s else Unmapped s)) (update_surface s (\<lambda>sf. sf\<lparr>mapped := b\<rparr>) h)"

partial_function (option) update_children_mapped :: "nat list \<Rightarrow> store \<Rightarrow> store option" where
  "update_children_mapped cs h =
     (case cs of
        [] \<Rightarrow> Some h
      | c # cs' \<Rightarrow> do {
          p \<leftarrow> sub_surface h c;
          s \<leftarrow> p;
          sf \<leftarrow> surfaces h s;
          effectiveMapped \<leftarrow> computeEffectiveMapped h s;
          h2 \<leftarrow> (if mapped sf = effectiveMapped then Some h
                 else do {
                   h1 \<leftarrow> set_mapped s effectiveMapped h;
                   update_children_mapped (children_of (current sf)) h1
                 });
          update_children_mapped cs' h2
        })"

declare update_children_mapped.simps [code]

definition updateEffectiveMapped :: "nat \<Rightarrow> store \<Rightarrow> store option" where
  "updateEffectiveMapped s h = do {
     sf \<leftarrow> surfaces h s;
     effectiveMapped \<leftarrow> computeEffectiveMapped h s;
     if mapped sf = effectiveMapped then Some h
     else do {
       h1 \<leftarrow> set_mapped s effectiveMapped h;
       update_children_mapped (children_of (current sf)) h1
     }
   }"

section \<open>Geometry\<close>

definition sizeF :: "int \<times> int \<Rightarrow> real \<times> real" where
  "sizeF s = (of_int (fst s), of_int (snd s))"

definition rectF_at_origin :: "real \<times> real \<Rightarrow> RectF" where
  "rectF_at_origin s = Rect_make 0 0 (fst s) (snd s)"

text \<open>\<open>QSizeF::isValid\<close>, and the division of a \<open>QSize\<close> by a factor, which rounds.\<close>

definition sizeF_isValid :: "real \<times> real \<Rightarrow> bool" where
  "sizeF_isValid s \<longleftrightarrow> 0 \<le> fst s \<and> 0 \<le> snd s"

definition size_divided :: "int \<times> int \<Rightarrow> int \<Rightarrow> int \<times> int" where
  "size_divided s c = (round_half_away (of_int (fst s) / of_int c), round_half_away (of_int (snd s) / of_int c))"

definition computeBufferSourceBox :: "surface_env \<Rightarrow> surface_state \<Rightarrow> nat \<Rightarrow> RectF" where
  "computeBufferSourceBox env st b =
     (if Rect_isEmpty (sourceGeometry st) then rectF_at_origin (sizeF (buffer_size env b))
      else let bounds = sizeF (transform_size (bufferTransform st) (buffer_size env b));
               k = of_int (bufferScale st);
               g = sourceGeometry st;
               box = Rect_make (m_left g * k) (m_top g * k) (Rect_width g * k) (Rect_height g * k)
           in transform_rectF (bufferTransform st) box bounds)"

definition computeSurfaceSize :: "surface_env \<Rightarrow> surface_state \<Rightarrow> nat \<Rightarrow> real \<Rightarrow> real \<times> real" where
  "computeSurfaceSize env st b scale =
     (let size = (if sizeF_isValid (destinationSize st) then destinationSize st
                  else if \<not> Rect_isEmpty (sourceGeometry st) then (Rect_width (sourceGeometry st), Rect_height (sourceGeometry st))
                  else sizeF (transform_size (bufferTransform st) (size_divided (buffer_size env b) (bufferScale st))))
      in (fst size / scale, snd size / scale))"

definition mapToBuffer :: "surface_env \<Rightarrow> surface \<Rightarrow> nat \<Rightarrow> real region \<Rightarrow> int region" where
  "mapToBuffer env sf b region =
     (if Region_isEmpty region then Region_new
      else let t = bufferTransform (current sf);
               sourceBox = transform_rectF (inverted t) (bufferSourceBox sf) (sizeF (buffer_size env b));
               xScale = Rect_width sourceBox / fst (surfaceSize sf);
               yScale = Rect_height sourceBox / snd (surfaceSize sf)
           in foldl (\<lambda>result rect. Region_unitedRect result (RectF_roundedOut
                  (Rect_translate (m_left (bufferSourceBox sf), m_top (bufferSourceBox sf))
                     (transform_rectF t (RectF_scaled xScale yScale rect) (Rect_width sourceBox, Rect_height sourceBox)))))
                Region_new (Region_rects region))"

text \<open>What \<open>applyState\<close> derives from the current state when there is a buffer, and when there is none.\<close>

definition buffer_geometry :: "surface_env \<Rightarrow> nat \<Rightarrow> surface \<Rightarrow> surface" where
  "buffer_geometry env b sf =
     (let st = current sf;
          sf1 = sf\<lparr>bufferSourceBox := computeBufferSourceBox env st b, surfaceSize := computeSurfaceSize env st b (serverScale sf)\<rparr>;
          k = 1 / serverScale sf;
          surfaceRect = rectF_at_origin (surfaceSize sf1);
          bufferRect = Rect_make 0 0 (fst (buffer_size env b)) (snd (buffer_size env b));
          damaged = mapToBuffer env sf1 b (Region_intersectedRect (RegionF_scaled k k (damage st)) surfaceRect)
      in sf1\<lparr>inputRegion := Region_intersectedRect (RegionF_scaled k k (input st)) surfaceRect,
             opaqueRegion := (if \<not> hasAlphaChannel env b then Region_of_Rect surfaceRect
                              else Region_intersectedRect (RegionF_scaled k k (opaque st)) surfaceRect),
             surface_bufferDamage := Region_intersectedRect (Region_united (bufferDamage st) damaged) bufferRect,
             current := st\<lparr>damage := Region_new, bufferDamage := Region_new\<rparr>\<rparr>)"

definition no_geometry :: "surface \<Rightarrow> surface" where
  "no_geometry sf =
     sf\<lparr>surfaceSize := (0, 0), bufferSourceBox := Rect_null, surface_bufferDamage := Region_new,
        inputRegion := Region_new, opaqueRegion := Region_new\<rparr>"

section \<open>Applying a state\<close>

text \<open>An unmapped surface drops its feedback and barrier, and those of the surfaces of its children.\<close>

definition clear_presentation :: "nat \<Rightarrow> store \<Rightarrow> store option" where
  "clear_presentation s h =
     update_surface s (\<lambda>sf. sf\<lparr>current := (current sf)\<lparr>presentationFeedback := None, fifoBarrier := False\<rparr>\<rparr>) h"

definition clear_child_presentation :: "nat \<Rightarrow> store \<Rightarrow> store option" where
  "clear_child_presentation c h = do { p \<leftarrow> sub_surface h c; s \<leftarrow> p; clear_presentation s h }"

definition parentApplyState :: "nat \<Rightarrow> store \<Rightarrow> store option" where
  "parentApplyState c h = do {
     d \<leftarrow> subsurfaces h c;
     parent \<leftarrow> surfaces h (d_parent d);
     if Field_SubsurfacePosition \<in> committed (current parent)
     then (let pos = (case sub_position (current parent) c of None \<Rightarrow> (0, 0) | Some pos \<Rightarrow> pos)
           in if d_position d \<noteq> pos
              then map_option (emit_surface (PositionChanged c pos)) (update_subsurface c (\<lambda>d. d\<lparr>d_position := pos\<rparr>) h)
              else Some h)
     else Some h
   }"

text \<open>
  The signals of a state that is applied, in the order of the code: \<open>old\<close> is the surface before,
  \<open>sf\<close> the surface with its new geometry, and \<open>st\<close> the state that is applied.
\<close>

definition state_signals :: "nat \<Rightarrow> surface \<Rightarrow> surface_state \<Rightarrow> surface \<Rightarrow> surface_signal list" where
  "state_signals s old st sf =
     (let changed = committed st; cur = current old;
          colorChanged = (Field_ColorDescription \<in> changed \<and>
            (colorDescription cur \<noteq> colorDescription st \<or> renderingIntent cur \<noteq> renderingIntent st));
          yuvChanged = (Field_YuvCoefficients \<in> changed \<and> yuvCoefficients cur \<noteq> yuvCoefficients st)
      in concat [
        if Field_Opaque \<in> changed then [OpaqueChanged s] else [],
        if \<not> Region_eq (inputRegion old) (inputRegion sf) then [InputChanged s] else [],
        if Field_BufferTransform \<in> changed \<and> bufferTransform cur \<noteq> bufferTransform st then [BufferTransformChanged s] else [],
        if bufferSourceBox sf \<noteq> bufferSourceBox old then [BufferSourceBoxChanged s] else [],
        if Field_Buffer \<in> changed \<and> buffer cur \<noteq> buffer st then [BufferChanged s] else [],
        if surfaceSize sf \<noteq> surfaceSize old then [SizeChanged s] else [],
        if Field_Shadow \<in> changed then [ShadowChanged s] else [],
        if Field_Blur \<in> changed then [BlurChanged s] else [],
        if Field_Slide \<in> changed then [SlideChanged s] else [],
        if Field_SubsurfaceOrder \<in> changed then [ChildSubSurfacesChanged s] else [],
        if colorChanged \<or> yuvChanged then [ColorDescriptionChanged s] else [],
        if Field_PresentationModeHint \<in> changed then [PresentationModeHintChanged s] else [],
        if Field_Buffer \<in> changed \<and> releasePoint cur \<noteq> releasePoint st then [BufferReleasePointChanged s] else [],
        if Field_AlphaMultiplier \<in> changed then [AlphaMultiplierChanged s] else [],
        if \<not> Region_isEmpty (surface_bufferDamage sf) then [Damaged s (surface_bufferDamage sf)] else []])"

definition recolor :: "surface_env \<Rightarrow> surface_state \<Rightarrow> surface \<Rightarrow> surface \<Rightarrow> surface" where
  "recolor env st old sf =
     (let cur = current old
      in if Field_ColorDescription \<in> committed st \<and>
              (colorDescription cur \<noteq> colorDescription st \<or> renderingIntent cur \<noteq> renderingIntent st) \<or>
            Field_YuvCoefficients \<in> committed st \<and> yuvCoefficients cur \<noteq> yuvCoefficients st
         then sf\<lparr>current := (current sf)\<lparr>colorDescription :=
                withYuvCoefficients env (colorDescription (current sf)) (yuvCoefficients (current sf)) (encodingRange (current sf))\<rparr>\<rparr>
         else sf)"

definition merged_surface :: "surface_env \<Rightarrow> surface_state \<Rightarrow> surface \<Rightarrow> surface" where
  "merged_surface env st sf =
     (let cur = mergeInto (createState env) st (current sf);
          sf1 = sf\<lparr>current := cur, bufferRef := buffer cur\<rparr>
      in (case buffer cur of None \<Rightarrow> no_geometry sf1 | Some b \<Rightarrow> buffer_geometry env b sf1))"

definition applyState :: "surface_env \<Rightarrow> nat \<Rightarrow> surface_state \<Rightarrow> store \<Rightarrow> store option" where
  "applyState env s st h = do {
     old \<leftarrow> surfaces h s;
     let visibilityChanged = (Field_Buffer \<in> committed st \<and> (buffer (current old) = None) \<noteq> (buffer st = None));
     let sf = merged_surface env st old;
     h1 \<leftarrow> update_surface s (\<lambda>_. sf) h;
     let h2 = (case (bufferRef sf, releasePoint (current sf)) of
                 (Some b, Some r) \<Rightarrow> emit_surface (ReleasePointAdded b r) h1
               | _ \<Rightarrow> h1);
     h3 \<leftarrow> (if visibilityChanged then updateEffectiveMapped s h2 else Some h2);
     sf3 \<leftarrow> surfaces h3 s;
     h4 \<leftarrow> (if mapped sf3 then Some h3
            else clear_presentation s h3 \<bind> each_object clear_child_presentation (children_of (current sf3)));
     let h5 = fold emit_surface (state_signals s old st sf3) h4;
     h6 \<leftarrow> update_surface s (recolor env st old) h5;
     h7 \<leftarrow> each_object parentApplyState (children_of (current sf3)) h6;
     Some (emit_surface (Committed s) (emit_surface (ExtensionsApplied s (extensions (current sf3))) h7))
   }"

end
