(* ===== verification/Transactions.thy ===== *)
theory Transactions
  imports Surfaces
begin

text \<open>
  \<open>Transaction\<close> of \<open>src/kde-kwin/src/wayland/transaction.cpp\<close>: states of several surfaces that are applied
  together, in the order of their commits for each surface, and not before buffers, fences and barriers
  allow it. Applying one transaction tries to apply others from inside its loop over the entries; a
  transaction that is deleted there while an outer loop still uses it makes the outer loop return \<open>None\<close>.
  \<open>std::sort\<close> is \<open>sort_entries\<close> of the environment.
\<close>

section \<open>Entries\<close>

definition update_entries :: "nat \<Rightarrow> (entry list \<Rightarrow> entry list) \<Rightarrow> store \<Rightarrow> store option" where
  "update_entries t f h =
     (case transactions h t of None \<Rightarrow> None | Some es \<Rightarrow> Some (h\<lparr>transactions := (transactions h)(t \<mapsto> f es)\<rparr>))"

definition update_entry :: "nat \<Rightarrow> nat \<Rightarrow> (entry \<Rightarrow> entry) \<Rightarrow> store \<Rightarrow> store option" where
  "update_entry t i f = update_entries t (\<lambda>es. es[i := f (es ! i)])"

definition isDiscarded :: "store \<Rightarrow> entry \<Rightarrow> bool" where
  "isDiscarded h e \<longleftrightarrow>
     (case surfaces h (e_surface e) of
        None \<Rightarrow> True
      | Some sf \<Rightarrow> m_tearingDown sf \<or> client_tearingDown h (surface_client sf))"

text \<open>Whether an entry keeps its transaction from being applied, the lambda of \<open>isReady\<close>.\<close>

definition entry_waits :: "store \<Rightarrow> entry \<Rightarrow> bool option" where
  "entry_waits h e =
     (if previousTransaction e \<noteq> None then Some True
      else if isDiscarded h e then Some False
      else if list_ex snd (fences e) then Some True
      else do {
        sf \<leftarrow> surfaces h (e_surface e);
        generation \<leftarrow> mainSurfaceRoleGeneration h (e_surface e);
        if roleGeneration (e_state e) < generation then Some False
        else Some (hasFifoWaitCondition (e_state e) \<and> fifoBarrier (current sf))
      })"

fun none_waits :: "store \<Rightarrow> entry list \<Rightarrow> bool option" where
  "none_waits h [] = Some True"
| "none_waits h (e # es) = do { w \<leftarrow> entry_waits h e; if w then Some False else none_waits h es }"

definition isReady :: "nat \<Rightarrow> store \<Rightarrow> bool option" where
  "isReady t h = transactions h t \<bind> none_waits h"

definition next_transaction :: "nat \<Rightarrow> nat \<Rightarrow> store \<Rightarrow> nat option option" where
  "next_transaction t s h =
     map_option (\<lambda>es. case filter (\<lambda>e. e_surface e = s \<and> surfaces h s \<noteq> None) es of [] \<Rightarrow> None | e # _ \<Rightarrow> nextTransaction e)
       (transactions h t)"

section \<open>Building a transaction\<close>

definition Transaction_new :: "store \<Rightarrow> nat \<times> store" where
  "Transaction_new h = (next_id h, h\<lparr>transactions := (transactions h)(next_id h \<mapsto> []), next_id := next_id h + 1\<rparr>)"

definition merge_entry :: "surface_env \<Rightarrow> surface_state \<Rightarrow> entry \<Rightarrow> entry" where
  "merge_entry env pend e =
     (let e1 = (if Field_Buffer \<in> committed pend then e\<lparr>e_buffer := buffer pend\<rparr> else e)
      in e1\<lparr>e_state := mergeInto (createState env) pend (e_state e1)\<rparr>)"

definition new_entry :: "surface_env \<Rightarrow> nat \<Rightarrow> surface_state \<Rightarrow> entry" where
  "new_entry env s pend =
     (let state = mergeInto (createState env) pend SurfaceState_new
      in \<lparr>e_surface = s, previousTransaction = None, nextTransaction = None, e_buffer = buffer state,
          e_state = state, fences = []\<rparr>)"

text \<open>The first entry of the surface takes the pending state, or a new one at the end does.\<close>

fun add_entry :: "surface_env \<Rightarrow> nat \<Rightarrow> surface_state \<Rightarrow> entry list \<Rightarrow> entry list" where
  "add_entry env s pend [] = [new_entry env s pend]"
| "add_entry env s pend (e # es) =
     (if e_surface e = s then merge_entry env pend e # es else e # add_entry env s pend es)"

definition Transaction_add :: "surface_env \<Rightarrow> nat \<Rightarrow> nat \<Rightarrow> store \<Rightarrow> store option" where
  "Transaction_add env t s h = do {
     sf \<leftarrow> surfaces h s;
     h1 \<leftarrow> update_entries t (add_entry env s (pending sf)) h;
     update_surface s (\<lambda>sf. sf\<lparr>pending := mergedFrom (createState env) (pending sf)\<rparr>) h1
   }"

definition Transaction_amend :: "nat \<Rightarrow> nat \<Rightarrow> (surface_state \<Rightarrow> surface_state) \<Rightarrow> store \<Rightarrow> store option" where
  "Transaction_amend t s mutator =
     update_entries t (map (\<lambda>e. if e_surface e = s then e\<lparr>e_state := mutator (e_state e)\<rparr> else e))"

text \<open>The entries of \<open>other\<close> are moved to the end; nothing looks for entries of the same surface.\<close>

definition Transaction_merge :: "nat \<Rightarrow> nat \<Rightarrow> store \<Rightarrow> store option" where
  "Transaction_merge t other h = do {
     es \<leftarrow> transactions h other;
     h1 \<leftarrow> update_entries t (\<lambda>mine. mine @ es) h;
     update_entries other (\<lambda>_. []) h1
   }"

section \<open>Applying\<close>

text \<open>The order for \<open>std::sort\<close>: descendants first. A surface that is null goes last.\<close>

definition entry_less :: "surface_env \<Rightarrow> store \<Rightarrow> entry \<Rightarrow> entry \<Rightarrow> bool option" where
  "entry_less env h a b =
     (let sa = e_surface a; sb = e_surface b
      in if surfaces h sa = None then Some False
         else if surfaces h sb = None then Some True
         else do {
           ab \<leftarrow> isAncestor h sa (Some sb);
           if ab then Some True
           else do {
             ba \<leftarrow> isAncestor h sb (Some sa);
             if ba then Some False
             else do {
               ma \<leftarrow> mainSurface h sa;
               mb \<leftarrow> mainSurface h sb;
               Some (pointer_less env ma mb)
             }
           }
         })"

text \<open>If a comparison of two different entries does not return, the sort does not.\<close>

definition sorted_entries :: "surface_env \<Rightarrow> store \<Rightarrow> entry list \<Rightarrow> entry list option" where
  "sorted_entries env h es =
     (if list_all (\<lambda>i. list_all (\<lambda>j. i = j \<or> entry_less env h (es ! i) (es ! j) \<noteq> None) [0..<length es]) [0..<length es]
      then Some (sort_entries env (\<lambda>a b. entry_less env h a b = Some True) es)
      else None)"

text \<open>The first loop of \<open>apply\<close>, from the entry with the number \<open>i\<close> on.\<close>

definition apply_entry :: "surface_env \<Rightarrow> nat \<Rightarrow> nat \<Rightarrow> store \<Rightarrow> store option" where
  "apply_entry env t i h = do {
     es \<leftarrow> transactions h t;
     let e = es ! i;
     if isDiscarded h e then Some h
     else do {
       h1 \<leftarrow> applyState env (e_surface e) (e_state e) h;
       update_entry t i (\<lambda>e. e\<lparr>e_state := mergedFrom (createState env) (e_state e)\<rparr>) h1
     }
   }"

definition apply_states :: "surface_env \<Rightarrow> nat \<Rightarrow> store \<Rightarrow> store option" where
  "apply_states env t h = do {
     es \<leftarrow> transactions h t;
     es' \<leftarrow> sorted_entries env h es;
     h1 \<leftarrow> update_entries t (\<lambda>_. es') h;
     each_object (apply_entry env t) [0..<length es'] (h1\<lparr>applied := applied h1 @ [t]\<rparr>)
   }"

text \<open>The surface of an entry gets its next transaction.\<close>

definition pop_surface :: "nat \<Rightarrow> entry \<Rightarrow> store \<Rightarrow> store option" where
  "pop_surface t e h =
     (case surfaces h (e_surface e) of
        None \<Rightarrow> Some h
      | Some sf \<Rightarrow>
          update_surface (e_surface e)
            (\<lambda>sf. if lastTransaction sf = Some t then sf\<lparr>firstTransaction := None, lastTransaction := None\<rparr>
                   else sf\<lparr>firstTransaction := nextTransaction e\<rparr>) h)"

text \<open>The first entry whose previous transaction is \<open>t\<close> loses it.\<close>

fun clear_previous :: "nat \<Rightarrow> entry list \<Rightarrow> entry list" where
  "clear_previous t [] = []"
| "clear_previous t (e # es) =
     (if previousTransaction e = Some t then e\<lparr>previousTransaction := None\<rparr> # es else e # clear_previous t es)"

datatype transaction_call = TryApply nat | Apply nat | From_entry nat nat | Children "nat list"

text \<open>
  \<open>tryApply\<close> and \<open>apply\<close> call each other. \<open>From_entry t i\<close> is the last loop of \<open>apply\<close> of the transaction \<open>t\<close> from
  its entry \<open>i\<close> on, and \<open>Children cs\<close> are the loops over the subsurfaces of an unmapped surface.
\<close>

partial_function (option) transaction_run :: "surface_env \<Rightarrow> transaction_call \<Rightarrow> store \<Rightarrow> store option" where
  "transaction_run env c h =
     (case c of
        TryApply t \<Rightarrow> do {
          ready \<leftarrow> isReady t h;
          if ready then transaction_run env (Apply t) h else Some h
        }
      | Apply t \<Rightarrow> do {
          h1 \<leftarrow> apply_states env t h;
          h2 \<leftarrow> transaction_run env (From_entry t 0) h1;
          _ \<leftarrow> transactions h2 t;
          Some (h2\<lparr>transactions := (transactions h2)(t := None)\<rparr>)
        }
      | From_entry t i \<Rightarrow> do {
          es \<leftarrow> transactions h t;
          if length es \<le> i then Some h
          else do {
            let e = es ! i;
            h1 \<leftarrow> pop_surface t e h;
            h2 \<leftarrow> (case nextTransaction e of
                   None \<Rightarrow> Some h1
                 | Some n \<Rightarrow> do {
                     h' \<leftarrow> update_entries n (clear_previous t) h1;
                     transaction_run env (TryApply n) h'
                   });
            h3 \<leftarrow> (case surfaces h2 (e_surface e) of
                   None \<Rightarrow> Some h2
                 | Some sf \<Rightarrow>
                     if mapped sf then Some h2
                     else do {
                       h' \<leftarrow> transaction_run env (Children (sub_below (current sf))) h2;
                       sf' \<leftarrow> surfaces h' (e_surface e);
                       transaction_run env (Children (sub_above (current sf'))) h'
                     });
            transaction_run env (From_entry t (i + 1)) h3
          }
        }
      | Children cs \<Rightarrow>
          (case cs of
             [] \<Rightarrow> Some h
           | k # cs' \<Rightarrow> do {
               p \<leftarrow> sub_surface h k;
               s \<leftarrow> p;
               sf \<leftarrow> surfaces h s;
               h1 \<leftarrow> (case firstTransaction sf of None \<Rightarrow> Some h | Some t \<Rightarrow> transaction_run env (TryApply t) h);
               transaction_run env (Children cs') h1
             }))"

declare transaction_run.simps [code]

definition tryApply :: "surface_env \<Rightarrow> nat \<Rightarrow> store \<Rightarrow> store option" where
  "tryApply env t = transaction_run env (TryApply t)"

definition try_first :: "surface_env \<Rightarrow> surface \<Rightarrow> store \<Rightarrow> store option" where
  "try_first env sf h = (case firstTransaction sf of None \<Rightarrow> Some h | Some t \<Rightarrow> tryApply env t h)"

section \<open>Committing\<close>

text \<open>\<open>watchSyncObj\<close> and \<open>watchDmaBuf\<close>: the new fences of an entry. A new notifier is enabled.\<close>

definition watchSyncObj :: "surface_env \<Rightarrow> entry \<Rightarrow> nat \<Rightarrow> (nat \<times> bool) list" where
  "watchSyncObj env e timeline =
     (case eventFd env timeline (acquirePoint (e_state e)) of
        None \<Rightarrow> []
      | Some fd \<Rightarrow> if isReadable env fd then [] else [(fd, True)])"

definition watchDmaBuf :: "surface_env \<Rightarrow> entry \<Rightarrow> (nat \<times> bool) list option" where
  "watchDmaBuf env e = do {
     b \<leftarrow> e_buffer e;
     Some (if dmabuf_format env b = None then []
           else concat (map (\<lambda>fd. if isReadable env fd then []
                                  else (case exportWaitSyncFile env fd of None \<Rightarrow> [] | Some f \<Rightarrow> [(f, True)]))
                  (dmabuf_fds env b)))
   }"

definition watch_entry :: "surface_env \<Rightarrow> entry \<Rightarrow> entry option" where
  "watch_entry env e =
     (if Field_Buffer \<in> committed (e_state e) \<and> buffer (e_state e) \<noteq> None
      then (case acquireTimeline (e_state e) of
              Some timeline \<Rightarrow> Some (e\<lparr>fences := fences e @ watchSyncObj env e timeline\<rparr>)
            | None \<Rightarrow> map_option (\<lambda>fs. e\<lparr>fences := fences e @ fs\<rparr>) (watchDmaBuf env e))
      else Some e)"

definition set_next :: "nat \<Rightarrow> nat \<Rightarrow> entry list \<Rightarrow> entry list" where
  "set_next s t = map (\<lambda>e. if e_surface e = s then e\<lparr>nextTransaction := Some t\<rparr> else e)"

text \<open>The loop of \<open>commit\<close> for the entry with the number \<open>i\<close>.\<close>

definition commit_entry :: "surface_env \<Rightarrow> nat \<Rightarrow> nat \<Rightarrow> store \<Rightarrow> store option" where
  "commit_entry env t i h = do {
     es \<leftarrow> transactions h t;
     let s = e_surface (es ! i);
     (case surfaces h s of
        None \<Rightarrow> Some h
      | Some sf \<Rightarrow> do {
          e \<leftarrow> watch_entry env (es ! i);
          h1 \<leftarrow> update_entry t i (\<lambda>_. e) h;
          h2 \<leftarrow> (if firstTransaction sf \<noteq> None
                 then do { l \<leftarrow> lastTransaction sf; update_entries l (set_next s t) h1 }
                 else update_surface s (\<lambda>sf. sf\<lparr>firstTransaction := Some t\<rparr>) h1);
          h3 \<leftarrow> update_entry t i (\<lambda>e. e\<lparr>previousTransaction := lastTransaction sf\<rparr>) h2;
          update_surface s (\<lambda>sf. sf\<lparr>lastTransaction := Some t\<rparr>) h3
        })
   }"

definition Transaction_commit :: "surface_env \<Rightarrow> nat \<Rightarrow> store \<Rightarrow> store option" where
  "Transaction_commit env t h = do {
     es \<leftarrow> transactions h t;
     h1 \<leftarrow> each_object (commit_entry env t) [0..<length es] h;
     tryApply env t h1
   }"

text \<open>A fence becomes readable.\<close>

definition fence_activated :: "surface_env \<Rightarrow> nat \<Rightarrow> nat \<Rightarrow> nat \<Rightarrow> store \<Rightarrow> store option" where
  "fence_activated env t i j h =
     update_entry t i (\<lambda>e. e\<lparr>fences := (fences e)[j := (fst (fences e ! j), False)]\<rparr>) h \<bind> tryApply env t"

definition clearFifoBarrier :: "surface_env \<Rightarrow> nat \<Rightarrow> store \<Rightarrow> store option" where
  "clearFifoBarrier env s h = do {
     sf \<leftarrow> surfaces h s;
     if fifoBarrier (current sf)
     then update_surface s (\<lambda>sf. sf\<lparr>current := (current sf)\<lparr>fifoBarrier := False\<rparr>\<rparr>) h \<bind> try_first env sf
     else Some h
   }"

definition nextRoleGeneration :: "surface_env \<Rightarrow> nat \<Rightarrow> store \<Rightarrow> store option" where
  "nextRoleGeneration env s h = do {
     sf \<leftarrow> surfaces h s;
     update_surface s (\<lambda>sf. sf\<lparr>mainRoleGeneration := mainRoleGeneration sf + 1\<rparr>) h \<bind> try_first env sf
   }"

end
