(* ===== verification/SurfaceRequests.thy ===== *)
theory SurfaceRequests
  imports Transactions
begin

text \<open>
  The requests of clients that change surfaces and subsurfaces: \<open>wl_surface\<close> in
  \<open>src/kde-kwin/src/wayland/surface.cpp\<close>, \<open>wl_subcompositor\<close> and \<open>wl_subsurface\<close> in \<open>subcompositor.cpp\<close>, with
  the constructors and destructors behind them. A request that posts a protocol error records
  \<open>ProtocolError\<close>; the client is then disconnected.
\<close>

section \<open>Children\<close>

text \<open>\<open>for (transaction = firstTransaction; transaction; transaction = transaction->next(q)) amend\<close>\<close>

partial_function (option) amend_chain ::
    "nat option \<Rightarrow> nat \<Rightarrow> (surface_state \<Rightarrow> surface_state) \<Rightarrow> store \<Rightarrow> store option" where
  "amend_chain t s mutator h =
     (case t of
        None \<Rightarrow> Some h
      | Some t \<Rightarrow> do {
          h1 \<leftarrow> Transaction_amend t s mutator h;
          n \<leftarrow> next_transaction t s h1;
          amend_chain n s mutator h1
        })"

declare amend_chain.simps [code]

definition amend_queued :: "nat \<Rightarrow> surface \<Rightarrow> (surface_state \<Rightarrow> surface_state) \<Rightarrow> store \<Rightarrow> store option" where
  "amend_queued s sf mutator h = do {
     h1 \<leftarrow> (case subsurface_transaction sf of None \<Rightarrow> Some h | Some t \<Rightarrow> Transaction_amend t s mutator h);
     amend_chain (firstTransaction sf) s mutator h1
   }"

definition append_child :: "nat \<Rightarrow> surface_state \<Rightarrow> surface_state" where
  "append_child c st = st\<lparr>sub_above := sub_above st @ [c]\<rparr>"

text \<open>The outputs, scales and colours that a child takes over from its parent are left out.\<close>

definition addChild :: "nat \<Rightarrow> nat \<Rightarrow> store \<Rightarrow> store option" where
  "addChild s c h = do {
     sf \<leftarrow> surfaces h s;
     h1 \<leftarrow> update_surface s (\<lambda>sf. sf\<lparr>current := append_child c (current sf), pending := append_child c (pending sf)\<rparr>) h;
     h2 \<leftarrow> amend_queued s sf (append_child c) h1;
     Some (emit_surface (ChildSubSurfacesChanged s) (emit_surface (ChildAdded s c) h2))
   }"

definition remove_child_all :: "nat \<Rightarrow> surface_state \<Rightarrow> surface_state" where
  "remove_child_all c st = st\<lparr>sub_below := removeAll c (sub_below st), sub_above := removeAll c (sub_above st)\<rparr>"

definition remove_child_one :: "nat \<Rightarrow> surface_state \<Rightarrow> surface_state" where
  "remove_child_one c st = st\<lparr>sub_below := remove1 c (sub_below st), sub_above := remove1 c (sub_above st)\<rparr>"

definition removeChild :: "nat \<Rightarrow> nat \<Rightarrow> store \<Rightarrow> store option" where
  "removeChild s c h = do {
     sf \<leftarrow> surfaces h s;
     h1 \<leftarrow> update_surface s (\<lambda>sf. sf\<lparr>current := remove_child_all c (current sf), pending := remove_child_all c (pending sf)\<rparr>) h;
     h2 \<leftarrow> amend_queued s sf (remove_child_one c) h1;
     Some (emit_surface (ChildSubSurfacesChanged s) (emit_surface (ChildRemoved s c) h2))
   }"

text \<open>
  Moving a child next to an anchor in the pending lists; the handle of the anchor is null if it is no
  subsurface. The first component says whether the anchor was found.
\<close>

definition raiseChild :: "nat \<Rightarrow> nat \<Rightarrow> nat option \<Rightarrow> nat \<Rightarrow> surface_state \<Rightarrow> bool \<times> surface_state" where
  "raiseChild q anchor handle c st =
     (let st1 = remove_child_one c st;
          find = (\<lambda>xs. case handle of None \<Rightarrow> -1 | Some a \<Rightarrow> index_of xs a);
          placed = (\<lambda>st. st\<lparr>committed := insert Field_SubsurfaceOrder (committed st)\<rparr>)
      in if anchor = q then (True, placed (st1\<lparr>sub_above := insert_at 0 c (sub_above st1)\<rparr>))
         else if find (sub_above st1) \<noteq> -1
         then (True, placed (st1\<lparr>sub_above := insert_at (nat (find (sub_above st1) + 1)) c (sub_above st1)\<rparr>))
         else if find (sub_below st1) \<noteq> -1
         then (True, placed (st1\<lparr>sub_below := insert_at (nat (find (sub_below st1) + 1)) c (sub_below st1)\<rparr>))
         else (False, st1))"

definition lowerChild :: "nat \<Rightarrow> nat \<Rightarrow> nat option \<Rightarrow> nat \<Rightarrow> surface_state \<Rightarrow> bool \<times> surface_state" where
  "lowerChild q anchor handle c st =
     (let st1 = remove_child_one c st;
          find = (\<lambda>xs. case handle of None \<Rightarrow> -1 | Some a \<Rightarrow> index_of xs a);
          placed = (\<lambda>st. st\<lparr>committed := insert Field_SubsurfaceOrder (committed st)\<rparr>)
      in if anchor = q then (True, placed (st1\<lparr>sub_below := insert_at (length (sub_below st1)) c (sub_below st1)\<rparr>))
         else if find (sub_above st1) \<noteq> -1
         then (True, placed (st1\<lparr>sub_above := insert_at (nat (find (sub_above st1))) c (sub_above st1)\<rparr>))
         else if find (sub_below st1) \<noteq> -1
         then (True, placed (st1\<lparr>sub_below := insert_at (nat (find (sub_below st1))) c (sub_below st1)\<rparr>))
         else (False, st1))"

section \<open>Requests of subsurfaces\<close>

definition subsurface_set_position :: "int \<Rightarrow> int \<Rightarrow> nat \<Rightarrow> store \<Rightarrow> store option" where
  "subsurface_set_position x y c h = do {
     p \<leftarrow> parentSurface h c;
     (case p of
        None \<Rightarrow> Some (emit_surface ProtocolError h)
      | Some p \<Rightarrow> update_surface p (\<lambda>sf. sf\<lparr>pending := (pending sf)
            \<lparr>sub_position := (sub_position (pending sf))(c \<mapsto> (of_int x / clientToCompositorScale sf, of_int y / clientToCompositorScale sf)),
             committed := insert Field_SubsurfacePosition (committed (pending sf))\<rparr>\<rparr>) h)
   }"

text \<open>\<open>place_above\<close> with \<open>raiseChild\<close> and \<open>place_below\<close> with \<open>lowerChild\<close>; \<open>sibling\<close> is null if it is no surface.\<close>

definition subsurface_place ::
    "(nat \<Rightarrow> nat \<Rightarrow> nat option \<Rightarrow> nat \<Rightarrow> surface_state \<Rightarrow> bool \<times> surface_state) \<Rightarrow> nat option \<Rightarrow> nat \<Rightarrow> store \<Rightarrow> store option" where
  "subsurface_place place sibling c h =
     (case sibling of
        None \<Rightarrow> Some (emit_surface ProtocolError h)
      | Some a \<Rightarrow> do {
          p \<leftarrow> parentSurface h c;
          (case p of
             None \<Rightarrow> Some (emit_surface ProtocolError h)
           | Some p \<Rightarrow> do {
               sa \<leftarrow> surfaces h a;
               sf \<leftarrow> surfaces h p;
               let (found, st) = place p a (subsurface_handle sa) c (pending sf);
               h1 \<leftarrow> update_surface p (\<lambda>sf. sf\<lparr>pending := st\<rparr>) h;
               Some (if found then h1 else emit_surface ProtocolError h1)
             })
        })"

definition subsurface_place_above :: "nat option \<Rightarrow> nat \<Rightarrow> store \<Rightarrow> store option" where
  "subsurface_place_above = subsurface_place raiseChild"

definition subsurface_place_below :: "nat option \<Rightarrow> nat \<Rightarrow> store \<Rightarrow> store option" where
  "subsurface_place_below = subsurface_place lowerChild"

definition subsurface_set_sync :: "nat \<Rightarrow> store \<Rightarrow> store option" where
  "subsurface_set_sync c h = do {
     d \<leftarrow> subsurfaces h c;
     if d_mode d = Synchronized then Some h
     else map_option (emit_surface (ModeChanged c Synchronized)) (update_subsurface c (\<lambda>d. d\<lparr>d_mode := Synchronized\<rparr>) h)
   }"

text \<open>\<open>parentDesynchronized\<close> of these subsurfaces: cached states are committed, from the top down.\<close>

partial_function (option) parentDesynchronized :: "surface_env \<Rightarrow> nat list \<Rightarrow> store \<Rightarrow> store option" where
  "parentDesynchronized env cs h =
     (case cs of
        [] \<Rightarrow> Some h
      | c # cs' \<Rightarrow> do {
          d \<leftarrow> subsurfaces h c;
          h2 \<leftarrow> (if d_mode d = Synchronized then Some h
                 else do {
                   let s = d_surface d;
                   sf \<leftarrow> surfaces h s;
                   h1 \<leftarrow> (case subsurface_transaction sf of
                          None \<Rightarrow> Some h
                        | Some t \<Rightarrow> Transaction_commit env t h \<bind> update_surface s (\<lambda>sf. sf\<lparr>subsurface_transaction := None\<rparr>));
                   sf1 \<leftarrow> surfaces h1 s;
                   h' \<leftarrow> parentDesynchronized env (sub_below (current sf1)) h1;
                   sf' \<leftarrow> surfaces h' s;
                   parentDesynchronized env (sub_above (current sf')) h'
                 });
          parentDesynchronized env cs' h2
        })"

declare parentDesynchronized.simps [code]

definition subsurface_set_desync :: "surface_env \<Rightarrow> nat \<Rightarrow> store \<Rightarrow> store option" where
  "subsurface_set_desync env c h = do {
     d \<leftarrow> subsurfaces h c;
     if d_mode d = Desynchronized then Some h
     else do {
       h1 \<leftarrow> update_subsurface c (\<lambda>d. d\<lparr>d_mode := Desynchronized\<rparr>) h;
       sync \<leftarrow> isSynchronized h1 c;
       h2 \<leftarrow> (if sync then Some h1 else parentDesynchronized env [c] h1);
       Some (emit_surface (ModeChanged c Desynchronized) h2)
     }
   }"

section \<open>Creation and destruction\<close>

text \<open>The constructor of \<open>SurfaceInterface\<close>; \<open>scale\<close> is the scale override of the client.\<close>

definition Surface_new :: "nat \<Rightarrow> real \<Rightarrow> store \<Rightarrow> store" where
  "Surface_new client scale h =
     h\<lparr>surfaces := (surfaces h)(next_id h \<mapsto>
          \<lparr>current = SurfaceState_new, pending = SurfaceState_new, bufferSourceBox = Rect_null, surfaceSize = (0, 0),
           inputRegion = Region_new, opaqueRegion = Region_new, bufferRef = None, surface_bufferDamage = Region_new,
           mapped = False, serverScale = scale, clientToCompositorScale = 1, firstTransaction = None,
           lastTransaction = None, subsurface_handle = None, subsurface_transaction = None, surface_role = None,
           mainRoleGeneration = 0, m_tearingDown = False, surface_client = client, hasColorSurface = False,
           hasColorRepresentation = False\<rparr>),
       next_id := next_id h + 1\<rparr>"

definition store_new :: store where
  "store_new = \<lparr>surfaces = (\<lambda>s. None), subsurfaces = (\<lambda>c. None), transactions = (\<lambda>t. None), next_id = 0,
     client_tearingDown = (\<lambda>c. False), surface_signals = [], applied = []\<rparr>"

definition SubSurface_new :: "nat \<Rightarrow> nat \<Rightarrow> store \<Rightarrow> store option" where
  "SubSurface_new s p h = do {
     let c = next_id h;
     let h1 = h\<lparr>subsurfaces := (subsurfaces h)(c \<mapsto> \<lparr>d_surface = s, d_parent = p, d_position = (0, 0), d_mode = Synchronized\<rparr>),
               next_id := c + 1\<rparr>;
     h2 \<leftarrow> update_surface s (\<lambda>sf. sf\<lparr>subsurface_handle := Some c\<rparr>) h1;
     addChild p c h2
   }"

definition get_subsurface :: "surface_env \<Rightarrow> nat option \<Rightarrow> nat option \<Rightarrow> store \<Rightarrow> store option" where
  "get_subsurface env surface parent h =
     (case (surface, parent) of
        (Some s, Some p) \<Rightarrow> do {
          sf \<leftarrow> surfaces h s;
          if surface_role sf \<noteq> None \<and> surface_role sf \<noteq> Some SubSurface_role then Some (emit_surface ProtocolError h)
          else do {
            h1 \<leftarrow> update_surface s (\<lambda>sf. sf\<lparr>surface_role := Some SubSurface_role\<rparr>) h;
            h2 \<leftarrow> nextRoleGeneration env s h1;
            if s = p then Some (emit_surface ProtocolError h2)
            else do {
              ps \<leftarrow> surfaces h2 p;
              ancestor \<leftarrow> (case subsurface_handle ps of
                  None \<Rightarrow> Some False
                | Some handle \<Rightarrow> map_option (\<lambda>main. main = Some s) (sub_mainSurface h2 handle));
              if ancestor then Some (emit_surface ProtocolError h2) else SubSurface_new s p h2
            }
          }
        }
      | _ \<Rightarrow> Some (emit_surface ProtocolError h))"

text \<open>The destructor of \<open>SubSurfaceInterface\<close>.\<close>

definition SubSurface_delete :: "surface_env \<Rightarrow> nat \<Rightarrow> store \<Rightarrow> store option" where
  "SubSurface_delete env c h = do {
     d \<leftarrow> subsurfaces h c;
     h1 \<leftarrow> (if surfaces h (d_parent d) = None then Some h else removeChild (d_parent d) c h);
     h2 \<leftarrow> (case surfaces h1 (d_surface d) of
            None \<Rightarrow> Some h1
          | Some sf \<Rightarrow> do {
              h' \<leftarrow> update_surface (d_surface d) (\<lambda>sf. sf\<lparr>subsurface_handle := None, subsurface_transaction := None\<rparr>) h1;
              let h'' = (case subsurface_transaction sf of
                           None \<Rightarrow> h' | Some t \<Rightarrow> h'\<lparr>transactions := (transactions h')(t := None)\<rparr>);
              nextRoleGeneration env (d_surface d) h''
            });
     Some (h2\<lparr>subsurfaces := (subsurfaces h2)(c := None)\<rparr>)
   }"

text \<open>
  The destructor of \<open>SurfaceInterface\<close>: after it has run, pointers to the surface are null, and the
  signal \<open>destroyed\<close> deletes the subsurfaces of the surface, here given in the order of their creation.
\<close>

definition Surface_delete :: "surface_env \<Rightarrow> nat list \<Rightarrow> nat \<Rightarrow> store \<Rightarrow> store option" where
  "Surface_delete env handles s h = do {
     sf \<leftarrow> surfaces h s;
     h1 \<leftarrow> update_surface s (\<lambda>sf. sf\<lparr>m_tearingDown := True\<rparr>) h;
     h2 \<leftarrow> try_first env sf h1;
     sf2 \<leftarrow> surfaces h2 s;
     let h3 = (case subsurface_transaction sf2 of
                 None \<Rightarrow> h2 | Some t \<Rightarrow> h2\<lparr>transactions := (transactions h2)(t := None)\<rparr>);
     each_object (SubSurface_delete env) handles (h3\<lparr>surfaces := (surfaces h3)(s := None)\<rparr>)
   }"

section \<open>Extensions and scales\<close>

definition update_pending :: "nat \<Rightarrow> (surface \<Rightarrow> surface_state \<Rightarrow> surface_state) \<Rightarrow> store \<Rightarrow> store option" where
  "update_pending s f = update_surface s (\<lambda>sf. sf\<lparr>pending := f sf (pending sf)\<rparr>)"

text \<open>\<open>emplace\<close> keeps the state that an extension already has.\<close>

definition addExtension :: "surface_env \<Rightarrow> nat \<Rightarrow> nat \<Rightarrow> store \<Rightarrow> store option" where
  "addExtension env e s = update_pending s (\<lambda>sf st.
     if extensions st e = None then st\<lparr>extensions := (extensions st)(e \<mapsto> createState env e)\<rparr> else st)"

definition erase_extension :: "nat \<Rightarrow> surface_state \<Rightarrow> surface_state" where
  "erase_extension e st = st\<lparr>extensions := (extensions st)(e := None)\<rparr>"

definition removeExtension :: "nat \<Rightarrow> nat \<Rightarrow> store \<Rightarrow> store option" where
  "removeExtension e s h = do {
     h1 \<leftarrow> update_pending s (\<lambda>sf. erase_extension e) h;
     sf \<leftarrow> surfaces h1 s;
     amend_queued s sf (erase_extension e) h1
   }"

text \<open>
  The scale override of the client changes, and the requests of \<open>xx_fractional_scale_v2\<close> in
  \<open>fractionalscale_v2.cpp\<close>; \<open>surface\<close> is null after the surface was destroyed.
\<close>

definition scaleOverrideChanged :: "real \<Rightarrow> nat \<Rightarrow> store \<Rightarrow> store option" where
  "scaleOverrideChanged scale s = update_surface s (\<lambda>sf. sf\<lparr>serverScale := scale\<rparr>)"

definition fractional_set_scale_factor :: "32 word \<Rightarrow> nat option \<Rightarrow> store \<Rightarrow> store option" where
  "fractional_set_scale_factor scale_8_24 surface h =
     (case surface of
        None \<Rightarrow> Some (emit_surface ProtocolError h)
      | Some s \<Rightarrow> update_surface s (\<lambda>sf. sf\<lparr>clientToCompositorScale := of_int (uint scale_8_24) / 2 ^ 24\<rparr>) h)"

definition FractionalScaleV2_delete :: "nat option \<Rightarrow> store \<Rightarrow> store option" where
  "FractionalScaleV2_delete surface h =
     (case surface of None \<Rightarrow> Some h | Some s \<Rightarrow> update_surface s (\<lambda>sf. sf\<lparr>clientToCompositorScale := 1\<rparr>) h)"

section \<open>Requests of surfaces\<close>

text \<open>\<open>versioned\<close>: the client is new enough for the request \<open>offset\<close>.\<close>

definition surface_attach :: "bool \<Rightarrow> nat option \<Rightarrow> int \<Rightarrow> int \<Rightarrow> nat \<Rightarrow> store \<Rightarrow> store option" where
  "surface_attach versioned buf x y s h =
     (if versioned \<and> (x \<noteq> 0 \<or> y \<noteq> 0) then Some (emit_surface ProtocolError h)
      else update_pending s (\<lambda>sf st.
             (if versioned then st
              else st\<lparr>offset := (of_int x / clientToCompositorScale sf, of_int y / clientToCompositorScale sf)\<rparr>)
             \<lparr>committed := insert Field_Buffer (committed st), buffer := buf\<rparr>) h)"

definition surface_damage :: "int \<Rightarrow> int \<Rightarrow> int \<Rightarrow> int \<Rightarrow> nat \<Rightarrow> store \<Rightarrow> store option" where
  "surface_damage x y w k s =
     update_pending s (\<lambda>sf st. st\<lparr>damage := Region_unitedRect (damage st) (RectF_of_Rect (Rect_make x y w k))\<rparr>)"

definition surface_damage_buffer :: "int \<Rightarrow> int \<Rightarrow> int \<Rightarrow> int \<Rightarrow> nat \<Rightarrow> store \<Rightarrow> store option" where
  "surface_damage_buffer x y w k s =
     update_pending s (\<lambda>sf st. st\<lparr>bufferDamage := Region_unitedRect (bufferDamage st) (Rect_make x y w k)\<rparr>)"

definition surface_frame :: "nat \<Rightarrow> nat \<Rightarrow> store \<Rightarrow> store option" where
  "surface_frame callback s = update_pending s (\<lambda>sf st. st\<lparr>frameCallbacks := frameCallbacks st @ [callback]\<rparr>)"

definition surface_set_opaque_region :: "int region option \<Rightarrow> nat \<Rightarrow> store \<Rightarrow> store option" where
  "surface_set_opaque_region region s = update_pending s (\<lambda>sf st.
     st\<lparr>opaque := (case region of None \<Rightarrow> Region_new
                   | Some r \<Rightarrow> Region_scaled (1 / clientToCompositorScale sf) (1 / clientToCompositorScale sf) r),
        committed := insert Field_Opaque (committed st)\<rparr>)"

definition surface_set_input_region :: "int region option \<Rightarrow> nat \<Rightarrow> store \<Rightarrow> store option" where
  "surface_set_input_region region s = update_pending s (\<lambda>sf st.
     st\<lparr>input := (case region of None \<Rightarrow> RegionF_infinite
                  | Some r \<Rightarrow> Region_scaled (1 / clientToCompositorScale sf) (1 / clientToCompositorScale sf) r),
        committed := insert Field_Input (committed st)\<rparr>)"

definition surface_set_buffer_transform :: "int \<Rightarrow> nat \<Rightarrow> store \<Rightarrow> store option" where
  "surface_set_buffer_transform transform s h =
     (if transform < 0 \<or> 7 < transform then Some (emit_surface ProtocolError h)
      else update_pending s (\<lambda>sf st. st\<lparr>bufferTransform := Kind transform,
             committed := insert Field_BufferTransform (committed st)\<rparr>) h)"

definition surface_set_buffer_scale :: "int \<Rightarrow> nat \<Rightarrow> store \<Rightarrow> store option" where
  "surface_set_buffer_scale scale s h =
     (if scale < 1 then Some (emit_surface ProtocolError h)
      else update_pending s (\<lambda>sf st. st\<lparr>bufferScale := scale, committed := insert Field_BufferScale (committed st)\<rparr>) h)"

definition surface_offset :: "int \<Rightarrow> int \<Rightarrow> nat \<Rightarrow> store \<Rightarrow> store option" where
  "surface_offset x y s = update_pending s (\<lambda>sf st.
     st\<lparr>offset := (of_int x / clientToCompositorScale sf, of_int y / clientToCompositorScale sf)\<rparr>)"

text \<open>
  The colours that a commit assumes for its buffer if no protocol sets them; the colour descriptions
  \<open>sRGB\<close> and \<open>BT2020PQ\<close> are \<open>0\<close> and \<open>1\<close>.
\<close>

definition default_colors :: "surface_env \<Rightarrow> surface \<Rightarrow> surface_state \<Rightarrow> surface_state" where
  "default_colors env sf st =
     (let format = (case buffer st of None \<Rightarrow> None | Some b \<Rightarrow> dmabuf_format env b);
          (coefficients, range, color) =
            (case format of
               Some NV12 \<Rightarrow> (BT709, Limited, 0)
             | Some XYUV8888 \<Rightarrow> (BT709, Limited, 0)
             | Some P010 \<Rightarrow> (BT2020, Limited, 1)
             | _ \<Rightarrow> (Identity, Full, 0));
          st1 = (if \<not> hasColorRepresentation sf
                 then st\<lparr>yuvCoefficients := coefficients, encodingRange := range,
                         committed := insert Field_YuvCoefficients (committed st)\<rparr> else st)
      in if \<not> hasColorSurface sf
         then st1\<lparr>colorDescription := color, committed := insert Field_ColorDescription (committed st1)\<rparr> else st1)"

text \<open>The cached transactions of the children are merged and deleted.\<close>

definition merge_child :: "nat \<Rightarrow> nat \<Rightarrow> store \<Rightarrow> store option" where
  "merge_child t c h = do {
     p \<leftarrow> sub_surface h c;
     s \<leftarrow> p;
     sf \<leftarrow> surfaces h s;
     (case subsurface_transaction sf of
        None \<Rightarrow> Some h
      | Some other \<Rightarrow> do {
          h1 \<leftarrow> Transaction_merge t other h;
          update_surface s (\<lambda>sf. sf\<lparr>subsurface_transaction := None\<rparr>) (h1\<lparr>transactions := (transactions h1)(other := None)\<rparr>)
        })
   }"

text \<open>\<open>errors\<close>: one of the two protocol objects has posted an error.\<close>

definition surface_commit :: "surface_env \<Rightarrow> bool \<Rightarrow> nat \<Rightarrow> store \<Rightarrow> store option" where
  "surface_commit env errors s h = do {
     sf \<leftarrow> surfaces h s;
     sync \<leftarrow> (case subsurface_handle sf of None \<Rightarrow> Some False | Some handle \<Rightarrow> isSynchronized h handle);
     if errors then Some (emit_surface ProtocolError h)
     else do {
       generation \<leftarrow> mainSurfaceRoleGeneration h s;
       h1 \<leftarrow> update_pending s (\<lambda>sf st.
            let st1 = (if Field_Buffer \<in> committed st \<and> buffer st = None
                       then st\<lparr>damage := Region_new, bufferDamage := Region_new\<rparr> else st);
                st2 = default_colors env sf (st1\<lparr>roleGeneration := generation\<rparr>)
            in if sync then st2\<lparr>hasFifoWaitCondition := False\<rparr> else st2) h;
       (t, h2) \<leftarrow> (case (if sync then subsurface_transaction sf else None) of
            Some t \<Rightarrow> Some (t, h1)
          | None \<Rightarrow>
              let (t, h') = Transaction_new h1
              in if sync then map_option (\<lambda>h'. (t, h')) (update_surface s (\<lambda>sf. sf\<lparr>subsurface_transaction := Some t\<rparr>) h')
                 else Some (t, h'));
       sf2 \<leftarrow> surfaces h2 s;
       h3 \<leftarrow> each_object (merge_child t) (children_of (pending sf2)) h2;
       h4 \<leftarrow> Transaction_add env t s h3;
       if sync then Some h4 else Transaction_commit env t h4
     }
   }"

end
