(* ===== verification/TransactionQueues.thy ===== *)
theory TransactionQueues
  imports "HOL-Library.Multiset"
begin

text \<open>
  The links between transactions, apart from everything else in the store: for each transaction the list
  of its entries with the previous and the next transaction, and for each surface its first and last
  transaction. The specification is a list of the committed transactions in the order of their commits;
  the queue of a surface is the part of that list that touches the surface. Two lemmas carry the proofs:
  taking an entry off the queue of its surface, and putting one at the end.
\<close>

section \<open>Lists\<close>

definition first_of :: "'a list \<Rightarrow> 'a option" where
  "first_of xs = (case xs of [] \<Rightarrow> None | x # _ \<Rightarrow> Some x)"

definition last_of :: "'a list \<Rightarrow> 'a option" where
  "last_of xs = (if xs = [] then None else Some (last xs))"

fun succ_in :: "'a list \<Rightarrow> 'a \<Rightarrow> 'a option" where
  "succ_in (x # y # ys) t = (if x = t then Some y else succ_in (y # ys) t)"
| "succ_in _ t = None"

lemma first_of_simps [simp]: "first_of [] = None" "first_of (x # xs) = Some x"
  by (simp_all add: first_of_def)

lemma last_of_simps [simp]: "last_of [] = None" "last_of (xs @ [x]) = Some x" "last_of (x # y # ys) = last_of (y # ys)" "last_of [x] = Some x"
  by (simp_all add: last_of_def)

lemma succ_in_head: "distinct (t # xs) \<Longrightarrow> succ_in (t # xs) t = first_of xs"
  by (cases xs) simp_all

lemma succ_in_tail: "u \<noteq> t \<Longrightarrow> succ_in (t # xs) u = succ_in xs u"
  by (cases xs) simp_all

lemma succ_in_set: "succ_in xs t = Some n \<Longrightarrow> t \<in> set xs \<and> n \<in> set xs"
  by (induction xs t rule: succ_in.induct) (auto split: if_splits)

lemma succ_in_neq: "distinct xs \<Longrightarrow> succ_in xs t = Some n \<Longrightarrow> n \<noteq> t"
  by (induction xs t rule: succ_in.induct) (auto split: if_splits)

lemma succ_in_snoc:
  "distinct (xs @ [t]) \<Longrightarrow> succ_in (xs @ [t]) u = (if xs \<noteq> [] \<and> u = last xs then Some t else succ_in xs u)"
proof (induction xs)
  case (Cons x xs)
  then show ?case by (cases xs) (auto simp: succ_in_tail)
qed simp

lemma predecessor:
  "distinct xs \<Longrightarrow> t \<in> set xs \<Longrightarrow> first_of xs \<noteq> Some t \<Longrightarrow> \<exists>u \<in> set xs. succ_in xs u = Some t \<and> u \<noteq> t"
proof (induction xs)
  case (Cons x xs)
  then obtain y ys where xs: "xs = y # ys" by (cases xs) auto
  show ?case
  proof (cases "y = t")
    case True
    then show ?thesis using Cons.prems xs by (intro bexI [of _ x]) auto
  next
    case False
    then obtain u where u: "u \<in> set xs" "succ_in xs u = Some t" "u \<noteq> t"
      using Cons.IH Cons.prems xs by auto
    then have "succ_in (x # xs) u = Some t" using Cons.prems(1) by (subst succ_in_tail) auto
    then show ?thesis using u by auto
  qed
qed simp

lemma takeWhile_filter: "P b \<Longrightarrow> takeWhile (\<lambda>x. x \<noteq> b) (filter P xs) = filter P (takeWhile (\<lambda>x. x \<noteq> b) xs)"
  by (induction xs) auto

lemma first_of_before: "first_of (filter P xs) = Some t \<Longrightarrow> v \<in> set (takeWhile (\<lambda>x. x \<noteq> t) xs) \<Longrightarrow> \<not> P v"
  by (induction xs) (auto split: if_splits)

section \<open>Links\<close>

record link =
  l_surface :: nat
  l_prev :: "nat option"
  l_next :: "nat option"

type_synonym link_table = "nat \<Rightarrow> link list option"
type_synonym ends = "nat \<Rightarrow> (nat option \<times> nat option) option"

definition links_of :: "link_table \<Rightarrow> nat \<Rightarrow> link list" where
  "links_of LT t = (case LT t of None \<Rightarrow> [] | Some ls \<Rightarrow> ls)"

text \<open>\<open>d t\<close> is the number of entries of \<open>t\<close> that have been taken off their queues.\<close>

definition rest :: "(nat \<Rightarrow> nat) \<Rightarrow> link_table \<Rightarrow> nat \<Rightarrow> link list" where
  "rest d LT t = drop (d t) (links_of LT t)"

definition touched :: "(nat \<Rightarrow> nat) \<Rightarrow> link_table \<Rightarrow> nat \<Rightarrow> nat set" where
  "touched d LT t = l_surface ` set (rest d LT t)"

definition queue :: "nat list \<Rightarrow> (nat \<Rightarrow> nat) \<Rightarrow> link_table \<Rightarrow> nat \<Rightarrow> nat list" where
  "queue G d LT s = filter (\<lambda>t. s \<in> touched d LT t) G"

definition waits_on :: "link_table \<Rightarrow> nat \<Rightarrow> nat \<Rightarrow> nat" where
  "waits_on LT n t = length (filter (\<lambda>l. l_prev l = Some t) (links_of LT n))"

definition leads_to :: "(nat \<Rightarrow> nat) \<Rightarrow> link_table \<Rightarrow> nat \<Rightarrow> nat \<Rightarrow> nat" where
  "leads_to d LT t n = length (filter (\<lambda>l. l_next l = Some n) (rest d LT t))"

text \<open>
  Each entry knows the next transaction in the queue of its surface. The previous transactions are counted
  only: \<open>apply\<close> clears them in the first entry that it finds, which need not be the one of the same surface.
\<close>

definition queues_ok :: "nat list \<Rightarrow> (nat \<Rightarrow> nat) \<Rightarrow> link_table \<Rightarrow> ends \<Rightarrow> bool" where
  "queues_ok G d LT EN \<longleftrightarrow> distinct G \<and>
     (\<forall>t \<in> set G. LT t \<noteq> None \<and> distinct (map l_surface (links_of LT t))) \<and>
     (\<forall>t \<in> set G. \<forall>l \<in> set (rest d LT t). l_next l = succ_in (queue G d LT (l_surface l)) t) \<and>
     (\<forall>n \<in> set G. \<forall>t. waits_on LT n t = (if t \<in> set G then leads_to d LT t n else 0)) \<and>
     (\<forall>s. EN s \<noteq> None \<longrightarrow> EN s = Some (first_of (queue G d LT s), last_of (queue G d LT s)))"

lemma queues_okD:
  assumes "queues_ok G d LT EN"
  shows "distinct G" "t \<in> set G \<Longrightarrow> LT t \<noteq> None" "t \<in> set G \<Longrightarrow> distinct (map l_surface (links_of LT t))"
    "t \<in> set G \<Longrightarrow> l \<in> set (rest d LT t) \<Longrightarrow> l_next l = succ_in (queue G d LT (l_surface l)) t"
    "n \<in> set G \<Longrightarrow> waits_on LT n t = (if t \<in> set G then leads_to d LT t n else 0)"
    "EN s = Some p \<Longrightarrow> p = (first_of (queue G d LT s), last_of (queue G d LT s))"
  using assms unfolding queues_ok_def by (blast, blast, blast, blast, blast, metis option.distinct(1) option.inject)

lemma queue_set: "t \<in> set (queue G d LT s) \<longleftrightarrow> t \<in> set G \<and> s \<in> touched d LT t"
  by (simp add: queue_def)

lemma queue_distinct: "distinct G \<Longrightarrow> distinct (queue G d LT s)"
  by (simp add: queue_def)

lemma next_in_queue:
  assumes ok: "queues_ok G d LT EN" and t: "t \<in> set G" and l: "l \<in> set (rest d LT t)" and n: "l_next l = Some n"
  shows "n \<in> set G" "n \<noteq> t" "0 < waits_on LT n t"
proof -
  have "succ_in (queue G d LT (l_surface l)) t = Some n" using queues_okD(4) [OF ok t l] n by simp
  then show "n \<noteq> t" and g: "n \<in> set G"
    using succ_in_neq [OF queue_distinct [OF queues_okD(1) [OF ok]]] succ_in_set queue_set by metis+
  have "l \<in> set (filter (\<lambda>l. l_next l = Some n) (rest d LT t))" using l n by simp
  then have "0 < leads_to d LT t n" unfolding leads_to_def by (metis length_pos_if_in_set)
  then show "0 < waits_on LT n t" using queues_okD(5) [OF ok g, of t] t by simp
qed

text \<open>A transaction that waits for no other is the first in the queues of all its surfaces.\<close>

lemma unblocked_first:
  assumes ok: "queues_ok G d LT EN" and t: "t \<in> set G" and prev: "\<forall>l \<in> set (links_of LT t). l_prev l = None"
    and s: "s \<in> touched d LT t"
  shows "first_of (queue G d LT s) = Some t"
proof (rule ccontr)
  assume "first_of (queue G d LT s) \<noteq> Some t"
  then obtain u where u: "u \<in> set (queue G d LT s)" "succ_in (queue G d LT s) u = Some t"
    using predecessor [OF queue_distinct [OF queues_okD(1) [OF ok]], of t d LT s] t s by (auto simp: queue_set)
  then obtain l where l: "l \<in> set (rest d LT u)" "l_surface l = s" "u \<in> set G"
    by (auto simp: queue_set touched_def)
  then have "0 < waits_on LT t u"
    using next_in_queue(3) [OF ok l(3,1)] queues_okD(4) [OF ok l(3,1)] u(2) by simp
  then show False using prev by (simp add: waits_on_def)
qed

lemma unblocked_shares_none:
  assumes ok: "queues_ok G d LT EN" and t: "t \<in> set G" and prev: "\<forall>l \<in> set (links_of LT t). l_prev l = None"
    and v: "v \<in> set (takeWhile (\<lambda>x. x \<noteq> t) G)"
  shows "touched d LT v \<inter> touched d LT t = {}"
  using first_of_before [OF unblocked_first [OF ok t prev, unfolded queue_def] v] by blast

section \<open>Taking an entry off its queue\<close>

fun clear_prev :: "nat \<Rightarrow> link list \<Rightarrow> link list" where
  "clear_prev t [] = []"
| "clear_prev t (l # ls) = (if l_prev l = Some t then l\<lparr>l_prev := None\<rparr> # ls else l # clear_prev t ls)"

definition pop_ends :: "nat \<Rightarrow> link \<Rightarrow> ends \<Rightarrow> ends" where
  "pop_ends t l EN =
     (case EN (l_surface l) of
        None \<Rightarrow> EN
      | Some (a, b) \<Rightarrow> EN(l_surface l \<mapsto> (if b = Some t then (None, None) else (l_next l, b))))"

definition pop_links :: "nat \<Rightarrow> link \<Rightarrow> link_table \<Rightarrow> link_table" where
  "pop_links t l LT = (case l_next l of None \<Rightarrow> LT | Some n \<Rightarrow> LT(n := map_option (clear_prev t) (LT n)))"

lemma clear_prev_same:
  "map l_surface (clear_prev t ls) = map l_surface ls" "map l_next (clear_prev t ls) = map l_next ls"
  "length (clear_prev t ls) = length ls"
  by (induction ls) auto

lemma clear_prev_count:
  "length (filter (\<lambda>l. l_prev l = Some u) (clear_prev t ls)) =
     (if u = t then length (filter (\<lambda>l. l_prev l = Some u) ls) - 1 else length (filter (\<lambda>l. l_prev l = Some u) ls))"
  by (induction ls) auto

lemma filter_by_map: "map f xs = map f ys \<Longrightarrow> length (filter (\<lambda>x. P (f x)) xs) = length (filter (\<lambda>x. P (f x)) ys)"
  by (metis (mono_tags, lifting) comp_def filter_cong filter_map length_map)

lemma pop_links_of:
  "links_of (pop_links t l LT) u = (if l_next l = Some u then clear_prev t (links_of LT u) else links_of LT u)"
  "pop_links t l LT u = None \<longleftrightarrow> LT u = None"
  by (auto simp: pop_links_def links_of_def split: option.splits)

lemma pop_links_same:
  "map l_surface (links_of (pop_links t l LT) u) = map l_surface (links_of LT u)"
  "map l_next (links_of (pop_links t l LT) u) = map l_next (links_of LT u)"
  "length (links_of (pop_links t l LT) u) = length (links_of LT u)"
  by (simp_all add: pop_links_of clear_prev_same)

lemma same_rest:
  assumes "map l_surface (links_of LT' u) = map l_surface (links_of LT u)" "map l_next (links_of LT' u) = map l_next (links_of LT u)"
  shows "touched d LT' u = touched d LT u" "leads_to d LT' u n = leads_to d LT u n"
    "l \<in> set (rest d LT' u) \<Longrightarrow> \<exists>l' \<in> set (rest d LT u). l_surface l' = l_surface l \<and> l_next l' = l_next l"
proof -
  have m: "map l_surface (rest d LT' u) = map l_surface (rest d LT u)" "map l_next (rest d LT' u) = map l_next (rest d LT u)"
    using assms by (simp_all add: rest_def drop_map [symmetric])
  show "touched d LT' u = touched d LT u" using m(1) unfolding touched_def by (metis set_map)
  show "leads_to d LT' u n = leads_to d LT u n" using filter_by_map [OF m(2)] by (simp add: leads_to_def)
  assume "l \<in> set (rest d LT' u)"
  then obtain i where i: "i < length (rest d LT' u)" "rest d LT' u ! i = l" by (metis in_set_conv_nth)
  have len: "length (rest d LT' u) = length (rest d LT u)" using m(1) by (metis length_map)
  have "l_surface (rest d LT u ! i) = l_surface l" "l_next (rest d LT u ! i) = l_next l"
    using i len m by (metis nth_map)+
  then show "\<exists>l' \<in> set (rest d LT u). l_surface l' = l_surface l \<and> l_next l' = l_next l" using i len by (metis nth_mem)
qed

lemma rest_step: "d t < length (links_of LT t) \<Longrightarrow> rest d LT t = links_of LT t ! d t # rest (d(t := Suc (d t))) LT t"
  by (simp add: rest_def Cons_nth_drop_Suc)

lemma pop_ok:
  assumes ok: "queues_ok G d LT EN" and t: "t \<in> set G" and i: "d t < length (links_of LT t)"
    and prev: "\<forall>l \<in> set (links_of LT t). l_prev l = None"
  defines "l \<equiv> links_of LT t ! d t"
  shows "queues_ok G (d(t := Suc (d t))) (pop_links t l LT) (pop_ends t l EN)"
proof -
  let ?d = "d(t := Suc (d t))" and ?LT = "pop_links t l LT" and ?s = "l_surface l"
  note D = queues_okD [OF ok]
  have rl: "rest d LT t = l # rest ?d LT t" using rest_step [where d = d and t = t, OF i] by (simp add: l_def)
  have "distinct (map l_surface (rest d LT t))" using D(3) [OF t] by (simp add: rest_def drop_map [symmetric] distinct_drop)
  then have s_out: "?s \<notin> touched ?d LT t" unfolding rl touched_def by simp
  have other: "u \<noteq> t \<Longrightarrow> rest ?d LT u = rest d LT u" for u by (simp add: rest_def)
  have "touched d LT t = insert ?s (touched ?d LT t)" by (simp add: touched_def rl)
  then have touch: "touched ?d LT u = (if u = t then touched d LT t - {?s} else touched d LT u)" for u
    using s_out other [of u] by (auto simp: touched_def)
  have head: "first_of (queue G d LT ?s) = Some t"
    by (rule unblocked_first [OF ok t prev]) (simp add: touched_def rl)
  then obtain qs where qs: "queue G d LT ?s = t # qs" by (cases "queue G d LT ?s") simp_all
  have dq: "distinct (t # qs)" using queue_distinct [OF D(1), of d LT ?s] qs by simp
  have q: "queue G ?d LT s = (if s = ?s then qs else queue G d LT s)" for s
  proof (cases "s = ?s")
    case True
    have "queue G ?d LT ?s = filter (\<lambda>u. u \<noteq> t) (queue G d LT ?s)"
      unfolding queue_def filter_filter by (rule filter_cong) (auto simp: touch)
    also have "\<dots> = qs" using dq by (simp add: qs) (auto simp: filter_id_conv)
    finally show ?thesis using True by simp
  qed (auto simp: queue_def touch intro!: filter_cong)
  note same = same_rest [OF pop_links_same(1,2)]
  have q': "queue G ?d ?LT s = queue G ?d LT s" for s by (simp add: queue_def same)
  have next_l: "l_next l = first_of qs" using D(4) [OF t, of l] succ_in_head [OF dq] by (simp add: rl qs)
  show ?thesis
    unfolding queues_ok_def
  proof (intro conjI ballI allI impI)
    show "distinct G" by (rule D(1))
    fix u assume u: "u \<in> set G"
    show "?LT u \<noteq> None" "distinct (map l_surface (links_of ?LT u))"
      using D(2,3) [OF u] by (simp_all add: pop_links_of(2) pop_links_same)
    show "l' \<in> set (rest ?d ?LT u) \<Longrightarrow> l_next l' = succ_in (queue G ?d ?LT (l_surface l')) u" for l'
    proof -
      assume "l' \<in> set (rest ?d ?LT u)"
      then obtain k where k: "k \<in> set (rest ?d LT u)" "l_surface k = l_surface l'" "l_next k = l_next l'"
        using same(3) by blast
      have k': "k \<in> set (rest d LT u)" using k(1) rl other [of u] by (cases "u = t") simp_all
      have "l_surface l' = ?s \<Longrightarrow> u \<noteq> t" using k s_out unfolding touched_def by (metis imageI)
      then show ?thesis
        using D(4) [OF u k'] k unfolding q' q by (auto simp: qs succ_in_tail)
    qed
    fix v
    have lead: "leads_to ?d ?LT v u = (if v = t \<and> l_next l = Some u then leads_to d LT t u - 1 else leads_to d LT v u)"
      unfolding same(2) using other [of v] by (cases "v = t") (auto simp: leads_to_def rl)
    have wait: "waits_on ?LT u v = (if v = t \<and> l_next l = Some u then waits_on LT u t - 1 else waits_on LT u v)"
      by (simp add: waits_on_def pop_links_of clear_prev_count)
    show "waits_on ?LT u v = (if v \<in> set G then leads_to ?d ?LT v u else 0)"
      using D(5) [OF u, of v] t unfolding lead wait by auto
  next
    fix s assume "pop_ends t l EN s \<noteq> None"
    then show "pop_ends t l EN s = Some (first_of (queue G ?d ?LT s), last_of (queue G ?d ?LT s))"
      unfolding q' q using D(6) [of s] dq next_l
      by (cases qs) (auto simp: pop_ends_def qs last_of_def split: option.splits if_splits)
  qed
qed

lemma finish_ok:
  assumes ok: "queues_ok G d LT EN" and all: "length (links_of LT t) \<le> d t"
  shows "queues_ok (removeAll t G) (d(t := 0)) (LT(t := None)) EN"
    "touched (d(t := 0)) (LT(t := None)) u = touched d LT u"
proof -
  note D = queues_okD [OF ok]
  have none: "rest d LT t = []" using all by (simp add: rest_def)
  have r: "rest (d(t := 0)) (LT(t := None)) u = rest d LT u" for u
    using none by (cases "u = t") (simp_all add: rest_def links_of_def)
  then show touch: "touched (d(t := 0)) (LT(t := None)) u = touched d LT u" for u by (simp add: touched_def)
  have "s \<notin> touched d LT t" for s by (simp add: touched_def none)
  then have q: "queue (removeAll t G) (d(t := 0)) (LT(t := None)) s = queue G d LT s" for s
    unfolding queue_def touch removeAll_filter_not_eq filter_filter by (intro filter_cong) auto
  have l: "leads_to (d(t := 0)) (LT(t := None)) u n = leads_to d LT u n" "leads_to d LT t n = 0" for u n
    by (simp_all add: leads_to_def r none)
  have w: "waits_on (LT(t := None)) n u = waits_on LT n u" if "n \<noteq> t" for n u
    using that by (simp add: waits_on_def links_of_def)
  show "queues_ok (removeAll t G) (d(t := 0)) (LT(t := None)) EN"
    unfolding queues_ok_def
  proof (intro conjI ballI allI impI)
    fix u assume u: "u \<in> set (removeAll t G)"
    show "(LT(t := None)) u \<noteq> None" "distinct (map l_surface (links_of (LT(t := None)) u))"
      using D(2,3) [of u] u by (auto simp: links_of_def)
    show "l \<in> set (rest (d(t := 0)) (LT(t := None)) u) \<Longrightarrow>
        l_next l = succ_in (queue (removeAll t G) (d(t := 0)) (LT(t := None)) (l_surface l)) u" for l
      using D(4) [of u l] u unfolding q r by auto
    fix v
    show "waits_on (LT(t := None)) u v = (if v \<in> set (removeAll t G) then leads_to (d(t := 0)) (LT(t := None)) v u else 0)"
      using D(5) [of u v] u by (auto simp: w l)
  next
    fix s assume "EN s \<noteq> None"
    then show "EN s = Some (first_of (queue (removeAll t G) (d(t := 0)) (LT(t := None)) s), last_of (queue (removeAll t G) (d(t := 0)) (LT(t := None)) s))"
      unfolding q using D(6) by auto
  qed (simp add: D(1) distinct_removeAll)
qed

text \<open>The order of the entries does not matter before the first is taken off.\<close>

lemma perm_ok:
  assumes ok: "queues_ok G d LT EN" and ls: "LT t = Some ls" "mset ls' = mset ls" and z: "d t = 0"
  shows "queues_ok G d (LT(t \<mapsto> ls')) EN" "touched d (LT(t \<mapsto> ls')) u = touched d LT u"
proof -
  let ?LT = "LT(t \<mapsto> ls')"
  note D = queues_okD [OF ok]
  have m: "mset (links_of ?LT u) = mset (links_of LT u)" "u \<noteq> t \<Longrightarrow> links_of ?LT u = links_of LT u" for u
    using ls by (auto simp: links_of_def)
  have r: "mset (rest d ?LT u) = mset (rest d LT u)" for u
    using m z by (cases "u = t") (simp_all add: rest_def)
  have sr: "set (rest d ?LT u) = set (rest d LT u)" for u using mset_eq_setD [OF r] .
  show touch: "touched d ?LT u = touched d LT u" for u by (simp add: touched_def sr)
  have q: "queue G d ?LT s = queue G d LT s" for s by (simp add: queue_def touch)
  have count: "length (filter P xs) = length (filter P ys)" if "mset xs = mset ys" for P and xs ys :: "link list"
    using that by (metis mset_filter size_mset)
  have w: "waits_on ?LT n u = waits_on LT n u" "leads_to d ?LT u n = leads_to d LT u n" for n u
    using count [OF m(1)] count [OF r] by (simp_all add: waits_on_def leads_to_def)
  have dist: "distinct (map l_surface (links_of ?LT u)) = distinct (map l_surface (links_of LT u))" for u
    using mset_eq_imp_distinct_iff [of "map l_surface (links_of ?LT u)" "map l_surface (links_of LT u)"] m(1) [of u] by simp
  show "queues_ok G d ?LT EN"
    using D unfolding queues_ok_def q sr w dist by (auto split: option.splits)
qed

section \<open>Putting an entry at the end of its queue\<close>

text \<open>No transaction is being applied here: \<open>none\<close> of the entries has been taken off its queue.\<close>

abbreviation none :: "nat \<Rightarrow> nat" where
  "none \<equiv> (\<lambda>t. 0)"

definition set_next_link :: "nat \<Rightarrow> nat \<Rightarrow> link list \<Rightarrow> link list" where
  "set_next_link s t = map (\<lambda>l. if l_surface l = s then l\<lparr>l_next := Some t\<rparr> else l)"

definition push_links :: "nat \<Rightarrow> nat \<Rightarrow> nat option \<Rightarrow> link_table \<Rightarrow> link_table" where
  "push_links t s b LT =
     (let LT1 = (case b of None \<Rightarrow> LT | Some u \<Rightarrow> LT(u := map_option (set_next_link s t) (LT u)))
      in LT1(t \<mapsto> links_of LT t @ [\<lparr>l_surface = s, l_prev = b, l_next = None\<rparr>]))"

lemma set_next_count:
  assumes "distinct (map l_surface ls)" "l \<in> set ls" "l_surface l = s" "l_next l = None"
  shows "length (filter (\<lambda>l. l_next l = Some n) (set_next_link s t ls)) =
    length (filter (\<lambda>l. l_next l = Some n) ls) + (if n = t then 1 else 0)"
  using assms
proof (induction ls)
  case (Cons k ls)
  have away: "set_next_link s t ls = ls" if "s \<notin> l_surface ` set ls"
    using that by (auto simp: set_next_link_def intro!: map_idI)
  show ?case
  proof (cases "l = k")
    case True
    then have "s \<notin> l_surface ` set ls" using Cons.prems by auto
    then show ?thesis using away Cons.prems True by (auto simp: set_next_link_def)
  next
    case False
    then have "l_surface k \<noteq> s" using Cons.prems by auto
    then show ?thesis using Cons False by (auto simp: set_next_link_def)
  qed
qed simp

lemma set_next_prev: "length (filter (\<lambda>l. l_prev l = p) (set_next_link s t ls)) = length (filter (\<lambda>l. l_prev l = p) ls)"
  by (induction ls) (auto simp: set_next_link_def)

lemma set_next_surface: "map l_surface (set_next_link s t ls) = map l_surface ls"
  by (auto simp: set_next_link_def)

lemma rest_none: "rest none LT t = links_of LT t"
  by (simp add: rest_def)

lemma push_ok:
  assumes ok: "queues_ok (G @ [t]) none LT EN" and s: "s \<notin> touched none LT t" and en: "EN s = Some (a, b)"
  shows "queues_ok (G @ [t]) none (push_links t s b LT) (EN(s \<mapsto> (if a = None then Some t else a, Some t)))"
    "touched none (push_links t s b LT) u = (if u = t then insert s (touched none LT t) else touched none LT u)"
proof -
  let ?G = "G @ [t]" and ?LT = "push_links t s b LT"
  note D = queues_okD [OF ok]
  define Q where "Q = queue ?G none LT s"
  have QG: "Q = queue G none LT s" using s by (simp add: Q_def queue_def)
  have dQ: "distinct (Q @ [t])" using D(1) s by (auto simp: QG queue_def)
  have ab: "a = first_of Q" "b = last_of Q" using D(6) [OF en] by (simp_all add: Q_def)
  have bG: "u \<in> set G \<and> u \<noteq> t \<and> s \<in> touched none LT u \<and> Q \<noteq> [] \<and> u = last Q" if "b = Some u" for u
  proof -
    have u: "Q \<noteq> []" "u = last Q" using that ab(2) by (auto simp: last_of_def split: if_splits)
    then have "u \<in> set Q" by simp
    then show ?thesis using u D(1) by (auto simp: QG queue_def)
  qed
  let ?new = "\<lparr>l_surface = s, l_prev = b, l_next = None\<rparr>"
  have L: "links_of ?LT u = (if u = t then links_of LT t @ [?new]
      else if b = Some u then set_next_link s t (links_of LT u) else links_of LT u)" for u
    using bG by (auto simp: push_links_def Let_def links_of_def set_next_link_def split: option.splits)
  have surf: "map l_surface (links_of ?LT u) = map l_surface (links_of LT u) @ (if u = t then [s] else [])" for u
    unfolding L by (simp add: set_next_surface)
  show touch: "touched none ?LT u = (if u = t then insert s (touched none LT t) else touched none LT u)" for u
  proof -
    have "touched none ?LT u = set (map l_surface (links_of ?LT u))" by (simp add: touched_def rest_none)
    then show ?thesis unfolding surf by (auto simp: touched_def rest_none)
  qed
  have q: "queue ?G none ?LT x = (if x = s then Q @ [t] else queue ?G none LT x)" for x
    using D(1) s by (auto simp: queue_def touch QG intro!: filter_cong)
  have tQ: "succ_in (Q @ [t]) t = None" using dQ succ_in_set [of Q t] by (cases "succ_in Q t") (auto simp: succ_in_snoc)
  have lastlink: "\<exists>l \<in> set (links_of LT u). l_surface l = s \<and> l_next l = None" if b: "b = Some u" for u
  proof -
    obtain l where l: "l \<in> set (links_of LT u)" "l_surface l = s"
      using bG [OF b] by (auto simp: touched_def rest_none)
    have "u \<in> set ?G" using bG [OF b] unfolding set_append by blast
    then have "l_next l = succ_in Q u" using D(4) [of u l] l by (simp add: rest_none Q_def)
    also have "\<dots> = None"
    proof -
      obtain xs where Q: "Q = xs @ [u]" using bG [OF b] by (metis append_butlast_last_id)
      have "succ_in xs u = None" using dQ succ_in_set [of xs u] by (cases "succ_in xs u") (auto simp: Q)
      then show ?thesis using dQ by (auto simp: Q succ_in_snoc)
    qed
    finally show ?thesis using l by blast
  qed
  have lead: "leads_to none ?LT v n = leads_to none LT v n + (if b = Some v \<and> n = t then 1 else 0)" if "v \<in> set ?G" for v n
    using lastlink [of v] set_next_count [OF D(3) [OF that], of _ s n t] bG [of v]
    by (auto simp: leads_to_def rest_none L)
  have wait: "waits_on ?LT n v = waits_on LT n v + (if b = Some v \<and> n = t then 1 else 0)" for n v
    by (auto simp: waits_on_def L set_next_prev)
  show "queues_ok ?G none ?LT (EN(s \<mapsto> (if a = None then Some t else a, Some t)))"
    unfolding queues_ok_def
  proof (intro conjI ballI allI impI)
    show "distinct ?G" by (rule D(1))
    fix u assume u: "u \<in> set ?G"
    show "?LT u \<noteq> None" using D(2) [OF u] by (auto simp: push_links_def Let_def split: option.splits)
    show "distinct (map l_surface (links_of ?LT u))"
      using D(3) [OF u] s unfolding surf by (auto simp: touched_def rest_none)
    show "l \<in> set (rest none ?LT u) \<Longrightarrow> l_next l = succ_in (queue ?G none ?LT (l_surface l)) u" for l
    proof -
      assume l: "l \<in> set (rest none ?LT u)"
      show ?thesis
      proof (cases "l_surface l = s")
        case False
        then have "l \<in> set (links_of LT u)" using l by (auto simp: rest_none L set_next_link_def split: if_splits)
        then show ?thesis using D(4) [OF u, of l] False unfolding q by (simp add: rest_none)
      next
        case True
        have "u = t \<Longrightarrow> l = ?new" using l True s by (auto simp: rest_none L touched_def)
        moreover have "l_next l = Some t" if "b = Some u"
        proof -
          have "u \<noteq> t" using bG [OF that] by blast
          then have "l \<in> set (set_next_link s t (links_of LT u))" using l that unfolding rest_none L by simp
          then obtain k where "l = (if l_surface k = s then k\<lparr>l_next := Some t\<rparr> else k)"
            unfolding set_next_link_def set_map by blast
          then show ?thesis using True by (cases "l_surface k = s") simp_all
        qed
        moreover have "l_next l = succ_in Q u" if "b \<noteq> Some u" "u \<noteq> t"
          using l True that D(4) [OF u, of l] unfolding rest_none L Q_def by simp
        moreover have "succ_in (Q @ [t]) u = (if b = Some u then Some t else succ_in Q u)"
          unfolding succ_in_snoc [OF dQ] ab(2) last_of_def by auto
        ultimately have "l_next l = succ_in (Q @ [t]) u"
          using tQ by (cases "u = t"; cases "b = Some u") (simp_all del: succ_in.simps)
        then show ?thesis unfolding q using True by simp
      qed
    qed
    fix v
    show "waits_on ?LT u v = (if v \<in> set ?G then leads_to none ?LT v u else 0)"
      using D(5) [OF u, of v] lead [of v u] bG [of v] unfolding wait by auto
  next
    fix x assume "(EN(s \<mapsto> (if a = None then Some t else a, Some t))) x \<noteq> None"
    then show "(EN(s \<mapsto> (if a = None then Some t else a, Some t))) x = Some (first_of (queue ?G none ?LT x), last_of (queue ?G none ?LT x))"
      using D(6) [of x] ab(1) last_of_simps(2) [of Q t] unfolding q
      by (cases "x = s") (auto simp: first_of_def split: list.splits)
  qed
qed

text \<open>A transaction that touches no surface yet.\<close>

lemma begin_ok:
  assumes ok: "queues_ok G none LT EN" and t: "t \<notin> set G"
  shows "queues_ok (G @ [t]) none (LT(t \<mapsto> [])) EN"
proof -
  note D = queues_okD [OF ok]
  have L: "links_of (LT(t \<mapsto> [])) u = (if u = t then [] else links_of LT u)" for u by (simp add: links_of_def)
  have q: "queue (G @ [t]) none (LT(t \<mapsto> [])) s = queue G none LT s" for s
    using t by (auto simp: queue_def touched_def rest_none L intro!: filter_cong)
  have "leads_to none LT v t = 0" if "v \<in> set G" for v
    using next_in_queue(1) [OF ok that] t by (auto simp: leads_to_def filter_empty_conv)
  then have lead: "leads_to none (LT(t \<mapsto> [])) v n = (if v = t then 0 else leads_to none LT v n)"
    "v \<in> set G \<Longrightarrow> leads_to none LT v t = 0" for v n by (simp_all add: leads_to_def rest_none L)
  have wait: "waits_on (LT(t \<mapsto> [])) n v = (if n = t then 0 else waits_on LT n v)" for n v by (simp add: waits_on_def L)
  show ?thesis
    unfolding queues_ok_def
  proof (intro conjI ballI allI impI)
    fix u assume u: "u \<in> set (G @ [t])"
    show "(LT(t \<mapsto> [])) u \<noteq> None" "distinct (map l_surface (links_of (LT(t \<mapsto> [])) u))"
      using D(2,3) [of u] u by (auto simp: L)
    show "l \<in> set (rest none (LT(t \<mapsto> [])) u) \<Longrightarrow> l_next l = succ_in (queue (G @ [t]) none (LT(t \<mapsto> [])) (l_surface l)) u" for l
      using D(4) [of u l] u unfolding q by (auto simp: rest_none L split: if_splits)
    fix v
    show "waits_on (LT(t \<mapsto> [])) u v = (if v \<in> set (G @ [t]) then leads_to none (LT(t \<mapsto> [])) v u else 0)"
      using D(5) [of u v] u lead(2) [of v] t unfolding lead(1) wait by auto
  next
    fix s assume "EN s \<noteq> None"
    then show "EN s = Some (first_of (queue (G @ [t]) none (LT(t \<mapsto> [])) s), last_of (queue (G @ [t]) none (LT(t \<mapsto> [])) s))"
      unfolding q using D(6) by auto
  qed (use D(1) t in simp)
qed

end
