(* ===== verification/SurfaceFrames.thy ===== *)
theory SurfaceFrames
  imports Transactions TransactionQueues
begin

text \<open>
  What applying a state leaves as it was: the tree of subsurfaces and the links between transactions. In a
  tree without cycles the walks to the main surface return, and applying the state of a surface that stays
  mapped, or of one without children, returns as well.
\<close>

section \<open>The shape of the tree\<close>

definition alive :: "store \<Rightarrow> nat \<Rightarrow> bool" where
  "alive h s \<longleftrightarrow> surfaces h s \<noteq> None"

definition handle_of :: "store \<Rightarrow> nat \<Rightarrow> nat option" where
  "handle_of h s = (case surfaces h s of None \<Rightarrow> None | Some sf \<Rightarrow> subsurface_handle sf)"

definition parent_of :: "store \<Rightarrow> nat \<Rightarrow> nat option" where
  "parent_of h c = map_option d_parent (subsurfaces h c)"

definition surface_of :: "store \<Rightarrow> nat \<Rightarrow> nat option" where
  "surface_of h c = map_option d_surface (subsurfaces h c)"

definition discarded :: "store \<Rightarrow> nat \<Rightarrow> bool" where
  "discarded h s \<longleftrightarrow> (case surfaces h s of None \<Rightarrow> True | Some sf \<Rightarrow> m_tearingDown sf \<or> client_tearingDown h (surface_client sf))"

definition same_shape :: "store \<Rightarrow> store \<Rightarrow> bool" where
  "same_shape h h' \<longleftrightarrow> alive h' = alive h \<and> handle_of h' = handle_of h \<and> parent_of h' = parent_of h \<and>
     surface_of h' = surface_of h \<and> discarded h' = discarded h"

lemma same_shape_trans: "same_shape h h' \<Longrightarrow> same_shape h' h'' \<Longrightarrow> same_shape h h''"
  by (simp add: same_shape_def)

lemma same_shape_refl [simp]: "same_shape h h"
  by (simp add: same_shape_def)

lemma isDiscarded_discarded: "isDiscarded h e = discarded h (e_surface e)"
  by (simp add: isDiscarded_def discarded_def)

text \<open>Every surface is farther from the root of its tree than its parent.\<close>

definition tree_ok :: "store \<Rightarrow> bool" where
  "tree_ok h \<longleftrightarrow> (\<exists>rank :: nat \<Rightarrow> nat. \<forall>s c. handle_of h s = Some c \<longrightarrow>
     (\<exists>p. parent_of h c = Some p \<and> (alive h p \<longrightarrow> rank p < rank s)))"

lemma tree_ok_shape: "same_shape h h' \<Longrightarrow> tree_ok h' = tree_ok h"
  by (simp add: tree_ok_def same_shape_def)

lemma parentSurface_eq: "parentSurface h c = map_option (\<lambda>p. if alive h p then Some p else None) (parent_of h c)"
  by (auto simp: parentSurface_def parent_of_def alive_def option.map_comp comp_def intro!: option.map_cong)

lemma sub_surface_eq: "sub_surface h c = map_option (\<lambda>p. if alive h p then Some p else None) (surface_of h c)"
  by (auto simp: sub_surface_def surface_of_def alive_def option.map_comp comp_def intro!: option.map_cong)

lemma aliveE: "alive h s \<Longrightarrow> (\<And>sf. surfaces h s = Some sf \<Longrightarrow> handle_of h s = subsurface_handle sf \<Longrightarrow> P) \<Longrightarrow> P"
  by (auto simp: alive_def handle_of_def)

lemma handle_alive: "handle_of h s = Some c \<Longrightarrow> alive h s"
  by (auto simp: alive_def handle_of_def split: option.splits)

lemma walk_to_main:
  assumes ok: "tree_ok h" and c: "handle_of h s = Some c"
  shows "\<exists>m. sub_mainSurface h c = Some m \<and> (\<forall>p. m = Some p \<longrightarrow> alive h p \<and> handle_of h p = None)"
proof -
  obtain rank :: "nat \<Rightarrow> nat" where rank: "\<And>s c. handle_of h s = Some c \<Longrightarrow>
      \<exists>p. parent_of h c = Some p \<and> (alive h p \<longrightarrow> rank p < rank s)"
    using ok unfolding tree_ok_def by blast
  show ?thesis
    using c
  proof (induction "rank s" arbitrary: s c rule: less_induct)
    case less
    obtain p where p: "parent_of h c = Some p" "alive h p \<longrightarrow> rank p < rank s" using rank [OF less.prems] by blast
    show ?case
    proof (cases "alive h p")
      case False
      then show ?thesis by (subst sub_mainSurface.simps) (simp add: parentSurface_eq p)
    next
      case True
      then obtain pf where pf: "surfaces h p = Some pf" "handle_of h p = subsurface_handle pf" by (elim aliveE)
      show ?thesis
      proof (cases "subsurface_handle pf")
        case None
        then show ?thesis using True pf by (subst sub_mainSurface.simps) (simp add: parentSurface_eq p)
      next
        case (Some c')
        then show ?thesis
          using less.hyps [of p c'] p(2) True pf by (subst sub_mainSurface.simps) (simp add: parentSurface_eq p)
      qed
    qed
  qed
qed

lemma mainSurface_returns: "tree_ok h \<Longrightarrow> alive h s \<Longrightarrow> mainSurface h s \<noteq> None"
  using walk_to_main [of h s] by (auto simp: mainSurface_def elim!: aliveE split: option.splits)

lemma mainSurfaceRoleGeneration_returns:
  assumes "tree_ok h" "alive h s"
  shows "mainSurfaceRoleGeneration h s \<noteq> None"
proof -
  have root: "mainSurfaceRoleGeneration h p \<noteq> None" if "alive h p" "handle_of h p = None" for p
    using that by (subst mainSurfaceRoleGeneration.simps) (auto elim!: aliveE)
  obtain sf where sf: "surfaces h s = Some sf" "handle_of h s = subsurface_handle sf" using assms(2) by (elim aliveE)
  show ?thesis
  proof (cases "subsurface_handle sf")
    case (Some c)
    then obtain m where "sub_mainSurface h c = Some m" "\<forall>p. m = Some p \<longrightarrow> alive h p \<and> handle_of h p = None"
      using walk_to_main [OF assms(1), of s c] sf by auto
    then show ?thesis using sf Some root by (subst mainSurfaceRoleGeneration.simps) (auto split: option.splits)
  qed (use sf in \<open>subst mainSurfaceRoleGeneration.simps, simp\<close>)
qed

lemma isAncestor_returns:
  assumes ok: "tree_ok h" and s: "alive h s"
  shows "isAncestor h s a \<noteq> None"
proof -
  obtain rank :: "nat \<Rightarrow> nat" where rank: "\<And>s c. handle_of h s = Some c \<Longrightarrow>
      \<exists>p. parent_of h c = Some p \<and> (alive h p \<longrightarrow> rank p < rank s)"
    using ok unfolding tree_ok_def by blast
  show ?thesis
    using s
  proof (induction "rank s" arbitrary: s rule: less_induct)
    case less
    obtain sf where sf: "surfaces h s = Some sf" "handle_of h s = subsurface_handle sf" using less.prems by (elim aliveE)
    show ?case
    proof (cases "subsurface_handle sf")
      case None
      then show ?thesis using sf by (subst isAncestor.simps) simp
    next
      case (Some c)
      then obtain p where p: "parent_of h c = Some p" "alive h p \<longrightarrow> rank p < rank s" using rank [of s c] sf by auto
      then show ?thesis
        using less.hyps [of p] sf Some by (subst isAncestor.simps) (auto simp: parentSurface_eq)
    qed
  qed
qed

lemma entry_less_returns:
  assumes ok: "tree_ok h"
  shows "entry_less env h a b \<noteq> None"
proof (cases "alive h (e_surface a) \<and> alive h (e_surface b)")
  case True
  then obtain ab ba ma mb where "isAncestor h (e_surface a) (Some (e_surface b)) = Some ab"
    "isAncestor h (e_surface b) (Some (e_surface a)) = Some ba"
    "mainSurface h (e_surface a) = Some ma" "mainSurface h (e_surface b) = Some mb"
    using isAncestor_returns [OF ok] mainSurface_returns [OF ok] by (metis option.exhaust)
  then show ?thesis by (simp add: entry_less_def Let_def ex_bool_eq)
qed (auto simp: entry_less_def alive_def Let_def ex_bool_eq)

section \<open>Applying a state\<close>

definition child_ok :: "store \<Rightarrow> nat \<Rightarrow> bool" where
  "child_ok h c \<longleftrightarrow> (\<exists>s p. surface_of h c = Some s \<and> alive h s \<and> parent_of h c = Some p \<and> alive h p)"

lemma child_ok_shape: "same_shape h h' \<Longrightarrow> child_ok h' c = child_ok h c"
  by (simp add: child_ok_def same_shape_def)

text \<open>Everything but the positions of subsurfaces and the signals.\<close>

definition only_positions :: "store \<Rightarrow> store \<Rightarrow> bool" where
  "only_positions h h' \<longleftrightarrow> surfaces h' = surfaces h \<and> transactions h' = transactions h \<and> parent_of h' = parent_of h \<and>
     surface_of h' = surface_of h \<and> client_tearingDown h' = client_tearingDown h \<and> applied h' = applied h \<and> next_id h' = next_id h"

lemma only_positions_trans: "only_positions h h' \<Longrightarrow> only_positions h' h'' \<Longrightarrow> only_positions h h''"
  by (simp add: only_positions_def)

lemma only_positions_emit: "only_positions h (emit_surface sg h)" "only_positions h (fold emit_surface sgs h)"
proof -
  show 1: "only_positions h (emit_surface sg h)" for h sg by (simp add: only_positions_def emit_surface_def parent_of_def surface_of_def fun_eq_iff)
  show "only_positions h (fold emit_surface sgs h)"
  proof (induction sgs arbitrary: h)
    case (Cons sg sgs)
    show ?case unfolding fold_simps comp_def by (rule only_positions_trans [OF 1 Cons.IH])
  qed (simp add: only_positions_def)
qed

lemma parentApplyState_returns:
  assumes "child_ok h c"
  shows "\<exists>h'. parentApplyState c h = Some h' \<and> only_positions h h'"
proof -
  obtain d p where d: "subsurfaces h c = Some d" and p: "surfaces h (d_parent d) = Some p"
    using assms by (auto simp: child_ok_def parent_of_def surface_of_def alive_def)
  have "only_positions h (emit_surface sg (h\<lparr>subsurfaces := (subsurfaces h)(c \<mapsto> d\<lparr>d_position := pos\<rparr>)\<rparr>))" for sg pos
    using d by (auto simp: only_positions_def emit_surface_def parent_of_def surface_of_def fun_eq_iff)
  moreover have "only_positions h h" by (simp add: only_positions_def)
  ultimately show ?thesis using d p by (auto simp: parentApplyState_def Let_def update_subsurface_def)
qed

lemma each_parentApplyState:
  "\<forall>c \<in> set cs. child_ok h c \<Longrightarrow> \<exists>h'. each_object parentApplyState cs h = Some h' \<and> only_positions h h'"
proof (induction cs arbitrary: h)
  case (Cons c cs)
  obtain h1 where h1: "parentApplyState c h = Some h1" "only_positions h h1" using parentApplyState_returns [of h c] Cons.prems by auto
  have "child_ok h1 k = child_ok h k" for k using h1(2) by (simp add: child_ok_def only_positions_def alive_def)
  then show ?case using Cons.IH [of h1] Cons.prems h1 only_positions_trans by auto
qed (simp add: only_positions_def)

lemma geometry_keeps:
  "firstTransaction (merged_surface env st sf) = firstTransaction sf" "lastTransaction (merged_surface env st sf) = lastTransaction sf"
  "subsurface_handle (merged_surface env st sf) = subsurface_handle sf" "m_tearingDown (merged_surface env st sf) = m_tearingDown sf"
  "surface_client (merged_surface env st sf) = surface_client sf" "mapped (merged_surface env st sf) = mapped sf"
  "children_of (current (merged_surface env st sf)) = children_of st"
  "buffer (current (merged_surface env st sf)) = (if Field_Buffer \<in> committed st then buffer st else buffer (current sf))"
  "bufferRef (merged_surface env st sf) = buffer (current (merged_surface env st sf))"
  by (auto simp: merged_surface_def buffer_geometry_def no_geometry_def mergeInto_def children_of_def Let_def split: option.splits)

lemma recolor_keeps:
  "firstTransaction (recolor env st old sf) = firstTransaction sf" "lastTransaction (recolor env st old sf) = lastTransaction sf"
  "subsurface_handle (recolor env st old sf) = subsurface_handle sf" "m_tearingDown (recolor env st old sf) = m_tearingDown sf"
  "surface_client (recolor env st old sf) = surface_client sf" "mapped (recolor env st old sf) = mapped sf"
  "children_of (current (recolor env st old sf)) = children_of (current sf)"
  "buffer (current (recolor env st old sf)) = buffer (current sf)"
  by (simp_all add: recolor_def children_of_def Let_def)

text \<open>The two kinds of surfaces whose states can be applied without a change of the mapping of others.\<close>

definition stays_mapped :: "surface \<Rightarrow> surface_state \<Rightarrow> bool" where
  "stays_mapped sf st \<longleftrightarrow> mapped sf \<and> buffer (current sf) \<noteq> None \<and> (Field_Buffer \<in> committed st \<longrightarrow> buffer st \<noteq> None)"

definition only_surface :: "nat \<Rightarrow> store \<Rightarrow> store \<Rightarrow> bool" where
  "only_surface s h h' \<longleftrightarrow> (\<exists>old new. surfaces h s = Some old \<and> surfaces h' = (surfaces h)(s \<mapsto> new) \<and>
     firstTransaction new = firstTransaction old \<and> lastTransaction new = lastTransaction old \<and>
     subsurface_handle new = subsurface_handle old \<and> m_tearingDown new = m_tearingDown old \<and>
     surface_client new = surface_client old) \<and>
     transactions h' = transactions h \<and> parent_of h' = parent_of h \<and> surface_of h' = surface_of h \<and>
     client_tearingDown h' = client_tearingDown h \<and> applied h' = applied h \<and> next_id h' = next_id h"

lemma only_surface_shape: "only_surface s h h' \<Longrightarrow> same_shape h h'"
  unfolding only_surface_def same_shape_def alive_def handle_of_def discarded_def fun_eq_iff
  by (elim conjE exE) (simp split: if_splits option.splits)

lemma only_surface_trans:
  assumes "only_surface s h h'" "only_surface s h' h''"
  shows "only_surface s h h''"
proof -
  obtain old new where 1: "surfaces h s = Some old" "surfaces h' = (surfaces h)(s \<mapsto> new)"
    "firstTransaction new = firstTransaction old" "lastTransaction new = lastTransaction old"
    "subsurface_handle new = subsurface_handle old" "m_tearingDown new = m_tearingDown old" "surface_client new = surface_client old"
    using assms(1) unfolding only_surface_def by blast
  obtain old' new' where 2: "surfaces h' s = Some old'" "surfaces h'' = (surfaces h')(s \<mapsto> new')"
    "firstTransaction new' = firstTransaction old'" "lastTransaction new' = lastTransaction old'"
    "subsurface_handle new' = subsurface_handle old'" "m_tearingDown new' = m_tearingDown old'" "surface_client new' = surface_client old'"
    using assms(2) unfolding only_surface_def by blast
  have "old' = new" using 1(2) 2(1) by simp
  then have "surfaces h'' = (surfaces h)(s \<mapsto> new')" "firstTransaction new' = firstTransaction old"
    "lastTransaction new' = lastTransaction old" "subsurface_handle new' = subsurface_handle old"
    "m_tearingDown new' = m_tearingDown old" "surface_client new' = surface_client old" using 1 2 by simp_all
  then show ?thesis using 1(1) assms unfolding only_surface_def by auto
qed

lemma only_surface_same: "surfaces h s \<noteq> None \<Longrightarrow> only_surface s h h"
  unfolding only_surface_def by (metis fun_upd_triv option.exhaust)

lemma only_positions_surface: "surfaces h s \<noteq> None \<Longrightarrow> only_positions h h' \<Longrightarrow> only_surface s h h'"
  using only_surface_same [of h s] unfolding only_surface_def only_positions_def by simp

lemma applyState_returns:
  assumes s: "surfaces h s = Some old" and cs: "\<forall>c \<in> set (children_of st). child_ok h c" and tree: "tree_ok h"
    and kind: "stays_mapped old st \<or> children_of st = []"
  shows "\<exists>h' new. applyState env s st h = Some h' \<and> only_surface s h h' \<and> surfaces h' s = Some new \<and>
    children_of (current new) = children_of st \<and>
    (stays_mapped old st \<longrightarrow> mapped new \<and> buffer (current new) \<noteq> None)"
proof -
  define sf where "sf = merged_surface env st old"
  define h2 where "h2 = (let h1 = h\<lparr>surfaces := (surfaces h)(s \<mapsto> sf)\<rparr> in
      case (bufferRef sf, releasePoint (current sf)) of (Some b, Some r) \<Rightarrow> emit_surface (ReleasePointAdded b r) h1 | _ \<Rightarrow> h1)"
  let ?vis = "Field_Buffer \<in> committed st \<and> (buffer (current old) = None) \<noteq> (buffer st = None)"
  note G = geometry_keeps [of env st old, folded sf_def]
  have h2: "surfaces h2 = (surfaces h)(s \<mapsto> sf)" "transactions h2 = transactions h" "subsurfaces h2 = subsurfaces h"
    "client_tearingDown h2 = client_tearingDown h" "applied h2 = applied h" "next_id h2 = next_id h"
    by (simp_all add: h2_def Let_def emit_surface_def split: option.splits)
  have f2: "only_surface s h h2" using s G by (simp add: only_surface_def h2 parent_of_def surface_of_def fun_eq_iff)
  obtain h3 sf3 where h3: "(if ?vis then updateEffectiveMapped s h2 else Some h2) = Some h3" "only_surface s h2 h3"
    "surfaces h3 s = Some sf3" "children_of (current sf3) = children_of st" "buffer (current sf3) = buffer (current sf)"
    "stays_mapped old st \<longrightarrow> mapped sf3"
  proof (cases ?vis)
    case False
    show ?thesis
      by (rule that [of h2 sf, OF if_not_P [OF False]])
        (use G in \<open>simp_all add: h2 only_surface_same stays_mapped_def\<close>)
  next
    case True
    then have ns: "\<not> stays_mapped old st" "children_of st = []" using kind by (auto simp: stays_mapped_def)
    have "computeEffectiveMapped h2 s \<noteq> None"
    proof (cases "subsurface_handle sf")
      case (Some c)
      then have "handle_of h s = Some c" using s G by (simp add: handle_of_def)
      then have "subsurfaces h c \<noteq> None" using tree unfolding tree_ok_def parent_of_def by blast
      then show ?thesis using Some by (auto simp: computeEffectiveMapped_def h2 parentSurface_def split: option.splits)
    qed (simp add: computeEffectiveMapped_def h2 ex_bool_eq)
    then obtain b where b: "computeEffectiveMapped h2 s = Some b" by blast
    let ?h3 = "emit_surface (if b then Mapped s else Unmapped s) (h2\<lparr>surfaces := (surfaces h2)(s \<mapsto> sf\<lparr>mapped := b\<rparr>)\<rparr>)"
    have f3: "only_surface s h2 ?h3"
      by (simp add: only_surface_def h2 fun_eq_iff emit_surface_def parent_of_def surface_of_def)
    have u: "updateEffectiveMapped s h2 = Some (if mapped sf = b then h2 else ?h3)"
      using b ns G by (simp add: updateEffectiveMapped_def h2 set_mapped_def update_surface_def update_children_mapped.simps)
    show ?thesis
    proof (cases "mapped sf = b")
      case m: True
      show ?thesis by (rule that [of h2 sf]) (use True u m G ns in \<open>simp_all add: h2 only_surface_same\<close>)
    next
      case m: False
      show ?thesis by (rule that [of ?h3 "sf\<lparr>mapped := b\<rparr>"]) (use True u m f3 G ns in \<open>simp_all add: h2 emit_surface_def\<close>)
    qed
  qed
  obtain h4 sf4 where h4: "(if mapped sf3 then Some h3
       else clear_presentation s h3 \<bind> each_object clear_child_presentation (children_of (current sf3))) = Some h4"
    "only_surface s h3 h4" "surfaces h4 s = Some sf4" "children_of (current sf4) = children_of st"
    "buffer (current sf4) = buffer (current sf)" "stays_mapped old st \<longrightarrow> mapped sf4"
  proof (cases "mapped sf3")
    case True
    show ?thesis by (rule that [of h3 sf3]) (use True h3(3-6) in \<open>simp_all add: only_surface_same\<close>)
  next
    case False
    then have "children_of st = []" using kind h3(6) by blast
    let ?sf4 = "sf3\<lparr>current := (current sf3)\<lparr>presentationFeedback := None, fifoBarrier := False\<rparr>\<rparr>"
    have f4: "only_surface s h3 (h3\<lparr>surfaces := (surfaces h3)(s \<mapsto> ?sf4)\<rparr>)"
      using h3(3) by (simp add: only_surface_def fun_eq_iff parent_of_def surface_of_def)
    show ?thesis
      by (rule that [of "h3\<lparr>surfaces := (surfaces h3)(s \<mapsto> ?sf4)\<rparr>" ?sf4])
        (use False h3(3-6) f4 \<open>children_of st = []\<close> in \<open>simp_all add: clear_presentation_def update_surface_def children_of_def\<close>)
  qed
  define h5 where "h5 = fold emit_surface (state_signals s old st sf3) h4"
  have f5: "only_positions h4 h5" by (simp add: h5_def only_positions_emit)
  then have s5: "surfaces h5 s = Some sf4" using h4(3) by (simp add: only_positions_def)
  define sf6 where "sf6 = recolor env st old sf4"
  define h6 where "h6 = h5\<lparr>surfaces := (surfaces h5)(s \<mapsto> sf6)\<rparr>"
  note R = recolor_keeps [of env st old sf4, folded sf6_def]
  have f6: "only_surface s h5 h6"
    using s5 R by (simp add: only_surface_def h6_def fun_eq_iff parent_of_def surface_of_def)
  have f45: "only_surface s h4 h5" by (rule only_positions_surface [OF _ f5]) (simp add: h4(3))
  note F = only_surface_trans [OF only_surface_trans [OF only_surface_trans [OF only_surface_trans [OF f2 h3(2)] h4(2)] f45] f6]
  have "\<forall>c \<in> set (children_of st). child_ok h6 c" using cs child_ok_shape [OF only_surface_shape [OF F]] by simp
  then obtain h7 where h7: "each_object parentApplyState (children_of st) h6 = Some h7" "only_positions h6 h7"
    using each_parentApplyState by blast
  define h8 where "h8 = emit_surface (Committed s) (emit_surface (ExtensionsApplied s (extensions (current sf3))) h7)"
  have "only_positions h6 h8"
    unfolding h8_def using h7(2) only_positions_emit(1) only_positions_trans by blast
  then have f8: "only_surface s h h8" "surfaces h8 s = Some sf6"
    using only_surface_trans [OF F only_positions_surface] by (auto simp: h6_def only_positions_def)
  have steps: "applyState env s st h = do {
      h3 \<leftarrow> (if ?vis then updateEffectiveMapped s h2 else Some h2);
      sf3 \<leftarrow> surfaces h3 s;
      h4 \<leftarrow> (if mapped sf3 then Some h3
             else clear_presentation s h3 \<bind> each_object clear_child_presentation (children_of (current sf3)));
      h6 \<leftarrow> update_surface s (recolor env st old) (fold emit_surface (state_signals s old st sf3) h4);
      h7 \<leftarrow> each_object parentApplyState (children_of (current sf3)) h6;
      Some (emit_surface (Committed s) (emit_surface (ExtensionsApplied s (extensions (current sf3))) h7))
    }"
    by (simp only: applyState_def s update_surface_def sf_def h2_def Let_def option.case Option.bind.simps)
  have "update_surface s (recolor env st old) h5 = Some h6" by (simp add: update_surface_def s5 sf6_def h6_def)
  then have "applyState env s st h = Some h8"
    unfolding steps h3(1) by (simp add: h3(3,4) h4(1) h7(1) h5_def [symmetric] h8_def)
  moreover have "stays_mapped old st \<longrightarrow> mapped sf6 \<and> buffer (current sf6) \<noteq> None"
    using h4(5,6) R G by (auto simp: stays_mapped_def)
  ultimately show ?thesis using f8 h4(4) R by auto
qed

end
