(* ===== verification/TransactionRuns.thy ===== *)
theory TransactionRuns
  imports SurfaceFrames
begin

text \<open>
  \<open>tryApply\<close> as a whole: if the queues are in order, the tree has no cycle, and no surface with children is
  unmapped on the way, it returns, nothing that was deleted is used, and the transactions that were
  applied are gone from all queues, in an order that respects the order of the commits for each surface.
  The induction is over the number of transactions that are not being applied yet.
\<close>

section \<open>Links in the store\<close>

definition link_of :: "entry \<Rightarrow> link" where
  "link_of e = \<lparr>l_surface = e_surface e, l_prev = previousTransaction e, l_next = nextTransaction e\<rparr>"

definition link_table :: "store \<Rightarrow> link_table" where
  "link_table h t = map_option (map link_of) (transactions h t)"

definition ends_of :: "store \<Rightarrow> ends" where
  "ends_of h s = map_option (\<lambda>sf. (firstTransaction sf, lastTransaction sf)) (surfaces h s)"

lemma link_of_simps [simp]:
  "l_surface (link_of e) = e_surface e" "l_prev (link_of e) = previousTransaction e" "l_next (link_of e) = nextTransaction e"
  by (simp_all add: link_of_def)

lemma links_of_table: "transactions h t = Some es \<Longrightarrow> links_of (link_table h) t = map link_of es"
  by (simp add: links_of_def link_table_def)

lemma only_surface_links: "only_surface s h h' \<Longrightarrow> link_table h' = link_table h \<and> ends_of h' = ends_of h"
  by (auto simp: only_surface_def link_table_def ends_of_def fun_eq_iff)

text \<open>The surfaces of a transaction, as long as it is not being applied.\<close>

definition surfs :: "nat set \<Rightarrow> store \<Rightarrow> nat \<Rightarrow> nat set" where
  "surfs D h t = (if t \<in> D then {} else l_surface ` set (links_of (link_table h) t))"

definition queued :: "store \<Rightarrow> nat list \<Rightarrow> nat \<Rightarrow> entry set" where
  "queued h G s = {e. e_surface e = s \<and> (\<exists>t \<in> set G. \<exists>es. transactions h t = Some es \<and> e \<in> set es)}"

text \<open>
  A surface with queued states either stays mapped under all of them, or has no children under any. The
  children that the states name exist.
\<close>

definition calm_surface :: "surface \<Rightarrow> entry set \<Rightarrow> bool" where
  "calm_surface sf es \<longleftrightarrow>
     mapped sf \<and> buffer (current sf) \<noteq> None \<and>
       (\<forall>e \<in> es. Field_Buffer \<in> committed (e_state e) \<longrightarrow> buffer (e_state e) \<noteq> None) \<or>
     children_of (current sf) = [] \<and> (\<forall>e \<in> es. children_of (e_state e) = [])"

definition calm :: "nat list \<Rightarrow> store \<Rightarrow> bool" where
  "calm G h \<longleftrightarrow> (\<forall>s sf. surfaces h s = Some sf \<longrightarrow>
     (\<forall>e \<in> queued h G s. \<forall>c \<in> set (children_of (e_state e)). child_ok h c) \<and>
     (queued h G s \<noteq> {} \<longrightarrow> calm_surface sf (queued h G s)))"

lemma calm_mono:
  assumes "calm G h" and "surfaces h' = surfaces h" "same_shape h h'"
    and "\<And>s e. e \<in> queued h' G' s \<Longrightarrow> \<exists>e' \<in> queued h G s. e_state e' = e_state e"
  shows "calm G' h'"
proof -
  have c: "child_ok h' c = child_ok h c" for c using assms(3) by (rule child_ok_shape)
  show ?thesis
    unfolding calm_def
  proof (intro allI impI)
    fix s sf
    assume "surfaces h' s = Some sf"
    then have s: "surfaces h s = Some sf" using assms(2) by simp
    note C = assms(1) [unfolded calm_def, rule_format, OF s]
    show "(\<forall>e \<in> queued h' G' s. \<forall>c \<in> set (children_of (e_state e)). child_ok h' c) \<and>
      (queued h' G' s \<noteq> {} \<longrightarrow> calm_surface sf (queued h' G' s))"
    proof (intro conjI ballI impI)
      fix e k assume "e \<in> queued h' G' s" "k \<in> set (children_of (e_state e))"
      then show "child_ok h' k" using assms(4) [of e s] C unfolding c by metis
    next
      assume "queued h' G' s \<noteq> {}"
      then have "calm_surface sf (queued h G s)" using assms(4) C by blast
      then show "calm_surface sf (queued h' G' s)" using assms(4) unfolding calm_surface_def by metis
    qed
  qed
qed

definition good :: "nat list \<Rightarrow> (nat \<Rightarrow> nat) \<Rightarrow> nat set \<Rightarrow> store \<Rightarrow> bool" where
  "good G d D h \<longleftrightarrow> queues_ok G d (link_table h) (ends_of h) \<and> tree_ok h \<and> calm G h \<and> D \<subseteq> set G \<and>
     (\<forall>t \<in> D. \<forall>l \<in> set (links_of (link_table h) t). l_prev l = None) \<and> (\<forall>t. 0 < d t \<longrightarrow> t \<in> D)"

lemma store_shape:
  "surfaces h' = surfaces h \<Longrightarrow> subsurfaces h' = subsurfaces h \<Longrightarrow> client_tearingDown h' = client_tearingDown h \<Longrightarrow> same_shape h h'"
  by (simp add: same_shape_def alive_def [abs_def] handle_of_def [abs_def] parent_of_def [abs_def] surface_of_def [abs_def] discarded_def [abs_def]
      cong: option.case_cong)

definition in_order :: "(nat \<Rightarrow> nat set) \<Rightarrow> nat list \<Rightarrow> nat list \<Rightarrow> bool" where
  "in_order T G L \<longleftrightarrow> (\<forall>u \<in> set L. \<forall>v \<in> set (takeWhile (\<lambda>x. x \<noteq> u) G). T v \<inter> T u \<noteq> {} \<longrightarrow> v \<in> set (takeWhile (\<lambda>x. x \<noteq> u) L))"

text \<open>What running a call has done: \<open>L\<close> are the transactions that it has applied.\<close>

definition has_applied :: "nat list \<Rightarrow> nat set \<Rightarrow> store \<Rightarrow> store \<Rightarrow> nat list \<Rightarrow> bool" where
  "has_applied G D h h' L \<longleftrightarrow> applied h' = applied h @ L \<and> distinct L \<and> set L \<subseteq> set G - D \<and> in_order (surfs D h) G L \<and>
     (\<forall>u \<in> D. transactions h' u = transactions h u) \<and> (\<forall>u \<in> set G - set L. surfs {} h' u = surfs {} h u)"

abbreviation without :: "nat list \<Rightarrow> nat list \<Rightarrow> nat list" where
  "without G L \<equiv> filter (\<lambda>t. t \<notin> set L) G"

lemma has_applied_nothing:
  "applied h' = applied h \<Longrightarrow> transactions h' = transactions h \<Longrightarrow> has_applied G D h h' []"
  by (simp add: has_applied_def in_order_def surfs_def links_of_def link_table_def)

lemma surfs_mask: "u \<notin> D \<Longrightarrow> surfs D h u = surfs {} h u"
  by (simp add: surfs_def)

lemma takeWhile_neq_append:
  "takeWhile (\<lambda>x. x \<noteq> u) (xs @ ys) = (if u \<in> set xs then takeWhile (\<lambda>x. x \<noteq> u) xs else xs @ takeWhile (\<lambda>x. x \<noteq> u) ys)"
  by (induction xs) auto

lemma has_applied_append:
  assumes 1: "has_applied G D h h1 L1" and 2: "has_applied (without G L1) D h1 h2 L2"
  shows "has_applied G D h h2 (L1 @ L2)"
proof -
  have L: "distinct (L1 @ L2)" "set (L1 @ L2) \<subseteq> set G - D" using 1 2 by (auto simp: has_applied_def)
  have same: "surfs D h1 u = surfs D h u" if "u \<in> set G - set L1" for u
    using 1 that by (auto simp: has_applied_def surfs_def)
  have "in_order (surfs D h) G (L1 @ L2)"
    unfolding in_order_def
  proof (intro ballI impI)
    fix u v
    assume u: "u \<in> set (L1 @ L2)" and v: "v \<in> set (takeWhile (\<lambda>x. x \<noteq> u) G)" and sh: "surfs D h v \<inter> surfs D h u \<noteq> {}"
    show "v \<in> set (takeWhile (\<lambda>x. x \<noteq> u) (L1 @ L2))"
    proof (cases "u \<in> set L1")
      case True
      then show ?thesis using 1 v sh by (simp add: has_applied_def in_order_def takeWhile_neq_append)
    next
      case False
      then have u2: "u \<in> set L2" using u by simp
      have "v \<in> set L2' \<or> v \<in> set L1" if "L2' = takeWhile (\<lambda>x. x \<noteq> u) L2" for L2'
      proof (cases "v \<in> set L1")
        case v1: False
        have vG: "v \<in> set G" using v by (meson set_takeWhileD)
        have "v \<in> set (takeWhile (\<lambda>x. x \<noteq> u) (without G L1))" using v v1 False by (simp add: takeWhile_filter)
        moreover have "u \<in> set G" using u2 L by auto
        then have "surfs D h1 v \<inter> surfs D h1 u \<noteq> {}" using sh same [of u] same [of v] False v1 vG by simp
        ultimately show ?thesis using 2 u2 that by (simp add: has_applied_def in_order_def)
      qed simp
      then show ?thesis using False by (auto simp: takeWhile_neq_append)
    qed
  qed
  moreover have "\<forall>u \<in> set G - set (L1 @ L2). surfs {} h2 u = surfs {} h u" using 1 2 by (simp add: has_applied_def)
  ultimately show ?thesis using 1 2 L by (simp add: has_applied_def)
qed

section \<open>Applying the states of a transaction\<close>

lemma isReady_returns:
  assumes ok: "tree_ok h" and t: "transactions h t = Some es"
  shows "\<exists>r. isReady t h = Some r \<and> (r \<longrightarrow> (\<forall>e \<in> set es. previousTransaction e = None))"
proof -
  have e: "\<exists>w. entry_waits h e = Some w \<and> (\<not> w \<longrightarrow> previousTransaction e = None)" for e
  proof (cases "isDiscarded h e")
    case False
    then have "alive h (e_surface e)" by (auto simp: isDiscarded_def alive_def split: option.splits)
    then show ?thesis
      using mainSurfaceRoleGeneration_returns [OF ok, of "e_surface e"] by (auto simp: entry_waits_def alive_def)
  qed (auto simp: entry_waits_def ex_bool_eq)
  have "\<exists>r. none_waits h es = Some r \<and> (r \<longrightarrow> (\<forall>e \<in> set es. previousTransaction e = None))" for es
  proof (induction es)
    case (Cons a es)
    then show ?case using e [of a] by fastforce
  qed (simp add: ex_bool_eq)
  then show ?thesis using t by (simp add: isReady_def)
qed

lemma update_entry_eq:
  "transactions h t = Some es \<Longrightarrow> update_entry t i f h = Some (h\<lparr>transactions := (transactions h)(t \<mapsto> es[i := f (es ! i)])\<rparr>)"
  by (simp add: update_entry_def update_entries_def)

lemma apply_entry_good:
  assumes g: "tree_ok h" "calm G h" and t: "t \<in> set G" "transactions h t = Some es" and i: "i < length es"
  shows "\<exists>h' es'. apply_entry env t i h = Some h' \<and> tree_ok h' \<and> calm G h' \<and> applied h' = applied h \<and>
    link_table h' = link_table h \<and> ends_of h' = ends_of h \<and>
    transactions h' = (transactions h)(t \<mapsto> es') \<and> length es' = length es"
proof (cases "isDiscarded h (es ! i)")
  case True
  then have "apply_entry env t i h = Some h" using t by (simp add: apply_entry_def Let_def)
  moreover have "transactions h = (transactions h)(t \<mapsto> es)" using t by (simp add: fun_upd_idem)
  ultimately show ?thesis using g by blast
next
  case False
  define e where "e = es ! i"
  define s where "s = e_surface e"
  obtain old where old: "surfaces h s = Some old" using False by (auto simp: isDiscarded_def e_def s_def split: option.splits)
  have eq: "e \<in> queued h G s" using t nth_mem [OF i] by (auto simp: queued_def e_def s_def)
  note C = g(2) [unfolded calm_def, rule_format, OF old]
  have kind: "calm_surface old (queued h G s)" "\<forall>c \<in> set (children_of (e_state e)). child_ok h c" using C eq by auto
  have "stays_mapped old (e_state e) \<or> children_of (e_state e) = []"
    using kind(1) eq unfolding calm_surface_def stays_mapped_def by blast
  from applyState_returns [where env = env, OF old kind(2) g(1) this]
  obtain h1 new where h1: "applyState env s (e_state e) h = Some h1" "only_surface s h h1" "surfaces h1 s = Some new"
    "children_of (current new) = children_of (e_state e)"
    "stays_mapped old (e_state e) \<longrightarrow> mapped new \<and> buffer (current new) \<noteq> None" by blast
  define es' where "es' = es[i := e\<lparr>e_state := mergedFrom (createState env) (e_state e)\<rparr>]"
  define h2 where "h2 = h1\<lparr>transactions := (transactions h1)(t \<mapsto> es')\<rparr>"
  have t1: "transactions h1 = transactions h" "applied h1 = applied h" using h1(2) by (simp_all add: only_surface_def)
  have run: "apply_entry env t i h = Some h2"
    using False t(2) h1(1) t1 by (simp add: apply_entry_def Let_def e_def [symmetric] s_def [symmetric] update_entry_eq h2_def es'_def)
  have sh: "same_shape h h2"
    using same_shape_trans [OF only_surface_shape [OF h1(2)] store_shape [of h2 h1]] by (simp add: h2_def)
  have "map link_of es' = map link_of es"
    using i by (auto simp: es'_def map_update link_of_def e_def list_update_same_conv)
  then have l2: "link_table h2 = link_table h" "ends_of h2 = ends_of h"
    using only_surface_links [OF h1(2)] t(2) t1 by (auto simp: h2_def link_table_def ends_of_def fun_eq_iff)
  have old_entry: "\<exists>e' \<in> queued h G x. children_of (e_state e') = children_of (e_state k) \<and>
      (Field_Buffer \<in> committed (e_state k) \<longrightarrow> e_state k = e_state e')" if "k \<in> queued h2 G x" for k x
  proof -
    obtain u us where u: "u \<in> set G" "transactions h2 u = Some us" "k \<in> set us" "e_surface k = x"
      using \<open>k \<in> queued h2 G x\<close> by (auto simp: queued_def)
    show ?thesis
    proof (cases "u = t \<and> k = e\<lparr>e_state := mergedFrom (createState env) (e_state e)\<rparr>")
      case True
      then show ?thesis using u eq by (intro bexI [of _ e]) (auto simp: mergedFrom_def children_of_def Let_def s_def)
    next
      case False
      have "k \<in> set us'" if "transactions h u = Some us'" for us'
        using u False that t(2) t1 set_update_subset_insert [of es i] by (auto simp: h2_def es'_def split: if_splits)
      moreover have "transactions h u \<noteq> None" using u t(2) t1 by (auto simp: h2_def split: if_splits)
      ultimately show ?thesis using u by (auto simp: queued_def)
    qed
  qed
  have "calm G h2"
    unfolding calm_def
  proof (intro allI impI)
    fix x sf assume x: "surfaces h2 x = Some sf"
    then obtain sf0 where sf0: "surfaces h x = Some sf0" "x \<noteq> s \<longrightarrow> sf0 = sf" "x = s \<longrightarrow> sf = new \<and> sf0 = old"
      using h1(2,3) old by (auto simp: h2_def only_surface_def split: if_splits)
    note Cx = g(2) [unfolded calm_def, rule_format, OF sf0(1)]
    have "calm_surface sf (queued h2 G x)" if "queued h2 G x \<noteq> {}"
    proof -
      have cx: "calm_surface sf0 (queued h G x)" using Cx that old_entry by blast
      have "(\<forall>e \<in> queued h G x. children_of (e_state e) = []) \<Longrightarrow> (\<forall>e \<in> queued h2 G x. children_of (e_state e) = [])"
        using old_entry by metis
      moreover have "(\<forall>e \<in> queued h G x. Field_Buffer \<in> committed (e_state e) \<longrightarrow> buffer (e_state e) \<noteq> None) \<Longrightarrow>
          (\<forall>e \<in> queued h2 G x. Field_Buffer \<in> committed (e_state e) \<longrightarrow> buffer (e_state e) \<noteq> None)"
        using old_entry by metis
      moreover have "mapped sf0 \<and> buffer (current sf0) \<noteq> None \<and> (\<forall>e \<in> queued h G x. Field_Buffer \<in> committed (e_state e) \<longrightarrow> buffer (e_state e) \<noteq> None)
          \<Longrightarrow> mapped sf \<and> buffer (current sf) \<noteq> None"
        using sf0 h1(5) eq by (cases "x = s") (auto simp: stays_mapped_def)
      moreover have "children_of (current sf0) = [] \<and> (\<forall>e \<in> queued h G x. children_of (e_state e) = []) \<Longrightarrow> children_of (current sf) = []"
        using sf0 h1(4) eq by (cases "x = s") auto
      ultimately show ?thesis using cx unfolding calm_surface_def by blast
    qed
    then show "(\<forall>e \<in> queued h2 G x. \<forall>c \<in> set (children_of (e_state e)). child_ok h2 c) \<and>
        (queued h2 G x \<noteq> {} \<longrightarrow> calm_surface sf (queued h2 G x))"
      using Cx old_entry unfolding child_ok_shape [OF sh] by metis
  qed
  then show ?thesis using run l2 tree_ok_shape [OF sh] g(1) t1 by (auto simp: h2_def es'_def)
qed

text \<open>\<open>std::sort\<close> returns the same entries in some order.\<close>

definition sort_ok :: "surface_env \<Rightarrow> bool" where
  "sort_ok env \<longleftrightarrow> (\<forall>less es. mset (sort_entries env less es) = mset es)"

lemma sorted_entries_returns:
  assumes "tree_ok h" "sort_ok env"
  shows "\<exists>es'. sorted_entries env h es = Some es' \<and> mset es' = mset es"
proof -
  have "list_all (\<lambda>i. list_all (\<lambda>j. i = j \<or> entry_less env h (es ! i) (es ! j) \<noteq> None) [0..<length es]) [0..<length es]"
    using entry_less_returns [OF assms(1)] by (simp add: list_all_iff)
  then have "sorted_entries env h es = Some (sort_entries env (\<lambda>a b. entry_less env h a b = Some True) es)"
    unfolding sorted_entries_def by (rule if_P)
  then show ?thesis using assms(2) by (simp add: sort_ok_def)
qed

lemma apply_entries_good:
  assumes "tree_ok h" "calm G h" "t \<in> set G" "transactions h t = Some es" "\<forall>i \<in> set is. i < length es"
  shows "\<exists>h' es'. each_object (apply_entry env t) is h = Some h' \<and> tree_ok h' \<and> calm G h' \<and> applied h' = applied h \<and>
    link_table h' = link_table h \<and> ends_of h' = ends_of h \<and>
    transactions h' = (transactions h)(t \<mapsto> es') \<and> length es' = length es"
  using assms
proof (induction "is" arbitrary: h es)
  case Nil
  moreover have "transactions h = (transactions h)(t \<mapsto> es)" using Nil by (simp add: fun_upd_idem)
  ultimately show ?case by (metis each_object.simps(1))
next
  case (Cons i "is")
  have i: "i < length es" using Cons.prems(5) by simp
  obtain h1 es1 where 1: "apply_entry env t i h = Some h1" "tree_ok h1" "calm G h1" "applied h1 = applied h"
    "link_table h1 = link_table h" "ends_of h1 = ends_of h" "transactions h1 = (transactions h)(t \<mapsto> es1)" "length es1 = length es"
    using apply_entry_good [OF Cons.prems(1-4) i] by blast
  have "transactions h1 t = Some es1" "\<forall>i \<in> set is. i < length es1" using 1 Cons.prems(5) by simp_all
  from Cons.IH [OF 1(2,3) Cons.prems(3) this] obtain h2 es2 where
    "each_object (apply_entry env t) is h1 = Some h2 \<and> tree_ok h2 \<and> calm G h2 \<and> applied h2 = applied h1 \<and>
      link_table h2 = link_table h1 \<and> ends_of h2 = ends_of h1 \<and> transactions h2 = (transactions h1)(t \<mapsto> es2) \<and> length es2 = length es1"
    by blast
  then have "each_object (apply_entry env t) (i # is) h = Some h2 \<and> tree_ok h2 \<and> calm G h2 \<and> applied h2 = applied h \<and>
      link_table h2 = link_table h \<and> ends_of h2 = ends_of h \<and> transactions h2 = (transactions h)(t \<mapsto> es2) \<and> length es2 = length es"
    using 1 by simp
  then show ?case by blast
qed

lemma update_entries_frame:
  "same_shape h (h\<lparr>transactions := T, applied := l\<rparr>)" "ends_of (h\<lparr>transactions := T, applied := l\<rparr>) = ends_of h"
  by (simp_all add: store_shape ends_of_def fun_eq_iff)

lemma apply_states_good:
  assumes env: "sort_ok env" and g: "good G d D h" and t: "t \<in> set G" "t \<notin> D" "transactions h t = Some es"
    and prev: "\<forall>e \<in> set es. previousTransaction e = None"
  shows "\<exists>h' es'. apply_states env t h = Some h' \<and> good G d (insert t D) h' \<and> applied h' = applied h @ [t] \<and>
    transactions h' = (transactions h)(t \<mapsto> es') \<and> surfs {} h' = surfs {} h"
proof -
  have ok: "queues_ok G d (link_table h) (ends_of h)" "tree_ok h" "calm G h" and d: "d t = 0"
    using g t(2) by (auto simp: good_def)
  obtain es1 where es1: "sorted_entries env h es = Some es1" "mset es1 = mset es" using sorted_entries_returns [OF ok(2) env] by blast
  define h1 where "h1 = h\<lparr>transactions := (transactions h)(t \<mapsto> es1), applied := applied h @ [t]\<rparr>"
  have sh: "same_shape h h1" "ends_of h1 = ends_of h" by (simp_all add: h1_def update_entries_frame)
  have tree1: "tree_ok h1" using ok(2) tree_ok_shape [OF sh(1)] by simp
  have set1: "set es1 = set es" using es1(2) by (rule mset_eq_setD)
  have calm1: "calm G h1"
  proof (rule calm_mono [OF ok(3)])
    show "surfaces h1 = surfaces h" "same_shape h h1" using sh by (simp_all add: h1_def)
    show "\<exists>e' \<in> queued h G s. e_state e' = e_state e" if "e \<in> queued h1 G s" for s e
      using that t(3) set1 by (fastforce simp: queued_def h1_def split: if_splits)
  qed
  have lt1: "link_table h1 = (link_table h)(t \<mapsto> map link_of es1)" by (auto simp: link_table_def h1_def)
  have "link_table h t = Some (map link_of es)" using t(3) by (simp add: link_table_def)
  note P = perm_ok [OF ok(1) this _ d, of "map link_of es1"]
  have q1: "queues_ok G d (link_table h1) (ends_of h1)" unfolding lt1 sh(2) by (rule P(1)) (simp add: es1(2))
  have t1: "transactions h1 t = Some es1" by (simp add: h1_def)
  obtain h2 es2 where 2: "each_object (apply_entry env t) [0..<length es1] h1 = Some h2" "tree_ok h2" "calm G h2" "applied h2 = applied h1"
    "link_table h2 = link_table h1" "ends_of h2 = ends_of h1" "transactions h2 = (transactions h1)(t \<mapsto> es2)"
    using apply_entries_good [OF tree1 calm1 t(1) t1, of "[0..<length es1]" env] by auto
  have run: "apply_states env t h = Some h2"
    using t(3) es1(1) 2(1) by (simp add: apply_states_def update_entries_def h1_def)
  have D: "\<forall>u \<in> insert t D. \<forall>l \<in> set (links_of (link_table h2) u). l_prev l = None"
    using g t(2) prev set1 unfolding 2(5) lt1 by (auto simp: good_def links_of_def)
  have "good G d (insert t D) h2"
    using g t(1) q1 2 D by (auto simp: good_def)
  moreover have "surfs {} h2 = surfs {} h"
  proof
    fix u
    show "surfs {} h2 u = surfs {} h u"
    proof (cases "u = t")
      case True
      then show ?thesis using set1 links_of_table [OF t(3)] unfolding surfs_def 2(5) lt1 by (simp add: links_of_def image_image)
    qed (simp add: surfs_def 2(5) lt1 links_of_def)
  qed
  ultimately show ?thesis using run 2 by (auto simp: h1_def)
qed

section \<open>Taking entries off the queues\<close>

lemma clear_previous_links: "map link_of (clear_previous t es) = clear_prev t (map link_of es)"
  by (induction es) (auto simp: link_of_def)

lemma clear_previous_states: "e \<in> set (clear_previous t es) \<Longrightarrow> \<exists>e' \<in> set es. e_state e' = e_state e \<and> e_surface e' = e_surface e"
  by (induction es) (auto split: if_splits)

lemma pop_surface_eq:
  "\<exists>h'. pop_surface t e h = Some h' \<and> same_shape h h' \<and> transactions h' = transactions h \<and> applied h' = applied h \<and>
    ends_of h' = pop_ends t (link_of e) (ends_of h) \<and>
    (\<forall>s. map_option (\<lambda>sf. (mapped sf, current sf)) (surfaces h' s) = map_option (\<lambda>sf. (mapped sf, current sf)) (surfaces h s))"
proof (cases "surfaces h (e_surface e)")
  case None
  then show ?thesis by (auto simp: pop_surface_def pop_ends_def ends_of_def)
next
  case (Some sf)
  then show ?thesis
    by (auto simp: pop_surface_def update_surface_def pop_ends_def ends_of_def same_shape_def alive_def handle_of_def
        parent_of_def surface_of_def discarded_def fun_eq_iff split: option.splits)
qed

lemma calm_core:
  assumes "calm G h" "same_shape h h'"
    and s: "\<And>s. map_option (\<lambda>sf. (mapped sf, current sf)) (surfaces h' s) = map_option (\<lambda>sf. (mapped sf, current sf)) (surfaces h s)"
    and q: "\<And>s e. e \<in> queued h' G' s \<Longrightarrow> \<exists>e' \<in> queued h G s. e_state e' = e_state e"
  shows "calm G' h'"
proof -
  have c: "child_ok h' k = child_ok h k" for k using assms(2) by (rule child_ok_shape)
  show ?thesis
    unfolding calm_def
  proof (intro allI impI)
    fix x sf assume "surfaces h' x = Some sf"
    then obtain sf0 where sf0: "surfaces h x = Some sf0" "mapped sf0 = mapped sf" "current sf0 = current sf" using s [of x] by (cases "surfaces h x") auto
    note C = assms(1) [unfolded calm_def, rule_format, OF sf0(1)]
    have "queued h' G' x \<noteq> {} \<longrightarrow> calm_surface sf (queued h' G' x)"
    proof
      assume "queued h' G' x \<noteq> {}"
      then have "calm_surface sf0 (queued h G x)" using q C by blast
      then show "calm_surface sf (queued h' G' x)" using q [of _ x] unfolding calm_surface_def sf0 by metis
    qed
    then show "(\<forall>e \<in> queued h' G' x. \<forall>k \<in> set (children_of (e_state e)). child_ok h' k) \<and>
        (queued h' G' x \<noteq> {} \<longrightarrow> calm_surface sf (queued h' G' x))"
      using C q [of _ x] unfolding c by metis
  qed
qed

end
