(* ===== verification/SurfaceTypes.thy ===== *)
theory SurfaceTypes
  imports SurfaceRequests TransactionRuns
begin

text \<open>
  What every state in the store promises, whatever the clients request. The locale \<open>store_type\<close> has a
  predicate on states and one on the derived geometry as its parameters, and as its laws that merging, applying
  and the fields that no other field is computed from keep them; all operations then keep them everywhere in
  the store. It is interpreted with the invariant of the regions and with the scales, which are divisors.
\<close>

lemma each_object_keeps:
  assumes "each_object f xs h = Some h'" and "P h" and "\<And>x h h'. x \<in> set xs \<Longrightarrow> P h \<Longrightarrow> f x h = Some h' \<Longrightarrow> P h'"
  shows "P h'"
  using assms by (induction xs arbitrary: h) (auto simp: bind_eq_Some_conv)

text \<open>The fields of states and surfaces that the regions and scales are in.\<close>

definition state_core :: "surface_state \<Rightarrow> _" where
  "state_core st = (damage st, bufferDamage st, opaque st, input st, bufferScale st, blurRegion st)"

definition surface_core :: "surface \<Rightarrow> _" where
  "surface_core sf = (inputRegion sf, opaqueRegion sf, surface_bufferDamage sf, serverScale sf, clientToCompositorScale sf)"

text \<open>The steps of \<open>applyState\<close>.\<close>

lemma applyStateE:
  assumes "applyState env s st h = Some h'"
  obtains old h1 h2 h3 sf3 h4 h6 h7 where "surfaces h s = Some old" "update_surface s (\<lambda>_. merged_surface env st old) h = Some h1"
    "h2 = h1 \<or> (\<exists>sg. h2 = emit_surface sg h1)" "h3 = h2 \<or> updateEffectiveMapped s h2 = Some h3" "surfaces h3 s = Some sf3"
    "h4 = h3 \<or> (\<exists>k. clear_presentation s h3 = Some k \<and> each_object clear_child_presentation (children_of (current sf3)) k = Some h4)"
    "update_surface s (recolor env st old) (fold emit_surface (state_signals s old st sf3) h4) = Some h6"
    "each_object parentApplyState (children_of (current sf3)) h6 = Some h7"
    "h' = emit_surface (Committed s) (emit_surface (ExtensionsApplied s (extensions (current sf3))) h7)"
proof -
  obtain old h1 h3 sf3 h4 h6 h7 where
    "surfaces h s = Some old" "update_surface s (\<lambda>_. merged_surface env st old) h = Some h1" "surfaces h3 s = Some sf3"
    and 3: "(if Field_Buffer \<in> committed st \<and> (buffer (current old) = None) \<noteq> (buffer st = None)
      then updateEffectiveMapped s (case (bufferRef (merged_surface env st old), releasePoint (current (merged_surface env st old))) of
        (Some b, Some r) \<Rightarrow> emit_surface (ReleasePointAdded b r) h1 | _ \<Rightarrow> h1)
      else Some (case (bufferRef (merged_surface env st old), releasePoint (current (merged_surface env st old))) of
        (Some b, Some r) \<Rightarrow> emit_surface (ReleasePointAdded b r) h1 | _ \<Rightarrow> h1)) = Some h3"
    and 4: "(if mapped sf3 then Some h3
      else clear_presentation s h3 \<bind> each_object clear_child_presentation (children_of (current sf3))) = Some h4"
    and "update_surface s (recolor env st old) (fold emit_surface (state_signals s old st sf3) h4) = Some h6"
    "each_object parentApplyState (children_of (current sf3)) h6 = Some h7"
    "h' = emit_surface (Committed s) (emit_surface (ExtensionsApplied s (extensions (current sf3))) h7)"
    using assms unfolding applyState_def Let_def bind_eq_Some_conv option.inject by (elim exE conjE) (rule that, assumption+, rule sym)
  moreover define h2 where "h2 = (case (bufferRef (merged_surface env st old), releasePoint (current (merged_surface env st old))) of
    (Some b, Some r) \<Rightarrow> emit_surface (ReleasePointAdded b r) h1 | _ \<Rightarrow> h1)"
  moreover have "h2 = h1 \<or> (\<exists>sg. h2 = emit_surface sg h1)" by (auto simp: h2_def split: option.splits)
  moreover have "h3 = h2 \<or> updateEffectiveMapped s h2 = Some h3" using 3 unfolding h2_def [symmetric] by (simp split: if_splits)
  moreover have "h4 = h3 \<or> (\<exists>k. clear_presentation s h3 = Some k \<and> each_object clear_child_presentation (children_of (current sf3)) k = Some h4)"
    using 4 by (auto simp: bind_eq_Some_conv split: if_splits)
  ultimately show ?thesis using that by blast
qed

definition same_transactions :: "store \<Rightarrow> store \<Rightarrow> bool" where
  "same_transactions h h' \<longleftrightarrow> transactions h' = transactions h \<and> applied h' = applied h"

lemma same_transactions_emit [simp]: "same_transactions h (emit_surface sg h') = same_transactions h h'"
  "same_transactions h (fold emit_surface sgs h') = same_transactions h h'"
proof -
  show 1: "same_transactions h (emit_surface sg h') = same_transactions h h'" for sg h' by (simp add: same_transactions_def emit_surface_def)
  show "same_transactions h (fold emit_surface sgs h') = same_transactions h h'"
    by (induction sgs arbitrary: h') (simp_all add: 1)
qed

lemma same_transactions_update: "same_transactions h k \<Longrightarrow> update_surface s f k = Some h' \<Longrightarrow> same_transactions h h'"
  by (auto simp: same_transactions_def update_surface_def split: option.splits)

lemma same_transactions_mapped: "same_transactions h k \<Longrightarrow> set_mapped s b k = Some h' \<Longrightarrow> same_transactions h h'"
  by (auto simp: set_mapped_def dest: same_transactions_update)

lemma same_transactions_children:
  assumes "update_children_mapped cs k = Some h'" "same_transactions h k"
  shows "same_transactions h h'"
  using assms
proof (induction rule: update_children_mapped.raw_induct [rotated, consumes 1, case_names step])
  case (step f cs k h')
  then show ?case
    by (auto simp: bind_eq_Some_conv split: list.splits if_splits dest: same_transactions_mapped)
qed

lemma same_transactions_parent: "same_transactions h k \<Longrightarrow> parentApplyState c k = Some h' \<Longrightarrow> same_transactions h h'"
  by (auto simp: parentApplyState_def bind_eq_Some_conv Let_def update_subsurface_def same_transactions_def emit_surface_def split: if_splits option.splits)

lemma applyState_transactions:
  assumes "applyState env s st h = Some h'"
  shows "same_transactions h h'"
proof -
  note rules = same_transactions_update same_transactions_children same_transactions_mapped
  have clear: "clear_presentation s k = Some k' \<Longrightarrow> same_transactions h k \<Longrightarrow> same_transactions h k'" for s k k'
    by (auto simp: clear_presentation_def dest: same_transactions_update)
  from assms show ?thesis
  proof (cases rule: applyStateE)
    case (1 old h1 h2 h3 sf3 h4 h6 h7)
    have "same_transactions h h1" using same_transactions_update [OF _ 1(2), of h] by (simp add: same_transactions_def)
    then have "same_transactions h h2" using 1(3) by auto
    then have "same_transactions h h3"
      using 1(4) by (auto simp: updateEffectiveMapped_def bind_eq_Some_conv split: if_splits dest: rules)
    then have "same_transactions h h4"
      using 1(6) clear
      by (auto simp: clear_child_presentation_def bind_eq_Some_conv elim!: each_object_keeps [where P = "same_transactions h"])
    then have "same_transactions h h6" using same_transactions_update [OF _ 1(7)] by simp
    then have "same_transactions h h7" by (rule each_object_keeps [OF 1(8), of "same_transactions h"]) (rule same_transactions_parent)
    then show ?thesis unfolding 1(9) by simp
  qed
qed

locale store_type =
  fixes state_ok :: "surface_state \<Rightarrow> bool"
    and geometry_ok :: "surface \<Rightarrow> bool"
  assumes state_new: "state_ok SurfaceState_new"
    and state_cong: "state_ok s \<Longrightarrow> state_core s' = state_core s \<Longrightarrow> state_ok s'"
    and merges: "state_ok s \<Longrightarrow> state_ok t \<Longrightarrow> state_ok (mergeInto create s t)"
    and merged: "state_ok s \<Longrightarrow> state_ok (mergedFrom create s)"
    and no_damage: "state_ok s \<Longrightarrow> state_ok (s\<lparr>damage := Region_new, bufferDamage := Region_new\<rparr>)"
    and geometry_cong: "geometry_ok sf \<Longrightarrow> surface_core sf' = surface_core sf \<Longrightarrow> geometry_ok sf'"
    and with_buffer: "state_ok (current sf) \<Longrightarrow> geometry_ok sf \<Longrightarrow> geometry_ok (buffer_geometry env b sf)"
    and without_buffer: "geometry_ok sf \<Longrightarrow> geometry_ok (no_geometry sf)"
begin

definition surface_ok :: "surface \<Rightarrow> bool" where
  "surface_ok sf \<longleftrightarrow> state_ok (current sf) \<and> state_ok (pending sf) \<and> geometry_ok sf"

definition entries_ok :: "entry list \<Rightarrow> bool" where
  "entries_ok es \<longleftrightarrow> (\<forall>e \<in> set es. state_ok (e_state e))"

definition store_ok :: "store \<Rightarrow> bool" where
  "store_ok h \<longleftrightarrow> (\<forall>s sf. surfaces h s = Some sf \<longrightarrow> surface_ok sf) \<and> (\<forall>t es. transactions h t = Some es \<longrightarrow> entries_ok es)"

lemma store_okD:
  "store_ok h \<Longrightarrow> surfaces h s = Some sf \<Longrightarrow> surface_ok sf"
  "store_ok h \<Longrightarrow> transactions h t = Some es \<Longrightarrow> entries_ok es"
  by (auto simp: store_ok_def)

lemma store_other: "surfaces h' = surfaces h \<Longrightarrow> transactions h' = transactions h \<Longrightarrow> store_ok h' = store_ok h"
  by (simp add: store_ok_def)

lemma keep_emit [simp]: "store_ok (emit_surface sg h) = store_ok h"
  by (simp add: emit_surface_def store_ok_def)

lemma keep_emits [simp]: "store_ok (fold emit_surface sgs h) = store_ok h"
  by (induction sgs arbitrary: h) simp_all

lemma keep_delete: "store_ok h \<Longrightarrow> store_ok (h\<lparr>transactions := (transactions h)(t := None)\<rparr>)"
  by (auto simp: store_ok_def split: if_splits)

lemma keep_update:
  assumes "store_ok h" "update_surface s f h = Some h'" "\<And>sf. surfaces h s = Some sf \<Longrightarrow> surface_ok sf \<Longrightarrow> surface_ok (f sf)"
  shows "store_ok h'"
  using assms by (auto simp: store_ok_def update_surface_def split: option.splits if_splits)

lemma surface_same:
  "surface_ok sf \<Longrightarrow> state_core (current sf') = state_core (current sf) \<Longrightarrow> state_core (pending sf') = state_core (pending sf) \<Longrightarrow>
     surface_core sf' = surface_core sf \<Longrightarrow> surface_ok sf'"
  using state_cong geometry_cong by (auto simp: surface_ok_def)

lemma keep_update_same:
  assumes "store_ok h" "update_surface s f h = Some h'"
    and "\<And>sf. state_core (current (f sf)) = state_core (current sf) \<and> state_core (pending (f sf)) = state_core (pending sf) \<and>
      surface_core (f sf) = surface_core sf"
  shows "store_ok h'"
  using keep_update [OF assms(1,2)] surface_same assms(3) by blast

lemma keep_entries:
  assumes "store_ok h" "update_entries t f h = Some h'" "\<And>es. entries_ok es \<Longrightarrow> entries_ok (f es)"
  shows "store_ok h'"
  using assms by (auto simp: store_ok_def update_entries_def split: option.splits if_splits)

lemma keep_subsurface: "store_ok h \<Longrightarrow> update_subsurface c f h = Some h' \<Longrightarrow> store_ok h'"
  by (auto simp: update_subsurface_def store_ok_def split: option.splits)

lemma entries_map:
  "entries_ok es \<Longrightarrow> (\<And>e. state_ok (e_state e) \<Longrightarrow> state_ok (e_state (f e))) \<Longrightarrow> entries_ok (map f es)"
  by (auto simp: entries_ok_def)

lemma entries_update: "entries_ok es \<Longrightarrow> (\<And>e. e \<in> set es \<Longrightarrow> state_ok (e_state e) \<Longrightarrow> state_ok (e_state (f e))) \<Longrightarrow> entries_ok (es[i := f (es ! i)])"
  by (cases "i < length es") (fastforce simp: entries_ok_def list_update_beyond dest!: set_update_subset_insert [THEN subsetD])+

section \<open>Applying\<close>

lemma keep_mapped:
  assumes "store_ok h" "set_mapped s b h = Some h'"
  shows "store_ok h'"
proof -
  obtain k where k: "update_surface s (\<lambda>sf. sf\<lparr>mapped := b\<rparr>) h = Some k" "store_ok h' = store_ok k"
    using assms(2) by (auto simp: set_mapped_def intro: that)
  show ?thesis unfolding k(2) by (rule keep_update_same [OF assms(1) k(1)]) (simp add: state_core_def surface_core_def)
qed

lemma keep_children_mapped:
  assumes "update_children_mapped cs h = Some h'" "store_ok h"
  shows "store_ok h'"
  using assms
proof (induction rule: update_children_mapped.raw_induct [rotated, consumes 1, case_names step])
  case (step f cs h h')
  then show ?case
    by (auto simp: bind_eq_Some_conv split: list.splits if_splits dest: keep_mapped)
qed

lemma keep_effective: "store_ok h \<Longrightarrow> updateEffectiveMapped s h = Some h' \<Longrightarrow> store_ok h'"
  by (auto simp: updateEffectiveMapped_def bind_eq_Some_conv split: if_splits dest: keep_mapped keep_children_mapped)

lemma keep_clear: "store_ok h \<Longrightarrow> clear_presentation s h = Some h' \<Longrightarrow> store_ok h'"
  unfolding clear_presentation_def by (erule (1) keep_update_same) (simp add: state_core_def surface_core_def)

lemma keep_clear_child: "store_ok h \<Longrightarrow> clear_child_presentation c h = Some h' \<Longrightarrow> store_ok h'"
  by (auto simp: clear_child_presentation_def bind_eq_Some_conv dest: keep_clear)

lemma keep_parentApply: "store_ok h \<Longrightarrow> parentApplyState c h = Some h' \<Longrightarrow> store_ok h'"
  by (auto simp: parentApplyState_def bind_eq_Some_conv Let_def split: if_splits dest: keep_subsurface)

lemma merged_ok:
  assumes "surface_ok sf" "state_ok st"
  shows "surface_ok (merged_surface env st sf)"
proof -
  let ?cur = "mergeInto (createState env) st (current sf)"
  let ?sf = "sf\<lparr>current := ?cur, bufferRef := buffer ?cur\<rparr>"
  have cur: "state_ok ?cur" using merges assms by (simp add: surface_ok_def)
  have sf: "geometry_ok ?sf" using assms(1) geometry_cong [of sf ?sf] by (simp add: surface_ok_def surface_core_def)
  show ?thesis
  proof (cases "buffer ?cur")
    case None
    then show ?thesis
      using cur without_buffer [OF sf] assms(1) by (simp add: merged_surface_def Let_def surface_ok_def no_geometry_def)
  next
    case (Some b)
    then show ?thesis
      using no_damage [OF cur] with_buffer [of ?sf env b] cur sf assms(1)
      by (simp add: merged_surface_def Let_def surface_ok_def buffer_geometry_def)
  qed
qed

lemma recolor_ok: "surface_ok sf \<Longrightarrow> surface_ok (recolor env st old sf)"
  by (auto simp: recolor_def Let_def state_core_def surface_core_def elim: surface_same)

lemma keep_apply: 
  assumes "store_ok h" "state_ok st" "applyState env s st h = Some h'"
  shows "store_ok h'"
  using assms(3)
proof (cases rule: applyStateE)
  case (1 old h1 h2 h3 sf3 h4 h6 h7)
  have "store_ok h1" using keep_update [OF assms(1) 1(2)] merged_ok assms(2) store_okD(1) [OF assms(1) 1(1)] by blast
  then have "store_ok h2" using 1(3) by auto
  then have "store_ok h3" using 1(4) keep_effective by blast
  then have "store_ok h4" using 1(6) by (auto intro: each_object_keeps keep_clear keep_clear_child)
  then have "store_ok h6" using keep_update [OF _ 1(7)] recolor_ok by simp
  then have "store_ok h7" by (rule each_object_keeps [OF 1(8), of store_ok]) (rule keep_parentApply)
  then show ?thesis unfolding 1(9) by simp
qed

section \<open>Transactions\<close>

lemma keep_apply_entry:
  assumes "store_ok h" "apply_entry env t i h = Some h'" "transactions h t = Some es" "i < length es"
  shows "store_ok h' \<and> map_option length (transactions h' t) = Some (length es)"
proof (cases "isDiscarded h (es ! i)")
  case True
  then show ?thesis using assms by (simp add: apply_entry_def Let_def)
next
  case False
  have ok: "state_ok (e_state (es ! i))" using store_okD(2) [OF assms(1,3)] assms(4) by (simp add: entries_ok_def)
  obtain h1 where 1: "applyState env (e_surface (es ! i)) (e_state (es ! i)) h = Some h1"
    "update_entry t i (\<lambda>e. e\<lparr>e_state := mergedFrom (createState env) (e_state e)\<rparr>) h1 = Some h'"
    using assms(2,3) False by (auto simp: apply_entry_def Let_def bind_eq_Some_conv)
  have "store_ok h1" "transactions h1 t = Some es"
    using keep_apply [OF assms(1) ok 1(1)] applyState_transactions [OF 1(1)] assms(3) by (simp_all add: same_transactions_def)
  then show ?thesis
    using keep_entries [OF _ 1(2) [unfolded update_entry_def]] entries_update [of _ "\<lambda>e. e\<lparr>e_state := mergedFrom (createState env) (e_state e)\<rparr>" i] 1(2) merged
    by (auto simp: update_entry_def update_entries_def)
qed

lemma keep_sorted: "sort_ok env \<Longrightarrow> entries_ok es \<Longrightarrow> sorted_entries env h es = Some es' \<Longrightarrow> entries_ok es'"
proof -
  assume sorts: "sort_ok env" and es: "entries_ok es" and "sorted_entries env h es = Some es'"
  then have "mset es' = mset es" using sorts by (auto simp: sorted_entries_def sort_ok_def split: if_splits)
  then show "entries_ok es'" using es mset_eq_setD [of es' es] by (simp add: entries_ok_def)
qed

lemma keep_apply_states:
  assumes sorts: "sort_ok env" and ok: "store_ok h" "apply_states env t h = Some h'"
  shows "store_ok h'"
proof -
  obtain es es' h1 where 1: "transactions h t = Some es" "sorted_entries env h es = Some es'" "update_entries t (\<lambda>_. es') h = Some h1"
    "each_object (apply_entry env t) [0..<length es'] (h1\<lparr>applied := applied h1 @ [t]\<rparr>) = Some h'"
    using ok(2) unfolding apply_states_def Let_def bind_eq_Some_conv by blast
  have "entries_ok es'" using keep_sorted [OF sorts store_okD(2) [OF ok(1) 1(1)] 1(2)] .
  then have "store_ok h1" using keep_entries [OF ok(1) 1(3)] by blast
  then have "store_ok (h1\<lparr>applied := applied h1 @ [t]\<rparr>) \<and> map_option length (transactions h1 t) = Some (length es')"
    using 1(1,3) by (auto simp: store_ok_def update_entries_def)
  then have "store_ok h' \<and> map_option length (transactions h' t) = Some (length es')"
    by (intro each_object_keeps [OF 1(4), of "\<lambda>h. store_ok h \<and> map_option length (transactions h t) = Some (length es')"])
      (use keep_apply_entry in \<open>force simp: map_option_case split: option.splits\<close>)+
  then show ?thesis ..
qed

lemma keep_pop: "store_ok h \<Longrightarrow> pop_surface t e h = Some h' \<Longrightarrow> store_ok h'"
  unfolding pop_surface_def by (auto split: option.splits) (erule (1) keep_update_same, simp add: state_core_def surface_core_def)

lemma entries_clear: "entries_ok es \<Longrightarrow> entries_ok (clear_previous t es)"
  by (induction es) (auto simp: entries_ok_def)

lemma keep_run:
  assumes "transaction_run env c h = Some h'" "sort_ok env" "store_ok h"
  shows "store_ok h'"
  using assms
proof (induction rule: transaction_run.raw_induct [rotated, consumes 1, case_names step])
  case (step run env c h h')
  note IH = step.IH [OF _ step.prems(1)]
  note body = step.hyps
  note ok = step.prems(2)
  show ?case
  proof (cases c)
    case (TryApply t)
    then show ?thesis using body ok IH by (auto simp: bind_eq_Some_conv split: if_splits)
  next
    case (Apply t)
    then obtain h1 h2 where 1: "apply_states env t h = Some h1" "run env (From_entry t 0) h1 = Some h2"
      "h' = h2\<lparr>transactions := (transactions h2)(t := None)\<rparr>"
      using body by (auto simp: bind_eq_Some_conv)
    then show ?thesis using keep_delete [OF IH [OF 1(2) keep_apply_states [OF step.prems(1) ok 1(1)]]] by simp
  next
    case (From_entry t i)
    obtain es where es: "transactions h t = Some es" using body From_entry by (auto simp: bind_eq_Some_conv)
    show ?thesis
    proof (cases "length es \<le> i")
      case True
      then show ?thesis using body ok From_entry es by simp
    next
      case False
      let ?e = "es ! i"
      obtain h1 h2 h3 where 1: "pop_surface t ?e h = Some h1"
        and 2: "(case nextTransaction ?e of None \<Rightarrow> Some h1
          | Some n \<Rightarrow> update_entries n (clear_previous t) h1 \<bind> run env (TryApply n)) = Some h2"
        and 3: "(case surfaces h2 (e_surface ?e) of None \<Rightarrow> Some h2
          | Some sf \<Rightarrow> if mapped sf then Some h2
              else run env (Children (sub_below (current sf))) h2 \<bind>
                (\<lambda>h'. surfaces h' (e_surface ?e) \<bind> (\<lambda>sf'. run env (Children (sub_above (current sf'))) h'))) = Some h3"
        and 4: "run env (From_entry t (i + 1)) h3 = Some h'"
        using body From_entry es False by (auto simp: bind_eq_Some_conv Let_def)
      have "store_ok h1" using keep_pop [OF ok 1] .
      then have "store_ok h2"
        using 2 IH by (auto simp: bind_eq_Some_conv split: option.splits dest: keep_entries [OF _ _ entries_clear])
      then have "store_ok h3"
        using 3 IH by (auto simp: bind_eq_Some_conv split: option.splits if_splits)
      then show ?thesis using IH [OF 4] by simp
    qed
  next
    case (Children cs)
    then show ?thesis using body ok IH by (auto simp: bind_eq_Some_conv split: list.splits option.splits)
  qed
qed

end

end
