(* ===== verification/SurfaceSteps.thy ===== *)
theory SurfaceSteps
  imports SurfaceTypes
begin

text \<open>
  The requests of clients keep the laws of \<open>store_type\<close>: the second half of the lemmas of that locale, the requests
  as data, and the stores that can be reached with them.
\<close>

section \<open>Requests\<close>

datatype surface_request =
    Create_surface nat real | Destroy_surface "nat list" nat | Attach bool "nat option" int int nat
  | Damage int int int int nat | Damage_buffer int int int int nat | Frame nat nat
  | Set_opaque_region "int region option" nat | Set_input_region "int region option" nat
  | Set_buffer_transform int nat | Set_buffer_scale int nat | Offset int int nat | Commit_surface bool nat
  | Add_extension nat nat | Remove_extension nat nat | Scale_override real nat
  | Set_scale_factor "32 word" "nat option" | Destroy_fractional_scale "nat option"
  | Get_subsurface "nat option" "nat option" | Destroy_subsurface nat | Set_position int int nat
  | Place_above "nat option" nat | Place_below "nat option" nat | Set_sync nat | Set_desync nat
  | Fence_activated nat nat nat | Clear_fifo_barrier nat

fun run_surface :: "surface_env \<Rightarrow> surface_request \<Rightarrow> store \<Rightarrow> store option" where
  "run_surface env (Create_surface c scale) h = Some (Surface_new c scale h)"
| "run_surface env (Destroy_surface cs s) h = Surface_delete env cs s h"
| "run_surface env (Attach v b x y s) h = surface_attach v b x y s h"
| "run_surface env (Damage x y w k s) h = surface_damage x y w k s h"
| "run_surface env (Damage_buffer x y w k s) h = surface_damage_buffer x y w k s h"
| "run_surface env (Frame c s) h = surface_frame c s h"
| "run_surface env (Set_opaque_region r s) h = surface_set_opaque_region r s h"
| "run_surface env (Set_input_region r s) h = surface_set_input_region r s h"
| "run_surface env (Set_buffer_transform t s) h = surface_set_buffer_transform t s h"
| "run_surface env (Set_buffer_scale k s) h = surface_set_buffer_scale k s h"
| "run_surface env (Offset x y s) h = surface_offset x y s h"
| "run_surface env (Commit_surface e s) h = surface_commit env e s h"
| "run_surface env (Add_extension e s) h = addExtension env e s h"
| "run_surface env (Remove_extension e s) h = removeExtension e s h"
| "run_surface env (Scale_override k s) h = scaleOverrideChanged k s h"
| "run_surface env (Set_scale_factor k s) h = fractional_set_scale_factor k s h"
| "run_surface env (Destroy_fractional_scale s) h = FractionalScaleV2_delete s h"
| "run_surface env (Get_subsurface s p) h = get_subsurface env s p h"
| "run_surface env (Destroy_subsurface c) h = SubSurface_delete env c h"
| "run_surface env (Set_position x y c) h = subsurface_set_position x y c h"
| "run_surface env (Place_above a c) h = subsurface_place_above a c h"
| "run_surface env (Place_below a c) h = subsurface_place_below a c h"
| "run_surface env (Set_sync c) h = subsurface_set_sync c h"
| "run_surface env (Set_desync c) h = subsurface_set_desync env c h"
| "run_surface env (Fence_activated t i j) h = fence_activated env t i j h"
| "run_surface env (Clear_fifo_barrier s) h = clearFifoBarrier env s h"

text \<open>
  What the arguments promise: regions come from \<open>wl_region\<close> objects, and scales are positive. The protocol does
  not rule out the factor \<open>0\<close>, and \<open>set_scale_factor\<close> does not either.
\<close>

fun request_ok :: "surface_request \<Rightarrow> bool" where
  "request_ok (Set_opaque_region (Some r) s) = wf_region r"
| "request_ok (Set_input_region (Some r) s) = wf_region r"
| "request_ok (Create_surface c scale) = (0 < scale)"
| "request_ok (Scale_override scale s) = (0 < scale)"
| "request_ok (Set_scale_factor k s) = (k \<noteq> 0)"
| "request_ok _ = True"

inductive surfaces_reachable :: "surface_env \<Rightarrow> store \<Rightarrow> bool" for env where
  start: "surfaces_reachable env store_new"
| step: "surfaces_reachable env h \<Longrightarrow> request_ok r \<Longrightarrow> run_surface env r h = Some h' \<Longrightarrow> surfaces_reachable env h'"

text \<open>The laws of requests that change the fields of \<open>state_core\<close> and \<open>surface_core\<close>.\<close>

locale request_type = store_type +
  assumes new_surface: "0 < scale \<Longrightarrow> geometry_ok
      \<lparr>current = SurfaceState_new, pending = SurfaceState_new, bufferSourceBox = Rect_null, surfaceSize = (0, 0),
       inputRegion = Region_new, opaqueRegion = Region_new, bufferRef = None, surface_bufferDamage = Region_new,
       mapped = False, serverScale = scale, clientToCompositorScale = 1, firstTransaction = None,
       lastTransaction = None, subsurface_handle = None, subsurface_transaction = None, surface_role = None,
       mainRoleGeneration = 0, m_tearingDown = False, surface_client = client, hasColorSurface = False,
       hasColorRepresentation = False\<rparr>"
    and scales: "geometry_ok sf \<Longrightarrow> 0 < x \<Longrightarrow> geometry_ok (sf\<lparr>serverScale := x\<rparr>)"
      "geometry_ok sf \<Longrightarrow> 0 < x \<Longrightarrow> geometry_ok (sf\<lparr>clientToCompositorScale := x\<rparr>)"
    and damaged: "state_ok st \<Longrightarrow> state_ok (st\<lparr>damage := Region_unitedRect (damage st) q\<rparr>)"
      "state_ok st \<Longrightarrow> state_ok (st\<lparr>bufferDamage := Region_unitedRect (bufferDamage st) b\<rparr>)"
    and opaque_input: "state_ok st \<Longrightarrow> geometry_ok sf \<Longrightarrow> (\<And>r. region = Some r \<Longrightarrow> wf_region r) \<Longrightarrow>
        state_ok (st\<lparr>opaque := (case region of None \<Rightarrow> Region_new
          | Some r \<Rightarrow> Region_scaled (1 / clientToCompositorScale sf) (1 / clientToCompositorScale sf) r)\<rparr>)"
      "state_ok st \<Longrightarrow> geometry_ok sf \<Longrightarrow> (\<And>r. region = Some r \<Longrightarrow> wf_region r) \<Longrightarrow>
        state_ok (st\<lparr>input := (case region of None \<Rightarrow> RegionF_infinite
          | Some r \<Rightarrow> Region_scaled (1 / clientToCompositorScale sf) (1 / clientToCompositorScale sf) r)\<rparr>)"
    and buffer_scaled: "state_ok st \<Longrightarrow> 1 \<le> k \<Longrightarrow> state_ok (st\<lparr>bufferScale := k\<rparr>)"

section \<open>Every request keeps the laws\<close>

context store_type
begin

lemma keep_tryApply: "sort_ok env \<Longrightarrow> store_ok h \<Longrightarrow> tryApply env t h = Some h' \<Longrightarrow> store_ok h'"
  by (auto simp: tryApply_def dest: keep_run)

lemma keep_first: "sort_ok env \<Longrightarrow> store_ok h \<Longrightarrow> try_first env sf h = Some h' \<Longrightarrow> store_ok h'"
  by (auto simp: try_first_def split: option.splits dest: keep_tryApply)

lemma keep_generation:
  assumes "sort_ok env" and ok: "store_ok h" "nextRoleGeneration env s h = Some h'"
  shows "store_ok h'"
proof -
  obtain sf h1 where 1: "update_surface s (\<lambda>sf. sf\<lparr>mainRoleGeneration := mainRoleGeneration sf + 1\<rparr>) h = Some h1" "try_first env sf h1 = Some h'"
    using ok(2) by (auto simp: nextRoleGeneration_def bind_eq_Some_conv)
  have "store_ok h1" by (rule keep_update_same [OF ok(1) 1(1)]) (simp add: state_core_def surface_core_def)
  then show ?thesis using keep_first [OF \<open>sort_ok env\<close>] 1(2) by blast
qed

lemma keep_commit_entry:
  assumes "store_ok h" "commit_entry env t i h = Some h'"
  shows "store_ok h'"
proof -
  obtain es where es: "transactions h t = Some es" using assms(2) by (auto simp: commit_entry_def bind_eq_Some_conv)
  show ?thesis
  proof (cases "surfaces h (e_surface (es ! i))")
    case None
    then show ?thesis using assms es by (simp add: commit_entry_def Let_def)
  next
    case (Some sf)
    let ?s = "e_surface (es ! i)"
    obtain e h1 h2 h3 where 1: "watch_entry env (es ! i) = Some e" "update_entry t i (\<lambda>_. e) h = Some h1"
      and if2: "(if firstTransaction sf \<noteq> None then lastTransaction sf \<bind> (\<lambda>l. update_entries l (set_next ?s t) h1)
        else update_surface ?s (\<lambda>sf. sf\<lparr>firstTransaction := Some t\<rparr>) h1) = Some h2"
      and 3: "update_entry t i (\<lambda>e. e\<lparr>previousTransaction := lastTransaction sf\<rparr>) h2 = Some h3"
      and 4: "update_surface ?s (\<lambda>sf. sf\<lparr>lastTransaction := Some t\<rparr>) h3 = Some h'"
      using assms(2) by (auto simp: commit_entry_def Let_def es Some bind_eq_Some_conv [of "watch_entry env e" for e]
          bind_eq_Some_conv [of "update_entry t i f h" for f h] bind_eq_Some_conv [of "if b then p else q" for b p q])
    have 2: "(\<exists>l. update_entries l (set_next ?s t) h1 = Some h2) \<or> update_surface ?s (\<lambda>sf. sf\<lparr>firstTransaction := Some t\<rparr>) h1 = Some h2"
      using if2 by (auto simp: bind_eq_Some_conv split: if_splits)
    have e: "e_state e = e_state (es ! i)"
      using 1(1) by (auto simp: watch_entry_def split: if_splits option.splits)
    have "h1 = h\<lparr>transactions := (transactions h)(t \<mapsto> es[i := e])\<rparr>"
      using 1(2) es by (simp add: update_entry_def update_entries_def)
    moreover have "entries_ok (es[i := e])"
      using store_okD(2) [OF assms(1) es] e
      by (cases "i < length es") (fastforce simp: entries_ok_def list_update_beyond dest!: set_update_subset_insert [THEN subsetD])+
    ultimately have "store_ok h1" using assms(1) by (auto simp: store_ok_def)
    then have "store_ok h2"
      using 2
    proof (elim disjE exE)
      show "store_ok h1 \<Longrightarrow> update_entries l (set_next ?s t) h1 = Some h2 \<Longrightarrow> store_ok h2" for l
        by (erule (1) keep_entries) (auto simp: set_next_def elim!: entries_map)
      show "store_ok h1 \<Longrightarrow> update_surface ?s (\<lambda>sf. sf\<lparr>firstTransaction := Some t\<rparr>) h1 = Some h2 \<Longrightarrow> store_ok h2"
        by (erule (1) keep_update_same) (simp add: state_core_def surface_core_def)
    qed
    then have "store_ok h3"
      using keep_entries [OF _ 3 [unfolded update_entry_def]] entries_update [of _ "\<lambda>e. e\<lparr>previousTransaction := lastTransaction sf\<rparr>" i]
      by simp
    then show ?thesis by (rule keep_update_same [OF _ 4]) (simp add: state_core_def surface_core_def)
  qed
qed

lemma keep_commit:
  assumes "sort_ok env" and ok: "store_ok h" "Transaction_commit env t h = Some h'"
  shows "store_ok h'"
proof -
  obtain es :: "entry list" and h1 where 1: "each_object (commit_entry env t) [0..<length es] h = Some h1" "tryApply env t h1 = Some h'"
    using ok(2) unfolding Transaction_commit_def bind_eq_Some_conv by blast
  have "store_ok h1" using each_object_keeps [where P = store_ok, OF 1(1) ok(1)] keep_commit_entry by blast
  then show ?thesis using keep_tryApply [OF \<open>sort_ok env\<close>] 1(2) by blast
qed

lemma keep_amend:
  assumes "store_ok h" "Transaction_amend t s m h = Some h'" "\<And>st. state_core (m st) = state_core st"
  shows "store_ok h'"
proof (rule keep_entries [OF assms(1) assms(2) [unfolded Transaction_amend_def]])
  show "entries_ok es \<Longrightarrow> entries_ok (map (\<lambda>e. if e_surface e = s then e\<lparr>e_state := m (e_state e)\<rparr> else e) es)" for es
    by (erule entries_map) (auto intro: state_cong assms(3))
qed

lemma keep_amend_chain:
  assumes "amend_chain t s m h = Some h'" "store_ok h" "\<And>st. state_core (m st) = state_core st"
  shows "store_ok h'"
  using assms
proof (induction rule: amend_chain.raw_induct [rotated, consumes 1, case_names step])
  case (step run t s m h h')
  then show ?case by (auto simp: bind_eq_Some_conv split: option.splits) (metis keep_amend)
qed

lemma keep_amend_queued:
  assumes "store_ok h" "\<And>st. state_core (m st) = state_core st" "amend_queued s sf m h = Some h'"
  shows "store_ok h'"
  using assms by (auto simp: amend_queued_def bind_eq_Some_conv split: option.splits) (metis keep_amend keep_amend_chain)+

lemma child_cores:
  "state_core (append_child c st) = state_core st" "state_core (remove_child_all c st) = state_core st"
  "state_core (remove_child_one c st) = state_core st" "state_core (erase_extension e st) = state_core st"
  "state_core (snd (raiseChild q a k c st)) = state_core st" "state_core (snd (lowerChild q a k c st)) = state_core st"
  "state_core (default_colors env' sf st) = state_core st"
  by (auto simp: state_core_def append_child_def remove_child_all_def remove_child_one_def erase_extension_def raiseChild_def
      lowerChild_def default_colors_def Let_def split: prod.splits)

lemma keep_children:
  assumes "store_ok h"
  shows "addChild s c h = Some h' \<Longrightarrow> store_ok h'" "removeChild s c h = Some h' \<Longrightarrow> store_ok h'"
proof -
  show "addChild s c h = Some h' \<Longrightarrow> store_ok h'"
  proof -
    assume "addChild s c h = Some h'"
    then obtain sf h1 h2 where 1: "update_surface s (\<lambda>sf. sf\<lparr>current := append_child c (current sf), pending := append_child c (pending sf)\<rparr>) h = Some h1"
      "amend_queued s sf (append_child c) h1 = Some h2" "store_ok h' = store_ok h2"
      by (auto simp: addChild_def bind_eq_Some_conv)
    have "store_ok h1" by (rule keep_update_same [OF assms 1(1)]) (simp add: child_cores surface_core_def)
    then show ?thesis using keep_amend_queued [OF _ _ 1(2)] 1(3) child_cores by simp
  qed
  show "removeChild s c h = Some h' \<Longrightarrow> store_ok h'"
  proof -
    assume "removeChild s c h = Some h'"
    then obtain sf h1 h2 where 1: "update_surface s (\<lambda>sf. sf\<lparr>current := remove_child_all c (current sf), pending := remove_child_all c (pending sf)\<rparr>) h = Some h1"
      "amend_queued s sf (remove_child_one c) h1 = Some h2" "store_ok h' = store_ok h2"
      by (auto simp: removeChild_def bind_eq_Some_conv)
    have "store_ok h1" by (rule keep_update_same [OF assms 1(1)]) (simp add: child_cores surface_core_def)
    then show ?thesis using keep_amend_queued [OF _ _ 1(2)] 1(3) child_cores by simp
  qed
qed

lemma keep_pending:
  assumes "store_ok h" "update_pending s f h = Some h'"
    and "\<And>sf. state_ok (pending sf) \<Longrightarrow> geometry_ok sf \<Longrightarrow> state_ok (f sf (pending sf))"
  shows "store_ok h'"
proof (rule keep_update [OF assms(1) assms(2) [unfolded update_pending_def]])
  show "surface_ok sf \<Longrightarrow> surface_ok (sf\<lparr>pending := f sf (pending sf)\<rparr>)" for sf
    using assms(3) [of sf] geometry_cong [of sf "sf\<lparr>pending := f sf (pending sf)\<rparr>"] by (simp add: surface_ok_def surface_core_def)
qed

lemma keep_pending_same:
  assumes "store_ok h" "update_pending s f h = Some h'" "\<And>sf st. state_core (f sf st) = state_core st"
  shows "store_ok h'"
  using keep_pending [OF assms(1,2)] state_cong assms(3) by blast

lemma keep_extensions:
  assumes "store_ok h"
  shows "addExtension env' e s h = Some h' \<Longrightarrow> store_ok h'" "removeExtension e s h = Some h' \<Longrightarrow> store_ok h'"
proof -
  show "addExtension env' e s h = Some h' \<Longrightarrow> store_ok h'"
    unfolding addExtension_def by (erule keep_pending_same [OF assms]) (simp add: state_core_def)
  show "removeExtension e s h = Some h' \<Longrightarrow> store_ok h'"
  proof -
    assume "removeExtension e s h = Some h'"
    then obtain h1 sf where 1: "update_pending s (\<lambda>sf. erase_extension e) h = Some h1" "amend_queued s sf (erase_extension e) h1 = Some h'"
      by (auto simp: removeExtension_def bind_eq_Some_conv)
    have "store_ok h1" by (rule keep_pending_same [OF assms 1(1)]) (simp add: child_cores)
    then show ?thesis using keep_amend_queued [OF _ _ 1(2)] child_cores by simp
  qed
qed

lemma keep_simple_requests:
  assumes "store_ok h"
  shows "surface_attach v b x y s h = Some h' \<Longrightarrow> store_ok h'" "surface_frame c s h = Some h' \<Longrightarrow> store_ok h'"
    "surface_set_buffer_transform k s h = Some h' \<Longrightarrow> store_ok h'" "surface_offset x y s h = Some h' \<Longrightarrow> store_ok h'"
    "subsurface_set_sync c h = Some h' \<Longrightarrow> store_ok h'"
proof -
  note same = keep_pending_same [OF assms]
  show "surface_attach v b x y s h = Some h' \<Longrightarrow> store_ok h'"
    using assms by (auto simp: surface_attach_def state_core_def split: if_splits elim!: same)
  show "surface_frame c s h = Some h' \<Longrightarrow> store_ok h'"
    unfolding surface_frame_def by (erule same) (simp add: state_core_def)
  show "surface_set_buffer_transform k s h = Some h' \<Longrightarrow> store_ok h'"
    using assms by (auto simp: surface_set_buffer_transform_def state_core_def split: if_splits elim!: same)
  show "surface_offset x y s h = Some h' \<Longrightarrow> store_ok h'"
    unfolding surface_offset_def by (erule same) (simp add: state_core_def)
  show "subsurface_set_sync c h = Some h' \<Longrightarrow> store_ok h'"
    using assms by (auto simp: subsurface_set_sync_def bind_eq_Some_conv split: if_splits dest: keep_subsurface)
qed

lemma keep_position:
  assumes "store_ok h" "subsurface_set_position x y c h = Some h'"
  shows "store_ok h'"
proof -
  obtain p where p: "parentSurface h c = Some p" using assms(2) by (auto simp: subsurface_set_position_def bind_eq_Some_conv)
  show ?thesis
  proof (cases p)
    case None
    then show ?thesis using assms p by (auto simp: subsurface_set_position_def)
  next
    case (Some q)
    then have "update_surface q (\<lambda>sf. sf\<lparr>pending := (pending sf)
      \<lparr>sub_position := (sub_position (pending sf))(c \<mapsto> (of_int x / clientToCompositorScale sf, of_int y / clientToCompositorScale sf)),
       committed := insert Field_SubsurfacePosition (committed (pending sf))\<rparr>\<rparr>) h = Some h'"
      using assms(2) p by (simp add: subsurface_set_position_def)
    then show ?thesis by (rule keep_update_same [OF assms(1)]) (simp add: state_core_def surface_core_def)
  qed
qed

lemma keep_place:
  assumes "store_ok h" "subsurface_place place a c h = Some h'"
    and place: "\<And>q a k st. state_core (snd (place q a k c st)) = state_core st"
  shows "store_ok h'"
proof (cases "a = None \<or> parentSurface h c = Some None")
  case True
  then show ?thesis using assms(1,2) by (auto simp: subsurface_place_def bind_eq_Some_conv split: option.splits)
next
  case False
  then obtain a' p sa sf where 0: "a = Some a'" "parentSurface h c = Some (Some p)" "surfaces h a' = Some sa" "surfaces h p = Some sf"
    using assms(2) by (auto simp: subsurface_place_def bind_eq_Some_conv split: option.splits)
  obtain found st where place': "place p a' (subsurface_handle sa) c (pending sf) = (found, st)" by (rule prod.exhaust)
  then obtain h1 where "update_surface p (\<lambda>sf. sf\<lparr>pending := st\<rparr>) h = Some h1" "store_ok h' = store_ok h1"
    using assms(2) by (auto simp: subsurface_place_def 0 bind_eq_Some_conv split: if_splits)
  note 1 = 0(4) place' this
  have "state_core st = state_core (pending sf)" using place [of p a' "subsurface_handle sa" "pending sf"] 1(2) by simp
  then have "store_ok h1"
    using keep_update [OF assms(1) 1(3)] 1(1) surface_same by (simp add: surface_core_def)
  then show ?thesis using 1(4) by simp
qed

lemma keep_desynchronized:
  assumes "parentDesynchronized env cs h = Some h'" "sort_ok env" "store_ok h"
  shows "store_ok h'"
  using assms
proof (induction rule: parentDesynchronized.raw_induct [rotated, consumes 1, case_names step])
  case (step run env cs h h')
  note IH = step.IH [OF _ step.prems(1)]
  note body = step.hyps
  show ?case
  proof (cases cs)
    case Nil
    then show ?thesis using body step.prems by simp
  next
    case (Cons c cs')
    obtain d h2 where d: "subsurfaces h c = Some d"
      and 2: "(if d_mode d = Synchronized then Some h
        else surfaces h (d_surface d) \<bind> (\<lambda>sf.
          (case subsurface_transaction sf of None \<Rightarrow> Some h
           | Some t \<Rightarrow> Transaction_commit env t h \<bind> update_surface (d_surface d) (\<lambda>sf. sf\<lparr>subsurface_transaction := None\<rparr>)) \<bind> (\<lambda>h1.
          surfaces h1 (d_surface d) \<bind> (\<lambda>sf1. run env (sub_below (current sf1)) h1 \<bind> (\<lambda>h'.
          surfaces h' (d_surface d) \<bind> (\<lambda>sf'. run env (sub_above (current sf')) h')))))) = Some h2"
      and 3: "run env cs' h2 = Some h'"
    proof -
      obtain d where d: "subsurfaces h c = Some d" using body Cons by (auto simp: bind_eq_Some_conv)
      show ?thesis
        using body unfolding Cons list.case Let_def d Option.bind.bind_lunit
        by (subst (asm) bind_eq_Some_conv) (use that [OF d] in blast)
    qed
    have "store_ok h2"
    proof (cases "d_mode d = Synchronized")
      case False
      then obtain sf sf1 sf' :: surface and h1 k where 4: "(case subsurface_transaction sf of None \<Rightarrow> Some h
           | Some t \<Rightarrow> Transaction_commit env t h \<bind> update_surface (d_surface d) (\<lambda>sf. sf\<lparr>subsurface_transaction := None\<rparr>)) = Some h1"
        "run env (sub_below (current sf1)) h1 = Some k" "run env (sub_above (current sf')) k = Some h2"
        using 2 [unfolded if_not_P [OF False] bind_eq_Some_conv] that by blast
      have "store_ok h1"
      proof (cases "subsurface_transaction sf")
        case (Some t)
        then obtain k where k: "Transaction_commit env t h = Some k" "update_surface (d_surface d) (\<lambda>sf. sf\<lparr>subsurface_transaction := None\<rparr>) k = Some h1"
          using 4(1) by (auto simp: bind_eq_Some_conv)
        show ?thesis
          by (rule keep_update_same [OF keep_commit [OF step.prems k(1)] k(2)]) (simp add: state_core_def surface_core_def)
      qed (use 4(1) step.prems(2) in simp)
      then show ?thesis using IH 4(2,3) by blast
    qed (use 2 step.prems(2) in simp)
    then show ?thesis using IH [OF 3] by simp
  qed
qed

lemma keep_desync: "sort_ok env \<Longrightarrow> store_ok h \<Longrightarrow> subsurface_set_desync env c h = Some h' \<Longrightarrow> store_ok h'"
  by (auto simp: subsurface_set_desync_def bind_eq_Some_conv split: if_splits dest: keep_subsurface keep_desynchronized)

lemma keep_surface_end:
  assumes "store_ok h"
  shows "update_surface s (\<lambda>sf. sf\<lparr>subsurface_handle := x, subsurface_transaction := y\<rparr>) h = Some h' \<Longrightarrow> store_ok h'"
    "update_surface s (\<lambda>sf. sf\<lparr>m_tearingDown := True\<rparr>) h = Some h' \<Longrightarrow> store_ok h'"
    "update_surface s (\<lambda>sf. sf\<lparr>subsurface_handle := x\<rparr>) h = Some h' \<Longrightarrow> store_ok h'"
    "update_surface s (\<lambda>sf. sf\<lparr>surface_role := z\<rparr>) h = Some h' \<Longrightarrow> store_ok h'"
    "update_surface s (\<lambda>sf. sf\<lparr>subsurface_transaction := y\<rparr>) h = Some h' \<Longrightarrow> store_ok h'"
  by (rule keep_update_same [OF assms], assumption, simp add: state_core_def surface_core_def)+

lemma store_same: "store_ok h \<Longrightarrow> surfaces h' = surfaces h \<Longrightarrow> transactions h' = transactions h \<Longrightarrow> store_ok h'"
  by (simp add: store_ok_def)

end

end
