(* ===== verification/SurfaceReach.thy ===== *)
theory SurfaceReach
  imports SurfaceSteps
begin

text \<open>
  Every store that clients can reach keeps the laws of \<open>request_type\<close>, and the two interpretations of that
  locale: the regions of all states are well formed, and all scales are positive, so nothing divides by \<open>0\<close>.
\<close>

section \<open>The remaining requests\<close>

context request_type
begin

lemma store_new_ok: "store_ok store_new"
  by (simp add: store_ok_def store_new_def)

lemma keep_new: "store_ok h \<Longrightarrow> 0 < scale \<Longrightarrow> store_ok (Surface_new c scale h)"
  using new_surface [of scale c] state_new by (simp add: store_ok_def surface_ok_def Surface_new_def)

lemma keep_damage:
  assumes "store_ok h"
  shows "surface_damage x y w k s h = Some h' \<Longrightarrow> store_ok h'" "surface_damage_buffer x y w k s h = Some h' \<Longrightarrow> store_ok h'"
  unfolding surface_damage_def surface_damage_buffer_def
  by (erule keep_pending [OF assms], rule damaged, assumption)+

lemma keep_regions:
  assumes "store_ok h" "\<And>r. region = Some r \<Longrightarrow> wf_region r"
  shows "surface_set_opaque_region region s h = Some h' \<Longrightarrow> store_ok h'" "surface_set_input_region region s h = Some h' \<Longrightarrow> store_ok h'"
proof -
  have c: "state_ok st \<Longrightarrow> state_ok (st\<lparr>committed := x\<rparr>)" for st x
    by (erule state_cong) (simp add: state_core_def)
  show "surface_set_opaque_region region s h = Some h' \<Longrightarrow> store_ok h'"
    unfolding surface_set_opaque_region_def
  proof (erule keep_pending [OF assms(1)])
    fix sf assume "state_ok (pending sf)" "geometry_ok sf"
    from c [OF opaque_input(1) [OF this assms(2)], where x = "insert Field_Opaque (committed (pending sf))"]
    show "state_ok ((pending sf)\<lparr>opaque := (case region of None \<Rightarrow> Region_new
          | Some r \<Rightarrow> Region_scaled (1 / clientToCompositorScale sf) (1 / clientToCompositorScale sf) r),
        committed := insert Field_Opaque (committed (pending sf))\<rparr>)" by simp
  qed
  show "surface_set_input_region region s h = Some h' \<Longrightarrow> store_ok h'"
    unfolding surface_set_input_region_def
  proof (erule keep_pending [OF assms(1)])
    fix sf assume "state_ok (pending sf)" "geometry_ok sf"
    from c [OF opaque_input(2) [OF this assms(2)], where x = "insert Field_Input (committed (pending sf))"]
    show "state_ok ((pending sf)\<lparr>input := (case region of None \<Rightarrow> RegionF_infinite
          | Some r \<Rightarrow> Region_scaled (1 / clientToCompositorScale sf) (1 / clientToCompositorScale sf) r),
        committed := insert Field_Input (committed (pending sf))\<rparr>)" by simp
  qed
qed

lemma keep_buffer_scale: 
  assumes "store_ok h" "surface_set_buffer_scale k s h = Some h'"
  shows "store_ok h'"
proof (cases "k < 1")
  case True
  then show ?thesis using assms by (auto simp: surface_set_buffer_scale_def)
next
  case False
  have "state_ok st \<Longrightarrow> state_ok (st\<lparr>bufferScale := k, committed := x\<rparr>)" for st x
    using buffer_scaled [of st k] state_cong [of "st\<lparr>bufferScale := k\<rparr>" "st\<lparr>bufferScale := k, committed := x\<rparr>"] False
    by (simp add: state_core_def)
  then show ?thesis
    using assms(2) False by (auto simp: surface_set_buffer_scale_def intro: keep_pending [OF assms(1)])
qed

lemma keep_scales:
  assumes "store_ok h"
  shows "0 < k \<Longrightarrow> scaleOverrideChanged k s h = Some h' \<Longrightarrow> store_ok h'"
    "f \<noteq> 0 \<Longrightarrow> fractional_set_scale_factor f surface h = Some h' \<Longrightarrow> store_ok h'"
    "FractionalScaleV2_delete surface h = Some h' \<Longrightarrow> store_ok h'"
proof -
  show "0 < k \<Longrightarrow> scaleOverrideChanged k s h = Some h' \<Longrightarrow> store_ok h'"
    unfolding scaleOverrideChanged_def by (erule keep_update [OF assms]) (use scales(1) in \<open>auto simp: surface_ok_def\<close>)
  have client: "0 < x \<Longrightarrow> update_surface s (\<lambda>sf. sf\<lparr>clientToCompositorScale := x\<rparr>) h = Some h' \<Longrightarrow> store_ok h'" for x s
    by (erule keep_update [OF assms]) (auto simp: surface_ok_def scales(2))
  have "f \<noteq> 0 \<Longrightarrow> 0 < real_of_int (uint f) / 2 ^ 24"
    by (metis of_int_0_less_iff zero_less_divide_iff zero_less_numeral zero_less_power uint_0_iff uint_ge_0 order_le_neq_trans)
  then show "f \<noteq> 0 \<Longrightarrow> fractional_set_scale_factor f surface h = Some h' \<Longrightarrow> store_ok h'"
    using assms client [of "real_of_int (uint f) / 2 ^ 24"] by (cases surface) (auto simp: fractional_set_scale_factor_def)
  show "FractionalScaleV2_delete surface h = Some h' \<Longrightarrow> store_ok h'"
    using assms client [of 1] by (auto simp: FractionalScaleV2_delete_def split: option.splits)
qed

lemma keep_subsurface_new:
  assumes "store_ok h" "SubSurface_new s p h = Some h'"
  shows "store_ok h'"
proof -
  let ?h = "h\<lparr>subsurfaces := (subsurfaces h)(next_id h \<mapsto> \<lparr>d_surface = s, d_parent = p, d_position = (0, 0), d_mode = Synchronized\<rparr>),
    next_id := next_id h + 1\<rparr>"
  obtain h2 where 1: "update_surface s (\<lambda>sf. sf\<lparr>subsurface_handle := Some (next_id h)\<rparr>) ?h = Some h2" "addChild p (next_id h) h2 = Some h'"
    using assms(2) by (auto simp: SubSurface_new_def Let_def bind_eq_Some_conv)
  have "store_ok ?h" using assms(1) by (rule store_same) simp_all
  then show ?thesis using keep_surface_end(3) [OF _ 1(1)] keep_children(1) 1(2) by blast
qed

lemma keep_get_subsurface:
  assumes env: "sort_ok env" and ok: "store_ok h" and run: "get_subsurface env su pa h = Some h'"
  shows "store_ok h'"
proof (cases "\<exists>s p sf. su = Some s \<and> pa = Some p \<and> surfaces h s = Some sf \<and> (surface_role sf = None \<or> surface_role sf = Some SubSurface_role)")
  case False
  then show ?thesis
    using run ok by (auto simp: get_subsurface_def bind_eq_Some_conv split: option.splits if_splits)
next
  case True
  then obtain s p sf where c: "su = Some s" "pa = Some p" "surfaces h s = Some sf" "surface_role sf = None \<or> surface_role sf = Some SubSurface_role"
    by blast
  obtain h1 h2 where 1: "update_surface s (\<lambda>sf. sf\<lparr>surface_role := Some SubSurface_role\<rparr>) h = Some h1" "nextRoleGeneration env s h1 = Some h2"
    and 2: "h' = emit_surface ProtocolError h2 \<or> SubSurface_new s p h2 = Some h'"
    using run c unfolding get_subsurface_def
    by (auto simp: bind_eq_Some_conv split: if_splits option.splits)
  have "store_ok h2" using keep_generation [OF env keep_surface_end(4) [OF ok 1(1)] 1(2)] .
  then show ?thesis using 2 keep_subsurface_new by auto
qed

lemma keep_subsurface_delete:
  assumes env: "sort_ok env" and ok: "store_ok h" and run: "SubSurface_delete env c h = Some h'"
  shows "store_ok h'"
proof -
  obtain d h1 h2 where d: "subsurfaces h c = Some d" "(if surfaces h (d_parent d) = None then Some h else removeChild (d_parent d) c h) = Some h1"
    and 2: "(case surfaces h1 (d_surface d) of
            None \<Rightarrow> Some h1
          | Some sf \<Rightarrow> do {
              h' \<leftarrow> update_surface (d_surface d) (\<lambda>sf. sf\<lparr>subsurface_handle := None, subsurface_transaction := None\<rparr>) h1;
              let h'' = (case subsurface_transaction sf of
                           None \<Rightarrow> h' | Some t \<Rightarrow> h'\<lparr>transactions := (transactions h')(t := None)\<rparr>);
              nextRoleGeneration env (d_surface d) h''
            }) = Some h2"
    and 3: "h' = h2\<lparr>subsurfaces := (subsurfaces h2)(c := None)\<rparr>"
    using run unfolding SubSurface_delete_def bind_eq_Some_conv by auto
  have ok1: "store_ok h1" using d(2) ok keep_children(2) by (auto split: if_splits)
  have "store_ok h2"
  proof (cases "surfaces h1 (d_surface d)")
    case (Some sf)
    then obtain k where k: "update_surface (d_surface d) (\<lambda>sf. sf\<lparr>subsurface_handle := None, subsurface_transaction := None\<rparr>) h1 = Some k"
      "nextRoleGeneration env (d_surface d) (case subsurface_transaction sf of
         None \<Rightarrow> k | Some t \<Rightarrow> k\<lparr>transactions := (transactions k)(t := None)\<rparr>) = Some h2"
      using 2 by (auto simp: bind_eq_Some_conv Let_def)
    have "store_ok k" using keep_surface_end(1) [OF ok1 k(1)] .
    then have "store_ok (case subsurface_transaction sf of None \<Rightarrow> k | Some t \<Rightarrow> k\<lparr>transactions := (transactions k)(t := None)\<rparr>)"
      using keep_delete by (simp split: option.splits)
    from keep_generation [OF env this k(2)] show ?thesis .
  qed (use 2 ok1 in simp)
  then show ?thesis unfolding 3 by (rule store_same) simp_all
qed

lemma keep_surface_delete:
  assumes env: "sort_ok env" and ok: "store_ok h" and run: "Surface_delete env cs s h = Some h'"
  shows "store_ok h'"
proof -
  obtain sf sf2 :: surface and h1 h2 h3 where 1: "update_surface s (\<lambda>sf. sf\<lparr>m_tearingDown := True\<rparr>) h = Some h1" "try_first env sf h1 = Some h2"
    and 3: "h3 = (case subsurface_transaction sf2 of None \<Rightarrow> h2 | Some t \<Rightarrow> h2\<lparr>transactions := (transactions h2)(t := None)\<rparr>)"
    "each_object (SubSurface_delete env) cs (h3\<lparr>surfaces := (surfaces h3)(s := None)\<rparr>) = Some h'"
    using run unfolding Surface_delete_def bind_eq_Some_conv Let_def by blast
  have "store_ok h2" using keep_first [OF env keep_surface_end(2) [OF ok 1(1)] 1(2)] .
  then have "store_ok h3" using keep_delete by (simp add: 3(1) split: option.splits)
  then have "store_ok (h3\<lparr>surfaces := (surfaces h3)(s := None)\<rparr>)" by (simp add: store_ok_def)
  then show ?thesis by (rule each_object_keeps [where P = store_ok, OF 3(2)]) (rule keep_subsurface_delete [OF env])
qed

section \<open>Commits\<close>

lemma keep_merge_child:
  assumes "store_ok h" "merge_child t c h = Some h'"
  shows "store_ok h'"
proof -
  obtain s and sf :: surface where sf: "surfaces h s = Some sf"
    and m: "(case subsurface_transaction sf of None \<Rightarrow> Some h
      | Some other \<Rightarrow> Transaction_merge t other h \<bind> (\<lambda>h1. update_surface s (\<lambda>sf. sf\<lparr>subsurface_transaction := None\<rparr>)
          (h1\<lparr>transactions := (transactions h1)(other := None)\<rparr>))) = Some h'"
    using assms(2) unfolding merge_child_def bind_eq_Some_conv by blast
  show ?thesis
  proof (cases "subsurface_transaction sf")
    case (Some other)
    obtain es h1 h2 where 1: "transactions h other = Some es" "update_entries t (\<lambda>mine. mine @ es) h = Some h1"
      "update_entries other (\<lambda>_. []) h1 = Some h2"
      "update_surface s (\<lambda>sf. sf\<lparr>subsurface_transaction := None\<rparr>) (h2\<lparr>transactions := (transactions h2)(other := None)\<rparr>) = Some h'"
      using m Some by (auto simp: Transaction_merge_def bind_eq_Some_conv)
    have "entries_ok es" using store_okD(2) [OF assms(1) 1(1)] .
    then have "store_ok h1" using keep_entries [OF assms(1) 1(2)] by (simp add: entries_ok_def ball_Un)
    then have "store_ok h2" using keep_entries [OF _ 1(3)] by (simp add: entries_ok_def)
    then show ?thesis using keep_surface_end(5) [OF keep_delete 1(4)] by blast
  qed (use m assms(1) in simp)
qed

lemma entries_add:
  assumes "state_ok pend" "entries_ok es"
  shows "entries_ok (add_entry env s pend es)"
proof -
  have "state_ok (e_state (merge_entry env pend e))" if "state_ok (e_state e)" for e
    using merges [OF assms(1) that] by (simp add: merge_entry_def Let_def)
  moreover have "state_ok (e_state (new_entry env s pend))"
    using merges [OF assms(1) state_new] by (simp add: new_entry_def Let_def)
  ultimately show ?thesis using assms(2) by (induction es) (auto simp: entries_ok_def)
qed

lemma keep_add:
  assumes "store_ok h" "Transaction_add env t s h = Some h'"
  shows "store_ok h'"
proof -
  obtain sf h1 where 1: "surfaces h s = Some sf" "update_entries t (add_entry env s (pending sf)) h = Some h1"
    "update_surface s (\<lambda>sf. sf\<lparr>pending := mergedFrom (createState env) (pending sf)\<rparr>) h1 = Some h'"
    using assms(2) by (auto simp: Transaction_add_def bind_eq_Some_conv)
  have "state_ok (pending sf)" using store_okD(1) [OF assms(1) 1(1)] by (simp add: surface_ok_def)
  then have "store_ok h1" using keep_entries [OF assms(1) 1(2)] entries_add by blast
  moreover have "update_pending s (\<lambda>sf. mergedFrom (createState env)) h1 = Some h'" using 1(3) by (simp add: update_pending_def)
  ultimately show ?thesis by (rule keep_pending) (rule merged)
qed

lemma committed_state_ok:
  assumes "state_ok st"
  shows "state_ok (let st1 = (if Field_Buffer \<in> committed st \<and> buffer st = None
                       then st\<lparr>damage := Region_new, bufferDamage := Region_new\<rparr> else st);
                st2 = default_colors env sf (st1\<lparr>roleGeneration := generation\<rparr>)
            in if sync then st2\<lparr>hasFifoWaitCondition := False\<rparr> else st2)"
proof -
  let ?st1 = "if Field_Buffer \<in> committed st \<and> buffer st = None then st\<lparr>damage := Region_new, bufferDamage := Region_new\<rparr> else st"
  have "state_ok ?st1" using assms no_damage by simp
  then have "state_ok (default_colors env sf (?st1\<lparr>roleGeneration := generation\<rparr>))"
    by (rule state_cong) (simp only: child_cores, simp add: state_core_def)
  from this state_cong [OF this, of "(default_colors env sf (?st1\<lparr>roleGeneration := generation\<rparr>))\<lparr>hasFifoWaitCondition := False\<rparr>"]
  show ?thesis by (simp add: Let_def state_core_def)
qed

lemma keep_surface_commit:
  assumes env: "sort_ok env" and ok: "store_ok h" and run: "surface_commit env errors s h = Some h'"
  shows "store_ok h'"
proof (cases errors)
  case True
  then show ?thesis using run ok by (auto simp: surface_commit_def bind_eq_Some_conv)
next
  case False
  obtain sf sf2 :: surface and sync generation h1 t h2 h3 h4 where
    1: "update_pending s (\<lambda>sf st.
            let st1 = (if Field_Buffer \<in> committed st \<and> buffer st = None
                       then st\<lparr>damage := Region_new, bufferDamage := Region_new\<rparr> else st);
                st2 = default_colors env sf (st1\<lparr>roleGeneration := generation\<rparr>)
            in if sync then st2\<lparr>hasFifoWaitCondition := False\<rparr> else st2) h = Some h1"
    and 2: "(case (if sync then subsurface_transaction sf else None) of
            Some t \<Rightarrow> Some (t, h1)
          | None \<Rightarrow>
              let (t, h') = Transaction_new h1
              in if sync then map_option (\<lambda>h'. (t, h')) (update_surface s (\<lambda>sf. sf\<lparr>subsurface_transaction := Some t\<rparr>) h')
                 else Some (t, h')) = Some (t, h2)"
    and 3: "each_object (merge_child t) (children_of (pending sf2)) h2 = Some h3" "Transaction_add env t s h3 = Some h4"
    and 4: "(if sync then Some h4 else Transaction_commit env t h4) = Some h'"
  proof -
    show ?thesis
      using run [unfolded surface_commit_def if_not_P [OF False] bind_eq_Some_conv split_paired_Ex prod.case] that by blast
  qed
  have "store_ok h1" by (rule keep_pending [OF ok 1]) (rule committed_state_ok)
  moreover have "store_ok (snd (Transaction_new h1))" if "store_ok h1"
    using that by (auto simp: store_ok_def Transaction_new_def entries_ok_def)
  ultimately have "store_ok h2"
    using 2 by (auto simp: Transaction_new_def Let_def split: option.splits if_splits dest: keep_surface_end(5) [rotated])
  then have "store_ok h3" by (rule each_object_keeps [where P = store_ok, OF 3(1)]) (rule keep_merge_child)
  then have "store_ok h4" using keep_add 3(2) by blast
  then show ?thesis using 4 keep_commit [OF env] by (auto split: if_splits)
qed

theorem keep_request:
  assumes env: "sort_ok env" and ok: "store_ok h" "request_ok r" and run: "run_surface env r h = Some h'"
  shows "store_ok h'"
proof (cases r)
  case (Commit_surface e s)
  then show ?thesis using run keep_surface_commit [OF env ok(1)] by simp
next
  case (Fence_activated t i j)
  let ?f = "\<lambda>e. e\<lparr>fences := (fences e)[j := (fst (fences e ! j), False)]\<rparr>"
  obtain h1 where 1: "update_entries t (\<lambda>es. es[i := ?f (es ! i)]) h = Some h1" "tryApply env t h1 = Some h'"
    using run Fence_activated by (auto simp: fence_activated_def update_entry_def bind_eq_Some_conv)
  have "store_ok h1" by (rule keep_entries [OF ok(1) 1(1)]) (erule entries_update, simp)
  then show ?thesis using keep_tryApply [OF env] 1(2) by blast
next
  case (Clear_fifo_barrier s)
  obtain sf where sf: "surfaces h s = Some sf" using run Clear_fifo_barrier by (auto simp: clearFifoBarrier_def bind_eq_Some_conv)
  show ?thesis
  proof (cases "fifoBarrier (current sf)")
    case False
    then show ?thesis using run Clear_fifo_barrier sf ok by (simp add: clearFifoBarrier_def)
  next
    case True
    then obtain h1 where 1: "update_surface s (\<lambda>sf. sf\<lparr>current := (current sf)\<lparr>fifoBarrier := False\<rparr>\<rparr>) h = Some h1" "try_first env sf h1 = Some h'"
      using run Clear_fifo_barrier sf by (auto simp: clearFifoBarrier_def bind_eq_Some_conv)
    have "store_ok h1" by (rule keep_update_same [OF ok(1) 1(1)]) (simp add: state_core_def surface_core_def)
    then show ?thesis using keep_first [OF env] 1(2) by blast
  qed
next
  case (Set_opaque_region region s)
  then have "region = Some x \<Longrightarrow> wf_region x" for x using ok(2) by simp
  moreover have "run_surface env r h = surface_set_opaque_region region s h" using Set_opaque_region by simp
  ultimately show ?thesis using run keep_regions(1) [OF ok(1), of region s h'] by simp
next
  case (Set_input_region region s)
  then have "region = Some x \<Longrightarrow> wf_region x" for x using ok(2) by simp
  moreover have "run_surface env r h = surface_set_input_region region s h" using Set_input_region by simp
  ultimately show ?thesis using run keep_regions(2) [OF ok(1), of region s h'] by simp
next
  case (Create_surface c scale)
  then show ?thesis using run ok keep_new by auto
next
  case (Destroy_surface cs s)
  then show ?thesis using run keep_surface_delete [OF env ok(1)] by simp
next
  case (Get_subsurface s p)
  then show ?thesis using run keep_get_subsurface [OF env ok(1)] by simp
next
  case (Destroy_subsurface c)
  then show ?thesis using run keep_subsurface_delete [OF env ok(1)] by simp
next
  case (Set_desync c)
  then show ?thesis using run keep_desync [OF env ok(1)] by simp
next
  case (Place_above a c)
  then show ?thesis using run keep_place [OF ok(1) _ child_cores(5)] by (simp add: subsurface_place_above_def)
next
  case (Place_below a c)
  then show ?thesis using run keep_place [OF ok(1) _ child_cores(6)] by (simp add: subsurface_place_below_def)
next
  case (Scale_override x s)
  then show ?thesis using run ok(2) keep_scales(1) [OF ok(1)] by simp
next
  case (Set_scale_factor f s)
  then show ?thesis using run ok(2) keep_scales(2) [OF ok(1)] by simp
next
  case (Destroy_fractional_scale s)
  then show ?thesis using run keep_scales(3) [OF ok(1)] by simp
qed (use run ok in \<open>auto dest: keep_simple_requests keep_damage keep_buffer_scale keep_extensions keep_position\<close>)

theorem reachable_store_ok: "sort_ok env \<Longrightarrow> surfaces_reachable env h \<Longrightarrow> store_ok h"
  by (rotate_tac 1, induction rule: surfaces_reachable.induct) (auto intro: store_new_ok keep_request)

end

section \<open>Regions\<close>

definition state_regions :: "surface_state \<Rightarrow> bool" where
  "state_regions st \<longleftrightarrow> wf_region (damage st) \<and> wf_region (bufferDamage st) \<and> wf_region (opaque st) \<and> wf_region (input st) \<and> wf_region (blurRegion st)"

definition surface_regions :: "surface \<Rightarrow> bool" where
  "surface_regions sf \<longleftrightarrow> wf_region (inputRegion sf) \<and> wf_region (opaqueRegion sf) \<and> wf_region (surface_bufferDamage sf) \<and>
     0 < serverScale sf \<and> 0 < clientToCompositorScale sf"

lemma wf_united: "wf_region r \<Longrightarrow> wf_region s \<Longrightarrow> wf_region (Region_united r s)"
  by (rule region_united_pts)

lemma wf_unitedRect: "wf_region r \<Longrightarrow> wf_region (Region_unitedRect r q)"
  by (simp add: Region_unitedRect_def wf_united)

lemma wf_intersectedRect: "wf_region r \<Longrightarrow> wf_region (Region_intersectedRect r q)"
  unfolding Region_intersectedRect_def by (rule region_intersected_pts(1)) simp_all

lemma wf_infinite: "wf_region RegionF_infinite"
  by (simp add: RegionF_infinite_def Region_make_def)

lemma RegionF_scaled_wf:
  assumes "wf_region r" and k: "0 < sx" "0 < sy"
  shows "wf_region (RegionF_scaled sx sy r)"
proof (cases "Region_eq r RegionF_infinite \<or> Region_isEmpty r \<or> sx = 1 \<and> sy = 1")
  case True
  then show ?thesis using assms(1) by (auto simp: RegionF_scaled_def RegionF_scale_def)
next
  case False
  have "RectF_scaled sx sy = map_rect (\<lambda>x. x * sx) (\<lambda>y. y * sy)" by (simp add: fun_eq_iff RectF_scaled_def map_rect_def)
  then have "RegionF_scaled sx sy r = map_region (\<lambda>x. x * sx) (\<lambda>y. y * sy) r"
    using False by (cases r) (auto simp: RegionF_scaled_def RegionF_scale_def map_region_def)
  moreover have "strict_region (\<lambda>x. x * sx) (\<lambda>y. y * sy)" using k by unfold_locales simp_all
  ultimately show ?thesis using strict_region.wf_region_map assms(1) by metis
qed

lemma wf_mapToBuffer: "wf_region (mapToBuffer env sf b r)"
proof -
  have "wf_region (foldl (\<lambda>ret q. Region_unitedRect ret (f q)) ret qs)" if "wf_region ret" for f :: "RectF \<Rightarrow> Rect" and ret qs
    using foldl_unitedRect [OF that, of f qs] by blast
  then show ?thesis by (simp add: mapToBuffer_def Let_def)
qed

interpretation regions: request_type state_regions surface_regions
proof unfold_locales
  show "state_regions SurfaceState_new" by (simp add: state_regions_def SurfaceState_new_def wf_infinite)
  show "state_regions s'" if "state_regions s" "state_core s' = state_core s" for s s' :: surface_state
    using that by (simp add: state_regions_def state_core_def)
  show "state_regions (mergeInto create s t)" if "state_regions s" "state_regions t" for create s t
    using that by (simp add: state_regions_def mergeInto_def Let_def wf_united)
  show "state_regions (mergedFrom create s)" if "state_regions s" for create s
    using that by (simp add: state_regions_def mergedFrom_def Let_def)
  show "state_regions (s\<lparr>damage := Region_new, bufferDamage := Region_new\<rparr>)" if "state_regions s" for s
    using that by (simp add: state_regions_def)
  show "surface_regions sf'" if "surface_regions sf" "surface_core sf' = surface_core sf" for sf sf' :: surface
    using that by (simp add: surface_regions_def surface_core_def)
  show "surface_regions (buffer_geometry env b sf)" if "state_regions (current sf)" "surface_regions sf" for env b sf
    using that by (simp add: surface_regions_def state_regions_def buffer_geometry_def Let_def wf_intersectedRect wf_united
        RegionF_scaled_wf wf_mapToBuffer)
  show "surface_regions (no_geometry sf)" if "surface_regions sf" for sf
    using that by (simp add: surface_regions_def no_geometry_def)
qed (auto simp: surface_regions_def state_regions_def wf_unitedRect wf_infinite region_scaled_wf split: option.split)

section \<open>Buffer scales\<close>

text \<open>The scale of a buffer divides its size.\<close>

definition state_scale :: "surface_state \<Rightarrow> bool" where
  "state_scale st \<longleftrightarrow> 1 \<le> bufferScale st"

interpretation scales: request_type state_scale "\<lambda>sf. True"
  by unfold_locales
    (auto simp: state_scale_def SurfaceState_new_def mergeInto_def mergedFrom_def Let_def state_core_def split: option.splits)

end
