(* ===== verification/TransactionOrder.thy ===== *)
theory TransactionOrder
  imports TransactionRuns
begin

text \<open>
  The main induction: what \<open>transaction_run\<close> does from a state in which the transactions of \<open>D\<close> are being
  applied by outer calls.
\<close>

lemma has_applied_frame:
  assumes "applied h' = applied h" "\<forall>u \<in> D. transactions h' u = transactions h u" "\<forall>u \<in> set G. surfs {} h' u = surfs {} h u"
  shows "has_applied G D h h' []"
  using assms by (simp add: has_applied_def in_order_def)

lemma run_children_none: "transaction_run env (Children []) h = Some h"
  by (subst transaction_run.simps) simp

section \<open>One entry\<close>

text \<open>The state after the surface of an entry and the next transaction have been updated.\<close>

lemma pop_entry_good:
  assumes g: "good G (d(t := i)) D h" and t: "t \<in> D" and es: "transactions h t = Some es" and i: "i < length es"
  defines "e \<equiv> es ! i"
  shows "\<exists>h1 h2. pop_surface t e h = Some h1 \<and>
    (case nextTransaction e of None \<Rightarrow> h2 = h1 | Some n \<Rightarrow> update_entries n (clear_previous t) h1 = Some h2 \<and> n \<in> set G \<and> n \<notin> D) \<and>
    good G (d(t := Suc i)) D h2 \<and> has_applied G D h h2 []"
proof -
  have ok: "queues_ok G (d(t := i)) (link_table h) (ends_of h)" "tree_ok h" "calm G h" "D \<subseteq> set G"
    and prev: "\<forall>u \<in> D. \<forall>l \<in> set (links_of (link_table h) u). l_prev l = None" and dD: "\<forall>u. 0 < (d(t := i)) u \<longrightarrow> u \<in> D"
    using g by (simp_all add: good_def)
  have tG: "t \<in> set G" using t ok(4) by blast
  have L: "links_of (link_table h) t = map link_of es" using es by (rule links_of_table)
  have ti: "(d(t := i)) t < length (links_of (link_table h) t)" "\<forall>l \<in> set (links_of (link_table h) t). l_prev l = None"
    using L i prev t by simp_all
  have l: "links_of (link_table h) t ! (d(t := i)) t = link_of e" using L i by (simp add: e_def)
  have inrest: "link_of e \<in> set (rest (d(t := i)) (link_table h) t)"
    using rest_step [where d = "d(t := i)" and t = t, OF ti(1)] unfolding l by simp
  note P = pop_ok [where d = "d(t := i)", OF ok(1) tG ti, unfolded l, simplified]
  obtain h1 where h1: "pop_surface t e h = Some h1" "same_shape h h1" "transactions h1 = transactions h" "applied h1 = applied h"
    "ends_of h1 = pop_ends t (link_of e) (ends_of h)"
    "\<forall>s. map_option (\<lambda>sf. (mapped sf, current sf)) (surfaces h1 s) = map_option (\<lambda>sf. (mapped sf, current sf)) (surfaces h s)"
    using pop_surface_eq by blast
  have lt1: "link_table h1 = link_table h" by (simp add: link_table_def h1(3) fun_eq_iff)
  show ?thesis
  proof (cases "nextTransaction e")
    case None
    then have "pop_links t (link_of e) (link_table h) = link_table h1" by (simp add: pop_links_def lt1)
    then have q: "queues_ok G (d(t := Suc i)) (link_table h1) (ends_of h1)" using P h1(5) by simp
    have "calm G h1"
      by (rule calm_core [OF ok(3) h1(2)]) (use h1(3,6) in \<open>auto simp: queued_def\<close>)
    then have "good G (d(t := Suc i)) D h1"
      using q ok(4) prev dD t tree_ok_shape [OF h1(2)] ok(2) by (simp add: good_def lt1)
    moreover have "has_applied G D h h1 []" using h1(3,4) by (rule_tac has_applied_nothing) simp_all
    ultimately show ?thesis using h1(1) None by auto
  next
    case (Some n)
    have n: "n \<in> set G" "n \<noteq> t" "0 < waits_on (link_table h) n t"
      using next_in_queue [OF ok(1) tG inrest] Some by simp_all
    obtain ns where ns: "transactions h n = Some ns" using queues_okD(2) [OF ok(1) n(1)] by (auto simp: link_table_def)
    have nD: "n \<notin> D"
    proof
      assume "n \<in> D"
      then have "\<forall>l \<in> set (links_of (link_table h) n). l_prev l = None" using prev by blast
      then show False using n(3) by (simp add: waits_on_def)
    qed
    define h2 where "h2 = h1\<lparr>transactions := (transactions h1)(n \<mapsto> clear_previous t ns)\<rparr>"
    have u: "update_entries n (clear_previous t) h1 = Some h2" using ns h1(3) by (simp add: update_entries_def h2_def)
    have s2: "same_shape h h2" using same_shape_trans [OF h1(2) store_shape [of h2 h1]] by (simp add: h2_def)
    have e2: "ends_of h2 = ends_of h1" by (simp add: ends_of_def h2_def fun_eq_iff)
    have lt2: "link_table h2 = pop_links t (link_of e) (link_table h)"
      using ns h1(3) Some by (auto simp: link_table_def h2_def pop_links_def clear_previous_links fun_eq_iff)
    have q: "queues_ok G (d(t := Suc i)) (link_table h2) (ends_of h2)" using P unfolding lt2 e2 h1(5) .
    have "calm G h2"
    proof (rule calm_core [OF ok(3) s2])
      show "map_option (\<lambda>sf. (mapped sf, current sf)) (surfaces h2 s) = map_option (\<lambda>sf. (mapped sf, current sf)) (surfaces h s)" for s
        using h1(6) by (simp add: h2_def)
      show "\<exists>e' \<in> queued h G s. e_state e' = e_state k" if k: "k \<in> queued h2 G s" for s k
      proof -
        obtain v vs where v: "v \<in> set G" "transactions h2 v = Some vs" "k \<in> set vs" "e_surface k = s"
          using k by (auto simp: queued_def)
        show ?thesis
        proof (cases "v = n")
          case True
          then have "k \<in> set (clear_previous t ns)" using v by (simp add: h2_def)
          from clear_previous_states [OF this] show ?thesis using ns n(1) v(4) by (auto simp: queued_def)
        qed (use v h1(3) in \<open>auto simp: queued_def h2_def\<close>)
      qed
    qed
    moreover have "\<forall>u \<in> D. \<forall>l \<in> set (links_of (link_table h2) u). l_prev l = None"
      using prev nD Some unfolding lt2 pop_links_of by auto
    ultimately have "good G (d(t := Suc i)) D h2"
      using q ok(4) dD t tree_ok_shape [OF s2] ok(2) by (simp add: good_def)
    moreover have "has_applied G D h h2 []"
    proof (rule has_applied_frame)
      show "\<forall>u \<in> D. transactions h2 u = transactions h u" using nD h1(3) by (auto simp: h2_def)
      show "\<forall>u \<in> set G. surfs {} h2 u = surfs {} h u"
        using pop_links_same(1) [of t "link_of e" "link_table h"] unfolding surfs_def lt2 by (simp flip: set_map)
    qed (simp add: h2_def h1(4))
    ultimately show ?thesis using h1(1) u n(1) nD Some by auto
  qed
qed

lemma entry_step:
  assumes g: "good G (d(t := i)) D h" and t: "t \<in> D" and es: "transactions h t = Some es" and i: "i < length es"
    and IH: "\<And>h' n. good G (d(t := Suc i)) D h' \<Longrightarrow> n \<in> set G \<Longrightarrow> n \<notin> D \<Longrightarrow>
      \<exists>h'' L. transaction_run env (TryApply n) h' = Some h'' \<and> good (without G L) (d(t := Suc i)) D h'' \<and> has_applied G D h' h'' L"
  shows "\<exists>h' L. transaction_run env (From_entry t i) h = transaction_run env (From_entry t (Suc i)) h' \<and>
    good (without G L) (d(t := Suc i)) D h' \<and> has_applied G D h h' L"
proof -
  let ?e = "es ! i"
  obtain h1 h2 where 1: "pop_surface t ?e h = Some h1" "good G (d(t := Suc i)) D h2" "has_applied G D h h2 []"
    "case nextTransaction ?e of None \<Rightarrow> h2 = h1 | Some n \<Rightarrow> update_entries n (clear_previous t) h1 = Some h2 \<and> n \<in> set G \<and> n \<notin> D"
    using pop_entry_good [OF g t es i] by blast
  obtain h3 L where 3: "(case nextTransaction ?e of None \<Rightarrow> Some h1
       | Some n \<Rightarrow> update_entries n (clear_previous t) h1 \<bind> transaction_run env (TryApply n)) = Some h3"
    "good (without G L) (d(t := Suc i)) D h3" "has_applied G D h2 h3 L"
  proof (cases "nextTransaction ?e")
    case None
    show ?thesis
      by (rule that [of h2 "[]"]) (use None 1 in \<open>simp_all add: has_applied_nothing\<close>)
  next
    case (Some n)
    then obtain h3 L where "transaction_run env (TryApply n) h2 = Some h3" "good (without G L) (d(t := Suc i)) D h3" "has_applied G D h2 h3 L"
      using IH [OF 1(2), of n] 1(4) by auto
    then show ?thesis using Some 1(4) by (intro that [of h3 L]) simp_all
  qed
  have H: "has_applied G D h h3 L" using has_applied_append [of G D h h2 "[]" h3 L] 1(3) 3(3) by simp
  have t3: "transactions h3 t = Some es" using H t es by (simp add: has_applied_def)
  have tG: "t \<in> set (without G L)" using 3(2) t unfolding good_def by blast
  have eq: "?e \<in> queued h3 (without G L) (e_surface ?e)" using tG t3 nth_mem [OF i] by (auto simp: queued_def)
  have kids: "(case surfaces h3 (e_surface ?e) of None \<Rightarrow> Some h3
      | Some sf \<Rightarrow> if mapped sf then Some h3
          else transaction_run env (Children (sub_below (current sf))) h3 \<bind>
            (\<lambda>h'. surfaces h' (e_surface ?e) \<bind> (\<lambda>sf'. transaction_run env (Children (sub_above (current sf'))) h'))) = Some h3"
  proof (cases "surfaces h3 (e_surface ?e)")
    case (Some sf)
    have "calm (without G L) h3" using 3(2) by (simp add: good_def)
    then have "calm_surface sf (queued h3 (without G L) (e_surface ?e))" using Some eq unfolding calm_def by blast
    then have "mapped sf \<or> sub_below (current sf) = [] \<and> sub_above (current sf) = []"
      by (auto simp: calm_surface_def children_of_def)
    then show ?thesis using Some by (auto simp: run_children_none)
  qed simp
  have "transaction_run env (From_entry t i) h = transaction_run env (From_entry t (Suc i)) h3"
    using i 1(1) 3(1) kids
    by (subst transaction_run.simps) (simp add: es Let_def bind_assoc cong: option.case_cong)
  then show ?thesis using 3(2) H by blast
qed

lemma run_entries:
  assumes g: "good G (d(t := i)) D h" and t: "t \<in> D" and es: "transactions h t = Some es" and i: "i \<le> length es"
    and IH: "\<And>G d h' n. good G d D h' \<Longrightarrow> n \<in> set G \<Longrightarrow> n \<notin> D \<Longrightarrow> set G \<subseteq> A \<Longrightarrow>
      \<exists>h'' L. transaction_run env (TryApply n) h' = Some h'' \<and> good (without G L) d D h'' \<and> has_applied G D h' h'' L"
    and A: "set G \<subseteq> A"
  shows "\<exists>h' L. transaction_run env (From_entry t i) h = Some h' \<and> good (without G L) (d(t := length es)) D h' \<and> has_applied G D h h' L"
  using g es i A
proof (induction "length es - i" arbitrary: i G h)
  case 0
  then have "i = length es" by simp
  then have "transaction_run env (From_entry t i) h = Some h"
    using 0 by (subst transaction_run.simps) simp
  then show ?case using 0 \<open>i = length es\<close> by (intro exI [of _ h] exI [of _ "[]"]) (simp add: has_applied_nothing)
next
  case (Suc k)
  then have i: "i < length es" by simp
  obtain h1 L1 where 1: "transaction_run env (From_entry t i) h = transaction_run env (From_entry t (Suc i)) h1"
    "good (without G L1) (d(t := Suc i)) D h1" "has_applied G D h h1 L1"
    using entry_step [OF Suc.prems(1) t Suc.prems(2) i, of env] IH Suc.prems(4) by blast
  have "transactions h1 t = Some es" using 1(3) t Suc.prems(2) by (simp add: has_applied_def)
  then obtain h2 L2 where "transaction_run env (From_entry t (Suc i)) h1 = Some h2"
    "good (without (without G L1) L2) (d(t := length es)) D h2" "has_applied (without G L1) D h1 h2 L2"
    using Suc.hyps(1) [of "Suc i" "without G L1" h1] Suc.hyps(2) Suc.prems(4) 1(2) i by fastforce
  moreover have "without (without G L1) L2 = without G (L1 @ L2)" by (simp add: conj_commute)
  ultimately show ?case using 1 has_applied_append [OF 1(3)] by metis
qed

section \<open>One transaction\<close>

lemma in_order_cons:
  assumes ord: "in_order T' G L" and same: "\<And>u. u \<noteq> t \<Longrightarrow> u \<in> set G \<Longrightarrow> T' u = T u" and t: "t \<notin> set L" "set L \<subseteq> set G"
    and first: "\<And>v. v \<in> set (takeWhile (\<lambda>x. x \<noteq> t) G) \<Longrightarrow> T v \<inter> T t = {}"
  shows "in_order T G (t # L)"
  unfolding in_order_def
proof (intro ballI impI)
  fix u v assume u: "u \<in> set (t # L)" and v: "v \<in> set (takeWhile (\<lambda>x. x \<noteq> u) G)" and sh: "T v \<inter> T u \<noteq> {}"
  show "v \<in> set (takeWhile (\<lambda>x. x \<noteq> u) (t # L))"
  proof (cases "u = t")
    case True
    then show ?thesis using first v sh by blast
  next
    case False
    then have "u \<in> set L" "u \<in> set G" "v \<in> set G" using u t(2) v by (auto dest: set_takeWhileD)
    then show ?thesis using ord same [of u] same [of v] False v sh by (cases "v = t") (auto simp: in_order_def)
  qed
qed

lemma delete_good:
  assumes g: "good G (d(t := length es)) (insert t D) h" and es: "transactions h t = Some es" and d: "d t = 0" and t: "t \<notin> D"
  shows "good (removeAll t G) d D (h\<lparr>transactions := (transactions h)(t := None)\<rparr>)"
proof -
  let ?h = "h\<lparr>transactions := (transactions h)(t := None)\<rparr>"
  have lt: "link_table ?h = (link_table h)(t := None)" "ends_of ?h = ends_of h" by (auto simp: link_table_def ends_of_def)
  have "queues_ok G (d(t := length es)) (link_table h) (ends_of h)" using g by (simp add: good_def)
  from finish_ok(1) [OF this, of t] have q: "queues_ok (removeAll t G) d (link_table ?h) (ends_of ?h)"
    using d links_of_table [OF es] by (simp add: lt fun_upd_idem)
  have sh: "same_shape h ?h" by (rule store_shape) simp_all
  have "calm (removeAll t G) ?h"
  proof (rule calm_core [OF _ sh])
    show "calm G h" using g by (simp add: good_def)
    show "e \<in> queued ?h (removeAll t G) s \<Longrightarrow> \<exists>e' \<in> queued h G s. e_state e' = e_state e" for s e
      by (auto simp: queued_def)
  qed simp
  moreover have "u \<in> D" if u: "0 < d u" for u
  proof -
    have "u \<noteq> t" using u d by auto
    moreover have "\<forall>v. 0 < (d(t := length es)) v \<longrightarrow> v \<in> insert t D" using g by (simp add: good_def)
    ultimately show ?thesis using u by (metis fun_upd_other insertE)
  qed
  moreover have "D \<subseteq> set (removeAll t G)" using g t by (auto simp: good_def)
  moreover have "\<forall>u \<in> D. \<forall>l \<in> set (links_of (link_table ?h) u). l_prev l = None"
    using g t unfolding good_def lt links_of_def by auto
  ultimately show ?thesis
    using g q tree_ok_shape [OF sh] unfolding good_def by blast
qed

theorem run_tryApply:
  assumes env: "sort_ok env"
  shows "good G d D h \<Longrightarrow> t \<in> set G \<Longrightarrow> t \<notin> D \<Longrightarrow>
    \<exists>h' L. transaction_run env (TryApply t) h = Some h' \<and> good (without G L) d D h' \<and> has_applied G D h h' L \<and>
      (isReady t h = Some True \<longleftrightarrow> t \<in> set L)"
proof (induction "card (set G - D)" arbitrary: G d D h t rule: less_induct)
  case less
  have ok: "queues_ok G d (link_table h) (ends_of h)" "tree_ok h" and d: "d t = 0"
    using less.prems by (auto simp: good_def)
  obtain es where es: "transactions h t = Some es" using queues_okD(2) [OF ok(1) less.prems(2)] by (auto simp: link_table_def)
  obtain r where r: "isReady t h = Some r" "r \<longrightarrow> (\<forall>e \<in> set es. previousTransaction e = None)" using isReady_returns [OF ok(2) es] by blast
  show ?case
  proof (cases r)
    case False
    then have "transaction_run env (TryApply t) h = Some h" using r by (subst transaction_run.simps) simp
    then show ?thesis using less.prems(1) r False by (intro exI [of _ h] exI [of _ "[]"]) (simp add: has_applied_nothing)
  next
    case True
    then have prev: "\<forall>e \<in> set es. previousTransaction e = None" using r by blast
    obtain h1 es1 where 1: "apply_states env t h = Some h1" "good G d (insert t D) h1" "applied h1 = applied h @ [t]"
      "transactions h1 = (transactions h)(t \<mapsto> es1)" "surfs {} h1 = surfs {} h"
      using apply_states_good [OF env less.prems(1,2,3) es prev] by blast
    have smaller: "card (set G' - insert t D) < card (set G - D)" if "set G' \<subseteq> set G" for G'
      using that less.prems(2,3) by (intro psubset_card_mono) auto
    have t1: "transactions h1 t = Some es1" "d(t := 0) = d" using 1(4) d by (simp_all add: fun_upd_idem)
    have IH: "\<exists>h'' L. transaction_run env (TryApply n) h' = Some h'' \<and> good (without G' L) d' (insert t D) h'' \<and> has_applied G' (insert t D) h' h'' L"
      if "good G' d' (insert t D) h'" "n \<in> set G'" "n \<notin> insert t D" "set G' \<subseteq> set G" for G' d' h' n
      using less.hyps [OF smaller [OF that(4)] that(1-3)] by blast
    obtain h2 L where 2: "transaction_run env (From_entry t 0) h1 = Some h2" "good (without G L) (d(t := length es1)) (insert t D) h2"
      "has_applied G (insert t D) h1 h2 L"
      using run_entries [of G d t 0 "insert t D" h1 es1 "set G" env] 1(2) t1 IH by auto
    have t2: "transactions h2 t = Some es1" "t \<notin> set L" "set L \<subseteq> set G - insert t D" "distinct L" "applied h2 = applied h1 @ L"
      using 2(3) t1 by (auto simp: has_applied_def)
    define h3 where "h3 = h2\<lparr>transactions := (transactions h2)(t := None)\<rparr>"
    have "transaction_run env (Apply t) h = Some h3"
      using 1(1) 2(1) t2(1) by (subst transaction_run.simps) (simp add: h3_def)
    then have run: "transaction_run env (TryApply t) h = Some h3"
      using r True by (subst transaction_run.simps) simp
    have "removeAll t (without G L) = without G (t # L)" by (auto simp: removeAll_filter_not_eq intro!: filter_cong)
    then have good3: "good (without G (t # L)) d D h3"
      using delete_good [OF 2(2) t2(1) d less.prems(3)] by (simp add: h3_def)
    have s2: "surfs {} h2 u = surfs {} h u" if "u \<in> set G - set L" for u
      using 2(3) 1(5) that by (simp add: has_applied_def)
    have "in_order (surfs D h) G (t # L)"
    proof (rule in_order_cons)
      show "in_order (surfs (insert t D) h1) G L" using 2(3) by (simp add: has_applied_def)
      show "surfs (insert t D) h1 u = surfs D h u" if "u \<noteq> t" for u
        using fun_cong [OF 1(5), of u] that by (simp add: surfs_def)
      show "surfs D h v \<inter> surfs D h t = {}" if v: "v \<in> set (takeWhile (\<lambda>x. x \<noteq> t) G)" for v
      proof (cases "v \<in> D")
        case False
        have "\<forall>l \<in> set (links_of (link_table h) t). l_prev l = None" using prev links_of_table [OF es] by simp
        from unblocked_shares_none [OF ok(1) less.prems(2) this v]
        have "touched d (link_table h) v \<inter> touched d (link_table h) t = {}" .
        moreover have "d v = 0" using less.prems(1) False by (auto simp: good_def)
        ultimately show ?thesis using False less.prems(3) d by (simp add: surfs_def touched_def rest_def)
      qed (simp add: surfs_def)
    qed (use t2 in auto)
    moreover have "\<forall>u \<in> D. transactions h3 u = transactions h u"
      using 2(3) 1(4) less.prems(3) by (auto simp: has_applied_def h3_def)
    moreover have "\<forall>u \<in> set G - set (t # L). surfs {} h3 u = surfs {} h u"
    proof
      fix u assume u: "u \<in> set G - set (t # L)"
      then have "surfs {} h3 u = surfs {} h2 u" by (simp add: surfs_def links_of_def link_table_def h3_def)
      then show "surfs {} h3 u = surfs {} h u" using s2 u by simp
    qed
    moreover have "set L \<subseteq> set G - D" using t2(3) by blast
    ultimately have "has_applied G D h h3 (t # L)"
      using t2 1(3) less.prems(2,3) by (simp add: has_applied_def h3_def)
    then show ?thesis using run good3 r(1) True by (metis list.set_intros(1))
  qed
qed

end
