(* ===== verification/TransactionCommit.thy ===== *)
theory TransactionCommit
  imports TransactionOrder
begin

text \<open>
  \<open>Transaction::commit\<close> puts the transaction at the end of the queue of each of its surfaces and then tries
  to apply it. The queues before and after are read off the list of the commits.
\<close>

section \<open>Changes of links only\<close>

definition only_links :: "store \<Rightarrow> store \<Rightarrow> bool" where
  "only_links h h' \<longleftrightarrow> same_shape h h' \<and> applied h' = applied h \<and>
     (\<forall>s. map_option (\<lambda>sf. (mapped sf, current sf)) (surfaces h' s) = map_option (\<lambda>sf. (mapped sf, current sf)) (surfaces h s)) \<and>
     (\<forall>u. map_option (map (\<lambda>e. (e_surface e, e_state e))) (transactions h' u) =
          map_option (map (\<lambda>e. (e_surface e, e_state e))) (transactions h u))"

lemma only_links_refl [simp]: "only_links h h"
  by (simp add: only_links_def)

lemma only_links_trans: "only_links h h' \<Longrightarrow> only_links h' h'' \<Longrightarrow> only_links h h''"
  using same_shape_trans by (auto simp: only_links_def)

lemma calm_only_links:
  assumes "calm G h" "only_links h h'"
  shows "calm G h'"
proof (rule calm_core [OF assms(1)])
  show "\<exists>e' \<in> queued h G s. e_state e' = e_state e" if "e \<in> queued h' G s" for s e
  proof -
    obtain u es' where u: "u \<in> set G" "transactions h' u = Some es'" "e \<in> set es'" "e_surface e = s"
      using \<open>e \<in> queued h' G s\<close> by (auto simp: queued_def)
    have "map_option (map (\<lambda>e. (e_surface e, e_state e))) (transactions h' u) =
        map_option (map (\<lambda>e. (e_surface e, e_state e))) (transactions h u)"
      using assms(2) by (simp add: only_links_def)
    then obtain es where es: "transactions h u = Some es"
      "map (\<lambda>e. (e_surface e, e_state e)) es' = map (\<lambda>e. (e_surface e, e_state e)) es"
      using u(2) by (cases "transactions h u") auto
    have "(e_surface e, e_state e) \<in> set (map (\<lambda>e. (e_surface e, e_state e)) es')" using u(3) by force
    then obtain e0 where "e0 \<in> set es" "e_surface e0 = e_surface e" "e_state e0 = e_state e" unfolding es(2) by auto
    moreover from this have "e0 \<in> queued h G s" using u(1,4) es(1) by (auto simp: queued_def)
    ultimately show ?thesis by blast
  qed
  show "map_option (\<lambda>sf. (mapped sf, current sf)) (surfaces h' s) = map_option (\<lambda>sf. (mapped sf, current sf)) (surfaces h s)" for s
    using assms(2) unfolding only_links_def by blast
qed (use assms(2) in \<open>simp add: only_links_def\<close>)

lemma surfs_only_links:
  assumes "only_links h h'"
  shows "surfs {} h' u = surfs {} h u"
proof -
  have eq: "surfs {} k u = (case transactions k u of None \<Rightarrow> {} | Some es \<Rightarrow> fst ` set (map (\<lambda>e. (e_surface e, e_state e)) es))" for k
    by (simp add: surfs_def links_of_def link_table_def image_image split: option.splits)
  have "map_option (map (\<lambda>e. (e_surface e, e_state e))) (transactions h' u) =
      map_option (map (\<lambda>e. (e_surface e, e_state e))) (transactions h u)"
    using assms by (simp add: only_links_def)
  then show ?thesis unfolding eq by (cases "transactions h u"; cases "transactions h' u") (auto simp del: set_map)
qed

section \<open>One entry\<close>

text \<open>An entry that has not been put on a queue, of a surface that exists.\<close>

definition entry_fresh :: "surface_env \<Rightarrow> store \<Rightarrow> entry \<Rightarrow> bool" where
  "entry_fresh env h e \<longleftrightarrow> alive h (e_surface e) \<and> previousTransaction e = None \<and> nextTransaction e = None \<and>
     watch_entry env e \<noteq> None"

lemma watch_entry_keeps: "watch_entry env e = Some e' \<Longrightarrow>
    e_surface e' = e_surface e \<and> e_state e' = e_state e \<and> link_of e' = link_of e"
  by (auto simp: watch_entry_def link_of_def split: if_splits option.splits)

lemma set_next_links: "map link_of (set_next s t es) = set_next_link s t (map link_of es)"
  by (simp add: set_next_def set_next_link_def link_of_def)

lemma set_next_states: "map (\<lambda>e. (e_surface e, e_state e)) (set_next s t es) = map (\<lambda>e. (e_surface e, e_state e)) es"
  by (simp add: set_next_def)

text \<open>The store after an entry has been put on the queue of its surface.\<close>

definition pushed :: "nat \<Rightarrow> nat \<Rightarrow> entry \<Rightarrow> entry list \<Rightarrow> surface \<Rightarrow> store \<Rightarrow> store" where
  "pushed t i e es sf h =
     (let s = e_surface e; b = lastTransaction sf;
          T = (case b of None \<Rightarrow> transactions h | Some l \<Rightarrow> (transactions h)(l := map_option (set_next s t) (transactions h l)))
      in h\<lparr>surfaces := (surfaces h)(s \<mapsto> sf\<lparr>firstTransaction := (if firstTransaction sf = None then Some t else firstTransaction sf),
                                         lastTransaction := Some t\<rparr>),
           transactions := T(t \<mapsto> es[i := e\<lparr>previousTransaction := b\<rparr>])\<rparr>)"

lemma commit_entry_eq:
  assumes es: "transactions h t = Some es" and i: "i < length es" and sf: "surfaces h (e_surface (es ! i)) = Some sf"
    and e: "watch_entry env (es ! i) = Some e"
    and ends: "firstTransaction sf = None \<longleftrightarrow> lastTransaction sf = None"
    and l: "\<And>l. lastTransaction sf = Some l \<Longrightarrow> l \<noteq> t \<and> transactions h l \<noteq> None"
  shows "commit_entry env t i h = Some (pushed t i e es sf h)"
proof -
  have s: "e_surface (es ! i) = e_surface e" using watch_entry_keeps [OF e] by simp
  show ?thesis
  proof (cases "lastTransaction sf")
    case None
    then show ?thesis
      using es i sf e ends unfolding s
      by (simp add: commit_entry_def Let_def update_entry_def update_entries_def update_surface_def pushed_def s)
  next
    case (Some l)
    then obtain ls a where "l \<noteq> t" "transactions h l = Some ls" "firstTransaction sf = Some a"
      using l [of l] ends by auto
    then show ?thesis
      using es i sf e Some unfolding s
      by (simp add: commit_entry_def Let_def update_entry_def update_entries_def update_surface_def pushed_def s fun_upd_twist)
        (intro store.equality; simp add: fun_eq_iff surface.equality)
  qed
qed

lemma pushed_only_links:
  assumes es: "transactions h t = Some es" and i: "i < length es" and sf: "surfaces h (e_surface e) = Some sf"
    and e: "e_surface e = e_surface (es ! i)" "e_state e = e_state (es ! i)"
    and l: "lastTransaction sf \<noteq> Some t"
  shows "only_links h (pushed t i e es sf h)"
proof -
  have "map (\<lambda>e. (e_surface e, e_state e)) (es[i := e\<lparr>previousTransaction := b\<rparr>]) = map (\<lambda>e. (e_surface e, e_state e)) es" for b
    using i e by (simp add: map_update list_update_same_conv)
  moreover have "same_shape h (pushed t i e es sf h)"
    using sf by (simp add: same_shape_def alive_def handle_of_def parent_of_def surface_of_def discarded_def pushed_def Let_def fun_eq_iff
        cong: option.case_cong)
  ultimately show ?thesis
    using es sf l by (auto simp: only_links_def pushed_def Let_def set_next_states option.map_comp comp_def split: option.splits)
qed

lemma pushed_links:
  assumes es: "transactions h t = Some es" and i: "i < length es" and sf: "surfaces h (e_surface e) = Some sf"
    and e: "link_of e = link_of (es ! i)" "previousTransaction e = None" "nextTransaction e = None"
    and l: "lastTransaction sf \<noteq> Some t"
  shows "(link_table (pushed t i e es sf h))(t \<mapsto> take (Suc i) (map link_of (es[i := e\<lparr>previousTransaction := lastTransaction sf\<rparr>]))) =
      push_links t (e_surface e) (lastTransaction sf) ((link_table h)(t \<mapsto> take i (map link_of es)))" (is ?links)
    and "ends_of (pushed t i e es sf h) = (ends_of h)(e_surface e \<mapsto>
      (if firstTransaction sf = None then Some t else firstTransaction sf, Some t))" (is ?ends)
proof -
  let ?new = "\<lparr>l_surface = e_surface e, l_prev = lastTransaction sf, l_next = None\<rparr>"
  have "link_of (e\<lparr>previousTransaction := lastTransaction sf\<rparr>) = ?new"
    using e by (simp add: link_of_def)
  then have "take (Suc i) (map link_of (es[i := e\<lparr>previousTransaction := lastTransaction sf\<rparr>])) = take i (map link_of es) @ [?new]"
    using i by (simp add: take_Suc_conv_app_nth map_update)
  then show ?links
    using l by (auto simp: push_links_def Let_def links_of_def link_table_def pushed_def option.map_comp comp_def set_next_links
        fun_eq_iff intro!: option.map_cong split: option.splits)
  show ?ends
    by (auto simp: ends_of_def pushed_def Let_def fun_eq_iff)
qed

lemma commit_entry_push:
  assumes ok: "queues_ok (G @ [t]) none ((link_table h)(t \<mapsto> take i (map link_of es))) (ends_of h)"
    and es: "transactions h t = Some es" and i: "i < length es" and dist: "distinct (map e_surface es)"
    and fresh: "entry_fresh env h (es ! i)"
  shows "\<exists>h' e. commit_entry env t i h = Some h' \<and> only_links h h' \<and> transactions h' t = Some (es[i := e]) \<and>
    e_surface e = e_surface (es ! i) \<and>
    queues_ok (G @ [t]) none ((link_table h')(t \<mapsto> take (Suc i) (map link_of (es[i := e])))) (ends_of h')"
proof -
  let ?LT = "(link_table h)(t \<mapsto> take i (map link_of es))"
  define s where "s = e_surface (es ! i)"
  obtain sf e where sf: "surfaces h s = Some sf" and e: "watch_entry env (es ! i) = Some e"
    using fresh by (auto simp: entry_fresh_def alive_def s_def)
  have e': "e_surface e = s" "e_state e = e_state (es ! i)" "link_of e = link_of (es ! i)"
    using watch_entry_keeps [OF e] by (simp_all add: s_def)
  then have links: "previousTransaction e = None" "nextTransaction e = None"
    using fresh by (simp_all add: link_of_def entry_fresh_def)
  have s: "s \<notin> touched none ?LT t"
  proof
    assume "s \<in> touched none ?LT t"
    then have "map e_surface es ! i \<in> set (take i (map e_surface es))"
      using i by (auto simp: touched_def rest_none links_of_def s_def take_map)
    then show False using dist i id_take_nth_drop [of i "map e_surface es"] by (metis distinct_append distinct.simps(2) length_map not_distinct_conv_prefix)
  qed
  have en: "ends_of h s = Some (firstTransaction sf, lastTransaction sf)" using sf by (simp add: ends_of_def)
  let ?Q = "queue (G @ [t]) none ?LT s"
  have ab: "firstTransaction sf = first_of ?Q" "lastTransaction sf = last_of ?Q"
    using queues_okD(6) [OF ok en] by simp_all
  have l: "l \<noteq> t \<and> transactions h l \<noteq> None" if "lastTransaction sf = Some l" for l
  proof -
    have "l \<in> set ?Q" using that ab(2) by (auto simp: last_of_def split: if_splits)
    then have l: "l \<in> set (G @ [t])" "s \<in> touched none ?LT l" using queue_set by metis+
    then have "l \<noteq> t" using s by blast
    then show ?thesis using queues_okD(2) [OF ok l(1)] by (auto simp: link_table_def)
  qed
  have "firstTransaction sf = None \<longleftrightarrow> lastTransaction sf = None"
    unfolding ab by (cases ?Q) (simp_all add: last_of_def)
  then have run: "commit_entry env t i h = Some (pushed t i e es sf h)"
    using commit_entry_eq [OF es i _ e] sf l by (simp add: s_def)
  note P = pushed_links [OF es i, of e sf] pushed_only_links [OF es i, of e sf]
  have pre: "surfaces h (e_surface e) = Some sf" "lastTransaction sf \<noteq> Some t" using sf e' l by auto
  show ?thesis
  proof (intro exI conjI)
    show "commit_entry env t i h = Some (pushed t i e es sf h)" by (rule run)
    show "only_links h (pushed t i e es sf h)" using P(3) pre e' by (simp add: s_def)
    show "transactions (pushed t i e es sf h) t = Some (es[i := e\<lparr>previousTransaction := lastTransaction sf\<rparr>])"
      by (simp add: pushed_def Let_def)
    show "e_surface (e\<lparr>previousTransaction := lastTransaction sf\<rparr>) = e_surface (es ! i)" using e' by (simp add: s_def)
    show "queues_ok (G @ [t]) none ((link_table (pushed t i e es sf h))(t \<mapsto>
        take (Suc i) (map link_of (es[i := e\<lparr>previousTransaction := lastTransaction sf\<rparr>])))) (ends_of (pushed t i e es sf h))"
      using push_ok(1) [OF ok s en] P(1,2) [OF pre(1) e'(3) links pre(2)] e'(1) by simp
  qed
qed

section \<open>The whole commit\<close>

lemma entry_fresh_shape: "same_shape h h' \<Longrightarrow> entry_fresh env h' e = entry_fresh env h e"
  by (simp add: entry_fresh_def same_shape_def)

lemma commit_entries:
  assumes "queues_ok (G @ [t]) none ((link_table h)(t \<mapsto> take i (map link_of es))) (ends_of h)"
    and "transactions h t = Some es" "i \<le> length es" "distinct (map e_surface es)"
    and "\<And>j. i \<le> j \<Longrightarrow> j < length es \<Longrightarrow> entry_fresh env h (es ! j)"
  shows "\<exists>h'. each_object (commit_entry env t) [i..<length es] h = Some h' \<and> only_links h h' \<and>
    queues_ok (G @ [t]) none (link_table h') (ends_of h')"
  using assms
proof (induction "length es - i" arbitrary: i h es)
  case 0
  then have "i = length es" by simp
  then have "(link_table h)(t \<mapsto> take i (map link_of es)) = link_table h"
    using 0 by (auto simp: link_table_def)
  then show ?case using 0 \<open>i = length es\<close> by simp
next
  case (Suc k)
  then have i: "i < length es" by simp
  obtain h1 e where 1: "commit_entry env t i h = Some h1" "only_links h h1" "transactions h1 t = Some (es[i := e])"
    "e_surface e = e_surface (es ! i)"
    "queues_ok (G @ [t]) none ((link_table h1)(t \<mapsto> take (Suc i) (map link_of (es[i := e])))) (ends_of h1)"
    using commit_entry_push [OF Suc.prems(1,2) i Suc.prems(4)] Suc.prems(5) [of i] i by blast
  have "map e_surface (es[i := e]) = map e_surface es" using i 1(4) by (simp add: map_update list_update_same_conv)
  then have "distinct (map e_surface (es[i := e]))" using Suc.prems(4) by simp
  moreover have "entry_fresh env h1 (es[i := e] ! j)" if "Suc i \<le> j" "j < length (es[i := e])" for j
    using Suc.prems(5) [of j] that 1(2) entry_fresh_shape by (auto simp: only_links_def)
  moreover have "k = length (es[i := e]) - Suc i" "Suc i \<le> length (es[i := e])" using Suc.hyps(2) i by simp_all
  ultimately obtain h2 where "each_object (commit_entry env t) [Suc i..<length es] h1 = Some h2" "only_links h1 h2"
    "queues_ok (G @ [t]) none (link_table h2) (ends_of h2)"
    using Suc.hyps(1) [of "es[i := e]" "Suc i" h1] 1(3,5) unfolding length_list_update by blast
  then show ?case using i 1 only_links_trans by (subst upt_conv_Cons) auto
qed

theorem run_commit:
  assumes env: "sort_ok env" and good: "good G none {} h" and t: "t \<notin> set G"
    and es: "transactions h t = Some es" "distinct (map e_surface es)" "\<forall>e \<in> set es. entry_fresh env h e"
    and calm: "calm (G @ [t]) h"
  shows "\<exists>h' L. Transaction_commit env t h = Some h' \<and> good (without (G @ [t]) L) none {} h' \<and>
    has_applied (G @ [t]) {} h h' L"
proof -
  have ok: "queues_ok G none (link_table h) (ends_of h)" "tree_ok h" using good by (simp_all add: good_def)
  have "queues_ok (G @ [t]) none ((link_table h)(t \<mapsto> take 0 (map link_of es))) (ends_of h)"
    using begin_ok [OF ok(1) t] by simp
  from commit_entries [OF this es(1) _ es(2)] obtain h1 where
    1: "each_object (commit_entry env t) [0..<length es] h = Some h1" "only_links h h1" "queues_ok (G @ [t]) none (link_table h1) (ends_of h1)"
    using es(3) by (metis le0 nth_mem)
  have "good (G @ [t]) none {} h1"
    using 1 ok(2) calm_only_links [OF calm 1(2)] tree_ok_shape by (auto simp: good_def only_links_def)
  from run_tryApply [OF env this, of t] obtain h2 L where
    2: "transaction_run env (TryApply t) h1 = Some h2" "good (without (G @ [t]) L) none {} h2" "has_applied (G @ [t]) {} h1 h2 L" by auto
  have "has_applied (G @ [t]) {} h h2 L"
    using 2(3) 1(2) surfs_only_links [OF 1(2)] unfolding has_applied_def only_links_def by (auto simp: in_order_def)
  then show ?thesis using es(1) 1(1) 2(1,2) by (intro exI [of _ h2] exI [of _ L]) (simp add: Transaction_commit_def tryApply_def)
qed

end
