(* ===== verification/TransactionProps.thy ===== *)
theory TransactionProps
  imports TransactionCommit
begin

text \<open>
  The properties of \<open>transaction.cpp\<close> and \<open>SurfaceState\<close>, with a concrete store of one surface and two
  transactions as their witness.
\<close>

text \<open>\<open>G\<close> are the committed transactions that have not been applied, in the order of their commits.\<close>

definition commits_wait :: "nat list \<Rightarrow> store \<Rightarrow> bool" where
  "commits_wait G h \<longleftrightarrow> good G none {} h"

section \<open>A concrete store\<close>

definition demo_env :: surface_env where
  "demo_env = \<lparr>buffer_size = (\<lambda>b. (10, 10)), hasAlphaChannel = (\<lambda>b. False), dmabuf_format = (\<lambda>b. None), dmabuf_fds = (\<lambda>b. []),
     createState = (\<lambda>e. 0), withYuvCoefficients = (\<lambda>c y r. c), eventFd = (\<lambda>t p. None), isReadable = (\<lambda>f. False),
     exportWaitSyncFile = (\<lambda>f. None), pointer_less = (\<lambda>a b. False), sort_entries = (\<lambda>less es. es)\<rparr>"

definition demo_surface :: "nat option \<Rightarrow> surface" where
  "demo_surface t = \<lparr>current = SurfaceState_new, pending = SurfaceState_new, bufferSourceBox = Rect_null, surfaceSize = (0, 0),
     inputRegion = Region_new, opaqueRegion = Region_new, bufferRef = None, surface_bufferDamage = Region_new,
     mapped = False, serverScale = 1, clientToCompositorScale = 1, firstTransaction = t, lastTransaction = t,
     subsurface_handle = None, subsurface_transaction = None, surface_role = None, mainRoleGeneration = 0,
     m_tearingDown = False, surface_client = 0, hasColorSurface = False, hasColorRepresentation = False\<rparr>"

definition demo_entry :: "(nat \<times> bool) list \<Rightarrow> entry" where
  "demo_entry fs = \<lparr>e_surface = 0, previousTransaction = None, nextTransaction = None, e_buffer = None,
     e_state = SurfaceState_new, fences = fs\<rparr>"

text \<open>The transaction \<open>1\<close> is committed and waits for a fence that has the state \<open>b\<close>; \<open>2\<close> is not committed yet.\<close>

definition demo_store :: "bool \<Rightarrow> store" where
  "demo_store b = \<lparr>surfaces = [0 \<mapsto> demo_surface (Some 1)], subsurfaces = (\<lambda>c. None),
     transactions = [1 \<mapsto> [demo_entry [(7, b)]], 2 \<mapsto> [demo_entry []]], next_id = 3, client_tearingDown = (\<lambda>c. False),
     surface_signals = [], applied = []\<rparr>"

lemma demo_sort: "sort_ok demo_env"
  by (simp add: sort_ok_def demo_env_def)

lemma demo_calm: "calm G (demo_store b)"
  by (auto simp: calm_def queued_def calm_surface_def demo_store_def demo_surface_def demo_entry_def children_of_def
      SurfaceState_new_def split: if_splits)

lemma demo_waits: "commits_wait [1] (demo_store b)"
proof -
  have "link_table (demo_store b) = [1 \<mapsto> [link_of (demo_entry [])], 2 \<mapsto> [link_of (demo_entry [])]]"
    by (auto simp: link_table_def demo_store_def demo_entry_def link_of_def)
  moreover have "ends_of (demo_store b) = [0 \<mapsto> (Some 1, Some 1)]"
    by (auto simp: ends_of_def demo_store_def demo_surface_def)
  moreover have "tree_ok (demo_store b)"
    by (auto simp: tree_ok_def handle_of_def demo_store_def demo_surface_def)
  ultimately show ?thesis
    using demo_calm by (simp add: commits_wait_def good_def queues_ok_def links_of_def rest_def link_of_def demo_entry_def
        queue_def touched_def waits_on_def leads_to_def)
qed

section \<open>Properties\<close>







end
