(* ===== verification/SurfaceErrors.thy ===== *)
theory SurfaceErrors
  imports SurfaceReach TransactionProps
begin

text \<open>
  The types of reachable stores, and three sequences of requests after which the compositor is stuck: a
  transaction that waits for itself, a child that is used after it was destroyed, and subsurfaces that are
  each other's ancestors.
\<close>

section \<open>Running requests\<close>

fun run_surfaces :: "surface_env \<Rightarrow> surface_request list \<Rightarrow> store \<Rightarrow> store option" where
  "run_surfaces env [] h = Some h"
| "run_surfaces env (r # rs) h = run_surface env r h \<bind> run_surfaces env rs"

lemma run_surfaces_reachable:
  "run_surfaces env rs h = Some h' \<Longrightarrow> list_all request_ok rs \<Longrightarrow> surfaces_reachable env h \<Longrightarrow> surfaces_reachable env h'"
  by (induction rs arbitrary: h) (auto simp: bind_eq_Some_conv intro: surfaces_reachable.step)

text \<open>
  Rules that evaluate runs on a concrete store. \<open>bind_weak\<close> keeps the rest of a run as it is until the
  first step has a value.
\<close>

lemma bind_weak: "m = m' \<Longrightarrow> Option.bind m f = Option.bind m' f"
  by simp

lemma mergeInto_sel:
  "sub_below (mergeInto c s t) = sub_below s" "sub_above (mergeInto c s t) = sub_above s"
  "sub_position (mergeInto c s t) = sub_position s" "committed (mergeInto c s t) = committed t \<union> committed s"
  "buffer (mergeInto c s t) = (if Field_Buffer \<in> committed s then buffer s else buffer t)"
  "hasFifoWaitCondition (mergeInto c s t) = hasFifoWaitCondition s"
  "fifoBarrier (mergeInto c s t) = (fifoBarrier t \<or> fifoBarrier s)"
  "roleGeneration (mergeInto c s t) = roleGeneration s"
  by (auto simp: mergeInto_def Let_def)

lemma mergedFrom_sel:
  "sub_below (mergedFrom c s) = sub_below s" "sub_above (mergedFrom c s) = sub_above s"
  "sub_position (mergedFrom c s) = sub_position s" "committed (mergedFrom c s) = {}"
  "buffer (mergedFrom c s) = buffer s" "hasFifoWaitCondition (mergedFrom c s) = False"
  "fifoBarrier (mergedFrom c s) = False" "roleGeneration (mergedFrom c s) = roleGeneration s"
  by (auto simp: mergedFrom_def Let_def)

lemma SurfaceState_new_sel:
  "sub_below SurfaceState_new = []" "sub_above SurfaceState_new = []" "committed SurfaceState_new = {}"
  "buffer SurfaceState_new = None" "hasFifoWaitCondition SurfaceState_new = False" "fifoBarrier SurfaceState_new = False"
  "roleGeneration SurfaceState_new = 0"
  by (simp_all add: SurfaceState_new_def)

text \<open>The colours of a surface without extensions; the rest of the surface does not matter for them.\<close>

definition plain_colors :: "surface_state \<Rightarrow> surface_state" where
  "plain_colors st = default_colors demo_env (demo_surface None) st"

lemma default_colors_plain:
  "\<not> hasColorSurface sf \<Longrightarrow> \<not> hasColorRepresentation sf \<Longrightarrow> default_colors demo_env sf st = plain_colors st"
  by (simp add: plain_colors_def default_colors_def demo_surface_def)

lemma plain_colors_sel:
  "sub_below (plain_colors st) = sub_below st" "sub_above (plain_colors st) = sub_above st"
  "sub_position (plain_colors st) = sub_position st" "buffer (plain_colors st) = buffer st"
  "hasFifoWaitCondition (plain_colors st) = hasFifoWaitCondition st" "fifoBarrier (plain_colors st) = fifoBarrier st"
  "roleGeneration (plain_colors st) = roleGeneration st"
  "Field_Buffer \<in> committed (plain_colors st) \<longleftrightarrow> Field_Buffer \<in> committed st"
  by (auto simp: plain_colors_def default_colors_def Let_def split: prod.splits)

lemmas state_sel = mergeInto_sel mergedFrom_sel SurfaceState_new_sel default_colors_plain plain_colors_sel

lemmas request_defs = Surface_new_def store_new_def get_subsurface_def SubSurface_new_def SubSurface_delete_def addChild_def
  removeChild_def amend_queued_def Transaction_amend_def nextRoleGeneration_def try_first_def update_surface_def update_subsurface_def
  emit_surface_def append_child_def remove_child_all_def remove_child_one_def parentSurface_def sub_surface_def
  surface_commit_def update_pending_def Transaction_new_def Transaction_add_def update_entries_def update_entry_def new_entry_def
  merge_entry_def Transaction_merge_def merge_child_def children_of_def Let_def

lemmas walk_defs = sub_mainSurface.simps amend_chain.simps isSynchronized.simps mainSurfaceRoleGeneration.simps

lemmas commit_defs = Transaction_commit_def commit_entry_def tryApply_def isReady_def entry_waits_def isDiscarded_def set_next_def
  watch_entry_def transaction_run.simps

section \<open>A transaction that waits for itself\<close>

definition waits_for_itself :: "nat \<Rightarrow> store \<Rightarrow> bool" where
  "waits_for_itself t h \<longleftrightarrow> (\<exists>es e. transactions h t = Some es \<and> e \<in> set es \<and> previousTransaction e = Some t)"

text \<open>A call leaves a transaction that waits for itself as it is, and does not apply it.\<close>

definition stays_stuck :: "nat \<Rightarrow> store \<Rightarrow> store \<Rightarrow> bool" where
  "stays_stuck t h h' \<longleftrightarrow> waits_for_itself t h' \<and> (\<exists>L. applied h' = applied h @ L \<and> t \<notin> set L)"

lemma stays_stuck_refl: "waits_for_itself t h \<Longrightarrow> stays_stuck t h h"
  by (simp add: stays_stuck_def)

lemma stays_stuck_trans: "stays_stuck t h k \<Longrightarrow> stays_stuck t k h' \<Longrightarrow> stays_stuck t h h'"
  by (auto simp: stays_stuck_def)

lemma stays_stuck_waits: "stays_stuck t h k \<Longrightarrow> waits_for_itself t k"
  by (simp add: stays_stuck_def)

lemma stays_stuck_other:
  "waits_for_itself t h \<Longrightarrow> transactions h' t = transactions h t \<Longrightarrow> applied h' = applied h @ L \<Longrightarrow> t \<notin> set L \<Longrightarrow> stays_stuck t h h'"
  by (auto simp: stays_stuck_def waits_for_itself_def)

lemma none_waits_all: "none_waits h es = Some True \<Longrightarrow> e \<in> set es \<Longrightarrow> entry_waits h e = Some False"
  by (induction es) (auto simp: bind_eq_Some_conv split: if_splits)

lemma self_wait_not_ready: "waits_for_itself t h \<Longrightarrow> isReady t h \<noteq> Some True"
  using none_waits_all [of h] by (fastforce simp: waits_for_itself_def isReady_def entry_waits_def)

lemma apply_states_other:
  assumes "apply_states env u h = Some h'" "u \<noteq> t"
  shows "transactions h' t = transactions h t \<and> applied h' = applied h @ [u]"
proof -
  obtain es' h1 where 1: "update_entries u (\<lambda>_. es') h = Some h1"
    "each_object (apply_entry env u) [0..<length es'] (h1\<lparr>applied := applied h1 @ [u]\<rparr>) = Some h'"
    using assms(1) by (auto simp: apply_states_def bind_eq_Some_conv)
  have step: "transactions k' t = transactions k t \<and> applied k' = applied k" if "apply_entry env u i k = Some k'" for i k k'
    using that assms(2) unfolding apply_entry_def Let_def
    by (auto simp: bind_eq_Some_conv update_entry_def update_entries_def same_transactions_def dest!: applyState_transactions
        split: if_splits option.splits)
  let ?P = "\<lambda>k. transactions k t = transactions h t \<and> applied k = applied h @ [u]"
  have "?P (h1\<lparr>applied := applied h1 @ [u]\<rparr>)" using 1(1) assms(2) by (auto simp: update_entries_def split: option.splits)
  then show ?thesis by (rule each_object_keeps [where P = ?P, OF 1(2)]) (use step in auto)
qed

lemma clear_previous_self:
  "u \<noteq> t \<Longrightarrow> e \<in> set es \<Longrightarrow> previousTransaction e = Some t \<Longrightarrow> e \<in> set (clear_previous u es)"
  by (induction es) auto

lemma clear_previous_stuck:
  assumes "waits_for_itself t h" "update_entries n (clear_previous u) h = Some h'" "u \<noteq> t"
  shows "stays_stuck t h h'"
proof -
  have "waits_for_itself t h'"
    using assms clear_previous_self [OF assms(3)]
    by (cases "n = t") (fastforce simp: waits_for_itself_def update_entries_def split: option.splits)+
  then show ?thesis using assms(2) by (auto simp: stays_stuck_def update_entries_def split: option.splits)
qed

lemma pop_surface_stuck: "waits_for_itself t h \<Longrightarrow> pop_surface u e h = Some h' \<Longrightarrow> stays_stuck t h h'"
  by (rule stays_stuck_other [where L = "[]"]) (auto simp: pop_surface_def update_surface_def split: option.splits)

lemma run_stuck:
  assumes "transaction_run env c h = Some h'" "waits_for_itself t h" "c \<noteq> Apply t" "\<And>i. c \<noteq> From_entry t i"
  shows "stays_stuck t h h'"
  using assms
proof (induction rule: transaction_run.raw_induct [rotated, consumes 1, case_names step])
  case (step run env c h h')
  note body = step.hyps and stuck = step.prems(1)
  have tried: "stays_stuck t k k'" if "run env (TryApply u) k = Some k'" "waits_for_itself t k" for u k k'
    using step.IH [OF that(1,2)] by simp
  have kids: "stays_stuck t k k'" if "run env (Children cs) k = Some k'" "waits_for_itself t k" for cs k k'
    using step.IH [OF that(1,2)] by simp
  show ?case
  proof (cases c)
    case (TryApply u)
    obtain r where r: "isReady u h = Some r" "(if r then run env (Apply u) h else Some h) = Some h'"
      using body TryApply by (auto simp: bind_eq_Some_conv)
    show ?thesis
    proof (cases r)
      case True
      then have "u \<noteq> t" using self_wait_not_ready [OF stuck] r(1) by auto
      then show ?thesis using step.IH [of env "Apply u" h h'] r(2) True stuck by simp
    qed (use r(2) stays_stuck_refl [OF stuck] in simp)
  next
    case (Apply u)
    then have u: "u \<noteq> t" using step.prems(2) by auto
    obtain h1 h2 where 1: "apply_states env u h = Some h1" "run env (From_entry u 0) h1 = Some h2"
      "h' = h2\<lparr>transactions := (transactions h2)(u := None)\<rparr>"
      using body Apply by (auto simp: bind_eq_Some_conv)
    have s1: "stays_stuck t h h1" using apply_states_other [OF 1(1) u] u by (intro stays_stuck_other [OF stuck, where L = "[u]"]) auto
    have s2: "stays_stuck t h1 h2" using step.IH [OF 1(2) stays_stuck_waits [OF s1]] u by simp
    have "stays_stuck t h2 h'" using u by (intro stays_stuck_other [OF stays_stuck_waits [OF s2], where L = "[]"]) (simp_all add: 1(3))
    then show ?thesis using s1 s2 stays_stuck_trans by blast
  next
    case (From_entry u i)
    then have u: "u \<noteq> t" using step.prems(3) by auto
    obtain es where es: "transactions h u = Some es" using body From_entry by (auto simp: bind_eq_Some_conv)
    show ?thesis
    proof (cases "length es \<le> i")
      case True
      then show ?thesis using body stays_stuck_refl [OF stuck] From_entry es by simp
    next
      case False
      let ?e = "es ! i"
      obtain h1 h2 h3 where 1: "pop_surface u ?e h = Some h1"
        and 2: "(case nextTransaction ?e of None \<Rightarrow> Some h1
          | Some n \<Rightarrow> update_entries n (clear_previous u) h1 \<bind> run env (TryApply n)) = Some h2"
        and 3: "(case surfaces h2 (e_surface ?e) of None \<Rightarrow> Some h2
          | Some sf \<Rightarrow> if mapped sf then Some h2
              else run env (Children (sub_below (current sf))) h2 \<bind>
                (\<lambda>h'. surfaces h' (e_surface ?e) \<bind> (\<lambda>sf'. run env (Children (sub_above (current sf'))) h'))) = Some h3"
        and 4: "run env (From_entry u (i + 1)) h3 = Some h'"
        using body From_entry es False by (auto simp: bind_eq_Some_conv Let_def)
      have s1: "stays_stuck t h h1" using pop_surface_stuck [OF stuck 1] .
      have s2: "stays_stuck t h1 h2"
      proof (cases "nextTransaction ?e")
        case None
        then show ?thesis using 2 stays_stuck_refl [OF stays_stuck_waits [OF s1]] by simp
      next
        case (Some n)
        then obtain k where k: "update_entries n (clear_previous u) h1 = Some k" "run env (TryApply n) k = Some h2"
          using 2 by (auto simp: bind_eq_Some_conv)
        have "stays_stuck t h1 k" using clear_previous_stuck [OF stays_stuck_waits [OF s1] k(1) u] .
        then show ?thesis using tried [OF k(2) stays_stuck_waits] stays_stuck_trans by blast
      qed
      have s3: "stays_stuck t h2 h3"
      proof (cases "\<exists>sf. surfaces h2 (e_surface ?e) = Some sf \<and> \<not> mapped sf")
        case True
        then obtain cs k cs' where k: "run env (Children cs) h2 = Some k" "run env (Children cs') k = Some h3"
          using 3 by (auto simp: bind_eq_Some_conv)
        have "stays_stuck t h2 k" using kids [OF k(1) stays_stuck_waits [OF s2]] .
        then show ?thesis using kids [OF k(2) stays_stuck_waits] stays_stuck_trans by blast
      qed (use 3 stays_stuck_refl [OF stays_stuck_waits [OF s2]] in \<open>auto split: option.splits if_splits\<close>)
      have "stays_stuck t h3 h'" using step.IH [OF 4 stays_stuck_waits [OF s3]] u by simp
      then show ?thesis using s1 s2 s3 stays_stuck_trans by blast
    qed
  next
    case (Children cs)
    show ?thesis
    proof (cases cs)
      case Nil
      then show ?thesis using body Children stays_stuck_refl [OF stuck] by simp
    next
      case (Cons c' cs')
      obtain sf :: surface and h1 where 1: "(case firstTransaction sf of None \<Rightarrow> Some h | Some u \<Rightarrow> run env (TryApply u) h) = Some h1"
        "run env (Children cs') h1 = Some h'"
        using body unfolding Children Cons transaction_call.case list.case bind_eq_Some_conv by blast
      have s1: "stays_stuck t h h1"
        using 1(1) tried stuck stays_stuck_refl by (auto split: option.splits)
      then show ?thesis using kids [OF 1(2) stays_stuck_waits] stays_stuck_trans by blast
    qed
  qed
qed

end
