(* ===== verification/SurfaceProps.thy ===== *)
theory SurfaceProps
  imports SurfaceErrors
begin

text \<open>Properties of all stores that clients can reach, and of the runs in which the compositor gets stuck.\<close>

section \<open>Concrete runs\<close>

text \<open>
  Three surfaces: \<open>1\<close> is a subsurface of \<open>0\<close> and \<open>2\<close> one of \<open>1\<close>, both synchronized. The two children commit
  twice before \<open>0\<close> does.
\<close>

definition nested_commits :: "surface_request list" where
  "nested_commits = [Create_surface 0 1, Create_surface 0 1, Create_surface 0 1, Get_subsurface (Some 1) (Some 0),
     Get_subsurface (Some 2) (Some 1), Commit_surface False 2, Commit_surface False 1, Commit_surface False 2,
     Commit_surface False 1, Commit_surface False 0]"

lemma nested_commits_run:
  "\<exists>h. run_surfaces demo_env nested_commits store_new = Some h \<and>
    map_option (map (\<lambda>e. (e_surface e, previousTransaction e))) (transactions h 8) = Some [(2, None), (1, None), (2, Some 8), (0, None)] \<and>
    applied h = []"
  by (simp del: One_nat_def add: nested_commits_def request_defs walk_defs commit_defs state_sel cong: bind_weak)

text \<open>The same tree with a child \<open>3\<close> of \<open>2\<close>, whose subsurface \<open>6\<close> is destroyed while a commit that lists it is cached.\<close>

definition stale_child :: "surface_request list" where
  "stale_child = [Create_surface 0 1, Create_surface 0 1, Create_surface 0 1, Create_surface 0 1, Get_subsurface (Some 1) (Some 0),
     Get_subsurface (Some 2) (Some 1), Get_subsurface (Some 3) (Some 2), Commit_surface False 2, Commit_surface False 1,
     Destroy_subsurface 6]"

lemmas apply_defs = apply_states_def sorted_entries_def entry_less_def isAncestor.simps mainSurface_def apply_entry_def applyState_def
  merged_surface_def no_geometry_def clear_presentation_def clear_child_presentation_def

lemma demo_env_sort: "sort_entries demo_env cmp es = es"
  by (simp add: demo_env_def)

lemma stale_child_run:
  "\<exists>h. run_surfaces demo_env stale_child store_new = Some h \<and> subsurfaces h 6 = None \<and> surfaces h 0 \<noteq> None \<and> surfaces h 1 \<noteq> None \<and> surfaces h 2 \<noteq> None \<and> surfaces h 3 \<noteq> None \<and>
    map_option (map (\<lambda>e. (e_surface e, children_of (e_state e)))) (transactions h 8) = Some [(2, [6]), (1, [5])] \<and>
    surface_commit demo_env False 0 h = None"
  by (simp del: One_nat_def add: stale_child_def request_defs walk_defs commit_defs state_sel apply_defs demo_env_sort cong: bind_weak)

text \<open>\<open>1\<close> becomes a subsurface of \<open>0\<close>, \<open>2\<close> one of \<open>1\<close>, and then \<open>1\<close> one of \<open>2\<close>.\<close>

definition cyclic_subsurfaces :: "surface_request list" where
  "cyclic_subsurfaces = [Create_surface 0 1, Create_surface 0 1, Create_surface 0 1, Get_subsurface (Some 1) (Some 0),
     Get_subsurface (Some 2) (Some 1), Get_subsurface (Some 1) (Some 2)]"

lemma cyclic_subsurfaces_run:
  "\<exists>h. run_surfaces demo_env cyclic_subsurfaces store_new = Some h \<and> handle_of h 1 = Some 5 \<and> handle_of h 2 = Some 4 \<and>
    parent_of h 5 = Some 2 \<and> parent_of h 4 = Some 1"
  by (simp del: One_nat_def add: cyclic_subsurfaces_def request_defs walk_defs state_sel handle_of_def parent_of_def cong: bind_weak)

section \<open>Properties\<close>



text \<open>
  C31: A transaction with an entry that waits for the transaction itself is never applied: no \<open>tryApply\<close> of any
  transaction changes that, or applies it. Clients reach such a transaction: when two synchronized, nested
  subsurfaces commit twice before their main surface does, \<open>merge\<close> puts two entries of one surface into a
  transaction, and \<open>commit\<close> makes the second wait for the transaction of the first, its own.
\<close>
theorem self_wait_forever:
  assumes "waits_for_itself t h" and "tryApply env u h = Some h'"
  shows "waits_for_itself t h' \<and> isReady t h' \<noteq> Some True \<and> (\<exists>L. applied h' = applied h @ L \<and> t \<notin> set L)"
  using run_stuck [OF assms(2) [unfolded tryApply_def] assms(1)] self_wait_not_ready [of t h']
  by (auto simp: stays_stuck_def)

theorem self_wait_forever_witness:
  "\<exists>h. run_surfaces demo_env nested_commits store_new = Some h \<and> surfaces_reachable demo_env h \<and> waits_for_itself 8 h \<and>
    applied h = [] \<and> (\<forall>h'. tryApply demo_env 8 h = Some h' \<longrightarrow> 8 \<notin> set (applied h') \<and> waits_for_itself 8 h')"
proof -
  obtain h es where h: "run_surfaces demo_env nested_commits store_new = Some h" "transactions h 8 = Some es" "applied h = []"
    and es: "map (\<lambda>e. (e_surface e, previousTransaction e)) es = [(2, None), (1, None), (2, Some 8), (0, None)]"
    using nested_commits_run by auto
  have "(2, Some 8) \<in> set (map (\<lambda>e. (e_surface e, previousTransaction e)) es)" by (simp only: es) simp
  then have "waits_for_itself 8 h" using h(2) by (auto simp: waits_for_itself_def)
  moreover have "surfaces_reachable demo_env h"
    by (rule run_surfaces_reachable [OF h(1) _ surfaces_reachable.start]) (simp add: nested_commits_def)
  ultimately show ?thesis using self_wait_forever [of 8 h demo_env 8] h by fastforce
qed



text \<open>
  C33: Clients reach a commit that uses a subsurface after it was destroyed: a state of a nested subsurface that
  waits in the transaction of its parent still lists the child, as \<open>removeChild\<close> only looks into the transaction
  of the surface itself, and applying the state asks the destroyed child for its surface.
\<close>
theorem destroyed_child_used:
  "\<exists>h. run_surfaces demo_env stale_child store_new = Some h \<and> surfaces_reachable demo_env h \<and>
    subsurfaces h 6 = None \<and> surfaces h 0 \<noteq> None \<and> surfaces h 1 \<noteq> None \<and> surfaces h 2 \<noteq> None \<and> surfaces h 3 \<noteq> None \<and>
    (\<exists>es. transactions h 8 = Some es \<and> map (\<lambda>e. (e_surface e, children_of (e_state e))) es = [(2, [6]), (1, [5])]) \<and>
    surface_commit demo_env False 0 h = None"
proof -
  obtain h where h: "run_surfaces demo_env stale_child store_new = Some h" "subsurfaces h 6 = None"
    "surfaces h 0 \<noteq> None" "surfaces h 1 \<noteq> None" "surfaces h 2 \<noteq> None" "surfaces h 3 \<noteq> None"
    "map_option (map (\<lambda>e. (e_surface e, children_of (e_state e)))) (transactions h 8) = Some [(2, [6]), (1, [5])]"
    "surface_commit demo_env False 0 h = None"
    using stale_child_run by (elim exE conjE) (rule that)
  show ?thesis
  proof (rule exI [of _ h], intro conjI)
    show "surfaces_reachable demo_env h"
      by (rule run_surfaces_reachable [OF h(1) _ surfaces_reachable.start]) (simp add: stale_child_def)
    show "\<exists>es. transactions h 8 = Some es \<and> map (\<lambda>e. (e_surface e, children_of (e_state e))) es = [(2, [6]), (1, [5])]"
      using h(7) by (simp only: map_option_eq_Some)
  qed (fact h)+
qed

end
