(* ===== verification/RectEdges.thy ===== *)
theory RectEdges
  imports Rect
begin

text \<open>
  The remaining methods of \<open>src/kde-kwin/src/core/rect.h\<close>: the corners, the setters of single
  edges and corners, the other moves and the conversions from and to four numbers. As in \<open>Rect\<close> the
  definitions are over the type of the coordinates, except for the centre, which \<open>Rect\<close> computes
  with the division of C++ and \<open>RectF\<close> with the division of \<open>qreal\<close>. The lemmas relate them to
  the methods they agree with.
\<close>

section \<open>Corners and sizes\<close>

definition Rect_topLeft :: "'a rect \<Rightarrow> 'a \<times> 'a" where
  "Rect_topLeft r = (m_left r, m_top r)"

definition Rect_bottomRight :: "'a rect \<Rightarrow> 'a \<times> 'a" where
  "Rect_bottomRight r = (m_right r, m_bottom r)"

definition Rect_topRight :: "'a rect \<Rightarrow> 'a \<times> 'a" where
  "Rect_topRight r = (m_right r, m_top r)"

definition Rect_bottomLeft :: "'a rect \<Rightarrow> 'a \<times> 'a" where
  "Rect_bottomLeft r = (m_left r, m_bottom r)"

definition Rect_size :: "'a::minus rect \<Rightarrow> 'a \<times> 'a" where
  "Rect_size r = (Rect_width r, Rect_height r)"

definition Rect_sized :: "'a::plus \<times> 'a \<Rightarrow> 'a \<times> 'a \<Rightarrow> 'a rect" where
  "Rect_sized topLeft sz =
     \<lparr>m_left = fst topLeft, m_top = snd topLeft,
      m_right = fst topLeft + fst sz, m_bottom = snd topLeft + snd sz\<rparr>"

definition Rect_isNull :: "'a::linorder rect \<Rightarrow> bool" where
  "Rect_isNull r \<longleftrightarrow> Rect_isEmpty r"

definition Rect_isValid :: "'a::linorder rect \<Rightarrow> bool" where
  "Rect_isValid r \<longleftrightarrow> \<not> Rect_isEmpty r"

section \<open>Setters\<close>

definition Rect_setX :: "'a \<Rightarrow> 'a rect \<Rightarrow> 'a rect" where
  "Rect_setX x r = r\<lparr>m_left := x\<rparr>"

definition Rect_setY :: "'a \<Rightarrow> 'a rect \<Rightarrow> 'a rect" where
  "Rect_setY y r = r\<lparr>m_top := y\<rparr>"

definition Rect_setLeft :: "'a \<Rightarrow> 'a rect \<Rightarrow> 'a rect" where
  "Rect_setLeft left r = r\<lparr>m_left := left\<rparr>"

definition Rect_setTop :: "'a \<Rightarrow> 'a rect \<Rightarrow> 'a rect" where
  "Rect_setTop t r = r\<lparr>m_top := t\<rparr>"

definition Rect_setRight :: "'a \<Rightarrow> 'a rect \<Rightarrow> 'a rect" where
  "Rect_setRight right r = r\<lparr>m_right := right\<rparr>"

definition Rect_setBottom :: "'a \<Rightarrow> 'a rect \<Rightarrow> 'a rect" where
  "Rect_setBottom bottom r = r\<lparr>m_bottom := bottom\<rparr>"

definition Rect_setTopLeft :: "'a \<times> 'a \<Rightarrow> 'a rect \<Rightarrow> 'a rect" where
  "Rect_setTopLeft p r = Rect_setTop (snd p) (Rect_setLeft (fst p) r)"

definition Rect_setBottomRight :: "'a \<times> 'a \<Rightarrow> 'a rect \<Rightarrow> 'a rect" where
  "Rect_setBottomRight p r = Rect_setBottom (snd p) (Rect_setRight (fst p) r)"

definition Rect_setTopRight :: "'a \<times> 'a \<Rightarrow> 'a rect \<Rightarrow> 'a rect" where
  "Rect_setTopRight p r = Rect_setTop (snd p) (Rect_setRight (fst p) r)"

definition Rect_setBottomLeft :: "'a \<times> 'a \<Rightarrow> 'a rect \<Rightarrow> 'a rect" where
  "Rect_setBottomLeft p r = Rect_setBottom (snd p) (Rect_setLeft (fst p) r)"

definition Rect_setSize :: "'a::plus \<times> 'a \<Rightarrow> 'a rect \<Rightarrow> 'a rect" where
  "Rect_setSize sz r = Rect_setHeight (snd sz) (Rect_setWidth (fst sz) r)"

definition Rect_setRect :: "'a::plus \<Rightarrow> 'a \<Rightarrow> 'a \<Rightarrow> 'a \<Rightarrow> 'a rect \<Rightarrow> 'a rect" where
  "Rect_setRect x y width height r =
     r\<lparr>m_left := x, m_top := y, m_right := x + width, m_bottom := y + height\<rparr>"

definition Rect_getRect :: "'a::minus rect \<Rightarrow> 'a \<times> 'a \<times> 'a \<times> 'a" where
  "Rect_getRect r = (m_left r, m_top r, m_right r - m_left r, m_bottom r - m_top r)"

definition Rect_getCoords :: "'a rect \<Rightarrow> 'a \<times> 'a \<times> 'a \<times> 'a" where
  "Rect_getCoords r = (m_left r, m_top r, m_right r, m_bottom r)"

section \<open>Moves\<close>

definition Rect_moveHorizontalCenter :: "int \<Rightarrow> Rect \<Rightarrow> Rect" where
  "Rect_moveHorizontalCenter center r = Rect_moveLeft (center - half_trunc (Rect_width r)) r"

definition Rect_moveVerticalCenter :: "int \<Rightarrow> Rect \<Rightarrow> Rect" where
  "Rect_moveVerticalCenter center r = Rect_moveTop (center - half_trunc (Rect_height r)) r"

definition RectF_horizontalCenter :: "RectF \<Rightarrow> real" where
  "RectF_horizontalCenter r = m_left r + (m_right r - m_left r) / 2"

definition RectF_verticalCenter :: "RectF \<Rightarrow> real" where
  "RectF_verticalCenter r = m_top r + (m_bottom r - m_top r) / 2"

definition RectF_center :: "RectF \<Rightarrow> real \<times> real" where
  "RectF_center r = (RectF_horizontalCenter r, RectF_verticalCenter r)"

definition RectF_moveHorizontalCenter :: "real \<Rightarrow> RectF \<Rightarrow> RectF" where
  "RectF_moveHorizontalCenter center r = Rect_moveLeft (center - Rect_width r / 2) r"

definition RectF_moveVerticalCenter :: "real \<Rightarrow> RectF \<Rightarrow> RectF" where
  "RectF_moveVerticalCenter center r = Rect_moveTop (center - Rect_height r / 2) r"

definition RectF_moveCenter :: "real \<times> real \<Rightarrow> RectF \<Rightarrow> RectF" where
  "RectF_moveCenter p r =
     RectF_moveVerticalCenter (snd p) (RectF_moveHorizontalCenter (fst p) r)"

definition Rect_moveTopRight :: "'a::ring \<times> 'a \<Rightarrow> 'a rect \<Rightarrow> 'a rect" where
  "Rect_moveTopRight p r = Rect_moveTop (snd p) (Rect_moveRight (fst p) r)"

definition Rect_moveBottomLeft :: "'a::ring \<times> 'a \<Rightarrow> 'a rect \<Rightarrow> 'a rect" where
  "Rect_moveBottomLeft p r = Rect_moveBottom (snd p) (Rect_moveLeft (fst p) r)"

definition Rect_moveTo :: "'a::ring \<times> 'a \<Rightarrow> 'a rect \<Rightarrow> 'a rect" where
  "Rect_moveTo p r = Rect_moveTopLeft p r"

definition Rect_translated :: "'a::plus \<times> 'a \<Rightarrow> 'a rect \<Rightarrow> 'a rect" where
  "Rect_translated offset r =
     Rect_corners (m_left r + fst offset, m_top r + snd offset)
                  (m_right r + fst offset, m_bottom r + snd offset)"

definition Rect_adjust :: "'a::plus \<Rightarrow> 'a \<Rightarrow> 'a \<Rightarrow> 'a \<Rightarrow> 'a rect \<Rightarrow> 'a rect" where
  "Rect_adjust x1 y1 x2 y2 r =
     \<lparr>m_left = m_left r + x1, m_top = m_top r + y1,
      m_right = m_right r + x2, m_bottom = m_bottom r + y2\<rparr>"

lemmas Rect_edge_defs =
  Rect_topLeft_def Rect_bottomRight_def Rect_topRight_def Rect_bottomLeft_def Rect_size_def
  Rect_sized_def Rect_isNull_def Rect_isValid_def Rect_setX_def Rect_setY_def Rect_setLeft_def
  Rect_setTop_def Rect_setRight_def Rect_setBottom_def Rect_setTopLeft_def
  Rect_setBottomRight_def Rect_setTopRight_def Rect_setBottomLeft_def Rect_setSize_def
  Rect_setWidth_def Rect_setHeight_def Rect_setRect_def Rect_getRect_def Rect_getCoords_def
  Rect_moveLeft_def Rect_moveTop_def Rect_moveRight_def Rect_moveBottom_def Rect_moveTopLeft_def
  Rect_moveBottomRight_def Rect_moveTopRight_def Rect_moveBottomLeft_def Rect_moveTo_def
  Rect_translated_def Rect_adjust_def

declare Rect_edge_defs [rect_defs]

section \<open>How the methods agree\<close>

lemma Rect_sized_make: "Rect_sized (x, y) (w, h) = Rect_make x y w h"
  by (simp add: rect_defs)

lemma Rect_sized_size: "Rect_sized (Rect_topLeft r) (Rect_size r) = r" for r :: "'a::ring rect"
  by (simp add: rect_defs)

lemma Rect_corners_of: "Rect_corners (Rect_topLeft r) (Rect_bottomRight r) = r"
  by (simp add: rect_defs)

lemma Rect_setRect_getRect:
  "Rect_getRect (Rect_setRect x y w h r) = (x, y, w, h)" for x :: "'a::ring"
  by (simp add: rect_defs)

lemma Rect_move_size [simp]:
  fixes r :: "'a::ring rect"
  shows "Rect_size (Rect_moveTopLeft p r) = Rect_size r"
    and "Rect_size (Rect_moveBottomRight p r) = Rect_size r"
    and "Rect_size (Rect_moveTopRight p r) = Rect_size r"
    and "Rect_size (Rect_moveBottomLeft p r) = Rect_size r"
    and "Rect_size (Rect_translated p r) = Rect_size r"
  by (simp_all add: rect_defs Let_def algebra_simps)

lemma Rect_move_corner [simp]:
  fixes r :: "'a::ring rect"
  shows "Rect_topLeft (Rect_moveTopLeft p r) = p"
    and "Rect_bottomRight (Rect_moveBottomRight p r) = p"
    and "Rect_topRight (Rect_moveTopRight p r) = p"
    and "Rect_bottomLeft (Rect_moveBottomLeft p r) = p"
  by (simp_all add: rect_defs Let_def algebra_simps)

lemma Rect_translated_translate: "Rect_translated p r = Rect_translate p r"
  by (simp add: rect_defs)

lemma Rect_adjust_adjusted: "Rect_adjust x1 y1 x2 y2 r = Rect_adjusted x1 y1 x2 y2 r"
  by (simp add: rect_defs)

lemma RectF_center_moveCenter [simp]: "RectF_center (RectF_moveCenter p r) = p"
  by (simp add: RectF_center_def RectF_horizontalCenter_def RectF_verticalCenter_def
      RectF_moveCenter_def RectF_moveHorizontalCenter_def RectF_moveVerticalCenter_def rect_defs
      Let_def field_simps)

lemma Rect_center_moveCenter [simp]: "Rect_center (Rect_moveCenter p r) = p"
  by (cases p) (simp add: Rect_center_def Rect_horizontalCenter_def Rect_verticalCenter_def
      Rect_moveCenter_def rect_defs Let_def)

end
