(* ===== verification/XdgPositioner.thy ===== *)
theory XdgPositioner
  imports RectEdges "HOL-Library.Word"
begin

unbundle bit_operations_syntax

text \<open>
  The positioner of popups, \<open>XdgPositionerPrivate\<close> and \<open>XdgPositioner\<close> of
  \<open>src/kde-kwin/src/wayland/xdgshell.cpp\<close> and \<open>xdgshell_p.h\<close>. A client fills a positioner with
  requests; \<open>placement\<close> computes where the popup goes, relative to its parent, inside the bounds
  that the window passes.

  \<open>Qt::Edges\<close> and \<open>Qt::Orientations\<close> are sets of flags. The numbers of the requests are those of
  \<open>xdg-shell.xml\<close>. Coordinates are \<open>int\<close> and \<open>real\<close>, as for rectangles. The data is shared
  copy-on-write (\<open>QSharedDataPointer\<close>), so that a positioner that was passed to a popup does
  not see later requests: it is a value.
\<close>

section \<open>Data\<close>

datatype Edge = TopEdge | LeftEdge | RightEdge | BottomEdge

datatype Orientation = Horizontal | Vertical

record positioner_data =
  slideConstraintAdjustments :: "Orientation set"
  flipConstraintAdjustments :: "Orientation set"
  resizeConstraintAdjustments :: "Orientation set"
  anchorEdges :: "Edge set"
  gravityEdges :: "Edge set"
  pd_offset :: "int \<times> int"
  pd_size :: "int \<times> int"
  pd_anchorRect :: Rect
  pd_isReactive :: bool
  pd_parentSize :: "int \<times> int"
  pd_parentConfigure :: "32 word"

text \<open>\<open>QSize()\<close> is \<open>(-1, -1)\<close>. \<open>parentConfigure\<close> has no initializer; its first value is an argument.\<close>

definition XdgPositionerData_new :: "32 word \<Rightarrow> positioner_data" where
  "XdgPositionerData_new uninitialized =
     \<lparr>slideConstraintAdjustments = {}, flipConstraintAdjustments = {},
      resizeConstraintAdjustments = {}, anchorEdges = {}, gravityEdges = {},
      pd_offset = (0, 0), pd_size = (-1, -1), pd_anchorRect = Rect_null, pd_isReactive = False,
      pd_parentSize = (-1, -1), pd_parentConfigure = uninitialized\<rparr>"

datatype positioner_error = error_invalid_input string

section \<open>Requests\<close>

definition xdg_positioner_set_size ::
  "int \<Rightarrow> int \<Rightarrow> positioner_data \<Rightarrow> positioner_error + positioner_data" where
  "xdg_positioner_set_size width height d =
     (if width < 1 \<or> height < 1
      then Inl (error_invalid_input ''width and height must be positive and non-zero'')
      else Inr (d\<lparr>pd_size := (width, height)\<rparr>))"

definition xdg_positioner_set_anchor_rect ::
  "int \<Rightarrow> int \<Rightarrow> int \<Rightarrow> int \<Rightarrow> positioner_data \<Rightarrow> positioner_error + positioner_data" where
  "xdg_positioner_set_anchor_rect x y width height d =
     (if width < 1 \<or> height < 1
      then Inl (error_invalid_input ''width and height must be positive and non-zero'')
      else Inr (d\<lparr>pd_anchorRect := Rect_make x y width height\<rparr>))"

text \<open>The enumerations \<open>anchor\<close> and \<open>gravity\<close> of the protocol have the same numbers.\<close>

definition anchor_top :: "32 word" where "anchor_top = 1"
definition anchor_bottom :: "32 word" where "anchor_bottom = 2"
definition anchor_left :: "32 word" where "anchor_left = 3"
definition anchor_right :: "32 word" where "anchor_right = 4"
definition anchor_top_left :: "32 word" where "anchor_top_left = 5"
definition anchor_bottom_left :: "32 word" where "anchor_bottom_left = 6"
definition anchor_top_right :: "32 word" where "anchor_top_right = 7"
definition anchor_bottom_right :: "32 word" where "anchor_bottom_right = 8"

lemmas anchor_defs =
  anchor_top_def anchor_bottom_def anchor_left_def anchor_right_def anchor_top_left_def
  anchor_bottom_left_def anchor_top_right_def anchor_bottom_right_def

definition edges_of :: "32 word \<Rightarrow> Edge set" where
  "edges_of anchor =
     (if anchor = anchor_top then {TopEdge}
      else if anchor = anchor_top_right then {TopEdge, RightEdge}
      else if anchor = anchor_right then {RightEdge}
      else if anchor = anchor_bottom_right then {BottomEdge, RightEdge}
      else if anchor = anchor_bottom then {BottomEdge}
      else if anchor = anchor_bottom_left then {BottomEdge, LeftEdge}
      else if anchor = anchor_left then {LeftEdge}
      else if anchor = anchor_top_left then {TopEdge, LeftEdge}
      else {})"

definition xdg_positioner_set_anchor ::
  "32 word \<Rightarrow> positioner_data \<Rightarrow> positioner_error + positioner_data" where
  "xdg_positioner_set_anchor anchor d =
     (if anchor > anchor_bottom_right then Inl (error_invalid_input ''unknown anchor point'')
      else Inr (d\<lparr>anchorEdges := edges_of anchor\<rparr>))"

definition xdg_positioner_set_gravity ::
  "32 word \<Rightarrow> positioner_data \<Rightarrow> positioner_error + positioner_data" where
  "xdg_positioner_set_gravity gravity d =
     (if gravity > anchor_bottom_right then Inl (error_invalid_input ''unknown gravity direction'')
      else Inr (d\<lparr>gravityEdges := edges_of gravity\<rparr>))"

definition xdg_positioner_set_parent_size :: "int \<Rightarrow> int \<Rightarrow> positioner_data \<Rightarrow> positioner_data" where
  "xdg_positioner_set_parent_size width height d = d\<lparr>pd_parentSize := (width, height)\<rparr>"

definition xdg_positioner_set_reactive :: "positioner_data \<Rightarrow> positioner_data" where
  "xdg_positioner_set_reactive d = d\<lparr>pd_isReactive := True\<rparr>"

definition xdg_positioner_set_parent_configure :: "32 word \<Rightarrow> positioner_data \<Rightarrow> positioner_data" where
  "xdg_positioner_set_parent_configure serial d = d\<lparr>pd_parentConfigure := serial\<rparr>"

definition xdg_positioner_set_offset :: "int \<Rightarrow> int \<Rightarrow> positioner_data \<Rightarrow> positioner_data" where
  "xdg_positioner_set_offset x y d = d\<lparr>pd_offset := (x, y)\<rparr>"

definition constraint_adjustment_slide_x :: "32 word" where "constraint_adjustment_slide_x = 1"
definition constraint_adjustment_slide_y :: "32 word" where "constraint_adjustment_slide_y = 2"
definition constraint_adjustment_flip_x :: "32 word" where "constraint_adjustment_flip_x = 4"
definition constraint_adjustment_flip_y :: "32 word" where "constraint_adjustment_flip_y = 8"
definition constraint_adjustment_resize_x :: "32 word" where "constraint_adjustment_resize_x = 16"
definition constraint_adjustment_resize_y :: "32 word" where "constraint_adjustment_resize_y = 32"

lemmas constraint_adjustment_defs =
  constraint_adjustment_slide_x_def constraint_adjustment_slide_y_def
  constraint_adjustment_flip_x_def constraint_adjustment_flip_y_def
  constraint_adjustment_resize_x_def constraint_adjustment_resize_y_def

text \<open>One of the six assignments: the flag is added or removed.\<close>

definition set_flag :: "bool \<Rightarrow> 'a \<Rightarrow> 'a set \<Rightarrow> 'a set" where
  "set_flag on x A = (if on then A \<union> {x} else A - {x})"

definition xdg_positioner_set_constraint_adjustment ::
  "32 word \<Rightarrow> positioner_data \<Rightarrow> positioner_data" where
  "xdg_positioner_set_constraint_adjustment adj d =
     (let d1 = d\<lparr>flipConstraintAdjustments := set_flag (adj AND constraint_adjustment_flip_x \<noteq> 0)
                  Horizontal (flipConstraintAdjustments d)\<rparr>;
          d2 = d1\<lparr>flipConstraintAdjustments := set_flag (adj AND constraint_adjustment_flip_y \<noteq> 0)
                  Vertical (flipConstraintAdjustments d1)\<rparr>;
          d3 = d2\<lparr>slideConstraintAdjustments := set_flag (adj AND constraint_adjustment_slide_x \<noteq> 0)
                  Horizontal (slideConstraintAdjustments d2)\<rparr>;
          d4 = d3\<lparr>slideConstraintAdjustments := set_flag (adj AND constraint_adjustment_slide_y \<noteq> 0)
                  Vertical (slideConstraintAdjustments d3)\<rparr>;
          d5 = d4\<lparr>resizeConstraintAdjustments := set_flag (adj AND constraint_adjustment_resize_x \<noteq> 0)
                  Horizontal (resizeConstraintAdjustments d4)\<rparr>
      in d5\<lparr>resizeConstraintAdjustments := set_flag (adj AND constraint_adjustment_resize_y \<noteq> 0)
                  Vertical (resizeConstraintAdjustments d5)\<rparr>)"

section \<open>The positioner of a popup\<close>

record xdg_positioner =
  pos_d :: positioner_data
  m_popupScale :: real
  m_parentScale :: real

definition XdgPositioner_of :: "positioner_data \<Rightarrow> xdg_positioner" where
  "XdgPositioner_of d = \<lparr>pos_d = d, m_popupScale = 1, m_parentScale = 1\<rparr>"

definition XdgPositioner_setParentScale :: "real \<Rightarrow> xdg_positioner \<Rightarrow> xdg_positioner" where
  "XdgPositioner_setParentScale scale p = p\<lparr>m_parentScale := scale\<rparr>"

definition XdgPositioner_setPopupScale :: "real \<Rightarrow> xdg_positioner \<Rightarrow> xdg_positioner" where
  "XdgPositioner_setPopupScale scale p = p\<lparr>m_popupScale := scale\<rparr>"

text \<open>\<open>QSize::isValid\<close> accepts 0.\<close>

definition XdgPositioner_isComplete :: "xdg_positioner \<Rightarrow> bool" where
  "XdgPositioner_isComplete p \<longleftrightarrow>
     (0 \<le> fst (pd_size (pos_d p)) \<and> 0 \<le> snd (pd_size (pos_d p))) \<and>
     Rect_isValid (pd_anchorRect (pos_d p))"

definition XdgPositioner_size :: "xdg_positioner \<Rightarrow> real \<times> real" where
  "XdgPositioner_size p =
     (of_int (fst (pd_size (pos_d p))) / m_popupScale p,
      of_int (snd (pd_size (pos_d p))) / m_popupScale p)"

definition XdgPositioner_isReactive :: "xdg_positioner \<Rightarrow> bool" where
  "XdgPositioner_isReactive p = pd_isReactive (pos_d p)"

text \<open>\<open>qRound\<close> rounds halves away from zero, as \<open>std::round\<close> does.\<close>

definition popupOffset :: "RectF \<Rightarrow> Edge set \<Rightarrow> Edge set \<Rightarrow> real \<times> real \<Rightarrow> real \<times> real" where
  "popupOffset anchorRect anchorEdge gravity popupSize =
     (let ax = (let e = anchorEdge \<inter> {LeftEdge, RightEdge}
                in if e = {LeftEdge} then m_left anchorRect
                   else if e = {RightEdge} then m_left anchorRect + Rect_width anchorRect
                   else of_int (round_half_away (m_left anchorRect + Rect_width anchorRect / 2)));
          ay = (let e = anchorEdge \<inter> {TopEdge, BottomEdge}
                in if e = {TopEdge} then m_top anchorRect
                   else if e = {BottomEdge} then m_top anchorRect + Rect_height anchorRect
                   else of_int (round_half_away (m_top anchorRect + Rect_height anchorRect / 2)));
          px = (let e = gravity \<inter> {LeftEdge, RightEdge}
                in if e = {LeftEdge} then - fst popupSize
                   else if e = {RightEdge} then 0
                   else of_int (round_half_away (- fst popupSize / 2)));
          py = (let e = gravity \<inter> {TopEdge, BottomEdge}
                in if e = {TopEdge} then - snd popupSize
                   else if e = {BottomEdge} then 0
                   else of_int (round_half_away (- snd popupSize / 2)))
      in (ax + px, ay + py))"

definition inBounds :: "RectF \<Rightarrow> RectF \<Rightarrow> Edge set \<Rightarrow> bool" where
  "inBounds bounds target edges =
     (if LeftEdge \<in> edges \<and> m_left target < m_left bounds then False
      else if TopEdge \<in> edges \<and> m_top target < m_top bounds then False
      else if RightEdge \<in> edges \<and> m_right target > m_right bounds then False
      else if BottomEdge \<in> edges \<and> m_bottom target > m_bottom bounds then False
      else True)"

text \<open>The exclusive or of the flags \<open>f\<close>, if one of them is set.\<close>

definition flipped :: "Edge set \<Rightarrow> Edge set \<Rightarrow> Edge set" where
  "flipped f edges = (if edges \<inter> f \<noteq> {} then (edges - f) \<union> (f - edges) else edges)"

text \<open>\<open>RectF(popupOffset(...) + offset, size)\<close>, for the given edges.\<close>

definition popup_rect :: "xdg_positioner \<Rightarrow> Edge set \<Rightarrow> Edge set \<Rightarrow> RectF" where
  "popup_rect p anchorEdge gravity =
     (let anchorRect = Rect_scaled (1 / m_parentScale p) (1 / m_parentScale p)
                         (pd_anchorRect (pos_d p));
          offset = (of_int (fst (pd_offset (pos_d p))) / m_parentScale p,
                    of_int (snd (pd_offset (pos_d p))) / m_parentScale p);
          sz = XdgPositioner_size p;
          q = popupOffset anchorRect anchorEdge gravity sz
      in Rect_sized (fst q + fst offset, snd q + snd offset) sz)"

definition flip_horizontally :: "xdg_positioner \<Rightarrow> RectF \<Rightarrow> RectF \<Rightarrow> RectF" where
  "flip_horizontally p bounds popupRect =
     (if Horizontal \<in> flipConstraintAdjustments (pos_d p) then
        if \<not> inBounds bounds popupRect {LeftEdge, RightEdge} then
          let flippedPopupRect = popup_rect p (flipped {LeftEdge, RightEdge} (anchorEdges (pos_d p)))
                                              (flipped {LeftEdge, RightEdge} (gravityEdges (pos_d p)))
          in if inBounds bounds flippedPopupRect {LeftEdge, RightEdge}
             then Rect_moveLeft (m_left flippedPopupRect) popupRect else popupRect
        else popupRect
      else popupRect)"

definition slide_horizontally :: "xdg_positioner \<Rightarrow> RectF \<Rightarrow> RectF \<Rightarrow> RectF" where
  "slide_horizontally p bounds popupRect =
     (if Horizontal \<in> slideConstraintAdjustments (pos_d p) then
        let r1 = (if \<not> inBounds bounds popupRect {LeftEdge}
                  then Rect_moveLeft (m_left bounds) popupRect else popupRect)
        in if \<not> inBounds bounds r1 {RightEdge} then Rect_moveRight (m_right bounds) r1 else r1
      else popupRect)"

definition resize_horizontally :: "xdg_positioner \<Rightarrow> RectF \<Rightarrow> RectF \<Rightarrow> RectF" where
  "resize_horizontally p bounds popupRect =
     (if Horizontal \<in> resizeConstraintAdjustments (pos_d p) then
        let u1 = (if \<not> inBounds bounds popupRect {LeftEdge}
                  then Rect_setLeft (m_left bounds) popupRect else popupRect);
            u2 = (if \<not> inBounds bounds u1 {RightEdge}
                  then Rect_setRight (m_right bounds) u1 else u1)
        in if Rect_isValid u2 then u2 else popupRect
      else popupRect)"

definition flip_vertically :: "xdg_positioner \<Rightarrow> RectF \<Rightarrow> RectF \<Rightarrow> RectF" where
  "flip_vertically p bounds popupRect =
     (if Vertical \<in> flipConstraintAdjustments (pos_d p) then
        if \<not> inBounds bounds popupRect {TopEdge, BottomEdge} then
          let flippedPopupRect = popup_rect p (flipped {TopEdge, BottomEdge} (anchorEdges (pos_d p)))
                                              (flipped {TopEdge, BottomEdge} (gravityEdges (pos_d p)))
          in if inBounds bounds flippedPopupRect {TopEdge, BottomEdge}
             then Rect_moveTop (m_top flippedPopupRect) popupRect else popupRect
        else popupRect
      else popupRect)"

definition slide_vertically :: "xdg_positioner \<Rightarrow> RectF \<Rightarrow> RectF \<Rightarrow> RectF" where
  "slide_vertically p bounds popupRect =
     (if Vertical \<in> slideConstraintAdjustments (pos_d p) then
        let r1 = (if \<not> inBounds bounds popupRect {TopEdge}
                  then Rect_moveTop (m_top bounds) popupRect else popupRect)
        in if \<not> inBounds bounds r1 {BottomEdge} then Rect_moveBottom (m_bottom bounds) r1 else r1
      else popupRect)"

definition resize_vertically :: "xdg_positioner \<Rightarrow> RectF \<Rightarrow> RectF \<Rightarrow> RectF" where
  "resize_vertically p bounds popupRect =
     (if Vertical \<in> resizeConstraintAdjustments (pos_d p) then
        let u1 = (if \<not> inBounds bounds popupRect {TopEdge}
                  then Rect_setTop (m_top bounds) popupRect else popupRect);
            u2 = (if \<not> inBounds bounds u1 {BottomEdge}
                  then Rect_setBottom (m_bottom bounds) u1 else u1)
        in if Rect_isValid u2 then u2 else popupRect
      else popupRect)"

definition XdgPositioner_placement :: "xdg_positioner \<Rightarrow> RectF \<Rightarrow> RectF" where
  "XdgPositioner_placement p bounds =
     (let popupRect = popup_rect p (anchorEdges (pos_d p)) (gravityEdges (pos_d p))
      in if inBounds bounds popupRect {LeftEdge, RightEdge, TopEdge, BottomEdge} then popupRect
         else resize_vertically p bounds (slide_vertically p bounds (flip_vertically p bounds
                (resize_horizontally p bounds (slide_horizontally p bounds
                   (flip_horizontally p bounds popupRect))))))"

end
