(* ===== verification/XdgSurface.thy ===== *)
theory XdgSurface
  imports XdgPositioner "HOL-Library.Monad_Syntax"
begin

text \<open>
  The roles of \<open>xdg_surface\<close>: \<open>XdgSurfaceInterface\<close>, \<open>XdgToplevelInterface\<close> and
  \<open>XdgPopupInterface\<close> of \<open>src/kde-kwin/src/wayland/xdgshell.cpp\<close> and \<open>xdgshell_p.h\<close>. The model
  (\<open>xdg_world\<close>) holds one \<open>wl_surface\<close>, its \<open>xdg_surface\<close> and the role objects that the client
  made for it. The double-buffered state of a role object is pending until the surface is
  committed, then waits in \<open>committed\<close> and is applied in order, as \<open>TransactionProps\<close> shows for the
  states of a surface. Signals, protocol events and protocol errors are recorded in \<open>trace\<close>, the
  newest first. A step that reads through a null or dangling pointer has no result (\<open>None\<close>).
\<close>

section \<open>Data\<close>

record xdg_surface_commit =
  cm_windowGeometry :: "RectF option"
  cm_acknowledgedConfigure :: "32 word option"

record xdg_toplevel_commit = xdg_surface_commit +
  cm_minimumSize :: "(real \<times> real) option"
  cm_maximumSize :: "(real \<times> real) option"

definition XdgPopupCommit_new :: xdg_surface_commit where
  "XdgPopupCommit_new = \<lparr>cm_windowGeometry = None, cm_acknowledgedConfigure = None\<rparr>"

definition XdgToplevelCommit_new :: xdg_toplevel_commit where
  "XdgToplevelCommit_new =
     \<lparr>cm_windowGeometry = None, cm_acknowledgedConfigure = None, cm_minimumSize = None, cm_maximumSize = None\<rparr>"

datatype role_object = Toplevel nat | Popup nat

record xdg_surface =
  xs_pending :: "role_object option"
  xs_toplevel :: "nat option"
  xs_popup :: "nat option"
  xs_windowGeometry :: RectF
  firstBufferAttached :: bool
  isConfigured :: bool
  isInitialized :: bool

record xdg_toplevel =
  tl_parent :: "nat option"
  tl_title :: string
  tl_appId :: string
  tl_tag :: string
  tl_description :: string
  tl_minimumSize :: "real \<times> real"
  tl_maximumSize :: "real \<times> real"
  tl_customIcon :: "nat option"
  tl_pending :: xdg_toplevel_commit
  tl_committed :: "xdg_toplevel_commit list"

record xdg_popup =
  pp_parentSurface :: "nat option"
  pp_positioner :: xdg_positioner
  pp_pending :: xdg_surface_commit
  pp_committed :: "xdg_surface_commit list"

datatype xdg_error =
    err_already_constructed | err_invalid_positioner | err_invalid_popup_parent | err_not_constructed
  | err_invalid_geometry | err_unconfigured_buffer | err_invalid_size | err_invalid_resize_edge
  | err_invalid_grab

datatype gravity_kind =
    Gravity_None | Gravity_Left | Gravity_Right | Gravity_Top | Gravity_Bottom
  | Gravity_TopLeft | Gravity_TopRight | Gravity_BottomLeft | Gravity_BottomRight

datatype xdg_signal =
    PostError xdg_error
  | ConfigureAcknowledged "32 word"
  | WindowGeometryChanged RectF
  | SurfaceReset
  | SurfaceAboutToBeDestroyed
  | ToplevelCreated nat
  | PopupCreated nat
  | InitializeRequested
  | MinimumSizeChanged nat "real \<times> real"
  | MaximumSizeChanged nat "real \<times> real"
  | ToplevelReset nat
  | ParentXdgToplevelChanged nat
  | TitleChanged nat string
  | AppIdChanged nat string
  | WindowMenuRequested nat nat "real \<times> real" "32 word"
  | MoveRequested nat nat "32 word"
  | ResizeRequested nat nat gravity_kind "32 word"
  | GrabRequested nat nat "32 word"
  | RepositionRequested nat "32 word"
  | RoleAboutToBeDestroyed role_object
  | SendToplevelConfigure nat int int "32 word list"
  | SendPopupConfigure nat int int int int
  | SendConfigure "32 word"

text \<open>The names of the roles; a surface without role has none.\<close>

definition XdgToplevelInterface_role :: string where "XdgToplevelInterface_role = ''xdg_toplevel''"
definition XdgPopupInterface_role :: string where "XdgPopupInterface_role = ''xdg_popup''"

text \<open>\<open>surface_alive\<close> is the \<open>QPointer\<close> to the \<open>wl_surface\<close>, \<open>surface_buffer\<close> whether it has a buffer.\<close>

record xdg_world =
  surface_alive :: bool
  surface_role :: "string option"
  surface_roleGeneration :: "32 word"
  surface_buffer :: bool
  surface_scale :: real
  surface_toClient :: real
  xdg_surface_obj :: "xdg_surface option"
  toplevels :: "nat \<Rightarrow> xdg_toplevel option"
  popups :: "nat \<Rightarrow> xdg_popup option"
  display_serial :: "32 word"
  trace :: "xdg_signal list"

definition xdg_emit :: "xdg_signal \<Rightarrow> xdg_world \<Rightarrow> xdg_world" where
  "xdg_emit e w = w\<lparr>trace := e # trace w\<rparr>"

definition XdgSurfacePrivate_new :: xdg_surface where
  "XdgSurfacePrivate_new =
     \<lparr>xs_pending = None, xs_toplevel = None, xs_popup = None, xs_windowGeometry = Rect_null,
      firstBufferAttached = False, isConfigured = False, isInitialized = False\<rparr>"

definition XdgToplevelPrivate_new :: xdg_toplevel where
  "XdgToplevelPrivate_new =
     \<lparr>tl_parent = None, tl_title = [], tl_appId = [], tl_tag = [], tl_description = [],
      tl_minimumSize = (0, 0), tl_maximumSize = (0, 0), tl_customIcon = None,
      tl_pending = XdgToplevelCommit_new, tl_committed = []\<rparr>"

text \<open>A \<open>wl_surface\<close> that just got its \<open>xdg_surface\<close> (\<open>get_xdg_surface\<close>), of any role and content.\<close>

definition xdg_world_new :: "string option \<Rightarrow> bool \<Rightarrow> real \<Rightarrow> real \<Rightarrow> 32 word \<Rightarrow> xdg_world" where
  "xdg_world_new role buffer scale toClient serial =
     \<lparr>surface_alive = True, surface_role = role, surface_roleGeneration = 0, surface_buffer = buffer,
      surface_scale = scale, surface_toClient = toClient,
      xdg_surface_obj = Some XdgSurfacePrivate_new, toplevels = (\<lambda>i. None), popups = (\<lambda>i. None),
      display_serial = serial, trace = []\<rparr>"

section \<open>Pointers\<close>

definition update_xs :: "(xdg_surface \<Rightarrow> xdg_surface) \<Rightarrow> xdg_world \<Rightarrow> xdg_world option" where
  "update_xs f w = map_option (\<lambda>xs. w\<lparr>xdg_surface_obj := Some (f xs)\<rparr>) (xdg_surface_obj w)"

definition update_toplevel :: "nat \<Rightarrow> (xdg_toplevel \<Rightarrow> xdg_toplevel) \<Rightarrow> xdg_world \<Rightarrow> xdg_world option" where
  "update_toplevel i f w = map_option (\<lambda>t. w\<lparr>toplevels := (toplevels w)(i \<mapsto> f t)\<rparr>) (toplevels w i)"

definition update_popup :: "nat \<Rightarrow> (xdg_popup \<Rightarrow> xdg_popup) \<Rightarrow> xdg_world \<Rightarrow> xdg_world option" where
  "update_popup i f w = map_option (\<lambda>p. w\<lparr>popups := (popups w)(i \<mapsto> f p)\<rparr>) (popups w i)"

text \<open>
  Writing to the pending state of the role: it is stored in the pending state of the \<open>wl_surface\<close>,
  so that there is nothing to write to once the \<open>wl_surface\<close> is gone.
\<close>

definition update_role_pending ::
  "role_object \<Rightarrow> (xdg_toplevel_commit \<Rightarrow> xdg_toplevel_commit) \<Rightarrow> (xdg_surface_commit \<Rightarrow> xdg_surface_commit) \<Rightarrow>
   xdg_world \<Rightarrow> xdg_world option" where
  "update_role_pending r f g w =
     (if \<not> surface_alive w then None
      else case r of
        Toplevel i \<Rightarrow> update_toplevel i (\<lambda>t. t\<lparr>tl_pending := f (tl_pending t)\<rparr>) w
      | Popup i \<Rightarrow> update_popup i (\<lambda>p. p\<lparr>pp_pending := g (pp_pending p)\<rparr>) w)"

text \<open>\<open>nextRoleGeneration\<close>; the transactions that it may release apply in steps of their own.\<close>

definition surface_nextRoleGeneration :: "xdg_world \<Rightarrow> xdg_world" where
  "surface_nextRoleGeneration w = w\<lparr>surface_roleGeneration := surface_roleGeneration w + 1\<rparr>"

definition wl_display_next_serial :: "xdg_world \<Rightarrow> 32 word \<times> xdg_world" where
  "wl_display_next_serial w = (let serial = display_serial w + 1 in (serial, w\<lparr>display_serial := serial\<rparr>))"

section \<open>\<open>xdg_surface\<close>\<close>

text \<open>Applying the part of a commit that both roles have; \<open>surface\<close> is alive when it applies its state.\<close>

definition XdgSurface_apply :: "'a xdg_surface_commit_scheme \<Rightarrow> xdg_world \<Rightarrow> xdg_world option" where
  "XdgSurface_apply commit w = do {
     w1 \<leftarrow> (if surface_buffer w then update_xs (\<lambda>xs. xs\<lparr>firstBufferAttached := True\<rparr>) w else Some w);
     let w2 = (case cm_acknowledgedConfigure commit of
                 None \<Rightarrow> w1 | Some serial \<Rightarrow> xdg_emit (ConfigureAcknowledged serial) w1);
     (case cm_windowGeometry commit of
        None \<Rightarrow> Some w2
      | Some g \<Rightarrow> map_option (xdg_emit (WindowGeometryChanged g)) (update_xs (\<lambda>xs. xs\<lparr>xs_windowGeometry := g\<rparr>) w2))
   }"

definition XdgSurface_reset :: "xdg_world \<Rightarrow> xdg_world option" where
  "XdgSurface_reset w =
     map_option (xdg_emit SurfaceReset)
       (update_xs (\<lambda>xs. xs\<lparr>firstBufferAttached := False, isConfigured := False, isInitialized := False,
                          xs_windowGeometry := Rect_null\<rparr>) w)"

text \<open>The constructor of \<open>XdgToplevelInterface\<close> for the new object \<open>i\<close>.\<close>

definition XdgToplevelInterface_new :: "nat \<Rightarrow> xdg_world \<Rightarrow> xdg_world option" where
  "XdgToplevelInterface_new i w =
     update_xs (\<lambda>xs. xs\<lparr>xs_toplevel := Some i, xs_pending := Some (Toplevel i)\<rparr>)
       (w\<lparr>toplevels := (toplevels w)(i \<mapsto> XdgToplevelPrivate_new)\<rparr>)"

definition xdg_surface_get_toplevel :: "nat \<Rightarrow> xdg_world \<Rightarrow> xdg_world option" where
  "xdg_surface_get_toplevel i w = do {
     xs \<leftarrow> xdg_surface_obj w;
     (if \<not> surface_alive w then None
      else if surface_role w \<noteq> None \<and> surface_role w \<noteq> Some XdgToplevelInterface_role
      then Some (xdg_emit (PostError err_already_constructed) w)
      else map_option (xdg_emit (ToplevelCreated i)) (XdgToplevelInterface_new i
             (surface_nextRoleGeneration (w\<lparr>surface_role := Some XdgToplevelInterface_role\<rparr>))))
   }"

text \<open>The \<open>xdg_surface\<close> that a client names as the parent of a popup.\<close>

record popup_parent =
  pr_surface :: nat
  pr_alive :: bool
  pr_hasRole :: bool
  pr_scale :: real

definition XdgPopup_attachTo :: "nat \<Rightarrow> real \<Rightarrow> xdg_popup \<Rightarrow> xdg_popup" where
  "XdgPopup_attachTo parent scale p =
     p\<lparr>pp_parentSurface := Some parent,
       pp_positioner := XdgPositioner_setParentScale scale (pp_positioner p)\<rparr>"

definition XdgPopupInterface_new ::
  "nat \<Rightarrow> popup_parent option \<Rightarrow> xdg_positioner \<Rightarrow> xdg_world \<Rightarrow> xdg_world option" where
  "XdgPopupInterface_new i parentSurface positioner w =
     (let p = \<lparr>pp_parentSurface = None,
               pp_positioner = XdgPositioner_setPopupScale (surface_scale w) positioner,
               pp_pending = XdgPopupCommit_new, pp_committed = []\<rparr>;
          p' = (case parentSurface of None \<Rightarrow> p | Some pr \<Rightarrow> XdgPopup_attachTo (pr_surface pr) (pr_scale pr) p)
      in update_xs (\<lambda>xs. xs\<lparr>xs_popup := Some i, xs_pending := Some (Popup i)\<rparr>)
           (w\<lparr>popups := (popups w)(i \<mapsto> p')\<rparr>))"

definition xdg_surface_get_popup ::
  "nat \<Rightarrow> popup_parent option \<Rightarrow> positioner_data \<Rightarrow> xdg_world \<Rightarrow> xdg_world option" where
  "xdg_surface_get_popup i parent positioner w = do {
     xs \<leftarrow> xdg_surface_obj w;
     (if \<not> surface_alive w then None
      else if surface_role w \<noteq> None \<and> surface_role w \<noteq> Some XdgPopupInterface_role
      then Some (xdg_emit (PostError err_already_constructed) w)
      else let w1 = surface_nextRoleGeneration (w\<lparr>surface_role := Some XdgPopupInterface_role\<rparr>)
           in if \<not> XdgPositioner_isComplete (XdgPositioner_of positioner)
              then Some (xdg_emit (PostError err_invalid_positioner) w1)
              else case parent of
                None \<Rightarrow> map_option (xdg_emit (PopupCreated i))
                          (XdgPopupInterface_new i None (XdgPositioner_of positioner) w1)
              | Some pr \<Rightarrow>
                  if \<not> pr_alive pr then None
                  else if \<not> pr_hasRole pr then Some (xdg_emit (PostError err_invalid_popup_parent) w1)
                  else map_option (xdg_emit (PopupCreated i))
                         (XdgPopupInterface_new i (Some pr) (XdgPositioner_of positioner) w1))
   }"

definition xdg_surface_set_window_geometry :: "int \<Rightarrow> int \<Rightarrow> int \<Rightarrow> int \<Rightarrow> xdg_world \<Rightarrow> xdg_world option" where
  "xdg_surface_set_window_geometry x y width height w = do {
     xs \<leftarrow> xdg_surface_obj w;
     (if \<not> surface_alive w then Some w
      else case xs_pending xs of
        None \<Rightarrow> Some (xdg_emit (PostError err_not_constructed) w)
      | Some r \<Rightarrow>
          if width < 1 \<or> height < 1 then Some (xdg_emit (PostError err_invalid_geometry) w)
          else let g = Rect_scaled (1 / surface_scale w) (1 / surface_scale w) (Rect_make x y width height)
               in update_role_pending r (\<lambda>c. c\<lparr>cm_windowGeometry := Some g\<rparr>)
                    (\<lambda>c. c\<lparr>cm_windowGeometry := Some g\<rparr>) w)
   }"

definition xdg_surface_ack_configure :: "32 word \<Rightarrow> xdg_world \<Rightarrow> xdg_world option" where
  "xdg_surface_ack_configure serial w = do {
     xs \<leftarrow> xdg_surface_obj w;
     (case xs_pending xs of
        None \<Rightarrow> Some (xdg_emit (PostError err_not_constructed) w)
      | Some r \<Rightarrow> update_role_pending r (\<lambda>c. c\<lparr>cm_acknowledgedConfigure := Some serial\<rparr>)
                     (\<lambda>c. c\<lparr>cm_acknowledgedConfigure := Some serial\<rparr>) w)
   }"

section \<open>\<open>xdg_toplevel\<close>\<close>

definition XdgToplevel_reset :: "nat \<Rightarrow> xdg_world \<Rightarrow> xdg_world option" where
  "XdgToplevel_reset i w = do {
     w1 \<leftarrow> XdgSurface_reset w;
     w2 \<leftarrow> update_toplevel i (\<lambda>t. t\<lparr>tl_title := [], tl_appId := [], tl_tag := [], tl_description := [],
             tl_minimumSize := (0, 0), tl_maximumSize := (0, 0), tl_customIcon := None\<rparr>) w1;
     Some (xdg_emit (ToplevelReset i) w2)
   }"

text \<open>\<open>(min > 0) && (max > 0) && (min > max)\<close>\<close>

definition size_conflict :: "real \<Rightarrow> real \<Rightarrow> bool" where
  "size_conflict mn mx \<longleftrightarrow> 0 < mn \<and> 0 < mx \<and> mn > mx"

definition XdgToplevel_initialize :: "xdg_world \<Rightarrow> xdg_world option" where
  "XdgToplevel_initialize w = do {
     xs \<leftarrow> xdg_surface_obj w;
     (if \<not> isInitialized xs
      then update_xs (\<lambda>xs. xs\<lparr>isInitialized := True\<rparr>) (xdg_emit InitializeRequested w)
      else Some w)
   }"

definition update_minimumSize :: "nat \<Rightarrow> xdg_toplevel_commit \<Rightarrow> xdg_world \<Rightarrow> xdg_world option" where
  "update_minimumSize i commit w = do {
     t \<leftarrow> toplevels w i;
     (case cm_minimumSize commit of
        None \<Rightarrow> Some w
      | Some minSize \<Rightarrow>
          if tl_minimumSize t \<noteq> minSize
          then map_option (xdg_emit (MinimumSizeChanged i minSize))
                 (update_toplevel i (\<lambda>t. t\<lparr>tl_minimumSize := minSize\<rparr>) w)
          else Some w)
   }"

definition update_maximumSize :: "nat \<Rightarrow> xdg_toplevel_commit \<Rightarrow> xdg_world \<Rightarrow> xdg_world option" where
  "update_maximumSize i commit w = do {
     t \<leftarrow> toplevels w i;
     (case cm_maximumSize commit of
        None \<Rightarrow> Some w
      | Some maxSize \<Rightarrow>
          if tl_maximumSize t \<noteq> maxSize
          then map_option (xdg_emit (MaximumSizeChanged i maxSize))
                 (update_toplevel i (\<lambda>t. t\<lparr>tl_maximumSize := maxSize\<rparr>) w)
          else Some w)
   }"

text \<open>
  Sizes are compared exactly; \<open>QSizeF\<close> compares them up to a relative error of \<open>10\<^sup>-\<^sup>1\<^sup>2\<close>, which only
  decides whether a nearly equal size is stored and signalled again.
\<close>

definition XdgToplevel_apply :: "nat \<Rightarrow> xdg_toplevel_commit \<Rightarrow> xdg_world \<Rightarrow> xdg_world option" where
  "XdgToplevel_apply i commit w = do {
     xs \<leftarrow> xdg_surface_obj w;
     (if \<not> surface_alive w then None
      else if surface_buffer w \<and> \<not> isConfigured xs then Some (xdg_emit (PostError err_unconfigured_buffer) w)
      else if \<not> surface_buffer w \<and> firstBufferAttached xs then XdgToplevel_reset i w
      else do {
        w1 \<leftarrow> XdgSurface_apply commit w;
        t \<leftarrow> toplevels w1 i;
        let minSize = (case cm_minimumSize commit of None \<Rightarrow> tl_minimumSize t | Some s \<Rightarrow> s);
        let maxSize = (case cm_maximumSize commit of None \<Rightarrow> tl_maximumSize t | Some s \<Rightarrow> s);
        (if size_conflict (fst minSize) (fst maxSize) then Some (xdg_emit (PostError err_invalid_size) w1)
         else if size_conflict (snd minSize) (snd maxSize) then Some (xdg_emit (PostError err_invalid_size) w1)
         else do {
           w2 \<leftarrow> update_minimumSize i commit w1;
           w3 \<leftarrow> update_maximumSize i commit w2;
           XdgToplevel_initialize w3
         })
      })
   }"

text \<open>
  The destructor; pointers of other toplevels to this one (\<open>QPointer\<close>) become null. The private
  object of the \<open>xdg_surface\<close> is written, so it has to exist.
\<close>

definition forget_toplevel :: "nat \<Rightarrow> xdg_world \<Rightarrow> xdg_world" where
  "forget_toplevel i w = w\<lparr>toplevels := (\<lambda>j. map_option
     (\<lambda>t. if tl_parent t = Some i then t\<lparr>tl_parent := None\<rparr> else t) (toplevels w j))\<rparr>"

definition XdgToplevelInterface_delete :: "nat \<Rightarrow> xdg_world \<Rightarrow> xdg_world option" where
  "XdgToplevelInterface_delete i w = do {
     t \<leftarrow> toplevels w i;
     let w1 = (if surface_alive w then surface_nextRoleGeneration w else w);
     w2 \<leftarrow> update_xs (\<lambda>xs. xs\<lparr>xs_toplevel := None, xs_pending := None\<rparr>)
             (xdg_emit (RoleAboutToBeDestroyed (Toplevel i)) w1);
     Some (forget_toplevel i (w2\<lparr>toplevels := (toplevels w2)(i := None)\<rparr>))
   }"

definition xdg_toplevel_set_parent :: "nat \<Rightarrow> nat option \<Rightarrow> xdg_world \<Rightarrow> xdg_world option" where
  "xdg_toplevel_set_parent i parent w = do {
     t \<leftarrow> toplevels w i;
     (if tl_parent t = parent then Some w
      else map_option (xdg_emit (ParentXdgToplevelChanged i)) (update_toplevel i (\<lambda>t. t\<lparr>tl_parent := parent\<rparr>) w))
   }"

definition xdg_toplevel_set_title :: "nat \<Rightarrow> string \<Rightarrow> xdg_world \<Rightarrow> xdg_world option" where
  "xdg_toplevel_set_title i title w = do {
     t \<leftarrow> toplevels w i;
     (if tl_title t = title then Some w
      else map_option (xdg_emit (TitleChanged i title)) (update_toplevel i (\<lambda>t. t\<lparr>tl_title := title\<rparr>) w))
   }"

definition xdg_toplevel_set_app_id :: "nat \<Rightarrow> string \<Rightarrow> xdg_world \<Rightarrow> xdg_world option" where
  "xdg_toplevel_set_app_id i app_id w = do {
     t \<leftarrow> toplevels w i;
     (if tl_appId t = app_id then Some w
      else map_option (xdg_emit (AppIdChanged i app_id)) (update_toplevel i (\<lambda>t. t\<lparr>tl_appId := app_id\<rparr>) w))
   }"

definition xdg_toplevel_show_window_menu ::
  "nat \<Rightarrow> nat \<Rightarrow> 32 word \<Rightarrow> int \<Rightarrow> int \<Rightarrow> xdg_world \<Rightarrow> xdg_world option" where
  "xdg_toplevel_show_window_menu i seat serial x y w = do {
     xs \<leftarrow> xdg_surface_obj w;
     Some (if \<not> surface_alive w then w
           else if \<not> isConfigured xs then xdg_emit (PostError err_not_constructed) w
           else xdg_emit (WindowMenuRequested i seat (of_int x / surface_scale w, of_int y / surface_scale w) serial) w)
   }"

definition xdg_toplevel_move :: "nat \<Rightarrow> nat \<Rightarrow> 32 word \<Rightarrow> xdg_world \<Rightarrow> xdg_world option" where
  "xdg_toplevel_move i seat serial w = do {
     xs \<leftarrow> xdg_surface_obj w;
     Some (if \<not> isConfigured xs then xdg_emit (PostError err_not_constructed) w
           else xdg_emit (MoveRequested i seat serial) w)
   }"

text \<open>The numbers of \<open>resize_edge\<close> in \<open>xdg-shell.xml\<close>.\<close>

definition resize_gravity :: "32 word \<Rightarrow> gravity_kind option" where
  "resize_gravity xdgEdges =
     (if xdgEdges = 0 then Some Gravity_None
      else if xdgEdges = 1 then Some Gravity_Top
      else if xdgEdges = 2 then Some Gravity_Bottom
      else if xdgEdges = 4 then Some Gravity_Left
      else if xdgEdges = 5 then Some Gravity_TopLeft
      else if xdgEdges = 6 then Some Gravity_BottomLeft
      else if xdgEdges = 8 then Some Gravity_Right
      else if xdgEdges = 9 then Some Gravity_TopRight
      else if xdgEdges = 10 then Some Gravity_BottomRight
      else None)"

definition xdg_toplevel_resize :: "nat \<Rightarrow> nat \<Rightarrow> 32 word \<Rightarrow> 32 word \<Rightarrow> xdg_world \<Rightarrow> xdg_world option" where
  "xdg_toplevel_resize i seat serial xdgEdges w = do {
     xs \<leftarrow> xdg_surface_obj w;
     Some (if \<not> isConfigured xs then xdg_emit (PostError err_not_constructed) w
           else case resize_gravity xdgEdges of
             None \<Rightarrow> xdg_emit (PostError err_invalid_resize_edge) w
           | Some gravity \<Rightarrow> xdg_emit (ResizeRequested i seat gravity serial) w)
   }"

definition scaled_size :: "int \<Rightarrow> int \<Rightarrow> xdg_world \<Rightarrow> real \<times> real" where
  "scaled_size width height w = (of_int width / surface_scale w, of_int height / surface_scale w)"

definition xdg_toplevel_set_max_size :: "nat \<Rightarrow> int \<Rightarrow> int \<Rightarrow> xdg_world \<Rightarrow> xdg_world option" where
  "xdg_toplevel_set_max_size i width height w =
     (if \<not> surface_alive w then Some w
      else if width < 0 \<or> height < 0 then Some (xdg_emit (PostError err_invalid_size) w)
      else update_role_pending (Toplevel i)
             (\<lambda>c. c\<lparr>cm_maximumSize := Some (scaled_size width height w)\<rparr>) id w)"

definition xdg_toplevel_set_min_size :: "nat \<Rightarrow> int \<Rightarrow> int \<Rightarrow> xdg_world \<Rightarrow> xdg_world option" where
  "xdg_toplevel_set_min_size i width height w =
     (if \<not> surface_alive w then Some w
      else if width < 0 \<or> height < 0 then Some (xdg_emit (PostError err_invalid_size) w)
      else update_role_pending (Toplevel i)
             (\<lambda>c. c\<lparr>cm_minimumSize := Some (scaled_size width height w)\<rparr>) id w)"

text \<open>The states of a toplevel, as the numbers of the protocol; the resource has a version.\<close>

datatype toplevel_state =
    MaximizedHorizontal | MaximizedVertical | FullScreen | Resizing | Activated
  | TiledLeft | TiledTop | TiledRight | TiledBottom | Suspended

definition configure_states :: "toplevel_state set \<Rightarrow> nat \<Rightarrow> 32 word list" where
  "configure_states states version =
     (if MaximizedHorizontal \<in> states \<and> MaximizedVertical \<in> states then [1] else []) @
     (if FullScreen \<in> states then [2] else []) @
     (if Resizing \<in> states then [3] else []) @
     (if Activated \<in> states then [4] else []) @
     (if version \<ge> 2 then
        (if TiledLeft \<in> states then [5] else []) @
        (if TiledTop \<in> states then [7] else []) @
        (if TiledRight \<in> states then [6] else []) @
        (if TiledBottom \<in> states then [8] else [])
      else []) @
     (if version \<ge> 6 then (if Suspended \<in> states then [9] else []) else [])"

text \<open>The result is the serial; \<open>toSize\<close> rounds.\<close>

definition XdgToplevel_sendConfigure ::
  "nat \<Rightarrow> real \<times> real \<Rightarrow> toplevel_state set \<Rightarrow> nat \<Rightarrow> xdg_world \<Rightarrow> (32 word \<times> xdg_world) option" where
  "XdgToplevel_sendConfigure i sz states version w =
     (let xdgStates = configure_states states version;
          (serial, w1) = wl_display_next_serial w
      in if \<not> surface_alive w1 then None
         else let w2 = xdg_emit (SendToplevelConfigure i (round_half_away (fst sz * surface_toClient w1))
                               (round_half_away (snd sz * surface_toClient w1)) xdgStates) w1
              in map_option (Pair serial) (update_xs (\<lambda>xs. xs\<lparr>isConfigured := True\<rparr>)
                   (xdg_emit (SendConfigure serial) w2)))"

section \<open>\<open>xdg_popup\<close>\<close>

definition XdgPopup_apply :: "nat \<Rightarrow> xdg_surface_commit \<Rightarrow> xdg_world \<Rightarrow> xdg_world option" where
  "XdgPopup_apply i commit w = do {
     p \<leftarrow> popups w i;
     xs \<leftarrow> xdg_surface_obj w;
     (if pp_parentSurface p = None then Some (xdg_emit (PostError err_invalid_popup_parent) w)
      else if \<not> surface_alive w then None
      else if surface_buffer w \<and> \<not> isConfigured xs then Some (xdg_emit (PostError err_unconfigured_buffer) w)
      else if \<not> surface_buffer w \<and> firstBufferAttached xs then XdgSurface_reset w
      else do {
        w1 \<leftarrow> XdgSurface_apply commit w;
        XdgToplevel_initialize w1
      })
   }"

definition XdgPopupInterface_delete :: "nat \<Rightarrow> xdg_world \<Rightarrow> xdg_world option" where
  "XdgPopupInterface_delete i w = do {
     p \<leftarrow> popups w i;
     let w1 = (if surface_alive w then surface_nextRoleGeneration w else w);
     w2 \<leftarrow> update_xs (\<lambda>xs. xs\<lparr>xs_popup := None, xs_pending := None\<rparr>)
             (xdg_emit (RoleAboutToBeDestroyed (Popup i)) w1);
     Some (w2\<lparr>popups := (popups w2)(i := None)\<rparr>)
   }"

definition xdg_popup_grab :: "nat \<Rightarrow> nat \<Rightarrow> 32 word \<Rightarrow> xdg_world \<Rightarrow> xdg_world option" where
  "xdg_popup_grab i seat serial w = do {
     xs \<leftarrow> xdg_surface_obj w;
     (if \<not> surface_alive w then None
      else if surface_buffer w then Some (xdg_emit (PostError err_invalid_grab) w)
      else Some (xdg_emit (GrabRequested i seat serial) w))
   }"

text \<open>
  \<open>parent_scale\<close> is the scale of a surface that still exists; \<open>parentSurface\<close> is a plain pointer
  that nothing resets when the parent goes away.
\<close>

definition xdg_popup_reposition ::
  "(nat \<Rightarrow> real option) \<Rightarrow> nat \<Rightarrow> positioner_data \<Rightarrow> 32 word \<Rightarrow> xdg_world \<Rightarrow> xdg_world option" where
  "xdg_popup_reposition parent_scale i positioner token w = do {
     p \<leftarrow> popups w i;
     (if \<not> surface_alive w then None
      else do {
        let q = XdgPositioner_setPopupScale (surface_scale w) (XdgPositioner_of positioner);
        q' \<leftarrow> (case pp_parentSurface p of
                None \<Rightarrow> Some q
              | Some s \<Rightarrow> map_option (\<lambda>scale. XdgPositioner_setParentScale scale q) (parent_scale s));
        map_option (xdg_emit (RepositionRequested i token)) (update_popup i (\<lambda>p. p\<lparr>pp_positioner := q'\<rparr>) w)
      })
   }"

definition XdgPopup_sendConfigure :: "nat \<Rightarrow> RectF \<Rightarrow> xdg_world \<Rightarrow> (32 word \<times> xdg_world) option" where
  "XdgPopup_sendConfigure i rect w =
     (let (serial, w1) = wl_display_next_serial w
      in if \<not> surface_alive w1 then None
         else let r = RectF_rounded (RectF_scaled (surface_toClient w1) (surface_toClient w1) rect);
                  w2 = xdg_emit (SendPopupConfigure i (m_left r) (m_top r) (Rect_width r) (Rect_height r)) w1
              in map_option (Pair serial) (update_xs (\<lambda>xs. xs\<lparr>isConfigured := True\<rparr>)
                   (xdg_emit (SendConfigure serial) w2)))"

section \<open>Destroying the \<open>xdg_surface\<close> and committing\<close>

definition XdgSurfaceInterface_delete :: "xdg_world \<Rightarrow> xdg_world option" where
  "XdgSurfaceInterface_delete w = do {
     xs \<leftarrow> xdg_surface_obj w;
     w1 \<leftarrow> (case xs_toplevel xs of None \<Rightarrow> Some w | Some i \<Rightarrow> XdgToplevelInterface_delete i w);
     w2 \<leftarrow> (case xs_popup xs of None \<Rightarrow> Some w1 | Some i \<Rightarrow> XdgPopupInterface_delete i w1);
     Some ((xdg_emit SurfaceAboutToBeDestroyed w2)\<lparr>xdg_surface_obj := None\<rparr>)
   }"

text \<open>
  A commit of the surface moves the pending state of each role object
  (\<open>SurfaceAttachedState::mergeInto\<close> into a new state) and leaves a new one behind.
\<close>

definition commit_roles :: "xdg_world \<Rightarrow> xdg_world" where
  "commit_roles w = w
     \<lparr>toplevels := (\<lambda>i. map_option (\<lambda>t. t\<lparr>tl_committed := tl_committed t @ [tl_pending t],
                                         tl_pending := XdgToplevelCommit_new\<rparr>) (toplevels w i)),
      popups := (\<lambda>i. map_option (\<lambda>p. p\<lparr>pp_committed := pp_committed p @ [pp_pending p],
                                      pp_pending := XdgPopupCommit_new\<rparr>) (popups w i))\<rparr>"

end
