(* ===== verification/XdgReach.thy ===== *)
theory XdgReach
  imports XdgSurface
begin

text \<open>
  The runs of an \<open>xdg_surface\<close> with its role objects, and the invariant of all reachable worlds.
  Each request is a step, and so is what the surface, the window and other protocols do: commits,
  applied states, configure events, a new scale and the destruction of the objects.
\<close>

section \<open>Steps\<close>

datatype xdg_event =
    Get_toplevel nat
  | Get_popup nat "popup_parent option" positioner_data
  | Set_window_geometry int int int int
  | Ack_configure "32 word"
  | Set_parent nat "nat option"
  | Set_title nat string
  | Set_app_id nat string
  | Set_tag nat string string
  | Set_icon nat "nat option"
  | Show_window_menu nat nat "32 word" int int
  | Move nat nat "32 word"
  | Resize nat nat "32 word" "32 word"
  | Set_max_size nat int int
  | Set_min_size nat int int
  | Grab nat nat "32 word"
  | Reposition "nat \<Rightarrow> real option" nat positioner_data "32 word"
  | Configure_toplevel nat "real \<times> real" "toplevel_state set" nat
  | Configure_popup nat RectF
  | Commit_surface
  | Apply_toplevel nat bool
  | Apply_popup nat bool
  | Delete_toplevel nat
  | Delete_popup nat
  | Delete_xdg_surface
  | Destroy_surface
  | Scale_changed real real
  | Next_serial

text \<open>A request on an object that is gone does nothing: its resource is inert.\<close>

definition on_toplevel :: "nat \<Rightarrow> (xdg_world \<Rightarrow> xdg_world option) \<Rightarrow> xdg_world \<Rightarrow> xdg_world option" where
  "on_toplevel i f w = (if toplevels w i = None then Some w else f w)"

definition on_popup :: "nat \<Rightarrow> (xdg_world \<Rightarrow> xdg_world option) \<Rightarrow> xdg_world \<Rightarrow> xdg_world option" where
  "on_popup i f w = (if popups w i = None then Some w else f w)"

definition on_xdg_surface :: "(xdg_world \<Rightarrow> xdg_world option) \<Rightarrow> xdg_world \<Rightarrow> xdg_world option" where
  "on_xdg_surface f w = (if xdg_surface_obj w = None then Some w else f w)"

text \<open>Applying the oldest committed state of an object, when the surface has a buffer or not.\<close>

definition apply_toplevel :: "nat \<Rightarrow> bool \<Rightarrow> xdg_world \<Rightarrow> xdg_world option" where
  "apply_toplevel i buffer w =
     (case toplevels w i of
        None \<Rightarrow> Some w
      | Some t \<Rightarrow> (case tl_committed t of
          [] \<Rightarrow> Some w
        | c # cs \<Rightarrow> XdgToplevel_apply i c
            (w\<lparr>toplevels := (toplevels w)(i \<mapsto> t\<lparr>tl_committed := cs\<rparr>), surface_buffer := buffer\<rparr>)))"

definition apply_popup :: "nat \<Rightarrow> bool \<Rightarrow> xdg_world \<Rightarrow> xdg_world option" where
  "apply_popup i buffer w =
     (case popups w i of
        None \<Rightarrow> Some w
      | Some p \<Rightarrow> (case pp_committed p of
          [] \<Rightarrow> Some w
        | c # cs \<Rightarrow> XdgPopup_apply i c
            (w\<lparr>popups := (popups w)(i \<mapsto> p\<lparr>pp_committed := cs\<rparr>), surface_buffer := buffer\<rparr>)))"

fun run_xdg :: "xdg_event \<Rightarrow> xdg_world \<Rightarrow> xdg_world option" where
  "run_xdg (Get_toplevel i) w = on_xdg_surface (xdg_surface_get_toplevel i) w"
| "run_xdg (Get_popup i parent p) w = on_xdg_surface (xdg_surface_get_popup i parent p) w"
| "run_xdg (Set_window_geometry x y wd ht) w = on_xdg_surface (xdg_surface_set_window_geometry x y wd ht) w"
| "run_xdg (Ack_configure s) w = on_xdg_surface (xdg_surface_ack_configure s) w"
| "run_xdg (Set_parent i p) w = on_toplevel i (xdg_toplevel_set_parent i p) w"
| "run_xdg (Set_title i s) w = on_toplevel i (xdg_toplevel_set_title i s) w"
| "run_xdg (Set_app_id i s) w = on_toplevel i (xdg_toplevel_set_app_id i s) w"
| "run_xdg (Set_tag i s s') w = on_toplevel i (update_toplevel i (\<lambda>t. t\<lparr>tl_tag := s, tl_description := s'\<rparr>)) w"
| "run_xdg (Set_icon i c) w = on_toplevel i (update_toplevel i (\<lambda>t. t\<lparr>tl_customIcon := c\<rparr>)) w"
| "run_xdg (Show_window_menu i seat s x y) w = on_toplevel i (xdg_toplevel_show_window_menu i seat s x y) w"
| "run_xdg (Move i seat s) w = on_toplevel i (xdg_toplevel_move i seat s) w"
| "run_xdg (Resize i seat s e) w = on_toplevel i (xdg_toplevel_resize i seat s e) w"
| "run_xdg (Set_max_size i wd ht) w = on_toplevel i (xdg_toplevel_set_max_size i wd ht) w"
| "run_xdg (Set_min_size i wd ht) w = on_toplevel i (xdg_toplevel_set_min_size i wd ht) w"
| "run_xdg (Grab i seat s) w = on_popup i (xdg_popup_grab i seat s) w"
| "run_xdg (Reposition ps i p s) w = on_popup i (xdg_popup_reposition ps i p s) w"
| "run_xdg (Configure_toplevel i sz st v) w = map_option snd (XdgToplevel_sendConfigure i sz st v w)"
| "run_xdg (Configure_popup i r) w = map_option snd (XdgPopup_sendConfigure i r w)"
| "run_xdg Commit_surface w = Some (commit_roles w)"
| "run_xdg (Apply_toplevel i b) w = apply_toplevel i b w"
| "run_xdg (Apply_popup i b) w = apply_popup i b w"
| "run_xdg (Delete_toplevel i) w = on_toplevel i (XdgToplevelInterface_delete i) w"
| "run_xdg (Delete_popup i) w = on_popup i (XdgPopupInterface_delete i) w"
| "run_xdg Delete_xdg_surface w = on_xdg_surface XdgSurfaceInterface_delete w"
| "run_xdg Destroy_surface w = Some (w\<lparr>surface_alive := False\<rparr>)"
| "run_xdg (Scale_changed s t) w = Some (w\<lparr>surface_scale := s, surface_toClient := t\<rparr>)"
| "run_xdg Next_serial w = Some (snd (wl_display_next_serial w))"

text \<open>
  What the server ensures: new objects are new, the surface commits, applies and is configured only
  while it exists, and a window configures an object that exists.
\<close>

fun xdg_possible :: "xdg_event \<Rightarrow> xdg_world \<Rightarrow> bool" where
  "xdg_possible (Get_toplevel i) w \<longleftrightarrow> toplevels w i = None"
| "xdg_possible (Get_popup i parent p) w \<longleftrightarrow> popups w i = None"
| "xdg_possible (Configure_toplevel i sz st v) w \<longleftrightarrow> surface_alive w \<and> toplevels w i \<noteq> None"
| "xdg_possible (Configure_popup i r) w \<longleftrightarrow> surface_alive w \<and> popups w i \<noteq> None"
| "xdg_possible Commit_surface w \<longleftrightarrow> surface_alive w"
| "xdg_possible (Apply_toplevel i b) w \<longleftrightarrow> surface_alive w"
| "xdg_possible (Apply_popup i b) w \<longleftrightarrow> surface_alive w"
| "xdg_possible _ w \<longleftrightarrow> True"

inductive xdg_reachable :: "xdg_world \<Rightarrow> bool" where
  xdg_start: "role = None \<or> role = Some XdgToplevelInterface_role \<or> role = Some XdgPopupInterface_role \<Longrightarrow>
    xdg_reachable (xdg_world_new role buffer scale toClient serial)"
| xdg_step: "xdg_reachable w \<Longrightarrow> xdg_possible e w \<Longrightarrow> run_xdg e w = Some w' \<Longrightarrow> xdg_reachable w'"

inductive_cases xdg_reachableE: "xdg_reachable w"

section \<open>The invariant\<close>

text \<open>What happened since the surface was last reset.\<close>

definition since_reset :: "xdg_world \<Rightarrow> xdg_signal list" where
  "since_reset w = takeWhile (\<lambda>e. e \<noteq> SurfaceReset) (trace w)"

definition is_configure :: "xdg_signal \<Rightarrow> bool" where
  "is_configure e \<longleftrightarrow> (\<exists>s. e = SendConfigure s)"

lemma is_configure_code [simp]: "is_configure e = (case e of SendConfigure s \<Rightarrow> True | _ \<Rightarrow> False)"
  by (cases e) (simp_all add: is_configure_def)

definition phases_ok :: "xdg_world \<Rightarrow> xdg_surface \<Rightarrow> bool" where
  "phases_ok w xs \<longleftrightarrow>
     (isConfigured xs \<longleftrightarrow> (\<exists>e\<in>set (since_reset w). is_configure e)) \<and>
     (isInitialized xs \<longleftrightarrow> InitializeRequested \<in> set (since_reset w)) \<and>
     count_list (since_reset w) InitializeRequested \<le> 1 \<and>
     (firstBufferAttached xs \<longrightarrow> isConfigured xs)"

definition toplevel_ok :: "xdg_toplevel \<Rightarrow> bool" where
  "toplevel_ok t \<longleftrightarrow>
     \<not> size_conflict (fst (tl_minimumSize t)) (fst (tl_maximumSize t)) \<and>
     \<not> size_conflict (snd (tl_minimumSize t)) (snd (tl_maximumSize t))"

definition pointers_ok :: "xdg_world \<Rightarrow> xdg_surface \<Rightarrow> bool" where
  "pointers_ok w xs \<longleftrightarrow>
     (\<forall>i. xs_toplevel xs = Some i \<longrightarrow> toplevels w i \<noteq> None) \<and>
     (\<forall>i. xs_popup xs = Some i \<longrightarrow> popups w i \<noteq> None) \<and>
     (\<forall>i. xs_pending xs = Some (Toplevel i) \<longrightarrow> xs_toplevel xs = Some i) \<and>
     (\<forall>i. xs_pending xs = Some (Popup i) \<longrightarrow> xs_popup xs = Some i)"

definition roles_ok :: "xdg_world \<Rightarrow> bool" where
  "roles_ok w \<longleftrightarrow>
     (\<forall>i. toplevels w i \<noteq> None \<longrightarrow> surface_role w = Some XdgToplevelInterface_role) \<and>
     (\<forall>i. popups w i \<noteq> None \<longrightarrow> surface_role w = Some XdgPopupInterface_role)"

definition xdg_ok :: "xdg_world \<Rightarrow> bool" where
  "xdg_ok w \<longleftrightarrow>
     (\<forall>xs. xdg_surface_obj w = Some xs \<longrightarrow> phases_ok w xs \<and> pointers_ok w xs) \<and>
     (\<forall>i t. toplevels w i = Some t \<longrightarrow> toplevel_ok t) \<and> roles_ok w"

lemma roles_distinct [simp]: "XdgToplevelInterface_role \<noteq> XdgPopupInterface_role"
  by (simp add: XdgToplevelInterface_role_def XdgPopupInterface_role_def)

lemmas roles_distinct' [simp] = roles_distinct [symmetric]

lemma since_reset_emit [simp]:
  "since_reset (xdg_emit e w) = (if e = SurfaceReset then [] else e # since_reset w)"
  by (simp add: since_reset_def xdg_emit_def)

lemma xdg_emit_fields [simp]:
  "surface_alive (xdg_emit e w) = surface_alive w" "surface_role (xdg_emit e w) = surface_role w"
  "surface_buffer (xdg_emit e w) = surface_buffer w" "surface_scale (xdg_emit e w) = surface_scale w"
  "surface_toClient (xdg_emit e w) = surface_toClient w"
  "xdg_surface_obj (xdg_emit e w) = xdg_surface_obj w" "toplevels (xdg_emit e w) = toplevels w"
  "popups (xdg_emit e w) = popups w" "display_serial (xdg_emit e w) = display_serial w"
  by (simp_all add: xdg_emit_def)

text \<open>Changes that no part of the invariant sees.\<close>

definition same_core :: "xdg_world \<Rightarrow> xdg_world \<Rightarrow> bool" where
  "same_core w w' \<longleftrightarrow>
     trace w' = trace w \<and> xdg_surface_obj w' = xdg_surface_obj w \<and> surface_role w' = surface_role w \<and>
     (\<forall>i. (popups w' i = None) = (popups w i = None)) \<and>
     (\<forall>i. rel_option (\<lambda>t t'. tl_minimumSize t' = tl_minimumSize t \<and> tl_maximumSize t' = tl_maximumSize t)
            (toplevels w i) (toplevels w' i))"

lemma same_core_ok: "same_core w w' \<Longrightarrow> xdg_ok w \<Longrightarrow> xdg_ok w'"
proof -
  assume same: "same_core w w'" and ok: "xdg_ok w"
  have live: "(toplevels w' i = None) = (toplevels w i = None)" for i
    using same by (cases "toplevels w i"; cases "toplevels w' i") (auto simp: same_core_def dest: spec [of _ i])
  have t: "toplevel_ok t'" if "toplevels w' i = Some t'" for i t'
  proof -
    have "rel_option (\<lambda>t t'. tl_minimumSize t' = tl_minimumSize t \<and> tl_maximumSize t' = tl_maximumSize t)
        (toplevels w i) (toplevels w' i)"
      using same by (simp add: same_core_def)
    then show ?thesis using that ok
      by (cases "toplevels w i") (auto simp: xdg_ok_def toplevel_ok_def)
  qed
  show "xdg_ok w'" using same ok t
    by (auto simp: xdg_ok_def same_core_def live phases_ok_def pointers_ok_def roles_ok_def since_reset_def)
qed

definition quiet :: "xdg_signal \<Rightarrow> bool" where
  "quiet e \<longleftrightarrow> e \<noteq> SurfaceReset \<and> e \<noteq> InitializeRequested \<and> \<not> is_configure e"

lemma emit_ok: "quiet e \<Longrightarrow> xdg_ok (xdg_emit e w) \<longleftrightarrow> xdg_ok w"
  by (auto simp: quiet_def xdg_ok_def phases_ok_def pointers_ok_def roles_ok_def simp del: is_configure_code)

lemma quiet_simps [simp]:
  "quiet (PostError x)" "quiet (ConfigureAcknowledged n)" "quiet (WindowGeometryChanged g)"
  "quiet SurfaceAboutToBeDestroyed" "quiet (ToplevelCreated i)" "quiet (PopupCreated i)"
  "quiet (MinimumSizeChanged i z)" "quiet (MaximumSizeChanged i z)" "quiet (ToplevelReset i)"
  "quiet (ParentXdgToplevelChanged i)" "quiet (TitleChanged i t)" "quiet (AppIdChanged i t)"
  "quiet (WindowMenuRequested i j pt n)" "quiet (MoveRequested i j n)" "quiet (ResizeRequested i j k n)"
  "quiet (GrabRequested i j n)" "quiet (RepositionRequested i n)" "quiet (RoleAboutToBeDestroyed r)"
  "quiet (SendToplevelConfigure i a b l)" "quiet (SendPopupConfigure i a b c d)"
  by (simp_all add: quiet_def)

section \<open>Every step keeps the invariant\<close>

lemma update_toplevel_same:
  assumes "update_toplevel i f w = Some w'"
    and "\<And>t. tl_minimumSize (f t) = tl_minimumSize t \<and> tl_maximumSize (f t) = tl_maximumSize t"
  shows "same_core w w'"
  using assms by (auto simp: update_toplevel_def same_core_def rel_option_iff split: option.splits if_splits)

lemma update_popup_same: "update_popup i f w = Some w' \<Longrightarrow> same_core w w'"
  by (auto simp: update_popup_def same_core_def rel_option_iff split: option.splits if_splits)

lemma update_role_pending_same:
  assumes "update_role_pending r f g w = Some w'"
  shows "same_core w w'"
proof (cases r)
  case (Toplevel i)
  then have "update_toplevel i (\<lambda>t. t\<lparr>tl_pending := f (tl_pending t)\<rparr>) w = Some w'"
    using assms by (simp add: update_role_pending_def split: if_splits)
  then show ?thesis by (rule update_toplevel_same) simp
next
  case (Popup i)
  then have "update_popup i (\<lambda>p. p\<lparr>pp_pending := g (pp_pending p)\<rparr>) w = Some w'"
    using assms by (simp add: update_role_pending_def split: if_splits)
  then show ?thesis by (rule update_popup_same)
qed

lemma keep_set_size:
  assumes "xdg_ok w"
  shows "xdg_toplevel_set_max_size i wd ht w = Some w' \<Longrightarrow> xdg_ok w'"
    and "xdg_toplevel_set_min_size i wd ht w = Some w' \<Longrightarrow> xdg_ok w'"
  using assms
  by (auto simp: xdg_toplevel_set_max_size_def xdg_toplevel_set_min_size_def emit_ok
      dest: same_core_ok [OF update_role_pending_same] split: if_splits)

lemma keep_commit_requests:
  assumes "xdg_ok w"
  shows "xdg_surface_set_window_geometry x y wd ht w = Some w' \<Longrightarrow> xdg_ok w'"
    and "xdg_surface_ack_configure s w = Some w' \<Longrightarrow> xdg_ok w'"
  using assms
  by (auto simp: xdg_surface_set_window_geometry_def xdg_surface_ack_configure_def emit_ok Let_def
      bind_eq_Some_conv dest: same_core_ok [OF update_role_pending_same] split: if_splits option.splits)

lemma keep_fields:
  assumes "xdg_ok w"
  shows "xdg_toplevel_set_parent i p w = Some w' \<Longrightarrow> xdg_ok w'"
    and "xdg_toplevel_set_title i title w = Some w' \<Longrightarrow> xdg_ok w'"
    and "xdg_toplevel_set_app_id i title w = Some w' \<Longrightarrow> xdg_ok w'"
    and "xdg_popup_reposition ps i q n w = Some w' \<Longrightarrow> xdg_ok w'"
  using assms
  by (auto simp: xdg_toplevel_set_parent_def xdg_toplevel_set_title_def xdg_toplevel_set_app_id_def
      xdg_popup_reposition_def emit_ok bind_eq_Some_conv Let_def
      dest: same_core_ok [OF update_toplevel_same] same_core_ok [OF update_popup_same] split: if_splits)

lemma keep_outputs:
  assumes "xdg_ok w"
  shows "xdg_toplevel_show_window_menu i seat n x y w = Some w' \<Longrightarrow> xdg_ok w'"
    and "xdg_toplevel_move i seat n w = Some w' \<Longrightarrow> xdg_ok w'"
    and "xdg_toplevel_resize i seat n e w = Some w' \<Longrightarrow> xdg_ok w'"
    and "xdg_popup_grab i seat n w = Some w' \<Longrightarrow> xdg_ok w'"
  using assms
  by (auto simp: xdg_toplevel_show_window_menu_def xdg_toplevel_move_def xdg_toplevel_resize_def
      xdg_popup_grab_def emit_ok bind_eq_Some_conv split: if_splits option.splits)

text \<open>Changes of the \<open>xdg_surface\<close>.\<close>

lemma update_xs_ok:
  assumes ok: "xdg_ok w" and up: "update_xs f w = Some w'"
    and f: "\<And>xs. phases_ok w xs \<Longrightarrow> pointers_ok w xs \<Longrightarrow> phases_ok w (f xs) \<and> pointers_ok w (f xs)"
  shows "xdg_ok w'"
proof -
  obtain xs where xs: "xdg_surface_obj w = Some xs" and w': "w' = w\<lparr>xdg_surface_obj := Some (f xs)\<rparr>"
    using up by (auto simp: update_xs_def)
  have "phases_ok w (f xs) \<and> pointers_ok w (f xs)" using ok f xs by (auto simp: xdg_ok_def)
  then show ?thesis using ok
    by (auto simp: w' xdg_ok_def phases_ok_def pointers_ok_def roles_ok_def since_reset_def)
qed

text \<open>The \<open>xdg_surface\<close> and the trace change, the objects and their sizes do not.\<close>

lemma xdg_ok_surface:
  assumes ok: "xdg_ok w" and xs: "xdg_surface_obj w = Some xs"
    and w': "w' = w\<lparr>xdg_surface_obj := Some xs', trace := t\<rparr>"
    and phases: "phases_ok w xs \<Longrightarrow> phases_ok w' xs'" and pointers: "pointers_ok w xs \<Longrightarrow> pointers_ok w xs'"
  shows "xdg_ok w'"
proof -
  have "phases_ok w xs" "pointers_ok w xs" using ok xs by (auto simp: xdg_ok_def)
  then have "phases_ok w' xs'" "pointers_ok w' xs'" using phases pointers by (auto simp: w' pointers_ok_def)
  then show ?thesis using ok by (simp add: w' xdg_ok_def roles_ok_def)
qed

lemma keep_configure:
  assumes ok: "xdg_ok w" and up: "update_xs (\<lambda>xs. xs\<lparr>isConfigured := True\<rparr>) (xdg_emit (SendConfigure s) w) = Some w'"
  shows "xdg_ok w'"
proof -
  obtain xs where xs: "xdg_surface_obj w = Some xs"
    and w': "w' = w\<lparr>xdg_surface_obj := Some (xs\<lparr>isConfigured := True\<rparr>), trace := SendConfigure s # trace w\<rparr>"
    using up by (auto simp: update_xs_def xdg_emit_def)
  show ?thesis using ok xs w'
    by (rule xdg_ok_surface) (simp_all add: w' phases_ok_def pointers_ok_def since_reset_def)
qed

lemma keep_send_configure:
  assumes "xdg_ok w"
  shows "XdgToplevel_sendConfigure i sz st v w = Some (n, w') \<Longrightarrow> xdg_ok w'"
    and "XdgPopup_sendConfigure i r w = Some (n, w') \<Longrightarrow> xdg_ok w'"
proof -
  have *: "xdg_ok (snd (wl_display_next_serial w))"
    using assms by (rule same_core_ok [rotated])
      (auto simp: same_core_def wl_display_next_serial_def Let_def rel_option_iff split: option.splits)
  show "XdgToplevel_sendConfigure i sz st v w = Some (n, w') \<Longrightarrow> xdg_ok w'"
    using * by (auto simp: XdgToplevel_sendConfigure_def Let_def emit_ok split: prod.splits if_splits
        elim!: keep_configure [rotated])
  show "XdgPopup_sendConfigure i r w = Some (n, w') \<Longrightarrow> xdg_ok w'"
    using * by (auto simp: XdgPopup_sendConfigure_def Let_def emit_ok split: prod.splits if_splits
        elim!: keep_configure [rotated])
qed

lemma keep_reset:
  assumes ok: "xdg_ok w" and run: "XdgSurface_reset w = Some w'"
  shows "xdg_ok w'"
proof -
  obtain xs where xs: "xdg_surface_obj w = Some xs"
    and w': "w' = w\<lparr>xdg_surface_obj := Some (xs\<lparr>firstBufferAttached := False, isConfigured := False,
      isInitialized := False, xs_windowGeometry := Rect_null\<rparr>), trace := SurfaceReset # trace w\<rparr>"
    using run by (auto simp: XdgSurface_reset_def update_xs_def xdg_emit_def)
  show ?thesis using ok xs w'
    by (rule xdg_ok_surface) (simp_all add: w' phases_ok_def pointers_ok_def since_reset_def)
qed

lemma keep_initialize:
  assumes ok: "xdg_ok w" and run: "XdgToplevel_initialize w = Some w'"
  shows "xdg_ok w'"
proof -
  obtain xs where xs: "xdg_surface_obj w = Some xs" using run by (auto simp: XdgToplevel_initialize_def bind_eq_Some_conv)
  show ?thesis
  proof (cases "isInitialized xs")
    case True
    then show ?thesis using run xs ok by (simp add: XdgToplevel_initialize_def)
  next
    case False
    then have w': "w' = (xdg_emit InitializeRequested w)\<lparr>xdg_surface_obj := Some (xs\<lparr>isInitialized := True\<rparr>)\<rparr>"
      using run xs by (simp add: XdgToplevel_initialize_def update_xs_def)
    have "phases_ok w xs" "pointers_ok w xs" using ok xs by (auto simp: xdg_ok_def)
    then have "phases_ok w' (xs\<lparr>isInitialized := True\<rparr>)" "pointers_ok w' (xs\<lparr>isInitialized := True\<rparr>)"
      using False by (auto simp: w' phases_ok_def pointers_ok_def since_reset_def xdg_emit_def count_list_0_iff)
    then show ?thesis using ok by (simp add: w' xdg_ok_def roles_ok_def)
  qed
qed

text \<open>A commit with a buffer is applied only to a configured surface.\<close>

lemma keep_surface_apply:
  assumes ok: "xdg_ok w" and xs: "xdg_surface_obj w = Some xs" and b: "surface_buffer w \<longrightarrow> isConfigured xs"
    and app: "XdgSurface_apply commit w = Some w'"
  shows "xdg_ok w' \<and> toplevels w' = toplevels w \<and> popups w' = popups w"
proof -
  define v where "v = (if surface_buffer w then w\<lparr>xdg_surface_obj := Some (xs\<lparr>firstBufferAttached := True\<rparr>)\<rparr> else w)"
  have v: "xdg_ok v" "toplevels v = toplevels w" "popups v = popups w" "xdg_surface_obj v \<noteq> None"
    using ok xs b by (auto simp: v_def xdg_ok_def phases_ok_def pointers_ok_def roles_ok_def since_reset_def)
  have up: "(if surface_buffer w then update_xs (\<lambda>xs. xs\<lparr>firstBufferAttached := True\<rparr>) w else Some w) = Some v"
    using xs by (simp add: v_def update_xs_def)
  define u where "u = (case cm_acknowledgedConfigure commit of None \<Rightarrow> v | Some n \<Rightarrow> xdg_emit (ConfigureAcknowledged n) v)"
  have u: "xdg_ok u" "toplevels u = toplevels w" "popups u = popups w"
    using v by (auto simp: u_def emit_ok split: option.splits)
  have "(case cm_windowGeometry commit of None \<Rightarrow> Some u
      | Some g \<Rightarrow> map_option (xdg_emit (WindowGeometryChanged g)) (update_xs (\<lambda>xs. xs\<lparr>xs_windowGeometry := g\<rparr>) u)) = Some w'"
    using app up unfolding u_def by (simp add: XdgSurface_apply_def Let_def)
  then show ?thesis using u
    by (auto simp: emit_ok update_xs_def split: option.splits)
      (auto simp: xdg_ok_def phases_ok_def pointers_ok_def roles_ok_def since_reset_def)
qed

lemma update_toplevel_ok:
  assumes "xdg_ok w" "update_toplevel i f w = Some w'"
    and "\<And>t. toplevels w i = Some t \<Longrightarrow> toplevel_ok (f t)"
  shows "xdg_ok w'"
  using assms
  by (auto simp: update_toplevel_def xdg_ok_def phases_ok_def pointers_ok_def roles_ok_def since_reset_def
      split: if_splits)

lemma keep_toplevel_reset: "xdg_ok w \<Longrightarrow> XdgToplevel_reset i w = Some w' \<Longrightarrow> xdg_ok w'"
  by (auto simp: XdgToplevel_reset_def bind_eq_Some_conv emit_ok toplevel_ok_def size_conflict_def
      dest: keep_reset elim!: update_toplevel_ok [rotated])

text \<open>The world differs only in the toplevels and in quiet signals.\<close>

definition only_toplevels :: "xdg_world \<Rightarrow> xdg_world \<Rightarrow> bool" where
  "only_toplevels w w' \<longleftrightarrow>
     (\<forall>xs. phases_ok w' xs = phases_ok w xs) \<and> xdg_surface_obj w' = xdg_surface_obj w \<and>
     surface_role w' = surface_role w \<and> popups w' = popups w"

lemma only_toplevels_refl [simp]: "only_toplevels w w"
  by (simp add: only_toplevels_def)

lemma only_toplevels_emit:
  "quiet e \<Longrightarrow> only_toplevels w (xdg_emit e (w\<lparr>toplevels := f\<rparr>))"
  by (auto simp: only_toplevels_def phases_ok_def since_reset_def xdg_emit_def quiet_def simp del: is_configure_code)

lemma only_toplevels_trans: "only_toplevels w w' \<Longrightarrow> only_toplevels w' w'' \<Longrightarrow> only_toplevels w w''"
  by (simp add: only_toplevels_def)

lemma update_minimumSize_toplevels:
  assumes "update_minimumSize i c w = Some w'" "toplevels w i = Some t"
  shows "only_toplevels w w' \<and> toplevels w' = (toplevels w)
    (i \<mapsto> t\<lparr>tl_minimumSize := (case cm_minimumSize c of None \<Rightarrow> tl_minimumSize t | Some m \<Rightarrow> m)\<rparr>)"
  using assms
  by (auto simp: update_minimumSize_def update_toplevel_def only_toplevels_emit fun_eq_iff split: option.splits if_splits)

lemma update_maximumSize_toplevels:
  assumes "update_maximumSize i c w = Some w'" "toplevels w i = Some t"
  shows "only_toplevels w w' \<and> toplevels w' = (toplevels w)
    (i \<mapsto> t\<lparr>tl_maximumSize := (case cm_maximumSize c of None \<Rightarrow> tl_maximumSize t | Some m \<Rightarrow> m)\<rparr>)"
  using assms
  by (auto simp: update_maximumSize_def update_toplevel_def only_toplevels_emit fun_eq_iff split: option.splits if_splits)

lemma only_toplevels_ok:
  assumes "xdg_ok w" "only_toplevels w w'" "toplevels w' = (toplevels w)(i \<mapsto> t)" "toplevels w i \<noteq> None" "toplevel_ok t"
  shows "xdg_ok w'"
  using assms by (auto simp: xdg_ok_def only_toplevels_def pointers_ok_def roles_ok_def)

lemma keep_toplevel_apply:
  assumes ok: "xdg_ok w" and app: "XdgToplevel_apply i commit w = Some w'"
  shows "xdg_ok w'"
proof -
  obtain xs where xs: "xdg_surface_obj w = Some xs" using app by (auto simp: XdgToplevel_apply_def bind_eq_Some_conv)
  consider (unconfigured) "surface_buffer w" "\<not> isConfigured xs"
    | (unmapped) "\<not> surface_buffer w" "firstBufferAttached xs"
    | (go) "surface_buffer w \<longrightarrow> isConfigured xs" "\<not> surface_buffer w \<longrightarrow> \<not> firstBufferAttached xs"
    by blast
  then show ?thesis
  proof cases
    case unconfigured
    then show ?thesis using app xs ok by (auto simp: XdgToplevel_apply_def emit_ok split: if_splits)
  next
    case unmapped
    then show ?thesis using app xs ok by (auto simp: XdgToplevel_apply_def dest: keep_toplevel_reset split: if_splits)
  next
    case go
    obtain w1 where w1: "XdgSurface_apply commit w = Some w1"
      using app xs go by (auto simp: XdgToplevel_apply_def bind_eq_Some_conv split: if_splits)
    then have ok1: "xdg_ok w1" using keep_surface_apply [OF ok xs go(1)] by blast
    obtain t where t: "toplevels w1 i = Some t"
      using app xs go w1 by (auto simp: XdgToplevel_apply_def bind_eq_Some_conv split: if_splits)
    let ?mn = "case cm_minimumSize commit of None \<Rightarrow> tl_minimumSize t | Some s \<Rightarrow> s"
    let ?mx = "case cm_maximumSize commit of None \<Rightarrow> tl_maximumSize t | Some s \<Rightarrow> s"
    show ?thesis
    proof (cases "size_conflict (fst ?mn) (fst ?mx) \<or> size_conflict (snd ?mn) (snd ?mx)")
      case True
      then have "w' = xdg_emit (PostError err_invalid_size) w1"
        using app xs go w1 t by (auto simp: XdgToplevel_apply_def Let_def split: if_splits)
      then show ?thesis using ok1 by (simp add: emit_ok)
    next
      case False
      then obtain w2 w3 where w2: "update_minimumSize i commit w1 = Some w2"
        and w3: "update_maximumSize i commit w2 = Some w3" and fin: "XdgToplevel_initialize w3 = Some w'"
        using app xs go w1 t by (auto simp: XdgToplevel_apply_def Let_def bind_eq_Some_conv split: if_splits)
      note m = update_minimumSize_toplevels [OF w2 t]
      then have m': "toplevels w2 i = Some (t\<lparr>tl_minimumSize := ?mn\<rparr>)" by simp
      note x = update_maximumSize_toplevels [OF w3 m']
      have "only_toplevels w1 w3" using m x by (blast intro: only_toplevels_trans)
      moreover have "toplevels w3 = (toplevels w1)(i \<mapsto> t\<lparr>tl_minimumSize := ?mn, tl_maximumSize := ?mx\<rparr>)"
        using m x by (simp cong: option.case_cong)
      ultimately have "xdg_ok w3"
        by (rule only_toplevels_ok [OF ok1]) (use t False in \<open>simp_all add: toplevel_ok_def\<close>)
      then show ?thesis using fin by (rule keep_initialize)
    qed
  qed
qed

lemma keep_popup_apply:
  assumes ok: "xdg_ok w" and app: "XdgPopup_apply i commit w = Some w'"
  shows "xdg_ok w'"
proof -
  obtain p xs where p: "popups w i = Some p" and xs: "xdg_surface_obj w = Some xs"
    using app by (auto simp: XdgPopup_apply_def bind_eq_Some_conv)
  consider (error) "w' = xdg_emit (PostError err_invalid_popup_parent) w \<or> w' = xdg_emit (PostError err_unconfigured_buffer) w"
    | (unmapped) "XdgSurface_reset w = Some w'"
    | (go) w1 where "surface_buffer w \<longrightarrow> isConfigured xs" "XdgSurface_apply commit w = Some w1"
        "XdgToplevel_initialize w1 = Some w'"
    using app p xs by (auto simp: XdgPopup_apply_def bind_eq_Some_conv split: if_splits)
  then show ?thesis
  proof cases
    case error
    then show ?thesis using ok by (auto simp: emit_ok)
  next
    case unmapped
    then show ?thesis using ok by (blast intro: keep_reset)
  next
    case go
    then show ?thesis using keep_surface_apply [OF ok xs go(1)] by (blast intro: keep_initialize)
  qed
qed

section \<open>What both roles promise\<close>

text \<open>
  Toplevels and popups share the contract of a role: applying a commit keeps the invariant, and a
  buffer that comes before the first configure event is refused without any effect on the objects.
\<close>

locale xdg_role =
  fixes role_apply :: "'c \<Rightarrow> xdg_world \<Rightarrow> xdg_world option"
  assumes keeps: "xdg_ok w \<Longrightarrow> role_apply c w = Some w' \<Longrightarrow> xdg_ok w'"
    and refuses: "xdg_surface_obj w = Some xs \<Longrightarrow> surface_buffer w \<Longrightarrow> \<not> isConfigured xs \<Longrightarrow>
      role_apply c w = Some w' \<Longrightarrow> \<exists>x. w' = xdg_emit (PostError x) w"
begin

lemma commits_keep:
  "xdg_ok w \<Longrightarrow> foldl (\<lambda>v c. v \<bind> role_apply c) (Some w) cs = Some w' \<Longrightarrow> xdg_ok w'"
proof (induction cs arbitrary: w' rule: rev_induct)
  case (snoc c cs)
  then show ?case by (auto simp: bind_eq_Some_conv intro: keeps)
qed simp

lemma commits_refused:
  assumes "xdg_surface_obj w = Some xs" "surface_buffer w" "\<not> isConfigured xs"
  shows "foldl (\<lambda>v c. v \<bind> role_apply c) (Some w) cs = Some w' \<Longrightarrow>
    \<exists>es. w' = w\<lparr>trace := map PostError es @ trace w\<rparr>"
proof (induction cs arbitrary: w' rule: rev_induct)
  case Nil
  then show ?case by (auto intro!: exI [of _ "[]"])
next
  case (snoc c cs)
  then obtain v es where v: "role_apply c v = Some w'" "v = w\<lparr>trace := map PostError es @ trace w\<rparr>"
    by (auto simp: bind_eq_Some_conv)
  with assms obtain x where "w' = xdg_emit (PostError x) v" using refuses [of v xs c w'] by auto
  then have "w' = w\<lparr>trace := map PostError (x # es) @ trace w\<rparr>" by (simp add: v(2) xdg_emit_def)
  then show ?case by blast
qed

end

interpretation toplevel_role: xdg_role "XdgToplevel_apply i" for i
proof unfold_locales
  show "xdg_ok w \<Longrightarrow> XdgToplevel_apply i c w = Some w' \<Longrightarrow> xdg_ok w'" for w c w'
    by (rule keep_toplevel_apply)
  show "\<exists>x. w' = xdg_emit (PostError x) w"
    if "xdg_surface_obj w = Some xs" "surface_buffer w" "\<not> isConfigured xs" "XdgToplevel_apply i c w = Some w'"
    for w xs c w'
    using that by (auto simp: XdgToplevel_apply_def split: if_splits)
qed

interpretation popup_role: xdg_role "XdgPopup_apply i" for i
proof unfold_locales
  show "xdg_ok w \<Longrightarrow> XdgPopup_apply i c w = Some w' \<Longrightarrow> xdg_ok w'" for w c w'
    by (rule keep_popup_apply)
  show "\<exists>x. w' = xdg_emit (PostError x) w"
    if "xdg_surface_obj w = Some xs" "surface_buffer w" "\<not> isConfigured xs" "XdgPopup_apply i c w = Some w'"
    for w xs c w'
    using that by (auto simp: XdgPopup_apply_def bind_eq_Some_conv split: if_splits)
qed

lemma keep_applied:
  assumes "xdg_ok w"
  shows "apply_toplevel i b w = Some w' \<Longrightarrow> xdg_ok w'" and "apply_popup i b w = Some w' \<Longrightarrow> xdg_ok w'"
proof -
  assume *: "apply_toplevel i b w = Some w'"
  show "xdg_ok w'"
  proof (cases "\<exists>t c cs. toplevels w i = Some t \<and> tl_committed t = c # cs")
    case True
    then obtain t c cs where t: "toplevels w i = Some t" "tl_committed t = c # cs" by blast
    have "xdg_ok (w\<lparr>toplevels := (toplevels w)(i \<mapsto> t\<lparr>tl_committed := cs\<rparr>), surface_buffer := b\<rparr>)"
      using assms by (rule same_core_ok [rotated]) (auto simp: same_core_def t rel_option_iff split: option.splits)
    then show ?thesis using * t by (auto simp: apply_toplevel_def dest: toplevel_role.keeps)
  qed (use * assms in \<open>auto simp: apply_toplevel_def split: option.splits list.splits\<close>)
next
  assume *: "apply_popup i b w = Some w'"
  show "xdg_ok w'"
  proof (cases "\<exists>p c cs. popups w i = Some p \<and> pp_committed p = c # cs")
    case True
    then obtain p c cs where p: "popups w i = Some p" "pp_committed p = c # cs" by blast
    have "xdg_ok (w\<lparr>popups := (popups w)(i \<mapsto> p\<lparr>pp_committed := cs\<rparr>), surface_buffer := b\<rparr>)"
      using assms by (rule same_core_ok [rotated]) (auto simp: same_core_def p rel_option_iff split: option.splits)
    then show ?thesis using * p by (auto simp: apply_popup_def dest: popup_role.keeps)
  qed (use * assms in \<open>auto simp: apply_popup_def split: option.splits list.splits\<close>)
qed

lemma keep_commit_roles: "xdg_ok w \<Longrightarrow> xdg_ok (commit_roles w)"
  by (rule same_core_ok [rotated])
    (auto simp: same_core_def commit_roles_def rel_option_iff split: option.splits)

lemma xdg_okI:
  assumes "xdg_surface_obj w = Some xs" "phases_ok w xs" "pointers_ok w xs"
    and "\<And>i t. toplevels w i = Some t \<Longrightarrow> toplevel_ok t" and "roles_ok w"
  shows "xdg_ok w"
  using assms by (simp add: xdg_ok_def)

lemma xdg_okD:
  assumes "xdg_ok w" "xdg_surface_obj w = Some xs"
  shows "phases_ok w xs" "pointers_ok w xs" "\<And>i t. toplevels w i = Some t \<Longrightarrow> toplevel_ok t" "roles_ok w"
  using assms by (auto simp: xdg_ok_def)

lemma phases_ok_trace: "trace w' = trace w \<Longrightarrow> phases_ok w' xs = phases_ok w xs"
  by (simp add: phases_ok_def since_reset_def)

lemma phases_ok_pointers [simp]:
  "phases_ok w (xs\<lparr>xs_pending := p\<rparr>) = phases_ok w xs"
  "phases_ok w (xs\<lparr>xs_toplevel := i\<rparr>) = phases_ok w xs"
  "phases_ok w (xs\<lparr>xs_popup := i\<rparr>) = phases_ok w xs"
  by (simp_all add: phases_ok_def)

text \<open>A new role object, which becomes the current one.\<close>

lemma keep_new_toplevel:
  assumes ok: "xdg_ok w" and role: "surface_role w = None \<or> surface_role w = Some XdgToplevelInterface_role"
    and new: "XdgToplevelInterface_new i (surface_nextRoleGeneration
      (w\<lparr>surface_role := Some XdgToplevelInterface_role\<rparr>)) = Some w'"
  shows "xdg_ok w'"
proof -
  obtain xs where xs: "xdg_surface_obj w = Some xs" and w': "w' = (surface_nextRoleGeneration
      (w\<lparr>surface_role := Some XdgToplevelInterface_role\<rparr>))\<lparr>toplevels := (toplevels w)(i \<mapsto> XdgToplevelPrivate_new),
        xdg_surface_obj := Some (xs\<lparr>xs_toplevel := Some i, xs_pending := Some (Toplevel i)\<rparr>)\<rparr>"
    using new by (auto simp: XdgToplevelInterface_new_def update_xs_def surface_nextRoleGeneration_def)
  note old = xdg_okD [OF ok xs]
  show ?thesis
  proof (rule xdg_okI)
    show "xdg_surface_obj w' = Some (xs\<lparr>xs_toplevel := Some i, xs_pending := Some (Toplevel i)\<rparr>)"
      by (simp add: w')
    show "phases_ok w' (xs\<lparr>xs_toplevel := Some i, xs_pending := Some (Toplevel i)\<rparr>)"
      using old(1) phases_ok_trace [of w' w] by (simp add: w' surface_nextRoleGeneration_def)
    show "pointers_ok w' (xs\<lparr>xs_toplevel := Some i, xs_pending := Some (Toplevel i)\<rparr>)"
      using old(2) by (simp add: w' pointers_ok_def surface_nextRoleGeneration_def)
    show "toplevel_ok t" if "toplevels w' j = Some t" for j t
      using that old(3) [of j t]
      by (auto simp: w' toplevel_ok_def XdgToplevelPrivate_new_def size_conflict_def split: if_splits)
    show "roles_ok w'" using old(4) role by (auto simp: w' roles_ok_def surface_nextRoleGeneration_def)
  qed
qed

lemma keep_new_popup:
  assumes ok: "xdg_ok w" and role: "surface_role w = None \<or> surface_role w = Some XdgPopupInterface_role"
    and new: "XdgPopupInterface_new i pr q (surface_nextRoleGeneration
      (w\<lparr>surface_role := Some XdgPopupInterface_role\<rparr>)) = Some w'"
  shows "xdg_ok w'"
proof -
  obtain xs p where xs: "xdg_surface_obj w = Some xs" and w': "w' = (surface_nextRoleGeneration
      (w\<lparr>surface_role := Some XdgPopupInterface_role\<rparr>))\<lparr>popups := (popups w)(i \<mapsto> p),
        xdg_surface_obj := Some (xs\<lparr>xs_popup := Some i, xs_pending := Some (Popup i)\<rparr>)\<rparr>"
    using new by (auto simp: XdgPopupInterface_new_def update_xs_def surface_nextRoleGeneration_def Let_def)
  note old = xdg_okD [OF ok xs]
  show ?thesis
  proof (rule xdg_okI)
    show "xdg_surface_obj w' = Some (xs\<lparr>xs_popup := Some i, xs_pending := Some (Popup i)\<rparr>)"
      by (simp add: w')
    show "phases_ok w' (xs\<lparr>xs_popup := Some i, xs_pending := Some (Popup i)\<rparr>)"
      using old(1) phases_ok_trace [of w' w] by (simp add: w' surface_nextRoleGeneration_def)
    show "pointers_ok w' (xs\<lparr>xs_popup := Some i, xs_pending := Some (Popup i)\<rparr>)"
      using old(2) by (simp add: w' pointers_ok_def surface_nextRoleGeneration_def)
    show "toplevel_ok t" if "toplevels w' j = Some t" for j t
      using that old(3) [of j t] by (simp add: w' surface_nextRoleGeneration_def)
    show "roles_ok w'" using old(4) role by (auto simp: w' roles_ok_def surface_nextRoleGeneration_def)
  qed
qed

lemma keep_creation:
  assumes ok: "xdg_ok w"
  shows "xdg_surface_get_toplevel i w = Some w' \<Longrightarrow> xdg_ok w'"
    and "xdg_surface_get_popup i parent q w = Some w' \<Longrightarrow> xdg_ok w'"
proof -
  show "xdg_surface_get_toplevel i w = Some w' \<Longrightarrow> xdg_ok w'"
    using ok keep_new_toplevel [OF ok]
    by (auto simp: xdg_surface_get_toplevel_def bind_eq_Some_conv emit_ok split: if_splits)
  have only_role: "xdg_ok w1"
    if w1: "w1 = surface_nextRoleGeneration (w\<lparr>surface_role := Some XdgPopupInterface_role\<rparr>)"
      and role: "surface_role w = None \<or> surface_role w = Some XdgPopupInterface_role" and xs: "xdg_surface_obj w = Some xs"
    for xs w1
  proof (rule xdg_okI [of _ xs])
    show "phases_ok w1 xs" using xdg_okD(1) [OF ok xs] phases_ok_trace [of w1 w]
      by (simp add: w1 surface_nextRoleGeneration_def)
    show "pointers_ok w1 xs" using xdg_okD(2) [OF ok xs]
      by (simp add: w1 surface_nextRoleGeneration_def pointers_ok_def)
    show "roles_ok w1" using xdg_okD(4) [OF ok xs] role
      by (auto simp: w1 surface_nextRoleGeneration_def roles_ok_def)
    show "toplevel_ok t" if "toplevels w1 j = Some t" for j t
      using that xdg_okD(3) [OF ok xs] by (simp add: w1 surface_nextRoleGeneration_def)
  qed (simp add: w1 xs surface_nextRoleGeneration_def)
  show "xdg_surface_get_popup i parent q w = Some w' \<Longrightarrow> xdg_ok w'"
    using ok keep_new_popup [OF ok] only_role [OF refl]
    by (auto simp: xdg_surface_get_popup_def bind_eq_Some_conv emit_ok Let_def split: if_splits option.splits)
qed

lemma keep_toplevel_deletion:
  assumes ok: "xdg_ok w" and del: "XdgToplevelInterface_delete i w = Some w'"
  shows "xdg_ok w'"
proof -
  define v where "v = xdg_emit (RoleAboutToBeDestroyed (Toplevel i)) (if surface_alive w then surface_nextRoleGeneration w else w)"
  have "same_core w (if surface_alive w then surface_nextRoleGeneration w else w)"
    by (auto simp: same_core_def surface_nextRoleGeneration_def rel_option_iff split: option.splits)
  then have v: "xdg_ok v" using ok same_core_ok by (simp add: v_def emit_ok)
  obtain xs where xs: "xdg_surface_obj v = Some xs"
    and w': "w' = forget_toplevel i (v\<lparr>xdg_surface_obj := Some (xs\<lparr>xs_toplevel := None, xs_pending := None\<rparr>),
      toplevels := (toplevels v)(i := None)\<rparr>)"
    using del unfolding XdgToplevelInterface_delete_def Let_def
    by (auto simp: v_def [symmetric] update_xs_def bind_eq_Some_conv)
  note old = xdg_okD [OF v xs]
  show ?thesis
  proof (rule xdg_okI)
    show "xdg_surface_obj w' = Some (xs\<lparr>xs_toplevel := None, xs_pending := None\<rparr>)"
      by (simp add: w' forget_toplevel_def)
    show "phases_ok w' (xs\<lparr>xs_toplevel := None, xs_pending := None\<rparr>)"
      using old(1) phases_ok_trace [of w' v] by (simp add: w' forget_toplevel_def)
    show "pointers_ok w' (xs\<lparr>xs_toplevel := None, xs_pending := None\<rparr>)"
      using old(2) by (simp add: w' pointers_ok_def forget_toplevel_def)
    show "toplevel_ok t" if t: "toplevels w' j = Some t" for j t
    proof -
      obtain t' where "toplevels v j = Some t'"
        "tl_minimumSize t = tl_minimumSize t'" "tl_maximumSize t = tl_maximumSize t'"
        using t by (auto simp: w' forget_toplevel_def split: if_splits)
      then show ?thesis using old(3) by (fastforce simp: toplevel_ok_def)
    qed
    show "roles_ok w'" using old(4) by (auto simp: w' roles_ok_def forget_toplevel_def split: if_splits)
  qed
qed

lemma keep_popup_deletion:
  assumes ok: "xdg_ok w" and del: "XdgPopupInterface_delete i w = Some w'"
  shows "xdg_ok w'"
proof -
  define v where "v = xdg_emit (RoleAboutToBeDestroyed (Popup i)) (if surface_alive w then surface_nextRoleGeneration w else w)"
  have "same_core w (if surface_alive w then surface_nextRoleGeneration w else w)"
    by (auto simp: same_core_def surface_nextRoleGeneration_def rel_option_iff split: option.splits)
  then have v: "xdg_ok v" using ok same_core_ok by (simp add: v_def emit_ok)
  obtain xs where xs: "xdg_surface_obj v = Some xs"
    and w': "w' = v\<lparr>xdg_surface_obj := Some (xs\<lparr>xs_popup := None, xs_pending := None\<rparr>), popups := (popups v)(i := None)\<rparr>"
    using del unfolding XdgPopupInterface_delete_def Let_def
    by (auto simp: v_def [symmetric] update_xs_def bind_eq_Some_conv)
  note old = xdg_okD [OF v xs]
  show ?thesis
  proof (rule xdg_okI)
    show "xdg_surface_obj w' = Some (xs\<lparr>xs_popup := None, xs_pending := None\<rparr>)" by (simp add: w')
    show "phases_ok w' (xs\<lparr>xs_popup := None, xs_pending := None\<rparr>)"
      using old(1) phases_ok_trace [of w' v] by (simp add: w')
    show "pointers_ok w' (xs\<lparr>xs_popup := None, xs_pending := None\<rparr>)"
      using old(2) by (simp add: w' pointers_ok_def)
    show "toplevel_ok t" if "toplevels w' j = Some t" for j t using that old(3) [of j t] by (simp add: w')
    show "roles_ok w'" using old(4) by (auto simp: w' roles_ok_def)
  qed
qed

lemmas keep_deletion = keep_toplevel_deletion keep_popup_deletion

lemma keep_surface_deletion:
  assumes "xdg_ok w" "XdgSurfaceInterface_delete w = Some w'"
  shows "xdg_ok w'"
proof -
  obtain xs w1 w2 where "xdg_surface_obj w = Some xs"
    and w1: "(case xs_toplevel xs of None \<Rightarrow> Some w | Some i \<Rightarrow> XdgToplevelInterface_delete i w) = Some w1"
    and w2: "(case xs_popup xs of None \<Rightarrow> Some w1 | Some i \<Rightarrow> XdgPopupInterface_delete i w1) = Some w2"
    and w': "w' = (xdg_emit SurfaceAboutToBeDestroyed w2)\<lparr>xdg_surface_obj := None\<rparr>"
    using assms(2) by (auto simp: XdgSurfaceInterface_delete_def bind_eq_Some_conv)
  have "xdg_ok w1" using w1 assms(1) by (auto split: option.splits dest: keep_deletion)
  then have "xdg_ok w2" using w2 by (auto split: option.splits dest: keep_deletion)
  then show ?thesis by (auto simp: w' xdg_ok_def roles_ok_def)
qed

lemma keep_step:
  assumes "xdg_ok w" "xdg_possible e w" "run_xdg e w = Some w'"
  shows "xdg_ok w'"
proof -
  have same: "xdg_ok v" if "same_core w v" for v using that assms(1) by (rule same_core_ok)
  note ok = assms(1)
  note keeps = keep_set_size [OF ok] keep_commit_requests [OF ok] keep_fields [OF ok] keep_outputs [OF ok]
    keep_send_configure [OF ok] keep_applied [OF ok] keep_creation [OF ok] keep_deletion [OF ok]
    keep_surface_deletion [OF ok]
  show ?thesis
  proof (cases e)
    case (Set_tag i s s')
    then show ?thesis using assms
      by (auto simp: on_toplevel_def dest: same_core_ok [OF update_toplevel_same] split: if_splits)
  next
    case (Set_icon i c)
    then show ?thesis using assms
      by (auto simp: on_toplevel_def dest: same_core_ok [OF update_toplevel_same] split: if_splits)
  next
    case Destroy_surface
    then show ?thesis using assms by (auto simp: same_core_def rel_option_iff split: option.splits intro!: same)
  next
    case (Scale_changed s t)
    then show ?thesis using assms by (auto simp: same_core_def rel_option_iff split: option.splits intro!: same)
  next
    case Next_serial
    then show ?thesis using assms
      by (auto simp: same_core_def wl_display_next_serial_def Let_def rel_option_iff split: option.splits intro!: same)
  next
    case Commit_surface
    then show ?thesis using assms by (auto intro: keep_commit_roles)
  qed (use assms in \<open>auto simp: on_toplevel_def on_popup_def on_xdg_surface_def dest: keeps split: if_splits\<close>)
qed

lemma xdg_new_ok: "xdg_ok (xdg_world_new role buffer scale toClient serial)"
  by (simp add: xdg_ok_def xdg_world_new_def phases_ok_def pointers_ok_def roles_ok_def since_reset_def
      XdgSurfacePrivate_new_def)

lemma xdg_reachable_ok: "xdg_reachable w \<Longrightarrow> xdg_ok w"
  by (induction rule: xdg_reachable.induct) (auto simp: xdg_new_ok intro: keep_step)

end
