(* ===== verification/XdgPlacement.thy ===== *)
theory XdgPlacement
  imports XdgPositioner
begin

text \<open>
  What the requests of a positioner accept, and where \<open>placement\<close> puts a popup. The reference
  definition \<open>place_axis\<close> places an interval on one axis: it may be replaced by its flipped
  position, moved into the bounds and cut to the bounds. The two axes are independent
  (\<open>placement_per_axis\<close>), so the bounds of the result are proved for one axis
  (\<open>place_axis_fits\<close>).
\<close>

section \<open>Runs of requests\<close>

datatype positioner_request =
    Set_size int int
  | Set_anchor_rect int int int int
  | Set_anchor "32 word"
  | Set_gravity "32 word"
  | Set_constraint_adjustment "32 word"
  | Set_offset int int
  | Set_reactive
  | Set_parent_size int int
  | Set_parent_configure "32 word"

fun positioner_step :: "positioner_request \<Rightarrow> positioner_data \<Rightarrow> positioner_error + positioner_data" where
  "positioner_step (Set_size w h) d = xdg_positioner_set_size w h d"
| "positioner_step (Set_anchor_rect x y w h) d = xdg_positioner_set_anchor_rect x y w h d"
| "positioner_step (Set_anchor a) d = xdg_positioner_set_anchor a d"
| "positioner_step (Set_gravity g) d = xdg_positioner_set_gravity g d"
| "positioner_step (Set_constraint_adjustment c) d =
     Inr (xdg_positioner_set_constraint_adjustment c d)"
| "positioner_step (Set_offset x y) d = Inr (xdg_positioner_set_offset x y d)"
| "positioner_step Set_reactive d = Inr (xdg_positioner_set_reactive d)"
| "positioner_step (Set_parent_size w h) d = Inr (xdg_positioner_set_parent_size w h d)"
| "positioner_step (Set_parent_configure s) d = Inr (xdg_positioner_set_parent_configure s d)"

text \<open>An error ends the connection of the client.\<close>

fun positioner_run :: "positioner_request list \<Rightarrow> positioner_data \<Rightarrow> positioner_error + positioner_data" where
  "positioner_run [] d = Inr d"
| "positioner_run (r # rs) d =
     (case positioner_step r d of Inl e \<Rightarrow> Inl e | Inr d' \<Rightarrow> positioner_run rs d')"

text \<open>The requests that the protocol allows.\<close>

fun legal_request :: "positioner_request \<Rightarrow> bool" where
  "legal_request (Set_size w h) \<longleftrightarrow> 1 \<le> w \<and> 1 \<le> h"
| "legal_request (Set_anchor_rect x y w h) \<longleftrightarrow> 1 \<le> w \<and> 1 \<le> h"
| "legal_request (Set_anchor a) \<longleftrightarrow> a \<le> 8"
| "legal_request (Set_gravity g) \<longleftrightarrow> g \<le> 8"
| "legal_request _ \<longleftrightarrow> True"

lemmas positioner_request_defs =
  xdg_positioner_set_size_def xdg_positioner_set_anchor_rect_def xdg_positioner_set_anchor_def
  xdg_positioner_set_gravity_def xdg_positioner_set_constraint_adjustment_def
  xdg_positioner_set_offset_def xdg_positioner_set_reactive_def xdg_positioner_set_parent_size_def
  xdg_positioner_set_parent_configure_def

lemma positioner_step_legal:
  "(\<exists>d'. positioner_step r d = Inr d') \<longleftrightarrow> legal_request r"
  by (cases r) (auto simp: positioner_request_defs anchor_bottom_right_def not_less)

lemma positioner_run_legal:
  "(\<exists>d'. positioner_run rs d = Inr d') \<longleftrightarrow> (\<forall>r\<in>set rs. legal_request r)"
proof (induction rs arbitrary: d)
  case (Cons r rs)
  then show ?case using positioner_step_legal [of r d]
    by (cases "positioner_step r d") auto
qed simp

lemma positioner_run_append:
  "positioner_run (rs @ rs') d =
     (case positioner_run rs d of Inl e \<Rightarrow> Inl e | Inr d' \<Rightarrow> positioner_run rs' d')"
  by (induction rs arbitrary: d) (auto split: sum.splits)

text \<open>What every accepted run keeps: the sizes are unset or positive, no edge is opposed.\<close>

definition opposed :: "Edge set \<Rightarrow> bool" where
  "opposed E \<longleftrightarrow> {LeftEdge, RightEdge} \<subseteq> E \<or> {TopEdge, BottomEdge} \<subseteq> E"

definition positioner_ok :: "positioner_data \<Rightarrow> bool" where
  "positioner_ok d \<longleftrightarrow>
     (pd_size d = (-1, -1) \<or> 1 \<le> fst (pd_size d) \<and> 1 \<le> snd (pd_size d)) \<and>
     (pd_anchorRect d = Rect_null \<or> Rect_isValid (pd_anchorRect d)) \<and>
     \<not> opposed (anchorEdges d) \<and> \<not> opposed (gravityEdges d)"

lemma edges_of_not_opposed [simp]: "\<not> opposed (edges_of a)"
  by (simp add: edges_of_def opposed_def)

lemma positioner_ok_new [simp]: "positioner_ok (XdgPositionerData_new u)"
  by (simp add: positioner_ok_def XdgPositionerData_new_def opposed_def)

lemma positioner_ok_step: "positioner_step r d = Inr d' \<Longrightarrow> positioner_ok d \<Longrightarrow> positioner_ok d'"
  by (cases r) (auto simp: positioner_request_defs positioner_ok_def rect_defs Let_def split: if_splits)

lemma positioner_ok_run: "positioner_run rs d = Inr d' \<Longrightarrow> positioner_ok d \<Longrightarrow> positioner_ok d'"
  by (induction rs arbitrary: d) (auto split: sum.splits dest: positioner_ok_step)

definition sized :: "positioner_data \<Rightarrow> bool" where
  "sized d \<longleftrightarrow> pd_size d \<noteq> (-1, -1)"

definition anchored :: "positioner_data \<Rightarrow> bool" where
  "anchored d \<longleftrightarrow> Rect_isValid (pd_anchorRect d)"

fun sizes :: "positioner_request \<Rightarrow> bool" where
  "sizes (Set_size w h) = True"
| "sizes _ = False"

fun anchors :: "positioner_request \<Rightarrow> bool" where
  "anchors (Set_anchor_rect x y w h) = True"
| "anchors _ = False"

lemma step_sized: "positioner_step r d = Inr d' \<Longrightarrow> sized d' \<longleftrightarrow> sizes r \<or> sized d"
  by (cases r) (auto simp: positioner_request_defs sized_def Let_def split: if_splits)

lemma step_anchored: "positioner_step r d = Inr d' \<Longrightarrow> anchored d' \<longleftrightarrow> anchors r \<or> anchored d"
  by (cases r) (auto simp: positioner_request_defs anchored_def rect_defs Let_def split: if_splits)

lemma run_sized: "positioner_run rs d = Inr d' \<Longrightarrow> sized d' \<longleftrightarrow> (\<exists>r\<in>set rs. sizes r) \<or> sized d"
  by (induction rs arbitrary: d) (auto split: sum.splits dest: step_sized)

lemma run_anchored:
  "positioner_run rs d = Inr d' \<Longrightarrow> anchored d' \<longleftrightarrow> (\<exists>r\<in>set rs. anchors r) \<or> anchored d"
  by (induction rs arbitrary: d) (auto split: sum.splits dest: step_anchored)

lemma isComplete_iff:
  assumes "positioner_ok d"
  shows "XdgPositioner_isComplete (XdgPositioner_of d) \<longleftrightarrow> sized d \<and> anchored d"
  using assms
  by (auto simp: XdgPositioner_isComplete_def XdgPositioner_of_def positioner_ok_def sized_def anchored_def)

text \<open>
  A positioner accepts exactly the requests that the protocol allows: a run of requests ends
  with a protocol error if and only if one of them has a size below 1 or an unknown anchor or
  gravity. After an accepted run the positioner is complete if and only if its size and its
  anchor rectangle were set, a complete positioner has a positive size, and neither the anchor
  nor the gravity has opposite edges.
\<close>
lemma positioner_requests:
  fixes rs :: "positioner_request list" and u :: "32 word"
  defines "res \<equiv> positioner_run rs (XdgPositionerData_new u)"
  shows "(\<exists>e. res = Inl e) = (\<exists>r\<in>set rs. \<not> legal_request r) \<and>
    (case res of Inl e \<Rightarrow> True
     | Inr d \<Rightarrow> XdgPositioner_isComplete (XdgPositioner_of d) =
                 ((\<exists>w h. Set_size w h \<in> set rs) \<and> (\<exists>x y w h. Set_anchor_rect x y w h \<in> set rs)) \<and>
               (fst (pd_size d) \<ge> 1 \<and> snd (pd_size d) \<ge> 1 \<or>
                \<not> XdgPositioner_isComplete (XdgPositioner_of d)) \<and>
               \<not> opposed (anchorEdges d) \<and> \<not> opposed (gravityEdges d))"
proof (cases res)
  case (Inl e)
  then show ?thesis using positioner_run_legal [of rs "XdgPositionerData_new u"]
    by (auto simp: res_def)
next
  case (Inr d)
  have ok: "positioner_ok d" using Inr positioner_ok_run by (auto simp: res_def)
  have "sized d \<longleftrightarrow> (\<exists>r\<in>set rs. sizes r)"
    using run_sized [of rs "XdgPositionerData_new u" d] Inr
    by (simp add: res_def sized_def XdgPositionerData_new_def)
  also have "\<dots> \<longleftrightarrow> (\<exists>w h. Set_size w h \<in> set rs)"
    by (metis sizes.elims(2) sizes.simps(1))
  finally have s: "sized d \<longleftrightarrow> (\<exists>w h. Set_size w h \<in> set rs)" .
  have "anchored d \<longleftrightarrow> (\<exists>r\<in>set rs. anchors r)"
    using run_anchored [of rs "XdgPositionerData_new u" d] Inr
    by (simp add: res_def anchored_def XdgPositionerData_new_def rect_defs)
  also have "\<dots> \<longleftrightarrow> (\<exists>x y w h. Set_anchor_rect x y w h \<in> set rs)"
    by (metis anchors.elims(2) anchors.simps(1))
  finally have a: "anchored d \<longleftrightarrow> (\<exists>x y w h. Set_anchor_rect x y w h \<in> set rs)" .
  have "\<forall>r\<in>set rs. legal_request r"
    using positioner_run_legal [of rs "XdgPositionerData_new u"] Inr by (auto simp: res_def)
  then show ?thesis using Inr ok s a isComplete_iff [OF ok]
    by (auto simp: positioner_ok_def sized_def)
qed

lemma positioner_requests_witness:
  "positioner_run [Set_size 3 2, Set_anchor 6, Set_anchor_rect 0 0 1 1, Set_size 4 5]
     (XdgPositionerData_new 0) =
   Inr ((XdgPositionerData_new 0)\<lparr>pd_size := (4, 5), anchorEdges := {BottomEdge, LeftEdge},
     pd_anchorRect := Rect_make 0 0 1 1\<rparr>) \<and>
   XdgPositioner_isComplete (XdgPositioner_of ((XdgPositionerData_new 0)\<lparr>pd_size := (4, 5),
     anchorEdges := {BottomEdge, LeftEdge}, pd_anchorRect := Rect_make 0 0 1 1\<rparr>))"
proof -
  have run: "positioner_run [Set_size 3 2, Set_anchor 6, Set_anchor_rect 0 0 1 1, Set_size 4 5]
      (XdgPositionerData_new 0) =
    Inr ((XdgPositionerData_new 0)\<lparr>pd_size := (4, 5), anchorEdges := {BottomEdge, LeftEdge},
      pd_anchorRect := Rect_make 0 0 1 1\<rparr>)"
    by (simp add: positioner_request_defs anchor_defs edges_of_def XdgPositionerData_new_def)
  show ?thesis
    using positioner_requests
      [of "[Set_size 3 2, Set_anchor 6, Set_anchor_rect 0 0 1 1, Set_size 4 5]" 0]
    unfolding run by auto
qed

lemma constraint_adjustment_flags:
  "flipConstraintAdjustments (xdg_positioner_set_constraint_adjustment a d) =
     {x. (x = Horizontal \<and> a AND 4 \<noteq> 0) \<or> (x = Vertical \<and> a AND 8 \<noteq> 0)}"
  "slideConstraintAdjustments (xdg_positioner_set_constraint_adjustment a d) =
     {x. (x = Horizontal \<and> a AND 1 \<noteq> 0) \<or> (x = Vertical \<and> a AND 2 \<noteq> 0)}"
  "resizeConstraintAdjustments (xdg_positioner_set_constraint_adjustment a d) =
     {x. (x = Horizontal \<and> a AND 16 \<noteq> 0) \<or> (x = Vertical \<and> a AND 32 \<noteq> 0)}"
  unfolding xdg_positioner_set_constraint_adjustment_def constraint_adjustment_defs Let_def set_flag_def
  by (auto split: if_splits intro: Orientation.exhaust)

section \<open>One axis\<close>

text \<open>Which end of the axis a set of edges selects.\<close>

datatype axis_end = Near | Far | Middle

fun near_edge :: "Orientation \<Rightarrow> Edge" where
  "near_edge Horizontal = LeftEdge"
| "near_edge Vertical = TopEdge"

fun far_edge :: "Orientation \<Rightarrow> Edge" where
  "far_edge Horizontal = RightEdge"
| "far_edge Vertical = BottomEdge"

definition axis_end_of :: "Orientation \<Rightarrow> Edge set \<Rightarrow> axis_end" where
  "axis_end_of ori E =
     (if near_edge ori \<in> E \<and> far_edge ori \<notin> E then Near
      else if far_edge ori \<in> E \<and> near_edge ori \<notin> E then Far else Middle)"

fun opposite_end :: "axis_end \<Rightarrow> axis_end" where
  "opposite_end Near = Far"
| "opposite_end Far = Near"
| "opposite_end Middle = Middle"

text \<open>The start of a popup of length \<open>len\<close> at an anchor of \<open>a\<close> with length \<open>w\<close>.\<close>

definition axis_start :: "real \<Rightarrow> real \<Rightarrow> axis_end \<Rightarrow> axis_end \<Rightarrow> real \<Rightarrow> real" where
  "axis_start a w anchor gravity len =
     (case anchor of Near \<Rightarrow> a | Far \<Rightarrow> a + w | Middle \<Rightarrow> of_int (round_half_away (a + w / 2))) +
     (case gravity of Near \<Rightarrow> - len | Far \<Rightarrow> 0 | Middle \<Rightarrow> of_int (round_half_away (- len / 2)))"

text \<open>
  The adjustments on one axis: the bounds are \<open>lo\<close> and \<open>hi\<close>, the popup starts at \<open>start\<close>, or at
  \<open>start'\<close> when it is flipped, and has length \<open>len\<close>. The result is its start and its end.
\<close>

definition place_axis ::
  "bool \<Rightarrow> bool \<Rightarrow> bool \<Rightarrow> real \<Rightarrow> real \<Rightarrow> real \<Rightarrow> real \<Rightarrow> real \<Rightarrow> real \<times> real" where
  "place_axis flip slide resize lo hi start start' len =
     (let fits = (\<lambda>x. lo \<le> x \<and> x + len \<le> hi);
          x = (if flip \<and> \<not> fits start \<and> fits start' then start' else start);
          y = (if slide then min (max x lo) (hi - len) else x);
          cut = (max y lo, min (y + len) hi)
      in if resize \<and> fst cut < snd cut then cut else (y, y + len))"

definition axis_span :: "Orientation \<Rightarrow> 'a rect \<Rightarrow> 'a \<times> 'a" where
  "axis_span ori r = (case ori of Horizontal \<Rightarrow> (m_left r, m_right r) | Vertical \<Rightarrow> (m_top r, m_bottom r))"

definition axis_coord :: "Orientation \<Rightarrow> 'a \<times> 'a \<Rightarrow> 'a" where
  "axis_coord ori p = (case ori of Horizontal \<Rightarrow> fst p | Vertical \<Rightarrow> snd p)"

text \<open>The reference: \<open>place_axis\<close> with what the positioner asks for on the axis.\<close>

definition axis_length :: "xdg_positioner \<Rightarrow> Orientation \<Rightarrow> real" where
  "axis_length p ori = of_int (axis_coord ori (pd_size (pos_d p))) / m_popupScale p"

definition asked_start :: "xdg_positioner \<Rightarrow> Orientation \<Rightarrow> (axis_end \<Rightarrow> axis_end) \<Rightarrow> real" where
  "asked_start p ori f =
     (let s = m_parentScale p; a = axis_span ori (pd_anchorRect (pos_d p))
      in axis_start (of_int (fst a) / s) (of_int (snd a) / s - of_int (fst a) / s)
           (f (axis_end_of ori (anchorEdges (pos_d p)))) (f (axis_end_of ori (gravityEdges (pos_d p))))
           (axis_length p ori) + of_int (axis_coord ori (pd_offset (pos_d p))) / s)"

definition asked_place :: "xdg_positioner \<Rightarrow> RectF \<Rightarrow> Orientation \<Rightarrow> real \<times> real" where
  "asked_place p bounds ori =
     place_axis (ori \<in> flipConstraintAdjustments (pos_d p)) (ori \<in> slideConstraintAdjustments (pos_d p))
       (ori \<in> resizeConstraintAdjustments (pos_d p)) (fst (axis_span ori bounds)) (snd (axis_span ori bounds))
       (asked_start p ori id) (asked_start p ori opposite_end) (axis_length p ori)"

section \<open>The code places each axis on its own\<close>

lemma popup_rect_span:
  "axis_span ori (popup_rect p E G) =
     (let s = m_parentScale p; a = axis_span ori (pd_anchorRect (pos_d p));
          x = axis_start (of_int (fst a) / s) (of_int (snd a) / s - of_int (fst a) / s)
                (axis_end_of ori E) (axis_end_of ori G) (axis_length p ori)
              + of_int (axis_coord ori (pd_offset (pos_d p))) / s
      in (x, x + axis_length p ori))"
proof -
  have *: "E \<inter> {a, b} = {a} \<longleftrightarrow> a \<in> E \<and> b \<notin> E" "E \<inter> {a, b} = {b} \<longleftrightarrow> b \<in> E \<and> a \<notin> E"
    if "a \<noteq> b" for E :: "Edge set" and a b
    using that by auto
  show ?thesis
    by (cases ori) (simp_all add: axis_span_def popup_rect_def popupOffset_def axis_start_def
        axis_end_of_def axis_coord_def axis_length_def XdgPositioner_size_def rect_defs Let_def *
        Rect_scaled_def RectF_scaled_def RectF_of_Rect_def)
qed

lemma axis_end_of_flipped [simp]:
  "axis_end_of ori (flipped {near_edge ori, far_edge ori} E) = opposite_end (axis_end_of ori E)"
  by (cases ori) (auto simp: axis_end_of_def flipped_def)

definition axis_fits :: "Orientation \<Rightarrow> RectF \<Rightarrow> real \<times> real \<Rightarrow> bool" where
  "axis_fits ori bounds x \<longleftrightarrow> fst (axis_span ori bounds) \<le> fst x \<and> snd x \<le> snd (axis_span ori bounds)"

lemma inBounds_axis [simp]:
  "inBounds bounds r {LeftEdge, RightEdge} \<longleftrightarrow> axis_fits Horizontal bounds (axis_span Horizontal r)"
  "inBounds bounds r {TopEdge, BottomEdge} \<longleftrightarrow> axis_fits Vertical bounds (axis_span Vertical r)"
  "inBounds bounds r {LeftEdge, RightEdge, TopEdge, BottomEdge} \<longleftrightarrow>
     axis_fits Horizontal bounds (axis_span Horizontal r) \<and> axis_fits Vertical bounds (axis_span Vertical r)"
  by (auto simp: inBounds_def axis_fits_def axis_span_def)

text \<open>The three adjustments, each on its axis; the span of the other axis stays.\<close>

definition flip_span :: "xdg_positioner \<Rightarrow> RectF \<Rightarrow> Orientation \<Rightarrow> real \<Rightarrow> real" where
  "flip_span p bounds ori x =
     (if ori \<in> flipConstraintAdjustments (pos_d p) \<and> \<not> axis_fits ori bounds (x, x + axis_length p ori) \<and>
         axis_fits ori bounds (asked_start p ori opposite_end, asked_start p ori opposite_end + axis_length p ori)
      then asked_start p ori opposite_end else x)"

lemma flipped_span:
  "axis_span ori (popup_rect p (flipped {near_edge ori, far_edge ori} (anchorEdges (pos_d p)))
                               (flipped {near_edge ori, far_edge ori} (gravityEdges (pos_d p)))) =
     (asked_start p ori opposite_end, asked_start p ori opposite_end + axis_length p ori)"
  by (simp add: popup_rect_span asked_start_def Let_def)

lemmas flipped_span_h = flipped_span [of Horizontal, simplified]
lemmas flipped_span_v = flipped_span [of Vertical, simplified]

lemma moveLeft_span: "axis_span Horizontal (Rect_moveLeft x r) = (x, x + (m_right r - m_left r))"
  "axis_span Vertical (Rect_moveLeft x r) = axis_span Vertical r" for r :: RectF
  by (simp_all add: axis_span_def rect_defs Let_def)

lemma moveTop_span: "axis_span Vertical (Rect_moveTop x r) = (x, x + (m_bottom r - m_top r))"
  "axis_span Horizontal (Rect_moveTop x r) = axis_span Horizontal r" for r :: RectF
  by (simp_all add: axis_span_def rect_defs Let_def)

lemma span_edges_h:
  assumes "axis_span Horizontal r = (a, b)"
  shows "m_left r = a" "m_right r = b"
  using assms by (simp_all add: axis_span_def)

lemma span_edges_v:
  assumes "axis_span Vertical r = (a, b)"
  shows "m_top r = a" "m_bottom r = b"
  using assms by (simp_all add: axis_span_def)

lemma flip_horizontally_span:
  assumes "axis_span Horizontal r = (x, x + axis_length p Horizontal)"
  shows "axis_span Horizontal (flip_horizontally p bounds r) =
           (flip_span p bounds Horizontal x, flip_span p bounds Horizontal x + axis_length p Horizontal)"
    and "axis_span Vertical (flip_horizontally p bounds r) = axis_span Vertical r"
  by (simp_all add: flip_horizontally_def flip_span_def Let_def moveLeft_span assms flipped_span_h
      span_edges_h [OF assms] span_edges_h [OF flipped_span_h])

lemma flip_vertically_span:
  assumes "axis_span Vertical r = (x, x + axis_length p Vertical)"
  shows "axis_span Vertical (flip_vertically p bounds r) =
           (flip_span p bounds Vertical x, flip_span p bounds Vertical x + axis_length p Vertical)"
    and "axis_span Horizontal (flip_vertically p bounds r) = axis_span Horizontal r"
  by (simp_all add: flip_vertically_def flip_span_def Let_def moveTop_span assms flipped_span_v
      span_edges_v [OF assms] span_edges_v [OF flipped_span_v])

definition slide_span :: "xdg_positioner \<Rightarrow> RectF \<Rightarrow> Orientation \<Rightarrow> real \<Rightarrow> real \<Rightarrow> real" where
  "slide_span p bounds ori len x =
     (if ori \<in> slideConstraintAdjustments (pos_d p)
      then min (max x (fst (axis_span ori bounds))) (snd (axis_span ori bounds) - len) else x)"

lemma slide_horizontally_span:
  assumes "axis_span Horizontal r = (x, x + len)"
  shows "axis_span Horizontal (slide_horizontally p bounds r) =
           (slide_span p bounds Horizontal len x, slide_span p bounds Horizontal len x + len)"
    and "axis_span Vertical (slide_horizontally p bounds r) = axis_span Vertical r"
  using assms
  by (auto simp: slide_horizontally_def slide_span_def inBounds_def rect_defs axis_span_def Let_def)

lemma slide_vertically_span:
  assumes "axis_span Vertical r = (x, x + len)"
  shows "axis_span Vertical (slide_vertically p bounds r) =
           (slide_span p bounds Vertical len x, slide_span p bounds Vertical len x + len)"
    and "axis_span Horizontal (slide_vertically p bounds r) = axis_span Horizontal r"
  using assms
  by (auto simp: slide_vertically_def slide_span_def inBounds_def rect_defs axis_span_def Let_def)

definition resize_span :: "xdg_positioner \<Rightarrow> RectF \<Rightarrow> Orientation \<Rightarrow> real \<times> real \<Rightarrow> real \<times> real" where
  "resize_span p bounds ori x =
     (let cut = (max (fst x) (fst (axis_span ori bounds)), min (snd x) (snd (axis_span ori bounds)))
      in if ori \<in> resizeConstraintAdjustments (pos_d p) \<and> fst cut < snd cut then cut else x)"

lemma resize_horizontally_span:
  assumes "m_top r < m_bottom r"
  shows "axis_span Horizontal (resize_horizontally p bounds r) =
           resize_span p bounds Horizontal (axis_span Horizontal r)"
    and "axis_span Vertical (resize_horizontally p bounds r) = axis_span Vertical r"
  using assms
  by (auto simp: resize_horizontally_def resize_span_def inBounds_def rect_defs axis_span_def Let_def)

lemma resize_vertically_span:
  assumes "m_left r < m_right r"
  shows "axis_span Vertical (resize_vertically p bounds r) =
           resize_span p bounds Vertical (axis_span Vertical r)"
    and "axis_span Horizontal (resize_vertically p bounds r) = axis_span Horizontal r"
  using assms
  by (auto simp: resize_vertically_def resize_span_def inBounds_def rect_defs axis_span_def Let_def)

lemma resize_span_proper: "fst x < snd x \<Longrightarrow> fst (resize_span p bounds ori x) < snd (resize_span p bounds ori x)"
  by (auto simp: resize_span_def Let_def)

lemma place_axis_steps:
  "asked_place p bounds ori =
     resize_span p bounds ori
       (let y = slide_span p bounds ori (axis_length p ori) (flip_span p bounds ori (asked_start p ori id))
        in (y, y + axis_length p ori))"
  by (simp only: asked_place_def place_axis_def resize_span_def slide_span_def flip_span_def
      axis_fits_def Let_def fst_conv snd_conv)

lemma asked_place_fits:
  assumes "axis_fits ori bounds (asked_start p ori id, asked_start p ori id + axis_length p ori)"
    and "0 < axis_length p ori"
  shows "asked_place p bounds ori = (asked_start p ori id, asked_start p ori id + axis_length p ori)"
  using assms by (simp add: place_axis_steps resize_span_def slide_span_def flip_span_def axis_fits_def Let_def)

lemma unadjusted_span:
  "axis_span ori (popup_rect p (anchorEdges (pos_d p)) (gravityEdges (pos_d p))) =
     (asked_start p ori id, asked_start p ori id + axis_length p ori)"
  by (simp add: popup_rect_span asked_start_def Let_def)

text \<open>A positioner that \<open>get_popup\<close> accepts, with the scales of mapped surfaces.\<close>

definition positioner_valid :: "xdg_positioner \<Rightarrow> bool" where
  "positioner_valid p \<longleftrightarrow>
     XdgPositioner_isComplete p \<and> positioner_ok (pos_d p) \<and> 0 < m_popupScale p \<and> 0 < m_parentScale p"

lemma axis_length_pos [simp]: "positioner_valid p \<Longrightarrow> 0 < axis_length p ori"
  by (cases ori) (auto simp: positioner_valid_def positioner_ok_def XdgPositioner_isComplete_def
      axis_length_def axis_coord_def)

text \<open>
  C37: For a complete positioner, placement computes each axis on its own: the left and right
  edges of the result, and likewise the top and bottom edges, are those of the reference
  definition for one axis, which flips the interval when only the flipped one fits, then clamps
  its start into the bounds, then intersects it with the bounds when the intersection is not
  empty.
\<close>
theorem placement_per_axis:
  assumes "positioner_valid p"
  shows "axis_span ori (XdgPositioner_placement p bounds) = asked_place p bounds ori"
proof -
  let ?r = "popup_rect p (anchorEdges (pos_d p)) (gravityEdges (pos_d p))"
  let ?y = "\<lambda>ori. slide_span p bounds ori (axis_length p ori) (flip_span p bounds ori (asked_start p ori id))"
  note len = axis_length_pos [OF assms]
  show ?thesis
  proof (cases "inBounds bounds ?r {LeftEdge, RightEdge, TopEdge, BottomEdge}")
    case True
    then have "axis_fits ori bounds (asked_start p ori id, asked_start p ori id + axis_length p ori)"
      by (cases ori) (simp_all add: unadjusted_span)
    then show ?thesis using True len [of ori]
      by (simp add: XdgPositioner_placement_def asked_place_fits unadjusted_span Let_def)
  next
    case False
    let ?h = "slide_horizontally p bounds (flip_horizontally p bounds ?r)"
    let ?h' = "resize_horizontally p bounds ?h"
    let ?v = "slide_vertically p bounds (flip_vertically p bounds ?h')"
    have h: "axis_span Horizontal ?h = (?y Horizontal, ?y Horizontal + axis_length p Horizontal)"
      "axis_span Vertical ?h = axis_span Vertical ?r"
      by (simp_all add: slide_horizontally_span [OF flip_horizontally_span(1) [OF unadjusted_span]]
          flip_horizontally_span [OF unadjusted_span])
    have "m_top ?h < m_bottom ?h"
      using len [of Vertical] by (simp add: span_edges_v [OF h(2) [unfolded unadjusted_span]])
    note h' = resize_horizontally_span [OF this, of p bounds, unfolded h unadjusted_span]
    have ph: "axis_span Horizontal ?h' = asked_place p bounds Horizontal"
      by (simp add: h' place_axis_steps Let_def)
    have v: "axis_span Vertical ?v = (?y Vertical, ?y Vertical + axis_length p Vertical)"
      "axis_span Horizontal ?v = axis_span Horizontal ?h'"
      by (simp_all add: slide_vertically_span [OF flip_vertically_span(1) [OF h'(2)]]
          flip_vertically_span [OF h'(2)])
    have "fst (axis_span Horizontal ?h') < snd (axis_span Horizontal ?h')"
      using len [of Horizontal] by (simp add: h'(1) resize_span_proper)
    then have "m_left ?v < m_right ?v"
      using v(2) by (simp add: axis_span_def)
    note v' = resize_vertically_span [OF this, of p bounds, unfolded v ph]
    have pl: "XdgPositioner_placement p bounds = resize_vertically p bounds ?v"
      using False by (simp only: XdgPositioner_placement_def Let_def if_False)
    show ?thesis
      by (cases ori) (simp_all only: pl v' place_axis_steps [of p bounds Vertical] Let_def)
  qed
qed

lemma placement_per_axis_witness:
  "XdgPositioner_placement
     \<lparr>pos_d = (XdgPositionerData_new 0)\<lparr>pd_size := (4, 2), pd_anchorRect := Rect_make 8 8 2 2,
        anchorEdges := {RightEdge}, gravityEdges := {RightEdge}, flipConstraintAdjustments := {Horizontal}\<rparr>,
      m_popupScale = 1, m_parentScale = 1\<rparr> \<lparr>m_left = 0, m_top = 0, m_right = 12, m_bottom = 20\<rparr> =
   \<lparr>m_left = 4, m_top = 8, m_right = 8, m_bottom = 10\<rparr>"
proof -
  let ?p = "\<lparr>pos_d = (XdgPositionerData_new 0)\<lparr>pd_size := (4, 2), pd_anchorRect := Rect_make 8 8 2 2,
        anchorEdges := {RightEdge}, gravityEdges := {RightEdge}, flipConstraintAdjustments := {Horizontal}\<rparr>,
      m_popupScale = 1, m_parentScale = 1\<rparr> :: xdg_positioner"
  let ?b = "\<lparr>m_left = 0, m_top = 0, m_right = 12, m_bottom = 20\<rparr> :: RectF"
  have v: "positioner_valid ?p"
    by (simp add: positioner_valid_def XdgPositioner_isComplete_def positioner_ok_def opposed_def rect_defs
        XdgPositionerData_new_def)
  have r: "round_half_away 9 = 9" "round_half_away (- 1) = - 1"
    by (simp_all add: round_half_away_def floor_eq_iff ceiling_eq_iff)
  have "asked_place ?p ?b Horizontal = (4, 8)" "asked_place ?p ?b Vertical = (8, 10)"
    by (simp_all add: asked_place_def asked_start_def axis_start_def axis_length_def axis_coord_def
        axis_end_of_def axis_span_def place_axis_def rect_defs Let_def r XdgPositionerData_new_def)
  then show ?thesis
    using placement_per_axis [OF v, of Horizontal ?b] placement_per_axis [OF v, of Vertical ?b]
    by (auto simp: axis_span_def intro: rect.equality)
qed

section \<open>Where the popup ends up\<close>

lemma place_axis_fits:
  fixes lo hi start start' len :: real and flip slide resize :: bool
  assumes "0 < len"
  defines "start_fits \<equiv> lo \<le> start \<and> start + len \<le> hi"
    and "res \<equiv> place_axis flip slide resize lo hi start start' len"
  shows "start_fits \<Longrightarrow> res = (start, start + len)"
    and "flip \<Longrightarrow> \<not> start_fits \<Longrightarrow> lo \<le> start' \<Longrightarrow> start' + len \<le> hi \<Longrightarrow> res = (start', start' + len)"
    and "slide \<Longrightarrow> len \<le> hi - lo \<Longrightarrow> lo \<le> fst res \<and> snd res \<le> hi \<and> snd res - fst res = len"
    and "slide \<Longrightarrow> resize \<Longrightarrow> lo < hi \<Longrightarrow>
           lo \<le> fst res \<and> snd res \<le> hi \<and> snd res - fst res = min len (hi - lo)"
    and "resize \<Longrightarrow> lo < hi \<Longrightarrow> start < hi \<Longrightarrow> lo < start + len \<Longrightarrow> lo \<le> fst res \<and> snd res \<le> hi"
    and "fst res < snd res \<and> snd res - fst res \<le> len"
    and "slide \<Longrightarrow> \<not> resize \<Longrightarrow> hi - lo < len \<Longrightarrow> res = (hi - len, hi)"
  using assms(1) unfolding res_def start_fits_def place_axis_def Let_def
  by (auto simp: min_def max_def split: if_splits)



text \<open>
  A popup that is longer than the bounds and may only slide always ends at the far end of the
  bounds, whatever its gravity: its near edge is cut off, also when it started inside the bounds.
\<close>

lemma placement_slide_long:
  assumes "positioner_valid p" and "ori \<in> slideConstraintAdjustments (pos_d p)"
    and "ori \<notin> resizeConstraintAdjustments (pos_d p)"
    and "snd (axis_span ori bounds) - fst (axis_span ori bounds) < axis_length p ori"
  shows "axis_span ori (XdgPositioner_placement p bounds) =
     (snd (axis_span ori bounds) - axis_length p ori, snd (axis_span ori bounds))"
  using assms placement_per_axis [OF assms(1), of ori bounds]
  by (simp add: asked_place_def place_axis_fits(7))

text \<open>Flipping mirrors the popup at the centre of the anchor, moved by the offset.\<close>

lemma asked_start_mirrored:
  assumes "axis_end_of ori (anchorEdges (pos_d p)) \<noteq> Middle"
    and "axis_end_of ori (gravityEdges (pos_d p)) \<noteq> Middle"
  shows "asked_start p ori id + (asked_start p ori opposite_end + axis_length p ori) =
     (of_int (fst (axis_span ori (pd_anchorRect (pos_d p)))) +
      of_int (snd (axis_span ori (pd_anchorRect (pos_d p)))) +
      2 * of_int (axis_coord ori (pd_offset (pos_d p)))) / m_parentScale p"
  using assms
  by (cases "axis_end_of ori (anchorEdges (pos_d p))"; cases "axis_end_of ori (gravityEdges (pos_d p))")
    (simp_all add: asked_start_def axis_start_def Let_def add_divide_distrib)

end
