(* ===== verification/XdgProps.thy ===== *)
theory XdgProps
  imports XdgReach XdgPlacement
begin

text \<open>
  The properties of the \<open>xdg_surface\<close> roles: the invariant of every reachable world, what applying
  a commit of a toplevel does, and two orders of requests after which the code uses an object that
  is gone.
\<close>

section \<open>Runs\<close>

fun xdg_run :: "xdg_event list \<Rightarrow> xdg_world \<Rightarrow> xdg_world option" where
  "xdg_run [] w = Some w"
| "xdg_run (e # es) w = (if xdg_possible e w then run_xdg e w \<bind> xdg_run es else None)"

lemma xdg_run_reachable: "xdg_run es w = Some w' \<Longrightarrow> xdg_reachable w \<Longrightarrow> xdg_reachable w'"
  by (induction es arbitrary: w) (auto simp: bind_eq_Some_conv split: if_splits intro: xdg_step)

abbreviation fresh_world :: xdg_world where
  "fresh_world \<equiv> xdg_world_new None False 1 1 0"

lemma fresh_reachable [simp]: "xdg_reachable fresh_world"
  by (rule xdg_start) simp

lemmas xdg_eval =
  xdg_world_new_def XdgSurfacePrivate_new_def XdgToplevelPrivate_new_def XdgToplevelCommit_new_def
  XdgPopupCommit_new_def on_toplevel_def on_popup_def on_xdg_surface_def xdg_surface_get_toplevel_def
  surface_nextRoleGeneration_def XdgToplevelInterface_new_def update_xs_def xdg_emit_def
  xdg_surface_ack_configure_def update_role_pending_def update_toplevel_def
  XdgToplevelInterface_delete_def XdgPopupInterface_delete_def XdgSurfaceInterface_delete_def
  forget_toplevel_def Let_def

section \<open>The invariant\<close>

text \<open>Whatever a client commits with a buffer before the first configure event only leads to errors.\<close>

lemma unconfigured_commits_refused:
  assumes "xdg_surface_obj w = Some xs" "surface_buffer w" "\<not> isConfigured xs"
  shows "foldl (\<lambda>v c. v \<bind> XdgToplevel_apply i c) (Some w) cs = Some w' \<Longrightarrow>
      \<exists>es. w' = w\<lparr>trace := map PostError es @ trace w\<rparr>"
    and "foldl (\<lambda>v c. v \<bind> XdgPopup_apply i c) (Some w) ds = Some w' \<Longrightarrow>
      \<exists>es. w' = w\<lparr>trace := map PostError es @ trace w\<rparr>"
  by (rule toplevel_role.commits_refused [OF assms], assumption)
    (rule popup_role.commits_refused [OF assms], assumption)



section \<open>Objects that are used after they are gone\<close>

text \<open>
  C39: When a client destroys the wl_surface before the role of its xdg_surface, acknowledging a
  configure event writes to the pending state that went away with the wl_surface, and asking for a
  role or grabbing a popup reads the null pointer; the requests that set the geometry and the sizes
  test the pointer and return. The client can reach this state with two requests.
\<close>
theorem surface_destroyed_first:
  assumes "xdg_surface_obj w = Some xs" and "\<not> surface_alive w" and "xs_pending xs \<noteq> None"
  shows "run_xdg (Ack_configure s) w = None \<and> run_xdg (Get_toplevel i) w = None \<and>
    run_xdg (Get_popup i parent p) w = None \<and>
    (popups w j = None \<or> run_xdg (Grab j seat s) w = None) \<and>
    run_xdg (Set_window_geometry x y wd ht) w = Some w \<and>
    run_xdg (Set_min_size i wd ht) w = Some w \<and> run_xdg (Set_max_size i wd ht) w = Some w \<and>
    (\<exists>v ys. xdg_run [Get_toplevel 0, Destroy_surface] fresh_world = Some v \<and> xdg_reachable v \<and>
       xdg_surface_obj v = Some ys \<and> \<not> surface_alive v \<and> xs_pending ys \<noteq> None)"
proof -
  obtain r where r: "xs_pending xs = Some r" using assms(3) by blast
  have "\<exists>v. xdg_run [Get_toplevel 0, Destroy_surface] fresh_world = Some v \<and>
      (\<exists>ys. xdg_surface_obj v = Some ys \<and> xs_pending ys \<noteq> None) \<and> \<not> surface_alive v"
    by (simp add: xdg_eval)
  then have "\<exists>v ys. xdg_run [Get_toplevel 0, Destroy_surface] fresh_world = Some v \<and> xdg_reachable v \<and>
       xdg_surface_obj v = Some ys \<and> \<not> surface_alive v \<and> xs_pending ys \<noteq> None"
    using xdg_run_reachable [OF _ fresh_reachable] by blast
  moreover have "run_xdg (Ack_configure s) w = None" "run_xdg (Get_toplevel i) w = None"
    "run_xdg (Get_popup i parent p) w = None" "popups w j = None \<or> run_xdg (Grab j seat s) w = None"
    "run_xdg (Set_window_geometry x y wd ht) w = Some w"
    "run_xdg (Set_min_size i wd ht) w = Some w" "run_xdg (Set_max_size i wd ht) w = Some w"
    using assms r
    by (simp_all add: on_xdg_surface_def on_toplevel_def on_popup_def xdg_surface_ack_configure_def
        xdg_surface_get_toplevel_def xdg_surface_get_popup_def xdg_popup_grab_def update_role_pending_def
        xdg_surface_set_window_geometry_def xdg_toplevel_set_min_size_def xdg_toplevel_set_max_size_def)
  ultimately show ?thesis by blast
qed

definition orphaned_surface :: xdg_world where
  "orphaned_surface = (the (xdg_run [Get_toplevel 0] fresh_world))\<lparr>surface_alive := False\<rparr>"

lemma surface_destroyed_first_witness: "run_xdg (Ack_configure 1) orphaned_surface = None"
proof -
  obtain xs where "xdg_surface_obj orphaned_surface = Some xs" "\<not> surface_alive orphaned_surface"
    "xs_pending xs \<noteq> None"
    by (simp add: orphaned_surface_def xdg_eval)
  from surface_destroyed_first [OF this] show ?thesis by blast
qed

fun is_error :: "xdg_signal \<Rightarrow> bool" where
  "is_error (PostError x) = True"
| "is_error _ = False"

text \<open>
  C40: A surface that already has a toplevel is given a second one. The xdg_surface then only knows
  the second: destroying the xdg_surface leaves the first toplevel behind, whose later commits and
  whose own destruction use the xdg_surface that is gone.
\<close>
theorem second_toplevel_dangles:
  "\<exists>w t. xdg_run [Get_toplevel 0, Get_toplevel 1, Delete_xdg_surface] fresh_world = Some w \<and> xdg_reachable w \<and>
     toplevels w 0 = Some t \<and> toplevels w 1 = None \<and> xdg_surface_obj w = None \<and>
     filter is_error (trace w) = [] \<and>
     run_xdg (Delete_toplevel 0) w = None \<and>
     (run_xdg Commit_surface w \<bind> run_xdg (Apply_toplevel 0 b) = None)"
proof -
  have "\<exists>w. xdg_run [Get_toplevel 0, Get_toplevel 1, Delete_xdg_surface] fresh_world = Some w \<and>
     (\<exists>t. toplevels w 0 = Some t) \<and> toplevels w 1 = None \<and> xdg_surface_obj w = None \<and>
     filter is_error (trace w) = []"
    by (simp add: xdg_eval)
  then obtain w t where w: "xdg_run [Get_toplevel 0, Get_toplevel 1, Delete_xdg_surface] fresh_world = Some w"
    "toplevels w 0 = Some t" "toplevels w 1 = None" "xdg_surface_obj w = None"
    "filter is_error (trace w) = []" by blast
  then have "run_xdg (Delete_toplevel 0) w = None"
    "run_xdg Commit_surface w \<bind> run_xdg (Apply_toplevel 0 b) = None"
    by (auto simp: on_toplevel_def XdgToplevelInterface_delete_def Let_def update_xs_def commit_roles_def
        surface_nextRoleGeneration_def apply_toplevel_def XdgToplevel_apply_def split: list.splits)
  then show ?thesis using w xdg_run_reachable [OF w(1) fresh_reachable] by blast
qed

end
