(* ===== verification/XdgConfigure.thy ===== *)
theory XdgConfigure
  imports XdgSurface
begin

text \<open>
  The window of an \<open>xdg_surface\<close>: the part of \<open>XdgSurfaceWindow\<close>
  (\<open>src/kde-kwin/src/xdgshellwindow.cpp\<close>, \<open>xdgshellwindow.h\<close>) that sends configure events, waits for
  their acknowledgement and updates the geometry of the window when the client commits, with
  \<open>Gravity\<close> (\<open>utils/gravity.cpp\<close>) and \<open>snapToPixels\<close> (\<open>core/pixelgrid.h\<close>).

  What the subclasses and the surface answer, virtual methods included, is an argument of the
  operations (\<open>window_env\<close>). \<open>ConfigurePosition\<close> is the only flag of a configure event, so flags are
  a truth value. The window sends the serial of a configure event as an unsigned 32-bit number.
\<close>

section \<open>Gravity and the pixel grid\<close>

definition Gravity_apply :: "gravity_kind \<Rightarrow> RectF \<Rightarrow> RectF \<Rightarrow> RectF" where
  "Gravity_apply kind rect bounds =
     (case kind of
        Gravity_TopLeft \<Rightarrow> Rect_moveBottom (m_bottom bounds) (Rect_moveRight (m_right bounds) rect)
      | Gravity_Top \<Rightarrow> Rect_moveBottom (m_bottom bounds) (Rect_moveLeft (m_left bounds) rect)
      | Gravity_TopRight \<Rightarrow> Rect_moveBottom (m_bottom bounds) (Rect_moveLeft (m_left bounds) rect)
      | Gravity_Right \<Rightarrow> Rect_moveTop (m_top bounds) (Rect_moveLeft (m_left bounds) rect)
      | Gravity_BottomRight \<Rightarrow> Rect_moveTop (m_top bounds) (Rect_moveLeft (m_left bounds) rect)
      | Gravity_Bottom \<Rightarrow> Rect_moveTop (m_top bounds) (Rect_moveLeft (m_left bounds) rect)
      | Gravity_None \<Rightarrow> Rect_moveTop (m_top bounds) (Rect_moveLeft (m_left bounds) rect)
      | Gravity_BottomLeft \<Rightarrow> Rect_moveTop (m_top bounds) (Rect_moveRight (m_right bounds) rect)
      | Gravity_Left \<Rightarrow> Rect_moveTop (m_top bounds) (Rect_moveRight (m_right bounds) rect))"

definition snapToPixels :: "real \<Rightarrow> real \<Rightarrow> real" where
  "snapToPixels logicalValue scale = of_int (round_half_away (logicalValue * scale)) / scale"

definition snapToPixels_point :: "real \<times> real \<Rightarrow> real \<Rightarrow> real \<times> real" where
  "snapToPixels_point p scale = (snapToPixels (fst p) scale, snapToPixels (snd p) scale)"

definition snapToPixels_size :: "real \<times> real \<Rightarrow> real \<Rightarrow> real \<times> real" where
  "snapToPixels_size s scale = (snapToPixels (fst s) scale, snapToPixels (snd s) scale)"

definition snapToPixels_rect :: "RectF \<Rightarrow> real \<Rightarrow> RectF" where
  "snapToPixels_rect r scale =
     Rect_corners (snapToPixels_point (Rect_topLeft r) scale) (snapToPixels_point (Rect_bottomRight r) scale)"

section \<open>Data\<close>

record configure_event =
  ce_bounds :: RectF
  ce_gravity :: gravity_kind
  ce_serial :: "32 word"
  ce_position :: bool
  ce_scale :: real
  ce_fullscreen :: bool

record xdg_window =
  wn_deleted :: bool
  m_configureTimer :: bool
  m_configureFlags :: bool
  m_configureEvents :: "configure_event list"
  m_lastAcknowledgedConfigure :: "configure_event option"
  m_lastAcknowledgedConfigureSerial :: "32 word option"
  m_nextGravity :: gravity_kind
  m_nextTargetScale :: real
  m_targetScale :: real
  m_windowGeometry :: RectF
  m_haveNextWindowGeometry :: bool
  wn_frameGeometry :: RectF
  wn_moveResizeGeometry :: RectF
  wn_mapped :: bool

record window_env =
  we_isConfigured :: bool
  we_buffer :: bool
  we_boundingRect :: RectF
  we_shellGeometry :: RectF
  we_interactiveMove :: bool
  we_interactiveMoveResize :: bool
  we_fullscreen :: bool
  we_nextInteractiveMoveGeometry :: "RectF \<Rightarrow> RectF"
  we_clientSizeToFrameSize :: "real \<times> real \<Rightarrow> real \<times> real"
  we_nextClientSizeToFrameSize :: "real \<times> real \<Rightarrow> real \<times> real"
  we_nextFrameSizeToClientSize :: "real \<times> real \<Rightarrow> real \<times> real"
  we_snappedSize :: "real \<times> real \<Rightarrow> real \<times> real"
  we_clientSize :: "real \<times> real"

section \<open>Configure events\<close>

definition scheduleConfigure :: "xdg_window \<Rightarrow> xdg_window" where
  "scheduleConfigure w = (if \<not> wn_deleted w then w\<lparr>m_configureTimer := True\<rparr> else w)"

text \<open>
  \<open>sendRoleConfigure\<close> asks for the geometry that the window is to get and returns an event with it and
  the serial of the event that it sent; the states of a toplevel say whether it is full screen.
\<close>

definition sendRoleConfigure :: "32 word \<Rightarrow> bool \<Rightarrow> xdg_window \<Rightarrow> configure_event" where
  "sendRoleConfigure serial fullscreen w =
     \<lparr>ce_bounds = wn_moveResizeGeometry w, ce_gravity = Gravity_None, ce_serial = serial,
      ce_position = False, ce_scale = 0, ce_fullscreen = fullscreen\<rparr>"

definition XdgSurfaceWindow_sendConfigure :: "window_env \<Rightarrow> 32 word \<Rightarrow> bool \<Rightarrow> xdg_window \<Rightarrow> xdg_window" where
  "XdgSurfaceWindow_sendConfigure env serial fullscreen w =
     (let e = sendRoleConfigure serial fullscreen w;
          e1 = (if m_configureEvents w \<noteq> []
                then e\<lparr>ce_position := ce_position (last (m_configureEvents w))\<rparr> else e);
          e2 = e1\<lparr>ce_gravity := m_nextGravity w, ce_position := ce_position e1 \<or> m_configureFlags w,
                  ce_scale := m_nextTargetScale w\<rparr>;
          w1 = w\<lparr>m_configureFlags := False\<rparr>;
          w2 = (if \<not> we_interactiveMoveResize env then w1\<lparr>m_nextGravity := Gravity_None\<rparr> else w1)
      in w2\<lparr>m_configureEvents := m_configureEvents w2 @ [e2]\<rparr>)"

text \<open>The timer is a single shot.\<close>

definition configure_timeout :: "window_env \<Rightarrow> 32 word \<Rightarrow> bool \<Rightarrow> xdg_window \<Rightarrow> xdg_window" where
  "configure_timeout env serial fullscreen w =
     (if m_configureTimer w
      then XdgSurfaceWindow_sendConfigure env serial fullscreen (w\<lparr>m_configureTimer := False\<rparr>) else w)"

definition handleConfigureAcknowledged :: "32 word \<Rightarrow> xdg_window \<Rightarrow> xdg_window" where
  "handleConfigureAcknowledged serial w = w\<lparr>m_lastAcknowledgedConfigureSerial := Some serial\<rparr>"

text \<open>The loop of \<open>handleCommit\<close>: the events and the last one that was taken.\<close>

fun take_acknowledged ::
  "32 word \<Rightarrow> configure_event list \<Rightarrow> configure_event option \<Rightarrow> configure_event list \<times> configure_event option" where
  "take_acknowledged serial [] lastAck = ([], lastAck)"
| "take_acknowledged serial (e # es) lastAck =
     (if serial < ce_serial e then (e # es, lastAck) else take_acknowledged serial es (Some e))"

definition maybeUpdateMoveResizeGeometry :: "RectF \<Rightarrow> xdg_window \<Rightarrow> xdg_window" where
  "maybeUpdateMoveResizeGeometry rect w =
     (if m_configureTimer w then w
      else if (\<exists>e\<in>set (m_configureEvents w). ce_position e) then w
      else w\<lparr>wn_moveResizeGeometry := rect\<rparr>)"

text \<open>The frame geometry that \<open>handleNextWindowGeometry\<close> computes from a client geometry.\<close>

definition next_frame :: "window_env \<Rightarrow> RectF \<Rightarrow> xdg_window \<Rightarrow> RectF" where
  "next_frame env geometry w =
     (let f = Rect_sized (Rect_topLeft (wn_frameGeometry w)) (we_clientSizeToFrameSize env (Rect_size geometry));
          f1 = (case m_lastAcknowledgedConfigure w of
                  None \<Rightarrow> f
                | Some e \<Rightarrow> if ce_position e then Gravity_apply (ce_gravity e) f (ce_bounds e) else f)
      in if we_interactiveMove env then
           let fullscreen = (case m_lastAcknowledgedConfigure w of
                               None \<Rightarrow> we_fullscreen env | Some e \<Rightarrow> ce_fullscreen e)
           in if \<not> fullscreen then we_nextInteractiveMoveGeometry env f1 else f1
         else f1)"

definition window_geometry :: "window_env \<Rightarrow> xdg_window \<Rightarrow> RectF" where
  "window_geometry env w =
     (let g = (if Rect_isValid (we_shellGeometry env)
               then Rect_intersected (we_shellGeometry env) (we_boundingRect env) else we_boundingRect env)
      in if Rect_isEmpty g then g else snapToPixels_rect g (m_targetScale w))"

definition handleNextWindowGeometry :: "window_env \<Rightarrow> xdg_window \<Rightarrow> xdg_window" where
  "handleNextWindowGeometry env w =
     (let w1 = (case m_lastAcknowledgedConfigure w of
                  None \<Rightarrow> w | Some e \<Rightarrow> w\<lparr>m_targetScale := ce_scale e\<rparr>);
          w2 = w1\<lparr>m_windowGeometry := window_geometry env w1\<rparr>;
          frameGeometry = next_frame env (m_windowGeometry w2) w2
      in (maybeUpdateMoveResizeGeometry frameGeometry w2)\<lparr>wn_frameGeometry := frameGeometry\<rparr>)"

definition haveNextWindowGeometry :: "xdg_window \<Rightarrow> bool" where
  "haveNextWindowGeometry w \<longleftrightarrow> m_haveNextWindowGeometry w \<or> m_lastAcknowledgedConfigure w \<noteq> None"

definition setHaveNextWindowGeometry :: "xdg_window \<Rightarrow> xdg_window" where
  "setHaveNextWindowGeometry w = w\<lparr>m_haveNextWindowGeometry := True\<rparr>"

definition resetHaveNextWindowGeometry :: "xdg_window \<Rightarrow> xdg_window" where
  "resetHaveNextWindowGeometry w = w\<lparr>m_haveNextWindowGeometry := False\<rparr>"

text \<open>\<open>handleRolePrecommit\<close> and \<open>handleRoleCommit\<close>, with which subclasses update decorations and states, are left out.\<close>

definition handleCommit :: "window_env \<Rightarrow> xdg_window \<Rightarrow> xdg_window" where
  "handleCommit env w =
     (if \<not> we_isConfigured env then w
      else if \<not> we_buffer env then w
      else let w1 = (case m_lastAcknowledgedConfigureSerial w of
                       None \<Rightarrow> w
                     | Some serial \<Rightarrow>
                         let (es, a) = take_acknowledged serial (m_configureEvents w) (m_lastAcknowledgedConfigure w)
                         in w\<lparr>m_configureEvents := es, m_lastAcknowledgedConfigure := a\<rparr>);
               w2 = (if haveNextWindowGeometry w1
                     then resetHaveNextWindowGeometry (handleNextWindowGeometry env w1) else w1)
           in w2\<lparr>m_lastAcknowledgedConfigure := None, m_lastAcknowledgedConfigureSerial := None, wn_mapped := True\<rparr>)"

datatype move_resize_mode = MR_None | MR_Move | MR_Resize | MR_MoveResize

definition moveResizeInternal :: "window_env \<Rightarrow> RectF \<Rightarrow> move_resize_mode \<Rightarrow> xdg_window \<Rightarrow> xdg_window" where
  "moveResizeInternal env rect mode w =
     (if mode \<noteq> MR_Move then
        let requestedFrameSize = snapToPixels_size (Rect_size rect) (m_nextTargetScale w);
            requestedClientSize = we_nextFrameSizeToClientSize env requestedFrameSize;
            roundedRequestedClientSize = we_snappedSize env requestedClientSize;
            roundedClientSize = we_snappedSize env (we_clientSize env)
        in if roundedRequestedClientSize = roundedClientSize then
             let snappedRect = Rect_sized (Rect_topLeft rect)
                   (we_nextClientSizeToFrameSize env (snapToPixels_size roundedClientSize (m_nextTargetScale w)))
             in w\<lparr>wn_frameGeometry := Gravity_apply (m_nextGravity w) snappedRect rect\<rparr>
           else scheduleConfigure (w\<lparr>m_configureFlags := True\<rparr>)
      else w\<lparr>m_configureEvents := map (\<lambda>e. e\<lparr>ce_position := False\<rparr>) (m_configureEvents w),
             m_configureFlags := False,
             wn_frameGeometry := Rect_sized (Rect_topLeft rect) (Rect_size (wn_frameGeometry w))\<rparr>)"

text \<open>\<open>Window::move\<close>, \<open>Window::resize\<close> and \<open>Window::moveResize\<close>.\<close>

definition Window_move :: "window_env \<Rightarrow> real \<times> real \<Rightarrow> xdg_window \<Rightarrow> xdg_window" where
  "Window_move env topLeft w =
     (if wn_deleted w then w
      else let rect = Rect_sized topLeft (Rect_size (wn_moveResizeGeometry w))
           in moveResizeInternal env rect MR_Move (w\<lparr>wn_moveResizeGeometry := rect\<rparr>))"

definition Window_resize :: "window_env \<Rightarrow> real \<times> real \<Rightarrow> xdg_window \<Rightarrow> xdg_window" where
  "Window_resize env sz w =
     (if wn_deleted w then w
      else let rect = Rect_sized (Rect_topLeft (wn_moveResizeGeometry w)) sz
           in moveResizeInternal env rect MR_Resize (w\<lparr>wn_moveResizeGeometry := rect\<rparr>))"

definition Window_moveResize :: "window_env \<Rightarrow> RectF \<Rightarrow> xdg_window \<Rightarrow> xdg_window" where
  "Window_moveResize env rect w =
     (if wn_deleted w then w
      else moveResizeInternal env rect MR_MoveResize (w\<lparr>wn_moveResizeGeometry := rect\<rparr>))"

definition destroyWindow :: "xdg_window \<Rightarrow> xdg_window" where
  "destroyWindow w = w\<lparr>wn_deleted := True, m_configureTimer := False, m_configureEvents := []\<rparr>"

end
