(* ===== verification/XdgConfigureProps.thy ===== *)
theory XdgConfigureProps
  imports XdgConfigure
begin

text \<open>
  The configure events of a window: in every reachable state the waiting events are ordered by their
  serials and the request to move the window reaches every later event; a commit takes exactly the
  events that the client acknowledged; and a window that is moved and resized gets the requested
  geometry when the client follows.
\<close>

section \<open>Runs\<close>

datatype window_event =
    Schedule
  | Timeout window_env bool
  | Other_serial
  | Acknowledge "32 word"
  | Commit window_env
  | Move_window window_env "real \<times> real"
  | Resize_window window_env "real \<times> real"
  | MoveResize_window window_env RectF
  | Set_gravity gravity_kind
  | Set_scale real
  | Surface_changed
  | Destroy_window

text \<open>The state with the serial that the display gave out last.\<close>

fun run_window :: "window_event \<Rightarrow> xdg_window \<times> 32 word \<Rightarrow> xdg_window \<times> 32 word" where
  "run_window Schedule (w, n) = (scheduleConfigure w, n)"
| "run_window (Timeout env fs) (w, n) = (configure_timeout env (n + 1) fs w, n + 1)"
| "run_window Other_serial (w, n) = (w, n + 1)"
| "run_window (Acknowledge s) (w, n) = (handleConfigureAcknowledged s w, n)"
| "run_window (Commit env) (w, n) = (handleCommit env w, n)"
| "run_window (Move_window env p) (w, n) = (Window_move env p w, n)"
| "run_window (Resize_window env z) (w, n) = (Window_resize env z w, n)"
| "run_window (MoveResize_window env r) (w, n) = (Window_moveResize env r w, n)"
| "run_window (Set_gravity g) (w, n) = (w\<lparr>m_nextGravity := g\<rparr>, n)"
| "run_window (Set_scale s) (w, n) = (w\<lparr>m_nextTargetScale := s\<rparr>, n)"
| "run_window Surface_changed (w, n) = (setHaveNextWindowGeometry w, n)"
| "run_window Destroy_window (w, n) = (destroyWindow w, n)"

text \<open>The serials of the display have not wrapped around.\<close>

fun window_possible :: "window_event \<Rightarrow> xdg_window \<times> 32 word \<Rightarrow> bool" where
  "window_possible (Timeout env fs) (w, n) \<longleftrightarrow> n < - 1"
| "window_possible Other_serial (w, n) \<longleftrightarrow> n < - 1"
| "window_possible _ _ \<longleftrightarrow> True"

definition xdg_window_new :: "real \<Rightarrow> RectF \<Rightarrow> xdg_window" where
  "xdg_window_new scale r =
     \<lparr>wn_deleted = False, m_configureTimer = False, m_configureFlags = False, m_configureEvents = [],
      m_lastAcknowledgedConfigure = None, m_lastAcknowledgedConfigureSerial = None,
      m_nextGravity = Gravity_None, m_nextTargetScale = scale, m_targetScale = scale,
      m_windowGeometry = Rect_null, m_haveNextWindowGeometry = False, wn_frameGeometry = r,
      wn_moveResizeGeometry = r, wn_mapped = False\<rparr>"

inductive window_reachable :: "xdg_window \<times> 32 word \<Rightarrow> bool" where
  window_start: "window_reachable (xdg_window_new scale r, n)"
| window_step: "window_reachable s \<Longrightarrow> window_possible e s \<Longrightarrow> window_reachable (run_window e s)"

section \<open>The invariant\<close>

text \<open>Serials increase, and an event with the position flag is only followed by such events.\<close>

definition events_ok :: "32 word \<Rightarrow> configure_event list \<Rightarrow> bool" where
  "events_ok n es \<longleftrightarrow>
     sorted_wrt (\<lambda>e e'. ce_serial e < ce_serial e' \<and> (ce_position e \<longrightarrow> ce_position e')) es \<and>
     (\<forall>e\<in>set es. ce_serial e \<le> n)"

definition window_ok :: "xdg_window \<times> 32 word \<Rightarrow> bool" where
  "window_ok s \<longleftrightarrow> (case s of (w, n) \<Rightarrow>
     events_ok n (m_configureEvents w) \<and> m_lastAcknowledgedConfigure w = None \<and>
     (m_configureFlags w \<longrightarrow> m_configureTimer w \<or> wn_deleted w))"

lemma events_ok_nil [simp]: "events_ok n []"
  by (simp add: events_ok_def)

lemma events_ok_mono: "events_ok n es \<Longrightarrow> n \<le> n' \<Longrightarrow> events_ok n' es"
  by (auto simp: events_ok_def)

lemma less_next: "n < - 1 \<Longrightarrow> n < n + (1 :: 32 word)"
proof -
  assume "n < - 1"
  moreover have "uint (- 1 :: 32 word) = 2 ^ 32 - 1" by (simp add: unsigned_minus_1_eq_mask mask_eq_exp_minus_1)
  ultimately have "uint n < 2 ^ 32 - 1" unfolding word_less_def by simp
  then have "uint (n + 1) = uint n + 1" by (simp add: uint_plus_if_size word_size)
  then show ?thesis by (simp add: word_less_def)
qed

lemma small_serials [simp]: "(0 :: 32 word) < - 1" "(1 :: 32 word) < - 1"
  by (simp_all add: word_less_def unsigned_minus_1_eq_mask mask_eq_exp_minus_1)

lemma events_ok_append:
  assumes "events_ok n es" "n < ce_serial e" "\<And>e'. e' \<in> set es \<Longrightarrow> ce_position e' \<Longrightarrow> ce_position e"
  shows "events_ok (ce_serial e) (es @ [e])"
  using assms by (fastforce simp: events_ok_def sorted_wrt_append)

lemma events_ok_last:
  assumes "events_ok n es" "e \<in> set es" "ce_position e"
  shows "ce_position (last es)"
proof (cases es rule: rev_cases)
  case (snoc xs l)
  then show ?thesis using assms by (auto simp: events_ok_def sorted_wrt_append)
qed (use assms in simp)

lemma events_ok_cleared: "events_ok n es \<Longrightarrow> events_ok n (map (\<lambda>e. e\<lparr>ce_position := False\<rparr>) es)"
  by (auto simp: events_ok_def sorted_wrt_map elim: sorted_wrt_mono_rel [rotated])

section \<open>What a commit takes\<close>

lemma take_acknowledged_sorted:
  assumes "sorted_wrt (\<lambda>e e'. ce_serial e < ce_serial e') es"
  shows "take_acknowledged s es a =
     (filter (\<lambda>e. s < ce_serial e) es,
      (case filter (\<lambda>e. ce_serial e \<le> s) es of [] \<Rightarrow> a | _ \<Rightarrow> Some (last (filter (\<lambda>e. ce_serial e \<le> s) es))))"
  using assms
proof (induction es arbitrary: a)
  case (Cons e es)
  show ?case
  proof (cases "s < ce_serial e")
    case True
    then have "\<forall>e'\<in>set es. s < ce_serial e'" using Cons.prems by auto
    then have "filter (\<lambda>e. s < ce_serial e) es = es" "filter (\<lambda>e. ce_serial e \<le> s) es = []"
      by (auto simp: filter_id_conv filter_empty_conv not_le)
    then show ?thesis using True by (simp add: not_le [symmetric])
  next
    case False
    then show ?thesis using Cons by (auto simp: not_less split: list.splits)
  qed
qed simp

lemma events_ok_sorted: "events_ok n es \<Longrightarrow> sorted_wrt (\<lambda>e e'. ce_serial e < ce_serial e') es"
  by (auto simp: events_ok_def elim: sorted_wrt_mono_rel [rotated])

lemma events_ok_filter: "events_ok n es \<Longrightarrow> events_ok n (filter P es)"
  by (auto simp: events_ok_def sorted_wrt_filter)

text \<open>The state of a commit after the events were taken.\<close>

definition acknowledged :: "xdg_window \<Rightarrow> xdg_window" where
  "acknowledged w =
     (case m_lastAcknowledgedConfigureSerial w of
        None \<Rightarrow> w
      | Some s \<Rightarrow> (let (es, a) = take_acknowledged s (m_configureEvents w) (m_lastAcknowledgedConfigure w)
                  in w\<lparr>m_configureEvents := es, m_lastAcknowledgedConfigure := a\<rparr>))"

lemma handleCommit_acknowledged:
  "handleCommit env w =
     (if we_isConfigured env \<and> we_buffer env
      then (let w1 = acknowledged w;
                w2 = (if haveNextWindowGeometry w1
                      then resetHaveNextWindowGeometry (handleNextWindowGeometry env w1) else w1)
            in w2\<lparr>m_lastAcknowledgedConfigure := None, m_lastAcknowledgedConfigureSerial := None, wn_mapped := True\<rparr>)
      else w)"
  by (simp add: handleCommit_def acknowledged_def)

lemma handleNextWindowGeometry_keeps [simp]:
  "m_configureEvents (handleNextWindowGeometry env w) = m_configureEvents w"
  "m_configureFlags (handleNextWindowGeometry env w) = m_configureFlags w"
  "m_configureTimer (handleNextWindowGeometry env w) = m_configureTimer w"
  "wn_deleted (handleNextWindowGeometry env w) = wn_deleted w"
  by (simp_all add: handleNextWindowGeometry_def maybeUpdateMoveResizeGeometry_def Let_def split: option.splits)

lemma handleCommit_keeps:
  "m_configureFlags (handleCommit env w) = m_configureFlags w"
  "m_configureTimer (handleCommit env w) = m_configureTimer w"
  "wn_deleted (handleCommit env w) = wn_deleted w"
  by (simp_all add: handleCommit_acknowledged resetHaveNextWindowGeometry_def acknowledged_def Let_def
      split: option.splits prod.splits)

lemma acknowledged_events:
  assumes "events_ok n (m_configureEvents w)"
  shows "m_configureEvents (acknowledged w) =
     (case m_lastAcknowledgedConfigureSerial w of
        None \<Rightarrow> m_configureEvents w | Some s \<Rightarrow> filter (\<lambda>e. s < ce_serial e) (m_configureEvents w))"
  using take_acknowledged_sorted [OF events_ok_sorted [OF assms]]
  by (auto simp: acknowledged_def split: option.splits)

lemma handleCommit_events:
  "m_configureEvents (handleCommit env w) =
     (if we_isConfigured env \<and> we_buffer env then m_configureEvents (acknowledged w) else m_configureEvents w)"
  by (simp add: handleCommit_acknowledged resetHaveNextWindowGeometry_def Let_def)

section \<open>Every step keeps the invariant\<close>

lemma moveResizeInternal_ok:
  assumes "window_ok (w, n)" "\<not> wn_deleted w"
  shows "window_ok (moveResizeInternal env r mode (w\<lparr>wn_moveResizeGeometry := r\<rparr>), n)"
  using assms
  by (auto simp: moveResizeInternal_def scheduleConfigure_def window_ok_def Let_def events_ok_cleared)

lemma sendConfigure_ok:
  assumes "window_ok (w, n)" "n < - 1"
  shows "window_ok (XdgSurfaceWindow_sendConfigure env (n + 1) fs (w\<lparr>m_configureTimer := False\<rparr>), n + 1)"
proof -
  let ?w' = "XdgSurfaceWindow_sendConfigure env (n + 1) fs (w\<lparr>m_configureTimer := False\<rparr>)"
  obtain e where e: "m_configureEvents ?w' = m_configureEvents w @ [e]" "ce_serial e = n + 1"
    "m_configureEvents w \<noteq> [] \<Longrightarrow> ce_position (last (m_configureEvents w)) \<Longrightarrow> ce_position e"
    by (simp add: XdgSurfaceWindow_sendConfigure_def sendRoleConfigure_def Let_def)
  have ev: "events_ok n (m_configureEvents w)" using assms(1) by (simp add: window_ok_def)
  have "events_ok (ce_serial e) (m_configureEvents w @ [e])"
  proof (rule events_ok_append [OF ev])
    show "n < ce_serial e" using less_next [OF assms(2)] by (simp add: e(2))
    fix e' assume "e' \<in> set (m_configureEvents w)" "ce_position e'"
    then show "ce_position e" using e(3) events_ok_last [OF ev] by (metis empty_iff empty_set)
  qed
  then show ?thesis using assms(1) e(1,2)
    by (simp add: window_ok_def XdgSurfaceWindow_sendConfigure_def Let_def)
qed

lemma window_step_ok:
  assumes ok: "window_ok s" and p: "window_possible e s"
  shows "window_ok (run_window e s)"
proof -
  obtain w n where s: "s = (w, n)" by (cases s)
  have ok': "window_ok (w, n)" using ok by (simp add: s)
  show ?thesis
  proof (cases e)
    case (Timeout env fs)
    then have "n < - 1" using p s by simp
    then show ?thesis using sendConfigure_ok [OF ok'] events_ok_mono [of n _ "n + 1"] less_next [of n] ok'
      by (auto simp: Timeout s configure_timeout_def window_ok_def)
  next
    case Other_serial
    then show ?thesis using p ok' events_ok_mono [of n _ "n + 1"] less_next [of n] by (auto simp: s window_ok_def)
  next
    case (Commit env)
    have "events_ok n (m_configureEvents w)" using ok' by (simp add: window_ok_def)
    then have "events_ok n (m_configureEvents (acknowledged w))"
      by (auto simp: acknowledged_events events_ok_filter split: option.splits)
    then show ?thesis using ok'
      by (auto simp: Commit s window_ok_def handleCommit_keeps handleCommit_events)
        (auto simp: handleCommit_acknowledged Let_def)
  next
    case (Move_window env q)
    then show ?thesis using ok' moveResizeInternal_ok [OF ok'] by (simp add: s Window_move_def Let_def)
  next
    case (Resize_window env z)
    then show ?thesis using ok' moveResizeInternal_ok [OF ok'] by (simp add: s Window_resize_def Let_def)
  next
    case (MoveResize_window env r)
    then show ?thesis using ok' moveResizeInternal_ok [OF ok'] by (simp add: s Window_moveResize_def)
  qed (use ok' in \<open>auto simp: s window_ok_def scheduleConfigure_def handleConfigureAcknowledged_def
      setHaveNextWindowGeometry_def destroyWindow_def\<close>)
qed

lemma window_reachable_ok: "window_reachable s \<Longrightarrow> window_ok s"
proof (induction rule: window_reachable.induct)
  case (window_start scale r n)
  then show ?case by (simp add: window_ok_def xdg_window_new_def)
qed (rule window_step_ok)

section \<open>Gravity\<close>

definition pulls_left :: "gravity_kind \<Rightarrow> bool" where
  "pulls_left k \<longleftrightarrow> k \<in> {Gravity_Left, Gravity_TopLeft, Gravity_BottomLeft}"

definition pulls_up :: "gravity_kind \<Rightarrow> bool" where
  "pulls_up k \<longleftrightarrow> k \<in> {Gravity_Top, Gravity_TopLeft, Gravity_TopRight}"

text \<open>The size is kept, and the edges opposite to the gravity are those of the bounds.\<close>

definition held :: "gravity_kind \<Rightarrow> RectF \<Rightarrow> RectF \<Rightarrow> bool" where
  "held k bounds r \<longleftrightarrow>
     (if pulls_left k then m_right r = m_right bounds else m_left r = m_left bounds) \<and>
     (if pulls_up k then m_bottom r = m_bottom bounds else m_top r = m_top bounds)"

lemma Gravity_apply_size [simp]: "Rect_size (Gravity_apply k r bounds) = Rect_size r"
  by (cases k) (simp_all add: Gravity_apply_def rect_defs Let_def)

lemma Gravity_apply_held: "held k bounds (Gravity_apply k r bounds)"
  by (cases k) (simp_all add: held_def pulls_left_def pulls_up_def Gravity_apply_def rect_defs Let_def)

lemma held_same_size:
  assumes "held k bounds r" "Rect_size r = Rect_size bounds"
  shows "r = (bounds :: RectF)"
  using assms by (auto simp: held_def rect_defs split: if_splits intro!: rect.equality)

lemma Rect_sized_size' [simp]: "Rect_size (Rect_sized p z) = z" for z :: "real \<times> real"
  by (cases z) (simp add: rect_defs)

section \<open>Commits\<close>

lemma taken_event:
  assumes "events_ok n es" "e \<in> set es" "ce_serial e = s"
  shows "take_acknowledged s es a = (filter (\<lambda>e. s < ce_serial e) es, Some e)"
proof -
  have so: "sorted_wrt (\<lambda>e e'. ce_serial e < ce_serial e') es" using assms(1) by (rule events_ok_sorted)
  obtain xs ys where es: "es = xs @ e # ys" using assms(2) by (meson split_list)
  then have "filter (\<lambda>e. ce_serial e \<le> s) es = xs @ [e]"
    using so assms(3) by (auto simp: sorted_wrt_append filter_id_conv filter_empty_conv not_le)
  then show ?thesis by (cases xs) (simp_all add: take_acknowledged_sorted [OF so])
qed

text \<open>
  C35: In every reachable state, a commit with a buffer of a configured window drops exactly the
  configure events up to the acknowledged serial and keeps the later ones, which stay ordered. If the
  acknowledged event is waiting, the window takes its scale, and when the event asks for a position
  and the window is not being dragged, the new frame has the size that the client committed and keeps
  the requested edges on the side opposite to the gravity, so that a window resized at its left or
  top edge does not move its right or bottom edge.
\<close>
theorem commit_takes_acknowledged:
  assumes "window_reachable (w, n)" and "we_isConfigured env" and "we_buffer env"
    and "m_lastAcknowledgedConfigureSerial w = Some s"
  defines "w' \<equiv> handleCommit env w"
  shows "m_configureEvents w' = filter (\<lambda>e. s < ce_serial e) (m_configureEvents w) \<and>
    events_ok n (m_configureEvents w') \<and> m_lastAcknowledgedConfigureSerial w' = None \<and> wn_mapped w' \<and>
    (\<forall>e\<in>set (m_configureEvents w). ce_serial e = s \<longrightarrow>
       m_targetScale w' = ce_scale e \<and>
       (ce_position e \<and> \<not> we_interactiveMove env \<longrightarrow>
          Rect_size (wn_frameGeometry w') = we_clientSizeToFrameSize env (Rect_size (m_windowGeometry w')) \<and>
          held (ce_gravity e) (ce_bounds e) (wn_frameGeometry w')))"
proof -
  have ok: "window_ok (w, n)" using assms(1) by (rule window_reachable_ok)
  have ev: "events_ok n (m_configureEvents w)" using ok by (simp add: window_ok_def)
  have taken: "m_configureEvents w' = filter (\<lambda>e. s < ce_serial e) (m_configureEvents w)"
    using assms by (simp add: handleCommit_events acknowledged_events [OF ev])
  have rest: "m_lastAcknowledgedConfigureSerial w' = None" "wn_mapped w'"
    using assms by (simp_all add: handleCommit_acknowledged Let_def)
  have last: "m_targetScale w' = ce_scale e \<and>
      (ce_position e \<and> \<not> we_interactiveMove env \<longrightarrow>
         Rect_size (wn_frameGeometry w') = we_clientSizeToFrameSize env (Rect_size (m_windowGeometry w')) \<and>
         held (ce_gravity e) (ce_bounds e) (wn_frameGeometry w'))"
    if e: "e \<in> set (m_configureEvents w)" "ce_serial e = s" for e
  proof -
    have ack: "acknowledged w = w\<lparr>m_configureEvents := filter (\<lambda>e. s < ce_serial e) (m_configureEvents w),
        m_lastAcknowledgedConfigure := Some e\<rparr>"
      using taken_event [OF ev e] assms(4) by (simp add: acknowledged_def)
    then show ?thesis using assms(2,3)
      by (auto simp: w'_def handleCommit_acknowledged haveNextWindowGeometry_def resetHaveNextWindowGeometry_def
          handleNextWindowGeometry_def maybeUpdateMoveResizeGeometry_def next_frame_def Gravity_apply_held Let_def)
  qed
  show ?thesis using taken ev rest last by (simp add: events_ok_filter)
qed

definition plain_env :: window_env where
  "plain_env = \<lparr>we_isConfigured = True, we_buffer = True, we_boundingRect = Rect_make 0 0 80 60,
     we_shellGeometry = Rect_null, we_interactiveMove = False, we_interactiveMoveResize = False,
     we_fullscreen = False, we_nextInteractiveMoveGeometry = id, we_clientSizeToFrameSize = id,
     we_nextClientSizeToFrameSize = id, we_nextFrameSizeToClientSize = id, we_snappedSize = id,
     we_clientSize = (0, 0)\<rparr>"

lemma commit_takes_acknowledged_witness:
  "\<exists>w. window_reachable (w, 2) \<and> map ce_serial (m_configureEvents w) = [1, 2] \<and>
     map ce_serial (m_configureEvents (handleCommit plain_env (handleConfigureAcknowledged 1 w))) = [2]"
proof -
  let ?r = "\<lparr>m_left = 0, m_top = 0, m_right = 10, m_bottom = 10\<rparr> :: RectF"
  let ?s0 = "(xdg_window_new 1 ?r, 0 :: 32 word)"
  let ?s1 = "run_window (Timeout plain_env False) (run_window Schedule ?s0)"
  let ?s2 = "run_window (Timeout plain_env False) (run_window Schedule ?s1)"
  have r0: "window_reachable (run_window Schedule ?s0)" by (rule window_step [OF window_start]) simp
  have r1: "window_reachable (run_window Schedule ?s1)"
    by (rule window_step, rule window_step [OF r0]) (simp_all add: scheduleConfigure_def)
  have r2: "window_reachable ?s2"
    by (rule window_step [OF r1]) (simp add: scheduleConfigure_def configure_timeout_def xdg_window_new_def)
  obtain w where w: "?s2 = (w, 2)" "map ce_serial (m_configureEvents w) = [1, 2]"
    by (simp add: scheduleConfigure_def configure_timeout_def xdg_window_new_def
        XdgSurfaceWindow_sendConfigure_def sendRoleConfigure_def plain_env_def Let_def)
  have reach: "window_reachable (w, 2)" using r2 w(1) by simp
  have "window_reachable (run_window (Acknowledge 1) (w, 2))" by (rule window_step [OF reach]) simp
  then have "window_reachable (handleConfigureAcknowledged 1 w, 2)" by simp
  from commit_takes_acknowledged [OF this, of plain_env 1]
  have "m_configureEvents (handleCommit plain_env (handleConfigureAcknowledged 1 w)) =
      filter (\<lambda>e. 1 < ce_serial e) (m_configureEvents w)"
    by (simp add: plain_env_def handleConfigureAcknowledged_def)
  then have "map ce_serial (m_configureEvents (handleCommit plain_env (handleConfigureAcknowledged 1 w))) =
      filter (\<lambda>s. 1 < s) (map ce_serial (m_configureEvents w))"
    by (simp add: filter_map o_def)
  then show ?thesis using reach w(2) by auto
qed

section \<open>Moving and resizing\<close>

lemma handleNextWindowGeometry_position:
  assumes "m_lastAcknowledgedConfigure w = Some e" "ce_position e" "\<not> we_interactiveMove env"
    and "\<not> m_configureTimer w" "m_configureEvents w = []"
  defines "f \<equiv> Gravity_apply (ce_gravity e) (Rect_sized (Rect_topLeft (wn_frameGeometry w))
    (we_clientSizeToFrameSize env (Rect_size (window_geometry env (w\<lparr>m_targetScale := ce_scale e\<rparr>))))) (ce_bounds e)"
  shows "wn_frameGeometry (handleNextWindowGeometry env w) = f"
    and "wn_moveResizeGeometry (handleNextWindowGeometry env w) = f"
  using assms(1-5)
  by (simp_all add: handleNextWindowGeometry_def next_frame_def maybeUpdateMoveResizeGeometry_def f_def Let_def)

text \<open>
  C34: When a window is moved and resized to a rectangle and the client follows (it acknowledges the
  configure event that the timer sends next and commits a surface of the requested size), the frame
  of the window is exactly that rectangle, whatever the gravity, and no configure event is left
  waiting.
\<close>
theorem moveResize_arrives:
  fixes env1 :: window_env and fs :: bool
  assumes "window_reachable (w, n)" and "n < - 1" and "\<not> wn_deleted w"
    and "we_snappedSize env0 (we_nextFrameSizeToClientSize env0
           (snapToPixels_size (Rect_size r) (m_nextTargetScale w))) \<noteq> we_snappedSize env0 (we_clientSize env0)"
    and "we_isConfigured env" and "we_buffer env" and "\<not> we_interactiveMove env"
    and "we_clientSizeToFrameSize env
           (Rect_size (window_geometry env (w\<lparr>m_targetScale := m_nextTargetScale w\<rparr>))) = Rect_size r"
  defines "s \<equiv> run_window (Commit env) (run_window (Acknowledge (n + 1))
      (run_window (Timeout env1 fs) (run_window (MoveResize_window env0 r) (w, n))))"
  shows "window_reachable s \<and> wn_frameGeometry (fst s) = r \<and> wn_moveResizeGeometry (fst s) = r \<and>
    m_configureEvents (fst s) = []"
proof -
  have ok: "window_ok (w, n)" using assms(1) by (rule window_reachable_ok)
  then have ev: "events_ok n (m_configureEvents w)" by (simp add: window_ok_def)
  define w1 where "w1 = w\<lparr>wn_moveResizeGeometry := r, m_configureFlags := True, m_configureTimer := True\<rparr>"
  have w1: "run_window (MoveResize_window env0 r) (w, n) = (w1, n)"
    using assms(3,4) by (simp add: Window_moveResize_def moveResizeInternal_def scheduleConfigure_def w1_def Let_def)
  define e where "e = \<lparr>ce_bounds = r, ce_gravity = m_nextGravity w, ce_serial = n + 1, ce_position = True,
      ce_scale = m_nextTargetScale w, ce_fullscreen = fs\<rparr>"
  define g where "g = (if we_interactiveMoveResize env1 then m_nextGravity w else Gravity_None)"
  have w2: "run_window (Timeout env1 fs) (w1, n) = (w1\<lparr>m_configureTimer := False, m_configureFlags := False,
      m_nextGravity := g, m_configureEvents := m_configureEvents w @ [e]\<rparr>, n + 1)" (is "_ = (?w2, _)")
    by (cases "we_interactiveMoveResize env1"; cases "m_configureEvents w = []")
      (simp_all add: configure_timeout_def XdgSurfaceWindow_sendConfigure_def sendRoleConfigure_def w1_def e_def
        g_def Let_def)
  have reach: "window_reachable s"
    unfolding s_def w1 w2 using assms(1,2) w1 w2 by (metis window_possible.simps(1,4,5,8) window_step)
  have "window_ok (w1, n)" using window_step_ok [OF ok, of "MoveResize_window env0 r"] unfolding w1 by simp
  then have "window_ok (?w2, n + 1)" using window_step_ok [of "(w1, n)" "Timeout env1 fs"] assms(2) unfolding w2 by simp
  then have ev2: "events_ok (n + 1) (m_configureEvents w @ [e])" by (simp add: window_ok_def)
  have gone: "filter (\<lambda>e. n + 1 < ce_serial e) (m_configureEvents w @ [e]) = []"
    using ev2 by (auto simp: events_ok_def filter_empty_conv not_less)
  let ?w3 = "handleConfigureAcknowledged (n + 1) ?w2"
  have ack: "acknowledged ?w3 = ?w3\<lparr>m_configureEvents := [], m_lastAcknowledgedConfigure := Some e\<rparr>"
    using taken_event [OF ev2, of e "n + 1"] gone
    by (simp add: acknowledged_def handleConfigureAcknowledged_def e_def)
  define f where "f = Gravity_apply (m_nextGravity w) (Rect_sized (Rect_topLeft (wn_frameGeometry w)) (Rect_size r)) r"
  have f: "f = r" using held_same_size [OF Gravity_apply_held] by (simp add: f_def)
  have geo: "window_geometry env (?w3\<lparr>m_configureEvents := [], m_lastAcknowledgedConfigure := Some e,
      m_targetScale := m_nextTargetScale w\<rparr>) = window_geometry env (w\<lparr>m_targetScale := m_nextTargetScale w\<rparr>)"
    by (simp add: window_geometry_def Let_def)
  have a: "m_lastAcknowledgedConfigure (acknowledged ?w3) = Some e" "ce_position e" "\<not> we_interactiveMove env"
    "\<not> m_configureTimer (acknowledged ?w3)" "m_configureEvents (acknowledged ?w3) = []"
    using assms(7) unfolding ack by (simp_all add: e_def handleConfigureAcknowledged_def)
  have "wn_frameGeometry (handleNextWindowGeometry env (acknowledged ?w3)) = f"
    "wn_moveResizeGeometry (handleNextWindowGeometry env (acknowledged ?w3)) = f"
    unfolding handleNextWindowGeometry_position [OF a] unfolding ack f_def using geo assms(8)
    by (simp_all add: e_def handleConfigureAcknowledged_def w1_def)
  then have "wn_frameGeometry (handleCommit env ?w3) = f \<and> wn_moveResizeGeometry (handleCommit env ?w3) = f \<and>
      m_configureEvents (handleCommit env ?w3) = []"
    using assms(5,6) a(1,5)
    by (simp add: handleCommit_acknowledged haveNextWindowGeometry_def resetHaveNextWindowGeometry_def Let_def)
  moreover have "s = (handleCommit env ?w3, n + 1)" unfolding s_def w1 w2 by simp
  ultimately show ?thesis using reach f by simp
qed

lemma moveResize_arrives_witness:
  "wn_frameGeometry (fst (run_window (Commit plain_env) (run_window (Acknowledge 1)
     (run_window (Timeout plain_env False) (run_window (MoveResize_window (plain_env\<lparr>we_clientSize := (5, 5)\<rparr>)
        \<lparr>m_left = 10, m_top = 20, m_right = 90, m_bottom = 80\<rparr>)
        (xdg_window_new 1 \<lparr>m_left = 0, m_top = 0, m_right = 5, m_bottom = 5\<rparr>, 0)))))) =
   \<lparr>m_left = 10, m_top = 20, m_right = 90, m_bottom = 80\<rparr>"
proof -
  let ?w = "xdg_window_new 1 \<lparr>m_left = 0, m_top = 0, m_right = 5, m_bottom = 5\<rparr>"
  let ?r = "\<lparr>m_left = 10, m_top = 20, m_right = 90, m_bottom = 80\<rparr> :: RectF"
  have round: "round_half_away 80 = 80" "round_half_away 60 = 60" "round_half_away 0 = 0"
    by (simp_all add: round_half_away_def floor_eq_iff)
  have "we_snappedSize (plain_env\<lparr>we_clientSize := (5, 5)\<rparr>)
      (we_nextFrameSizeToClientSize (plain_env\<lparr>we_clientSize := (5, 5)\<rparr>)
        (snapToPixels_size (Rect_size ?r) (m_nextTargetScale ?w))) \<noteq>
    we_snappedSize (plain_env\<lparr>we_clientSize := (5, 5)\<rparr>) (we_clientSize (plain_env\<lparr>we_clientSize := (5, 5)\<rparr>))"
    by (simp add: plain_env_def snapToPixels_size_def snapToPixels_def xdg_window_new_def rect_defs round)
  moreover have "we_clientSizeToFrameSize plain_env
      (Rect_size (window_geometry plain_env (?w\<lparr>m_targetScale := m_nextTargetScale ?w\<rparr>))) = Rect_size ?r"
    by (simp add: plain_env_def window_geometry_def snapToPixels_rect_def snapToPixels_point_def snapToPixels_def
        xdg_window_new_def rect_defs round Let_def)
  moreover have "\<not> wn_deleted ?w" "we_isConfigured plain_env" "we_buffer plain_env" "\<not> we_interactiveMove plain_env"
    by (simp_all add: plain_env_def xdg_window_new_def)
  ultimately have "wn_frameGeometry (fst (run_window (Commit plain_env) (run_window (Acknowledge (0 + 1))
      (run_window (Timeout plain_env False) (run_window (MoveResize_window (plain_env\<lparr>we_clientSize := (5, 5)\<rparr>) ?r)
        (?w, 0)))))) = ?r"
    using moveResize_arrives [OF window_start small_serials(1)] by blast
  then show ?thesis by simp
qed

text \<open>
  Serials are compared as numbers. Once they wrap around, an event that was sent before is never
  taken by the acknowledgement of one that was sent after.
\<close>

lemma wrapped_serial_taken_never:
  assumes "ce_serial e = - 1" and "s < - 1"
  shows "take_acknowledged s (e # es) a = (e # es, a)"
  using assms by simp

end
