(* ===== verification/XdgPing.thy ===== *)
theory XdgPing
  imports Prelude "HOL-Library.Word"
begin

text \<open>
  \<open>xdg_wm_base\<close>, \<open>XdgShellInterface\<close> of \<open>src/kde-kwin/src/wayland/xdgshell.cpp\<close>: which client resource each
  \<open>xdg_surface\<close> belongs to, and the pings that wait for an answer. A ping has a timer that fires twice;
  the first time the ping is delayed, the second time it has timed out. Serials are those of the
  display; a new ping never has the serial of a waiting one, as \<open>wl_display_next_serial\<close> counts up.
\<close>

datatype shell_signal =
    SendPing nat "32 word"
  | PingDelayed "32 word"
  | PingTimeout "32 word"
  | PongReceived "32 word"
  | DefunctSurfaces

record xdg_shell =
  pings :: "32 word \<Rightarrow> nat option"
  xdgSurfaces :: "(nat \<times> nat) list"
  shell_serial :: "32 word"
  shell_trace :: "shell_signal list"

definition shell_emit :: "shell_signal \<Rightarrow> xdg_shell \<Rightarrow> xdg_shell" where
  "shell_emit e w = w\<lparr>shell_trace := e # shell_trace w\<rparr>"

definition resourceForXdgSurface :: "nat \<Rightarrow> xdg_shell \<Rightarrow> nat option" where
  "resourceForXdgSurface surface w = map_of (xdgSurfaces w) surface"

definition unregisterXdgSurface :: "nat \<Rightarrow> xdg_shell \<Rightarrow> xdg_shell" where
  "unregisterXdgSurface surface w = w\<lparr>xdgSurfaces := filter (\<lambda>p. fst p \<noteq> surface) (xdgSurfaces w)\<rparr>"

text \<open>\<open>insert\<close> replaces what the hash holds for the surface.\<close>

definition xdg_wm_base_get_xdg_surface :: "nat \<Rightarrow> nat \<Rightarrow> xdg_shell \<Rightarrow> xdg_shell" where
  "xdg_wm_base_get_xdg_surface resource xdgSurface w =
     w\<lparr>xdgSurfaces := (xdgSurface, resource) # filter (\<lambda>p. fst p \<noteq> xdgSurface) (xdgSurfaces w)\<rparr>"

text \<open>The result says whether the resource is destroyed.\<close>

definition xdg_wm_base_destroy :: "nat \<Rightarrow> xdg_shell \<Rightarrow> bool \<times> xdg_shell" where
  "xdg_wm_base_destroy resource w =
     (if \<exists>p\<in>set (xdgSurfaces w). snd p = resource then (False, shell_emit DefunctSurfaces w) else (True, w))"

text \<open>The surfaces that are deleted with the resource; each of them unregisters itself.\<close>

definition xdg_wm_base_destroy_resource :: "nat \<Rightarrow> xdg_shell \<Rightarrow> xdg_shell" where
  "xdg_wm_base_destroy_resource resource w =
     fold unregisterXdgSurface (map fst (filter (\<lambda>p. snd p = resource) (xdgSurfaces w))) w"

definition registerPing :: "32 word \<Rightarrow> xdg_shell \<Rightarrow> xdg_shell" where
  "registerPing serial w = w\<lparr>pings := (pings w)(serial \<mapsto> 0)\<rparr>"

text \<open>The timer of a ping; \<open>attempt\<close> is counted in its lambda.\<close>

definition ping_timeout :: "32 word \<Rightarrow> xdg_shell \<Rightarrow> xdg_shell" where
  "ping_timeout serial w =
     (case pings w serial of
        None \<Rightarrow> w
      | Some attempt \<Rightarrow>
          if attempt + 1 = 1 then shell_emit (PingDelayed serial) (w\<lparr>pings := (pings w)(serial \<mapsto> attempt + 1)\<rparr>)
          else (shell_emit (PingTimeout serial) w)\<lparr>pings := (pings w)(serial := None)\<rparr>)"

definition xdg_wm_base_pong :: "32 word \<Rightarrow> xdg_shell \<Rightarrow> xdg_shell" where
  "xdg_wm_base_pong serial w = shell_emit (PongReceived serial) (w\<lparr>pings := (pings w)(serial := None)\<rparr>)"

definition XdgShell_ping :: "nat \<Rightarrow> xdg_shell \<Rightarrow> 32 word \<times> xdg_shell" where
  "XdgShell_ping surface w =
     (case resourceForXdgSurface surface w of
        None \<Rightarrow> (0, w)
      | Some resource \<Rightarrow>
          let serial = shell_serial w + 1
          in (serial, registerPing serial (shell_emit (SendPing resource serial) (w\<lparr>shell_serial := serial\<rparr>))))"

lemmas ping_defs =
  shell_emit_def registerPing_def ping_timeout_def xdg_wm_base_pong_def XdgShell_ping_def

section \<open>Answers\<close>

text \<open>A client that answers is neither delayed nor timed out by that ping any more.\<close>

lemma pong_ends_ping:
  "shell_trace (ping_timeout s (xdg_wm_base_pong s w)) = PongReceived s # shell_trace w"
  by (simp add: ping_defs)

text \<open>A client that does not answer is first delayed and then timed out, once.\<close>

lemma ping_unanswered:
  assumes "resourceForXdgSurface surface w = Some c" and "XdgShell_ping surface w = (s, w')"
  shows "shell_trace ((ping_timeout s ^^ (n + 2)) w') = [PingTimeout s, PingDelayed s, SendPing c s] @ shell_trace w"
proof -
  define v where "v = (ping_timeout s ^^ 2) w'"
  have v: "pings v s = None" "shell_trace v = [PingTimeout s, PingDelayed s, SendPing c s] @ shell_trace w"
    using assms by (auto simp: v_def ping_defs Let_def numeral_2_eq_2)
  have "(ping_timeout s ^^ n) v = v"
    using v(1) by (induction n) (simp_all add: ping_timeout_def)
  moreover have "(ping_timeout s ^^ (n + 2)) w' = (ping_timeout s ^^ n) v"
    unfolding v_def funpow_add o_apply ..
  ultimately show ?thesis using v(2) by (simp only:)
qed

lemma unregisterXdgSurface_resource [simp]:
  "resourceForXdgSurface s (unregisterXdgSurface t w) = (if s = t then None else resourceForXdgSurface s w)"
proof -
  have "map_of (filter (\<lambda>p. fst p \<noteq> t) ps) s = (if s = t then None else map_of ps s)" for ps :: "(nat \<times> nat) list"
    by (induction ps) auto
  then show ?thesis by (simp add: resourceForXdgSurface_def unregisterXdgSurface_def)
qed

text \<open>After the resource is gone no surface belongs to it, and the surfaces of others are kept.\<close>

lemma destroy_resource_surfaces:
  assumes "distinct (map fst (xdgSurfaces w))"
  shows "resourceForXdgSurface s (xdg_wm_base_destroy_resource c w) =
     (if resourceForXdgSurface s w = Some c then None else resourceForXdgSurface s w)"
proof -
  have fold: "resourceForXdgSurface s (fold unregisterXdgSurface ts w) =
      (if s \<in> set ts then None else resourceForXdgSurface s w)" for ts w
    by (induction ts arbitrary: w) auto
  have "s \<in> set (map fst (filter (\<lambda>p. snd p = c) (xdgSurfaces w))) \<longleftrightarrow> resourceForXdgSurface s w = Some c"
    using map_of_eq_Some_iff [OF assms, of s c] by (force simp: resourceForXdgSurface_def)
  then show ?thesis by (simp add: xdg_wm_base_destroy_resource_def fold)
qed

end
