(* ===== verification/Spec2Isabelle.thy ===== *)
theory Spec2Isabelle
  imports RegionProps FocusChainProps VirtualDesktopsProps StackingProps GesturesProps StickyKeysProps KeyFilters OutputTransform SurfaceProps
    RectEdges XdgProps XdgConfigureProps XdgPing
begin

text \<open>
  A verification development for core logic of the KWin compositor (\<open>src/kde-kwin/src\<close>).

  Each part has one theory with the data and operations of the code, theories with the lemmas about them,
  and a theory \<open>...Props\<close> with the properties, each after a text with its number. In the order of import:

  \<^item> \<open>Prelude\<close>: collections of simplification rules and lemmas on lists.
  \<^item> \<open>Rect\<close>: \<open>Rect\<close> and \<open>RectF\<close> of \<open>core/rect.h\<close>, one polymorphic record of the four edges, and the
    set of points a rectangle covers.
  \<^item> \<open>RegionRects\<close>: what the rectangle list of a \<open>Region\<close> promises (bands of separated spans, as the
    class comment of \<open>core/region.h\<close> says), and that this representation is canonical.
  \<^item> \<open>RegionBands\<close>: the band operations of \<open>core/region.cpp\<close> (\<open>sliceBand\<close>, \<open>mergeBands\<close>,
    \<open>organizeBand\<close>, \<open>subtractBands\<close>, \<open>xorBands\<close>, \<open>intersectBands\<close>, \<open>coalesceBands\<close>).
  \<^item> \<open>RegionSweep\<close>, \<open>RegionAlgebra\<close>: the sweeps \<open>unite\<close>, \<open>subtract\<close>, \<open>exclusiveOr\<close>, \<open>intersect\<close>, and their
    correctness through a generic sweep whose row operation is the parameter of a locale.
  \<^item> \<open>Region\<close>, \<open>RegionSpec\<close>, \<open>RegionTests\<close>, \<open>RegionOps\<close>: the class \<open>Region\<close> (and, at type \<open>real\<close>,
    \<open>RegionF\<close>), its invariant and point semantics, its tests and its set operations.
  \<^item> \<open>RegionBuild\<close>, \<open>RegionMap\<close>, \<open>RegionStream\<close>: regions from lists of rectangles, operations that
    move the edges, and the stream operators.
  \<^item> \<open>RegionProps\<close>: the properties of these classes.
  \<^item> \<open>FocusChain\<close>, \<open>FocusChainProps\<close>: the class \<open>FocusChain\<close> of \<open>focuschain.cpp\<close>; its edits of one chain
    satisfy the locale \<open>chain_edit\<close>, and the public operations are the events of a step relation.
  \<^item> \<open>DesktopGrid\<close>: \<open>VirtualDesktopGrid\<close> of \<open>virtualdesktops.cpp\<close>, the layout of desktops in rows, and the
    navigation on it. \<open>VirtualDesktops\<close>: \<open>VirtualDesktopManager\<close> with the desktops, the current desktop
    of each output, and saving to and loading from the configuration. \<open>VirtualDesktopsInv\<close>,
    \<open>VirtualDesktopsSteps\<close>, \<open>VirtualDesktopsEvents\<close>: its invariant, what each operation keeps of it,
    and the reachable states. \<open>VirtualDesktopsProps\<close>: the properties.
  \<^item> \<open>Constraints\<close>: the graph of stacking constraints of \<open>workspace.cpp\<close>. \<open>Stacking\<close>: the stacking order of
    \<open>layers.cpp\<close> with its operations; what windows, groups and the X server answer is the record
    \<open>window_queries\<close>. \<open>StackingOrder\<close>, \<open>StackingOps\<close>, \<open>StackingInv\<close>, \<open>StackingFamily\<close>, \<open>StackingMoves\<close>,
    \<open>StackingEvents\<close>: the pass over the constraints, the operations, the invariant, families of
    transients, and what moving them does. \<open>StackingProps\<close>: the properties.
  \<^item> \<open>Gestures\<close>, \<open>GesturesSteps\<close>, \<open>GesturesProps\<close>: \<open>GestureRecognizer\<close> of \<open>gestures.cpp\<close>; its operations, the
    signals each gesture gets, and the properties of runs.
  \<^item> \<open>StickyKeys\<close>, \<open>StickyKeysProps\<close>: the filter of \<open>plugins/stickykeys\<close> with \<open>setModifierLatched\<close> and
    \<open>setModifierLocked\<close> of \<open>xkb.cpp\<close> on 32-bit masks. \<open>KeyFilters\<close>: the filters of
    \<open>plugins/bouncekeys\<close>, \<open>plugins/slowkeys\<close> and \<open>plugins/mousekeys\<close>.
  \<^item> \<open>OutputTransform\<close>: rotations and flips of \<open>core/output.cpp\<close> on points, rectangles, sizes and regions.
  \<^item> \<open>SurfaceState\<close>: the double-buffered state of a Wayland surface and its merging (\<open>wayland/surface_p.h\<close>,
    \<open>wayland/surface.cpp\<close>). \<open>Surfaces\<close>: surfaces and subsurfaces as objects of one store, the walks in their
    tree, mapping, geometry, and applying a state. \<open>Transactions\<close>: \<open>wayland/transaction.cpp\<close>.
    \<open>SurfaceRequests\<close>: the requests of clients, constructors and destructors (\<open>wayland/surface.cpp\<close>,
    \<open>wayland/subcompositor.cpp\<close>). An operation returns \<open>None\<close> where the code uses an object that was deleted
    or recurses without end.
  \<^item> \<open>TransactionQueues\<close>: the links between transactions alone, with the list of commits as their abstract
    specification. \<open>SurfaceFrames\<close>: what applying a state leaves alone, and when it returns.
    \<open>TransactionRuns\<close>, \<open>TransactionOrder\<close>, \<open>TransactionCommit\<close>: \<open>tryApply\<close> and \<open>commit\<close> refine the list of
    commits. \<open>TransactionProps\<close>: the properties, for trees without cycles in which no surface with children is
    unmapped on the way. The field \<open>applied\<close> of the store is not in the code; it records the order.
  \<^item> \<open>SurfaceTypes\<close>, \<open>SurfaceSteps\<close>, \<open>SurfaceReach\<close>: the locales \<open>store_type\<close> and \<open>request_type\<close>, whose laws every
    request keeps, and their interpretations. \<open>SurfaceErrors\<close>, \<open>SurfaceProps\<close>: runs of requests on concrete
    stores, and the properties, among them three ways in which clients make the compositor stuck.

  \<^item> \<open>RectEdges\<close>: the remaining methods of \<open>core/rect.h\<close>: corners, setters of edges, the other moves.
  \<^item> \<open>XdgPositioner\<close>: the requests of \<open>xdg_positioner\<close> and \<open>placement\<close> (\<open>wayland/xdgshell.cpp\<close>).
    \<open>XdgPlacement\<close>: which requests are accepted, the placement of one axis as reference definition, its
    equivalence with the code and the bounds of the result.
  \<^item> \<open>XdgSurface\<close>: an \<open>xdg_surface\<close> with its toplevels and popups: requests, applied commits, configure
    events and destructors. \<open>XdgReach\<close>: its runs and their invariant; applying a commit is the operation of
    the locale \<open>xdg_role\<close>, interpreted for toplevels and for popups. \<open>XdgProps\<close>: the properties, among them
    two orders of requests after which the code uses objects that are gone.
  \<^item> \<open>XdgConfigure\<close>: \<open>XdgSurfaceWindow\<close> of \<open>xdgshellwindow.cpp\<close>, which sends configure events and updates the
    geometry of the window on commits, with \<open>utils/gravity.cpp\<close> and \<open>core/pixelgrid.h\<close>; the answers of
    subclasses are the record \<open>window_env\<close>. \<open>XdgConfigureProps\<close>: its invariant and properties, as long as the
    serials of the display do not wrap around.
  \<^item> \<open>XdgPing\<close>: \<open>xdg_wm_base\<close>, its pings and the surfaces of a client.

  Coordinates of \<open>Region\<close> are unbounded integers. The tests and set operations only compare
  coordinates and select them by \<open>min\<close> and \<open>max\<close>, and the model of them is polymorphic in the linear
  order, so they behave on 32-bit values as they do here. \<open>translate\<close> and \<open>grownBy\<close> add; signed
  overflow there is undefined behaviour in C++ and outside the model. \<open>qreal\<close> is modelled by \<open>real\<close>.

  Loops that end are recursive functions with the measures proved with them. Loops whose end depends on
  the data (navigation that skips holes of the grid, the walks along transients and constraints) are
  partial functions into \<open>option\<close>, and the properties prove that they return; no fuel is used.

  Where an operation asks another object (a window, a group, an output, the configuration, xkbcommon,
  the X server, buffers, the kernel), the answers are arguments of the model, and properties name what they need of them.

  Not modelled: drawing and scene graph, the other Wayland and X11 protocol objects, tiling and placement, backends for outputs and input
  devices, effects and scripts, and the other projects of the repository; of \<open>Window\<close> only the geometry
  in \<open>XdgConfigure\<close> is modelled, otherwise it appears through the answers that the modelled parts ask for.
\<close>

end
